(* ===== verification/Prelude.thy ===== *)
theory Prelude
  imports Main "HOL-Library.Word" "HOL-Library.Monad_Syntax"
begin

text \<open>
  The vocabulary shared by every theory of the development: the machine types of the
  C sources (x86-64, LP64), \<open>size_t\<close> arithmetic on \<open>nat\<close> with the wrap-around written
  out, memory objects as byte lists with checked access, and the error numbers of
  \<open>kernel/sys/errno.h\<close>.

  Two conventions hold everywhere.
  \<^item> An access the C standard leaves undefined and that the machine would carry out on
    somebody else's memory (a null dereference, an index past the end of an object, a
    read of an object that was never initialised) is the value \<open>None\<close>; a model function
    returns \<open>Some\<close> exactly when the C function stays inside its memory objects.
  \<^item> An error the code reports is a value of the C return type, \<open>- EINVAL\<close> and the like.
\<close>

section \<open>Machine types\<close>

type_synonym u8 = "8 word"
type_synonym u16 = "16 word"
type_synonym u32 = "32 word"
type_synonym u64 = "64 word"

named_theorems wrap64 "size_t arithmetic that does not wrap"
named_theorems memobj "checked access to memory objects"

section \<open>\<open>size_t\<close> arithmetic\<close>

text \<open>
  Sizes and indices are natural numbers below \<open>2 ^ 64\<close>; sums and differences that may
  leave the range are written with the operations below, which wrap as \<open>size_t\<close> does.
\<close>

abbreviation (input) SIZE_MOD :: nat where
  "SIZE_MOD \<equiv> 18446744073709551616"

definition add64 :: "nat \<Rightarrow> nat \<Rightarrow> nat" where
  "add64 a b = (a + b) mod SIZE_MOD"

definition sub64 :: "nat \<Rightarrow> nat \<Rightarrow> nat" where
  "sub64 a b = (a + (SIZE_MOD - b mod SIZE_MOD)) mod SIZE_MOD"

lemma add64_id [wrap64]: "a + b < SIZE_MOD \<Longrightarrow> add64 a b = a + b"
  by (simp add: add64_def)

lemma sub64_id [wrap64]: "b \<le> a \<Longrightarrow> a < SIZE_MOD \<Longrightarrow> sub64 a b = a - b"
proof -
  assume "b \<le> a" and "a < SIZE_MOD"
  then have "a + (SIZE_MOD - b mod SIZE_MOD) = (a - b) + SIZE_MOD" by simp
  then show ?thesis using \<open>a < SIZE_MOD\<close> by (simp add: sub64_def)
qed

lemma sub64_wrap: "a < b \<Longrightarrow> b < SIZE_MOD \<Longrightarrow> sub64 a b = SIZE_MOD - (b - a)"
  by (simp add: sub64_def)

lemma add64_less [simp]: "add64 a b < SIZE_MOD"
  by (simp add: add64_def)

lemma sub64_less [simp]: "sub64 a b < SIZE_MOD"
  by (simp add: sub64_def)

lemma add64_sub64_cancel: "b \<le> SIZE_MOD \<Longrightarrow> a < SIZE_MOD \<Longrightarrow> add64 (sub64 a b) b = a"
  by (cases "b = SIZE_MOD") (auto simp: add64_def sub64_def mod_simps)

section \<open>Memory objects\<close>

text \<open>
  A memory object (an array, a malloc'd block) is the list of its cells, and a pointer into
  it is an offset. \<open>mem_read\<close> and \<open>mem_write\<close> are the reading and the writing half of a
  \<open>memcpy\<close>; both fail when the range leaves the object.
\<close>

definition mem_read :: "'a list \<Rightarrow> nat \<Rightarrow> nat \<Rightarrow> 'a list option" where
  "mem_read xs off n = (if off + n \<le> length xs then Some (take n (drop off xs)) else None)"

definition mem_write :: "'a list \<Rightarrow> nat \<Rightarrow> 'a list \<Rightarrow> 'a list option" where
  "mem_write xs off ys =
     (if off + length ys \<le> length xs
      then Some (take off xs @ ys @ drop (off + length ys) xs) else None)"

definition mem_load :: "'a list \<Rightarrow> nat \<Rightarrow> 'a option" where
  "mem_load xs i = (if i < length xs then Some (xs ! i) else None)"

definition mem_store :: "'a list \<Rightarrow> nat \<Rightarrow> 'a \<Rightarrow> 'a list option" where
  "mem_store xs i v = (if i < length xs then Some (xs[i := v]) else None)"

lemma mem_read_Some [memobj]: "off + n \<le> length xs \<Longrightarrow> mem_read xs off n = Some (take n (drop off xs))"
  by (simp add: mem_read_def)

lemma mem_write_Some [memobj]:
  "off + length ys \<le> length xs \<Longrightarrow>
   mem_write xs off ys = Some (take off xs @ ys @ drop (off + length ys) xs)"
  by (simp add: mem_write_def)

lemma mem_load_Some [memobj]: "i < length xs \<Longrightarrow> mem_load xs i = Some (xs ! i)"
  by (simp add: mem_load_def)

lemma mem_store_Some [memobj]: "i < length xs \<Longrightarrow> mem_store xs i v = Some (xs[i := v])"
  by (simp add: mem_store_def)

lemma tl_drop_Suc [simp]: "tl (drop n xs) = drop (Suc n) xs"
  by (simp add: drop_Suc tl_drop)

lemma mem_store_append:
  "length xs = q \<Longrightarrow> ys \<noteq> [] \<Longrightarrow> mem_store (xs @ ys) q v = Some (xs @ v # tl ys)"
  by (cases ys) (auto simp: mem_store_def)

lemma mem_read_length: "mem_read xs off n = Some ys \<Longrightarrow> length ys = n"
  by (auto simp: mem_read_def split: if_splits)

lemma mem_write_length: "mem_write xs off ys = Some zs \<Longrightarrow> length zs = length xs"
  by (auto simp: mem_write_def split: if_splits)

lemma mem_store_length: "mem_store xs i v = Some zs \<Longrightarrow> length zs = length xs"
  by (auto simp: mem_store_def split: if_splits)

text \<open>Reading back what a copy wrote.\<close>

lemma mem_read_write_same:
  "mem_write xs off ys = Some zs \<Longrightarrow> mem_read zs off (length ys) = Some ys"
  by (auto simp: mem_read_def mem_write_def split: if_splits)

lemma bind_SomeE:
  "Option.bind m f = Some y \<Longrightarrow> (\<And>x. m = Some x \<Longrightarrow> f x = Some y \<Longrightarrow> thesis) \<Longrightarrow> thesis"
  by (cases m) auto

section \<open>Error numbers\<close>

abbreviation (input) EPERM :: int where "EPERM \<equiv> 1"
abbreviation (input) ENOENT :: int where "ENOENT \<equiv> 2"
abbreviation (input) EBADF :: int where "EBADF \<equiv> 9"
abbreviation (input) EACCES :: int where "EACCES \<equiv> 13"
abbreviation (input) EFAULT :: int where "EFAULT \<equiv> 14"
abbreviation (input) EEXIST :: int where "EEXIST \<equiv> 17"
abbreviation (input) ENOTDIR :: int where "ENOTDIR \<equiv> 20"
abbreviation (input) EISDIR :: int where "EISDIR \<equiv> 21"
abbreviation (input) EINVAL :: int where "EINVAL \<equiv> 22"
abbreviation (input) ESPIPE :: int where "ESPIPE \<equiv> 29"
abbreviation (input) EROFS :: int where "EROFS \<equiv> 30"
abbreviation (input) ENOTEMPTY :: int where "ENOTEMPTY \<equiv> 39"
abbreviation (input) ERESTART :: int where "ERESTART \<equiv> 85"

section \<open>Loops over a range\<close>

text \<open>The statement loop \<open>for (i : is) body\<close> on an explicit state.\<close>

fun for_each :: "'i list \<Rightarrow> ('i \<Rightarrow> 's \<Rightarrow> 's option) \<Rightarrow> 's \<Rightarrow> 's option" where
  "for_each [] f s = Some s"
| "for_each (i # is) f s = do { s \<leftarrow> f i s; for_each is f s }"

lemma for_each_append: "for_each (is @ js) f s = Option.bind (for_each is f s) (for_each js f)"
  by (induction "is" arbitrary: s) (auto split: Option.bind_split)

lemma for_each_one [simp]: "for_each [i] f = f i"
  by (rule ext) (simp split: Option.bind_split)

lemma for_each_none [simp]: "Option.bind x (for_each [] f) = x"
  by (cases x) auto

text \<open>An invariant of the body, under which the body always succeeds, is one of the loop.\<close>

lemma for_each_invariant:
  assumes "\<And>i s. i \<in> set is \<Longrightarrow> P s \<Longrightarrow> \<exists>s'. f i s = Some s' \<and> P s'" and "P s"
  shows "\<exists>s'. for_each is f s = Some s' \<and> P s'"
  using assms
proof (induction "is" arbitrary: s)
  case (Cons i "is")
  from Cons.prems(1) [of i s] Cons.prems(2) obtain s1 where "f i s = Some s1" "P s1" by auto
  with Cons.IH [of s1] Cons.prems(1) show ?case by simp
qed simp

end
