(* ===== verification/Kmem.thy ===== *)
theory Kmem
  imports Prelude
begin

unbundle bit_operations_syntax

text \<open>
  Byte-addressed kernel memory: little-endian loads and stores of machine words and the
  block copies of \<open>kernel/lib/string.c\<close> between two addresses. The allocator's headers, the
  page tables and the block lists of tmpfs files are read and written through these.
\<close>

type_synonym bytes_at = "u64 \<Rightarrow> u8"

section \<open>Words\<close>

fun kload :: "nat \<Rightarrow> bytes_at \<Rightarrow> u64 \<Rightarrow> 'a :: len word" where
  "kload 0 km a = 0"
| "kload (Suc n) km a = ucast (km a) OR push_bit 8 (kload n km (a + 1))"

definition kstore :: "nat \<Rightarrow> bytes_at \<Rightarrow> u64 \<Rightarrow> 'a :: len word \<Rightarrow> bytes_at" where
  "kstore n km a v = (\<lambda>x. if unat (x - a) < n then ucast (drop_bit (8 * unat (x - a)) v) else km x)"

abbreviation load64 :: "bytes_at \<Rightarrow> u64 \<Rightarrow> u64" where "load64 \<equiv> kload 8"
abbreviation store64 :: "bytes_at \<Rightarrow> u64 \<Rightarrow> u64 \<Rightarrow> bytes_at" where "store64 \<equiv> kstore 8"
abbreviation load16 :: "bytes_at \<Rightarrow> u64 \<Rightarrow> u16" where "load16 \<equiv> kload 2"
abbreviation store16 :: "bytes_at \<Rightarrow> u64 \<Rightarrow> u16 \<Rightarrow> bytes_at" where "store16 \<equiv> kstore 2"

section \<open>Blocks\<close>

definition kcopy :: "bytes_at \<Rightarrow> u64 \<Rightarrow> u64 \<Rightarrow> nat \<Rightarrow> bytes_at" where
  "kcopy km dst src n = (\<lambda>x. if unat (x - dst) < n then km (src + (x - dst)) else km x)"

definition kset :: "bytes_at \<Rightarrow> u64 \<Rightarrow> u8 \<Rightarrow> nat \<Rightarrow> bytes_at" where
  "kset km dst v n = (\<lambda>x. if unat (x - dst) < n then v else km x)"

definition kread :: "bytes_at \<Rightarrow> u64 \<Rightarrow> nat \<Rightarrow> u8 list" where
  "kread km a n = map (\<lambda>i. km (a + of_nat i)) [0..<n]"

definition kwrite :: "bytes_at \<Rightarrow> u64 \<Rightarrow> u8 list \<Rightarrow> bytes_at" where
  "kwrite km a ys = (\<lambda>x. if unat (x - a) < length ys then ys ! unat (x - a) else km x)"

section \<open>Laws\<close>

text \<open>\<open>in_range x a n\<close>: the address \<open>x\<close> is one of the \<open>n\<close> bytes from \<open>a\<close> on.\<close>

definition in_range :: "u64 \<Rightarrow> u64 \<Rightarrow> nat \<Rightarrow> bool" where
  "in_range x a n \<longleftrightarrow> unat (x - a) < n"

definition apart :: "u64 \<Rightarrow> nat \<Rightarrow> u64 \<Rightarrow> nat \<Rightarrow> bool" where
  "apart a n b m \<longleftrightarrow> (\<forall>x. \<not> (in_range x a n \<and> in_range x b m))"

lemma in_range_offset: "i < n \<Longrightarrow> n < SIZE_MOD \<Longrightarrow> in_range (a + of_nat i) a n"
  by (simp add: in_range_def unat_of_nat)

lemma bit_kload:
  "bit (kload n km a :: 'a :: len word) k \<longleftrightarrow>
     k < LENGTH('a) \<and> k div 8 < n \<and> bit (km (a + of_nat (k div 8))) (k mod 8)"
proof (induction n km a arbitrary: k rule: kload.induct)
  case (2 n km a)
  show ?case
  proof (cases "k < 8")
    case True
    then show ?thesis by (auto simp: bit_or_iff bit_push_bit_iff bit_unsigned_iff)
  next
    case False
    then obtain j where k: "k = j + 8" by (metis add.commute le_Suc_ex not_less)
    have "\<not> bit (km a) k" using bit_imp_le_length [of "km a" k] False by auto
    moreover have "a + of_nat (Suc (j div 8)) = a + 1 + of_nat (j div 8)" by simp
    moreover have "k div 8 = Suc (j div 8)" "k mod 8 = j mod 8" using k by auto
    ultimately show ?thesis using 2 [of j] k by (simp add: bit_or_iff bit_push_bit_iff bit_unsigned_iff) (auto simp: add.assoc)
  qed
qed simp

lemma kload_kstore_same:
  "LENGTH('a) = 8 * n \<Longrightarrow> n < SIZE_MOD \<Longrightarrow> kload n (kstore n km a v) a = (v :: 'a :: len word)"
proof (rule bit_word_eqI)
  fix k
  assume len: "LENGTH('a) = 8 * n" and "n < SIZE_MOD" and k: "k < LENGTH('a)"
  then have "k div 8 < n" by (simp add: less_mult_imp_div_less)
  moreover from this have "unat (a + of_nat (k div 8) - a) = k div 8"
    using \<open>n < SIZE_MOD\<close> by (simp add: unat_of_nat)
  moreover have "8 * (k div 8) + k mod 8 = k" by (rule mult_div_mod_eq)
  ultimately show "bit (kload n (kstore n km a v) a :: 'a word) k = bit v k"
    using k by (simp add: bit_kload kstore_def bit_simps)
qed

lemma kload_cong:
  "(\<And>i. i < n \<Longrightarrow> km (a + of_nat i) = km' (a + of_nat i)) \<Longrightarrow> kload n km a = (kload n km' a :: 'a :: len word)"
  by (rule bit_word_eqI) (auto simp: bit_kload)

lemma kload_kstore_apart:
  "apart a n b m \<Longrightarrow> n < SIZE_MOD \<Longrightarrow> kload n (kstore m km b v) a = (kload n km a :: 'a :: len word)"
  using in_range_offset [of _ n a]
  by (intro kload_cong) (auto simp: apart_def kstore_def in_range_def)

lemma kstore_outside: "\<not> in_range x a n \<Longrightarrow> kstore n km a v x = km x"
  by (simp add: kstore_def in_range_def)

lemma kcopy_outside: "\<not> in_range x a n \<Longrightarrow> kcopy km a b n x = km x"
  by (simp add: kcopy_def in_range_def)

lemma kset_outside: "\<not> in_range x a n \<Longrightarrow> kset km a v n x = km x"
  by (simp add: kset_def in_range_def)

lemma kwrite_outside: "\<not> in_range x a (length ys) \<Longrightarrow> kwrite km a ys x = km x"
  by (simp add: kwrite_def in_range_def)

lemma length_kread [simp]: "length (kread km a n) = n"
  by (simp add: kread_def)

lemma kread_cong:
  "n < SIZE_MOD \<Longrightarrow> (\<And>x. in_range x a n \<Longrightarrow> km x = km' x) \<Longrightarrow> kread km a n = kread km' a n"
  using in_range_offset [of _ n a] by (simp add: kread_def)

lemma kread_kwrite_same: "length ys < SIZE_MOD \<Longrightarrow> kread (kwrite km a ys) a (length ys) = ys"
  by (rule nth_equalityI) (auto simp: kread_def kwrite_def unat_of_nat)

lemma kread_kcopy: "n < SIZE_MOD \<Longrightarrow> kread (kcopy km dst src n) dst n = kread km src n"
  by (rule nth_equalityI) (auto simp: kread_def kcopy_def unat_of_nat)

lemma kread_kset: "n < SIZE_MOD \<Longrightarrow> kread (kset km dst v n) dst n = replicate n v"
  by (rule nth_equalityI) (auto simp: kread_def kset_def unat_of_nat)

lemma in_range_iff:
  "unat a + n \<le> SIZE_MOD \<Longrightarrow> in_range x a n \<longleftrightarrow> unat a \<le> unat x \<and> unat x < unat a + n"
proof -
  assume n: "unat a + n \<le> SIZE_MOD"
  show ?thesis
  proof (cases "unat a \<le> unat x")
    case True
    then have "unat (x - a) = unat x - unat a" by (simp add: unat_sub word_le_nat_alt)
    then show ?thesis using True by (auto simp: in_range_def)
  next
    case False
    then have "unat (x - a) = SIZE_MOD + unat x - unat a"
      using unsigned_less [of a, where ?'a = nat] by (simp add: unat_sub_if_size word_size word_le_nat_alt)
    then show ?thesis using False n by (simp add: in_range_def)
  qed
qed

lemma in_range_mono: "in_range x (a + of_nat k) n \<Longrightarrow> k + n \<le> m \<Longrightarrow> m < SIZE_MOD \<Longrightarrow> in_range x a m"
proof -
  assume "in_range x (a + of_nat k) n" and km: "k + n \<le> m" "m < SIZE_MOD"
  then have lt: "unat (x - (a + of_nat k)) < n" by (simp add: in_range_def)
  have "x - a = (x - (a + of_nat k)) + of_nat k" by simp
  then have "unat (x - a) \<le> unat (x - (a + of_nat k)) + unat (of_nat k :: u64)"
    by (metis unat_plus_if_size le_add1 le_refl le_diff_conv add.commute diff_le_self)
  also have "unat (of_nat k :: u64) = k" using km by (simp add: unat_of_nat)
  finally show ?thesis using lt km by (simp add: in_range_def)
qed

lemma in_range_shift: "in_range x (a + b) n = in_range (x - a) b n"
  by (simp add: in_range_def diff_diff_eq)

lemma apart_offsets:
  assumes "i + n \<le> j \<or> j + m \<le> i" and "i + n < SIZE_MOD" and "j + m < SIZE_MOD"
  shows "apart (a + of_nat i) n (a + of_nat j) m"
  unfolding apart_def in_range_shift using assms
  by (auto simp: in_range_iff unat_of_nat)

lemma apart_sym: "apart a n b m \<Longrightarrow> apart b m a n"
  by (auto simp: apart_def)

end
