(* ===== verification/Ringbuffer.thy ===== *)
theory Ringbuffer
  imports Prelude
begin

text \<open>
  \<open>kernel/lib/ringbuffer.c\<close>: the byte queue behind every pseudo terminal. The model keeps
  the C fields and index arithmetic; the locale \<open>byte_fifo\<close> states what a client of the
  queue relies on, and the ring buffer is shown to provide it.
\<close>

section \<open>The ring buffer of the kernel\<close>

record ringbuffer =
  rb_buffer :: "u8 list"
  rb_ridx :: nat
  rb_widx :: nat
  rb_size :: nat

text \<open>
  \<open>malloc\<close> returns memory with arbitrary contents, the argument \<open>garbage\<close>.
\<close>

definition ringbuffer_alloc :: "u8 list \<Rightarrow> nat \<Rightarrow> ringbuffer" where
  "ringbuffer_alloc garbage s =
     \<lparr>rb_buffer = take s (garbage @ replicate s 0), rb_ridx = 0, rb_widx = 0, rb_size = s\<rparr>"

definition ringbuffer_avail :: "ringbuffer \<Rightarrow> nat" where
  "ringbuffer_avail rb =
     (if rb_ridx rb = rb_widx rb then sub64 (rb_size rb) 1
      else if rb_ridx rb > rb_widx rb then sub64 (sub64 (rb_ridx rb) (rb_widx rb)) 1
      else sub64 (add64 (sub64 (rb_size rb) (rb_widx rb)) (rb_ridx rb)) 1)"

definition ringbuffer_readable :: "ringbuffer \<Rightarrow> nat" where
  "ringbuffer_readable rb =
     (if rb_ridx rb = rb_widx rb then 0
      else if rb_ridx rb > rb_widx rb
           then add64 (sub64 (rb_size rb) (rb_ridx rb)) (rb_widx rb)
      else sub64 (rb_widx rb) (rb_ridx rb))"

definition ringbuffer_write :: "ringbuffer \<Rightarrow> nat \<Rightarrow> u8 list \<Rightarrow> (ringbuffer \<times> nat) option" where
  "ringbuffer_write rb n buffer =
     (let avail = ringbuffer_avail rb;
          n = (if avail < n then avail else n)
      in if add64 (rb_widx rb) n \<ge> rb_size rb then
           (let to_end = sub64 (rb_size rb) (rb_widx rb) in do {
              mem \<leftarrow> (if to_end \<noteq> 0
                     then Option.bind (mem_read buffer 0 to_end) (mem_write (rb_buffer rb) (rb_widx rb))
                     else Some (rb_buffer rb));
              rest \<leftarrow> mem_read buffer to_end (sub64 n to_end);
              mem \<leftarrow> mem_write mem 0 rest;
              Some (rb\<lparr>rb_buffer := mem, rb_widx := sub64 n to_end\<rparr>, n)
            })
         else do {
              bytes \<leftarrow> mem_read buffer 0 n;
              mem \<leftarrow> mem_write (rb_buffer rb) (rb_widx rb) bytes;
              Some (rb\<lparr>rb_buffer := mem, rb_widx := add64 (rb_widx rb) n\<rparr>, n)
            })"

text \<open>
  \<open>ringbuffer_read\<close> copies into the caller's \<open>buffer\<close>; the model returns the ring, the
  updated buffer and the count.
\<close>

definition ringbuffer_read ::
  "ringbuffer \<Rightarrow> nat \<Rightarrow> u8 list \<Rightarrow> (ringbuffer \<times> u8 list \<times> nat) option" where
  "ringbuffer_read rb n buffer =
     (let avail = ringbuffer_readable rb;
          n = (if avail < n then avail else n)
      in if add64 (rb_ridx rb) n \<ge> rb_size rb then
           (let to_end = sub64 (rb_size rb) (rb_ridx rb) in do {
              buffer \<leftarrow> (if to_end \<noteq> 0
                        then Option.bind (mem_read (rb_buffer rb) (rb_ridx rb) to_end) (mem_write buffer 0)
                        else Some buffer);
              rest \<leftarrow> mem_read (rb_buffer rb) 0 (sub64 n to_end);
              buffer \<leftarrow> mem_write buffer to_end rest;
              Some (rb\<lparr>rb_ridx := sub64 n to_end\<rparr>, buffer, n)
            })
         else do {
              bytes \<leftarrow> mem_read (rb_buffer rb) (rb_ridx rb) n;
              buffer \<leftarrow> mem_write buffer 0 bytes;
              Some (rb\<lparr>rb_ridx := add64 (rb_ridx rb) n\<rparr>, buffer, n)
            })"

section \<open>Invariant and abstraction\<close>

text \<open>
  Both indices stay inside the buffer, one cell always stays free. \<open>rb_list\<close> is the
  abstract content, oldest byte first.
\<close>

definition rb_ok :: "ringbuffer \<Rightarrow> bool" where
  "rb_ok rb \<longleftrightarrow> 0 < rb_size rb \<and> 2 * rb_size rb < SIZE_MOD \<and> length (rb_buffer rb) = rb_size rb
     \<and> rb_ridx rb < rb_size rb \<and> rb_widx rb < rb_size rb"

definition rb_list :: "ringbuffer \<Rightarrow> u8 list" where
  "rb_list rb =
     (if rb_ridx rb \<le> rb_widx rb
      then take (rb_widx rb - rb_ridx rb) (drop (rb_ridx rb) (rb_buffer rb))
      else drop (rb_ridx rb) (rb_buffer rb) @ take (rb_widx rb) (rb_buffer rb))"

definition rb_room :: "ringbuffer \<Rightarrow> nat" where
  "rb_room rb = rb_size rb - 1 - length (rb_list rb)"

lemma rb_list_alloc [simp]: "rb_list (ringbuffer_alloc g s) = []"
  by (simp add: rb_list_def ringbuffer_alloc_def)

lemma rb_ok_alloc: "0 < s \<Longrightarrow> 2 * s < SIZE_MOD \<Longrightarrow> rb_ok (ringbuffer_alloc g s)"
  by (simp add: rb_ok_def ringbuffer_alloc_def)

lemma ringbuffer_readable_eq: "rb_ok rb \<Longrightarrow> ringbuffer_readable rb = length (rb_list rb)"
  by (auto simp: rb_ok_def ringbuffer_readable_def rb_list_def wrap64)

lemma ringbuffer_avail_eq: "rb_ok rb \<Longrightarrow> ringbuffer_avail rb = rb_room rb"
  by (auto simp: rb_ok_def ringbuffer_avail_def rb_room_def rb_list_def wrap64)

section \<open>Writing appends, reading takes from the front\<close>

lemma ringbuffer_write_nowrap:
  assumes ok: "rb_ok rb" and len: "n \<le> length bs"
    and k: "k = min n (rb_room rb)" and nw: "rb_widx rb + k < rb_size rb"
  shows "ringbuffer_write rb n bs =
           Some (rb\<lparr>rb_buffer := take (rb_widx rb) (rb_buffer rb) @ take k bs
                      @ drop (rb_widx rb + k) (rb_buffer rb), rb_widx := rb_widx rb + k\<rparr>, k)"
  using assms
  by (auto simp: ringbuffer_write_def ringbuffer_avail_eq Let_def rb_ok_def wrap64 memobj min_def)

lemma ringbuffer_write_wrap:
  assumes ok: "rb_ok rb" and len: "n \<le> length bs"
    and k: "k = min n (rb_room rb)" and wr: "rb_size rb \<le> rb_widx rb + k"
    and e: "e = rb_size rb - rb_widx rb"
  shows "ringbuffer_write rb n bs =
           Some (rb\<lparr>rb_buffer := take (k - e) (drop e bs)
                      @ drop (k - e) (take (rb_widx rb) (rb_buffer rb) @ take e bs),
                    rb_widx := k - e\<rparr>, k)"
proof -
  let ?b = "rb_buffer rb"
  have b: "length ?b = rb_size rb" "rb_widx rb < rb_size rb" "2 * rb_size rb < SIZE_MOD"
    using ok by (simp_all add: rb_ok_def)
  have kl: "k \<le> rb_size rb" "k \<le> length bs" "e \<le> k" "0 < e"
    using k len wr e b by (auto simp: rb_room_def)
  have avail: "(if ringbuffer_avail rb < n then ringbuffer_avail rb else n) = k"
    using k by (simp add: ringbuffer_avail_eq [OF ok] min_def)
  have "mem_write ?b (rb_widx rb) (take e bs) = Some (take (rb_widx rb) ?b @ take e bs)"
    using b kl e by (simp add: memobj)
  moreover have "mem_write (take (rb_widx rb) ?b @ take e bs) 0 (take (k - e) (drop e bs))
      = Some (take (k - e) (drop e bs) @ drop (k - e) (take (rb_widx rb) ?b @ take e bs))"
    using b kl e by (simp add: memobj)
  ultimately show ?thesis
    using b kl e wr
    by (simp add: ringbuffer_write_def avail Let_def wrap64 memobj)
qed

lemma ringbuffer_write_spec:
  assumes ok: "rb_ok rb" and len: "n \<le> length bs"
  shows "\<exists>rb'. ringbuffer_write rb n bs = Some (rb', min n (rb_room rb)) \<and> rb_ok rb'
           \<and> rb_size rb' = rb_size rb \<and> rb_list rb' = rb_list rb @ take (min n (rb_room rb)) bs"
proof -
  let ?k = "min n (rb_room rb)" and ?w = "rb_widx rb" and ?r = "rb_ridx rb" and ?s = "rb_size rb"
  have bnd: "?w < ?s" "?r < ?s" "length (rb_buffer rb) = ?s"
    using ok by (auto simp: rb_ok_def)
  have len_list: "length (rb_list rb) = (if ?r \<le> ?w then ?w - ?r else ?s - ?r + ?w)"
    using bnd by (auto simp: rb_list_def)
  show ?thesis
  proof (cases "?w + ?k < ?s")
    case True
    from len_list bnd have "?r \<le> ?w \<or> ?w + ?k < ?r"
      by (auto simp: rb_room_def)
    then show ?thesis
      unfolding ringbuffer_write_nowrap [OF ok len refl True]
      using ok len True bnd by (auto simp: rb_ok_def rb_list_def drop_take)
  next
    case False
    then have le: "?s \<le> ?w + ?k" by simp
    with len_list bnd have *: "?r \<le> ?w" "?k - (?s - ?w) < ?r" "?s - ?w \<le> ?k"
      by (auto simp: rb_room_def split: if_splits)
    have "take ?k bs = take (?s - ?w) bs @ take (?k - (?s - ?w)) (drop (?s - ?w) bs)"
      using *(3) by (metis take_add le_add_diff_inverse)
    then show ?thesis
      unfolding ringbuffer_write_wrap [OF ok len refl le refl]
      using ok len le * bnd by (auto simp: rb_ok_def rb_list_def drop_take)
  qed
qed

text \<open>The same for reading: the two shapes of the copy, then the specification.\<close>

lemma ringbuffer_read_nowrap:
  assumes ok: "rb_ok rb" and k: "k = min n (length (rb_list rb))" and len: "k \<le> length buf"
    and nw: "rb_ridx rb + k < rb_size rb"
  shows "ringbuffer_read rb n buf =
           Some (rb\<lparr>rb_ridx := rb_ridx rb + k\<rparr>,
                 take k (drop (rb_ridx rb) (rb_buffer rb)) @ drop k buf, k)"
proof -
  have avail: "(if ringbuffer_readable rb < n then ringbuffer_readable rb else n) = k"
    using k by (simp add: ringbuffer_readable_eq [OF ok] min_def)
  show ?thesis
    using ok len nw by (simp add: ringbuffer_read_def avail Let_def rb_ok_def wrap64 memobj)
qed

lemma ringbuffer_read_wrap:
  assumes ok: "rb_ok rb" and k: "k = min n (length (rb_list rb))" and len: "k \<le> length buf"
    and wr: "rb_size rb \<le> rb_ridx rb + k" and e: "e = rb_size rb - rb_ridx rb"
  shows "ringbuffer_read rb n buf =
           Some (rb\<lparr>rb_ridx := k - e\<rparr>,
                 drop (rb_ridx rb) (rb_buffer rb) @ take (k - e) (rb_buffer rb) @ drop k buf, k)"
proof -
  let ?b = "rb_buffer rb"
  have b: "length ?b = rb_size rb" "rb_ridx rb < rb_size rb" "rb_widx rb < rb_size rb"
      "2 * rb_size rb < SIZE_MOD"
    using ok by (simp_all add: rb_ok_def)
  have kl: "k - e \<le> rb_size rb" "k < SIZE_MOD" "e \<le> k" "0 < e"
    using k wr e b by (auto simp: rb_list_def)
  have avail: "(if ringbuffer_readable rb < n then ringbuffer_readable rb else n) = k"
    using k by (simp add: ringbuffer_readable_eq [OF ok] min_def)
  have "mem_write buf 0 (drop (rb_ridx rb) ?b) = Some (drop (rb_ridx rb) ?b @ drop e buf)"
    using b kl e len by (simp add: memobj)
  moreover have "mem_write (drop (rb_ridx rb) ?b @ drop e buf) e (take (k - e) ?b)
      = Some (drop (rb_ridx rb) ?b @ take (k - e) ?b @ drop k buf)"
    using b kl e len by (simp add: memobj)
  ultimately show ?thesis
    using b kl e wr by (simp add: ringbuffer_read_def avail Let_def wrap64 memobj)
qed

lemma ringbuffer_read_spec:
  assumes ok: "rb_ok rb" and len: "min n (length (rb_list rb)) \<le> length buf"
  shows "\<exists>rb'. ringbuffer_read rb n buf =
             Some (rb', take n (rb_list rb) @ drop (min n (length (rb_list rb))) buf,
                   min n (length (rb_list rb)))
           \<and> rb_ok rb' \<and> rb_size rb' = rb_size rb \<and> rb_list rb' = drop n (rb_list rb)"
proof -
  define k where k: "k = min n (length (rb_list rb))"
  let ?w = "rb_widx rb" and ?r = "rb_ridx rb" and ?s = "rb_size rb"
  have bnd: "?w < ?s" "?r < ?s" "length (rb_buffer rb) = ?s"
    using ok by (auto simp: rb_ok_def)
  have kl: "k \<le> (if ?r \<le> ?w then ?w - ?r else ?s - ?r + ?w)"
    using bnd k by (auto simp: rb_list_def)
  have tk: "take n (rb_list rb) = take k (rb_list rb)" "drop n (rb_list rb) = drop k (rb_list rb)"
    using k by (simp_all add: min_def)
  have lk: "k \<le> length buf" using len k by simp
  show ?thesis
  proof (cases "?r + k < ?s")
    case True
    then have "take k (rb_list rb) = take k (drop ?r (rb_buffer rb))"
      using kl bnd by (auto simp: rb_list_def split: if_splits)
    then show ?thesis
      unfolding k [symmetric] tk ringbuffer_read_nowrap [OF ok k lk True]
      using ok bnd kl True
      by (auto simp: rb_ok_def rb_list_def drop_take add.commute [of k] split: if_splits)
  next
    case False
    then have le: "?s \<le> ?r + k" by simp
    with kl bnd have *: "\<not> ?r \<le> ?w" "k - (?s - ?r) \<le> ?w" "?s - ?r \<le> k"
      by (auto split: if_splits)
    have "take k (rb_list rb) = drop ?r (rb_buffer rb) @ take (k - (?s - ?r)) (rb_buffer rb)"
      and "drop k (rb_list rb) = take (?w - (k - (?s - ?r))) (drop (k - (?s - ?r)) (rb_buffer rb))"
      using * bnd by (simp_all add: rb_list_def drop_take)
    then show ?thesis
      unfolding k [symmetric] tk ringbuffer_read_wrap [OF ok k lk le refl]
      using ok bnd * by (simp add: rb_ok_def rb_list_def)
  qed
qed

section \<open>The interface: a bounded byte queue\<close>

text \<open>
  What the terminal layer relies on. \<open>put q n bs\<close> stores as many of the first \<open>n\<close> bytes of
  \<open>bs\<close> as there is room for and returns their number, \<open>get q n buf\<close> moves up to \<open>n\<close> of the
  oldest bytes into \<open>buf\<close>.
\<close>

locale byte_fifo =
  fixes ok :: "'q \<Rightarrow> bool"
    and contents :: "'q \<Rightarrow> u8 list"
    and cap :: "'q \<Rightarrow> nat"
    and put :: "'q \<Rightarrow> nat \<Rightarrow> u8 list \<Rightarrow> ('q \<times> nat) option"
    and get :: "'q \<Rightarrow> nat \<Rightarrow> u8 list \<Rightarrow> ('q \<times> u8 list \<times> nat) option"
  assumes contents_le: "ok q \<Longrightarrow> length (contents q) \<le> cap q"
    and put_law: "ok q \<Longrightarrow> n \<le> length bs \<Longrightarrow>
      \<exists>q'. put q n bs = Some (q', min n (cap q - length (contents q))) \<and> ok q' \<and> cap q' = cap q
        \<and> contents q' = contents q @ take (min n (cap q - length (contents q))) bs"
    and get_law: "ok q \<Longrightarrow> min n (length (contents q)) \<le> length buf \<Longrightarrow>
      \<exists>q'. get q n buf = Some (q', take n (contents q) @ drop (min n (length (contents q))) buf,
                               min n (length (contents q)))
        \<and> ok q' \<and> cap q' = cap q \<and> contents q' = drop n (contents q)"

text \<open>A producer that stores a run of bytes one at a time, as the terminal does.\<close>

fun put_bytes :: "('q \<Rightarrow> nat \<Rightarrow> u8 list \<Rightarrow> ('q \<times> nat) option) \<Rightarrow> 'q \<Rightarrow> u8 list \<Rightarrow> 'q option" where
  "put_bytes put q [] = Some q"
| "put_bytes put q (c # cs) = do { (q, _) \<leftarrow> put q 1 [c]; put_bytes put q cs }"

context byte_fifo
begin

lemma put1:
  assumes "ok q"
  shows "\<exists>q' k. put q 1 [c] = Some (q', k) \<and> ok q' \<and> cap q' = cap q
     \<and> contents q' = contents q @ (if length (contents q) < cap q then [c] else [])"
  using put_law [OF assms, of 1 "[c]"] contents_le [OF assms]
  by (cases "length (contents q) < cap q") (auto simp: min_def)

lemma put_bytes_law:
  assumes "ok q"
  shows "\<exists>q'. put_bytes put q cs = Some q' \<and> ok q' \<and> cap q' = cap q
     \<and> contents q' = contents q @ take (cap q - length (contents q)) cs"
  using assms
proof (induction cs arbitrary: q)
  case Nil
  then show ?case by simp
next
  case (Cons c cs)
  from put1 [OF Cons.prems, of c] obtain q1 k where
    q1: "put q 1 [c] = Some (q1, k)" "ok q1" "cap q1 = cap q"
      "contents q1 = contents q @ (if length (contents q) < cap q then [c] else [])"
    by blast
  from Cons.IH [OF q1(2)] q1 show ?case
    by (cases "length (contents q) < cap q") (auto simp: take_Cons')
qed

text \<open>First in, first out: what was stored into an empty queue with room comes out unchanged.\<close>

lemma put_get_law:
  assumes "ok q" and "contents q = []" and "length cs \<le> cap q" and "length cs \<le> length buf"
  shows "\<exists>q1 q2. put_bytes put q cs = Some q1
     \<and> get q1 (length cs) buf = Some (q2, cs @ drop (length cs) buf, length cs)
     \<and> ok q2 \<and> contents q2 = []"
proof -
  from put_bytes_law [OF assms(1), of cs] assms obtain q1 where
    q1: "put_bytes put q cs = Some q1" "ok q1" "contents q1 = cs" by auto
  from get_law [OF q1(2), of "length cs" buf] q1 assms(4) show ?thesis by auto
qed

end

text \<open>The ring buffer is such a queue, of capacity one less than its buffer.\<close>

lemma rb_list_length: "rb_ok rb \<Longrightarrow> length (rb_list rb) \<le> rb_size rb - 1"
  by (auto simp: rb_ok_def rb_list_def)

interpretation rbq: byte_fifo rb_ok rb_list "\<lambda>rb. rb_size rb - 1" ringbuffer_write ringbuffer_read
proof (unfold_locales, goal_cases)
  case (1 q)
  then show ?case by (rule rb_list_length)
next
  case (2 q n bs)
  then show ?case using ringbuffer_write_spec [of q n bs] by (auto simp: rb_room_def)
next
  case (3 q n buf)
  then show ?case using ringbuffer_read_spec [of q n buf] by auto
qed

section \<open>The ring as a queue\<close>

text \<open>
  Writing to a ring and then reading from it is first in, first out: the write accepts as
  many bytes as there is room for and appends them, the read delivers the oldest bytes in
  order and removes them, neither leaves the ring's memory, and the invariant survives, also
  across the wrap-around of both indices.
\<close>

lemma ringbuffer_write_read:
  assumes "rb_ok rb" and "n \<le> length bs" and "k \<le> length buf"
  shows "\<exists>rb1 rb2 w r. ringbuffer_write rb n bs = Some (rb1, w) \<and> w = min n (rb_room rb)
    \<and> ringbuffer_read rb1 k buf = Some (rb2, take k (rb_list rb @ take w bs) @ drop r buf, r)
    \<and> r = min k (length (rb_list rb) + w)
    \<and> rb_ok rb2 \<and> rb_list rb2 = drop k (rb_list rb @ take w bs)"
proof -
  define w where "w = min n (rb_size rb - 1 - length (rb_list rb))"
  obtain rb1 where w: "ringbuffer_write rb n bs = Some (rb1, w)" "rb_ok rb1" "rb_list rb1 = rb_list rb @ take w bs"
    using rbq.put_law [OF assms(1,2)] w_def by auto
  have len: "length (rb_list rb1) = length (rb_list rb) + w" using w(3) assms(2) by (simp add: w_def)
  define r where "r = min k (length (rb_list rb) + w)"
  obtain rb2 where "ringbuffer_read rb1 k buf = Some (rb2, take k (rb_list rb1) @ drop r buf, r)"
    and "rb_ok rb2" and "rb_list rb2 = drop k (rb_list rb1)"
    using rbq.get_law [OF w(2), of k buf] assms(3) unfolding len r_def by (auto simp: min_le_iff_disj)
  moreover have "w = min n (rb_room rb)" by (simp add: w_def rb_room_def)
  ultimately show ?thesis using w r_def by auto
qed

lemma ringbuffer_write_read_witness:
  "\<exists>rb1 rb2 w r.
     ringbuffer_write \<lparr>rb_buffer = [0, 0, 0], rb_ridx = 2, rb_widx = 2, rb_size = 3\<rparr> 3 [7, 8, 9] = Some (rb1, w)
     \<and> w = 2 \<and> ringbuffer_read rb1 2 [0, 0] = Some (rb2, [7, 8], r) \<and> rb_ok rb2"
  using ringbuffer_write_read [of "\<lparr>rb_buffer = [0, 0, 0], rb_ridx = 2, rb_widx = 2, rb_size = 3\<rparr>"
      3 "[7, 8, 9]" 2 "[0, 0]"]
  by (auto simp: rb_ok_def rb_list_def rb_room_def numeral_2_eq_2 numeral_3_eq_3)

end
