(* ===== verification/Cstring.thy ===== *)
theory Cstring
  imports Prelude "HOL-Library.Char_ord" "HOL-Library.Sublist"
begin

text \<open>
  \<open>kernel/lib/string.c\<close>, \<open>kernel/lib/ctype.c\<close> and \<open>kernel/lib/stdlib.c\<close>. A pointer to
  characters is the list of the cells from the pointer to the end of its memory object; the
  text of a C string is what stands before the first NUL. Running past the end of the object
  is \<open>None\<close>. Two pointers into one object (\<open>memcpy\<close>, \<open>memmove\<close>) are two offsets.
\<close>

abbreviation NUL :: char where "NUL \<equiv> CHR 0x00"

section \<open>Strings\<close>

fun strlen :: "string \<Rightarrow> nat option" where
  "strlen [] = None"
| "strlen (c # cs) = (if c = NUL then Some 0 else map_option Suc (strlen cs))"

fun strcpy :: "string \<Rightarrow> nat \<Rightarrow> string \<Rightarrow> string option" where
  "strcpy dst d [] = None"
| "strcpy dst d (c # cs) =
     (if c = NUL then mem_store dst d NUL
      else do { dst \<leftarrow> mem_store dst d c; strcpy dst (Suc d) cs })"

definition strcat :: "string \<Rightarrow> string \<Rightarrow> string option" where
  "strcat dst src = do { n \<leftarrow> strlen dst; strcpy dst n src }"

text \<open>\<open>strdup\<close> takes and returns a nullable pointer.\<close>

definition strdup :: "string option \<Rightarrow> string option option" where
  "strdup str = (case str of None \<Rightarrow> Some None
     | Some s \<Rightarrow> do { len \<leftarrow> strlen s; newstr \<leftarrow> mem_read s 0 (len + 1); Some (Some newstr) })"

fun strcmp :: "string \<Rightarrow> string \<Rightarrow> int option" where
  "strcmp (a # as) (b # bs) =
     (if (of_char a :: nat) < of_char b then Some (-1)
      else if (of_char a :: nat) > of_char b then Some 1
      else if a = NUL then Some 0
      else strcmp as bs)"
| "strcmp _ _ = None"

fun strchr :: "string \<Rightarrow> char \<Rightarrow> nat option option" where
  "strchr [] c = None"
| "strchr (x # xs) c =
     (if x = c then Some (Some 0) else if x = NUL then Some None
      else map_option (map_option Suc) (strchr xs c))"

fun strchr_limit :: "string \<Rightarrow> char \<Rightarrow> nat \<Rightarrow> nat option option" where
  "strchr_limit xs c 0 = Some None"
| "strchr_limit [] c (Suc n) = None"
| "strchr_limit (x # xs) c (Suc n) =
     (if x = c then Some (Some 0) else if x = NUL then Some None
      else map_option (map_option Suc) (strchr_limit xs c n))"

text \<open>
  The inner loop of \<open>strstr\<close> compares the needle at one position: it hits, it mismatches and
  the search moves on, or the haystack ends, which ends the search.
\<close>

datatype strstr_result = Hit | Mismatch | Haystack_end

fun strstr_at :: "string \<Rightarrow> string \<Rightarrow> strstr_result option" where
  "strstr_at h [] = None"
| "strstr_at h (b # bs) =
     (if b = NUL then Some Hit
      else case h of [] \<Rightarrow> None
        | x # xs \<Rightarrow> if x = NUL then Some Haystack_end
                   else if x \<noteq> b then Some Mismatch else strstr_at xs bs)"

fun strstr :: "string \<Rightarrow> string \<Rightarrow> nat option option" where
  "strstr h b = do {
     r \<leftarrow> strstr_at h b;
     (case r of Hit \<Rightarrow> Some (Some 0) | Haystack_end \<Rightarrow> Some None
      | Mismatch \<Rightarrow> (case h of [] \<Rightarrow> None
                     | x # xs \<Rightarrow> map_option (map_option Suc) (strstr xs b))) }"

fun strstr_at_nolimit :: "string \<Rightarrow> string \<Rightarrow> strstr_result option" where
  "strstr_at_nolimit h [] = None"
| "strstr_at_nolimit h (b # bs) =
     (if b = NUL then Some Hit
      else case h of [] \<Rightarrow> None
        | x # xs \<Rightarrow> if x \<noteq> b then Some Mismatch else strstr_at_nolimit xs bs)"

fun strstr_limit_loop :: "string \<Rightarrow> string \<Rightarrow> nat \<Rightarrow> nat \<Rightarrow> nat option option" where
  "strstr_limit_loop h b j bound =
     (if j \<le> bound then do {
        r \<leftarrow> strstr_at_nolimit h b;
        (if r = Hit then Some (Some j)
         else case h of [] \<Rightarrow> None | x # xs \<Rightarrow> strstr_limit_loop xs b (Suc j) bound) }
      else Some None)"

definition strstr_limit :: "string \<Rightarrow> string \<Rightarrow> nat \<Rightarrow> nat option option" where
  "strstr_limit a b limit = do { n \<leftarrow> strlen b; strstr_limit_loop a b 0 (sub64 limit n) }"

declare strstr.simps [simp del] strstr_limit_loop.simps [simp del]

section \<open>Memory blocks\<close>

fun memset :: "'a list \<Rightarrow> nat \<Rightarrow> 'a \<Rightarrow> nat \<Rightarrow> 'a list option" where
  "memset m p v 0 = Some m"
| "memset m p v (Suc n) = do { m \<leftarrow> mem_store m p v; memset m (Suc p) v n }"

text \<open>\<open>rep movsb\<close>, upwards.\<close>

fun memcpy :: "'a list \<Rightarrow> nat \<Rightarrow> nat \<Rightarrow> nat \<Rightarrow> 'a list option" where
  "memcpy m dst src 0 = Some m"
| "memcpy m dst src (Suc n) =
     do { v \<leftarrow> mem_load m src; m \<leftarrow> mem_store m dst v; memcpy m (Suc dst) (Suc src) n }"

text \<open>The downward loop of \<open>memmove\<close>: the argument counts the cells left to copy.\<close>

fun memmove_down :: "'a list \<Rightarrow> nat \<Rightarrow> nat \<Rightarrow> nat \<Rightarrow> 'a list option" where
  "memmove_down m to src 0 = Some m"
| "memmove_down m to src (Suc i) =
     do { v \<leftarrow> mem_load m (src + i); m \<leftarrow> mem_store m (to + i) v; memmove_down m to src i }"

definition memmove :: "'a list \<Rightarrow> nat \<Rightarrow> nat \<Rightarrow> nat \<Rightarrow> 'a list option" where
  "memmove m to src n =
     (if src = to \<or> n = 0 then Some m
      else if to > src \<and> to - src < n then memmove_down m to src n
      else if src > to \<and> src - to < n then memcpy m to src n
      else memcpy m to src n)"

fun memcmp :: "u8 list \<Rightarrow> u8 list \<Rightarrow> nat \<Rightarrow> int option" where
  "memcmp a b 0 = Some 0"
| "memcmp (a # as) (b # bs) (Suc n) =
     (if a < b then Some (-1) else if a > b then Some 1 else memcmp as bs n)"
| "memcmp _ _ (Suc n) = None"

section \<open>Numbers\<close>

definition toupper :: "char \<Rightarrow> char" where
  "toupper c = (if CHR ''a'' \<le> c \<and> c \<le> CHR ''z'' then char_of (of_char c - 32 :: nat) else c)"

definition isdigit :: "char \<Rightarrow> bool" where
  "isdigit ch \<longleftrightarrow> CHR ''0'' \<le> ch \<and> ch \<le> CHR ''9''"

fun memrev_loop :: "'a list \<Rightarrow> nat \<Rightarrow> nat \<Rightarrow> nat \<Rightarrow> nat \<Rightarrow> 'a list option" where
  "memrev_loop m p n i 0 = Some m"
| "memrev_loop m p n i (Suc left) = do {
     x \<leftarrow> mem_load m (p + i);
     y \<leftarrow> mem_load m (p + (n - i - 1));
     m \<leftarrow> mem_store m (p + i) y;
     m \<leftarrow> mem_store m (p + (n - i - 1)) x;
     memrev_loop m p n (Suc i) left }"

definition memrev :: "'a list \<Rightarrow> nat \<Rightarrow> nat \<Rightarrow> ('a list \<times> nat) option" where
  "memrev m p n = do { m \<leftarrow> memrev_loop m p n 0 (n div 2); Some (m, n div 2) }"

definition strrev :: "string \<Rightarrow> nat \<Rightarrow> (string \<times> nat) option" where
  "strrev m p = do { n \<leftarrow> strlen (drop p m); memrev m p n }"

definition alphabet :: string where
  "alphabet = ''0123456789ABCDEFGHIJKLMNOPQRSTUVWXYZ''"

text \<open>
  The digit loop of \<open>itoa\<close>: for a radix below 2 it would not end, hence the partial function.
\<close>

partial_function (option) itoa_loop :: "string \<Rightarrow> nat \<Rightarrow> nat \<Rightarrow> nat \<Rightarrow> (string \<times> nat) option" where
  "itoa_loop buf p target radix = do {
     c \<leftarrow> mem_load alphabet (target mod radix);
     buf \<leftarrow> mem_store buf p c;
     (if target div radix \<noteq> 0 then itoa_loop buf (Suc p) (target div radix) radix
      else Some (buf, Suc p)) }"

text \<open>
  \<open>itoa\<close> returns the buffer and the offset of the terminator, or no pointer for a bad radix.
  Negating the least \<open>int64_t\<close> overflows.
\<close>

definition itoa :: "int \<Rightarrow> string \<Rightarrow> nat \<Rightarrow> nat \<Rightarrow> (string \<times> nat option) option" where
  "itoa target buf p radix =
     (if radix < 2 \<or> radix > 36 then Some (buf, None)
      else if target = - 9223372036854775808 then None
      else do {
        (buf, q) \<leftarrow> itoa_loop buf p (nat \<bar>target\<bar>) radix;
        (buf, q) \<leftarrow> (if target < 0
                    then do { buf \<leftarrow> mem_store buf q (CHR ''-''); Some (buf, Suc q) }
                    else Some (buf, q));
        buf \<leftarrow> mem_store buf q NUL;
        (buf, _) \<leftarrow> strrev buf p;
        Some (buf, Some q) })"

definition atoi_skipped :: string where
  "atoi_skipped = [CHR 0x09, CHR 0x0A, CHR 0x0B, CHR 0x0C, CHR 0x0D, CHR '' '', CHR ''+'', CHR ''_'']"

fun atoi_loop :: "string \<Rightarrow> nat \<Rightarrow> u64 \<Rightarrow> bool \<Rightarrow> (u64 \<times> bool) option" where
  "atoi_loop [] radix res sign = None"
| "atoi_loop (c # cs) radix res sign =
     (if c = NUL then Some (res, sign)
      else if c = CHR ''-'' then atoi_loop cs radix res True
      else do {
        skip \<leftarrow> strchr (atoi_skipped @ [NUL]) c;
        (if skip \<noteq> None then atoi_loop cs radix res sign
         else do {
           x \<leftarrow> strchr (alphabet @ [NUL]) (toupper c);
           (case x of None \<Rightarrow> Some (res, sign)
            | Some pos \<Rightarrow>
                (if pos \<ge> radix then Some (res, sign)
                 else atoi_loop cs radix (res * of_nat radix + of_nat pos) sign)) }) })"

definition atoi :: "string \<Rightarrow> nat \<Rightarrow> int option" where
  "atoi buf radix =
     (if radix < 2 \<or> radix > 36 then Some (-4)
      else do { (res, sign) \<leftarrow> atoi_loop buf radix 0 False;
                Some (if sign then sint (- res) else sint res) })"

section \<open>The text of a C string\<close>

definition cstr :: "string \<Rightarrow> string \<Rightarrow> bool" where
  "cstr s t \<longleftrightarrow> NUL \<notin> set t \<and> prefix (t @ [NUL]) s"

lemma cstr_Nil [simp]: "\<not> cstr [] t"
  by (simp add: cstr_def)

lemma cstr_Cons: "cstr (c # cs) t \<longleftrightarrow>
    (if c = NUL then t = [] else \<exists>t'. t = c # t' \<and> cstr cs t')"
  by (cases t) (auto simp: cstr_def)

lemma cstr_append_NUL [simp]: "NUL \<notin> set t \<Longrightarrow> cstr (t @ NUL # rest) t"
  by (simp add: cstr_def)

lemma strlen_cstr: "cstr s t \<Longrightarrow> strlen s = Some (length t)"
  by (induction s arbitrary: t) (auto simp: cstr_Cons split: if_splits)

lemma strlen_take: "strlen s = Some n \<Longrightarrow> cstr s (take n s)"
  by (induction s arbitrary: n) (auto simp: cstr_Cons split: if_splits)

lemma of_char_nat_eq [simp]: "(of_char a :: nat) = of_char b \<longleftrightarrow> a = b"
  by simp

lemma strcmp_cstr:
  "cstr a s \<Longrightarrow> cstr b t \<Longrightarrow> \<exists>r. strcmp a b = Some r \<and> (r = 0 \<longleftrightarrow> s = t)"
proof (induction a arbitrary: b s t)
  case Nil
  then show ?case by simp
next
  case (Cons x a)
  then show ?case
    by (cases b) (auto simp: cstr_Cons not_less dest: le_antisym split: if_splits)
qed

lemma strchr_cstr:
  "cstr s t \<Longrightarrow> c \<noteq> NUL \<Longrightarrow>
   strchr s c = Some (if c \<in> set t then Some (length (takeWhile (\<lambda>x. x \<noteq> c) t)) else None)"
  by (induction s arbitrary: t) (auto simp: cstr_Cons split: if_splits)

text \<open>\<open>strcpy\<close> lays the text and its terminator over the destination.\<close>

lemma strcpy_cstr:
  assumes "cstr src t" and "d + length t < length dst"
  shows "strcpy dst d src = mem_write dst d (t @ [NUL])"
  using assms
proof (induction src arbitrary: t d dst)
  case Nil
  then show ?case by simp
next
  case (Cons c cs)
  show ?case
  proof (cases "c = NUL")
    case True
    with Cons.prems show ?thesis
      by (simp add: cstr_Cons memobj upd_conv_take_nth_drop)
  next
    case False
    with Cons.prems obtain t' where t: "t = c # t'" "cstr cs t'" by (auto simp: cstr_Cons)
    with Cons.prems False have "strcpy dst d (c # cs) = mem_write (dst[d := c]) (Suc d) (t' @ [NUL])"
      by (simp add: memobj Cons.IH)
    also have "\<dots> = mem_write dst d (t @ [NUL])"
      using Cons.prems t by (simp add: memobj take_Suc_conv_app_nth upd_conv_take_nth_drop add_ac)
    finally show ?thesis .
  qed
qed

text \<open>\<open>strstr\<close> finds the first occurrence.\<close>

lemma strstr_at_cstr:
  assumes "cstr h s" and "cstr b t"
  shows "strstr_at h b = Some (if prefix t s then Hit
           else if prefix s t then Haystack_end else Mismatch)"
  using assms
proof (induction b arbitrary: h s t)
  case Nil
  then show ?case by simp
next
  case (Cons x b)
  then show ?case
    by (cases h) (auto simp: cstr_Cons split: if_splits)
qed

text \<open>
  \<open>strstr\<close> finds the first occurrence of the needle's text in the haystack's text, reports
  none exactly when there is none, and reads neither string past its terminator; it leaves off
  early only where no later occurrence is possible.
\<close>

lemma strstr_first:
  assumes "cstr h s" and "cstr b t"
  shows "strstr h b = Some (if sublist t s then Some (LEAST i. prefix t (drop i s)) else None)"
  using assms
proof (induction s arbitrary: h)
  case Nil
  then show ?case
    by (subst strstr.simps) (auto simp: strstr_at_cstr intro!: Least_equality)
next
  case (Cons c s)
  then obtain h' where h: "h = c # h'" "cstr h' s" "c \<noteq> NUL"
    by (cases h) (auto simp: cstr_Cons split: if_splits)
  note IH = Cons.IH [OF h(2) Cons.prems(2)]
  consider "prefix t (c # s)" | "\<not> prefix t (c # s)" "prefix (c # s) t"
    | "\<not> prefix t (c # s)" "\<not> prefix (c # s) t" by blast
  then show ?case
  proof cases
    case 1
    then show ?thesis
      using Cons.prems by (subst strstr.simps)
        (auto simp: strstr_at_cstr prefix_imp_sublist intro!: Least_equality)
  next
    case 2
    then have "\<not> sublist t (c # s)"
      by (auto elim!: prefixE dest: sublist_length_le)
    with 2 show ?thesis
      using Cons.prems by (subst strstr.simps) (auto simp: strstr_at_cstr)
  next
    case 3
    have sub: "sublist t (c # s) \<longleftrightarrow> sublist t s"
      using 3 by (simp add: sublist_Cons_right)
    have least: "(LEAST i. prefix t (drop i (c # s))) = Suc (LEAST i. prefix t (drop i s))"
      if "sublist t s"
    proof -
      from that obtain i where "prefix t (drop i s)"
        by (metis sublist_def prefixI append_eq_conv_conj)
      then have "prefix t (drop (Suc i) (c # s))" by simp
      from Least_Suc [of "\<lambda>i. prefix t (drop i (c # s))", OF this] 3(1) show ?thesis by simp
    qed
    show ?thesis
      using Cons.prems 3 h IH sub least by (subst strstr.simps) (auto simp: strstr_at_cstr)
  qed
qed

section \<open>Copying and moving\<close>

text \<open>An upward copy is right when the target does not start inside the source.\<close>

lemma memcpy_cells:
  assumes "dst + n \<le> length m" and "src + n \<le> length m" and "dst \<le> src \<or> src + n \<le> dst"
  shows "\<exists>m'. memcpy m dst src n = Some m' \<and> length m' = length m
    \<and> (\<forall>i<length m. m' ! i = (if dst \<le> i \<and> i < dst + n then m ! (src + (i - dst)) else m ! i))"
  using assms
proof (induction n arbitrary: m dst src)
  case 0
  then show ?case by auto
next
  case (Suc n)
  let ?m = "m[dst := m ! src]"
  have "\<exists>m'. memcpy ?m (Suc dst) (Suc src) n = Some m' \<and> length m' = length ?m
      \<and> (\<forall>i<length ?m. m' ! i = (if Suc dst \<le> i \<and> i < Suc dst + n
                               then ?m ! (Suc src + (i - Suc dst)) else ?m ! i))"
    by (rule Suc.IH) (use Suc.prems in auto)
  then obtain m' where m': "memcpy ?m (Suc dst) (Suc src) n = Some m'" "length m' = length m"
    and cells: "\<And>i. i < length m \<Longrightarrow> m' ! i = (if Suc dst \<le> i \<and> i < Suc dst + n
                               then ?m ! (Suc src + (i - Suc dst)) else ?m ! i)"
    by auto
  have "m' ! i = (if dst \<le> i \<and> i < dst + Suc n then m ! (src + (i - dst)) else m ! i)"
    if "i < length m" for i
  proof (cases "Suc dst \<le> i \<and> i < Suc dst + n")
    case True
    then have "m' ! i = ?m ! (Suc src + (i - Suc dst))" using cells [OF that] by simp
    also have "Suc src + (i - Suc dst) = src + (i - dst)" using True by arith
    also have "?m ! (src + (i - dst)) = m ! (src + (i - dst))"
      using True Suc.prems by (intro nth_list_update_neq) auto
    finally show ?thesis using True by simp
  next
    case False
    then show ?thesis using cells [OF that] that by (cases "i = dst") auto
  qed
  then show ?case using m' Suc.prems by (simp add: memobj)
qed

lemma memmove_down_cells:
  assumes "to + n \<le> length m" and "src + n \<le> length m" and "src \<le> to"
  shows "\<exists>m'. memmove_down m to src n = Some m' \<and> length m' = length m
    \<and> (\<forall>i<length m. m' ! i = (if to \<le> i \<and> i < to + n then m ! (src + (i - to)) else m ! i))"
  using assms
proof (induction n arbitrary: m)
  case 0
  then show ?case by auto
next
  case (Suc n)
  let ?m = "m[to + n := m ! (src + n)]"
  have "\<exists>m'. memmove_down ?m to src n = Some m' \<and> length m' = length ?m
    \<and> (\<forall>i<length ?m. m' ! i = (if to \<le> i \<and> i < to + n then ?m ! (src + (i - to)) else ?m ! i))"
    by (rule Suc.IH) (use Suc.prems in auto)
  then obtain m' where m': "memmove_down ?m to src n = Some m'" "length m' = length m"
    and cells: "\<And>i. i < length m \<Longrightarrow>
        m' ! i = (if to \<le> i \<and> i < to + n then ?m ! (src + (i - to)) else ?m ! i)"
    by auto
  have "m' ! i = (if to \<le> i \<and> i < to + Suc n then m ! (src + (i - to)) else m ! i)"
    if "i < length m" for i
    using cells [OF that] that Suc.prems(3) by (cases "i = to + n") (auto simp: nth_list_update)
  then show ?case using m' Suc.prems by (simp add: memobj)
qed

lemma cells_mem_write:
  assumes "length m' = length m" and "to + n \<le> length m" and "src + n \<le> length m"
    and "\<forall>i<length m. m' ! i = (if to \<le> i \<and> i < to + n then m ! (src + (i - to)) else m ! i)"
  shows "mem_write m to (take n (drop src m)) = Some m'"
proof -
  have "take to m @ take n (drop src m) @ drop (to + n) m = m'"
    by (rule nth_equalityI) (use assms in \<open>auto simp: nth_append\<close>)
  then show ?thesis using assms by (simp add: memobj)
qed

text \<open>
  \<open>memmove\<close> is a copy by value whatever the overlap: the destination range receives the
  cells the source range held before the call, everything else is kept. The code picks the
  direction of the byte loop, and leaves the non-overlapping case to \<open>memcpy\<close>.
\<close>

lemma memmove_correct:
  assumes "to + n \<le> length m" and "src + n \<le> length m"
  shows "memmove m to src n = mem_write m to (take n (drop src m))"
proof -
  consider "src = to \<or> n = 0" | "src < to \<and> to - src < n"
    | "src \<noteq> to" "\<not> (src < to \<and> to - src < n)" by blast
  then show ?thesis
  proof cases
    case 1
    moreover have "mem_write m to (take n (drop to m)) = Some m"
      by (rule cells_mem_write) (use assms in auto)
    ultimately show ?thesis
      using assms by (auto simp: memmove_def mem_write_def)
  next
    case 2
    then obtain m' where "memmove_down m to src n = Some m'" "length m' = length m"
      "\<forall>i<length m. m' ! i = (if to \<le> i \<and> i < to + n then m ! (src + (i - to)) else m ! i)"
      using memmove_down_cells [OF assms] by auto
    then show ?thesis using 2 cells_mem_write [OF _ assms] by (simp add: memmove_def)
  next
    case 3
    then have "to \<le> src \<or> src + n \<le> to" by auto
    then obtain m' where "memcpy m to src n = Some m'" "length m' = length m"
      "\<forall>i<length m. m' ! i = (if to \<le> i \<and> i < to + n then m ! (src + (i - to)) else m ! i)"
      using memcpy_cells [OF assms] by blast
    then show ?thesis using 3 cells_mem_write [OF _ assms] by (auto simp: memmove_def)
  qed
qed

section \<open>Reversing\<close>

lemma memrev_loop_cells:
  assumes "p + n \<le> length m" and "i + left = n div 2"
  shows "\<exists>m'. memrev_loop m p n i left = Some m' \<and> length m' = length m
    \<and> (\<forall>j<length m. m' ! j = (if p + i \<le> j \<and> j < p + (n - i) then m ! (p + n - 1 - (j - p)) else m ! j))"
  using assms
proof (induction left arbitrary: m i)
  case 0
  have "\<forall>j<length m. m ! j =
      (if p + i \<le> j \<and> j < p + (n - i) then m ! (p + n - 1 - (j - p)) else m ! j)"
  proof (intro allI impI)
    fix j
    assume "j < length m"
    have "p + n - 1 - (j - p) = j" if "p + i \<le> j" "j < p + (n - i)"
      using that 0 by simp
    then show "m ! j = (if p + i \<le> j \<and> j < p + (n - i) then m ! (p + n - 1 - (j - p)) else m ! j)"
      by auto
  qed
  then show ?case by auto
next
  case (Suc left)
  let ?k = "p + (n - i - 1)"
  let ?m = "m[p + i := m ! ?k, ?k := m ! (p + i)]"
  have lt: "2 * i + 1 < n" using Suc.prems by simp
  have "\<exists>m'. memrev_loop ?m p n (Suc i) left = Some m' \<and> length m' = length ?m
    \<and> (\<forall>j<length ?m. m' ! j = (if p + Suc i \<le> j \<and> j < p + (n - Suc i)
         then ?m ! (p + n - 1 - (j - p)) else ?m ! j))"
    by (rule Suc.IH) (use Suc.prems in auto)
  then obtain m' where m': "memrev_loop ?m p n (Suc i) left = Some m'" "length m' = length m"
    and cells: "\<And>j. j < length m \<Longrightarrow> m' ! j = (if p + Suc i \<le> j \<and> j < p + (n - Suc i)
         then ?m ! (p + n - 1 - (j - p)) else ?m ! j)" by auto
  have "m' ! j = (if p + i \<le> j \<and> j < p + (n - i) then m ! (p + n - 1 - (j - p)) else m ! j)"
    if j: "j < length m" for j
  proof -
    consider "p + Suc i \<le> j \<and> j < p + (n - Suc i)" | "j = p + i" | "j = ?k"
      | "j < p + i \<or> p + (n - i) \<le> j" using lt by linarith
    then show ?thesis
    proof cases
      case 1
      then have "?m ! (p + n - 1 - (j - p)) = m ! (p + n - 1 - (j - p))"
        by (subst nth_list_update_neq; (subst nth_list_update_neq)?) auto
      with 1 cells [OF j] show ?thesis by auto
    next
      case 2
      with cells [OF j] j lt Suc.prems show ?thesis by (auto simp: nth_list_update)
    next
      case 3
      moreover have "p + n - 1 - (?k - p) = p + i" using lt by simp
      ultimately show ?thesis using cells [OF j] j lt Suc.prems by (auto simp: nth_list_update)
    next
      case 4
      then have n1: "\<not> (p + Suc i \<le> j \<and> j < p + (n - Suc i))" and "j \<noteq> p + i" "j \<noteq> ?k"
        and n2: "\<not> (p + i \<le> j \<and> j < p + (n - i))" using lt by auto
      then have "?m ! j = m ! j" by (metis nth_list_update_neq)
      then show ?thesis unfolding cells [OF j] if_not_P [OF n1] if_not_P [OF n2] .
    qed
  qed
  then show ?case using m' Suc.prems lt by (auto simp: memobj)
qed

lemma memrev_rev:
  assumes "p + n \<le> length m"
  shows "memrev m p n = Some (take p m @ rev (take n (drop p m)) @ drop (p + n) m, n div 2)"
proof -
  obtain m' where m': "memrev_loop m p n 0 (n div 2) = Some m'" "length m' = length m"
    and cells: "\<And>j. j < length m \<Longrightarrow>
        m' ! j = (if p \<le> j \<and> j < p + n then m ! (p + n - 1 - (j - p)) else m ! j)"
    using memrev_loop_cells [OF assms, of 0 "n div 2"] by auto
  have "m' = take p m @ rev (take n (drop p m)) @ drop (p + n) m"
  proof (rule nth_equalityI)
    show "length m' = length (take p m @ rev (take n (drop p m)) @ drop (p + n) m)"
      using m' assms by simp
    fix j
    assume "j < length m'"
    then have j: "j < length m" using m' by simp
    have "n - Suc (j - p) = p + n - 1 - (j - p) - p" if "p \<le> j" "j < p + n" using that by arith
    then show "m' ! j = (take p m @ rev (take n (drop p m)) @ drop (p + n) m) ! j"
      using cells [OF j] j assms by (auto simp: nth_append rev_nth add_ac)
  qed
  then show ?thesis using m' by (simp add: memrev_def)
qed

section \<open>Printing and parsing integers\<close>

text \<open>The digits of a number, the least significant first, as \<open>itoa\<close> produces them.\<close>

function lsd_digits :: "nat \<Rightarrow> nat \<Rightarrow> nat list" where
  "lsd_digits r t = t mod r # (if r < 2 \<or> t < r then [] else lsd_digits r (t div r))"
  by pat_completeness auto
termination
  by (relation "measure snd") auto

declare lsd_digits.simps [simp del]

definition int_text :: "nat \<Rightarrow> int \<Rightarrow> string" where
  "int_text r x = (if x < 0 then [CHR ''-''] else [])
     @ map ((!) alphabet) (rev (lsd_digits r (nat \<bar>x\<bar>)))"

lemma length_alphabet [simp]: "length alphabet = 36"
  by (simp add: alphabet_def)

lemma lsd_digits_less: "2 \<le> r \<Longrightarrow> d \<in> set (lsd_digits r t) \<Longrightarrow> d < r"
  by (induction r t rule: lsd_digits.induct)
     (subst (asm) lsd_digits.simps, auto split: if_splits)

lemma lsd_digits_value:
  "2 \<le> r \<Longrightarrow> foldr (\<lambda>d a. a * r + d) (lsd_digits r t) 0 = t"
proof (induction r t rule: lsd_digits.induct)
  case (1 r t)
  then show ?case by (subst lsd_digits.simps) auto
qed

lemma itoa_loop_digits:
  assumes "2 \<le> r" and "r \<le> 36" and "p + length (lsd_digits r t) \<le> length buf"
  shows "itoa_loop buf p t r =
    Some (take p buf @ map ((!) alphabet) (lsd_digits r t) @ drop (p + length (lsd_digits r t)) buf,
          p + length (lsd_digits r t))"
  using assms
proof (induction r t arbitrary: buf p rule: lsd_digits.induct)
  case (1 r t)
  let ?c = "alphabet ! (t mod r)"
  have m: "t mod r < 36" using "1.prems" mod_less_divisor [of r t] by (meson le_less_trans less_le_trans not_less zero_less_numeral)
  show ?case
  proof (cases "t < r")
    case True
    with 1 m show ?thesis
      by (subst itoa_loop.simps)
         (simp add: memobj lsd_digits.simps [of r t] upd_conv_take_nth_drop)
  next
    case False
    with 1 have d: "lsd_digits r t = t mod r # lsd_digits r (t div r)"
      by (simp add: lsd_digits.simps [of r t])
    have nz: "t div r \<noteq> 0" using False 1 by (simp add: div_eq_0_iff)
    have "itoa_loop buf p t r = itoa_loop (buf[p := ?c]) (Suc p) (t div r) r"
      using 1 m d nz by (subst itoa_loop.simps) (simp add: memobj)
    also have "\<dots> = Some (take (Suc p) (buf[p := ?c]) @ map ((!) alphabet) (lsd_digits r (t div r))
          @ drop (Suc p + length (lsd_digits r (t div r))) (buf[p := ?c]),
          Suc p + length (lsd_digits r (t div r)))"
      using False 1 d by (intro "1.IH") auto
    also have "take (Suc p) (buf[p := ?c]) = take p buf @ [?c]"
      using 1 d by (simp add: take_Suc_conv_app_nth)
    finally show ?thesis by (simp add: d)
  qed
qed

lemma alphabet_props:
  assumes "d < 36"
  shows "alphabet ! d \<noteq> NUL \<and> alphabet ! d \<noteq> CHR ''-''
    \<and> strchr (atoi_skipped @ [NUL]) (alphabet ! d) = Some None
    \<and> strchr (alphabet @ [NUL]) (toupper (alphabet ! d)) = Some (Some d)"
proof -
  let ?c = "alphabet ! d"
  have "list_all (\<lambda>c. c \<noteq> NUL \<and> c \<noteq> CHR ''-'' \<and> c \<notin> set atoi_skipped \<and> toupper c = c) alphabet"
    by (simp add: alphabet_def atoi_skipped_def toupper_def less_eq_char_def)
  moreover have "?c \<in> set alphabet" using assms by simp
  ultimately have c: "?c \<noteq> NUL" "?c \<noteq> CHR ''-''" "?c \<notin> set atoi_skipped" "toupper ?c = ?c"
    by (simp_all add: list_all_iff)
  have cs: "cstr (atoi_skipped @ [NUL]) atoi_skipped" "cstr (alphabet @ [NUL]) alphabet"
    by (simp_all add: cstr_def atoi_skipped_def alphabet_def)
  have "distinct alphabet" by (simp add: alphabet_def)
  then have "takeWhile (\<lambda>x. x \<noteq> ?c) alphabet = take d alphabet"
    using assms by (intro takeWhile_eq_take_P_nth) (auto simp: nth_eq_iff_index_eq)
  then have "strchr (alphabet @ [NUL]) ?c = Some (Some d)"
    using strchr_cstr [OF cs(2) c(1)] assms by simp
  then show ?thesis using strchr_cstr [OF cs(1) c(1)] c by simp
qed

lemma digit_not_NUL: "2 \<le> r \<Longrightarrow> r \<le> 36 \<Longrightarrow> d \<in> set (lsd_digits r t) \<Longrightarrow> alphabet ! d \<noteq> NUL"
  using alphabet_props [of d] lsd_digits_less [of r d t] by simp

lemma NUL_notin_int_text: "2 \<le> r \<Longrightarrow> r \<le> 36 \<Longrightarrow> NUL \<notin> set (int_text r x)"
  by (auto simp: int_text_def image_iff dest: digit_not_NUL [THEN not_sym])

lemma strrev_cstr:
  assumes "NUL \<notin> set body" and "length pre = p"
  shows "strrev (pre @ body @ NUL # rest) p = Some (pre @ rev body @ NUL # rest, length body div 2)"
  using assms by (simp add: strrev_def strlen_cstr [OF cstr_append_NUL] memrev_rev)

text \<open>\<open>itoa\<close> writes exactly the text of the number and its terminator.\<close>

lemma itoa_text:
  assumes r: "2 \<le> r" "r \<le> 36" and x: "- 9223372036854775808 < x"
    and fits: "p + length (int_text r x) < length buf"
  shows "itoa x buf p r = Some (take p buf @ int_text r x @ NUL # drop (p + length (int_text r x) + 1) buf,
           Some (p + length (int_text r x)))"
proof -
  let ?ds = "map ((!) alphabet) (lsd_digits r (nat \<bar>x\<bar>))"
  let ?body = "?ds @ (if x < 0 then [CHR ''-''] else [])"
  have rv: "int_text r x = rev ?body" by (simp add: int_text_def rev_map)
  have len: "length (int_text r x) = length ?body" by (simp only: rv length_rev)
  have nn: "NUL \<notin> set ?body" using NUL_notin_int_text [OF r, of x] unfolding rv set_rev .
  have l: "itoa_loop buf p (nat \<bar>x\<bar>) r =
      Some (take p buf @ ?ds @ drop (p + length ?ds) buf, p + length ?ds)"
    using itoa_loop_digits [OF r, of p "nat \<bar>x\<bar>" buf] fits len by simp
  let ?buf = "take p buf @ ?body @ NUL # drop (p + length ?body + 1) buf"
  have sign: "itoa x buf p r = do {
      (buf, _) \<leftarrow> strrev ?buf p; Some (buf, Some (p + length ?body)) }"
  proof (cases "x < 0")
    case True
    have "mem_store ((take p buf @ ?ds) @ drop (p + length ?ds) buf) (p + length ?ds) (CHR ''-'')
        = Some ((take p buf @ ?ds) @ CHR ''-'' # drop (p + length ?ds + 1) buf)"
      using fits len True by (subst mem_store_append) auto
    moreover have "mem_store ((take p buf @ ?ds @ [CHR ''-'']) @ drop (p + length ?ds + 1) buf)
        (Suc (p + length ?ds)) NUL
        = Some ((take p buf @ ?ds @ [CHR ''-'']) @ NUL # drop (p + length ?ds + 2) buf)"
      using fits len True by (subst mem_store_append) auto
    ultimately show ?thesis using r x l True by (simp add: itoa_def)
  next
    case False
    have "mem_store ((take p buf @ ?ds) @ drop (p + length ?ds) buf) (p + length ?ds) NUL
        = Some ((take p buf @ ?ds) @ NUL # drop (p + length ?ds + 1) buf)"
      using fits len False by (subst mem_store_append) auto
    then show ?thesis using r x l False by (simp add: itoa_def)
  qed
  have "strrev ?buf p = Some (take p buf @ rev ?body @ NUL # drop (p + length ?body + 1) buf,
      length ?body div 2)"
    by (rule strrev_cstr [OF nn]) (use fits in simp)
  then show ?thesis using sign by (simp only: rv length_rev) simp
qed

lemma atoi_loop_digits:
  assumes r: "2 \<le> r" "r \<le> 36" and ds: "\<forall>d\<in>set ds. d < r"
  shows "atoi_loop (map ((!) alphabet) ds @ NUL # rest) r res sign =
    Some (foldl (\<lambda>a d. a * of_nat r + of_nat d) res ds, sign)"
  using ds
proof (induction ds arbitrary: res)
  case Nil
  then show ?case by simp
next
  case (Cons d ds)
  then have "d < 36" "d < r" using r by auto
  with Cons alphabet_props [OF \<open>d < 36\<close>] show ?case by simp
qed

lemma foldl_digits_word:
  "foldl (\<lambda>a d. a * of_nat r + of_nat d) (0 :: u64) (rev ds) = of_nat (foldr (\<lambda>d a. a * r + d) ds 0)"
  by (induction ds) (simp_all add: add.commute mult.commute)

lemma sint_of_nat_small:
  assumes "n < 9223372036854775808"
  shows "sint (of_nat n :: u64) = int n" "sint (- of_nat n :: u64) = - int n"
proof -
  show "sint (of_nat n :: u64) = int n"
    using assms by (simp add: signed_of_nat signed_take_bit_int_eq_self)
  have "(- of_nat n :: u64) = word_of_int (- int n)" by simp
  then show "sint (- of_nat n :: u64) = - int n"
    using assms by (simp only: signed_of_int) (simp add: signed_take_bit_int_eq_self)
qed

text \<open>Parsing inverts printing, over the whole range \<open>itoa\<close> accepts.\<close>

lemma atoi_int_text:
  assumes r: "2 \<le> r" "r \<le> 36"
    and x: "- 9223372036854775808 < x" "x < 9223372036854775808" and s: "cstr s (int_text r x)"
  shows "atoi s r = Some x"
proof -
  let ?ds = "lsd_digits r (nat \<bar>x\<bar>)"
  obtain rest where s: "s = int_text r x @ NUL # rest" using s by (auto simp: cstr_def prefix_def)
  have "atoi_loop s r 0 False = atoi_loop (map ((!) alphabet) (rev ?ds) @ NUL # rest) r 0 (x < 0)"
    unfolding s int_text_def by simp
  also have "\<dots> = Some (of_nat (nat \<bar>x\<bar>), x < 0)"
    using r lsd_digits_less [OF r(1)] lsd_digits_value [OF r(1)]
    by (subst atoi_loop_digits) (auto simp: foldl_digits_word)
  finally show ?thesis
    using r x sint_of_nat_small [of "nat \<bar>x\<bar>"] by (cases "x < 0") (auto simp: atoi_def)
qed

lemma strstr_first_witness:
  "strstr (''aab'' @ [NUL, CHR ''a'']) (''ab'' @ [NUL]) = Some (Some 1)"
proof -
  have "sublist ''ab'' ''aab''" by (simp add: sublist_def) (metis append_Cons append_Nil append_Nil2)
  moreover have "(LEAST i. prefix ''ab'' (drop i ''aab'')) = 1"
  proof (rule Least_equality)
    fix i assume "prefix ''ab'' (drop i ''aab'')"
    then show "1 \<le> i" by (cases i) auto
  qed simp
  ultimately show ?thesis
    using strstr_first [of "''aab'' @ [NUL, CHR ''a'']" "''aab''" "''ab'' @ [NUL]" "''ab''"]
    by (simp add: cstr_def)
qed

lemma memmove_correct_witness: "memmove [1, 2, 3, 4 :: nat] 1 0 3 = Some [1, 1, 2, 3]"
  using memmove_correct [of 1 3 "[1, 2, 3, 4 :: nat]" 0] by (simp add: mem_write_def)

text \<open>
  C39. Printing and reading back an integer is the identity, in every base from 2 to 36 and for
  every value of the 64-bit type but the smallest: \<open>itoa\<close> writes, from the given position on, the minus
  sign of a negative number, the digits (capital letters above 9), most significant first and without
  leading zeros, and a terminator, touches nothing else in the buffer, which has room for it, and \<open>atoi\<close>
  at the same place returns the number.
\<close>

theorem atoi_itoa:
  assumes "2 \<le> r" "r \<le> 36" and "- 9223372036854775808 < x" "x < 9223372036854775808"
    and "p + length (int_text r x) < length buf"
  shows "\<exists>buf' e. itoa x buf p r = Some (buf', Some e) \<and> atoi (drop p buf') r = Some x
    \<and> buf' = take p buf @ int_text r x @ NUL # drop (e + 1) buf \<and> e = p + length (int_text r x)"
proof -
  let ?t = "int_text r x" and ?rest = "drop (p + length (int_text r x) + 1) buf"
  have "cstr (?t @ NUL # ?rest) ?t"
    using NUL_notin_int_text [OF assms(1,2)] by (simp add: cstr_append_NUL)
  then have "atoi (?t @ NUL # ?rest) r = Some x"
    by (rule atoi_int_text [OF assms(1,2,3,4)])
  then show ?thesis
    using itoa_text [OF assms(1,2,3,5)] assms(5) by simp
qed

lemma atoi_itoa_witness:
  "\<exists>buf' e. itoa (- 42) (replicate 8 NUL) 1 10 = Some (buf', Some e) \<and> atoi (drop 1 buf') 10 = Some (- 42)
    \<and> e = 4"
proof -
  have "int_text 10 (- 42) = ''-42''"
    by (simp add: int_text_def lsd_digits.simps alphabet_def)
  then show ?thesis using atoi_itoa [of 10 "- 42" 1 "replicate 8 NUL"] by auto
qed

end
