(* ===== verification/Frames.thy ===== *)
theory Frames
  imports Prelude
begin

unbundle bit_operations_syntax

text \<open>
  The physical frame allocator of \<open>kernel/cpu/mmu.c\<close>: a bitmap with one bit per 4 KiB frame
  (set means in use), the search hint \<open>lowest_available\<close>, and the sharing counts that
  copy-on-write keeps per frame. The record holds the file's static variables; \<open>kmem\<close> is the
  memory behind the kernel's direct mapping of physical memory, by kernel virtual address.
\<close>

section \<open>State\<close>

record mmu =
  frames :: "u32 list"
  n_frames :: u64
  lowest_available :: u64
  mem_refcounts :: "u8 list"
  current_pml :: u64
  kernel_pml :: u64
  mmio_base_address :: u64
  unavailable_memory :: nat
  kmem :: "u64 \<Rightarrow> u8"

abbreviation PAGE_SIZE :: u64 where "PAGE_SIZE \<equiv> 0x1000"
abbreviation HIGH_MAP_REGION :: u64 where "HIGH_MAP_REGION \<equiv> 0xFFFFFF8000000000"
abbreviation NO_FRAME :: u64 where "NO_FRAME \<equiv> - 1"

definition bit_index :: "u64 \<Rightarrow> u64" where "bit_index b = drop_bit 5 b"
definition bit_offset :: "u64 \<Rightarrow> u64" where "bit_offset b = b AND 0x1F"

definition mmu_from_physical :: "u64 \<Rightarrow> u64" where
  "mmu_from_physical frame = frame OR HIGH_MAP_REGION"

section \<open>The bitmap\<close>

definition mmu_lock_frame :: "u64 \<Rightarrow> mmu \<Rightarrow> mmu option" where
  "mmu_lock_frame frame_addr m =
     (if frame_addr < n_frames m * PAGE_SIZE then
        (let frame = drop_bit 12 frame_addr;
             index = unat (bit_index frame);
             offset = unat (bit_offset frame) in do {
           w \<leftarrow> mem_load (frames m) index;
           fs \<leftarrow> mem_store (frames m) index (w OR push_bit offset 1);
           Some (m\<lparr>frames := fs\<rparr>) })
      else Some m)"

definition mmu_release_frame :: "u64 \<Rightarrow> mmu \<Rightarrow> mmu option" where
  "mmu_release_frame frame_addr m =
     (if frame_addr < n_frames m * PAGE_SIZE then
        (let frame = drop_bit 12 frame_addr;
             index = unat (bit_index frame);
             offset = unat (bit_offset frame) in do {
           w \<leftarrow> mem_load (frames m) index;
           fs \<leftarrow> mem_store (frames m) index (w AND NOT (push_bit offset 1));
           Some (m\<lparr>frames := fs, lowest_available :=
                     (if frame < lowest_available m then frame else lowest_available m)\<rparr>) })
      else Some m)"

definition mmu_probe_frame :: "u64 \<Rightarrow> mmu \<Rightarrow> bool option" where
  "mmu_probe_frame frame_addr m =
     (if frame_addr \<ge> n_frames m * PAGE_SIZE then Some True
      else (let frame = drop_bit 12 frame_addr in do {
           w \<leftarrow> mem_load (frames m) (unat (bit_index frame));
           Some (w AND push_bit (unat (bit_offset frame)) 1 \<noteq> 0) }))"

text \<open>The inner loop of \<open>mmu_request_frames\<close>: \<open>left\<close> frames from \<open>i + j\<close> on are still to probe.\<close>

fun probe_run :: "u64 \<Rightarrow> u64 \<Rightarrow> nat \<Rightarrow> mmu \<Rightarrow> bool option" where
  "probe_run i j 0 m = Some True"
| "probe_run i j (Suc left) m = do {
     used \<leftarrow> mmu_probe_frame (PAGE_SIZE * (i + j)) m;
     (if used then Some False else probe_run i (j + 1) left m) }"

function request_frames_loop :: "u64 \<Rightarrow> nat \<Rightarrow> mmu \<Rightarrow> u64 option" where
  "request_frames_loop i n m =
     (if i < n_frames m then do {
        free \<leftarrow> probe_run i 0 n m;
        (if free then Some i else request_frames_loop (i + 1) n m) }
      else Some NO_FRAME)"
  by pat_completeness auto
termination
proof (relation "measure (\<lambda>(i, n, m). unat (n_frames m) - unat i)", goal_cases)
  case 1
  show ?case by simp
next
  case (2 i n m free)
  then have "unat (i + 1) = unat i + 1" and "unat i < unat (n_frames m)"
    by (simp_all add: unat_plus_simple word_less_nat_alt) unat_arith+
  then show ?case by simp
qed

declare request_frames_loop.simps [simp del]

definition mmu_request_frames :: "int \<Rightarrow> mmu \<Rightarrow> u64 option" where
  "mmu_request_frames n m = request_frames_loop (lowest_available m) (nat n) m"

text \<open>
  \<open>mmu_request_frame\<close> scans whole 32-bit words of the bitmap, then the bits of the first word
  that has a clear one.
\<close>

function request_frame_loop :: "nat \<Rightarrow> nat \<Rightarrow> mmu \<Rightarrow> (mmu \<times> u64) option" where
  "request_frame_loop i limit m =
     (if i < limit then do {
        w \<leftarrow> mem_load (frames m) i;
        (case (if w \<noteq> - 1 then find (\<lambda>j. w AND push_bit j 1 = 0) [0..<32] else None) of
           Some j \<Rightarrow> (let out = push_bit 5 (of_nat i) + of_nat j in
                      Some (m\<lparr>lowest_available := out + 1\<rparr>, out))
         | None \<Rightarrow> request_frame_loop (Suc i) limit m) }
      else Some (m, NO_FRAME))"
  by pat_completeness auto
termination
  by (relation "measure (\<lambda>(i, limit, m). limit - i)") auto

declare request_frame_loop.simps [simp del]

definition mmu_request_frame :: "mmu \<Rightarrow> (mmu \<times> u64) option" where
  "mmu_request_frame m =
     request_frame_loop (unat (bit_index (lowest_available m))) (unat (bit_index (n_frames m))) m"

definition mmu_allocate_frame :: "mmu \<Rightarrow> (mmu \<times> u64) option" where
  "mmu_allocate_frame m = do {
     (m, index) \<leftarrow> mmu_request_frame m;
     m \<leftarrow> mmu_lock_frame (push_bit 12 index) m;
     Some (m, index) }"

text \<open>The loop that applies an operation to \<open>n\<close> consecutive frames from the address \<open>base\<close> on.\<close>

fun for_frames :: "(u64 \<Rightarrow> 's \<Rightarrow> 's option) \<Rightarrow> u64 \<Rightarrow> nat \<Rightarrow> 's \<Rightarrow> 's option" where
  "for_frames f base 0 s = Some s"
| "for_frames f base (Suc n) s = do { s \<leftarrow> f base s; for_frames f (base + PAGE_SIZE) n s }"

definition mmu_allocate_frames :: "int \<Rightarrow> mmu \<Rightarrow> (mmu \<times> u64) option" where
  "mmu_allocate_frames n m = do {
     index \<leftarrow> mmu_request_frames n m;
     m \<leftarrow> for_frames mmu_lock_frame (push_bit 12 index) (nat n) m;
     Some (m, index) }"

text \<open>
  The two counting loops: used frames over the whole words of the bitmap, in KiB, less what
  was unavailable at boot.
\<close>

definition count_used_bits :: "u32 list \<Rightarrow> nat" where
  "count_used_bits ws = sum_list (map (\<lambda>w. length (filter (\<lambda>j. w AND push_bit j 1 \<noteq> 0) [0..<32])) ws)"

definition mmu_used_memory :: "mmu \<Rightarrow> nat option" where
  "mmu_used_memory m = do {
     ws \<leftarrow> mem_read (frames m) 0 (unat (bit_index (n_frames m)));
     Some (sub64 (count_used_bits ws * 4) (unavailable_memory m)) }"

section \<open>Sharing counts\<close>

definition refcount_increase :: "u64 \<Rightarrow> mmu \<Rightarrow> (mmu \<times> int) option" where
  "refcount_increase frame m =
     (if frame \<ge> n_frames m then Some (m, - 1)
      else do {
        c \<leftarrow> mem_load (mem_refcounts m) (unat frame);
        (if c = 255 then Some (m, 1)
         else do { rc \<leftarrow> mem_store (mem_refcounts m) (unat frame) (c + 1);
                   Some (m\<lparr>mem_refcounts := rc\<rparr>, 0) }) })"

definition refcount_decrease :: "u64 \<Rightarrow> mmu \<Rightarrow> (mmu \<times> int) option" where
  "refcount_decrease frame m =
     (if frame \<ge> n_frames m then Some (m, - 1)
      else do {
        c \<leftarrow> mem_load (mem_refcounts m) (unat frame);
        (if c = 0 then Some (m, - 1)
         else do { rc \<leftarrow> mem_store (mem_refcounts m) (unat frame) (c - 1);
                   Some (m\<lparr>mem_refcounts := rc\<rparr>, uint (c - 1)) }) })"

section \<open>The abstract view: the set of frames in use\<close>

definition used :: "mmu \<Rightarrow> nat set" where
  "used m = {f. f < 32 * length (frames m) \<and> bit (frames m ! (f div 32)) (f mod 32)}"

definition nframes :: "mmu \<Rightarrow> nat" where
  "nframes m = unat (n_frames m)"

text \<open>
  The bitmap covers every frame, and the frames fit the 512 GiB that the kernel's direct map
  reaches.
\<close>

definition fr_ok :: "mmu \<Rightarrow> bool" where
  "fr_ok m \<longleftrightarrow> nframes m \<le> 32 * length (frames m) \<and> nframes m \<le> 134217728"

text \<open>The allocator's view does not depend on the contents of memory.\<close>

lemma kmem_update [simp]:
  "used (m\<lparr>kmem := k\<rparr>) = used m" "nframes (m\<lparr>kmem := k\<rparr>) = nframes m"
  "fr_ok (m\<lparr>kmem := k\<rparr>) = fr_ok m"
  by (simp_all add: used_def nframes_def fr_ok_def)

lemma refcounts_update [simp]:
  "used (m\<lparr>mem_refcounts := k\<rparr>) = used m" "nframes (m\<lparr>mem_refcounts := k\<rparr>) = nframes m"
  "fr_ok (m\<lparr>mem_refcounts := k\<rparr>) = fr_ok m"
  by (simp_all add: used_def nframes_def fr_ok_def)

definition frame_of :: "u64 \<Rightarrow> nat" where
  "frame_of a = unat a div 4096"

lemma unat_drop_bit: "unat (drop_bit k w) = unat w div 2 ^ k"
  by (subst unat_drop_bit_eq) (simp only: drop_bit_eq_div)

lemma unat_frame [simp]: "unat (drop_bit 12 (a :: u64)) = frame_of a"
  by (simp add: unat_drop_bit frame_of_def)

lemma unat_bit_index [simp]: "unat (bit_index a) = unat a div 32"
  by (simp add: bit_index_def unat_drop_bit)

lemma unat_bit_offset [simp]: "unat (bit_offset a) = unat a mod 32"
proof -
  have "bit_offset a = take_bit 5 a"
    using take_bit_eq_mask [of 5 a] by (simp add: bit_offset_def mask_eq_exp_minus_1)
  then have "unat (bit_offset a) = take_bit 5 (unat a)" by (simp only: unsigned_take_bit_eq)
  then show ?thesis by (simp add: take_bit_eq_mod)
qed

lemma frame_addr_less:
  "fr_ok m \<Longrightarrow> a < n_frames m * PAGE_SIZE \<longleftrightarrow> frame_of a < nframes m"
proof -
  assume "fr_ok m"
  then have "unat (n_frames m * PAGE_SIZE) = nframes m * 4096"
    by (simp add: fr_ok_def nframes_def unat_word_ariths)
  then show ?thesis
    by (simp add: word_less_nat_alt frame_of_def div_less_iff_less_mult)
qed

lemma frame_of_shift: "unat f < 4503599627370496 \<Longrightarrow> frame_of (push_bit 12 f) = unat f"
  by (simp add: frame_of_def push_bit_eq_mult unat_word_ariths)

lemma div_mod_32_iff: "f div 32 = i \<and> f mod 32 = k \<longleftrightarrow> f = 32 * i + k \<and> k < (32 :: nat)"
  by (auto simp: mult_div_mod_eq)

lemma bit_lock: "j < 32 \<Longrightarrow> bit ((w :: u32) OR push_bit k 1) j \<longleftrightarrow> bit w j \<or> j = k"
  by (auto simp: bit_simps)

lemma bit_release: "j < 32 \<Longrightarrow> bit ((w :: u32) AND NOT (push_bit k 1)) j \<longleftrightarrow> bit w j \<and> j \<noteq> k"
  by (auto simp: bit_simps)

lemma bit_test: "k < 32 \<Longrightarrow> ((w :: u32) AND push_bit k 1 \<noteq> 0) \<longleftrightarrow> bit w k"
proof -
  assume "k < 32"
  have "w AND push_bit k 1 = (if bit w k then push_bit k 1 else 0)"
    by (rule bit_eqI) (auto simp: bit_simps)
  moreover have "push_bit k 1 \<noteq> (0 :: u32)"
  proof
    assume z: "push_bit k 1 = (0 :: u32)"
    have "bit (push_bit k 1 :: u32) k" using \<open>k < 32\<close> by (simp add: bit_simps)
    then show False unfolding z by simp
  qed
  ultimately show ?thesis by simp
qed

lemma bit_test_pow [simp]: "k < 32 \<Longrightarrow> ((w :: u32) AND 2 ^ k = 0) \<longleftrightarrow> \<not> bit w k"
  using bit_test [of k w] by auto

lemma mmu_lock_frame_used:
  assumes "fr_ok m"
  shows "\<exists>fs. mmu_lock_frame a m = Some (m\<lparr>frames := fs\<rparr>) \<and> fr_ok (m\<lparr>frames := fs\<rparr>)
    \<and> length fs = length (frames m)
    \<and> used (m\<lparr>frames := fs\<rparr>) = used m \<union> (if frame_of a < nframes m then {frame_of a} else {})"
proof (cases "frame_of a < nframes m")
  case True
  let ?i = "frame_of a div 32" and ?k = "frame_of a mod 32"
  let ?fs = "(frames m)[?i := frames m ! ?i OR push_bit ?k 1]"
  have i: "?i < length (frames m)"
    using True assms by (intro less_mult_imp_div_less) (simp add: fr_ok_def)
  have "mmu_lock_frame a m = Some (m\<lparr>frames := ?fs\<rparr>)"
    using True i by (simp add: mmu_lock_frame_def frame_addr_less [OF assms] Let_def memobj)
  moreover have "used (m\<lparr>frames := ?fs\<rparr>) = used m \<union> {frame_of a}"
  proof (rule set_eqI)
    fix f
    show "f \<in> used (m\<lparr>frames := ?fs\<rparr>) \<longleftrightarrow> f \<in> used m \<union> {frame_of a}"
      using i bit_lock [of "f mod 32"] div_mod_32_iff [of f ?i ?k] assms
      by (cases "f div 32 = ?i") (auto simp: used_def)
  qed
  ultimately show ?thesis using True assms by (auto simp: fr_ok_def nframes_def)
next
  case False
  then show ?thesis
    using assms by (intro exI [of _ "frames m"]) (simp add: mmu_lock_frame_def frame_addr_less)
qed

lemma mmu_release_frame_used:
  assumes "fr_ok m"
  shows "\<exists>fs l. mmu_release_frame a m = Some (m\<lparr>frames := fs, lowest_available := l\<rparr>)
    \<and> fr_ok (m\<lparr>frames := fs, lowest_available := l\<rparr>) \<and> length fs = length (frames m)
    \<and> used (m\<lparr>frames := fs, lowest_available := l\<rparr>) =
        used m - (if frame_of a < nframes m then {frame_of a} else {})
    \<and> unat l = (if frame_of a < nframes m then min (frame_of a) (unat (lowest_available m))
                else unat (lowest_available m))"
proof (cases "frame_of a < nframes m")
  case True
  let ?i = "frame_of a div 32" and ?k = "frame_of a mod 32"
  let ?fs = "(frames m)[?i := frames m ! ?i AND NOT (push_bit ?k 1)]"
  let ?l = "if drop_bit 12 a < lowest_available m then drop_bit 12 a else lowest_available m"
  have i: "?i < length (frames m)"
    using True assms by (intro less_mult_imp_div_less) (simp add: fr_ok_def)
  have "mmu_release_frame a m = Some (m\<lparr>frames := ?fs, lowest_available := ?l\<rparr>)"
    using True i by (simp add: mmu_release_frame_def frame_addr_less [OF assms] Let_def memobj)
  moreover have "used (m\<lparr>frames := ?fs, lowest_available := ?l\<rparr>) = used m - {frame_of a}"
  proof (rule set_eqI)
    fix f
    show "f \<in> used (m\<lparr>frames := ?fs, lowest_available := ?l\<rparr>) \<longleftrightarrow> f \<in> used m - {frame_of a}"
      using i bit_release [of "f mod 32"] div_mod_32_iff [of f ?i ?k] assms
      by (cases "f div 32 = ?i") (auto simp: used_def)
  qed
  moreover have "unat ?l = min (frame_of a) (unat (lowest_available m))"
    by (simp add: word_less_nat_alt)
  moreover have "fr_ok (m\<lparr>frames := ?fs, lowest_available := ?l\<rparr>)"
    using assms by (simp add: fr_ok_def nframes_def)
  ultimately show ?thesis
    using True by (intro exI [of _ ?fs] exI [of _ ?l]) (simp only: length_list_update simp_thms if_True)
next
  case False
  then show ?thesis
    using assms by (intro exI [of _ "frames m"] exI [of _ "lowest_available m"])
      (simp add: mmu_release_frame_def frame_addr_less)
qed

lemma mmu_probe_frame_used:
  assumes "fr_ok m"
  shows "mmu_probe_frame a m = Some (nframes m \<le> frame_of a \<or> frame_of a \<in> used m)"
proof (cases "frame_of a < nframes m")
  case True
  have i: "frame_of a div 32 < length (frames m)"
    using True assms by (intro less_mult_imp_div_less) (simp add: fr_ok_def)
  have "a < n_frames m * PAGE_SIZE" using True frame_addr_less [OF assms] by simp
  then have "mmu_probe_frame a m = Some (bit (frames m ! (frame_of a div 32)) (frame_of a mod 32))"
    using i by (simp add: mmu_probe_frame_def memobj Let_def flip: not_less)
  then show ?thesis using True assms by (simp add: used_def fr_ok_def)
next
  case False
  then have "\<not> a < n_frames m * PAGE_SIZE" using frame_addr_less [OF assms] by simp
  then show ?thesis using False by (simp add: mmu_probe_frame_def not_less)
qed

section \<open>The search for one frame\<close>

text \<open>Every frame below the hint is in use: what makes starting at the hint complete.\<close>

definition low_ok :: "mmu \<Rightarrow> bool" where
  "low_ok m \<longleftrightarrow> (\<forall>f < unat (lowest_available m). f < nframes m \<longrightarrow> f \<in> used m)"

lemma low_ok_kmem [simp]:
  "low_ok (m\<lparr>kmem := k\<rparr>) = low_ok m" "low_ok (m\<lparr>mem_refcounts := r\<rparr>) = low_ok m"
  by (simp_all add: low_ok_def)

lemma find_clear_bit:
  "find (\<lambda>j. (w :: u32) AND push_bit j 1 = 0) [0..<32] = Some j \<longleftrightarrow>
     j < 32 \<and> \<not> bit w j \<and> (\<forall>k<j. bit w k)"
proof -
  have "find (\<lambda>j. w AND push_bit j 1 = 0) [0..<32] = find (\<lambda>j. \<not> bit w j) [0..<32]"
    by (rule find_cong) simp_all
  then show ?thesis by (auto simp: find_Some_iff)
qed

lemma find_clear_bit_None:
  "(if (w :: u32) \<noteq> - 1 then find (\<lambda>j. w AND push_bit j 1 = 0) [0..<32] else None) = None \<Longrightarrow>
   j < 32 \<Longrightarrow> bit w j"
  by (auto simp: find_None_iff push_bit_of_1 split: if_splits)

lemma request_frame_loop_spec:
  assumes "fr_ok m" and "limit \<le> length (frames m)" and "32 * limit \<le> nframes m"
    and "\<forall>f < 32 * i. f < nframes m \<longrightarrow> f \<in> used m"
  shows "\<exists>m' idx. request_frame_loop i limit m = Some (m', idx)
    \<and> (idx = NO_FRAME \<and> m' = m \<and> (\<forall>f < 32 * limit. f \<in> used m)
       \<or> unat idx < 32 * limit \<and> unat idx \<notin> used m \<and> m' = m\<lparr>lowest_available := idx + 1\<rparr>
         \<and> (\<forall>f < unat idx. f \<in> used m))"
  using assms
proof (induction i limit m rule: request_frame_loop.induct)
  case (1 i limit m)
  show ?case
  proof (cases "i < limit")
    case False
    then have "request_frame_loop i limit m = Some (m, NO_FRAME)"
      by (simp add: request_frame_loop.simps [of i])
    then show ?thesis using False 1 by auto
  next
    case True
    let ?w = "frames m ! i"
    let ?r = "if ?w \<noteq> - 1 then find (\<lambda>j. ?w AND push_bit j 1 = 0) [0..<32] else None"
    have ld: "mem_load (frames m) i = Some ?w" using True 1 by (simp add: memobj)
    show ?thesis
    proof (cases ?r)
      case None
      have "f \<in> used m" if "f < 32 * Suc i" for f
      proof (cases "f < 32 * i")
        case True
        then show ?thesis using 1 \<open>i < limit\<close> by auto
      next
        case False
        with that have "f div 32 = i" by simp
        then show ?thesis
          using find_clear_bit_None [OF None, of "f mod 32"] that True 1 by (auto simp: used_def)
      qed
      moreover have "request_frame_loop i limit m = request_frame_loop (Suc i) limit m"
        using True ld None by (simp add: request_frame_loop.simps [of i])
      ultimately show ?thesis using "1.IH" [OF True ld None] "1.prems" by simp
    next
      case (Some j)
      then have "?w \<noteq> - 1" and find: "find (\<lambda>j. ?w AND push_bit j 1 = 0) [0..<32] = Some j"
        by (auto split: if_splits)
      from find have j: "j < 32" "\<not> bit ?w j" "\<And>k. k < j \<Longrightarrow> bit ?w k"
        unfolding find_clear_bit by auto
      let ?out = "push_bit 5 (of_nat i) + of_nat j :: u64"
      have small: "32 * i + j < 4503599627370496" using True j 1 by (simp add: fr_ok_def)
      then have "unat (push_bit 5 (of_nat i) :: u64) = 32 * i"
        by (simp add: push_bit_eq_mult unat_word_ariths unat_of_nat)
      then have out: "unat ?out = 32 * i + j"
        using small j by (simp add: unat_word_ariths unat_of_nat)
      have "request_frame_loop i limit m = Some (m\<lparr>lowest_available := ?out + 1\<rparr>, ?out)"
        using True ld Some by (simp add: request_frame_loop.simps [of i] Let_def)
      moreover have "f \<in> used m" if "f < 32 * i + j" for f
      proof (cases "f < 32 * i")
        case False
        with that j have i: "f div 32 = i" by auto
        then have "f mod 32 < j" using that mult_div_mod_eq [of 32 f] by simp
        with i show ?thesis using j True 1 that by (auto simp: used_def)
      qed (use 1 True in auto)
      moreover have "32 * i + j \<notin> used m" using j by (simp add: used_def)
      ultimately show ?thesis using out True j by auto
    qed
  qed
qed

section \<open>What the allocator promises\<close>

text \<open>
  \<open>request_frame\<close> never looks at the last \<open>n_frames mod 32\<close> frames; the frames it can hand
  out are those below \<open>whole_words\<close>.
\<close>

definition whole_words :: "mmu \<Rightarrow> nat" where
  "whole_words m = 32 * (nframes m div 32)"

lemma mmu_request_frame_spec:
  assumes "fr_ok m" and "low_ok m"
  shows "\<exists>m' idx. mmu_request_frame m = Some (m', idx)
    \<and> (idx = NO_FRAME \<and> m' = m \<and> (\<forall>f < whole_words m. f \<in> used m)
       \<or> unat idx < whole_words m \<and> unat idx \<notin> used m \<and> m' = m\<lparr>lowest_available := idx + 1\<rparr>
         \<and> (\<forall>f < unat idx. f \<in> used m))"
proof -
  have "nframes m div 32 \<le> length (frames m)" and "32 * (nframes m div 32) \<le> nframes m"
    using assms(1) div_le_mono [of "nframes m" "32 * length (frames m)" 32]
    by (simp_all add: fr_ok_def)
  moreover have "\<forall>f < 32 * (unat (lowest_available m) div 32). f < nframes m \<longrightarrow> f \<in> used m"
    using assms(2) by (auto simp: low_ok_def)
  ultimately show ?thesis
    using request_frame_loop_spec [OF assms(1), of "nframes m div 32" "unat (lowest_available m) div 32"]
    by (simp add: mmu_request_frame_def whole_words_def nframes_def)
qed

lemma no_frame_ne: "unat idx < 4503599627370496 \<Longrightarrow> idx \<noteq> NO_FRAME"
proof
  assume "unat idx < 4503599627370496" and "idx = NO_FRAME"
  then show False by (simp add: unsigned_minus_1_eq_mask mask_eq_exp_minus_1)
qed

lemma whole_words_le: "whole_words m \<le> nframes m"
  by (simp add: whole_words_def)

text \<open>
  The contract of one allocation, in terms of the set of used frames: it hands out the lowest
  free frame and marks it, or fails with the state unchanged when every frame is used.
\<close>

lemma mmu_allocate_frame_spec:
  assumes "fr_ok m" and "low_ok m"
  shows "\<exists>m' idx. mmu_allocate_frame m = Some (m', idx) \<and> fr_ok m' \<and> low_ok m' \<and> nframes m' = nframes m
    \<and> kmem m' = kmem m
    \<and> (if idx = NO_FRAME then m' = m \<and> (\<forall>f < whole_words m. f \<in> used m)
       else unat idx < whole_words m \<and> unat idx \<notin> used m \<and> used m' = insert (unat idx) (used m)
         \<and> (\<forall>f < unat idx. f \<in> used m))"
proof -
  obtain m1 idx where req: "mmu_request_frame m = Some (m1, idx)"
    and or: "idx = NO_FRAME \<and> m1 = m \<and> (\<forall>f < whole_words m. f \<in> used m)
       \<or> unat idx < whole_words m \<and> unat idx \<notin> used m \<and> m1 = m\<lparr>lowest_available := idx + 1\<rparr>
         \<and> (\<forall>f < unat idx. f \<in> used m)"
    using mmu_request_frame_spec [OF assms] by blast
  from or show ?thesis
  proof
    assume a: "idx = NO_FRAME \<and> m1 = m \<and> (\<forall>f < whole_words m. f \<in> used m)"
    have big: "\<not> frame_of (push_bit 12 NO_FRAME) < nframes m" using assms(1)
      by (simp add: fr_ok_def frame_of_def push_bit_eq_mult)
    then have "mmu_lock_frame (push_bit 12 NO_FRAME) m = Some m"
      using frame_addr_less [OF assms(1)] by (simp add: mmu_lock_frame_def)
    then show ?thesis using a req assms by (simp add: mmu_allocate_frame_def)
  next
    assume a: "unat idx < whole_words m \<and> unat idx \<notin> used m \<and> m1 = m\<lparr>lowest_available := idx + 1\<rparr>
         \<and> (\<forall>f < unat idx. f \<in> used m)"
    then have lt: "unat idx < nframes m" using whole_words_le [of m] by simp
    then have small: "unat idx < 4503599627370496" using assms(1) by (simp add: fr_ok_def)
    have ok1: "fr_ok m1" and n1: "nframes m1 = nframes m" and u1: "used m1 = used m"
      using a assms(1) by (simp_all add: fr_ok_def nframes_def used_def)
    obtain fs where lock: "mmu_lock_frame (push_bit 12 idx) m1 = Some (m1\<lparr>frames := fs\<rparr>)"
      and ok: "fr_ok (m1\<lparr>frames := fs\<rparr>)"
      and used: "used (m1\<lparr>frames := fs\<rparr>) = insert (unat idx) (used m)"
      using mmu_lock_frame_used [OF ok1, of "push_bit 12 idx"] lt n1 u1 frame_of_shift [OF small] by auto
    have "unat (idx + 1) = unat idx + 1" using small by (simp add: unat_word_ariths)
    then have "low_ok (m1\<lparr>frames := fs\<rparr>)"
      unfolding low_ok_def used using a by (auto simp: less_Suc_eq)
    then show ?thesis using req lock ok used a n1 no_frame_ne [OF small]
      by (auto simp: mmu_allocate_frame_def nframes_def)
  qed
qed

lemma mmu_release_frame_spec:
  assumes "fr_ok m" and "low_ok m"
  shows "\<exists>m'. mmu_release_frame a m = Some m' \<and> fr_ok m' \<and> low_ok m' \<and> nframes m' = nframes m
    \<and> kmem m' = kmem m
    \<and> used m' = used m - (if frame_of a < nframes m then {frame_of a} else {})"
proof -
  obtain fs l where rel: "mmu_release_frame a m = Some (m\<lparr>frames := fs, lowest_available := l\<rparr>)"
    and ok: "fr_ok (m\<lparr>frames := fs, lowest_available := l\<rparr>)"
    and used: "used (m\<lparr>frames := fs, lowest_available := l\<rparr>) =
        used m - (if frame_of a < nframes m then {frame_of a} else {})"
    and l: "unat l = (if frame_of a < nframes m then min (frame_of a) (unat (lowest_available m))
                else unat (lowest_available m))"
    using mmu_release_frame_used [OF assms(1)] by blast
  have "low_ok (m\<lparr>frames := fs, lowest_available := l\<rparr>)"
    unfolding low_ok_def used using assms(2) l by (auto simp: low_ok_def nframes_def)
  with rel ok used show ?thesis by (simp add: nframes_def)
qed

lemma mmu_lock_frame_spec:
  assumes "fr_ok m" and "low_ok m"
  shows "\<exists>m'. mmu_lock_frame a m = Some m' \<and> fr_ok m' \<and> low_ok m' \<and> nframes m' = nframes m
    \<and> kmem m' = kmem m
    \<and> used m' = used m \<union> (if frame_of a < nframes m then {frame_of a} else {})"
proof -
  obtain fs where "mmu_lock_frame a m = Some (m\<lparr>frames := fs\<rparr>)" and "fr_ok (m\<lparr>frames := fs\<rparr>)"
    and "used (m\<lparr>frames := fs\<rparr>) = used m \<union> (if frame_of a < nframes m then {frame_of a} else {})"
    using mmu_lock_frame_used [OF assms(1)] by blast
  moreover from this have "low_ok (m\<lparr>frames := fs\<rparr>)"
    using assms(2) by (simp add: low_ok_def nframes_def)
  ultimately show ?thesis by (simp add: nframes_def)
qed

lemma probe_run_spec:
  assumes "fr_ok m" and "unat (i + j) + n < 4503599627370496"
  shows "probe_run i j n m = Some (\<forall>f \<in> {unat (i + j)..<unat (i + j) + n}. f < nframes m \<and> f \<notin> used m)"
  using assms
proof (induction i j n m rule: probe_run.induct)
  case (2 i j left m)
  have fr: "frame_of (PAGE_SIZE * (i + j)) = unat (i + j)"
    using 2 frame_of_shift [of "i + j"] by (simp add: push_bit_eq_mult mult.commute)
  have nx: "unat (i + (j + 1)) = Suc (unat (i + j))"
    using 2 by (simp add: unat_word_ariths flip: add.assoc)
  have "{unat (i + j)..<unat (i + j) + Suc left} =
        insert (unat (i + j)) {unat (i + (j + 1))..<unat (i + (j + 1)) + left}"
    using nx by auto
  moreover have "mmu_probe_frame (PAGE_SIZE * (i + j)) m =
      Some (\<not> (unat (i + j) < nframes m \<and> unat (i + j) \<notin> used m))"
    unfolding mmu_probe_frame_used [OF \<open>fr_ok m\<close>] fr by auto
  moreover have "mmu_probe_frame (PAGE_SIZE * (i + j)) m = Some False \<Longrightarrow>
      probe_run i (j + 1) left m =
        Some (\<forall>f \<in> {unat (i + (j + 1))..<unat (i + (j + 1)) + left}. f < nframes m \<and> f \<notin> used m)"
    using 2(1) [of False] 2(2,3) nx by simp
  ultimately show ?case
    by (cases "unat (i + j) < nframes m \<and> unat (i + j) \<notin> used m") simp_all
qed simp

text \<open>A run of free frames starts at \<open>f\<close>.\<close>

definition free_run :: "mmu \<Rightarrow> nat \<Rightarrow> nat \<Rightarrow> bool" where
  "free_run m f n \<longleftrightarrow> (\<forall>k \<in> {f..<f + n}. k < nframes m \<and> k \<notin> used m)"

lemma request_frames_loop_spec:
  assumes "fr_ok m" and "n < 2147483648"
  shows "\<exists>idx. request_frames_loop i n m = Some idx
    \<and> (idx = NO_FRAME \<and> (\<forall>f \<ge> unat i. f < nframes m \<longrightarrow> \<not> free_run m f n)
       \<or> unat i \<le> unat idx \<and> unat idx < nframes m \<and> free_run m (unat idx) n
         \<and> (\<forall>f. unat i \<le> f \<and> f < unat idx \<longrightarrow> \<not> free_run m f n))"
  using assms
proof (induction i n m rule: request_frames_loop.induct)
  case (1 i n m)
  show ?case
  proof (cases "i < n_frames m")
    case False
    then show ?thesis
      using 1 by (auto simp: request_frames_loop.simps [of i] nframes_def word_less_nat_alt)
  next
    case True
    then have lt: "unat i < nframes m" by (simp add: nframes_def word_less_nat_alt)
    then have nx: "unat (i + 1) = Suc (unat i)"
      using 1 by (simp add: fr_ok_def unat_word_ariths)
    have pr: "probe_run i 0 n m = Some (free_run m (unat i) n)"
    proof -
      have "unat (i + 0) + n < 4503599627370496" using 1(2,3) lt by (simp add: fr_ok_def)
      from probe_run_spec [OF 1(2) this] show ?thesis by (simp add: free_run_def)
    qed
    show ?thesis
    proof (cases "free_run m (unat i) n")
      case True
      then show ?thesis using pr \<open>i < n_frames m\<close> lt
        by (auto simp: request_frames_loop.simps [of i])
    next
      case False
      then have eq: "request_frames_loop i n m = request_frames_loop (i + 1) n m"
        using pr \<open>i < n_frames m\<close> by (simp add: request_frames_loop.simps [of i])
      have step: "\<not> free_run m f n" if "unat i \<le> f" "unat (i + 1) \<le> f \<Longrightarrow> \<not> free_run m f n" for f
        using that False nx by (cases "f = unat i") auto
      obtain idx where "request_frames_loop (i + 1) n m = Some idx"
        and "idx = NO_FRAME \<and> (\<forall>f \<ge> unat (i + 1). f < nframes m \<longrightarrow> \<not> free_run m f n)
       \<or> unat (i + 1) \<le> unat idx \<and> unat idx < nframes m \<and> free_run m (unat idx) n
         \<and> (\<forall>f. unat (i + 1) \<le> f \<and> f < unat idx \<longrightarrow> \<not> free_run m f n)"
        using 1(1) [OF True pr] False 1(2,3) by blast
      then show ?thesis
        unfolding eq using step nx by (intro exI [of _ idx]) fastforce
    qed
  qed
qed

section \<open>The interface the rest of the kernel relies on\<close>

text \<open>
  Every owner of physical memory (the heap, the page tables, the files of tmpfs) sees the
  allocator as a set of taken frames that \<open>lock\<close> grows and \<open>release\<close> shrinks by one frame, and
  that never touches the contents of memory.
\<close>

locale frame_set =
  fixes ok :: "'s \<Rightarrow> bool" and taken :: "'s \<Rightarrow> nat set" and cap :: "'s \<Rightarrow> nat"
    and mem :: "'s \<Rightarrow> 'm" and lock :: "u64 \<Rightarrow> 's \<Rightarrow> 's option" and release :: "u64 \<Rightarrow> 's \<Rightarrow> 's option"
  assumes cap_bound: "ok s \<Longrightarrow> cap s \<le> 134217728"
    and lock_law: "ok s \<Longrightarrow> \<exists>s'. lock a s = Some s' \<and> ok s' \<and> cap s' = cap s \<and> mem s' = mem s
          \<and> taken s' = taken s \<union> ({frame_of a} \<inter> {..<cap s})"
    and release_law: "ok s \<Longrightarrow> \<exists>s'. release a s = Some s' \<and> ok s' \<and> cap s' = cap s \<and> mem s' = mem s
          \<and> taken s' = taken s - ({frame_of a} \<inter> {..<cap s})"
begin

lemma frame_addr:
  assumes "ok s" and "f < cap s"
  shows "frame_of (push_bit 12 (of_nat f)) = f"
proof -
  have "f \<le> 134217728" using cap_bound [OF assms(1)] assms(2) by simp
  then show ?thesis using frame_of_shift [of "of_nat f"] by (simp add: unat_of_nat)
qed

lemma next_frame: "push_bit 12 (of_nat f) + PAGE_SIZE = push_bit 12 (of_nat (Suc f) :: u64)"
  by (simp add: push_bit_eq_mult algebra_simps)

lemma lock_run:
  "ok s \<Longrightarrow> f + n \<le> cap s \<Longrightarrow>
   \<exists>s'. for_frames lock (push_bit 12 (of_nat f)) n s = Some s' \<and> ok s' \<and> cap s' = cap s
     \<and> mem s' = mem s \<and> taken s' = taken s \<union> {f..<f + n}"
proof (induction n arbitrary: f s)
  case (Suc n)
  from lock_law [OF Suc.prems(1), of "push_bit 12 (of_nat f)"] frame_addr [OF Suc.prems(1), of f] Suc.prems
  obtain s1 where s1: "lock (push_bit 12 (of_nat f)) s = Some s1" "ok s1" "cap s1 = cap s"
    "mem s1 = mem s" "taken s1 = taken s \<union> {f}"
    by auto
  from Suc.IH [OF s1(2), of "Suc f"] s1(3) Suc.prems
  obtain s2 where "for_frames lock (push_bit 12 (of_nat (Suc f))) n s1 = Some s2" "ok s2"
    "cap s2 = cap s1" "mem s2 = mem s1" "taken s2 = taken s1 \<union> {Suc f..<Suc f + n}"
    by auto
  moreover have "{f} \<union> {Suc f..<Suc f + n} = {f..<f + Suc n}" by auto
  ultimately show ?case
    using s1 by (simp only: for_frames.simps next_frame bind.bind_lunit Un_assoc) simp
qed simp

lemma release_run:
  "ok s \<Longrightarrow> f + n \<le> cap s \<Longrightarrow>
   \<exists>s'. for_frames release (push_bit 12 (of_nat f)) n s = Some s' \<and> ok s' \<and> cap s' = cap s
     \<and> mem s' = mem s \<and> taken s' = taken s - {f..<f + n}"
proof (induction n arbitrary: f s)
  case (Suc n)
  from release_law [OF Suc.prems(1), of "push_bit 12 (of_nat f)"] frame_addr [OF Suc.prems(1), of f] Suc.prems
  obtain s1 where s1: "release (push_bit 12 (of_nat f)) s = Some s1" "ok s1" "cap s1 = cap s"
    "mem s1 = mem s" "taken s1 = taken s - {f}"
    by auto
  from Suc.IH [OF s1(2), of "Suc f"] s1(3) Suc.prems
  obtain s2 where "for_frames release (push_bit 12 (of_nat (Suc f))) n s1 = Some s2" "ok s2"
    "cap s2 = cap s1" "mem s2 = mem s1" "taken s2 = taken s1 - {Suc f..<Suc f + n}"
    by auto
  moreover have "{f} \<union> {Suc f..<Suc f + n} = {f..<f + Suc n}" by auto
  ultimately show ?case
    using s1 by (simp only: for_frames.simps next_frame bind.bind_lunit Diff_eq) auto
qed simp

lemma lock_release_run:
  assumes "ok s" and "f + n \<le> cap s" and "taken s \<inter> {f..<f + n} = {}"
    and "for_frames lock (push_bit 12 (of_nat f)) n s = Some s1"
  shows "\<exists>s2. for_frames release (push_bit 12 (of_nat f)) n s1 = Some s2 \<and> ok s2
     \<and> cap s2 = cap s \<and> taken s2 = taken s"
proof -
  have "ok s1" "cap s1 = cap s" "taken s1 = taken s \<union> {f..<f + n}"
    using lock_run [OF assms(1,2)] assms(4) by auto
  then show ?thesis using release_run [of s1 f n] assms(2,3) by auto
qed

end

interpretation fs: frame_set "\<lambda>m. fr_ok m \<and> low_ok m" used nframes kmem mmu_lock_frame mmu_release_frame
proof unfold_locales
  fix m :: mmu and a :: u64
  assume ok: "fr_ok m \<and> low_ok m"
  then show "nframes m \<le> 134217728" by (simp add: fr_ok_def)
  show "\<exists>m'. mmu_lock_frame a m = Some m' \<and> (fr_ok m' \<and> low_ok m') \<and> nframes m' = nframes m
      \<and> kmem m' = kmem m \<and> used m' = used m \<union> ({frame_of a} \<inter> {..<nframes m})"
    using mmu_lock_frame_spec [of m a] ok by (cases "frame_of a < nframes m") auto
  show "\<exists>m'. mmu_release_frame a m = Some m' \<and> (fr_ok m' \<and> low_ok m') \<and> nframes m' = nframes m
      \<and> kmem m' = kmem m \<and> used m' = used m - ({frame_of a} \<inter> {..<nframes m})"
    using mmu_release_frame_spec [of m a] ok by (cases "frame_of a < nframes m") auto
qed

section \<open>Properties\<close>

text \<open>A small machine: 64 frames, all free.\<close>

definition example_mmu :: mmu where
  "example_mmu = \<lparr>frames = [0, 0], n_frames = 64, lowest_available = 0, mem_refcounts = replicate 64 0,
     current_pml = 0, kernel_pml = 0, mmio_base_address = 0xFFFFFF1FC0000000,
     unavailable_memory = 0, kmem = (\<lambda>_. 0)\<rparr>"

lemma example_mmu_ok [simp]:
  "fr_ok example_mmu" "low_ok example_mmu" "nframes example_mmu = 64" "used example_mmu = {}"
  by (auto simp: example_mmu_def fr_ok_def low_ok_def nframes_def used_def less_Suc_eq nth_Cons')

text \<open>
  C23. One-frame allocation hands out the lowest free frame, marks exactly that frame, keeps
  every frame below the search hint in use, and fails, with the state unchanged, exactly when
  all frames of the bitmap's whole words are taken. Releasing the frame undoes the allocation.
\<close>

theorem mmu_allocate_release:
  assumes "fr_ok m" and "low_ok m"
  shows "\<exists>m' idx. mmu_allocate_frame m = Some (m', idx) \<and> fr_ok m' \<and> low_ok m'
    \<and> (idx = NO_FRAME \<longleftrightarrow> (\<forall>f < whole_words m. f \<in> used m))
    \<and> (if idx = NO_FRAME then m' = m
       else unat idx < whole_words m \<and> unat idx \<notin> used m \<and> (\<forall>f < unat idx. f \<in> used m)
         \<and> used m' = insert (unat idx) (used m)
         \<and> (\<exists>m''. mmu_release_frame (push_bit 12 idx) m' = Some m'' \<and> fr_ok m'' \<and> low_ok m''
              \<and> used m'' = used m))"
proof -
  obtain m' idx where alloc: "mmu_allocate_frame m = Some (m', idx)" "fr_ok m'" "low_ok m'" "nframes m' = nframes m"
    and spec: "if idx = NO_FRAME then m' = m \<and> (\<forall>f < whole_words m. f \<in> used m)
       else unat idx < whole_words m \<and> unat idx \<notin> used m \<and> used m' = insert (unat idx) (used m)
         \<and> (\<forall>f < unat idx. f \<in> used m)"
    using mmu_allocate_frame_spec [OF assms] by blast
  have "\<exists>m''. mmu_release_frame (push_bit 12 idx) m' = Some m'' \<and> fr_ok m'' \<and> low_ok m'' \<and> used m'' = used m"
    if "idx \<noteq> NO_FRAME"
  proof -
    have lt: "unat idx < nframes m" using spec that whole_words_le [of m] by simp
    then have "frame_of (push_bit 12 idx) = unat idx"
      using fs.frame_addr [of m "unat idx"] assms by simp
    then show ?thesis
      using mmu_release_frame_spec [OF alloc(2,3), of "push_bit 12 idx"] spec that lt alloc(4) by auto
  qed
  then show ?thesis
    using alloc spec by (intro exI [of _ m'] exI [of _ idx]) auto
qed

lemma mmu_allocate_release_witness:
  "\<exists>m' m''. mmu_allocate_frame example_mmu = Some (m', 0) \<and> used m' = {0}
    \<and> mmu_release_frame 0 m' = Some m'' \<and> used m'' = {}"
proof -
  have w: "whole_words example_mmu = 64" by (simp add: whole_words_def)
  obtain m' idx where r: "mmu_allocate_frame example_mmu = Some (m', idx)"
    "idx \<noteq> NO_FRAME" "\<forall>f<unat idx. f \<in> used example_mmu" "used m' = {unat idx}"
    "\<exists>m''. mmu_release_frame (push_bit 12 idx) m' = Some m'' \<and> used m'' = used example_mmu"
    using mmu_allocate_release [OF example_mmu_ok(1,2)] unfolding w
    by (metis (no_types, opaque_lifting) example_mmu_ok(4) empty_iff zero_less_numeral)
  then have "idx = 0" by (metis bot_nat_0.not_eq_extremum example_mmu_ok(4) empty_iff unat_eq_zero)
  then show ?thesis using r by auto
qed

text \<open>
  A request for several frames returns the first run of free frames at all (every run lies
  above the hint), answers \<open>-1\<close> exactly when there is none, and \<open>mmu_allocate_frames\<close> then
  takes exactly the frames of that run.
\<close>

lemma mmu_allocate_frames_run:
  assumes ok: "fr_ok m" "low_ok m" and n: "0 < n" "n < 2147483648"
  shows "\<exists>idx. mmu_request_frames n m = Some idx
    \<and> (idx = NO_FRAME \<longleftrightarrow> (\<forall>f. \<not> free_run m f (nat n)))
    \<and> (idx \<noteq> NO_FRAME \<longrightarrow> free_run m (unat idx) (nat n) \<and> (\<forall>f < unat idx. \<not> free_run m f (nat n))
        \<and> (\<exists>m'. mmu_allocate_frames n m = Some (m', idx) \<and> fr_ok m' \<and> low_ok m'
             \<and> used m' = used m \<union> {unat idx..<unat idx + nat n}))"
proof -
  have hint: "unat (lowest_available m) \<le> f \<and> f + nat n \<le> nframes m" if "free_run m f (nat n)" for f
  proof -
    have "f \<in> {f..<f + nat n}" and "f + nat n - 1 \<in> {f..<f + nat n}" using n by auto
    then have "f < nframes m \<and> f \<notin> used m" and "f + nat n - 1 < nframes m"
      using that unfolding free_run_def by blast+
    then show ?thesis using ok(2) n by (force simp: low_ok_def intro: leI)
  qed
  obtain idx where req: "mmu_request_frames n m = Some idx"
    and spec: "idx = NO_FRAME \<and> (\<forall>f \<ge> unat (lowest_available m). f < nframes m \<longrightarrow> \<not> free_run m f (nat n))
       \<or> unat (lowest_available m) \<le> unat idx \<and> unat idx < nframes m \<and> free_run m (unat idx) (nat n)
         \<and> (\<forall>f. unat (lowest_available m) \<le> f \<and> f < unat idx \<longrightarrow> \<not> free_run m f (nat n))"
  proof -
    have "nat n < 2147483648" using n by simp
    from request_frames_loop_spec [OF ok(1) this, of "lowest_available m"] that
    show ?thesis unfolding mmu_request_frames_def by blast
  qed
  have none: "\<forall>f. \<not> free_run m f (nat n)" if "idx = NO_FRAME"
  proof (intro allI notI)
    fix f assume "free_run m f (nat n)"
    from hint [OF this] spec that n ok(1) no_frame_ne [of idx] \<open>free_run m f (nat n)\<close>
    show False by (auto simp: fr_ok_def)
  qed
  have "free_run m (unat idx) (nat n) \<and> (\<forall>f < unat idx. \<not> free_run m f (nat n))
        \<and> (\<exists>m'. mmu_allocate_frames n m = Some (m', idx) \<and> fr_ok m' \<and> low_ok m'
             \<and> used m' = used m \<union> {unat idx..<unat idx + nat n})" if "idx \<noteq> NO_FRAME"
  proof -
    have run: "free_run m (unat idx) (nat n)" using spec that by blast
    then show ?thesis
      using spec that hint fs.lock_run [of m "unat idx" "nat n"] hint [OF run] ok req
      by (auto simp: mmu_allocate_frames_def)
  qed
  then show ?thesis using req none by blast
qed

lemma mmu_allocate_frames_run_witness:
  "\<exists>m'. mmu_allocate_frames 3 example_mmu = Some (m', 0) \<and> used m' = {0..<3}"
proof -
  have run: "free_run example_mmu 0 (nat 3)" by (simp add: free_run_def)
  then obtain m' idx where "idx \<noteq> NO_FRAME" "\<forall>f < unat idx. \<not> free_run example_mmu f (nat 3)"
    "mmu_allocate_frames 3 example_mmu = Some (m', idx)" "used m' = {unat idx..<unat idx + nat 3}"
    using mmu_allocate_frames_run [OF example_mmu_ok(1,2), of 3] by auto
  moreover from this run have "idx = 0" by (metis bot_nat_0.not_eq_extremum unat_eq_zero)
  ultimately show ?thesis by simp
qed

end
