(* ===== verification/Alloc.thy ===== *)
theory Alloc
  imports Frames Kmem
begin

unbundle bit_operations_syntax

text \<open>
  The kernel heap of \<open>kernel/lib/alloc.c\<close>: every block is a run of whole frames that starts
  with a \<open>struct alloc_info\<close> of 24 bytes (magic at 0, physical address at 8, requested size at
  16). The client of the allocator interface \<open>frame_set\<close>.
\<close>

abbreviation (input) ALLOC_MAGIC :: u16 where "ALLOC_MAGIC \<equiv> 0xA77C"
abbreviation (input) ALLOC_INFO :: nat where "ALLOC_INFO \<equiv> 24"

definition page_align :: "nat \<Rightarrow> nat" where
  "page_align sz = (if sz mod 4096 \<noteq> 0 then add64 (sz - sz mod 4096) 4096 else sz)"

definition malloc :: "nat \<Rightarrow> mmu \<Rightarrow> (mmu \<times> u64) option" where
  "malloc sz m = (let pages = page_align (add64 sz ALLOC_INFO) div 4096 in do {
     index \<leftarrow> mmu_request_frames (sint (of_nat pages :: u32)) m;
     let ptr = push_bit 12 index;
     m \<leftarrow> for_frames mmu_lock_frame ptr pages m;
     let vptr = mmu_from_physical ptr;
     let km = store16 (kmem m) vptr ALLOC_MAGIC;
     let km = store64 km (vptr + 8) ptr;
     let km = store64 km (vptr + 16) (of_nat sz);
     Some (m\<lparr>kmem := km\<rparr>, vptr + 24) })"

text \<open>Both \<open>free\<close> and \<open>realloc\<close> leave a pointer without the magic number alone.\<close>

definition free :: "u64 \<Rightarrow> mmu \<Rightarrow> mmu option" where
  "free ptr m =
     (if ptr = 0 then Some m
      else if load16 (kmem m) (ptr - 24) \<noteq> ALLOC_MAGIC then Some m
      else (let phys = load64 (kmem m) (ptr - 24 + 8);
                sz = page_align (add64 (unat (load64 (kmem m) (ptr - 24 + 16))) ALLOC_INFO)
            in for_frames mmu_release_frame phys (sz div 4096) m))"

definition realloc :: "u64 \<Rightarrow> nat \<Rightarrow> mmu \<Rightarrow> (mmu \<times> u64) option" where
  "realloc ptr s m =
     (if ptr = 0 then Some (m, 0)
      else if s = 0 then do { m \<leftarrow> free ptr m; Some (m, 0) }
      else do {
        (m, new) \<leftarrow> malloc s m;
        (if load16 (kmem m) (ptr - 24) \<noteq> ALLOC_MAGIC then Some (m, 0)
         else do {
           let sz = unat (load64 (kmem m) (ptr - 24 + 16));
           m \<leftarrow> free ptr (m\<lparr>kmem := kcopy (kmem m) new ptr (min sz s)\<rparr>);
           Some (m, new) }) })"

section \<open>Sizes and addresses\<close>

lemma page_align_id: "sz < SIZE_MOD - 4096 \<Longrightarrow> page_align sz = 4096 * ((sz + 4095) div 4096)"
proof -
  assume a: "sz < SIZE_MOD - 4096"
  have m: "4096 * (sz div 4096) + sz mod 4096 = sz" by (rule mult_div_mod_eq)
  show ?thesis
  proof (cases "sz mod 4096 = 0")
    case True
    with m have "sz + 4095 = 4095 + 4096 * (sz div 4096)" by simp
    then have "(sz + 4095) div 4096 = sz div 4096" by simp
    then show ?thesis using True m by (simp add: page_align_def)
  next
    case False
    then obtain r where r: "sz mod 4096 = Suc r" "r < 4095"
      using mod_less_divisor [of 4096 sz] by (cases "sz mod 4096") auto
    with m have "sz + 4095 = r + 4096 * (sz div 4096 + 1)" by simp
    then have "(sz + 4095) div 4096 = sz div 4096 + 1" using r by simp
    then show ?thesis using False m a r by (simp add: page_align_def add64_def)
  qed
qed

definition pages_of :: "nat \<Rightarrow> nat" where
  "pages_of sz = (sz + ALLOC_INFO + 4095) div 4096"

lemma page_align_pages: "sz < 1099511627776 \<Longrightarrow> page_align (add64 sz ALLOC_INFO) = 4096 * pages_of sz"
  by (simp add: add64_id page_align_id pages_of_def)

lemma pages_of_room: "sz + ALLOC_INFO \<le> 4096 * pages_of sz"
  by (simp add: pages_of_def)

lemma pages_of_pos: "0 < pages_of sz"
  by (simp add: pages_of_def)

text \<open>The direct map is a translation on the first 512 GiB.\<close>

lemma take_bit_and_left: "take_bit n (a :: u64) AND b = take_bit n (a AND b)"
  by (auto simp: bit_eq_iff bit_and_iff bit_take_bit_iff)

lemma mmu_from_physical_add:
  assumes "unat a < 549755813888"
  shows "mmu_from_physical a = a + HIGH_MAP_REGION"
proof -
  have "take_bit 39 (unat a) = unat a"
    using assms by (simp add: take_bit_eq_mod)
  then have "take_bit 39 a = a" by (simp only: word_unat_eq_iff unsigned_take_bit_eq)
  then have "a AND HIGH_MAP_REGION = take_bit 39 a AND HIGH_MAP_REGION" by simp
  also have "\<dots> = take_bit 39 (a AND HIGH_MAP_REGION)"
    by (rule take_bit_and_left)
  also have "\<dots> = take_bit 39 a AND take_bit 39 HIGH_MAP_REGION" by simp
  also have "take_bit 39 HIGH_MAP_REGION = 0" by (simp add: take_bit_eq_mask mask_eq_exp_minus_1)
  finally show ?thesis
    by (simp add: mmu_from_physical_def disjunctive_add_eq_or)
qed

text \<open>The kernel address of frame \<open>f\<close>.\<close>

definition frame_ptr :: "nat \<Rightarrow> u64" where
  "frame_ptr f = push_bit 12 (of_nat f) + HIGH_MAP_REGION"

lemma unat_frame_addr: "f < 134217728 \<Longrightarrow> unat (push_bit 12 (of_nat f) :: u64) = 4096 * f"
  by (simp add: push_bit_eq_mult unat_word_ariths unat_of_nat)

lemma mmu_from_physical_frame [simp]:
  "f < 134217728 \<Longrightarrow> mmu_from_physical (push_bit 12 (of_nat f)) = frame_ptr f"
  by (simp add: mmu_from_physical_add unat_frame_addr frame_ptr_def)

lemma unat_frame_ptr: "f < 134217728 \<Longrightarrow> unat (frame_ptr f) = 18446743523953737728 + 4096 * f"
  by (simp add: frame_ptr_def unat_word_ariths unat_frame_addr)

lemma frame_ptr_nonzero: "f < 134217728 \<Longrightarrow> frame_ptr f + 24 \<noteq> 0"
proof
  assume f: "f < 134217728" and "frame_ptr f + 24 = 0"
  then have "unat (frame_ptr f + 24) = 0" by simp
  with f show False by (simp add: unat_word_ariths unat_frame_ptr)
qed

text \<open>Runs of distinct frames occupy distinct addresses.\<close>

lemma frame_runs_apart:
  assumes "{f..<f + n} \<inter> {g..<g + k} = {}" and "0 < n" and "0 < k"
    and "f + n \<le> 134217728" and "g + k \<le> 134217728"
  shows "apart (frame_ptr f) (4096 * n) (frame_ptr g) (4096 * k)"
proof -
  have "f + n \<le> g \<or> g + k \<le> f"
  proof (rule ccontr)
    assume "\<not> ?thesis"
    then have "max f g \<in> {f..<f + n} \<inter> {g..<g + k}" using assms(2,3) by auto
    then show False using assms(1) by simp
  qed
  then show ?thesis
    using assms by (auto simp: apart_def in_range_iff unat_frame_ptr)
qed

section \<open>Heap blocks\<close>

text \<open>What \<open>malloc\<close> leaves behind a pointer, and what \<open>free\<close> reads there.\<close>

definition heap_block :: "mmu \<Rightarrow> u64 \<Rightarrow> nat \<Rightarrow> nat \<Rightarrow> bool" where
  "heap_block m ptr f sz \<longleftrightarrow> ptr = frame_ptr f + 24 \<and> sz < 549755813888 \<and> f + pages_of sz \<le> nframes m
     \<and> load16 (kmem m) (frame_ptr f) = ALLOC_MAGIC
     \<and> load64 (kmem m) (frame_ptr f + 8) = push_bit 12 (of_nat f)
     \<and> load64 (kmem m) (frame_ptr f + 16) = of_nat sz"

lemma header_loads:
  fixes km :: bytes_at and v p s :: u64
  defines "km' \<equiv> store64 (store64 (store16 km v ALLOC_MAGIC) (v + 8) p) (v + 16) s"
  shows "load16 km' v = ALLOC_MAGIC" and "load64 km' (v + 8) = p" and "load64 km' (v + 16) = s"
    and "\<not> in_range x v 24 \<Longrightarrow> km' x = km x"
proof -
  note ap = apart_offsets [of 0 2 8 8 v] apart_offsets [of 0 2 16 8 v] apart_offsets [of 8 8 16 8 v]
  show "load16 km' v = ALLOC_MAGIC" "load64 km' (v + 8) = p" "load64 km' (v + 16) = s"
    using ap by (simp_all add: km'_def kload_kstore_apart kload_kstore_same)
  assume x: "\<not> in_range x v 24"
  have "\<not> in_range x v 2" "\<not> in_range x (v + 8) 8" "\<not> in_range x (v + 16) 8"
    using x in_range_mono [of x v 0 2 24] in_range_mono [of x v 8 8 24] in_range_mono [of x v 16 8 24] by auto
  then show "km' x = km x" by (simp add: km'_def kstore_outside)
qed

lemma sint_pages: "n < 2147483648 \<Longrightarrow> sint (of_nat n :: u32) = int n"
  by (simp add: signed_of_nat signed_take_bit_int_eq_self)

lemma malloc_pages: "sz < 549755813888 \<Longrightarrow>
    page_align (add64 sz ALLOC_INFO) div 4096 = pages_of sz \<and> pages_of sz < 2147483648"
  by (simp add: page_align_pages) (simp add: pages_of_def)

lemma free_run_start:
  "low_ok m \<Longrightarrow> free_run m f n \<Longrightarrow> 0 < n \<Longrightarrow> unat (lowest_available m) \<le> f \<and> f < nframes m"
  by (force simp: low_ok_def free_run_def intro: leI)

lemma malloc_ok:
  assumes ok: "fr_ok m" "low_ok m" and sz: "sz < 549755813888" and run: "free_run m f0 (pages_of sz)"
  shows "\<exists>m' f. malloc sz m = Some (m', frame_ptr f + 24)
    \<and> fr_ok m' \<and> low_ok m' \<and> nframes m' = nframes m
    \<and> free_run m f (pages_of sz) \<and> used m' = used m \<union> {f..<f + pages_of sz}
    \<and> heap_block m' (frame_ptr f + 24) f sz
    \<and> (\<forall>x. \<not> in_range x (frame_ptr f) 24 \<longrightarrow> kmem m' x = kmem m x)"
proof -
  note pg = malloc_pages [OF sz] and pos = pages_of_pos [of sz]
  obtain idx where req: "mmu_request_frames (int (pages_of sz)) m = Some idx"
    and fr: "unat idx < nframes m" "free_run m (unat idx) (pages_of sz)"
  proof -
    have "\<not> (\<forall>f \<ge> unat (lowest_available m). f < nframes m \<longrightarrow> \<not> free_run m f (pages_of sz))"
      using free_run_start [OF ok(2) run pos] run by auto
    then show ?thesis
      using request_frames_loop_spec [OF ok(1), of "pages_of sz" "lowest_available m"] pg that
      by (auto simp: mmu_request_frames_def)
  qed
  let ?f = "unat idx"
  have idx: "idx = of_nat ?f" by simp
  have last: "?f + pages_of sz \<le> nframes m"
  proof -
    have "?f + pages_of sz - 1 \<in> {?f..<?f + pages_of sz}" using pos by auto
    then have "?f + pages_of sz - 1 < nframes m" using fr(2) unfolding free_run_def by blast
    then show ?thesis using pos by simp
  qed
  have small: "?f < 134217728" using fr(1) ok(1) by (simp add: fr_ok_def)
  obtain m1 where m1: "for_frames mmu_lock_frame (push_bit 12 idx) (pages_of sz) m = Some m1"
    "fr_ok m1" "low_ok m1" "nframes m1 = nframes m" "kmem m1 = kmem m"
    "used m1 = used m \<union> {?f..<?f + pages_of sz}"
    using fs.lock_run [of m ?f "pages_of sz"] ok last by auto
  let ?v = "frame_ptr ?f"
  let ?km = "store64 (store64 (store16 (kmem m) ?v ALLOC_MAGIC) (?v + 8) (push_bit 12 idx)) (?v + 16) (of_nat sz)"
  have res: "malloc sz m = Some (m1\<lparr>kmem := ?km\<rparr>, ?v + 24)"
    using pg req m1 mmu_from_physical_frame [OF small]
    by (simp add: malloc_def Let_def sint_pages)
  have "heap_block (m1\<lparr>kmem := ?km\<rparr>) (?v + 24) ?f sz"
    using header_loads [where km = "kmem m"] m1 sz last by (simp add: heap_block_def nframes_def)
  then show ?thesis
    using res m1 fr(2) header_loads(4) [where km = "kmem m"]
    by (intro exI [of _ "m1\<lparr>kmem := ?km\<rparr>"] exI [of _ ?f])
      simp
qed

lemma free_ok:
  assumes ok: "fr_ok m" "low_ok m" and blk: "heap_block m ptr f sz"
  shows "\<exists>m'. free ptr m = Some m' \<and> fr_ok m' \<and> low_ok m' \<and> nframes m' = nframes m \<and> kmem m' = kmem m
    \<and> used m' = used m - {f..<f + pages_of sz}"
proof -
  have sz: "sz < 549755813888" and last: "f + pages_of sz \<le> nframes m" using blk by (simp_all add: heap_block_def)
  have "f < 134217728" using last pages_of_pos [of sz] ok(1) by (simp add: fr_ok_def)
  then have "ptr \<noteq> 0" using blk frame_ptr_nonzero [of f] by (simp add: heap_block_def)
  moreover have "unat (of_nat sz :: u64) = sz" using sz by (simp add: unat_of_nat)
  ultimately have "free ptr m = for_frames mmu_release_frame (push_bit 12 (of_nat f)) (pages_of sz) m"
    using blk malloc_pages [OF sz] by (simp add: free_def heap_block_def Let_def)
  then show ?thesis using fs.release_run [of m f "pages_of sz"] ok last by auto
qed

lemma heap_block_cong:
  assumes blk: "heap_block m ptr f sz" and n: "nframes m' = nframes m"
    and same: "\<And>x. in_range x (frame_ptr f) 24 \<Longrightarrow> kmem m' x = kmem m x"
  shows "heap_block m' ptr f sz"
proof -
  have km: "kmem m' (frame_ptr f + of_nat i) = kmem m (frame_ptr f + of_nat i)" if "i < 24" for i
    using that by (intro same in_range_offset) auto
  have "load16 (kmem m') (frame_ptr f) = load16 (kmem m) (frame_ptr f)"
    by (rule kload_cong) (use km in auto)
  moreover have "load64 (kmem m') (frame_ptr f + 8) = load64 (kmem m) (frame_ptr f + 8)"
    by (rule kload_cong) (use km [of "8 + _"] in \<open>auto simp: add.assoc\<close>)
  moreover have "load64 (kmem m') (frame_ptr f + 16) = load64 (kmem m) (frame_ptr f + 16)"
    by (rule kload_cong) (use km [of "16 + _"] in \<open>auto simp: add.assoc\<close>)
  ultimately show ?thesis using blk n by (simp add: heap_block_def)
qed

lemma apart_rangeD: "apart a n b m \<Longrightarrow> in_range x a n \<Longrightarrow> \<not> in_range x b m"
  by (auto simp: apart_def)

lemma block_range:
  assumes "in_range x (frame_ptr f + of_nat k) n" and "k + n \<le> sz + ALLOC_INFO" and "sz < 549755813888"
  shows "in_range x (frame_ptr f) (4096 * pages_of sz)"
proof (rule in_range_mono [OF assms(1)])
  show "k + n \<le> 4096 * pages_of sz" using assms(2) pages_of_room [of sz] by simp
  show "4096 * pages_of sz < SIZE_MOD" using assms(3) by (simp add: pages_of_def)
qed

text \<open>
  C24. \<open>realloc\<close> of a live heap block moves it: the new block carries the first
  \<open>min(old size, new size)\<close> bytes of the old one, its frames were free before the call, the
  old block's frames are given back, and no other frame changes hands.
\<close>

theorem realloc_moves:
  assumes ok: "fr_ok m" "low_ok m" and blk: "heap_block m ptr f sz"
    and own: "{f..<f + pages_of sz} \<subseteq> used m"
    and s: "0 < s" "s < 549755813888" and run: "free_run m f0 (pages_of s)"
  shows "\<exists>m' g. realloc ptr s m = Some (m', frame_ptr g + 24) \<and> fr_ok m' \<and> low_ok m'
    \<and> heap_block m' (frame_ptr g + 24) g s
    \<and> free_run m g (pages_of s)
    \<and> used m' = (used m - {f..<f + pages_of sz}) \<union> {g..<g + pages_of s}
    \<and> kread (kmem m') (frame_ptr g + 24) (min sz s) = kread (kmem m) ptr (min sz s)"
proof -
  have sz: "sz < 549755813888" and ptr: "ptr = frame_ptr f + 24" and fn: "f + pages_of sz \<le> nframes m"
    using blk by (simp_all add: heap_block_def)
  obtain m1 g where mal: "malloc s m = Some (m1, frame_ptr g + 24)" and ok1: "fr_ok m1" "low_ok m1"
    and n1: "nframes m1 = nframes m" and fr: "free_run m g (pages_of s)"
    and used1: "used m1 = used m \<union> {g..<g + pages_of s}"
    and blk1: "heap_block m1 (frame_ptr g + 24) g s"
    and km1: "\<And>x. \<not> in_range x (frame_ptr g) 24 \<Longrightarrow> kmem m1 x = kmem m x"
    using malloc_ok [OF ok s(2) run] by blast
  have gn: "g + pages_of s \<le> nframes m" using blk1 n1 by (simp add: heap_block_def)
  have disj: "{f..<f + pages_of sz} \<inter> {g..<g + pages_of s} = {}"
    using own fr unfolding free_run_def by blast
  have ap: "apart (frame_ptr f) (4096 * pages_of sz) (frame_ptr g) (4096 * pages_of s)"
    using frame_runs_apart [OF disj pages_of_pos pages_of_pos] fn gn ok(1) by (simp add: fr_ok_def)
  have km_f: "kmem m1 x = kmem m x" if "in_range x (frame_ptr f) (4096 * pages_of sz)" for x
    using km1 apart_rangeD [OF ap that] block_range [of x g 0 24 s] s(2) by auto
  have range_f: "in_range x (frame_ptr f) (4096 * pages_of sz)" if "in_range x (frame_ptr f) 24" for x
    using block_range [of x f 0 24 sz] that sz by simp
  have blk_f: "heap_block m1 ptr f sz"
    by (rule heap_block_cong [OF blk n1 km_f [OF range_f]])
  define m2 where "m2 = m1\<lparr>kmem := kcopy (kmem m1) (frame_ptr g + 24) ptr (min sz s)\<rparr>"
  have km2: "kmem m2 x = kmem m1 x" if "\<not> in_range x (frame_ptr g + 24) (min sz s)" for x
    using that by (simp add: m2_def kcopy_outside)
  have out_f: "\<not> in_range x (frame_ptr g + 24) (min sz s)" if "in_range x (frame_ptr f) 24" for x
    using apart_rangeD [OF ap range_f [OF that]] block_range [of x g 24 "min sz s" s] s(2) by auto
  have blk2: "heap_block m2 ptr f sz"
    by (rule heap_block_cong [OF blk_f _ km2 [OF out_f]]) (simp add: m2_def)
  have out_g: "\<not> in_range x (frame_ptr g + 24) (min sz s)" if "in_range x (frame_ptr g) 24" for x
    using that apart_offsets [of 0 24 24 "min sz s" "frame_ptr g"] s(2) by (auto simp: apart_def)
  have blk2g: "heap_block m2 (frame_ptr g + 24) g s"
    by (rule heap_block_cong [OF blk1 _ km2 [OF out_g]]) (simp add: m2_def)
  have ok2: "fr_ok m2" "low_ok m2" using ok1 by (simp_all add: m2_def)
  obtain m3 where m3: "free ptr m2 = Some m3" "fr_ok m3" "low_ok m3" "nframes m3 = nframes m2"
    "kmem m3 = kmem m2" "used m3 = used m2 - {f..<f + pages_of sz}"
    using free_ok [OF ok2 blk2] by blast
  have "load16 (kmem m1) (ptr - 24) = ALLOC_MAGIC" "unat (load64 (kmem m1) (ptr - 24 + 16)) = sz"
    using blk_f sz by (simp_all add: heap_block_def unat_of_nat)
  moreover have "ptr \<noteq> 0" using ptr frame_ptr_nonzero [of f] fn pages_of_pos [of sz] ok(1) by (simp add: fr_ok_def)
  ultimately have "realloc ptr s m = Some (m3, frame_ptr g + 24)"
    using mal s(1) m3(1) by (simp add: realloc_def m2_def Let_def)
  moreover have "heap_block m3 (frame_ptr g + 24) g s"
    by (rule heap_block_cong [OF blk2g]) (use m3 in auto)
  moreover have "kread (kmem m3) (frame_ptr g + 24) (min sz s) = kread (kmem m1) ptr (min sz s)"
    using m3(5) s(2) by (simp add: m2_def kread_kcopy)
  moreover have "kread (kmem m1) ptr (min sz s) = kread (kmem m) ptr (min sz s)"
    using s(2) sz block_range [of _ f 24 "min sz s" sz] by (intro kread_cong km_f) (auto simp: ptr)
  ultimately show ?thesis
    using m3 used1 disj fr by (intro exI [of _ m3] exI [of _ g]) (auto simp: m2_def)
qed


text \<open>
  C3. \<open>malloc\<close> and \<open>free\<close> are inverse on the frame set: when a run of free frames exists,
  \<open>malloc\<close> takes a run that nobody owns, returns the address 24 bytes into it, behind a header
  that holds the magic number, the address of the run and the requested size as the caller
  gave it, and writes no byte outside the 24 bytes of that header;
  \<open>free\<close> of the pointer gives exactly those frames back.
\<close>

theorem malloc_free:
  assumes ok: "fr_ok m" "low_ok m" and sz: "sz < 549755813888" and run: "free_run m f0 (pages_of sz)"
  shows "\<exists>m' f m''. malloc sz m = Some (m', frame_ptr f + 24)
    \<and> free_run m f (pages_of sz) \<and> used m' = used m \<union> {f..<f + pages_of sz}
    \<and> load16 (kmem m') (frame_ptr f) = ALLOC_MAGIC \<and> load64 (kmem m') (frame_ptr f + 8) = push_bit 12 (of_nat f)
    \<and> load64 (kmem m') (frame_ptr f + 16) = of_nat sz
    \<and> (\<forall>x. \<not> in_range x (frame_ptr f) 24 \<longrightarrow> kmem m' x = kmem m x)
    \<and> free (frame_ptr f + 24) m' = Some m'' \<and> used m'' = used m \<and> kmem m'' = kmem m'
    \<and> fr_ok m'' \<and> low_ok m''"
proof -
  obtain m' f where a: "malloc sz m = Some (m', frame_ptr f + 24)" "fr_ok m'" "low_ok m'"
    "free_run m f (pages_of sz)" "used m' = used m \<union> {f..<f + pages_of sz}"
    "heap_block m' (frame_ptr f + 24) f sz"
    "\<forall>x. \<not> in_range x (frame_ptr f) 24 \<longrightarrow> kmem m' x = kmem m x"
    using malloc_ok [OF assms] by blast
  obtain m'' where b: "free (frame_ptr f + 24) m' = Some m''" "fr_ok m''" "low_ok m''" "kmem m'' = kmem m'"
    "used m'' = used m' - {f..<f + pages_of sz}"
    using free_ok [OF a(2,3,6)] by blast
  have "used m'' = used m" using a(4,5) b(5) unfolding free_run_def by blast
  moreover have "load16 (kmem m') (frame_ptr f) = ALLOC_MAGIC" "load64 (kmem m') (frame_ptr f + 8) = push_bit 12 (of_nat f)"
    "load64 (kmem m') (frame_ptr f + 16) = of_nat sz"
    using a(6) by (simp_all add: heap_block_def)
  ultimately show ?thesis using a b by blast
qed

lemma example_free_run: "k \<le> 64 \<Longrightarrow> free_run example_mmu 0 k"
  by (simp add: free_run_def)

lemma malloc_free_witness:
  "\<exists>m' f m''. malloc 5000 example_mmu = Some (m', frame_ptr f + 24) \<and> used m' = {f..<f + 2}
    \<and> free (frame_ptr f + 24) m' = Some m'' \<and> used m'' = {}"
  using malloc_free [OF example_mmu_ok(1,2), of 5000 0] example_free_run [of 2]
  by (auto simp: pages_of_def)


lemma realloc_moves_witness:
  "\<exists>m ptr f m' g. malloc 10 example_mmu = Some (m, ptr) \<and> realloc ptr 20 m = Some (m', frame_ptr g + 24)
     \<and> kread (kmem m') (frame_ptr g + 24) 10 = kread (kmem m) ptr 10 \<and> used m' = {g..<g + 1}"
proof -
  have p: "pages_of 10 = 1" "pages_of 20 = 1" by (simp_all add: pages_of_def)
  obtain m f where m: "malloc 10 example_mmu = Some (m, frame_ptr f + 24)" "fr_ok m" "low_ok m"
    "nframes m = 64" "used m = {f..<f + 1}" "heap_block m (frame_ptr f + 24) f 10"
    using malloc_ok [OF example_mmu_ok(1,2), of 10 0] example_free_run [of 1] p by auto
  have "\<exists>f0. free_run m f0 1"
    using m(4,5) by (intro exI [of _ "if f = 0 then 1 else 0"]) (auto simp: free_run_def)
  then obtain f0 where "free_run m f0 1" ..
  then show ?thesis
    using realloc_moves [OF m(2,3,6), of 20 f0] m p by auto
qed

end
