(* ===== verification/Paging.thy ===== *)
theory Paging
  imports Alloc
begin

unbundle bit_operations_syntax

text \<open>
  The page tables of \<open>kernel/cpu/mmu.c\<close>: four levels of 512 eight-byte entries, all in
  physical memory and reached through the direct map, so that a table is a kernel address and
  an entry a 64-bit load. The theory models the walk, the mapping operations, the copying of an
  address space with copy-on-write sharing, its release, and the check of user pointers.
  \<open>invlpg\<close> and the load of \<open>cr3\<close> have no effect on the modelled state.
\<close>

section \<open>Entries\<close>

text \<open>The bit fields of \<open>pagemap_entry_t\<close>.\<close>

type_synonym pagemap_entry = u64

definition e_present :: "pagemap_entry \<Rightarrow> bool" where "e_present e = bit e 0"
definition e_writable :: "pagemap_entry \<Rightarrow> bool" where "e_writable e = bit e 1"
definition e_user :: "pagemap_entry \<Rightarrow> bool" where "e_user e = bit e 2"
definition e_size :: "pagemap_entry \<Rightarrow> bool" where "e_size e = bit e 7"
definition e_cow :: "pagemap_entry \<Rightarrow> bool" where "e_cow e = bit e 9"
definition e_page :: "pagemap_entry \<Rightarrow> u64" where "e_page e = take_bit 28 (drop_bit 12 e)"

definition put_bit :: "nat \<Rightarrow> bool \<Rightarrow> pagemap_entry \<Rightarrow> pagemap_entry" where
  "put_bit n b e = (if b then set_bit n e else unset_bit n e)"

definition put_page :: "u64 \<Rightarrow> pagemap_entry \<Rightarrow> pagemap_entry" where
  "put_page p e = (e AND NOT (push_bit 12 (mask 28))) OR push_bit 12 (take_bit 28 p)"

lemma bit_put_bit: "bit (put_bit n b e) k \<longleftrightarrow> (if k = n \<and> n < 64 then b else bit e k)"
  by (auto simp: put_bit_def bit_simps dest: bit_imp_le_length)

lemma bit_put_page:
  "bit (put_page p e) k \<longleftrightarrow> (if 12 \<le> k \<and> k < 40 then bit p (k - 12) else bit e k)"
  by (auto simp: put_page_def bit_simps dest: bit_imp_le_length)

lemma e_page_put_page [simp]: "e_page (put_page p e) = take_bit 28 p"
  by (rule bit_word_eqI) (auto simp: e_page_def bit_take_bit_iff bit_drop_bit_eq bit_put_page)

lemma e_page_put_bit [simp]: "n < 12 \<or> 40 \<le> n \<Longrightarrow> e_page (put_bit n b e) = e_page e"
  by (rule bit_word_eqI) (auto simp: e_page_def bit_take_bit_iff bit_drop_bit_eq bit_put_bit)

lemmas e_bits = e_present_def e_writable_def e_user_def e_size_def e_cow_def bit_put_bit bit_put_page

abbreviation MMU_FLAG_KERNEL :: u32 where "MMU_FLAG_KERNEL \<equiv> 0x01"
abbreviation MMU_FLAG_WRITABLE :: u32 where "MMU_FLAG_WRITABLE \<equiv> 0x02"
abbreviation MMU_FLAG_NOCACHE :: u32 where "MMU_FLAG_NOCACHE \<equiv> 0x04"
abbreviation MMU_FLAG_WRITETHROUGH :: u32 where "MMU_FLAG_WRITETHROUGH \<equiv> 0x08"
abbreviation MMU_FLAG_SPEC :: u32 where "MMU_FLAG_SPEC \<equiv> 0x10"
abbreviation MMU_FLAG_NOEXECUTE :: u32 where "MMU_FLAG_NOEXECUTE \<equiv> 0x20"
abbreviation USER_PML_ACCESS :: u64 where "USER_PML_ACCESS \<equiv> 0x07"

text \<open>An entry is read and written at its address.\<close>

definition entry :: "u64 \<Rightarrow> nat \<Rightarrow> u64" where
  "entry table i = table + of_nat (8 * i)"

definition load_entry :: "u64 \<Rightarrow> mmu \<Rightarrow> pagemap_entry" where
  "load_entry p m = load64 (kmem m) p"

definition store_entry :: "u64 \<Rightarrow> pagemap_entry \<Rightarrow> mmu \<Rightarrow> mmu" where
  "store_entry p e m = m\<lparr>kmem := store64 (kmem m) p e\<rparr>"

text \<open>The table (or the page) an entry points to.\<close>

definition table_of :: "pagemap_entry \<Rightarrow> u64" where
  "table_of e = mmu_from_physical (push_bit 12 (e_page e))"

section \<open>Mapping operations\<close>

definition mmu_allocate_frame_ex :: "u64 \<Rightarrow> u32 \<Rightarrow> mmu \<Rightarrow> mmu option" where
  "mmu_allocate_frame_ex pml flags m = do {
     m \<leftarrow> (if e_page (load_entry pml m) = 0 then do {
            (m, index) \<leftarrow> mmu_request_frame m;
            m \<leftarrow> mmu_lock_frame (push_bit 12 index) m;
            Some (store_entry pml (put_page index (load_entry pml m)) m) }
          else Some m);
     let e = load_entry pml m;
     let e = put_bit 7 False e;
     let e = put_bit 0 True e;
     let e = put_bit 1 (flags AND MMU_FLAG_WRITABLE \<noteq> 0) e;
     let e = put_bit 2 (flags AND MMU_FLAG_KERNEL = 0) e;
     let e = put_bit 4 (flags AND MMU_FLAG_NOCACHE \<noteq> 0) e;
     let e = put_bit 3 (flags AND MMU_FLAG_WRITETHROUGH \<noteq> 0) e;
     let e = put_bit 7 (flags AND MMU_FLAG_SPEC \<noteq> 0) e;
     let e = put_bit 63 (flags AND MMU_FLAG_NOEXECUTE \<noteq> 0) e;
     Some (store_entry pml e m) }"

definition mmu_map_frame :: "u64 \<Rightarrow> u32 \<Rightarrow> u64 \<Rightarrow> mmu \<Rightarrow> mmu option" where
  "mmu_map_frame pml flags phys_addr m = do {
     m \<leftarrow> mmu_lock_frame phys_addr m;
     let m = store_entry pml (put_page (drop_bit 12 phys_addr) (load_entry pml m)) m;
     mmu_allocate_frame_ex pml flags m }"

section \<open>The walk\<close>

definition pml4_index :: "u64 \<Rightarrow> nat" where
  "pml4_index va = unat (drop_bit 27 (drop_bit 12 (va AND 0xFFFFFFFFFFFF)) AND 0x1FF)"
definition pdp_index :: "u64 \<Rightarrow> nat" where
  "pdp_index va = unat (drop_bit 18 (drop_bit 12 (va AND 0xFFFFFFFFFFFF)) AND 0x1FF)"
definition pd_index :: "u64 \<Rightarrow> nat" where
  "pd_index va = unat (drop_bit 9 (drop_bit 12 (va AND 0xFFFFFFFFFFFF)) AND 0x1FF)"
definition pt_index :: "u64 \<Rightarrow> nat" where
  "pt_index va = unat (drop_bit 12 (va AND 0xFFFFFFFFFFFF) AND 0x1FF)"

text \<open>A null result is the address 0.\<close>

definition mmu_lookup_frame_from :: "u64 \<Rightarrow> u64 \<Rightarrow> mmu \<Rightarrow> u64" where
  "mmu_lookup_frame_from pml va m =
     (let pml4e = load_entry (entry pml (pml4_index va)) m in
      if \<not> e_present pml4e then 0
      else let pdpe = load_entry (entry (table_of pml4e) (pdp_index va)) m in
      if \<not> e_present pdpe then 0 else if e_size pdpe then 0
      else let pde = load_entry (entry (table_of pdpe) (pd_index va)) m in
      if \<not> e_present pde then 0 else if e_size pde then 0
      else entry (table_of pde) (pt_index va))"

definition mmu_lookup_address :: "u64 \<Rightarrow> u64 \<Rightarrow> mmu \<Rightarrow> u64 option" where
  "mmu_lookup_address pml va m =
     (let frame = mmu_lookup_frame_from pml va m in
      if frame = 0 then None
      else let e = load_entry frame m in
      Some (if \<not> e_present e then 0 else push_bit 12 (e_page e) OR (va AND 0xFFF)))"

text \<open>
  The common step of \<open>mmu_lookup_frame\<close>: make sure that the entry at \<open>p\<close> is present, with a
  fresh zeroed table if the caller asked for it; \<open>False\<close> stands for the early \<open>return 0\<close>.
\<close>

definition ensure_table :: "u64 \<Rightarrow> bool \<Rightarrow> mmu \<Rightarrow> (mmu \<times> bool) option" where
  "ensure_table p mk m =
     (if \<not> e_present (load_entry p m) then
        (if \<not> mk then Some (m, False)
         else do {
           (m, index) \<leftarrow> mmu_request_frame m;
           let new_page = push_bit 12 index;
           m \<leftarrow> mmu_lock_frame new_page m;
           let m = m\<lparr>kmem := kset (kmem m) (mmu_from_physical new_page) 0 4096\<rparr>;
           Some (store_entry p (new_page OR USER_PML_ACCESS) m, True) })
      else Some (m, True))"

definition mmu_lookup_frame :: "u64 \<Rightarrow> bool \<Rightarrow> mmu \<Rightarrow> (mmu \<times> u64) option" where
  "mmu_lookup_frame va mk m = do {
     let p = entry (current_pml m) (pml4_index va);
     (m, ok) \<leftarrow> ensure_table p mk m;
     if \<not> ok then Some (m, 0) else do {
     let p = entry (table_of (load_entry p m)) (pdp_index va);
     (m, ok) \<leftarrow> ensure_table p mk m;
     if \<not> ok then Some (m, 0) else
     if e_size (load_entry p m) then Some (m, 0) else do {
     let p = entry (table_of (load_entry p m)) (pd_index va);
     (m, ok) \<leftarrow> ensure_table p mk m;
     if \<not> ok then Some (m, 0) else
     if e_size (load_entry p m) then Some (m, 0)
     else Some (m, entry (table_of (load_entry p m)) (pt_index va)) }}}"

definition mmu_set_directory :: "u64 \<Rightarrow> mmu \<Rightarrow> mmu" where
  "mmu_set_directory pml m = m\<lparr>current_pml := (if pml = 0 then kernel_pml m else pml)\<rparr>"

definition mmu_map_mmio :: "u64 \<Rightarrow> nat \<Rightarrow> mmu \<Rightarrow> (mmu \<times> u64) option" where
  "mmu_map_mmio phys_addr sz m =
     (if sz mod 4096 \<noteq> 0 then Some (m, 0)
      else (let base = mmio_base_address m in do {
        m \<leftarrow> for_each [0..<sz div 4096] (\<lambda>i m. do {
               (m, page) \<leftarrow> mmu_lookup_frame (base + of_nat (4096 * i)) True m;
               if page = 0 then None else
               mmu_map_frame page (MMU_FLAG_KERNEL OR MMU_FLAG_WRITABLE OR MMU_FLAG_NOCACHE
                 OR MMU_FLAG_WRITETHROUGH) (phys_addr + of_nat (4096 * i)) m }) m;
        Some (m\<lparr>mmio_base_address := base + of_nat sz\<rparr>, base) }))"

section \<open>Copy-on-write\<close>

text \<open>
  \<open>_copy_page\<close>: the result 1 (a writable page whose frame already counts sharers) leaves the
  new entry alone.
\<close>

definition copy_page :: "u64 \<Rightarrow> u64 \<Rightarrow> nat \<Rightarrow> mmu \<Rightarrow> (mmu \<times> int) option" where
  "copy_page inp out index m =
     (let pi = entry inp index; po = entry out index; e = load_entry pi m in
      if e_writable e then do {
        c \<leftarrow> mem_load (mem_refcounts m) (unat (e_page e));
        (if c \<noteq> 0 then Some (m, 1)
         else do {
           rc \<leftarrow> mem_store (mem_refcounts m) (unat (e_page e)) 2;
           let e = put_bit 9 True (put_bit 1 False e);
           Some (store_entry po e (store_entry pi e (m\<lparr>mem_refcounts := rc\<rparr>)), 0) }) }
      else do {
        (m, r) \<leftarrow> refcount_increase (e_page e) m;
        (if r \<noteq> 0 then do {
           let page_in = table_of e;
           (m, frame) \<leftarrow> mmu_request_frame m;
           let new_page = push_bit 12 frame;
           let m = m\<lparr>kmem := kcopy (kmem m) (mmu_from_physical new_page) page_in 4096\<rparr>;
           let e = put_bit 9 False (put_bit 1 True (put_page (drop_bit 12 new_page)
                     (put_bit 2 True (put_bit 0 True 0))));
           Some (store_entry po e m, 0) }
         else Some (store_entry po e m, 0)) })"

definition free_page :: "u64 \<Rightarrow> nat \<Rightarrow> mmu \<Rightarrow> mmu option" where
  "free_page inp index m =
     (let e = load_entry (entry inp index) m in
      if e_writable e then mmu_release_frame (push_bit 12 (e_page e)) m
      else do {
        (m, r) \<leftarrow> refcount_decrease (e_page e) m;
        (if r = 0 then mmu_release_frame (push_bit 12 (e_page e)) m else Some m) })"

text \<open>
  \<open>mmu_copy_on_write\<close> after its lookup. The count comes back in a \<open>uint8_t\<close>, so that the
  failure value -1 reads 255.
\<close>

definition cow_entry :: "u64 \<Rightarrow> mmu \<Rightarrow> (mmu \<times> int) option" where
  "cow_entry page m =
     (let e = load_entry page m in
      if \<not> e_cow e then Some (m, 1)
      else do {
        (m, r) \<leftarrow> refcount_decrease (e_page e) m;
        (if r mod 256 = 0 then
           Some (store_entry page (put_bit 9 False (put_bit 1 True e)) m, 0)
         else do {
           let faulting_frame = e_page e;
           (m, fresh_frame) \<leftarrow> mmu_request_frame m;
           m \<leftarrow> mmu_lock_frame (push_bit 12 fresh_frame) m;
           let page_in = mmu_from_physical (push_bit 12 faulting_frame);
           let page_out = mmu_from_physical (push_bit 12 fresh_frame);
           let m = m\<lparr>kmem := kcopy (kmem m) page_out page_in 4096\<rparr>;
           let e = put_bit 9 False (put_bit 1 True (put_page fresh_frame (load_entry page m)));
           Some (store_entry page e m, 0) }) })"

definition mmu_copy_on_write :: "u64 \<Rightarrow> mmu \<Rightarrow> (mmu \<times> int) option" where
  "mmu_copy_on_write address m = do {
     (m, page) \<leftarrow> mmu_lookup_frame address False m;
     (if page = 0 then None else cow_entry page m) }"

section \<open>Whole address spaces\<close>

text \<open>The lower half of the address space belongs to the user: 256 top-level entries.\<close>

definition mmu_free :: "u64 \<Rightarrow> mmu \<Rightarrow> mmu option" where
  "mmu_free pml m =
     (if pml = 0 then Some m
      else do {
        m \<leftarrow> for_each [0..<256] (\<lambda>i m. let e = load_entry (entry pml i) m in
          if \<not> e_present e then Some m else do {
            m \<leftarrow> for_each [0..<512] (\<lambda>j m. let pdpe = load_entry (entry (table_of e) j) m in
              if \<not> e_present pdpe then Some m else do {
                m \<leftarrow> for_each [0..<512] (\<lambda>k m. let pde = load_entry (entry (table_of pdpe) k) m in
                  if \<not> e_present pde then Some m else do {
                    m \<leftarrow> for_each [0..<512] (\<lambda>l m. let pte = load_entry (entry (table_of pde) l) m in
                      if e_present pte \<and> e_user pte then free_page (table_of pde) l m else Some m) m;
                    mmu_release_frame (push_bit 12 (e_page pde)) m }) m;
                mmu_release_frame (push_bit 12 (e_page pdpe)) m }) m;
            mmu_release_frame (push_bit 12 (e_page e)) m }) m;
        mmu_release_frame (pml AND 0x7FFFFFFFFFF) m })"

text \<open>A fresh, locked and zeroed table, entered at \<open>p\<close>.\<close>

definition clone_table :: "u64 \<Rightarrow> mmu \<Rightarrow> (mmu \<times> u64) option" where
  "clone_table p m = do {
     (m, index) \<leftarrow> mmu_request_frame m;
     let new_page = push_bit 12 index;
     m \<leftarrow> mmu_lock_frame new_page m;
     let out = mmu_from_physical new_page;
     let m = m\<lparr>kmem := kset (kmem m) out 0 4096\<rparr>;
     Some (store_entry p (new_page OR USER_PML_ACCESS) m, out) }"

definition clone_pt :: "u64 \<Rightarrow> u64 \<Rightarrow> mmu \<Rightarrow> mmu option" where
  "clone_pt pt_in pt_out = for_each [0..<512] (\<lambda>l m.
     let e = load_entry (entry pt_in l) m in
     if \<not> e_present e then Some m
     else if e_user e then do { (m, r) \<leftarrow> copy_page pt_in pt_out l m; Some m }
     else Some (store_entry (entry pt_out l) e m))"

text \<open>One level of the copy: \<open>below\<close> copies the table an entry points to.\<close>

definition clone_level :: "nat \<Rightarrow> (u64 \<Rightarrow> u64 \<Rightarrow> mmu \<Rightarrow> mmu option) \<Rightarrow> u64 \<Rightarrow> u64 \<Rightarrow> mmu \<Rightarrow> mmu option" where
  "clone_level n below tin tout = for_each [0..<n] (\<lambda>i m.
     let e = load_entry (entry tin i) m in
     if \<not> e_present e then Some m
     else do { (m, out) \<leftarrow> clone_table (entry tout i) m; below (table_of e) out m })"

definition mmu_clone :: "u64 \<Rightarrow> mmu \<Rightarrow> (mmu \<times> u64) option" where
  "mmu_clone pml m = do {
     let pml = (if pml = 0 then current_pml m else pml);
     (m, index) \<leftarrow> mmu_request_frame m;
     let new_page = push_bit 12 index;
     m \<leftarrow> mmu_lock_frame new_page m;
     let pml4_out = mmu_from_physical new_page;
     let m = m\<lparr>kmem := kset (kmem m) pml4_out 0 2048\<rparr>;
     let m = m\<lparr>kmem := kcopy (kmem m) (entry pml4_out 256) (entry pml 256) 2048\<rparr>;
     m \<leftarrow> clone_level 256 (clone_level 512 (clone_level 512 clone_pt)) pml pml4_out m;
     Some (m, pml4_out) }"

text \<open>
  \<open>mmu_count_user\<close>, which reads the page directory from the top-level entry \<open>pml[j]\<close>
  instead of \<open>pdp[j]\<close>; past entry 511 that is the next page, here as in the code.
\<close>

definition count_pt :: "u64 \<Rightarrow> mmu \<Rightarrow> nat" where
  "count_pt pt m = length (filter (\<lambda>l. let e = load_entry (entry pt l) m in e_present e \<and> e_user e) [0..<512])"

definition mmu_count_user :: "u64 \<Rightarrow> mmu \<Rightarrow> nat" where
  "mmu_count_user pml m =
     sum_list (map (\<lambda>i. let pml4e = load_entry (entry pml i) m in
       if \<not> e_present pml4e then 0
       else 1 + sum_list (map (\<lambda>j.
         if \<not> e_present (load_entry (entry (table_of pml4e) j) m) then 0
         else 1 + sum_list (map (\<lambda>k.
           let pde = load_entry (entry (table_of (load_entry (entry pml j) m)) k) m in
           if \<not> e_present pde then 0 else 1 + count_pt (table_of pde) m) [0..<512])) [0..<512])) [0..<256])"

section \<open>User pointers\<close>

text \<open>
  The page loop of \<open>mmu_validate_user\<close>, from \<open>page\<close> up to and including \<open>page_end\<close>; both are
  52-bit page numbers.
\<close>

definition validate_page :: "u64 \<Rightarrow> bool \<Rightarrow> u64 \<Rightarrow> mmu \<Rightarrow> (mmu \<times> bool) option" where
  "validate_page pml wr page m =
     (if page AND 0xFFFF800000000 \<noteq> 0 \<and> page AND 0xFFFF800000000 \<noteq> 0xFFFF800000000 then Some (m, False)
      else let p = mmu_lookup_frame_from pml (push_bit 12 page) m; e = load_entry p m in
      if p = 0 then Some (m, False)
      else if \<not> e_present e then Some (m, False)
      else if \<not> e_user e then Some (m, False)
      else if \<not> e_writable e \<and> wr then do {
        (m, r) \<leftarrow> mmu_copy_on_write (push_bit 12 page) m;
        Some (m, r = 0) }
      else Some (m, True))"

fun validate_pages :: "u64 \<Rightarrow> bool \<Rightarrow> u64 \<Rightarrow> nat \<Rightarrow> mmu \<Rightarrow> (mmu \<times> int) option" where
  "validate_pages pml wr page 0 m = Some (m, 1)"
| "validate_pages pml wr page (Suc n) m = do {
     (m, ok) \<leftarrow> validate_page pml wr page m;
     (if ok then validate_pages pml wr (page + 1) n m else Some (m, 0)) }"

definition mmu_validate_user :: "u64 \<Rightarrow> u64 \<Rightarrow> u64 \<Rightarrow> bool \<Rightarrow> bool \<Rightarrow> mmu \<Rightarrow> (mmu \<times> int) option" where
  "mmu_validate_user pml addr sz null wr m =
     (if addr = 0 \<and> \<not> null then Some (m, 0)
      else if sz > 0x800000000000 then Some (m, 0)
      else let base = addr;
               end = (if sz \<noteq> 0 then base + (sz - 1) else base);
               page_base = drop_bit 12 base;
               page_end = drop_bit 12 end
      in validate_pages pml wr page_base (unat page_end + 1 - unat page_base) m)"

section \<open>Where entries and pages lie\<close>

definition entry_at :: "nat \<Rightarrow> nat \<Rightarrow> u64" where
  "entry_at f i = entry (frame_ptr f) i"

lemma store_entry_simps [simp]:
  "used (store_entry p e m) = used m" "nframes (store_entry p e m) = nframes m"
  "fr_ok (store_entry p e m) = fr_ok m" "low_ok (store_entry p e m) = low_ok m"
  "mem_refcounts (store_entry p e m) = mem_refcounts m" "n_frames (store_entry p e m) = n_frames m"
  "current_pml (store_entry p e m) = current_pml m" "frames (store_entry p e m) = frames m"
  "lowest_available (store_entry p e m) = lowest_available m"
  by (simp_all add: store_entry_def)

lemma load_store_same [simp]: "load_entry p (store_entry p e m) = e"
  by (simp add: load_entry_def store_entry_def kload_kstore_same)

lemma load_store_apart: "apart q 8 p 8 \<Longrightarrow> load_entry q (store_entry p e m) = load_entry q m"
  by (simp add: load_entry_def store_entry_def kload_kstore_apart)

lemma load_entry_cong: "(\<And>x. in_range x p 8 \<Longrightarrow> kmem m' x = kmem m x) \<Longrightarrow> load_entry p m' = load_entry p m"
  unfolding load_entry_def by (rule kload_cong) (simp add: in_range_offset)

lemma entry_in_frame: "i < 512 \<Longrightarrow> in_range x (entry_at f i) 8 \<Longrightarrow> in_range x (frame_ptr f) 4096"
  unfolding entry_at_def entry_def by (rule in_range_mono [of x "frame_ptr f" "8 * i" 8 4096]) auto

lemma frames_apart:
  "f \<noteq> g \<Longrightarrow> f < 134217728 \<Longrightarrow> g < 134217728 \<Longrightarrow> apart (frame_ptr f) 4096 (frame_ptr g) 4096"
  using frame_runs_apart [of f 1 g 1] by auto

lemma entry_apart_page:
  "f \<noteq> g \<Longrightarrow> f < 134217728 \<Longrightarrow> g < 134217728 \<Longrightarrow> i < 512 \<Longrightarrow> apart (entry_at f i) 8 (frame_ptr g) 4096"
  using frames_apart [of f g] entry_in_frame [of i _ f] by (auto simp: apart_def)

lemma entries_apart:
  "f \<noteq> g \<or> i \<noteq> j \<Longrightarrow> f < 134217728 \<Longrightarrow> g < 134217728 \<Longrightarrow> i < 512 \<Longrightarrow> j < 512 \<Longrightarrow>
   apart (entry_at f i) 8 (entry_at g j) 8"
proof (cases "f = g")
  case True
  assume "f \<noteq> g \<or> i \<noteq> j" "i < 512" "j < 512"
  moreover from this have "8 * i + 8 \<le> 8 * j \<or> 8 * j + 8 \<le> 8 * i" using True by auto
  ultimately show ?thesis using True apart_offsets [of "8 * i" 8 "8 * j" 8 "frame_ptr f"]
    by (simp add: entry_at_def entry_def)
next
  case False
  assume "f < 134217728" "g < 134217728" "i < 512" "j < 512"
  then show ?thesis using False entry_apart_page [of f g i] entry_in_frame [of j _ g] by (auto simp: apart_def)
qed

lemma kread_store_apart: "apart a n p 8 \<Longrightarrow> n < SIZE_MOD \<Longrightarrow> kread (kmem (store_entry p e m)) a n = kread (kmem m) a n"
  by (rule kread_cong) (auto simp: store_entry_def kstore_def apart_def in_range_def)

lemma table_of_frame: "unat (e_page e) < 134217728 \<Longrightarrow> table_of e = frame_ptr (unat (e_page e))"
  using mmu_from_physical_frame [of "unat (e_page e)"] by (simp add: table_of_def)

lemma take_bit_page: "unat p < 134217728 \<Longrightarrow> take_bit 28 (p :: u64) = p"
proof -
  assume "unat p < 134217728"
  then have "take_bit 28 (unat p) = unat p" by (simp add: take_bit_eq_mod)
  then show ?thesis by (simp only: word_unat_eq_iff unsigned_take_bit_eq)
qed

section \<open>Sharing counts\<close>

definition refs :: "mmu \<Rightarrow> nat \<Rightarrow> nat" where
  "refs m f = unat (mem_refcounts m ! f)"

definition rc_ok :: "mmu \<Rightarrow> bool" where
  "rc_ok m \<longleftrightarrow> nframes m \<le> length (mem_refcounts m)"

lemma rc_ok_simps [simp]:
  "rc_ok (store_entry p e m) = rc_ok m" "rc_ok (m\<lparr>kmem := k\<rparr>) = rc_ok m"
  "refs (store_entry p e m) f = refs m f" "refs (m\<lparr>kmem := k\<rparr>) f = refs m f"
  by (simp_all add: rc_ok_def refs_def)

lemma refcount_decrease_ok:
  assumes "rc_ok m" and "unat f < nframes m" and "0 < refs m (unat f)"
  shows "\<exists>rc. refcount_decrease f m = Some (m\<lparr>mem_refcounts := rc\<rparr>, int (refs m (unat f)) - 1)
    \<and> length rc = length (mem_refcounts m)
    \<and> (\<forall>g. unat (rc ! g) = (if g = unat f then refs m g - 1 else refs m g))"
proof -
  let ?c = "mem_refcounts m ! unat f"
  have "f < n_frames m" and lt: "unat f < length (mem_refcounts m)" and "?c \<noteq> 0"
    using assms by (auto simp: word_less_nat_alt nframes_def rc_ok_def refs_def unat_eq_zero)
  moreover from this have "unat (?c - 1) = unat ?c - 1"
    by (simp add: unat_minus_one)
  moreover from this \<open>?c \<noteq> 0\<close> have "uint (?c - 1) = int (unat ?c) - 1"
    by (metis (mono_tags) assms(3) refs_def of_nat_1 of_nat_diff Suc_leI One_nat_def uint_nat)
  ultimately show ?thesis
    by (intro exI [of _ "(mem_refcounts m)[unat f := ?c - 1]"])
      (simp add: refcount_decrease_def memobj not_le [symmetric] nth_list_update refs_def)
qed

lemma refcount_increase_ok:
  assumes "rc_ok m" and "unat f < nframes m" and "refs m (unat f) < 255"
  shows "\<exists>rc. refcount_increase f m = Some (m\<lparr>mem_refcounts := rc\<rparr>, 0)
    \<and> length rc = length (mem_refcounts m)
    \<and> (\<forall>g. unat (rc ! g) = (if g = unat f then refs m g + 1 else refs m g))"
proof -
  let ?c = "mem_refcounts m ! unat f"
  have "f < n_frames m" and lt: "unat f < length (mem_refcounts m)"
    using assms by (auto simp: word_less_nat_alt nframes_def rc_ok_def)
  moreover have "?c \<noteq> 255" using assms(3) by (auto simp: refs_def)
  moreover have "unat (?c + 1) = unat ?c + 1"
    using assms(3) by (simp add: refs_def unat_word_ariths)
  ultimately show ?thesis
    by (intro exI [of _ "(mem_refcounts m)[unat f := ?c + 1]"])
      (simp add: refcount_increase_def memobj not_le [symmetric] nth_list_update refs_def)
qed

section \<open>Fresh frames\<close>

lemma mmu_lock_frame_rest:
  "mmu_lock_frame a m = Some m' \<Longrightarrow> mem_refcounts m' = mem_refcounts m \<and> current_pml m' = current_pml m"
  by (auto simp: mmu_lock_frame_def Let_def split: if_splits elim!: bind_SomeE)

lemma request_frame_loop_rest:
  "request_frame_loop i n m = Some (m', idx) \<Longrightarrow>
   mem_refcounts m' = mem_refcounts m \<and> current_pml m' = current_pml m"
proof (induction i n m rule: request_frame_loop.induct)
  case (1 i n m)
  from 1(2) show ?case
    by (subst (asm) request_frame_loop.simps)
      (auto simp: Let_def split: if_splits option.splits elim!: bind_SomeE dest!: 1(1))
qed

lemma request_lock:
  "Option.bind (mmu_request_frame m)
     (\<lambda>(m, idx). Option.bind (mmu_lock_frame (push_bit 12 idx) m) (\<lambda>m. F m idx)) =
   Option.bind (mmu_allocate_frame m) (\<lambda>(m, idx). F m idx)"
  by (simp add: mmu_allocate_frame_def split: prod.splits Option.bind_split)

lemma fresh_frame:
  assumes "fr_ok m" "low_ok m" and "\<exists>f < whole_words m. f \<notin> used m"
  shows "\<exists>m' g. mmu_allocate_frame m = Some (m', of_nat g) \<and> g < nframes m \<and> g \<notin> used m
    \<and> fr_ok m' \<and> low_ok m' \<and> nframes m' = nframes m \<and> used m' = insert g (used m)
    \<and> kmem m' = kmem m \<and> mem_refcounts m' = mem_refcounts m \<and> current_pml m' = current_pml m"
proof -
  obtain m' idx where a: "mmu_allocate_frame m = Some (m', idx)" "fr_ok m'" "low_ok m'"
    "nframes m' = nframes m" "kmem m' = kmem m"
    and s: "if idx = NO_FRAME then m' = m \<and> (\<forall>f < whole_words m. f \<in> used m)
       else unat idx < whole_words m \<and> unat idx \<notin> used m \<and> used m' = insert (unat idx) (used m)
         \<and> (\<forall>f < unat idx. f \<in> used m)"
    using mmu_allocate_frame_spec [OF assms(1,2)] by blast
  have "mem_refcounts m' = mem_refcounts m \<and> current_pml m' = current_pml m"
    using a(1) by (auto simp: mmu_allocate_frame_def mmu_request_frame_def elim!: bind_SomeE
        dest!: mmu_lock_frame_rest request_frame_loop_rest split: prod.splits)
  moreover have "idx \<noteq> NO_FRAME" using s assms(3) by auto
  ultimately show ?thesis
    using a s whole_words_le [of m] by (intro exI [of _ m'] exI [of _ "unat idx"]) auto
qed

section \<open>Writing to a shared page\<close>

definition private_entry :: "pagemap_entry \<Rightarrow> pagemap_entry" where
  "private_entry e = put_bit 9 False (put_bit 1 True e)"

definition shared_entry :: "pagemap_entry \<Rightarrow> pagemap_entry" where
  "shared_entry e = put_bit 9 True (put_bit 1 False e)"

lemma private_shared_bits [simp]:
  "e_writable (private_entry e)" "\<not> e_cow (private_entry e)"
  "\<not> e_writable (shared_entry e)" "e_cow (shared_entry e)"
  "e_page (private_entry e) = e_page e" "e_page (shared_entry e) = e_page e"
  "e_present (private_entry e) = e_present e" "e_present (shared_entry e) = e_present e"
  "e_user (private_entry e) = e_user e" "e_user (shared_entry e) = e_user e"
  by (simp_all add: private_entry_def shared_entry_def e_bits)

lemma cow_entry_shared:
  assumes ok: "fr_ok m" "low_ok m" "rc_ok m" and free: "\<exists>f < whole_words m. f \<notin> used m"
    and e: "load_entry (entry_at t i) m = e" "e_cow e"
    and f: "unat (e_page e) = f" "f < nframes m" "f \<in> used m" "2 \<le> refs m f"
    and t: "t < nframes m" "t \<in> used m" "i < 512"
  shows "\<exists>m' g. cow_entry (entry_at t i) m = Some (m', 0) \<and> g < nframes m \<and> g \<notin> used m
    \<and> fr_ok m' \<and> low_ok m' \<and> rc_ok m' \<and> nframes m' = nframes m \<and> used m' = insert g (used m)
    \<and> refs m' f = refs m f - 1 \<and> (\<forall>h. h \<noteq> f \<longrightarrow> refs m' h = refs m h)
    \<and> load_entry (entry_at t i) m' = private_entry (put_page (of_nat g) e)
    \<and> unat (e_page (private_entry (put_page (of_nat g) e))) = g
    \<and> kread (kmem m') (frame_ptr g) 4096 = kread (kmem m) (frame_ptr f) 4096
    \<and> (\<forall>x. \<not> in_range x (entry_at t i) 8 \<longrightarrow> \<not> in_range x (frame_ptr g) 4096 \<longrightarrow> kmem m' x = kmem m x)"
proof -
  let ?p = "entry_at t i"
  obtain rc where dec: "refcount_decrease (e_page e) m = Some (m\<lparr>mem_refcounts := rc\<rparr>, int (refs m f) - 1)"
    and rc: "length rc = length (mem_refcounts m)" "\<And>g. unat (rc ! g) = (if g = f then refs m g - 1 else refs m g)"
    using refcount_decrease_ok [OF ok(3), of "e_page e"] f by auto
  define m1 where "m1 = m\<lparr>mem_refcounts := rc\<rparr>"
  have "fr_ok m1" "low_ok m1" "\<exists>f < whole_words m1. f \<notin> used m1"
    using ok free by (simp_all add: m1_def whole_words_def)
  then obtain m2 g where m2: "mmu_allocate_frame m1 = Some (m2, of_nat g)" "g < nframes m" "g \<notin> used m"
    "fr_ok m2" "low_ok m2" "nframes m2 = nframes m" "used m2 = insert g (used m)"
    "kmem m2 = kmem m" "mem_refcounts m2 = rc"
    using fresh_frame [of m1] by (auto simp: m1_def)
  have small: "f < 134217728" "g < 134217728" "t < 134217728"
    using f(2) m2(2) t(1) ok(1) by (simp_all add: fr_ok_def)
  have ne: "g \<noteq> f" "g \<noteq> t" using m2(3) f(3) t(2) by auto
  have "int (refs m f) - 1 < 256" unfolding refs_def
    using unsigned_less [of "mem_refcounts m ! f", where ?'a = int] by simp
  then have r: "(int (refs m f) - 1) mod 256 \<noteq> 0" using f(4) by (simp add: mod_pos_pos_trivial)
  define m3 where "m3 = m2\<lparr>kmem := kcopy (kmem m2) (frame_ptr g) (frame_ptr f) 4096\<rparr>"
  have "load_entry ?p m3 = load_entry ?p m"
    by (rule load_entry_cong) (use entry_apart_page [of t g i] ne small t m2(8) in
      \<open>auto simp: m3_def kcopy_outside apart_def\<close>)
  then have le: "load_entry ?p m3 = e" using e(1) by simp
  have fp: "mmu_from_physical (push_bit 12 (e_page e)) = frame_ptr f"
    using table_of_frame [of e] small f(1) by (simp add: table_of_def)
  have res: "cow_entry ?p m = Some (store_entry ?p (private_entry (put_page (of_nat g) e)) m3, 0)"
    unfolding cow_entry_def e(1) Let_def using e(2) dec r m2(1) small le fp
    by (simp add: request_lock [of m1, folded m1_def] m1_def [symmetric] m3_def [symmetric] private_entry_def)
  have g: "unat (e_page (private_entry (put_page (of_nat g) e))) = g"
    using small take_bit_page [of "of_nat g"] by (simp add: unat_of_nat)
  have out: "kmem (store_entry ?p v m3) x = kmem m x"
    if "\<not> in_range x ?p 8" "\<not> in_range x (frame_ptr g) 4096" for x v
    using that m2(8) by (simp add: store_entry_def kstore_outside m3_def kcopy_outside)
  have "kread (kmem (store_entry ?p v m3)) (frame_ptr g) 4096 = kread (kmem m) (frame_ptr f) 4096" for v
  proof -
    have "kread (kmem (store_entry ?p v m3)) (frame_ptr g) 4096 = kread (kmem m3) (frame_ptr g) 4096"
      using entry_apart_page [of t g i] ne small t by (intro kread_store_apart apart_sym [OF entry_apart_page]) auto
    then show ?thesis using m2(8) by (simp add: m3_def kread_kcopy)
  qed
  moreover have "rc_ok (store_entry ?p v m3)" "refs (store_entry ?p v m3) h = unat (rc ! h)" for v h
    using ok(3) rc(1) m2(6,9) by (simp_all add: m3_def rc_ok_def refs_def)
  ultimately show ?thesis
    using res g out m2 rc(2) by (intro exI [of _ "store_entry ?p (private_entry (put_page (of_nat g) e)) m3"] exI [of _ g])
      (simp add: m3_def)
qed

lemma cow_entry_last:
  assumes ok: "fr_ok m" "low_ok m" "rc_ok m"
    and e: "load_entry p m = e" "e_cow e"
    and f: "unat (e_page e) = f" "f < nframes m" "refs m f = 1"
  shows "\<exists>rc. cow_entry p m = Some (store_entry p (private_entry e) (m\<lparr>mem_refcounts := rc\<rparr>), 0)
    \<and> length rc = length (mem_refcounts m)
    \<and> (\<forall>g. unat (rc ! g) = (if g = f then 0 else refs m g))"
proof -
  obtain rc where "refcount_decrease (e_page e) m = Some (m\<lparr>mem_refcounts := rc\<rparr>, int (refs m f) - 1)"
    and rc: "length rc = length (mem_refcounts m)" "\<And>g. unat (rc ! g) = (if g = f then refs m g - 1 else refs m g)"
    using refcount_decrease_ok [OF ok(3), of "e_page e"] f by auto
  then show ?thesis
    using f(3) e by (intro exI [of _ rc]) (simp add: cow_entry_def private_entry_def)
qed

section \<open>Sharing and releasing a page\<close>

lemma copy_page_writable:
  assumes "rc_ok m" and e: "load_entry (entry inp i) m = e" "e_writable e"
    and f: "unat (e_page e) = f" "f < nframes m" "refs m f = 0"
  shows "\<exists>rc. copy_page inp out i m = Some (store_entry (entry out i) (shared_entry e)
      (store_entry (entry inp i) (shared_entry e) (m\<lparr>mem_refcounts := rc\<rparr>)), 0)
    \<and> length rc = length (mem_refcounts m)
    \<and> (\<forall>g. unat (rc ! g) = (if g = f then 2 else refs m g))"
  using assms
  by (intro exI [of _ "(mem_refcounts m)[f := 2]"])
    (auto simp: copy_page_def Let_def rc_ok_def refs_def memobj nth_list_update shared_entry_def unat_eq_zero)

lemma copy_page_again:
  assumes "rc_ok m" and e: "load_entry (entry inp i) m = e" "\<not> e_writable e"
    and f: "unat (e_page e) = f" "f < nframes m" "refs m f < 255"
  shows "\<exists>rc. copy_page inp out i m = Some (store_entry (entry out i) e (m\<lparr>mem_refcounts := rc\<rparr>), 0)
    \<and> length rc = length (mem_refcounts m)
    \<and> (\<forall>g. unat (rc ! g) = (if g = f then refs m g + 1 else refs m g))"
proof -
  obtain rc where "refcount_increase (e_page e) m = Some (m\<lparr>mem_refcounts := rc\<rparr>, 0)"
    "length rc = length (mem_refcounts m)" "\<forall>g. unat (rc ! g) = (if g = f then refs m g + 1 else refs m g)"
    using refcount_increase_ok [OF assms(1), of "e_page e"] f by auto
  then show ?thesis using e by (intro exI [of _ rc]) (simp add: copy_page_def Let_def)
qed

lemma page_frame_of: "unat (e_page e) < 134217728 \<Longrightarrow> frame_of (push_bit 12 (e_page e)) = unat (e_page e)"
  by (rule frame_of_shift) simp

lemma free_page_shared:
  assumes ok: "fr_ok m" "low_ok m" "rc_ok m"
    and e: "load_entry (entry inp i) m = e" "\<not> e_writable e"
    and f: "unat (e_page e) = f" "f < nframes m" "0 < refs m f"
  shows "\<exists>m'. free_page inp i m = Some m' \<and> fr_ok m' \<and> low_ok m' \<and> rc_ok m' \<and> nframes m' = nframes m
    \<and> kmem m' = kmem m \<and> refs m' f = refs m f - 1 \<and> (\<forall>g. g \<noteq> f \<longrightarrow> refs m' g = refs m g)
    \<and> used m' = used m - (if refs m f = 1 then {f} else {})"
proof -
  obtain rc where dec: "refcount_decrease (e_page e) m = Some (m\<lparr>mem_refcounts := rc\<rparr>, int (refs m f) - 1)"
    and rc: "length rc = length (mem_refcounts m)" "\<And>g. unat (rc ! g) = (if g = f then refs m g - 1 else refs m g)"
    using refcount_decrease_ok [OF ok(3), of "e_page e"] f by auto
  have small: "unat (e_page e) < 134217728" using f ok(1) by (simp add: fr_ok_def)
  define m1 where "m1 = m\<lparr>mem_refcounts := rc\<rparr>"
  have m1: "fr_ok m1" "low_ok m1" "nframes m1 = nframes m" "used m1 = used m" "kmem m1 = kmem m"
    using ok by (simp_all add: m1_def)
  show ?thesis
  proof (cases "refs m f = 1")
    case False
    then have "free_page inp i m = Some m1"
      using e dec f by (simp add: free_page_def Let_def m1_def)
    then show ?thesis using m1 False rc ok(3) by (auto simp: m1_def rc_ok_def refs_def)
  next
    case True
    then have "free_page inp i m = mmu_release_frame (push_bit 12 (e_page e)) m1"
      using e dec by (simp add: free_page_def Let_def m1_def)
    moreover obtain fs l where r: "mmu_release_frame (push_bit 12 (e_page e)) m1 =
        Some (m1\<lparr>frames := fs, lowest_available := l\<rparr>)"
      using mmu_release_frame_used [OF m1(1)] by blast
    moreover obtain m2 where "mmu_release_frame (push_bit 12 (e_page e)) m1 = Some m2" "fr_ok m2" "low_ok m2"
      "nframes m2 = nframes m1" "kmem m2 = kmem m1" "used m2 = used m1 - {f}"
      using mmu_release_frame_spec [OF m1(1,2), of "push_bit 12 (e_page e)"] page_frame_of [OF small] f m1(3) by auto
    ultimately show ?thesis using m1 True rc ok(3) by (auto simp: m1_def rc_ok_def refs_def nframes_def)
  qed
qed

lemma free_page_writable:
  assumes ok: "fr_ok m" "low_ok m" and e: "load_entry (entry inp i) m = e" "e_writable e"
    and f: "unat (e_page e) = f" "f < nframes m"
  shows "\<exists>m'. free_page inp i m = Some m' \<and> fr_ok m' \<and> low_ok m' \<and> used m' = used m - {f}"
  using mmu_release_frame_spec [OF ok, of "push_bit 12 (e_page e)"] page_frame_of [of e] e f ok(1)
  by (auto simp: free_page_def Let_def fr_ok_def)

text \<open>
  The invariant of a shared page: every owner's entry is the same read-only entry, and the
  count is the number of owners.
\<close>

definition owners :: "nat list \<Rightarrow> nat \<Rightarrow> pagemap_entry \<Rightarrow> mmu \<Rightarrow> bool" where
  "owners ts i e m \<longleftrightarrow> (\<forall>t \<in> set ts. load_entry (entry_at t i) m = shared_entry e)
     \<and> refs m (unat (e_page e)) = length ts"

definition share_with :: "nat \<Rightarrow> nat \<Rightarrow> nat \<Rightarrow> mmu \<Rightarrow> mmu option" where
  "share_with t0 i t m = do { (m, r) \<leftarrow> copy_page (frame_ptr t0) (frame_ptr t) i m; Some m }"

lemma share_more:
  assumes ok: "fr_ok m" "low_ok m" "rc_ok m" "i < 512"
    and f: "unat (e_page e) < nframes m"
    and own: "owners (t0 # ds) i e m" and len: "length ds + length ts \<le> 254"
    and dist: "distinct (t0 # ds @ ts)" and small: "\<forall>t \<in> set (t0 # ds @ ts). t < nframes m"
  shows "\<exists>m'. for_each ts (share_with t0 i) m = Some m' \<and> fr_ok m' \<and> low_ok m' \<and> rc_ok m'
    \<and> nframes m' = nframes m \<and> used m' = used m \<and> owners (t0 # ds @ ts) i e m'"
  using ok f own len dist small
proof (induction ts arbitrary: ds m)
  case (Cons t ts)
  have e0: "load_entry (entry (frame_ptr t0) i) m = shared_entry e"
    using Cons.prems(6) by (simp add: owners_def entry_at_def)
  have "refs m (unat (e_page e)) < 255" using Cons.prems(6,7) by (simp add: owners_def)
  then obtain rc where c: "share_with t0 i t m = Some (store_entry (entry_at t i) (shared_entry e) (m\<lparr>mem_refcounts := rc\<rparr>))"
    and rc: "length rc = length (mem_refcounts m)"
      "unat (rc ! unat (e_page e)) = refs m (unat (e_page e)) + 1"
    using copy_page_again [OF Cons.prems(3) e0 _ _ Cons.prems(5), of "frame_ptr t"] Cons.prems(5)
    by (auto simp: share_with_def entry_at_def)
  define m1 where "m1 = store_entry (entry_at t i) (shared_entry e) (m\<lparr>mem_refcounts := rc\<rparr>)"
  have same: "load_entry (entry_at t' i) m1 = load_entry (entry_at t' i) m" if "t' \<in> set (t0 # ds)" for t'
  proof -
    have "t' < nframes m" "t < nframes m" using that Cons.prems(9) by auto
    then have "t' < 134217728" "t < 134217728" using Cons.prems(1) by (simp_all add: fr_ok_def)
    then have "apart (entry_at t' i) 8 (entry_at t i) 8"
      using that Cons.prems(4,8) by (intro entries_apart) auto
    then show ?thesis by (simp add: m1_def load_store_apart) (simp add: load_entry_def)
  qed
  have m1: "fr_ok m1" "low_ok m1" "rc_ok m1" "nframes m1 = nframes m" "used m1 = used m"
    using Cons.prems(1-3) rc by (simp_all add: m1_def rc_ok_def)
  have "owners (t0 # (ds @ [t])) i e m1"
    using Cons.prems(6) same rc(2) by (auto simp: owners_def) (simp_all add: m1_def refs_def)
  from Cons.IH [OF m1(1-3) Cons.prems(4) _ this] Cons.prems m1 show ?case
    using c by (auto simp: m1_def)
qed (simp add: assms)

lemma free_shared:
  assumes ok: "fr_ok m" "low_ok m" "rc_ok m" and f: "unat (e_page e) = f" "f < nframes m" "f \<in> used m"
    and own: "owners (xs @ ys) i e m" and ne: "xs @ ys \<noteq> []"
  shows "\<exists>m'. for_each xs (\<lambda>t. free_page (frame_ptr t) i) m = Some m'
    \<and> (f \<in> used m' \<longleftrightarrow> ys \<noteq> []) \<and> used m' - {f} = used m - {f}"
  using assms
proof (induction xs arbitrary: m)
  case (Cons x xs)
  have ex: "load_entry (entry (frame_ptr x) i) m = shared_entry e" and r: "refs m f = Suc (length (xs @ ys))"
    using Cons.prems(4,7) by (auto simp: owners_def entry_at_def)
  have pg: "unat (e_page (shared_entry e)) = f" and nw: "\<not> e_writable (shared_entry e)" and pos: "0 < refs m f"
    using Cons.prems(4) r by simp_all
  obtain m1 where m1: "free_page (frame_ptr x) i m = Some m1" "fr_ok m1" "low_ok m1" "rc_ok m1"
    "nframes m1 = nframes m" "kmem m1 = kmem m" "refs m1 f = length (xs @ ys)"
    "used m1 = used m - (if refs m f = 1 then {f} else {})"
    using free_page_shared [OF Cons.prems(1-3) ex nw pg Cons.prems(5) pos] r by auto
  show ?case
  proof (cases "xs @ ys = []")
    case True
    then show ?thesis using m1 r by auto
  next
    case False
    then have "owners (xs @ ys) i e m1" "f \<in> used m1" "used m1 = used m" "f < nframes m1"
      using Cons.prems(4-7) m1 r by (auto simp: owners_def load_entry_def)
    with Cons.IH [OF m1(2-4) Cons.prems(4) _ _ _ False] m1(1) show ?thesis by auto
  qed
qed simp

section \<open>Properties\<close>

text \<open>
  C1. Copy-on-write keeps the two sides of a fork apart. After \<open>_copy_page\<close> of a private
  writable page both entries are the same read-only entry on the same frame; a write fault of
  the copy moves it to a frame nobody used, with the same 4096 bytes, and leaves the
  original entry and page alone; a later fault of the original finds itself the last owner and
  gets its own frame back without copying. Both entries end writable, on different frames,
  the sharing count is back at zero, and exactly one frame was taken.
\<close>

theorem fork_write_isolated:
  assumes ok: "fr_ok m" "low_ok m" "rc_ok m" and free: "\<exists>f < whole_words m. f \<notin> used m"
    and e: "load_entry (entry_at ti i) m = e" "e_writable e"
    and f: "unat (e_page e) = f" "f < nframes m" "f \<in> used m" "refs m f = 0"
    and t: "ti < nframes m" "ti \<in> used m" "to < nframes m" "to \<in> used m" "distinct [ti, to, f]" "i < 512"
  shows "\<exists>m1 m2 m3 g. copy_page (frame_ptr ti) (frame_ptr to) i m = Some (m1, 0)
    \<and> load_entry (entry_at ti i) m1 = shared_entry e \<and> load_entry (entry_at to i) m1 = shared_entry e
    \<and> cow_entry (entry_at to i) m1 = Some (m2, 0) \<and> load_entry (entry_at ti i) m2 = shared_entry e
    \<and> cow_entry (entry_at ti i) m2 = Some (m3, 0)
    \<and> g \<notin> used m \<and> used m3 = insert g (used m) \<and> refs m3 f = 0
    \<and> e_writable (load_entry (entry_at to i) m3) \<and> unat (e_page (load_entry (entry_at to i) m3)) = g
    \<and> e_writable (load_entry (entry_at ti i) m3) \<and> unat (e_page (load_entry (entry_at ti i) m3)) = f
    \<and> kread (kmem m3) (frame_ptr g) 4096 = kread (kmem m) (frame_ptr f) 4096
    \<and> kread (kmem m3) (frame_ptr f) 4096 = kread (kmem m) (frame_ptr f) 4096"
proof -
  let ?pi = "entry_at ti i" and ?po = "entry_at to i"
  have small: "ti < 134217728" "to < 134217728" "f < 134217728" using ok(1) t f by (simp_all add: fr_ok_def)
  have ap: "apart ?pi 8 ?po 8" "apart ?pi 8 (frame_ptr f) 4096" "apart ?po 8 (frame_ptr f) 4096"
    using small t by (auto intro!: entries_apart entry_apart_page)
  obtain rc where cp: "copy_page (frame_ptr ti) (frame_ptr to) i m =
      Some (store_entry ?po (shared_entry e) (store_entry ?pi (shared_entry e) (m\<lparr>mem_refcounts := rc\<rparr>)), 0)"
    and rc: "length rc = length (mem_refcounts m)" "\<And>g. unat (rc ! g) = (if g = f then 2 else refs m g)"
    using copy_page_writable [OF ok(3) e(1) [unfolded entry_at_def] e(2) f(1,2,4)] by (auto simp: entry_at_def)
  define m1 where "m1 = store_entry ?po (shared_entry e) (store_entry ?pi (shared_entry e) (m\<lparr>mem_refcounts := rc\<rparr>))"
  have m1: "fr_ok m1" "low_ok m1" "rc_ok m1" "nframes m1 = nframes m" "used m1 = used m" "refs m1 f = 2"
    "\<exists>f < whole_words m1. f \<notin> used m1"
    using ok rc free by (simp_all add: m1_def rc_ok_def refs_def whole_words_def)
  have l1: "load_entry ?po m1 = shared_entry e" "load_entry ?pi m1 = shared_entry e"
    using ap(1) by (simp_all add: m1_def load_store_apart)
  have kr1: "kread (kmem m1) (frame_ptr f) 4096 = kread (kmem m) (frame_ptr f) 4096"
    using apart_sym [OF ap(2)] apart_sym [OF ap(3)] by (simp add: m1_def kread_store_apart)
  obtain m2 g where m2: "cow_entry ?po m1 = Some (m2, 0)" "g < nframes m" "g \<notin> used m"
    "fr_ok m2" "low_ok m2" "rc_ok m2" "nframes m2 = nframes m" "used m2 = insert g (used m)" "refs m2 f = 1"
    "load_entry ?po m2 = private_entry (put_page (of_nat g) (shared_entry e))"
    "unat (e_page (private_entry (put_page (of_nat g) (shared_entry e)))) = g"
    "kread (kmem m2) (frame_ptr g) 4096 = kread (kmem m1) (frame_ptr f) 4096"
    "\<And>x. \<not> in_range x ?po 8 \<Longrightarrow> \<not> in_range x (frame_ptr g) 4096 \<Longrightarrow> kmem m2 x = kmem m1 x"
    using cow_entry_shared [OF m1(1-3,7) l1(1), of f] f t m1 by auto
  have g: "g < 134217728" "g \<noteq> ti" "g \<noteq> to" "g \<noteq> f"
    using m2(2,3) ok(1) t f by (auto simp: fr_ok_def)
  have gap: "apart ?pi 8 (frame_ptr g) 4096" "apart (frame_ptr f) 4096 (frame_ptr g) 4096"
    using small g t by (auto intro!: entry_apart_page frames_apart)
  have "load_entry ?pi m2 = load_entry ?pi m1"
    by (rule load_entry_cong) (use m2(13) ap(1) gap(1) in \<open>auto simp: apart_def\<close>)
  then have l2: "load_entry ?pi m2 = shared_entry e" using l1(2) by simp
  have kr2: "kread (kmem m2) (frame_ptr f) 4096 = kread (kmem m1) (frame_ptr f) 4096"
    by (rule kread_cong) (use m2(13) ap(3) gap(2) in \<open>auto simp: apart_def\<close>)
  obtain rc3 where cw: "cow_entry ?pi m2 = Some (store_entry ?pi (private_entry (shared_entry e)) (m2\<lparr>mem_refcounts := rc3\<rparr>), 0)"
    and rc3: "\<And>g. unat (rc3 ! g) = (if g = f then 0 else refs m2 g)"
    using cow_entry_last [OF m2(4-6) l2, of f] f m2 by auto
  have "kread (kmem (store_entry ?pi v (m2\<lparr>mem_refcounts := rc3\<rparr>))) (frame_ptr h) 4096 = kread (kmem m2) (frame_ptr h) 4096"
    if "h = f \<or> h = g" for h v
    using that apart_sym [OF ap(2)] apart_sym [OF gap(1)] by (auto simp: kread_store_apart)
  moreover have "load_entry ?po (store_entry ?pi v (m2\<lparr>mem_refcounts := rc3\<rparr>)) = load_entry ?po m2" for v
    using apart_sym [OF ap(1)] by (simp add: load_store_apart) (simp add: load_entry_def)
  ultimately show ?thesis
    using cp l1 m2 l2 cw rc3 kr1 kr2 f(1)
    by (intro exI [of _ m1] exI [of _ m2] exI [of _ "store_entry ?pi (private_entry (shared_entry e)) (m2\<lparr>mem_refcounts := rc3\<rparr>)"]
        exI [of _ g]) (simp add: m1_def [symmetric] refs_def)
qed

text \<open>
  C2. A page shared by forks is released exactly once: after copying the entry of \<open>t0\<close> to up to
  254 other tables, releasing the owners in any order keeps the frame in use as long as one
  owner is left and frees it with the last; no other frame changes hands.
\<close>

theorem shared_page_released_once:
  assumes ok: "fr_ok m" "low_ok m" "rc_ok m" "i < 512"
    and e: "load_entry (entry_at t0 i) m = e" "e_writable e"
    and f: "unat (e_page e) = f" "f < nframes m" "f \<in> used m" "refs m f = 0"
    and ts: "ts \<noteq> []" "length ts \<le> 254" "distinct (t0 # ts)" "\<forall>t \<in> set (t0 # ts). t < nframes m"
    and order: "set (xs @ ys) = set (t0 # ts)" "distinct (xs @ ys)"
  shows "\<exists>m1 m2. for_each ts (share_with t0 i) m = Some m1
    \<and> for_each xs (\<lambda>t. free_page (frame_ptr t) i) m1 = Some m2
    \<and> (f \<in> used m2 \<longleftrightarrow> ys \<noteq> []) \<and> used m2 - {f} = used m - {f}"
proof -
  obtain t ts' where tt: "ts = t # ts'" using ts(1) by (cases ts) auto
  have small: "t0 < 134217728" "t < 134217728" using ts(4) ok(1) tt by (simp_all add: fr_ok_def)
  obtain rc where cp: "share_with t0 i t m =
      Some (store_entry (entry_at t i) (shared_entry e) (store_entry (entry_at t0 i) (shared_entry e) (m\<lparr>mem_refcounts := rc\<rparr>)))"
    and rc: "length rc = length (mem_refcounts m)" "\<And>g. unat (rc ! g) = (if g = f then 2 else refs m g)"
    using copy_page_writable [OF ok(3) e(1) [unfolded entry_at_def] e(2) f(1,2,4), of "frame_ptr t"]
    by (auto simp: share_with_def entry_at_def)
  define m0 where "m0 = store_entry (entry_at t i) (shared_entry e) (store_entry (entry_at t0 i) (shared_entry e) (m\<lparr>mem_refcounts := rc\<rparr>))"
  have "apart (entry_at t0 i) 8 (entry_at t i) 8"
    using small ts(3) tt ok(4) by (intro entries_apart) auto
  then have own: "owners (t0 # [t]) i e m0"
    using rc(2) f(1) by (simp add: owners_def m0_def load_store_apart) (simp add: refs_def)
  have m0: "fr_ok m0" "low_ok m0" "rc_ok m0" "nframes m0 = nframes m" "used m0 = used m"
    using ok rc by (simp_all add: m0_def rc_ok_def)
  obtain m1 where m1: "for_each ts' (share_with t0 i) m0 = Some m1" "fr_ok m1" "low_ok m1" "rc_ok m1"
    "nframes m1 = nframes m" "used m1 = used m" "owners (t0 # ts) i e m1"
    using share_more [OF m0(1-3) ok(4) _ own, of ts'] ts f m0 tt by auto
  have len: "length (xs @ ys) = length (t0 # ts)"
    using distinct_card [OF order(2)] distinct_card [OF ts(3)] order(1) by simp
  then have own: "owners (xs @ ys) i e m1"
    using m1(7) unfolding owners_def order(1) by simp
  have ne: "xs @ ys \<noteq> []" using len by auto
  show ?thesis
    using free_shared [OF m1(2-4) f(1) _ _ own ne] f m1 cp tt by (auto simp: m0_def)
qed

text \<open>
  The two walks of the page tables agree: \<open>mmu_lookup_frame\<close> without \<open>MMU_GET_MAKE\<close>
  changes nothing, always answers, and finds what \<open>mmu_lookup_frame_from\<close> finds from the
  current directory, for every address and every contents of memory.
\<close>

lemma mmu_lookup_frame_agrees:
  "mmu_lookup_frame va False m = Some (m, mmu_lookup_frame_from (current_pml m) va m)"
  by (simp add: mmu_lookup_frame_def mmu_lookup_frame_from_def ensure_table_def Let_def)

text \<open>
  When the sharing count of a read-only page is saturated, \<open>_copy_page\<close> gives the copy a
  frame of its own but never locks it: the frame is mapped by the new entry and still counts
  as free, so the allocator will hand it out again.
\<close>

lemma copy_page_saturated:
  assumes ok: "fr_ok m" "low_ok m" "rc_ok m" and free: "\<exists>f < whole_words m. f \<notin> used m"
    and e: "load_entry (entry inp i) m = e" "\<not> e_writable e"
    and f: "unat (e_page e) < nframes m" "refs m (unat (e_page e)) = 255"
  shows "\<exists>m' g. copy_page inp out i m = Some (m', 0) \<and> e_present (load_entry (entry out i) m')
    \<and> unat (e_page (load_entry (entry out i) m')) = g \<and> g \<notin> used m' \<and> used m' = used m"
proof -
  have "mem_refcounts m ! unat (e_page e) = 255"
    using f(2) by (simp add: refs_def word_unat_eq_iff)
  then have inc: "refcount_increase (e_page e) m = Some (m, 1)"
    using f ok(3) by (auto simp: refcount_increase_def memobj rc_ok_def nframes_def word_less_nat_alt not_le)
  obtain m1 idx where req: "mmu_request_frame m = Some (m1, idx)" and i: "unat idx < whole_words m" "unat idx \<notin> used m"
    "m1 = m\<lparr>lowest_available := idx + 1\<rparr>"
    using mmu_request_frame_spec [OF ok(1,2)] free by blast
  have small: "unat idx < 134217728" using i(1) whole_words_le [of m] ok(1) by (simp add: fr_ok_def)
  have d: "drop_bit 12 (push_bit 12 idx) = idx"
    using small by (simp add: word_unat_eq_iff unat_drop_bit push_bit_eq_mult unat_word_ariths)
  have u: "used (m1\<lparr>kmem := k\<rparr>) = used m" for k using i(3) by (simp add: used_def)
  show ?thesis
    using e inc req d small i(2) u take_bit_page [of idx]
    by (simp add: copy_page_def Let_def e_bits)
qed

text \<open>
  \<open>mmu_validate_user\<close> computes the end of the range with wrap-around: a range that runs
  over the top of the address space, here two pages from \<open>0xFFFFFFFFFFFFF000\<close> on, has its end
  below its base, so that no page is looked at and the pointer into kernel space is accepted,
  whatever the page tables say.
\<close>

lemma mmu_validate_user_wraps:
  "mmu_validate_user pml 0xFFFFFFFFFFFFF000 0x2000 null wr m = Some (m, 1)"
  by (simp add: mmu_validate_user_def unat_drop_bit)

section \<open>Building the walk\<close>

lemma new_entry:
  fixes idx :: u64
  assumes "unat idx < 134217728"
  shows "e_present (push_bit 12 idx OR USER_PML_ACCESS)" and "\<not> e_size (push_bit 12 idx OR USER_PML_ACCESS)"
    and "unat (e_page (push_bit 12 idx OR USER_PML_ACCESS)) = unat idx"
proof -
  have m: "USER_PML_ACCESS = mask 3" by (simp add: mask_eq_exp_minus_1)
  show "e_present (push_bit 12 idx OR USER_PML_ACCESS)" "\<not> e_size (push_bit 12 idx OR USER_PML_ACCESS)"
    unfolding m e_present_def e_size_def by (simp_all add: bit_or_iff bit_push_bit_iff bit_mask_iff)
  have "e_page (push_bit 12 idx OR USER_PML_ACCESS) = idx"
  proof (rule bit_word_eqI)
    fix k
    assume "k < LENGTH(64)"
    have "bit idx k \<Longrightarrow> k < 28"
      using take_bit_page [OF assms] by (metis bit_take_bit_iff)
    then show "bit (e_page (push_bit 12 idx OR USER_PML_ACCESS)) k = bit idx k"
      unfolding m e_page_def using \<open>k < LENGTH(64)\<close>
      by (auto simp: bit_take_bit_iff bit_drop_bit_eq bit_or_iff bit_push_bit_iff bit_mask_iff)
  qed
  then show "unat (e_page (push_bit 12 idx OR USER_PML_ACCESS)) = unat idx" by simp
qed

lemma kload_zero: "(\<And>j. j < n \<Longrightarrow> km (a + of_nat j) = 0) \<Longrightarrow> kload n km a = (0 :: 'a :: len word)"
  by (rule bit_word_eqI) (auto simp: bit_kload)

text \<open>The frames that can still be handed out.\<close>

definition spare :: "mmu \<Rightarrow> nat set" where
  "spare m = {f. f < whole_words m \<and> f \<notin> used m}"

lemma finite_spare [simp]: "finite (spare m)"
  by (rule finite_subset [of _ "{..<whole_words m}"]) (auto simp: spare_def)

lemma ensure_table_ok:
  assumes ok: "fr_ok m" "low_ok m" and n: "card (spare m) \<ge> Suc k"
    and t: "t < nframes m" "t \<in> used m" "i < 512"
    and wf: "e_present (load_entry (entry_at t i) m) \<Longrightarrow>
      unat (e_page (load_entry (entry_at t i) m)) < nframes m \<and> unat (e_page (load_entry (entry_at t i) m)) \<in> used m"
  shows "\<exists>m' e g. ensure_table (entry_at t i) True m = Some (m', True) \<and> fr_ok m' \<and> low_ok m'
    \<and> nframes m' = nframes m \<and> current_pml m' = current_pml m \<and> used m \<subseteq> used m' \<and> card (spare m') \<ge> k
    \<and> load_entry (entry_at t i) m' = e \<and> e_present e \<and> unat (e_page e) = g \<and> g < nframes m \<and> g \<in> used m'
    \<and> (if e_present (load_entry (entry_at t i) m) then m' = m
       else g \<notin> used m \<and> used m' = insert g (used m) \<and> \<not> e_size e \<and> (\<forall>j<512. load_entry (entry_at g j) m' = 0)
         \<and> (\<forall>x. \<not> in_range x (entry_at t i) 8 \<longrightarrow> \<not> in_range x (frame_ptr g) 4096 \<longrightarrow> kmem m' x = kmem m x))"
proof (cases "e_present (load_entry (entry_at t i) m)")
  case True
  then show ?thesis using assms by (simp add: ensure_table_def)
next
  case False
  have "spare m \<noteq> {}" using n by auto
  then have "\<exists>f < whole_words m. f \<notin> used m" by (auto simp: spare_def)
  from fresh_frame [OF ok this] obtain m1 g where a: "mmu_allocate_frame m = Some (m1, of_nat g)"
    "g < nframes m" "g \<notin> used m" "fr_ok m1" "low_ok m1" "nframes m1 = nframes m" "used m1 = insert g (used m)"
    "kmem m1 = kmem m" "current_pml m1 = current_pml m" by blast
  have small: "g < 134217728" "t < 134217728" using a(2) t(1) ok(1) by (simp_all add: fr_ok_def)
  have ne: "t \<noteq> g" using a(3) t(2) by auto
  define e where "e = push_bit 12 (of_nat g) OR USER_PML_ACCESS"
  note e = new_entry [of "of_nat g", folded e_def]
  define m2 where "m2 = store_entry (entry_at t i) e (m1\<lparr>kmem := kset (kmem m1) (frame_ptr g) 0 4096\<rparr>)"
  have "ensure_table (entry_at t i) True m = Some (m2, True)"
    using False a(1) small by (simp add: ensure_table_def Let_def request_lock m2_def e_def)
  moreover have "load_entry (entry_at g j) m2 = 0" if "j < 512" for j
  proof -
    have "load_entry (entry_at g j) m2 = load_entry (entry_at g j) (m1\<lparr>kmem := kset (kmem m1) (frame_ptr g) 0 4096\<rparr>)"
      unfolding m2_def by (rule load_store_apart) (use entries_apart [of g t j i] ne small that t in auto)
    also have "\<dots> = 0" unfolding load_entry_def
    proof (rule kload_zero)
      fix b :: nat assume "b < 8"
      then have "in_range (entry_at g j + of_nat b) (frame_ptr g) 4096"
        by (intro entry_in_frame [OF that]) (simp add: in_range_offset)
      then show "kmem (m1\<lparr>kmem := kset (kmem m1) (frame_ptr g) 0 4096\<rparr>) (entry_at g j + of_nat b) = 0"
        by (simp add: kset_def in_range_def)
    qed
    finally show ?thesis .
  qed
  moreover have "kmem m2 x = kmem m x" if "\<not> in_range x (entry_at t i) 8" "\<not> in_range x (frame_ptr g) 4096" for x
    using that a(8) by (simp add: m2_def store_entry_def kstore_outside kset_outside)
  moreover have "card (spare m2) \<ge> k"
  proof -
    have eq: "spare m2 = spare m - {g}" using a(6,7) by (auto simp: spare_def m2_def whole_words_def)
    have "card (spare m) - card {g} \<le> card (spare m - {g})" by (rule diff_card_le_card_Diff) simp
    then show ?thesis unfolding eq using n by simp
  qed
  moreover have "load_entry (entry_at t i) m2 = e" by (simp add: m2_def)
  moreover have "unat (of_nat g :: u64) = g" using small by (simp add: unat_of_nat)
  moreover from this small have "e_present e" "\<not> e_size e" "unat (e_page e) = g" using e by simp_all
  moreover have "fr_ok m2" "low_ok m2" "nframes m2 = nframes m" "current_pml m2 = current_pml m"
      "used m2 = insert g (used m)"
    using a by (simp_all add: m2_def)
  ultimately show ?thesis using False a(2,3)
    by (intro exI [of _ m2] exI [of _ e] exI [of _ g]) (simp add: subset_insertI)
qed

text \<open>
  What the tables on the path of one address have to satisfy: the directory and the tables
  that are present are distinct frames in use, and no entry maps a large page.
\<close>

definition table_entry_ok :: "mmu \<Rightarrow> nat set \<Rightarrow> pagemap_entry \<Rightarrow> bool" where
  "table_entry_ok m up e \<longleftrightarrow> \<not> e_size e \<and> unat (e_page e) < nframes m
     \<and> unat (e_page e) \<in> used m \<and> unat (e_page e) \<notin> up"

definition walk_ok :: "u64 \<Rightarrow> nat \<Rightarrow> mmu \<Rightarrow> bool" where
  "walk_ok va r m \<longleftrightarrow> current_pml m = frame_ptr r \<and> r < nframes m \<and> r \<in> used m
     \<and> (let e4 = load_entry (entry_at r (pml4_index va)) m; g1 = unat (e_page e4) in
        e_present e4 \<longrightarrow> table_entry_ok m {r} e4
        \<and> (let e3 = load_entry (entry_at g1 (pdp_index va)) m; g2 = unat (e_page e3) in
           e_present e3 \<longrightarrow> table_entry_ok m {r, g1} e3
           \<and> (let e2 = load_entry (entry_at g2 (pd_index va)) m in
              e_present e2 \<longrightarrow> table_entry_ok m {r, g1, g2} e2)))"

lemma index_less [simp]: "pml4_index va < 512" "pdp_index va < 512" "pd_index va < 512" "pt_index va < 512"
proof -
  have "unat (w AND 0x1FF) < 512" for w :: u64
    using word_and_le1 [of w "0x1FF"] by (simp add: word_le_nat_alt)
  then show "pml4_index va < 512" "pdp_index va < 512" "pd_index va < 512" "pt_index va < 512"
    by (simp_all add: pml4_index_def pdp_index_def pd_index_def pt_index_def)
qed

lemma unat_take_bit: "unat (take_bit n w) = unat w mod 2 ^ n"
  by (subst unsigned_take_bit_eq) (rule take_bit_eq_mod)

lemma index_div:
  "pml4_index va = unat va div 549755813888 mod 512" "pdp_index va = unat va div 1073741824 mod 512"
  "pd_index va = unat va div 2097152 mod 512" "pt_index va = unat va div 4096 mod 512"
proof -
  have a: "w AND 0x1FF = take_bit 9 w" "w AND 0xFFFFFFFFFFFF = take_bit 48 w" for w :: u64
    by (simp_all add: take_bit_eq_mask mask_eq_exp_minus_1)
  have d: "take_bit 9 (drop_bit 12 (take_bit 48 w)) = take_bit 9 (drop_bit 12 w)"
    "take_bit 9 (drop_bit 9 (drop_bit 12 (take_bit 48 w))) = take_bit 9 (drop_bit 21 w)"
    "take_bit 9 (drop_bit 18 (drop_bit 12 (take_bit 48 w))) = take_bit 9 (drop_bit 30 w)"
    "take_bit 9 (drop_bit 27 (drop_bit 12 (take_bit 48 w))) = take_bit 9 (drop_bit 39 w)" for w :: u64
    by (auto intro!: bit_word_eqI simp: bit_simps)
  show "pml4_index va = unat va div 549755813888 mod 512" "pdp_index va = unat va div 1073741824 mod 512"
    "pd_index va = unat va div 2097152 mod 512" "pt_index va = unat va div 4096 mod 512"
    unfolding pml4_index_def pdp_index_def pd_index_def pt_index_def a d
    by (simp_all add: unat_take_bit unat_drop_bit)
qed

lemma not_present_0 [simp]: "\<not> e_present 0"
  by (simp add: e_present_def)

text \<open>An entry of another used frame survives an \<open>ensure_table\<close>.\<close>

lemma ensured_keeps:
  assumes "P \<Longrightarrow> m' = m"
    and "\<not> P \<Longrightarrow> \<forall>x. \<not> in_range x (entry_at t i) 8 \<longrightarrow> \<not> in_range x (frame_ptr g) 4096 \<longrightarrow> kmem m' x = kmem m x"
    and "t' \<noteq> t" "\<not> P \<Longrightarrow> t' \<noteq> g" "t' < 134217728" "t < 134217728" "g < 134217728" "i < 512" "j < 512"
  shows "load_entry (entry_at t' j) m' = load_entry (entry_at t' j) m"
proof (cases P)
  case False
  then have "apart (entry_at t' j) 8 (entry_at t i) 8" "apart (entry_at t' j) 8 (frame_ptr g) 4096"
    using assms by (auto intro!: entries_apart entry_apart_page)
  then show ?thesis using assms(2) [OF False] by (intro load_entry_cong) (auto simp: apart_def)
qed (use assms in simp)

text \<open>The tables that the path of an address runs through below the directory in frame \<open>r\<close>, as far as they are present.\<close>

definition path_tables :: "u64 \<Rightarrow> nat \<Rightarrow> mmu \<Rightarrow> nat list" where
  "path_tables va r m = (let
     e4 = load_entry (entry_at r (pml4_index va)) m; g1 = unat (e_page e4);
     e3 = load_entry (entry_at g1 (pdp_index va)) m; g2 = unat (e_page e3);
     e2 = load_entry (entry_at g2 (pd_index va)) m
     in if \<not> e_present e4 then [] else g1 #
       (if \<not> e_present e3 then [] else g2 # (if \<not> e_present e2 then [] else [unat (e_page e2)])))"

text \<open>
  C21. \<open>mmu_lookup_frame\<close> with \<open>MMU_GET_MAKE\<close> on a sane path, with three frames to spare, always
  yields an entry. The tables of the path that are present are kept; the missing ones, and nothing else,
  take frames that were free before the call, and a last table that is new has only empty entries.
  Afterwards the plain walk of the same directory finds exactly that entry, in the last of the three
  tables.
\<close>

theorem mmu_lookup_frame_makes:
  assumes ok: "fr_ok m" "low_ok m" and n: "3 \<le> card (spare m)" and walk: "walk_ok va r m"
  shows "\<exists>m' g new. mmu_lookup_frame va True m = Some (m', entry_at g (pt_index va)) \<and> fr_ok m' \<and> low_ok m'
    \<and> current_pml m' = current_pml m \<and> g < nframes m
    \<and> path_tables va r m' = path_tables va r m @ new \<and> length (path_tables va r m') = 3 \<and> last (path_tables va r m') = g
    \<and> distinct new \<and> set new \<inter> used m = {} \<and> used m' = used m \<union> set new
    \<and> (g \<in> set new \<longrightarrow> (\<forall>j<512. load_entry (entry_at g j) m' = 0))
    \<and> mmu_lookup_frame_from (current_pml m) va m' = entry_at g (pt_index va)"
proof -
  let ?i4 = "pml4_index va" and ?i3 = "pdp_index va" and ?i2 = "pd_index va"
  have r: "current_pml m = frame_ptr r" "r < nframes m" "r \<in> used m"
    using walk by (simp_all add: walk_ok_def)
  have w4: "e_present (load_entry (entry_at r ?i4) m) \<Longrightarrow> table_entry_ok m {r} (load_entry (entry_at r ?i4) m)"
    using walk by (simp add: walk_ok_def Let_def)
  obtain m1 e4 g1 where s1: "ensure_table (entry_at r ?i4) True m = Some (m1, True)" "fr_ok m1" "low_ok m1"
    "nframes m1 = nframes m" "current_pml m1 = current_pml m" "used m \<subseteq> used m1" "card (spare m1) \<ge> 2"
    "load_entry (entry_at r ?i4) m1 = e4" "e_present e4" "unat (e_page e4) = g1" "g1 < nframes m" "g1 \<in> used m1"
    and c1: "if e_present (load_entry (entry_at r ?i4) m) then m1 = m
       else g1 \<notin> used m \<and> used m1 = insert g1 (used m) \<and> \<not> e_size e4 \<and> (\<forall>j<512. load_entry (entry_at g1 j) m1 = 0)
         \<and> (\<forall>x. \<not> in_range x (entry_at r ?i4) 8 \<longrightarrow> \<not> in_range x (frame_ptr g1) 4096 \<longrightarrow> kmem m1 x = kmem m x)"
    using ensure_table_ok [OF ok, of 2 r ?i4] n r w4 by (auto simp: table_entry_ok_def)
  have g1r: "g1 \<noteq> r" using c1 w4 s1(8,10) r(3) by (cases "e_present (load_entry (entry_at r ?i4) m)") (auto simp: table_entry_ok_def)
  have w3: "table_entry_ok m1 {r, g1} (load_entry (entry_at g1 ?i3) m1)"
    and was4: "m1 = m \<and> e_present (load_entry (entry_at r ?i4) m)"
    if "e_present (load_entry (entry_at g1 ?i3) m1)"
    using that c1 s1(8,10) walk by (auto simp: walk_ok_def Let_def split: if_splits)
  obtain m2 e3 g2 where s2: "ensure_table (entry_at g1 ?i3) True m1 = Some (m2, True)" "fr_ok m2" "low_ok m2"
    "nframes m2 = nframes m1" "current_pml m2 = current_pml m1" "used m1 \<subseteq> used m2" "card (spare m2) \<ge> 1"
    "load_entry (entry_at g1 ?i3) m2 = e3" "e_present e3" "unat (e_page e3) = g2" "g2 < nframes m1" "g2 \<in> used m2"
    and c2: "if e_present (load_entry (entry_at g1 ?i3) m1) then m2 = m1
       else g2 \<notin> used m1 \<and> used m2 = insert g2 (used m1) \<and> \<not> e_size e3 \<and> (\<forall>j<512. load_entry (entry_at g2 j) m2 = 0)
         \<and> (\<forall>x. \<not> in_range x (entry_at g1 ?i3) 8 \<longrightarrow> \<not> in_range x (frame_ptr g2) 4096 \<longrightarrow> kmem m2 x = kmem m1 x)"
    using ensure_table_ok [OF s1(2,3), of 1 g1 ?i3] s1(4,7,11,12) w3 by (auto simp: table_entry_ok_def)
  have g2: "g2 \<notin> {r, g1}" "\<not> e_size e3"
    using c2 w3 s2(8,10) s1(6,12) r(3) by (auto simp: table_entry_ok_def split: if_splits)
  have w2: "table_entry_ok m2 {r, g1, g2} (load_entry (entry_at g2 ?i2) m2)"
    if "e_present (load_entry (entry_at g2 ?i2) m2)"
    using that c2 s2(8,10) was4 s1(8,10) walk by (auto simp: walk_ok_def Let_def split: if_splits)
  obtain m3 e2 g3 where s3: "ensure_table (entry_at g2 ?i2) True m2 = Some (m3, True)" "fr_ok m3" "low_ok m3"
    "nframes m3 = nframes m2" "current_pml m3 = current_pml m2" "used m2 \<subseteq> used m3"
    "load_entry (entry_at g2 ?i2) m3 = e2" "e_present e2" "unat (e_page e2) = g3" "g3 < nframes m2" "g3 \<in> used m3"
    and c3: "if e_present (load_entry (entry_at g2 ?i2) m2) then m3 = m2
       else g3 \<notin> used m2 \<and> used m3 = insert g3 (used m2) \<and> \<not> e_size e2 \<and> (\<forall>j<512. load_entry (entry_at g3 j) m3 = 0)
         \<and> (\<forall>x. \<not> in_range x (entry_at g2 ?i2) 8 \<longrightarrow> \<not> in_range x (frame_ptr g3) 4096 \<longrightarrow> kmem m3 x = kmem m2 x)"
    using ensure_table_ok [OF s2(2,3), of 0 g2 ?i2] s2(4,7,11,12) s1(4) w2 by (auto simp: table_entry_ok_def)
  have g3: "\<not> e_size e2" using c3 w2 s3(7) by (auto simp: table_entry_ok_def split: if_splits)
  have lim: "r < 134217728" "g1 < 134217728" "g2 < 134217728" "g3 < 134217728"
    using r(2) s1(4,11) s2(4,11) s3(10) ok(1) by (simp_all add: fr_ok_def)
  have new3: "g3 \<notin> {r, g1}" if "\<not> e_present (load_entry (entry_at g2 ?i2) m2)"
    using that c3 r(3) s1(6,12) s2(6) by auto
  have k: "load_entry (entry_at r ?i4) m2 = e4" "load_entry (entry_at r ?i4) m3 = load_entry (entry_at r ?i4) m2"
    "load_entry (entry_at g1 ?i3) m3 = e3"
  proof -
    show "load_entry (entry_at r ?i4) m2 = e4"
      unfolding s1(8) [symmetric]
      by (rule ensured_keeps [where P = "e_present (load_entry (entry_at g1 ?i3) m1)" and t = g1 and i = ?i3 and g = g2])
        (use c2 g1r g2 lim in auto)
    show "load_entry (entry_at r ?i4) m3 = load_entry (entry_at r ?i4) m2"
      by (rule ensured_keeps [where P = "e_present (load_entry (entry_at g2 ?i2) m2)" and t = g2 and i = ?i2 and g = g3])
        (use c3 g2 new3 lim in auto)
    show "load_entry (entry_at g1 ?i3) m3 = e3"
      unfolding s2(8) [symmetric]
      by (rule ensured_keeps [where P = "e_present (load_entry (entry_at g2 ?i2) m2)" and t = g2 and i = ?i2 and g = g3])
        (use c3 g2 new3 lim in auto)
  qed
  have tb: "table_of e4 = frame_ptr g1" "table_of e3 = frame_ptr g2" "table_of e2 = frame_ptr g3"
    using table_of_frame [of e4] table_of_frame [of e3] table_of_frame [of e2] s1(10) s2(10) s3(9) lim by auto
  note en = entry_at_def [symmetric]
  have "mmu_lookup_frame va True m = Some (m3, entry_at g3 (pt_index va))"
    using s1(1,8) s2(1,8) s3(1,7) g2(2) g3 tb r(1)
    by (simp add: mmu_lookup_frame_def Let_def en)
  moreover have look: "mmu_lookup_frame_from (current_pml m) va m3 = entry_at g3 (pt_index va)"
    using k s3(7) s1(9) s2(9) s3(8) g2(2) g3 tb r(1)
    by (simp add: mmu_lookup_frame_from_def Let_def en)
  have path: "path_tables va r m3 = [g1, g2, g3]"
    using k s3(7-9) s1(9,10) s2(9,10) by (simp add: path_tables_def Let_def)
  obtain new where new: "[g1, g2, g3] = path_tables va r m @ new" "distinct new" "set new \<inter> used m = {}" "used m3 = used m \<union> set new"
      "g3 \<in> set new \<longrightarrow> \<not> e_present (load_entry (entry_at g2 ?i2) m2)"
  proof -
    have "\<exists>new. [g1, g2, g3] = path_tables va r m @ new \<and> distinct new \<and> set new \<inter> used m = {} \<and> used m3 = used m \<union> set new
      \<and> (g3 \<in> set new \<longrightarrow> \<not> e_present (load_entry (entry_at g2 ?i2) m2))"
    proof -
      consider "e_present (load_entry (entry_at r ?i4) m)" "e_present (load_entry (entry_at g1 ?i3) m1)"
          "e_present (load_entry (entry_at g2 ?i2) m2)"
        | "e_present (load_entry (entry_at r ?i4) m)" "e_present (load_entry (entry_at g1 ?i3) m1)"
          "\<not> e_present (load_entry (entry_at g2 ?i2) m2)"
        | "e_present (load_entry (entry_at r ?i4) m)" "\<not> e_present (load_entry (entry_at g1 ?i3) m1)"
        | "\<not> e_present (load_entry (entry_at r ?i4) m)"
        by blast
      then show ?thesis
      proof cases
        case 1
        then have "m1 = m" "m2 = m" "m3 = m" using c1 c2 c3 by simp_all
        moreover have "g3 \<in> used m" using s3(11) \<open>m3 = m\<close> by simp
        ultimately show ?thesis using path 1 by (intro exI [of _ "[]"]) simp
      next
        case 2
        then have "m1 = m" "m2 = m" using c1 c2 by simp_all
        then show ?thesis using 2 c3 s1(8,10) s2(8,10)
          by (intro exI [of _ "[g3]"]) (simp add: path_tables_def Let_def)
      next
        case 3
        then have "m1 = m" using c1 by simp
        moreover have "\<not> e_present (load_entry (entry_at g2 ?i2) m2)" using 3 c2 by simp
        ultimately show ?thesis using 3 c2 c3 s1(8,10)
          by (intro exI [of _ "[g2, g3]"]) (auto simp: path_tables_def Let_def)
      next
        case 4
        then have "\<not> e_present (load_entry (entry_at g1 ?i3) m1)" using c1 by simp
        moreover from this have "\<not> e_present (load_entry (entry_at g2 ?i2) m2)" using c2 by simp
        ultimately show ?thesis using 4 c1 c2 c3
          by (intro exI [of _ "[g1, g2, g3]"]) (auto simp: path_tables_def Let_def)
      qed
    qed
    then show ?thesis using that by blast
  qed
  moreover have "\<forall>j<512. load_entry (entry_at g3 j) m3 = 0" if "\<not> e_present (load_entry (entry_at g2 ?i2) m2)"
    using that c3 by simp
  moreover have "fr_ok m3" "low_ok m3" "current_pml m3 = current_pml m" "g3 < nframes m"
    using s3(2,3,5,10) s2(4,5) s1(4,5) by simp_all
  moreover have "length (path_tables va r m3) = 3" "last (path_tables va r m3) = g3" "path_tables va r m3 = path_tables va r m @ new"
    unfolding new(1) [symmetric] path by simp_all
  ultimately show ?thesis
    by (intro exI [of _ m3] exI [of _ g3] exI [of _ new]) (use new(2-5) look in blast)
qed

section \<open>What a validated range means\<close>

definition user_page :: "u64 \<Rightarrow> mmu \<Rightarrow> u64 \<Rightarrow> bool" where
  "user_page pml m va \<longleftrightarrow> (let p = mmu_lookup_frame_from pml va m in
     p \<noteq> 0 \<and> e_present (load_entry p m) \<and> e_user (load_entry p m))"

lemma page_base_bits: "drop_bit 12 (push_bit 12 (drop_bit 12 va) AND 0xFFFFFFFFFFFF) = drop_bit 12 ((va :: u64) AND 0xFFFFFFFFFFFF)"
  by (rule bit_word_eqI) (auto simp: bit_drop_bit_eq bit_and_iff bit_push_bit_iff dest: bit_imp_le_length)

lemma lookup_page_base: "mmu_lookup_frame_from pml (push_bit 12 (drop_bit 12 va)) m = mmu_lookup_frame_from pml va m"
  unfolding mmu_lookup_frame_from_def pml4_index_def pdp_index_def pd_index_def pt_index_def page_base_bits ..

lemma validate_page_read:
  "validate_page pml False page m = Some (m', True) \<Longrightarrow> m' = m \<and> user_page pml m (push_bit 12 page)"
  by (auto simp: validate_page_def user_page_def Let_def split: if_splits)

lemma validate_pages_read:
  "validate_pages pml False page n m = Some (m', 1) \<Longrightarrow>
   m' = m \<and> (\<forall>k<n. user_page pml m (push_bit 12 (page + of_nat k)))"
proof (induction n arbitrary: page m)
  case (Suc n)
  then obtain m1 where v: "validate_page pml False page m = Some (m1, True)"
    and r: "validate_pages pml False (page + 1) n m1 = Some (m', 1)"
    by (auto elim!: bind_SomeE split: if_splits)
  have m1: "m1 = m" "user_page pml m (push_bit 12 page)" using validate_page_read [OF v] by auto
  have "m' = m" "\<forall>k<n. user_page pml m (push_bit 12 (page + 1 + of_nat k))" using Suc.IH [OF r] m1 by auto
  moreover have "user_page pml m (push_bit 12 (page + of_nat k))" if "k < Suc n" for k
    using that m1 calculation(2) by (cases k) (auto simp: add.assoc)
  ultimately show ?case by blast
qed simp

text \<open>
  C22. A range that \<open>mmu_validate_user\<close> accepts for reading is the user's: as long as the range
  does not run over the top of the address space, every byte of it lies on a page that the
  given directory maps, present and accessible to user code; the check changes nothing.
\<close>

theorem mmu_validate_user_sound:
  assumes "mmu_validate_user pml addr sz null False m = Some (m', 1)"
    and "unat addr + unat sz \<le> 18446744073709551616" and "in_range a addr (unat sz)"
  shows "m' = m \<and> user_page pml m a"
proof -
  let ?stop = "addr + (sz - 1)" and ?b = "drop_bit 12 addr"
  have sz: "sz \<noteq> 0" using assms(3) by (auto simp: in_range_def)
  have en: "unat ?stop = unat addr + unat sz - 1"
  proof -
    have "unat (sz - 1) = unat sz - 1" "0 < unat sz" using sz by (simp_all add: unat_minus_one unat_gt_0)
    then show ?thesis using assms(2) by (simp add: unat_word_ariths)
  qed
  have a: "unat addr \<le> unat a" "unat a \<le> unat ?stop"
    using assms(3) in_range_iff [OF assms(2)] sz by (auto simp: en)
  have "validate_pages pml False ?b (unat (drop_bit 12 ?stop) + 1 - unat ?b) m = Some (m', 1)"
    using assms(1) sz by (auto simp: mmu_validate_user_def Let_def split: if_splits)
  from validate_pages_read [OF this] have m': "m' = m"
    and all: "\<And>k. k < unat (drop_bit 12 ?stop) + 1 - unat ?b \<Longrightarrow> user_page pml m (push_bit 12 (?b + of_nat k))"
    by auto
  let ?k = "unat (drop_bit 12 a) - unat ?b"
  have le: "unat ?b \<le> unat (drop_bit 12 a)" "unat (drop_bit 12 a) \<le> unat (drop_bit 12 ?stop)"
    using a unfolding unat_drop_bit by (auto intro: div_le_mono)
  then have "?b + of_nat ?k = drop_bit 12 a"
    by (simp add: of_nat_diff del: unat_frame)
  moreover have "?k < unat (drop_bit 12 ?stop) + 1 - unat ?b" using le by (simp del: unat_frame)
  ultimately have "user_page pml m (push_bit 12 (drop_bit 12 a))" using all by metis
  then show ?thesis using m' lookup_page_base [of pml a m] by (simp add: user_page_def Let_def)
qed

section \<open>Examples\<close>

text \<open>
  Five frames in use: frame 0 the page directory, 1 and 2 two page tables, 3 the user page that
  entry 0 of table 1 maps with the given access bits.
\<close>

definition paged_mmu :: "u8 \<Rightarrow> pagemap_entry \<Rightarrow> mmu" where
  "paged_mmu c e = store_entry (entry_at 1 0) e
     (example_mmu\<lparr>frames := [0x1F, 0], current_pml := frame_ptr 0, mem_refcounts := replicate 64 c\<rparr>)"

lemma paged_mmu_ok [simp]:
  "nframes (paged_mmu c e) = 64" "fr_ok (paged_mmu c e)" "low_ok (paged_mmu c e)" "rc_ok (paged_mmu c e)"
  "whole_words (paged_mmu c e) = 64" "current_pml (paged_mmu c e) = frame_ptr 0"
  "load_entry (entry_at 1 0) (paged_mmu c e) = e" "load_entry (entry_at (Suc 0) 0) (paged_mmu c e) = e"
  by (simp_all add: paged_mmu_def example_mmu_def nframes_def fr_ok_def low_ok_def rc_ok_def whole_words_def)

lemma paged_mmu_used [simp]: "used (paged_mmu c e) = {..<5}"
proof (rule set_eqI)
  fix f
  have m: "(0x1F :: u32) = mask 5" by (simp add: mask_eq_exp_minus_1)
  show "f \<in> used (paged_mmu c e) \<longleftrightarrow> f \<in> {..<5}"
    by (cases "f < 32") (auto simp: paged_mmu_def example_mmu_def used_def m bit_mask_iff nth_Cons' div_eq_0_iff
        simp del: mask_numeral)
qed

lemma paged_mmu_refs [simp]: "f < 64 \<Longrightarrow> refs (paged_mmu c e) f = unat c"
  by (simp add: paged_mmu_def refs_def)

lemma paged_mmu_free: "\<exists>f < whole_words (paged_mmu c e). f \<notin> used (paged_mmu c e)"
  by (rule exI [of _ 5]) simp

lemma entry_3007: "e_page 0x3007 = 3" "e_page 0x3005 = 3" "e_writable 0x3007" "\<not> e_writable 0x3005"
  by (simp_all add: e_page_def e_writable_def drop_bit_eq_div take_bit_eq_mod)

lemma fork_write_isolated_witness:
  "\<exists>m1 m2 m3 g. copy_page (frame_ptr 1) (frame_ptr 2) 0 (paged_mmu 0 0x3007) = Some (m1, 0)
    \<and> cow_entry (entry_at 2 0) m1 = Some (m2, 0) \<and> cow_entry (entry_at 1 0) m2 = Some (m3, 0)
    \<and> 5 \<le> g \<and> used m3 = insert g {..<5} \<and> refs m3 3 = 0"
  using fork_write_isolated [of "paged_mmu 0 0x3007" 1 0 "0x3007" 3 2] paged_mmu_free [of 0 "0x3007"]
  by (simp add: entry_3007) (metis not_less)

lemma shared_page_released_once_witness:
  "\<exists>m1 m2. for_each [2] (share_with 1 0) (paged_mmu 0 0x3007) = Some m1
    \<and> for_each [2] (\<lambda>t. free_page (frame_ptr t) 0) m1 = Some m2 \<and> 3 \<in> used m2"
  using shared_page_released_once [of "paged_mmu 0 0x3007" 0 1 "0x3007" 3 "[2]" "[2]" "[1]"]
  by (auto simp: entry_3007 insert_commute)

lemma copy_page_saturated_witness:
  "\<exists>m' g. copy_page (frame_ptr 1) (frame_ptr 2) 0 (paged_mmu 255 0x3005) = Some (m', 0)
     \<and> unat (e_page (load_entry (entry (frame_ptr 2) 0) m')) = g \<and> g \<notin> used m'"
  using copy_page_saturated [OF paged_mmu_ok(2-4) paged_mmu_free, of "frame_ptr 1" 0 255 "0x3005" "0x3005" "frame_ptr 2"]
  by (auto simp: entry_3007 entry_at_def [symmetric])

lemma mmu_lookup_frame_makes_witness:
  "\<exists>m' g new. mmu_lookup_frame 0x400000 True (paged_mmu 0 0x3007) = Some (m', entry_at g 0) \<and> length new = 3
    \<and> path_tables 0x400000 0 m' = new \<and> last new = g \<and> set new \<inter> {..<5} = {} \<and> used m' = {..<5} \<union> set new
    \<and> mmu_lookup_frame_from (frame_ptr 0) 0x400000 m' = entry_at g 0"
proof -
  let ?m = "paged_mmu 0 0x3007"
  have i: "pt_index 0x400000 = 0" by (simp add: pt_index_def drop_bit_eq_div)
  have "spare ?m = {5..<64}" by (auto simp: spare_def)
  then have "3 \<le> card (spare ?m)" by simp
  moreover have z: "load_entry (entry_at 0 j) ?m = 0" if "j < 512" for j
    using that entries_apart [of 0 1 j 0] unfolding paged_mmu_def
    by (simp add: load_store_apart) (simp add: load_entry_def example_mmu_def kload_zero)
  then have "walk_ok 0x400000 0 ?m" by (simp add: walk_ok_def Let_def)
  moreover have "path_tables 0x400000 0 ?m = []" using z by (simp add: path_tables_def Let_def)
  ultimately show ?thesis
    using mmu_lookup_frame_makes [OF paged_mmu_ok(2,3), of 0 "0x3007" "0x400000" 0] by (simp add: i) blast
qed

text \<open>A full path: directory in frame 0, tables in frames 1 to 3, address 0 on frame 4.\<close>

definition walk_mmu :: mmu where
  "walk_mmu = store_entry (entry_at 0 0) 0x1007 (store_entry (entry_at 1 0) 0x2007
     (store_entry (entry_at 2 0) 0x3007 (store_entry (entry_at 3 0) 0x4007 example_mmu)))"

lemma walk_mmu_loads:
  "load_entry (entry_at 0 0) walk_mmu = 0x1007" "load_entry (entry_at 1 0) walk_mmu = 0x2007"
  "load_entry (entry_at 2 0) walk_mmu = 0x3007" "load_entry (entry_at 3 0) walk_mmu = 0x4007"
  by (simp_all add: walk_mmu_def load_store_apart entries_apart)

lemma walk_mmu_lookup: "mmu_lookup_frame_from (frame_ptr 0) 0 walk_mmu = entry_at 3 0"
proof -
  have "e_present 0x1007" "e_present 0x2007" "e_present 0x3007" "\<not> e_size 0x2007" "\<not> e_size 0x3007"
    by (simp_all add: e_present_def e_size_def)
  moreover have "e_page 0x1007 = 1" "e_page 0x2007 = 2" "e_page 0x3007 = 3"
    by (simp_all add: e_page_def drop_bit_eq_div take_bit_eq_mod)
  moreover from this have "table_of 0x1007 = frame_ptr 1" "table_of 0x2007 = frame_ptr 2" "table_of 0x3007 = frame_ptr 3"
    by (simp_all add: table_of_frame)
  moreover have "pml4_index 0 = 0" "pdp_index 0 = 0" "pd_index 0 = 0" "pt_index 0 = 0"
    by (simp_all add: pml4_index_def pdp_index_def pd_index_def pt_index_def)
  ultimately show ?thesis
    using walk_mmu_loads by (simp add: mmu_lookup_frame_from_def entry_at_def [symmetric] Let_def)
qed

lemma mmu_validate_user_sound_witness:
  "mmu_validate_user (frame_ptr 0) 0 1 True False walk_mmu = Some (walk_mmu, 1) \<and> user_page (frame_ptr 0) walk_mmu 0"
proof -
  have "entry_at 3 0 \<noteq> 0"
  proof
    assume "entry_at 3 0 = 0"
    then have "unat (frame_ptr 3) = 0" by (simp add: entry_at_def entry_def)
    then show False by (simp add: unat_frame_ptr)
  qed
  then have v: "mmu_validate_user (frame_ptr 0) 0 1 True False walk_mmu = Some (walk_mmu, 1)"
    by (simp add: mmu_validate_user_def validate_page_def walk_mmu_lookup walk_mmu_loads e_present_def e_user_def)
  from mmu_validate_user_sound [OF v, of 0] v show ?thesis by (simp add: in_range_def)
qed

end
