(* ===== verification/Fs_Node.thy ===== *)
theory Fs_Node
  imports Prelude "HOL-Library.Char_ord"
begin

unbundle bit_operations_syntax

text \<open>
  The file node of \<open>kernel/sys/fs/vfs.h\<close>. The kernel hands nodes around as copies (every open,
  lookup and \<open>dup2\<close> allocates its own), so a node is a record value; the object behind its
  \<open>device\<close> pointer is shared and lives in the state of the driver that made it. A function
  pointer is the name of the driver function, \<open>None\<close> the null pointer. Names are the text of
  the C string.

  The field \<open>ptr\<close> is never assigned in the kernel. It is null in every node that its maker
  cleared with \<open>memset\<close>; \<open>n_zeroed\<close> is false for the nodes of \<open>ramdiskfs.c\<close>, which leave it,
  and the pointers that file does not set, with whatever \<open>malloc\<close> returned.
\<close>

datatype device =
  No_device
  | Dev_tmpfs nat       \<comment> \<open>a \<open>struct tmpfs_file\<close> or \<open>struct tmpfs_dir\<close>\<close>
  | Dev_pty nat         \<comment> \<open>a \<open>pty_t\<close>\<close>
  | Dev_ramdisk bool    \<comment> \<open>the root node of the image; true in the root node itself\<close>

datatype read_fn = Read_tmpfs | Read_null | Read_zero | Read_pty_master | Read_pty_slave | Read_ramdiskfs
datatype write_fn = Write_tmpfs | Write_null | Write_zero | Write_pty_master | Write_pty_slave
datatype open_fn = Open_tmpfs | Open_null | Open_zero | Open_pty_master | Open_pty_slave
datatype close_fn = Close_null | Close_zero | Close_pty_slave
datatype readdir_fn = Readdir_tmpfs | Readdir_pty | Readdir_ramdiskfs
datatype finddir_fn = Finddir_tmpfs | Finddir_pty | Finddir_ramdiskfs
datatype readlink_fn = Readlink_tmpfs | Readlink_dev_tty

text \<open>Only one driver implements each of the remaining operations: a flag says if the pointer is set.\<close>

record fs_node =
  n_name :: string
  n_device :: device
  n_mask :: u32
  n_uid :: u32
  n_gid :: u32
  n_flags :: u32
  n_inode :: u32
  n_length :: u32
  n_context :: u64
  n_read :: "read_fn option"
  n_write :: "write_fn option"
  n_open :: "open_fn option"
  n_ioctl_pty :: bool
  n_close :: "close_fn option"
  n_truncate_tmpfs :: bool
  n_create_tmpfs :: bool
  n_mkdir_tmpfs :: bool
  n_symlink_tmpfs :: bool
  n_unlink_tmpfs :: bool
  n_readlink :: "readlink_fn option"
  n_chmod_tmpfs :: bool
  n_chown_tmpfs :: bool
  n_readdir :: "readdir_fn option"
  n_finddir :: "finddir_fn option"
  n_nlink :: u32
  n_user_offset :: nat
  n_user_mode :: u32
  n_zeroed :: bool

text \<open>\<open>memset(fnode, 0, sizeof(fs_node_t))\<close>.\<close>

definition fs_node_zero :: fs_node where
  "fs_node_zero = \<lparr>n_name = '''', n_device = No_device, n_mask = 0, n_uid = 0, n_gid = 0, n_flags = 0,
     n_inode = 0, n_length = 0, n_context = 0, n_read = None, n_write = None, n_open = None,
     n_ioctl_pty = False, n_close = None, n_truncate_tmpfs = False, n_create_tmpfs = False,
     n_mkdir_tmpfs = False, n_symlink_tmpfs = False, n_unlink_tmpfs = False, n_readlink = None,
     n_chmod_tmpfs = False, n_chown_tmpfs = False, n_readdir = None, n_finddir = None, n_nlink = 0,
     n_user_offset = 0, n_user_mode = 0, n_zeroed = True\<rparr>"

abbreviation (input) FS_FILE :: u32 where "FS_FILE \<equiv> 0x01"
abbreviation (input) FS_DIRECTORY :: u32 where "FS_DIRECTORY \<equiv> 0x02"
abbreviation (input) FS_CHARDEVICE :: u32 where "FS_CHARDEVICE \<equiv> 0x04"
abbreviation (input) FS_BLOCKDEVICE :: u32 where "FS_BLOCKDEVICE \<equiv> 0x08"
abbreviation (input) FS_PIPE :: u32 where "FS_PIPE \<equiv> 0x10"
abbreviation (input) FS_SYMLINK :: u32 where "FS_SYMLINK \<equiv> 0x20"

text \<open>A directory entry of \<open>dirent.h\<close>.\<close>

record dirent =
  d_ino :: u32
  d_name :: string

text \<open>
  What a driver needs to know of \<open>current_process\<close>: its identity, its mask and its open files.
\<close>

record cred =
  c_uid :: u32
  c_gid :: u32
  c_fds :: "fs_node option option list"  \<comment> \<open>the slots below \<open>fd_length\<close>; outer \<open>None\<close> is an uninitialised slot\<close>

text \<open>The status a driver returns is an \<open>int\<close>; a byte count is a \<open>size_t\<close>.\<close>

definition check_permission :: "cred \<Rightarrow> fs_node \<Rightarrow> u32 \<Rightarrow> bool" where
  "check_permission c node perm =
     (if c_uid c = 0 \<and> perm \<noteq> 1 then True
      else let permissions = n_mask node AND 7;
               group = drop_bit 3 (n_mask node) AND 7;
               user = drop_bit 6 (n_mask node) AND 7;
               permissions = (if c_uid c = n_uid node then permissions OR user else permissions);
               permissions = (if c_gid c = n_gid node then permissions OR group else permissions)
           in perm AND permissions \<noteq> 0)"

text \<open>
  The permission test: root passes everything but a pure execute test; anybody else is
  granted a permission bit exactly when the mode grants it to others, or to the owner and the
  process has the file's user, or to the group and the process has the file's group. In
  particular ownership never takes away what the mode grants to others.
\<close>

lemma check_permission_bit:
  assumes "k < 3"
  shows "check_permission c node (2 ^ k) \<longleftrightarrow>
    c_uid c = 0 \<and> k \<noteq> 0 \<or> bit (n_mask node) k
    \<or> c_uid c = n_uid node \<and> bit (n_mask node) (k + 6) \<or> c_gid c = n_gid node \<and> bit (n_mask node) (k + 3)"
proof -
  have seven: "(7 :: u32) = mask 3" by (simp add: mask_eq_exp_minus_1)
  have one: "2 ^ k \<noteq> (1 :: u32) \<longleftrightarrow> k \<noteq> 0" using assms by (auto simp: less_Suc_eq numeral_3_eq_3)
  have t: "2 ^ k AND x \<noteq> 0 \<longleftrightarrow> bit x k" for x :: u32
  proof -
    have "2 ^ k AND x = (if bit x k then push_bit k 1 else 0)"
      by (rule bit_eqI) (auto simp: bit_simps)
    moreover have "push_bit k 1 \<noteq> (0 :: u32)" using assms by (auto simp: less_Suc_eq numeral_3_eq_3)
    ultimately show ?thesis by simp
  qed
  show ?thesis
    using assms unfolding check_permission_def Let_def one t seven
    by (auto simp: bit_or_iff bit_and_iff bit_mask_iff bit_drop_bit_eq add.commute)
qed

lemma check_permission_bit_witness:
  "check_permission \<lparr>c_uid = 5, c_gid = 7, c_fds = []\<rparr> (fs_node_zero\<lparr>n_mask := 32, n_gid := 7\<rparr>) (2 ^ 2)"
proof -
  have "bit (32 :: u32) 5" by (simp add: bit_iff_odd)
  then show ?thesis
    using check_permission_bit [of 2 "\<lparr>c_uid = 5, c_gid = 7, c_fds = []\<rparr>" "fs_node_zero\<lparr>n_mask := 32, n_gid := 7\<rparr>"]
    by (simp add: fs_node_zero_def)
qed

end
