(* ===== verification/Tmpfs.thy ===== *)
theory Tmpfs
  imports Paging Fs_Node
begin

text \<open>
  The in-memory file system of \<open>kernel/sys/fs/tmpfs.c\<close>. Files, links and directories are
  objects of a map, named by their address; the blocks of a file are frame numbers, their
  contents live in kernel memory behind the direct map, and \<open>block_count\<close> is the length of the
  block list. The memory of the objects themselves (and of the growing arrays inside them) is
  not taken from the modelled frames: the frame allocator of the model gives and takes the blocks of
  files only, and what \<open>malloc\<close>, \<open>realloc\<close>, \<open>strdup\<close> and \<open>free\<close> take and give for objects, names, entries and
  block arrays is left out (\<open>Alloc\<close> models the heap itself). Names and link targets are the text of their C strings.
  Using an object that \<open>unlink\<close> has freed is \<open>None\<close>.
\<close>

section \<open>State\<close>

datatype tmpfs_type = TMPFS_TYPE_FILE | TMPFS_TYPE_LINK

record tmpfs_file =
  f_name :: string
  f_type :: tmpfs_type
  f_mask :: u32
  f_uid :: u32
  f_gid :: u32
  f_length :: nat
  f_pointers :: nat
  f_blocks :: "u64 list"
  f_target :: "string option"

record tmpfs_dir =
  dr_name :: string
  dr_mask :: u32
  dr_uid :: u32
  dr_gid :: u32
  dr_files :: "nat list"
  dr_capacity :: nat
  dr_parent :: "nat option"

datatype tmpfs_obj = File tmpfs_file | Dir tmpfs_dir

record tmpfs =
  t_mmu :: mmu
  t_objs :: "nat \<Rightarrow> tmpfs_obj option"
  t_next :: nat
  t_root :: nat
  t_total_blocks :: int

definition get_file :: "nat \<Rightarrow> tmpfs \<Rightarrow> tmpfs_file option" where
  "get_file i t = (case t_objs t i of Some (File f) \<Rightarrow> Some f | _ \<Rightarrow> None)"

definition get_dir :: "nat \<Rightarrow> tmpfs \<Rightarrow> tmpfs_dir option" where
  "get_dir i t = (case t_objs t i of Some (Dir d) \<Rightarrow> Some d | _ \<Rightarrow> None)"

definition put_obj :: "nat \<Rightarrow> tmpfs_obj \<Rightarrow> tmpfs \<Rightarrow> tmpfs" where
  "put_obj i x t = t\<lparr>t_objs := (t_objs t)(i \<mapsto> x)\<rparr>"

definition new_obj :: "tmpfs_obj \<Rightarrow> tmpfs \<Rightarrow> tmpfs \<times> nat" where
  "new_obj x t = ((put_obj (t_next t) x t)\<lparr>t_next := Suc (t_next t)\<rparr>, t_next t)"

definition obj_name :: "tmpfs_obj \<Rightarrow> string" where
  "obj_name x = (case x of File f \<Rightarrow> f_name f | Dir d \<Rightarrow> dr_name d)"

definition device_id :: "fs_node \<Rightarrow> nat option" where
  "device_id node = (case n_device node of Dev_tmpfs i \<Rightarrow> Some i | _ \<Rightarrow> None)"

section \<open>Blocks\<close>

definition tmpfs_new_file :: "string \<Rightarrow> tmpfs_file" where
  "tmpfs_new_file name = \<lparr>f_name = name, f_type = TMPFS_TYPE_FILE, f_mask = 0, f_uid = 0, f_gid = 0,
     f_length = 0, f_pointers = 2, f_blocks = [], f_target = None\<rparr>"

definition tmpfs_new_dir :: "string \<Rightarrow> nat option \<Rightarrow> tmpfs_dir" where
  "tmpfs_new_dir name parent = \<lparr>dr_name = name, dr_mask = 0, dr_uid = 0, dr_gid = 0, dr_files = [],
     dr_capacity = 8, dr_parent = parent\<rparr>"

definition release_blocks :: "u64 list \<Rightarrow> tmpfs \<Rightarrow> tmpfs option" where
  "release_blocks bs = for_each bs (\<lambda>b t. do {
     m \<leftarrow> mmu_release_frame (b * 0x1000) (t_mmu t);
     Some (t\<lparr>t_mmu := m, t_total_blocks := t_total_blocks t - 1\<rparr>) })"

definition tmpfs_free_file :: "tmpfs_file \<Rightarrow> tmpfs \<Rightarrow> tmpfs option" where
  "tmpfs_free_file f t = release_blocks (f_blocks f) t"

text \<open>
  The doubling loop of \<open>tmpfs_file_getset_block\<close>; from capacity 0 it would never end. The
  second loop appends one frame per missing block.
\<close>

function embiggen :: "nat \<Rightarrow> nat \<Rightarrow> nat option" where
  "embiggen blockid p = (if blockid < p then Some p else if p = 0 then None else embiggen blockid (2 * p))"
  by pat_completeness auto
termination by (relation "measure (\<lambda>(b, p). Suc b - p)") auto

declare embiggen.simps [simp del]

fun grow_blocks :: "nat \<Rightarrow> u64 list \<Rightarrow> tmpfs \<Rightarrow> (tmpfs \<times> u64 list) option" where
  "grow_blocks 0 bs t = Some (t, bs)"
| "grow_blocks (Suc n) bs t = do {
     (m, index) \<leftarrow> mmu_allocate_frame (t_mmu t);
     grow_blocks n (bs @ [index]) (t\<lparr>t_mmu := m, t_total_blocks := t_total_blocks t + 1\<rparr>) }"

definition block_ptr :: "u64 \<Rightarrow> u64" where
  "block_ptr b = mmu_from_physical (push_bit 12 b)"

definition tmpfs_get_block :: "tmpfs_file \<Rightarrow> nat \<Rightarrow> u64 option" where
  "tmpfs_get_block f blockid = map_option block_ptr (mem_load (f_blocks f) blockid)"

definition tmpfs_set_block :: "tmpfs_file \<Rightarrow> nat \<Rightarrow> tmpfs \<Rightarrow> (tmpfs \<times> tmpfs_file \<times> u64) option" where
  "tmpfs_set_block f blockid t = do {
     p \<leftarrow> embiggen blockid (f_pointers f);
     (t, bs) \<leftarrow> grow_blocks (Suc blockid - length (f_blocks f)) (f_blocks f) t;
     let f = f\<lparr>f_pointers := p, f_blocks := bs\<rparr>;
     a \<leftarrow> tmpfs_get_block f blockid;
     Some (t, f, a) }"

section \<open>Reading and writing\<close>

text \<open>
  \<open>read_tmpfs\<close> fills the caller's buffer. A missing block is a null pointer that the copy
  dereferences; a count or an offset that wrapped below zero leaves the buffer.
\<close>

definition read_range :: "bytes_at \<Rightarrow> tmpfs_file \<Rightarrow> nat \<Rightarrow> nat \<Rightarrow> u8 list \<Rightarrow> (u8 list \<times> nat) option" where
  "read_range km f offset end buffer = (let
     start_block = offset div 4096;
     end_block = end div 4096;
     end_size = end mod 4096;
     size_to_read = sub64 end offset
     in if start_block = end_block \<and> offset = end then Some (buffer, 0)
     else if start_block = end_block then do {
       buf \<leftarrow> tmpfs_get_block f start_block;
       _ \<leftarrow> mem_read buffer 0 size_to_read;
       buffer \<leftarrow> mem_write buffer 0 (kread km (buf + of_nat (offset mod 4096)) size_to_read);
       Some (buffer, size_to_read) }
     else do {
       buffer \<leftarrow> for_each [start_block..<end_block] (\<lambda>b buffer. do {
         buf \<leftarrow> tmpfs_get_block f b;
         (if b = start_block
          then mem_write buffer 0 (kread km (buf + of_nat (offset mod 4096)) (4096 - offset mod 4096))
          else mem_write buffer (4096 * (b - start_block) - offset mod 4096) (kread km buf 4096)) }) buffer;
       buffer \<leftarrow> (if end_size = 0 then Some buffer
         else do {
           buf \<leftarrow> tmpfs_get_block f end_block;
           mem_write buffer (sub64 (4096 * (end_block - start_block)) (offset mod 4096)) (kread km buf end_size) });
       Some (buffer, size_to_read) })"

definition read_tmpfs :: "fs_node \<Rightarrow> nat \<Rightarrow> nat \<Rightarrow> u8 list \<Rightarrow> tmpfs \<Rightarrow> (u8 list \<times> nat) option" where
  "read_tmpfs node offset sz buffer t = do {
     i \<leftarrow> device_id node;
     f \<leftarrow> get_file i t;
     read_range (kmem (t_mmu t)) f offset
       (if add64 offset sz > f_length f then f_length f else add64 offset sz) buffer }"

text \<open>Copying a piece of the caller's buffer into one block.\<close>

definition write_block :: "nat \<Rightarrow> nat \<Rightarrow> u8 list \<Rightarrow> tmpfs \<times> tmpfs_file \<Rightarrow> (tmpfs \<times> tmpfs_file) option" where
  "write_block b off bytes = (\<lambda>(t, f). do {
     (t, f, buf) \<leftarrow> tmpfs_set_block f b t;
     Some (t\<lparr>t_mmu := (t_mmu t)\<lparr>kmem := kwrite (kmem (t_mmu t)) (buf + of_nat off) bytes\<rparr>\<rparr>, f) })"

definition write_range :: "nat \<Rightarrow> nat \<Rightarrow> u8 list \<Rightarrow> tmpfs \<times> tmpfs_file \<Rightarrow> (tmpfs \<times> tmpfs_file) option" where
  "write_range offset end buffer tf = (let
     start_block = offset div 4096;
     end_block = end div 4096;
     end_size = end mod 4096;
     size_to_read = sub64 end offset
     in if start_block = end_block then do {
         bytes \<leftarrow> mem_read buffer 0 size_to_read;
         write_block start_block (offset mod 4096) bytes tf }
       else do {
         tf \<leftarrow> for_each [start_block..<end_block] (\<lambda>b tf.
           (if b = start_block then do {
              bytes \<leftarrow> mem_read buffer 0 (4096 - offset mod 4096);
              write_block b (offset mod 4096) bytes tf }
            else do {
              bytes \<leftarrow> mem_read buffer (4096 * (b - start_block) - offset mod 4096) 4096;
              write_block b 0 bytes tf })) tf;
         (if end_size = 0 then Some tf
          else do {
            bytes \<leftarrow> mem_read buffer (sub64 (4096 * (end_block - start_block)) (offset mod 4096)) end_size;
            write_block end_block 0 bytes tf }) })"

definition write_tmpfs :: "fs_node \<Rightarrow> nat \<Rightarrow> nat \<Rightarrow> u8 list \<Rightarrow> tmpfs \<Rightarrow> (tmpfs \<times> nat) option" where
  "write_tmpfs node offset sz buffer t = do {
     i \<leftarrow> device_id node;
     f \<leftarrow> get_file i t;
     let f = (if add64 offset sz > f_length f then f\<lparr>f_length := add64 offset sz\<rparr> else f);
     let end = add64 offset sz;
     (t, f) \<leftarrow> write_range offset end buffer (t, f);
     Some (put_obj i (File f) t, sub64 end offset) }"

definition truncate_tmpfs :: "fs_node \<Rightarrow> tmpfs \<Rightarrow> (tmpfs \<times> int) option" where
  "truncate_tmpfs node t = do {
     i \<leftarrow> device_id node;
     f \<leftarrow> get_file i t;
     t \<leftarrow> release_blocks (f_blocks f) t;
     Some (put_obj i (File (f\<lparr>f_blocks := [], f_length := 0\<rparr>)) t, 0) }"

section \<open>Metadata\<close>

text \<open>
  \<open>chmod_tmpfs\<close> and \<open>chown_tmpfs\<close> treat every device as a file; files and directories share
  the layout of their first fields.
\<close>

definition chmod_tmpfs :: "fs_node \<Rightarrow> u32 \<Rightarrow> tmpfs \<Rightarrow> (tmpfs \<times> int) option" where
  "chmod_tmpfs node mode t = do {
     i \<leftarrow> device_id node;
     x \<leftarrow> t_objs t i;
     Some (put_obj i (case x of File f \<Rightarrow> File (f\<lparr>f_mask := mode\<rparr>) | Dir d \<Rightarrow> Dir (d\<lparr>dr_mask := mode\<rparr>)) t, 0) }"

definition chown_tmpfs :: "fs_node \<Rightarrow> u32 \<Rightarrow> u32 \<Rightarrow> tmpfs \<Rightarrow> (tmpfs \<times> int) option" where
  "chown_tmpfs node uid gid t = do {
     i \<leftarrow> device_id node;
     x \<leftarrow> t_objs t i;
     let x = (if uid \<noteq> - 1 then (case x of File f \<Rightarrow> File (f\<lparr>f_uid := uid\<rparr>) | Dir d \<Rightarrow> Dir (d\<lparr>dr_uid := uid\<rparr>)) else x);
     let x = (if gid \<noteq> - 1 then (case x of File f \<Rightarrow> File (f\<lparr>f_gid := gid\<rparr>) | Dir d \<Rightarrow> Dir (d\<lparr>dr_gid := gid\<rparr>)) else x);
     Some (put_obj i x t, 0) }"

section \<open>Nodes\<close>

definition tmpfs_from_file :: "nat \<Rightarrow> tmpfs_file \<Rightarrow> fs_node" where
  "tmpfs_from_file i f = fs_node_zero\<lparr>n_inode := 0, n_name := f_name f, n_device := Dev_tmpfs i,
     n_mask := f_mask f, n_uid := f_uid f, n_gid := f_gid f, n_flags := FS_FILE,
     n_read := Some Read_tmpfs, n_write := Some Write_tmpfs, n_open := Some Open_tmpfs, n_close := None,
     n_readdir := None, n_finddir := None, n_chmod_tmpfs := True, n_chown_tmpfs := True,
     n_length := of_nat (f_length f), n_truncate_tmpfs := True, n_nlink := 1\<rparr>"

definition tmpfs_from_link :: "nat \<Rightarrow> tmpfs_file \<Rightarrow> fs_node" where
  "tmpfs_from_link i f = (tmpfs_from_file i f)\<lparr>n_flags := FS_FILE OR FS_SYMLINK, n_readlink := Some Readlink_tmpfs,
     n_read := None, n_write := None, n_create_tmpfs := False, n_mkdir_tmpfs := False,
     n_readdir := None, n_finddir := None\<rparr>"

definition tmpfs_from_dir :: "nat \<Rightarrow> tmpfs_dir \<Rightarrow> fs_node" where
  "tmpfs_from_dir i d = fs_node_zero\<lparr>n_inode := 0, n_name := dr_name d, n_mask := dr_mask d, n_uid := dr_uid d,
     n_gid := dr_gid d, n_device := Dev_tmpfs i, n_flags := FS_DIRECTORY,
     n_read := None, n_write := None, n_open := None, n_close := None,
     n_readdir := Some Readdir_tmpfs, n_finddir := Some Finddir_tmpfs, n_create_tmpfs := True,
     n_unlink_tmpfs := True, n_mkdir_tmpfs := True, n_symlink_tmpfs := True,
     n_chown_tmpfs := True, n_chmod_tmpfs := True, n_nlink := 1\<rparr>"

definition tmpfs_create :: "string \<Rightarrow> tmpfs \<Rightarrow> tmpfs \<times> fs_node" where
  "tmpfs_create name t =
     (let d = (tmpfs_new_dir name None)\<lparr>dr_mask := 0x1FF, dr_uid := 0, dr_gid := 0\<rparr>;
          (t, i) = new_obj (Dir d) t in
      (t\<lparr>t_root := i\<rparr>, tmpfs_from_dir i d))"

section \<open>Directories\<close>

text \<open>The scan over \<open>d->files\<close> for a name: the first object of that name.\<close>

fun scan_dir :: "string \<Rightarrow> nat list \<Rightarrow> tmpfs \<Rightarrow> nat option option" where
  "scan_dir name [] t = Some None"
| "scan_dir name (i # is) t = do {
     x \<leftarrow> t_objs t i;
     (if name = obj_name x then Some (Some i) else scan_dir name is t) }"

definition finddir_tmpfs :: "fs_node \<Rightarrow> string \<Rightarrow> tmpfs \<Rightarrow> fs_node option option" where
  "finddir_tmpfs node name t = do {
     di \<leftarrow> device_id node;
     d \<leftarrow> get_dir di t;
     found \<leftarrow> scan_dir name (dr_files d) t;
     (case found of None \<Rightarrow> Some None
      | Some i \<Rightarrow> do {
          x \<leftarrow> t_objs t i;
          Some (Some (case x of
              File f \<Rightarrow> (if f_type f = TMPFS_TYPE_LINK then tmpfs_from_link i f else tmpfs_from_file i f)
            | Dir d \<Rightarrow> tmpfs_from_dir i d)) }) }"

definition readdir_tmpfs :: "fs_node \<Rightarrow> nat \<Rightarrow> tmpfs \<Rightarrow> dirent option option" where
  "readdir_tmpfs node index t = do {
     di \<leftarrow> device_id node;
     d \<leftarrow> get_dir di t;
     if di \<noteq> t_root t \<and> index = 0 then Some (Some \<lparr>d_ino = 0, d_name = ''.''\<rparr>)
     else if di \<noteq> t_root t \<and> index = 1 then Some (Some \<lparr>d_ino = 0, d_name = ''..''\<rparr>)
     else do {
       let index = (if di \<noteq> t_root t then index - 2 else index);
       if index \<ge> length (dr_files d) then Some None
       else do {
         x \<leftarrow> t_objs t (dr_files d ! index);
         Some (Some \<lparr>d_ino = of_nat (dr_files d ! index), d_name = obj_name x\<rparr>) } } }"

text \<open>Appending to \<open>d->files\<close>, whose capacity grows by eight.\<close>

definition add_entry :: "nat \<Rightarrow> tmpfs_dir \<Rightarrow> tmpfs_dir" where
  "add_entry i d = d\<lparr>dr_capacity := (if length (dr_files d) \<ge> dr_capacity d then dr_capacity d + 8 else dr_capacity d),
     dr_files := dr_files d @ [i]\<rparr>"

definition create_tmpfs :: "cred \<Rightarrow> fs_node \<Rightarrow> string \<Rightarrow> u32 \<Rightarrow> tmpfs \<Rightarrow> (tmpfs \<times> int) option" where
  "create_tmpfs c parent name mode t = do {
     di \<leftarrow> device_id parent;
     d \<leftarrow> get_dir di t;
     found \<leftarrow> scan_dir name (dr_files d) t;
     if found \<noteq> None then Some (t, - EEXIST)
     else do {
       let f = (tmpfs_new_file name)\<lparr>f_mask := mode, f_uid := c_uid c, f_gid := c_gid c\<rparr>;
       let (t, i) = new_obj (File f) t;
       Some (put_obj di (Dir (add_entry i d)) t, 0) } }"

definition symlink_tmpfs :: "cred \<Rightarrow> fs_node \<Rightarrow> string \<Rightarrow> string \<Rightarrow> tmpfs \<Rightarrow> (tmpfs \<times> int) option" where
  "symlink_tmpfs c parent target name t = do {
     di \<leftarrow> device_id parent;
     d \<leftarrow> get_dir di t;
     found \<leftarrow> scan_dir name (dr_files d) t;
     if found \<noteq> None then Some (t, - EEXIST)
     else do {
       let f = (tmpfs_new_file name)\<lparr>f_type := TMPFS_TYPE_LINK, f_target := Some target,
                 f_length := length target, f_mask := 0x1FF, f_uid := c_uid c, f_gid := c_gid c\<rparr>;
       let (t, i) = new_obj (File f) t;
       Some (put_obj di (Dir (add_entry i d)) t, 0) } }"

definition mkdir_tmpfs :: "cred \<Rightarrow> fs_node \<Rightarrow> string \<Rightarrow> u32 \<Rightarrow> tmpfs \<Rightarrow> (tmpfs \<times> int) option" where
  "mkdir_tmpfs c parent name mode t =
     (if name = [] then Some (t, - EINVAL)
      else do {
        di \<leftarrow> device_id parent;
        d \<leftarrow> get_dir di t;
        found \<leftarrow> scan_dir name (dr_files d) t;
        if found \<noteq> None then Some (t, - EEXIST)
        else do {
          let out = (tmpfs_new_dir name (Some di))\<lparr>dr_mask := mode, dr_uid := c_uid c, dr_gid := c_gid c\<rparr>;
          let (t, i) = new_obj (Dir out) t;
          Some (put_obj di (Dir (add_entry i d)) t, 0) } })"

text \<open>
  \<open>unlink_tmpfs\<close>. The array \<open>files\<close> of a directory is allocated when the directory is made and
  never released, so the pointer test of the code is always true.
\<close>

definition unlink_tmpfs :: "fs_node \<Rightarrow> string \<Rightarrow> tmpfs \<Rightarrow> (tmpfs \<times> int) option" where
  "unlink_tmpfs node name t = do {
     di \<leftarrow> device_id node;
     d \<leftarrow> get_dir di t;
     found \<leftarrow> scan_dir name (dr_files d) t;
     (case found of None \<Rightarrow> Some (t, - ENOENT)
      | Some i \<Rightarrow> do {
          x \<leftarrow> t_objs t i;
          (case x of Dir _ \<Rightarrow> Some (t, - ENOTEMPTY)
           | File f \<Rightarrow> do {
               t \<leftarrow> tmpfs_free_file f t;
               let t = put_obj di (Dir (d\<lparr>dr_files := remove1 i (dr_files d)\<rparr>)) t;
               Some (t\<lparr>t_objs := (t_objs t)(i := None)\<rparr>, 0) }) }) }"

text \<open>\<open>readlink_tmpfs\<close> copies into the caller's buffer and counts the bytes; sizes are \<open>size_t\<close>.\<close>

definition readlink_tmpfs :: "fs_node \<Rightarrow> string \<Rightarrow> nat \<Rightarrow> tmpfs \<Rightarrow> (string \<times> nat) option" where
  "readlink_tmpfs node buf sz t = do {
     i \<leftarrow> device_id node;
     f \<leftarrow> get_file i t;
     if f_type f \<noteq> TMPFS_TYPE_LINK then Some (buf, 18446744073709551615)
     else do {
       target \<leftarrow> f_target f;
       if sz < length target + 1 then do {
         bytes \<leftarrow> mem_read (target @ [CHR 0x00]) 0 (sub64 sz 1);
         buf \<leftarrow> mem_write buf 0 bytes;
         buf \<leftarrow> mem_store buf (sub64 sz 1) (CHR 0x00);
         Some (buf, sub64 sz 2) }
       else do {
         buf \<leftarrow> mem_write buf 0 (target @ [CHR 0x00]);
         Some (buf, length target) } } }"

section \<open>The bytes of a file\<close>

definition byte_at :: "mmu \<Rightarrow> u64 list \<Rightarrow> nat \<Rightarrow> u8" where
  "byte_at m bs i = kmem m (frame_ptr (unat (bs ! (i div 4096))) + of_nat (i mod 4096))"

definition segment :: "mmu \<Rightarrow> u64 list \<Rightarrow> nat \<Rightarrow> nat \<Rightarrow> u8 list" where
  "segment m bs x y = map (byte_at m bs) [x..<y]"

text \<open>The abstract contents: what \<open>read\<close> has to deliver.\<close>

definition file_bytes :: "tmpfs \<Rightarrow> tmpfs_file \<Rightarrow> u8 list" where
  "file_bytes t f = segment (t_mmu t) (f_blocks f) 0 (f_length f)"

text \<open>Every block is a frame in use, no frame serves twice, and the blocks cover the length.\<close>

definition blocks_ok :: "mmu \<Rightarrow> u64 list \<Rightarrow> bool" where
  "blocks_ok m bs \<longleftrightarrow> distinct bs \<and> (\<forall>b \<in> set bs. unat b < nframes m \<and> unat b \<in> used m)"

definition file_ok :: "tmpfs \<Rightarrow> tmpfs_file \<Rightarrow> bool" where
  "file_ok t f \<longleftrightarrow> blocks_ok (t_mmu t) (f_blocks f) \<and> 0 < f_pointers f
     \<and> f_length f \<le> 4096 * length (f_blocks f) \<and> f_length f < 9223372036854775808"

lemma length_segment [simp]: "length (segment m bs x y) = y - x"
  by (simp add: segment_def)

lemma segment_append: "x \<le> y \<Longrightarrow> y \<le> z \<Longrightarrow> segment m bs x y @ segment m bs y z = segment m bs x z"
  using upt_add_eq_append [of x y "z - y"] by (simp add: segment_def)

lemma block_small: "fr_ok m \<Longrightarrow> blocks_ok m bs \<Longrightarrow> k < length bs \<Longrightarrow> unat (bs ! k) < 134217728"
  unfolding blocks_ok_def fr_ok_def using nth_mem [of k bs] by fastforce

lemma kread_block:
  assumes "k < length bs" and "unat (bs ! k) < 134217728" and "off + n \<le> 4096"
  shows "kread (kmem m) (block_ptr (bs ! k) + of_nat off) n = segment m bs (4096 * k + off) (4096 * k + off + n)"
proof (rule nth_equalityI)
  fix j
  assume "j < length (kread (kmem m) (block_ptr (bs ! k) + of_nat off) n)"
  then have j: "j < n" by simp
  have bp: "block_ptr (bs ! k) = frame_ptr (unat (bs ! k))"
    using mmu_from_physical_frame [OF assms(2)] by (simp add: block_ptr_def)
  have "(4096 * k + off + j) mod 4096 = off + j" "(4096 * k + off + j) div 4096 = k" if "n \<noteq> 0"
  proof -
    have "off + j < 4096" using j assms(3) by simp
    then show "(4096 * k + off + j) mod 4096 = off + j" "(4096 * k + off + j) div 4096 = k"
      by (simp_all add: add.assoc)
  qed
  then show "kread (kmem m) (block_ptr (bs ! k) + of_nat off) n ! j =
      segment m bs (4096 * k + off) (4096 * k + off + n) ! j"
    using j bp by (simp add: kread_def segment_def byte_at_def add.assoc)
qed simp

lemma write_at_end:
  "length ys = p \<Longrightarrow> p + length zs \<le> length ys + length rest \<Longrightarrow>
   mem_write (ys @ rest) p zs = Some (ys @ zs @ drop (length zs) rest)"
  by (simp add: mem_write_def)

lemma get_block: "blocks_ok m (f_blocks f) \<Longrightarrow> k < length (f_blocks f) \<Longrightarrow>
    tmpfs_get_block f k = Some (block_ptr (f_blocks f ! k))"
  by (simp add: tmpfs_get_block_def memobj)

lemma range_pos:
  fixes a k :: nat
  assumes "a div 4096 < k"
  shows "a \<le> 4096 * k" and "a mod 4096 \<le> 4096 * (k - a div 4096)"
    and "4096 * (k - a div 4096) - a mod 4096 = 4096 * k - a" and "4096 * (k - a div 4096) \<le> 4096 * k"
proof -
  obtain q r where qr: "a = 4096 * q + r" "r < 4096" "a div 4096 = q" "a mod 4096 = r"
    by (rule that [of "a div 4096" "a mod 4096"]) simp_all
  obtain d where d: "k = Suc (q + d)" using assms qr(3) less_iff_Suc_add by auto
  show "a \<le> 4096 * k" and "a mod 4096 \<le> 4096 * (k - a div 4096)"
    and "4096 * (k - a div 4096) - a mod 4096 = 4096 * k - a" and "4096 * (k - a div 4096) \<le> 4096 * k"
    unfolding qr(3,4) d using qr(1,2) by simp_all
qed

lemma read_loop:
  assumes ok: "fr_ok m" "blocks_ok m (f_blocks f)"
    and k: "offset div 4096 < k" "4096 * k \<le> 4096 * length (f_blocks f)"
    and room: "4096 * k - offset \<le> length buffer"
  shows "for_each [offset div 4096..<k] (\<lambda>b buffer. do {
         buf \<leftarrow> tmpfs_get_block f b;
         (if b = offset div 4096
          then mem_write buffer 0 (kread (kmem m) (buf + of_nat (offset mod 4096)) (4096 - offset mod 4096))
          else mem_write buffer (4096 * (b - offset div 4096) - offset mod 4096) (kread (kmem m) buf 4096)) }) buffer
     = Some (segment m (f_blocks f) offset (4096 * k) @ drop (4096 * k - offset) buffer)"
  (is "for_each _ ?body _ = _")
  using k room
proof (induction k)
  case (Suc k)
  let ?s = "offset div 4096" and ?bs = "f_blocks f"
  have split: "4096 * ?s + offset mod 4096 = offset" by (rule mult_div_mod_eq)
  have kl: "k < length ?bs" using Suc.prems by simp
  note small = block_small [OF ok kl]
  have gb: "tmpfs_get_block f k = Some (block_ptr (?bs ! k))" by (rule get_block [OF ok(2) kl])
  show ?case
  proof (cases "k = ?s")
    case True
    obtain q where q: "offset = 4096 * k + q" "q < 4096" "offset mod 4096 = q"
      using split True by (intro that [of "offset mod 4096"]) simp_all
    have "kread (kmem m) (block_ptr (?bs ! k) + of_nat q) (4096 - q) = segment m ?bs offset (4096 * Suc k)"
      using kread_block [OF kl small, of q "4096 - q" m] q(2) by (simp add: q(1) add.commute)
    moreover have "4096 - q = 4096 * Suc k - offset" by (simp add: q(1))
    moreover have "4096 * Suc k - offset \<le> length buffer" using Suc.prems(3) .
    ultimately show ?thesis
      using True gb by (simp add: q(3) mem_write_def del: mult_Suc_right)
  next
    case False
    then have sk: "?s < k" using Suc.prems(1) by simp
    have ok': "offset \<le> 4096 * k" using sk by (simp add: div_less_iff_less_mult less_imp_le mult.commute)
    have IH: "for_each [?s..<k] ?body buffer = Some (segment m ?bs offset (4096 * k) @ drop (4096 * k - offset) buffer)"
      using Suc sk by simp
    have pos: "4096 * (k - ?s) - offset mod 4096 = 4096 * k - offset"
      using split sk by (simp add: diff_mult_distrib2)
    have kr: "kread (kmem m) (block_ptr (?bs ! k)) 4096 = segment m ?bs (4096 * k) (4096 * Suc k)"
      using kread_block [OF kl small, of 0 4096 m] by (simp add: add.commute)
    have "?body k (segment m ?bs offset (4096 * k) @ drop (4096 * k - offset) buffer) =
        Some ((segment m ?bs offset (4096 * k) @ segment m ?bs (4096 * k) (4096 * Suc k))
          @ drop (4096 * Suc k - offset) buffer)"
      using False gb Suc.prems(3) ok' by (simp add: pos kr write_at_end)
    moreover have "segment m ?bs offset (4096 * k) @ segment m ?bs (4096 * k) (4096 * Suc k) =
        segment m ?bs offset (4096 * Suc k)"
      by (rule segment_append) (use ok' in auto)
    ultimately show ?thesis using IH sk by (simp add: for_each_append)
  qed
qed simp

lemma segment_file: "x \<le> y \<Longrightarrow> y \<le> f_length f \<Longrightarrow>
    segment (t_mmu t) (f_blocks f) x y = take (y - x) (drop x (file_bytes t f))"
  by (simp add: segment_def file_bytes_def drop_map take_map)

lemma read_range_ok:
  assumes ok: "fr_ok m" "blocks_ok m (f_blocks f)"
    and len: "e \<le> 4096 * length (f_blocks f)" "e < 9223372036854775808"
    and n: "e = offset + n" "n \<le> length buffer"
  shows "read_range (kmem m) f offset e buffer = Some (segment m (f_blocks f) offset e @ drop n buffer, n)"
proof -
  let ?bs = "f_blocks f" and ?s = "offset div 4096"
  have ds: "sub64 e offset = n" using n len by (simp add: sub64_id)
  have split: "4096 * ?s + offset mod 4096 = offset" "4096 * (e div 4096) + e mod 4096 = e"
    by (rule mult_div_mod_eq)+
  note def = read_range_def [of "kmem m" f offset e buffer, unfolded Let_def ds]
  consider "offset = e" | "offset < e" "?s = e div 4096" | "?s < e div 4096"
    using n div_le_mono [of offset e 4096] by force
  then show ?thesis
  proof cases
    case 1
    then show ?thesis unfolding def using n by (simp add: segment_def)
  next
    case 2
    then have kl: "?s < length ?bs" using len by (simp add: less_mult_imp_div_less mult.commute)
    have "offset mod 4096 + n = e mod 4096" using 2(2) n split by linarith
    then have "offset mod 4096 + n \<le> 4096" using mod_less_divisor [of 4096 e] by simp
    then have "kread (kmem m) (block_ptr (?bs ! ?s) + of_nat (offset mod 4096)) n = segment m ?bs offset e"
      using kread_block [OF kl block_small [OF ok kl], of "offset mod 4096" n m] split(1) n by simp
    then show ?thesis
      unfolding def using 2 get_block [OF ok(2) kl] n by (simp add: mem_read_def mem_write_def)
  next
    case 3
    let ?k = "e div 4096"
    have le: "offset \<le> 4096 * ?k" using range_pos [OF 3] by simp
    have ke: "4096 * ?k \<le> e" using split(2) by simp
    have loop: "for_each [?s..<?k] (\<lambda>b buffer. do {
         buf \<leftarrow> tmpfs_get_block f b;
         (if b = ?s
          then mem_write buffer 0 (kread (kmem m) (buf + of_nat (offset mod 4096)) (4096 - offset mod 4096))
          else mem_write buffer (4096 * (b - ?s) - offset mod 4096) (kread (kmem m) buf 4096)) }) buffer =
       Some (segment m ?bs offset (4096 * ?k) @ drop (4096 * ?k - offset) buffer)"
      by (rule read_loop [OF ok 3]) (use len ke n in auto)
    have pos: "sub64 (4096 * (?k - ?s)) (offset mod 4096) = 4096 * ?k - offset"
    proof -
      have "4096 * (?k - ?s) \<le> 4096 * ?k" by simp
      then have "4096 * (?k - ?s) < SIZE_MOD" using ke len(2) by linarith
      then show ?thesis using range_pos [OF 3] by (simp add: sub64_id)
    qed
    show ?thesis
    proof (cases "e mod 4096 = 0")
      case True
      then have "4096 * ?k = e" using split(2) by simp
      then show ?thesis unfolding def using 3 loop True n by simp
    next
      case False
      then have kl: "?k < length ?bs"
      proof -
        have "4096 * ?k < e" using False split(2) by linarith
        then show ?thesis using len by simp
      qed
      have kr: "kread (kmem m) (block_ptr (?bs ! ?k)) (e mod 4096) = segment m ?bs (4096 * ?k) e"
        using kread_block [OF kl block_small [OF ok kl], of 0 "e mod 4096" m] split(2) by simp
      have "mem_write (segment m ?bs offset (4096 * ?k) @ drop (4096 * ?k - offset) buffer) (4096 * ?k - offset)
          (segment m ?bs (4096 * ?k) e) =
        Some ((segment m ?bs offset (4096 * ?k) @ segment m ?bs (4096 * ?k) e) @ drop n buffer)"
        using le ke n by (simp add: write_at_end)
      moreover have "segment m ?bs offset (4096 * ?k) @ segment m ?bs (4096 * ?k) e = segment m ?bs offset e"
        by (rule segment_append [OF le ke])
      ultimately show ?thesis
        unfolding def using 3 loop False kr pos get_block [OF ok(2) kl] by simp
    qed
  qed
qed

text \<open>
  C5. Reading a tmpfs file from an offset that is not behind its end delivers its contents: up to
  \<open>size\<close> bytes (less than 2^63) from \<open>offset\<close> on, no more than the file has from there, placed at the
  start of the caller's buffer, whatever blocks the range spans; the rest of the buffer is untouched
  and the count is exact. The caller's buffer has room for the bytes that are delivered. A read from
  an offset behind the end is not covered; \<open>read_tmpfs_past_end\<close> below shows what it does.
\<close>

theorem read_tmpfs_contents:
  assumes ok: "fr_ok (t_mmu t)" "n_device node = Dev_tmpfs i" "get_file i t = Some f" "file_ok t f"
    and off: "offset \<le> f_length f" and sz: "sz < 9223372036854775808"
    and n: "n = min sz (f_length f - offset)" "n \<le> length buffer"
  shows "read_tmpfs node offset sz buffer t =
     Some (take n (drop offset (file_bytes t f)) @ drop n buffer, n)"
proof -
  have len: "f_length f \<le> 4096 * length (f_blocks f)" "f_length f < 9223372036854775808"
    and bk: "blocks_ok (t_mmu t) (f_blocks f)"
    using ok(4) by (simp_all add: file_ok_def)
  have e: "(if add64 offset sz > f_length f then f_length f else add64 offset sz) = offset + n"
    using off sz len n by (auto simp: add64_id)
  have el: "offset + n \<le> f_length f" using n off by auto
  then show ?thesis
    using ok(2,3) read_range_ok [OF ok(1) bk, of "offset + n" offset n buffer] len n(2)
      segment_file [of offset "offset + n" f t]
    unfolding read_tmpfs_def by (simp add: device_id_def e)
qed

section \<open>Writing\<close>

lemma embiggen_ok: "0 < p \<Longrightarrow> \<exists>p'. embiggen b p = Some p' \<and> b < p'"
proof (induction b p rule: embiggen.induct)
  case (1 b p)
  then show ?case by (cases "b < p") (auto simp: embiggen.simps [of b p])
qed

text \<open>What writing keeps: a sane allocator, and sane blocks of the file being written.\<close>

definition wok :: "tmpfs \<times> tmpfs_file \<Rightarrow> bool" where
  "wok = (\<lambda>(t, f). fr_ok (t_mmu t) \<and> low_ok (t_mmu t) \<and> blocks_ok (t_mmu t) (f_blocks f) \<and> 0 < f_pointers f)"

text \<open>
  How the state may change: the file's block list is extended by frames nobody used, exactly these
  frames are taken, no frame is given up, no object but the file is involved, and a used frame that is not one of the
  file's blocks keeps all its bytes.
\<close>

definition foreign_kept :: "mmu \<Rightarrow> u64 list \<Rightarrow> mmu \<Rightarrow> bool" where
  "foreign_kept m bs m' \<longleftrightarrow> (\<forall>g x. g \<in> used m \<longrightarrow> g < nframes m \<longrightarrow> g \<notin> unat ` set bs \<longrightarrow>
     in_range x (frame_ptr g) 4096 \<longrightarrow> kmem m' x = kmem m x)"

lemma file_bytes_kept:
  assumes "foreign_kept (t_mmu t) [] (t_mmu t')" and "fr_ok (t_mmu t)" and "file_ok t g"
  shows "file_bytes t' g = file_bytes t g"
proof -
  have "byte_at (t_mmu t') (f_blocks g) k = byte_at (t_mmu t) (f_blocks g) k" if "k < f_length g" for k
  proof -
    have "k div 4096 < length (f_blocks g)"
      using that assms(3) by (simp add: file_ok_def less_mult_imp_div_less mult.commute)
    then have "f_blocks g ! (k div 4096) \<in> set (f_blocks g)" by simp
    then have "unat (f_blocks g ! (k div 4096)) \<in> used (t_mmu t)" "unat (f_blocks g ! (k div 4096)) < nframes (t_mmu t)"
      using assms(3) by (simp_all add: file_ok_def blocks_ok_def)
    then show ?thesis using assms(1) in_range_offset [of "k mod 4096" 4096] by (simp add: foreign_kept_def byte_at_def)
  qed
  then show ?thesis by (simp add: file_bytes_def segment_def)
qed

definition grown :: "tmpfs \<times> tmpfs_file \<Rightarrow> tmpfs \<times> tmpfs_file \<Rightarrow> bool" where
  "grown = (\<lambda>(t, f) (t', f'). \<exists>nb. f_blocks f' = f_blocks f @ nb \<and> (\<forall>b \<in> set nb. unat b \<notin> used (t_mmu t))
     \<and> used (t_mmu t') = used (t_mmu t) \<union> unat ` set nb \<and> nframes (t_mmu t') = nframes (t_mmu t)
     \<and> t_objs t' = t_objs t \<and> f_length f' = f_length f \<and> f_name f' = f_name f
     \<and> card (spare (t_mmu t)) \<le> card (spare (t_mmu t')) + length nb
     \<and> foreign_kept (t_mmu t) (f_blocks f) (t_mmu t'))"

lemma grown_refl: "grown tf tf"
  by (cases tf) (simp add: grown_def foreign_kept_def)

lemma grown_trans:
  assumes "grown a b" and "grown b c"
  shows "grown a c"
proof -
  obtain t f where a: "a = (t, f)" by force
  obtain t1 f1 where b: "b = (t1, f1)" by force
  obtain t2 f2 where c: "c = (t2, f2)" by force
  from assms(1) obtain n1 where 1: "f_blocks f1 = f_blocks f @ n1" "\<forall>b \<in> set n1. unat b \<notin> used (t_mmu t)"
    "used (t_mmu t1) = used (t_mmu t) \<union> unat ` set n1" "nframes (t_mmu t1) = nframes (t_mmu t)" "t_objs t1 = t_objs t"
    "f_length f1 = f_length f \<and> f_name f1 = f_name f" "card (spare (t_mmu t)) \<le> card (spare (t_mmu t1)) + length n1"
    "foreign_kept (t_mmu t) (f_blocks f) (t_mmu t1)"
    unfolding a b grown_def by auto
  from assms(2) obtain n2 where 2: "f_blocks f2 = f_blocks f1 @ n2" "\<forall>b \<in> set n2. unat b \<notin> used (t_mmu t1)"
    "used (t_mmu t2) = used (t_mmu t1) \<union> unat ` set n2" "nframes (t_mmu t2) = nframes (t_mmu t1)" "t_objs t2 = t_objs t1"
    "f_length f2 = f_length f1 \<and> f_name f2 = f_name f1" "card (spare (t_mmu t1)) \<le> card (spare (t_mmu t2)) + length n2"
    "foreign_kept (t_mmu t1) (f_blocks f1) (t_mmu t2)"
    unfolding b c grown_def by auto
  have "foreign_kept (t_mmu t) (f_blocks f) (t_mmu t2)"
    unfolding foreign_kept_def
  proof (intro allI impI)
    fix g x
    assume g: "g \<in> used (t_mmu t)" "g < nframes (t_mmu t)" "g \<notin> unat ` set (f_blocks f)" "in_range x (frame_ptr g) 4096"
    then have "g \<notin> unat ` set (f_blocks f1)" using 1(1,2) by auto
    then show "kmem (t_mmu t2) x = kmem (t_mmu t) x"
      using g 1(3,4,8) 2(8) unfolding foreign_kept_def by (metis UnI1)
  qed
  then show ?thesis
    unfolding a c grown_def using 1 2 by (auto intro!: exI [of _ "n1 @ n2"])
qed

lemma grow_blocks_ok:
  assumes "wok (t, f\<lparr>f_blocks := bs\<rparr>)" and "n \<le> card (spare (t_mmu t))"
  shows "\<exists>t' nb. grow_blocks n bs t = Some (t', bs @ nb) \<and> length nb = n
    \<and> wok (t', f\<lparr>f_blocks := bs @ nb\<rparr>) \<and> grown (t, f\<lparr>f_blocks := bs\<rparr>) (t', f\<lparr>f_blocks := bs @ nb\<rparr>)
    \<and> kmem (t_mmu t') = kmem (t_mmu t)"
  using assms
proof (induction n arbitrary: bs t)
  case 0
  then show ?case by (auto intro: exI [of _ "[]"] grown_refl)
next
  case (Suc n)
  let ?m = "t_mmu t"
  have ok: "fr_ok ?m" "low_ok ?m" "blocks_ok ?m bs" using Suc.prems(1) by (simp_all add: wok_def)
  have "spare ?m \<noteq> {}" using Suc.prems(2) by auto
  then have "\<exists>f < whole_words ?m. f \<notin> used ?m" by (auto simp: spare_def)
  from fresh_frame [OF ok(1,2) this] obtain m1 g where a: "mmu_allocate_frame ?m = Some (m1, of_nat g)"
    "g < nframes ?m" "g \<notin> used ?m" "fr_ok m1" "low_ok m1" "nframes m1 = nframes ?m" "used m1 = insert g (used ?m)"
    "kmem m1 = kmem ?m" by blast
  have g: "unat (of_nat g :: u64) = g" using a(2) ok(1) by (simp add: fr_ok_def unat_of_nat)
  define t1 where "t1 = t\<lparr>t_mmu := m1, t_total_blocks := t_total_blocks t + 1\<rparr>"
  have bk: "blocks_ok m1 (bs @ [of_nat g])"
    using ok(3) a(2,3,6,7) g unfolding blocks_ok_def by auto
  then have w1: "wok (t1, f\<lparr>f_blocks := bs @ [of_nat g]\<rparr>)"
    using Suc.prems(1) a(4,5) by (simp add: wok_def t1_def)
  have sp: "spare m1 = spare ?m - {g}" using a(6,7) by (auto simp: spare_def whole_words_def)
  have c: "card (spare ?m) \<le> card (spare m1) + 1"
    unfolding sp using diff_card_le_card_Diff [of "{g}" "spare ?m"] by simp
  have g1: "grown (t, f\<lparr>f_blocks := bs\<rparr>) (t1, f\<lparr>f_blocks := bs @ [of_nat g]\<rparr>)"
    unfolding grown_def using a c g by (auto simp: t1_def foreign_kept_def)
  have "n \<le> card (spare (t_mmu t1))" using Suc.prems(2) c by (simp add: t1_def)
  from Suc.IH [OF w1 this] obtain t' nb where "grow_blocks n (bs @ [of_nat g]) t1 = Some (t', bs @ of_nat g # nb)"
    "length nb = n" "wok (t', f\<lparr>f_blocks := bs @ of_nat g # nb\<rparr>)"
    "grown (t1, f\<lparr>f_blocks := bs @ [of_nat g]\<rparr>) (t', f\<lparr>f_blocks := bs @ of_nat g # nb\<rparr>)"
    "kmem (t_mmu t') = kmem (t_mmu t1)" by auto
  then show ?case
    using a(1,8) grown_trans [OF g1] by (intro exI [of _ t'] exI [of _ "of_nat g # nb"]) (simp add: t1_def)
qed

text \<open>What a copy into one block does to the bytes of the file.\<close>

lemma kwrite_byte:
  assumes ok: "fr_ok m" "blocks_ok m bs" and b: "b < length bs" "off + length ys \<le> 4096"
    and i: "i div 4096 < length bs"
  shows "byte_at (m\<lparr>kmem := kwrite (kmem m) (block_ptr (bs ! b) + of_nat off) ys\<rparr>) bs i =
    (if 4096 * b + off \<le> i \<and> i < 4096 * b + off + length ys then ys ! (i - (4096 * b + off)) else byte_at m bs i)"
proof -
  define k r where "k = i div 4096" and "r = i mod 4096"
  have i': "i = 4096 * k + r" "r < 4096" by (simp_all add: k_def r_def)
  have sm: "unat (bs ! b) < 134217728" "unat (bs ! k) < 134217728"
    using block_small [OF ok] b i by (simp_all add: k_def)
  have bp: "block_ptr (bs ! b) = frame_ptr (unat (bs ! b))"
    using mmu_from_physical_frame [OF sm(1)] by (simp add: block_ptr_def)
  let ?x = "frame_ptr (unat (bs ! k)) + of_nat r" and ?a = "frame_ptr (unat (bs ! b)) + of_nat off"
  have lhs: "byte_at (m\<lparr>kmem := kwrite (kmem m) (block_ptr (bs ! b) + of_nat off) ys\<rparr>) bs i =
      (if in_range ?x ?a (length ys) then ys ! unat (?x - ?a) else byte_at m bs i)"
    by (simp add: byte_at_def bp kwrite_def in_range_def k_def r_def)
  show ?thesis
  proof (cases "k = b")
    case True
    have eq: "?x - frame_ptr (unat (bs ! b)) = of_nat r" using True by simp
    have in_iff: "in_range ?x ?a (length ys) \<longleftrightarrow> off \<le> r \<and> r < off + length ys"
      unfolding in_range_shift eq using b(2) i'(2) by (simp add: in_range_iff unat_of_nat)
    have "unat (?x - ?a) = r - off" if "off \<le> r"
    proof -
      have "?x - ?a = of_nat (r - off)" using True that by (simp add: of_nat_diff)
      then show ?thesis using i'(2) by (simp add: unat_of_nat)
    qed
    then show ?thesis unfolding lhs in_iff using True i' by auto
  next
    case False
    have "unat (bs ! k) \<noteq> unat (bs ! b)"
      using ok(2) False b(1) i nth_eq_iff_index_eq [of bs k b]
      by (auto simp: blocks_ok_def k_def word_unat_eq_iff)
    then have "apart (frame_ptr (unat (bs ! k))) 4096 (frame_ptr (unat (bs ! b))) 4096"
      using sm by (intro frames_apart) auto
    moreover have "in_range ?x (frame_ptr (unat (bs ! k))) 4096" using i'(2) by (simp add: in_range_offset)
    moreover have "in_range ?x (frame_ptr (unat (bs ! b))) 4096" if "in_range ?x ?a (length ys)"
      using in_range_mono [OF that] b(2) by simp
    ultimately have "\<not> in_range ?x ?a (length ys)" by (auto simp: apart_def)
    moreover have "\<not> (4096 * b + off \<le> i \<and> i < 4096 * b + off + length ys)"
      using False i' b(2) by auto
    ultimately show ?thesis unfolding lhs by auto
  qed
qed

lemma byte_at_prefix: "i div 4096 < length bs \<Longrightarrow> byte_at m (bs @ nb) i = byte_at m bs i"
  by (simp add: byte_at_def nth_append)

lemma byte_at_kmem: "kmem m' = kmem m \<Longrightarrow> byte_at m' bs i = byte_at m bs i"
  by (simp add: byte_at_def)

lemma write_block_ok:
  assumes w: "wok (t, f)" and n: "Suc b \<le> length (f_blocks f) + card (spare (t_mmu t))"
    and len: "off + length ys \<le> 4096"
  shows "\<exists>t' f'. write_block b off ys (t, f) = Some (t', f') \<and> wok (t', f') \<and> grown (t, f) (t', f')
    \<and> b < length (f_blocks f')
    \<and> (\<forall>i. i div 4096 < length (f_blocks f') \<longrightarrow> 4096 * b + off \<le> i \<longrightarrow> i < 4096 * b + off + length ys \<longrightarrow>
          byte_at (t_mmu t') (f_blocks f') i = ys ! (i - (4096 * b + off)))
    \<and> (\<forall>i. i div 4096 < length (f_blocks f) \<longrightarrow> \<not> (4096 * b + off \<le> i \<and> i < 4096 * b + off + length ys) \<longrightarrow>
          byte_at (t_mmu t') (f_blocks f') i = byte_at (t_mmu t) (f_blocks f) i)"
proof -
  let ?bs = "f_blocks f"
  obtain p where p: "embiggen b (f_pointers f) = Some p" "b < p"
    using embiggen_ok [of "f_pointers f" b] w by (auto simp: wok_def)
  define f0 where "f0 = f\<lparr>f_pointers := p\<rparr>"
  have w0: "wok (t, f0\<lparr>f_blocks := ?bs\<rparr>)" using w p by (simp add: wok_def f0_def)
  obtain t1 nb where g: "grow_blocks (Suc b - length ?bs) ?bs t = Some (t1, ?bs @ nb)"
    "length nb = Suc b - length ?bs" "wok (t1, f0\<lparr>f_blocks := ?bs @ nb\<rparr>)"
    "grown (t, f0\<lparr>f_blocks := ?bs\<rparr>) (t1, f0\<lparr>f_blocks := ?bs @ nb\<rparr>)" "kmem (t_mmu t1) = kmem (t_mmu t)"
  proof -
    have "Suc b - length ?bs \<le> card (spare (t_mmu t))" using n by simp
    from grow_blocks_ok [OF w0 this] that show ?thesis by blast
  qed
  define f1 where "f1 = f0\<lparr>f_blocks := ?bs @ nb\<rparr>"
  let ?m1 = "t_mmu t1" and ?bs1 = "?bs @ nb"
  have ok1: "fr_ok ?m1" "low_ok ?m1" "blocks_ok ?m1 ?bs1" "0 < p"
    using g(3) p by (simp_all add: wok_def f0_def)
  have b1: "b < length ?bs1" using g(2) by simp
  define m2 where "m2 = ?m1\<lparr>kmem := kwrite (kmem ?m1) (block_ptr (?bs1 ! b) + of_nat off) ys\<rparr>"
  define t2 where "t2 = t1\<lparr>t_mmu := m2\<rparr>"
  have "write_block b off ys (t, f) = Some (t2, f1)"
    using p(1) g(1) get_block [of ?m1 f1 b] ok1(3) b1
    by (simp add: write_block_def tmpfs_set_block_def f1_def f0_def t2_def m2_def)
  moreover have "wok (t2, f1)"
    using ok1 by (simp add: wok_def t2_def m2_def f1_def f0_def blocks_ok_def)
  moreover have "grown (t, f) (t2, f1)"
  proof -
    have bsm: "unat (?bs1 ! b) < 134217728" using block_small [OF ok1(1,3) b1] .
    have "foreign_kept (t_mmu t1) (f_blocks f1) (t_mmu t2)"
      unfolding foreign_kept_def
    proof (intro allI impI)
      fix g x
      assume g: "g < nframes ?m1" "g \<notin> unat ` set (f_blocks f1)" and x: "in_range x (frame_ptr g) 4096"
      have "g \<noteq> unat (?bs1 ! b)" using g(2) nth_mem [OF b1] by (auto simp: f1_def)
      then have "apart (frame_ptr g) 4096 (frame_ptr (unat (?bs1 ! b))) 4096"
        using g(1) ok1(1) bsm by (intro frames_apart) (auto simp: fr_ok_def)
      moreover have "block_ptr (?bs1 ! b) = frame_ptr (unat (?bs1 ! b))"
        using mmu_from_physical_frame [OF bsm] by (simp add: block_ptr_def)
      ultimately have "\<not> in_range x (block_ptr (?bs1 ! b) + of_nat off) (length ys)"
        using x in_range_mono [of x "frame_ptr (unat (?bs1 ! b))" off "length ys" 4096] len
        by (auto simp: apart_def)
      then show "kmem (t_mmu t2) x = kmem (t_mmu t1) x" by (simp add: t2_def m2_def kwrite_outside)
    qed
    then have "grown (t1, f1) (t2, f1)" by (simp add: grown_def t2_def m2_def spare_def whole_words_def)
    moreover have "grown (t, f) (t1, f1)" using g(4) by (simp add: grown_def f1_def f0_def)
    ultimately show ?thesis using grown_trans by blast
  qed
  moreover have "byte_at (t_mmu t2) (f_blocks f1) i =
      (if 4096 * b + off \<le> i \<and> i < 4096 * b + off + length ys then ys ! (i - (4096 * b + off)) else byte_at ?m1 ?bs1 i)"
    if "i div 4096 < length ?bs1" for i
    using kwrite_byte [OF ok1(1,3) b1 len that] by (simp add: t2_def m2_def f1_def)
  moreover have "byte_at ?m1 ?bs1 i = byte_at (t_mmu t) ?bs i" if "i div 4096 < length ?bs" for i
    using byte_at_prefix [OF that] byte_at_kmem [OF g(5)] by simp
  ultimately show ?thesis
    using b1 by (intro exI [of _ t2] exI [of _ f1]) (auto simp: f1_def)
qed

text \<open>
  The loop invariant of a write of \<open>data\<close> at \<open>offset\<close> that has reached the position \<open>x\<close>: what
  is written is there, everything the file had elsewhere is still there.
\<close>

definition progress :: "tmpfs \<times> tmpfs_file \<Rightarrow> nat \<Rightarrow> u8 list \<Rightarrow> nat \<Rightarrow> tmpfs \<times> tmpfs_file \<Rightarrow> bool" where
  "progress tf0 offset data x = (\<lambda>(t, f). wok (t, f) \<and> grown tf0 (t, f) \<and> offset \<le> x
     \<and> (offset < x \<longrightarrow> x \<le> 4096 * length (f_blocks f))
     \<and> (\<forall>i. offset \<le> i \<and> i < x \<longrightarrow> byte_at (t_mmu t) (f_blocks f) i = data ! (i - offset))
     \<and> (\<forall>i. i div 4096 < length (f_blocks (snd tf0)) \<and> (i < offset \<or> x \<le> i) \<longrightarrow>
           byte_at (t_mmu t) (f_blocks f) i = byte_at (t_mmu (fst tf0)) (f_blocks (snd tf0)) i))"

lemma progress_start: "wok tf \<Longrightarrow> progress tf offset data offset tf"
  by (cases tf) (auto simp: progress_def grown_refl)

lemma progress_step:
  assumes p: "progress (t0, f0) offset data x (t, f)" and b: "4096 * b + off = x" "off + len \<le> 4096"
    and cap: "Suc b \<le> length (f_blocks f0) + card (spare (t_mmu t0))"
    and data: "x - offset + len \<le> length data"
  shows "\<exists>t' f'. write_block b off (take len (drop (x - offset) data)) (t, f) = Some (t', f')
    \<and> progress (t0, f0) offset data (x + len) (t', f')"
proof -
  let ?ys = "take len (drop (x - offset) data)"
  have w: "wok (t, f)" and g: "grown (t0, f0) (t, f)" and ox: "offset \<le> x"
    and dn: "\<And>i. offset \<le> i \<Longrightarrow> i < x \<Longrightarrow> byte_at (t_mmu t) (f_blocks f) i = data ! (i - offset)"
    and kept: "\<And>i. i div 4096 < length (f_blocks f0) \<Longrightarrow> i < offset \<or> x \<le> i \<Longrightarrow>
           byte_at (t_mmu t) (f_blocks f) i = byte_at (t_mmu t0) (f_blocks f0) i"
    and xl: "offset < x \<Longrightarrow> x \<le> 4096 * length (f_blocks f)"
    using p by (auto simp: progress_def)
  obtain nb where nb: "f_blocks f = f_blocks f0 @ nb" "card (spare (t_mmu t0)) \<le> card (spare (t_mmu t)) + length nb"
    using g by (auto simp: grown_def)
  have ly: "length ?ys = len" using data by simp
  have "Suc b \<le> length (f_blocks f) + card (spare (t_mmu t))" using cap nb by simp
  then obtain t' f' where wr: "write_block b off ?ys (t, f) = Some (t', f')" "wok (t', f')" "grown (t, f) (t', f')"
    "b < length (f_blocks f')"
    and new: "\<And>i. i div 4096 < length (f_blocks f') \<Longrightarrow> x \<le> i \<Longrightarrow> i < x + len \<Longrightarrow>
          byte_at (t_mmu t') (f_blocks f') i = ?ys ! (i - x)"
    and old: "\<And>i. i div 4096 < length (f_blocks f) \<Longrightarrow> \<not> (x \<le> i \<and> i < x + len) \<Longrightarrow>
          byte_at (t_mmu t') (f_blocks f') i = byte_at (t_mmu t) (f_blocks f) i"
    using write_block_ok [OF w, of b off ?ys] b ly by auto
  have room: "x + len \<le> 4096 * length (f_blocks f')"
  proof -
    have "4096 * Suc b \<le> 4096 * length (f_blocks f')" using wr(4) by (intro mult_le_mono) auto
    then show ?thesis using b by simp
  qed
  have "byte_at (t_mmu t') (f_blocks f') i = data ! (i - offset)" if "offset \<le> i" "i < x + len" for i
  proof (cases "i < x")
    case True
    then have "i div 4096 < length (f_blocks f)" using xl that by (simp add: less_mult_imp_div_less mult.commute)
    then show ?thesis using old [of i] dn [of i] True that by simp
  next
    case False
    then have "i div 4096 < length (f_blocks f')" using room that by (simp add: less_mult_imp_div_less mult.commute)
    then show ?thesis using new [of i] False that ox data by simp
  qed
  moreover have "byte_at (t_mmu t') (f_blocks f') i = byte_at (t_mmu t0) (f_blocks f0) i"
    if "i div 4096 < length (f_blocks f0)" "i < offset \<or> x + len \<le> i" for i
    using old [of i] kept [of i] that ox nb(1) by auto
  ultimately show ?thesis
    using wr ox room grown_trans [OF g wr(3)] by (intro exI [of _ t'] exI [of _ f']) (simp add: progress_def)
qed

lemma write_loop:
  assumes w: "wok (t0, f0)" and k: "offset div 4096 < k" "k \<le> length (f_blocks f0) + card (spare (t_mmu t0))"
    and data: "4096 * k - offset \<le> length data"
  shows "\<exists>t f. for_each [offset div 4096..<k] (\<lambda>b tf.
           (if b = offset div 4096 then do {
              bytes \<leftarrow> mem_read data 0 (4096 - offset mod 4096);
              write_block b (offset mod 4096) bytes tf }
            else do {
              bytes \<leftarrow> mem_read data (4096 * (b - offset div 4096) - offset mod 4096) 4096;
              write_block b 0 bytes tf })) (t0, f0) = Some (t, f)
     \<and> progress (t0, f0) offset data (4096 * k) (t, f)"
  (is "\<exists>t f. for_each _ ?body _ = _ \<and> _")
  using k data
proof (induction k)
  case (Suc k)
  let ?s = "offset div 4096"
  show ?case
  proof (cases "k = ?s")
    case True
    obtain q where q: "offset = 4096 * k + q" "q < 4096" "offset mod 4096 = q"
      using mult_div_mod_eq [of 4096 offset] True by (intro that [of "offset mod 4096"]) simp_all
    have l: "4096 - q \<le> length data" using Suc.prems(3) q(1,2) by simp
    then have rd: "mem_read data 0 (4096 - q) = Some (take (4096 - q) (drop (offset - offset) data))"
      by (simp add: mem_read_def)
    have nx: "offset + (4096 - q) = 4096 * Suc k" using q(1,2) by simp
    obtain t f where "write_block k q (take (4096 - q) (drop (offset - offset) data)) (t0, f0) = Some (t, f)"
      "progress (t0, f0) offset data (4096 * Suc k) (t, f)"
      using progress_step [OF progress_start [OF w], of k q offset "4096 - q" data] q(1,2) l Suc.prems(2)
      unfolding nx by auto
    then show ?thesis
      unfolding True [symmetric] q(3) using rd by (intro exI [of _ t] exI [of _ f]) simp
  next
    case False
    then have sk: "?s < k" using Suc.prems(1) by simp
    then obtain t f where IH: "for_each [?s..<k] ?body (t0, f0) = Some (t, f)"
      "progress (t0, f0) offset data (4096 * k) (t, f)"
    proof -
      have "k \<le> length (f_blocks f0) + card (spare (t_mmu t0))" "4096 * k - offset \<le> length data"
        using Suc.prems(2,3) by simp_all
      then show ?thesis using Suc.IH [OF sk] that by blast
    qed
    note pos = range_pos [OF sk]
    have l: "4096 * k - offset + 4096 \<le> length data" using Suc.prems(3) pos(1) by simp
    then have "mem_read data (4096 * k - offset) 4096 = Some (take 4096 (drop (4096 * k - offset) data))"
      by (simp add: mem_read_def)
    moreover obtain t' f' where "write_block k 0 (take 4096 (drop (4096 * k - offset) data)) (t, f) = Some (t', f')"
      "progress (t0, f0) offset data (4096 * k + 4096) (t', f')"
      using progress_step [OF IH(2), of k 0 4096] l Suc.prems(2) by auto
    ultimately have "?body k (t, f) = Some (t', f')" and p: "progress (t0, f0) offset data (4096 * Suc k) (t', f')"
      using False by (simp_all add: pos(3) add.commute)
    then show ?thesis
      using IH(1) sk by (intro exI [of _ t'] exI [of _ f']) (simp add: for_each_append)
  qed
qed simp

lemma write_range_ok:
  assumes w: "wok (t0, f0)" and e: "e = offset + n" "e < 9223372036854775808" "n \<le> length data"
    and cap: "Suc (e div 4096) \<le> length (f_blocks f0) + card (spare (t_mmu t0))"
  shows "\<exists>t f. write_range offset e data (t0, f0) = Some (t, f) \<and> progress (t0, f0) offset data e (t, f)"
proof -
  let ?s = "offset div 4096" and ?k = "e div 4096"
  have ds: "sub64 e offset = n" using e by (simp add: sub64_id)
  note def = write_range_def [of offset e data "(t0, f0)", unfolded Let_def ds]
  have split: "4096 * ?s + offset mod 4096 = offset" "4096 * ?k + e mod 4096 = e"
    by (rule mult_div_mod_eq)+
  have "?s \<le> ?k" using e by (simp add: div_le_mono)
  then consider "?s = ?k" | "?s < ?k" by force
  then show ?thesis
  proof cases
    case 1
    have "offset mod 4096 + n = e mod 4096" using 1 e(1) split by linarith
    then have "offset mod 4096 + n \<le> 4096" using mod_less_divisor [of 4096 e] by simp
    then show ?thesis
      unfolding def using 1 progress_step [OF progress_start [OF w], of ?s "offset mod 4096" offset n data] split(1) cap e
      by (simp add: mem_read_def)
  next
    case 2
    have ke: "4096 * ?k \<le> e" using split(2) by simp
    obtain t f where loop: "for_each [?s..<?k] (\<lambda>b tf.
           (if b = ?s then do {
              bytes \<leftarrow> mem_read data 0 (4096 - offset mod 4096);
              write_block b (offset mod 4096) bytes tf }
            else do {
              bytes \<leftarrow> mem_read data (4096 * (b - ?s) - offset mod 4096) 4096;
              write_block b 0 bytes tf })) (t0, f0) = Some (t, f)"
      "progress (t0, f0) offset data (4096 * ?k) (t, f)"
    proof -
      have "?k \<le> length (f_blocks f0) + card (spare (t_mmu t0))" using cap by simp
      moreover have "4096 * ?k - offset \<le> length data" using ke e(1,3) by linarith
      ultimately show ?thesis using write_loop [OF w 2] that by blast
    qed
    show ?thesis
    proof (cases "e mod 4096 = 0")
      case True
      then have "4096 * ?k = e" using split(2) by simp
      then show ?thesis unfolding def using 2 loop True by auto
    next
      case False
      have pos: "sub64 (4096 * (?k - ?s)) (offset mod 4096) = 4096 * ?k - offset"
      proof -
        have "4096 * (?k - ?s) \<le> 4096 * ?k" by simp
        then have "4096 * (?k - ?s) < SIZE_MOD" using ke e(2) by linarith
        then show ?thesis using range_pos [OF 2] by (simp add: sub64_id)
      qed
      have l: "4096 * ?k - offset + e mod 4096 \<le> length data" using split(2) range_pos(1) [OF 2] e by simp
      have "e mod 4096 \<le> 4096" using mod_less_divisor [of 4096 e] by simp
      then obtain t' f' where "write_block ?k 0 (take (e mod 4096) (drop (4096 * ?k - offset) data)) (t, f) = Some (t', f')"
        "progress (t0, f0) offset data (4096 * ?k + e mod 4096) (t', f')"
        using progress_step [OF loop(2), of ?k 0 "e mod 4096"] l cap by auto
      then show ?thesis
        unfolding def using 2 loop(1) False pos l split(2) by (simp add: mem_read_def)
    qed
  qed
qed

lemma write_tmpfs_bytes:
  assumes ok: "fr_ok (t_mmu t)" "low_ok (t_mmu t)" "n_device node = Dev_tmpfs i" "get_file i t = Some f" "file_ok t f"
    and off: "offset \<le> f_length f" and sz: "offset + sz < 9223372036854775808" "sz \<le> length data"
    and cap: "Suc ((offset + sz) div 4096) \<le> length (f_blocks f) + card (spare (t_mmu t))"
  shows "\<exists>t' f'. write_tmpfs node offset sz data t = Some (t', sz) \<and> get_file i t' = Some f' \<and> file_ok t' f'
    \<and> fr_ok (t_mmu t') \<and> low_ok (t_mmu t')
    \<and> file_bytes t' f' = take offset (file_bytes t f) @ take sz data @ drop (offset + sz) (file_bytes t f)
    \<and> (\<forall>j. j \<noteq> i \<longrightarrow> t_objs t' j = t_objs t j) \<and> foreign_kept (t_mmu t) (f_blocks f) (t_mmu t')
    \<and> (\<exists>nb. f_blocks f' = f_blocks f @ nb \<and> unat ` set nb \<inter> used (t_mmu t) = {} \<and> used (t_mmu t') = used (t_mmu t) \<union> unat ` set nb)
    \<and> f_name f' = f_name f \<and> nframes (t_mmu t') = nframes (t_mmu t)
    \<and> length (f_blocks f) + card (spare (t_mmu t)) \<le> length (f_blocks f') + card (spare (t_mmu t'))"
proof -
  have len: "f_length f \<le> 4096 * length (f_blocks f)" "f_length f < 9223372036854775808"
    using ok(5) by (simp_all add: file_ok_def)
  define e where "e = offset + sz"
  define f0 where "f0 = (if add64 offset sz > f_length f then f\<lparr>f_length := add64 offset sz\<rparr> else f)"
  have ae: "add64 offset sz = e" using sz by (simp add: e_def add64_id)
  have f0: "f_blocks f0 = f_blocks f" "f_length f0 = max (f_length f) e"
    by (auto simp: f0_def ae)
  have w: "wok (t, f0)" using ok by (auto simp: wok_def file_ok_def f0_def)
  obtain t1 f1 where wr: "write_range offset e data (t, f0) = Some (t1, f1)" "progress (t, f0) offset data e (t1, f1)"
    using write_range_ok [OF w e_def _ sz(2)] sz(1) cap f0(1) by (auto simp: e_def)
  then have w1: "wok (t1, f1)" and g: "grown (t, f0) (t1, f1)"
    and room: "offset < e \<Longrightarrow> e \<le> 4096 * length (f_blocks f1)"
    and new: "\<And>i. offset \<le> i \<Longrightarrow> i < e \<Longrightarrow> byte_at (t_mmu t1) (f_blocks f1) i = data ! (i - offset)"
    and old: "\<And>i. i div 4096 < length (f_blocks f) \<Longrightarrow> i < offset \<or> e \<le> i \<Longrightarrow>
           byte_at (t_mmu t1) (f_blocks f1) i = byte_at (t_mmu t) (f_blocks f) i"
    by (auto simp: progress_def f0)
  obtain nb where g1: "f_blocks f1 = f_blocks f @ nb" "t_objs t1 = t_objs t" "f_length f1 = f_length f0"
    "foreign_kept (t_mmu t) (f_blocks f) (t_mmu t1)" "f_name f1 = f_name f0"
    "card (spare (t_mmu t)) \<le> card (spare (t_mmu t1)) + length nb" "nframes (t_mmu t1) = nframes (t_mmu t)"
    and nb: "unat ` set nb \<inter> used (t_mmu t) = {}" "used (t_mmu t1) = used (t_mmu t) \<union> unat ` set nb"
    using g by (auto simp: grown_def f0)
  have g2: "f_name f0 = f_name f" by (simp add: f0_def)
  define t2 where "t2 = put_obj i (File f1) t1"
  have "write_tmpfs node offset sz data t = Some (t2, sz)"
  proof -
    have "sub64 e offset = sz" using sz by (simp add: e_def sub64_id)
    then show ?thesis
      using ok(3,4) wr(1) unfolding write_tmpfs_def Let_def ae
      by (simp add: device_id_def t2_def f0_def [unfolded ae, symmetric] del: if_split)
  qed
  moreover have "get_file i t2 = Some f1" by (simp add: t2_def put_obj_def get_file_def)
  moreover have "file_ok t2 f1"
  proof -
    have "e \<le> 4096 * length (f_blocks f1)"
      using room off len(1) g1(1) sz(1) by (cases "offset < e") (auto simp: e_def)
    then show ?thesis using w1 g1(1,3) f0(2) len sz(1) by (simp add: file_ok_def wok_def t2_def put_obj_def e_def)
  qed
  moreover have "file_bytes t2 f1 = take offset (file_bytes t f) @ take sz data @ drop (offset + sz) (file_bytes t f)"
  proof (rule nth_equalityI)
    have lf: "length (file_bytes t f) = f_length f" by (simp add: file_bytes_def)
    show "length (file_bytes t2 f1) = length (take offset (file_bytes t f) @ take sz data @ drop (offset + sz) (file_bytes t f))"
      using off sz g1(3) f0(2) by (auto simp: file_bytes_def e_def)
    fix j
    assume "j < length (file_bytes t2 f1)"
    then have j: "j < max (f_length f) e" using g1(3) f0(2) by (simp add: file_bytes_def)
    then have lhs: "file_bytes t2 f1 ! j = byte_at (t_mmu t1) (f_blocks f1) j"
      using g1(3) f0(2) by (simp add: file_bytes_def segment_def t2_def put_obj_def)
    have fb: "file_bytes t f ! j = byte_at (t_mmu t) (f_blocks f) j" if "j < f_length f"
      using that by (simp add: file_bytes_def segment_def)
    have dv: "j div 4096 < length (f_blocks f)" if "j < f_length f"
      using that len(1) by (simp add: less_mult_imp_div_less mult.commute)
    consider "j < offset" | "offset \<le> j" "j < e" | "e \<le> j" by linarith
    then show "file_bytes t2 f1 ! j = (take offset (file_bytes t f) @ take sz data @ drop (offset + sz) (file_bytes t f)) ! j"
    proof cases
      case 1
      then show ?thesis using lhs old [of j] fb dv off lf by (simp add: nth_append)
    next
      case 2
      then show ?thesis using lhs new [of j] off lf sz(2) by (auto simp: nth_append e_def)
    next
      case 3
      then have "j < f_length f" using j by simp
      then show ?thesis using 3 lhs old [of j] fb dv off lf sz(2) by (auto simp: nth_append e_def)
    qed
  qed
  ultimately show ?thesis
    using w1 g1 g2 nb by (intro exI [of _ t2] exI [of _ f1]) (simp add: t2_def put_obj_def wok_def)
qed

text \<open>
  C4. Writing a tmpfs file at an offset that is not behind its end updates its contents as a byte
  string: the written bytes replace the range, the bytes before and behind it are kept, the file
  grows when the range runs over its end, and the count is exact. The blocks the file gets in
  addition are frames that were free, and exactly these frames are taken: every other frame stays
  free or in use as it was. No other object and no byte of any frame that belongs to somebody else
  changes. It needs free frames for the blocks up to the one of the end of the range; the frames that
  the kernel heap takes for the array of block numbers are not part of the model.
\<close>

theorem write_tmpfs_contents:
  assumes ok: "fr_ok (t_mmu t)" "low_ok (t_mmu t)" "n_device node = Dev_tmpfs i" "get_file i t = Some f" "file_ok t f"
    and off: "offset \<le> f_length f" and sz: "offset + sz < 9223372036854775808" "sz \<le> length data"
    and cap: "Suc ((offset + sz) div 4096) \<le> length (f_blocks f) + card (spare (t_mmu t))"
  shows "\<exists>t' f'. write_tmpfs node offset sz data t = Some (t', sz) \<and> get_file i t' = Some f' \<and> file_ok t' f'
    \<and> fr_ok (t_mmu t') \<and> low_ok (t_mmu t')
    \<and> file_bytes t' f' = take offset (file_bytes t f) @ take sz data @ drop (offset + sz) (file_bytes t f)
    \<and> (\<forall>j. j \<noteq> i \<longrightarrow> t_objs t' j = t_objs t j) \<and> foreign_kept (t_mmu t) (f_blocks f) (t_mmu t')
    \<and> (\<exists>nb. f_blocks f' = f_blocks f @ nb \<and> unat ` set nb \<inter> used (t_mmu t) = {} \<and> used (t_mmu t') = used (t_mmu t) \<union> unat ` set nb)"
  using write_tmpfs_bytes [OF assms] by (elim exE conjE) (intro exI conjI)

text \<open>
  A read that starts behind the end of a file is not an empty read: the number of bytes to
  copy wraps below zero, so that, with the offset in the file's last block, the copy of almost
  2^64 bytes leaves the caller's buffer, whatever its size.
\<close>

lemma read_tmpfs_past_end:
  assumes "n_device node = Dev_tmpfs i" and "get_file i t = Some f" and "offset > f_length f"
    and "offset div 4096 = f_length f div 4096" and "offset + sz < 18446744073709551616"
    and "length buffer < 9223372036854775808" and "f_length f < 9223372036854775808"
  shows "read_tmpfs node offset sz buffer t = None"
proof -
  have "offset < f_length f + 4096"
    using assms(4) mult_div_mod_eq [of 4096 offset] mult_div_mod_eq [of 4096 "f_length f"]
      mod_less_divisor [of 4096 offset] by linarith
  then have "length buffer < sub64 (f_length f) offset"
    using assms(3,5,6,7) by (simp add: sub64_wrap)
  then show ?thesis
    using assms(1-5) by (simp add: read_tmpfs_def read_range_def device_id_def add64_id Let_def mem_read_def
        split: Option.bind_split)
qed

section \<open>Directories as maps from names to objects\<close>

text \<open>
  The interface of a directory: a map from names to objects, one operation that enters a fresh
  object and one that removes a plain one.
\<close>

locale directory =
  fixes ok :: "'s \<Rightarrow> bool" and look :: "'s \<Rightarrow> string \<Rightarrow> 'x option" and plain :: "'s \<Rightarrow> 'x \<Rightarrow> bool"
    and add :: "string \<Rightarrow> 's \<Rightarrow> ('s \<times> int) option" and del :: "string \<Rightarrow> 's \<Rightarrow> ('s \<times> int) option"
  assumes add_new: "ok s \<Longrightarrow> look s name = None \<Longrightarrow>
      \<exists>s' x. add name s = Some (s', 0) \<and> ok s' \<and> look s' = (look s)(name \<mapsto> x) \<and> plain s' x"
    and add_old: "ok s \<Longrightarrow> look s name \<noteq> None \<Longrightarrow> add name s = Some (s, - EEXIST)"
    and del_old: "ok s \<Longrightarrow> look s name = Some x \<Longrightarrow> plain s x \<Longrightarrow>
      \<exists>s'. del name s = Some (s', 0) \<and> ok s' \<and> look s' = (look s)(name := None)"
    and del_none: "ok s \<Longrightarrow> look s name = None \<Longrightarrow> del name s = Some (s, - ENOENT)"
begin

lemma add_twice:
  assumes "ok s" and "look s name = None"
  shows "\<exists>s'. add name s = Some (s', 0) \<and> add name s' = Some (s', - EEXIST)"
  using add_new [OF assms] add_old by fastforce

lemma add_del:
  assumes "ok s" and "look s name = None"
  shows "\<exists>s1 s2. add name s = Some (s1, 0) \<and> look s1 name \<noteq> None \<and> del name s1 = Some (s2, 0)
     \<and> ok s2 \<and> look s2 = look s \<and> del name s2 = Some (s2, - ENOENT)"
proof -
  obtain s1 x where 1: "add name s = Some (s1, 0)" "ok s1" "look s1 = (look s)(name \<mapsto> x)" "plain s1 x"
    using add_new [OF assms] by blast
  obtain s2 where 2: "del name s1 = Some (s2, 0)" "ok s2" "look s2 = (look s1)(name := None)"
    using del_old [OF 1(2), of name x] 1 by auto
  have "look s2 = look s" using 1(3) 2(3) assms(2) by auto
  then show ?thesis using 1 2 del_none [OF 2(2), of name] assms(2) by auto
qed

end

definition name_of :: "tmpfs \<Rightarrow> nat \<Rightarrow> string" where
  "name_of t i = (case t_objs t i of Some x \<Rightarrow> obj_name x | None \<Rightarrow> [])"

text \<open>
  A sane directory: its entries are live objects with pairwise different names, and the next
  object's address is fresh.
\<close>

definition dir_ok :: "nat \<Rightarrow> tmpfs \<Rightarrow> bool" where
  "dir_ok di t \<longleftrightarrow> fr_ok (t_mmu t) \<and> low_ok (t_mmu t) \<and> di < t_next t \<and> (\<exists>d. get_dir di t = Some d
     \<and> distinct (map (name_of t) (dr_files d))
     \<and> (\<forall>i \<in> set (dr_files d). t_objs t i \<noteq> None \<and> i \<noteq> di \<and> i < t_next t))"

definition dir_look :: "nat \<Rightarrow> tmpfs \<Rightarrow> string \<Rightarrow> nat option" where
  "dir_look di t name = (case get_dir di t of None \<Rightarrow> None
     | Some d \<Rightarrow> map_of (map (\<lambda>i. (name_of t i, i)) (dr_files d)) name)"

definition is_plain :: "tmpfs \<Rightarrow> nat \<Rightarrow> bool" where
  "is_plain t i \<longleftrightarrow> (\<exists>f. t_objs t i = Some (File f))"

lemma scan_dir_ok:
  "\<forall>i \<in> set is. t_objs t i \<noteq> None \<Longrightarrow>
   scan_dir name is t = Some (map_of (map (\<lambda>i. (name_of t i, i)) is) name)"
  by (induction "is") (auto simp: name_of_def)

lemma dir_scan: "dir_ok di t \<Longrightarrow> get_dir di t = Some d \<Longrightarrow>
    scan_dir name (dr_files d) t = Some (dir_look di t name)"
  by (auto simp: dir_ok_def dir_look_def scan_dir_ok)

lemma device_from_dir [simp]: "device_id (tmpfs_from_dir di d) = Some di"
  by (simp add: device_id_def tmpfs_from_dir_def)

lemma dir_okE:
  assumes "dir_ok di t"
  obtains d where "get_dir di t = Some d" "t_objs t di = Some (Dir d)" "di < t_next t"
    "distinct (map (name_of t) (dr_files d))"
    "\<forall>i \<in> set (dr_files d). t_objs t i \<noteq> None \<and> i \<noteq> di \<and> i < t_next t"
  using assms unfolding dir_ok_def
  by (auto simp: get_dir_def split: option.splits tmpfs_obj.splits)

lemma map_of_snoc: "map_of xs k = None \<Longrightarrow> map_of (xs @ [(k, v)]) = (map_of xs)(k \<mapsto> v)"
  by (auto simp: fun_eq_iff map_add_def split: option.splits)

text \<open>Entering a fresh object under a new name.\<close>

lemma enter_object:
  assumes ok: "dir_ok di t" and d: "get_dir di t = Some d" and new: "dir_look di t (obj_name x) = None"
  shows "dir_ok di (put_obj di (Dir (add_entry (t_next t) d)) (fst (new_obj x t)))"
    and "dir_look di (put_obj di (Dir (add_entry (t_next t) d)) (fst (new_obj x t))) = (dir_look di t)(obj_name x \<mapsto> t_next t)"
proof -
  let ?i = "t_next t" and ?t = "put_obj di (Dir (add_entry (t_next t) d)) (fst (new_obj x t))"
  have o: "di < ?i" "distinct (map (name_of t) (dr_files d))"
    "\<And>i. i \<in> set (dr_files d) \<Longrightarrow> t_objs t i \<noteq> None \<and> i \<noteq> di \<and> i < ?i"
    using dir_okE [OF ok] d by (metis option.inject)+
  have gd: "get_dir di ?t = Some (add_entry ?i d)" by (simp add: get_dir_def put_obj_def)
  have same: "name_of ?t i = name_of t i" "t_objs ?t i = t_objs t i" if "i \<in> set (dr_files d)" for i
    using o(3) [OF that] by (simp_all add: name_of_def put_obj_def new_obj_def)
  have ni: "name_of ?t ?i = obj_name x" "t_objs ?t ?i = Some x" "t_next ?t = Suc ?i" "t_mmu ?t = t_mmu t"
    using o(1) by (simp_all add: name_of_def put_obj_def new_obj_def)
  have nm: "map (name_of ?t) (dr_files d) = map (name_of t) (dr_files d)"
    using same by simp
  have notin: "obj_name x \<notin> set (map (name_of t) (dr_files d))"
    using new d by (auto simp: dir_look_def map_of_eq_None_iff image_iff)
  have fs: "dr_files (add_entry ?i d) = dr_files d @ [?i]" by (simp add: add_entry_def)
  show "dir_ok di ?t"
    unfolding dir_ok_def gd fs
  proof (intro conjI exI [of _ "add_entry ?i d"])
    show "distinct (map (name_of ?t) (dr_files (add_entry ?i d)))"
      unfolding fs map_append list.map nm ni(1) using notin o(2) by simp
    show "\<forall>i \<in> set (dr_files (add_entry ?i d)). t_objs ?t i \<noteq> None \<and> i \<noteq> di \<and> i < t_next ?t"
      unfolding fs using o same(2) ni(2,3) less_SucI by fastforce
  qed (use ok o(1) ni in \<open>simp_all add: dir_ok_def\<close>)
  have pairs: "map (\<lambda>i. (name_of ?t i, i)) (dr_files d) = map (\<lambda>i. (name_of t i, i)) (dr_files d)"
    using same by simp
  have l: "dir_look di t = map_of (map (\<lambda>i. (name_of t i, i)) (dr_files d))"
    using d by (simp add: dir_look_def fun_eq_iff)
  then have "map_of (map (\<lambda>i. (name_of t i, i)) (dr_files d)) (obj_name x) = None"
    using new by simp
  note snoc = map_of_snoc [OF this, of ?i]
  have "dir_look di ?t = map_of (map (\<lambda>i. (name_of t i, i)) (dr_files d) @ [(obj_name x, ?i)])"
    unfolding pairs [symmetric] using gd fs ni(1) by (simp add: dir_look_def fun_eq_iff)
  then show "dir_look di ?t = (dir_look di t)(obj_name x \<mapsto> ?i)"
    unfolding snoc l .
qed


lemma create_enters:
  assumes ok: "dir_ok di t" and new: "dir_look di t name = None"
  shows "\<exists>t'. create_tmpfs c (tmpfs_from_dir di d0) name mode t = Some (t', 0) \<and> dir_ok di t'
     \<and> dir_look di t' = (dir_look di t)(name \<mapsto> t_next t) \<and> is_plain t' (t_next t)
     \<and> get_file (t_next t) t' = Some ((tmpfs_new_file name)\<lparr>f_mask := mode, f_uid := c_uid c, f_gid := c_gid c\<rparr>)"
proof -
  obtain d where d: "get_dir di t = Some d" "di < t_next t" using ok by (rule dir_okE)
  let ?f = "(tmpfs_new_file name)\<lparr>f_mask := mode, f_uid := c_uid c, f_gid := c_gid c\<rparr>"
  have n: "obj_name (File ?f) = name" by (simp add: obj_name_def tmpfs_new_file_def)
  let ?t = "put_obj di (Dir (add_entry (t_next t) d)) (fst (new_obj (File ?f) t))"
  have "create_tmpfs c (tmpfs_from_dir di d0) name mode t = Some (?t, 0)"
    using d(1) dir_scan [OF ok d(1)] new by (simp add: create_tmpfs_def new_obj_def Let_def)
  moreover have "t_objs ?t (t_next t) = Some (File ?f)" using d(2) by (simp add: put_obj_def new_obj_def)
  ultimately show ?thesis
    using enter_object [OF ok d(1), of "File ?f"] new unfolding n
    by (auto simp: is_plain_def get_file_def)
qed

text \<open>What \<open>unlink\<close> gives back to the frame allocator.\<close>

lemma release_blocks_ok:
  "fr_ok (t_mmu t) \<Longrightarrow> low_ok (t_mmu t) \<Longrightarrow>
   \<exists>t'. release_blocks bs t = Some t' \<and> fr_ok (t_mmu t') \<and> low_ok (t_mmu t') \<and> t_objs t' = t_objs t
     \<and> t_next t' = t_next t \<and> t_root t' = t_root t \<and> nframes (t_mmu t') = nframes (t_mmu t)
     \<and> kmem (t_mmu t') = kmem (t_mmu t)
     \<and> used (t_mmu t') = used (t_mmu t) - {g. g < nframes (t_mmu t) \<and> g \<in> (\<lambda>b. frame_of (b * 0x1000)) ` set bs}"
proof (induction bs arbitrary: t)
  case (Cons b bs)
  from mmu_release_frame_spec [OF Cons.prems, of "b * 0x1000"] obtain m where
    m: "mmu_release_frame (b * 0x1000) (t_mmu t) = Some m" "fr_ok m" "low_ok m" "nframes m = nframes (t_mmu t)"
      "kmem m = kmem (t_mmu t)"
      "used m = used (t_mmu t) - (if frame_of (b * 0x1000) < nframes (t_mmu t) then {frame_of (b * 0x1000)} else {})"
    by blast
  let ?t = "t\<lparr>t_mmu := m, t_total_blocks := t_total_blocks t - 1\<rparr>"
  obtain t' where t': "release_blocks bs ?t = Some t'" "fr_ok (t_mmu t')" "low_ok (t_mmu t')" "t_objs t' = t_objs t"
    "t_next t' = t_next t" "t_root t' = t_root t" "nframes (t_mmu t') = nframes m" "kmem (t_mmu t') = kmem m"
    "used (t_mmu t') = used m - {g. g < nframes m \<and> g \<in> (\<lambda>b. frame_of (b * 0x1000)) ` set bs}"
    using Cons.IH [of ?t] m(2,3) by auto
  have "release_blocks (b # bs) t = Some t'"
    using t'(1) m(1) by (simp add: release_blocks_def)
  moreover have "used (t_mmu t') = used (t_mmu t) - {g. g < nframes (t_mmu t) \<and> g \<in> (\<lambda>b. frame_of (b * 0x1000)) ` set (b # bs)}"
    unfolding t'(9) m(6) m(4) by auto
  ultimately show ?case using t' m(4,5) by auto
qed (simp add: release_blocks_def)


lemma map_of_remove1:
  "distinct (map g is) \<Longrightarrow> i \<in> set is \<Longrightarrow>
   map_of (map (\<lambda>j. (g j, j)) (remove1 i is)) = (map_of (map (\<lambda>j. (g j, j)) is))(g i := None)"
proof (induction "is")
  case (Cons k ks)
  show ?case
  proof (cases "i = k")
    case True
    then have "map_of (map (\<lambda>j. (g j, j)) ks) (g i) = None"
      using Cons.prems by (auto simp: map_of_eq_None_iff)
    then show ?thesis using True by (auto simp: fun_eq_iff)
  next
    case False
    then have "g k \<noteq> g i" using Cons.prems by auto
    then show ?thesis using Cons False by (auto simp: fun_eq_iff)
  qed
qed simp

lemma unlink_removes:
  assumes ok: "dir_ok di t" and found: "dir_look di t name = Some i" and plain: "t_objs t i = Some (File f)"
  shows "\<exists>t'. unlink_tmpfs (tmpfs_from_dir di d0) name t = Some (t', 0) \<and> dir_ok di t'
     \<and> dir_look di t' = (dir_look di t)(name := None) \<and> t_objs t' i = None
     \<and> used (t_mmu t') = used (t_mmu t) -
         {g. g < nframes (t_mmu t) \<and> g \<in> (\<lambda>b. frame_of (b * 0x1000)) ` set (f_blocks f)}
     \<and> (\<forall>j. j \<noteq> i \<and> j \<noteq> di \<longrightarrow> t_objs t' j = t_objs t j) \<and> kmem (t_mmu t') = kmem (t_mmu t) \<and> nframes (t_mmu t') = nframes (t_mmu t)"
proof -
  obtain d where d: "get_dir di t = Some d" "t_objs t di = Some (Dir d)" "di < t_next t"
    "distinct (map (name_of t) (dr_files d))"
    "\<forall>j \<in> set (dr_files d). t_objs t j \<noteq> None \<and> j \<noteq> di \<and> j < t_next t"
    using ok by (rule dir_okE)
  have look: "dir_look di t = map_of (map (\<lambda>i. (name_of t i, i)) (dr_files d))"
    using d(1) by (simp add: dir_look_def fun_eq_iff)
  have i: "i \<in> set (dr_files d)" "name_of t i = name" using found map_of_SomeD [of _ name i] unfolding look by force+
  obtain t1 where t1: "release_blocks (f_blocks f) t = Some t1" "fr_ok (t_mmu t1)" "low_ok (t_mmu t1)"
    "t_objs t1 = t_objs t" "t_next t1 = t_next t"
    "used (t_mmu t1) = used (t_mmu t) - {g. g < nframes (t_mmu t) \<and> g \<in> (\<lambda>b. frame_of (b * 0x1000)) ` set (f_blocks f)}"
    "kmem (t_mmu t1) = kmem (t_mmu t)" "nframes (t_mmu t1) = nframes (t_mmu t)"
    using release_blocks_ok [of t "f_blocks f"] ok by (auto simp: dir_ok_def)
  define d' where "d' = d\<lparr>dr_files := remove1 i (dr_files d)\<rparr>"
  define t2 where "t2 = t1\<lparr>t_objs := (t_objs t)(di \<mapsto> Dir d', i := None)\<rparr>"
  have di: "di \<noteq> i" using bspec [OF d(5) i(1)] by simp
  have un: "unlink_tmpfs (tmpfs_from_dir di d0) name t = Some (t2, 0)"
    using d(1) dir_scan [OF ok d(1)] found plain t1(1,4)
    by (simp add: unlink_tmpfs_def tmpfs_free_file_def t2_def d'_def put_obj_def Let_def)
  have dist: "distinct (dr_files d)" using d(4) by (simp add: distinct_map)
  then have fs: "dr_files d' = remove1 i (dr_files d)" "set (dr_files d') = set (dr_files d) - {i}"
    by (simp_all add: d'_def)
  have same: "name_of t2 j = name_of t j" "t_objs t2 j = t_objs t j" if "j \<in> set (dr_files d')" for j
    using that d(5) unfolding fs(2) by (auto simp: name_of_def t2_def)
  then have nm: "map (name_of t2) (dr_files d') = map (name_of t) (dr_files d')"
    and pairs: "map (\<lambda>j. (name_of t2 j, j)) (dr_files d') = map (\<lambda>j. (name_of t j, j)) (dr_files d')"
    by simp_all
  have gd: "get_dir di t2 = Some d'" using di by (simp add: t2_def get_dir_def)
  have "dir_ok di t2"
    unfolding dir_ok_def gd
  proof (intro conjI exI [of _ d'])
    show "distinct (map (name_of t2) (dr_files d'))"
      unfolding nm using d(4) dist fs by (auto simp: distinct_map intro: inj_on_subset)
    show "\<forall>j \<in> set (dr_files d'). t_objs t2 j \<noteq> None \<and> j \<noteq> di \<and> j < t_next t2"
    proof
      fix j
      assume j: "j \<in> set (dr_files d')"
      then show "t_objs t2 j \<noteq> None \<and> j \<noteq> di \<and> j < t_next t2"
        unfolding same(2) [OF j] using d(5) fs(2) t1(5) by (simp add: t2_def)
    qed
  qed (use t1 d(3) in \<open>simp_all add: t2_def\<close>)
  moreover have "dir_look di t2 = (dir_look di t)(name := None)"
  proof -
    have "dir_look di t2 = map_of (map (\<lambda>j. (name_of t j, j)) (remove1 i (dr_files d)))"
      unfolding pairs [unfolded fs(1), symmetric] using gd by (simp add: dir_look_def fun_eq_iff fs(1))
    then show ?thesis unfolding look map_of_remove1 [OF d(4) i(1)] i(2) .
  qed
  ultimately show ?thesis using un t1(6-8) by (simp add: t2_def)
qed

interpretation td: directory "dir_ok di" "dir_look di" is_plain
    "\<lambda>name. create_tmpfs c (tmpfs_from_dir di d) name mode" "unlink_tmpfs (tmpfs_from_dir di d)"
  for di c d mode
proof
  fix t name
  assume ok: "dir_ok di t"
  then obtain d1 where d1: "get_dir di t = Some d1" by (rule dir_okE)
  note scan = dir_scan [OF ok d1]
  { assume "dir_look di t name = None"
    from create_enters [OF ok this]
    show "\<exists>t' x. create_tmpfs c (tmpfs_from_dir di d) name mode t = Some (t', 0) \<and> dir_ok di t'
       \<and> dir_look di t' = (dir_look di t)(name \<mapsto> x) \<and> is_plain t' x" by blast }
  { assume "dir_look di t name \<noteq> None"
    then show "create_tmpfs c (tmpfs_from_dir di d) name mode t = Some (t, - EEXIST)"
      using d1 scan by (auto simp: create_tmpfs_def) }
  { fix x
    assume "dir_look di t name = Some x" "is_plain t x"
    then show "\<exists>t'. unlink_tmpfs (tmpfs_from_dir di d) name t = Some (t', 0) \<and> dir_ok di t'
       \<and> dir_look di t' = (dir_look di t)(name := None)"
      using unlink_removes [OF ok] by (fastforce simp: is_plain_def) }
  { assume "dir_look di t name = None"
    then show "unlink_tmpfs (tmpfs_from_dir di d) name t = Some (t, - ENOENT)"
      using d1 scan by (simp add: unlink_tmpfs_def) }
qed


text \<open>
  C31. Creating a name that a directory does not have and unlinking it again is the identity on
  what the directory holds: the create succeeds and the name is then found, a second create of
  it is refused with \<open>EEXIST\<close> and changes nothing, the unlink succeeds and leaves exactly the
  old entries, and a second unlink is refused with \<open>ENOENT\<close>.
\<close>

theorem create_unlink:
  assumes "dir_ok di t" and "dir_look di t name = None"
  shows "\<exists>t1 t2. create_tmpfs c (tmpfs_from_dir di d) name mode t = Some (t1, 0)
    \<and> dir_look di t1 name \<noteq> None \<and> create_tmpfs c (tmpfs_from_dir di d) name mode t1 = Some (t1, - EEXIST)
    \<and> unlink_tmpfs (tmpfs_from_dir di d) name t1 = Some (t2, 0) \<and> dir_ok di t2 \<and> dir_look di t2 = dir_look di t
    \<and> unlink_tmpfs (tmpfs_from_dir di d) name t2 = Some (t2, - ENOENT)"
  using td.add_twice [OF assms, of c d mode] td.add_del [OF assms, of c d mode] by auto

text \<open>
  C32. Unlinking a file takes its name out of the directory, while all other names stay, removes the
  object and gives every block of the file back to the frame allocator; a file that has no block in
  common with it stays what it is: its object is kept, its blocks stay in use and its contents are
  unchanged. (What the heap does with the memory of the removed object, of its name and of its array of
  block numbers is not part of the model of tmpfs.)
\<close>

theorem unlink_releases_blocks:
  assumes ok: "dir_ok di t" and found: "dir_look di t name = Some i" and f: "get_file i t = Some f" "file_ok t f"
  shows "\<exists>t'. unlink_tmpfs (tmpfs_from_dir di d) name t = Some (t', 0) \<and> dir_ok di t'
    \<and> dir_look di t' = (dir_look di t)(name := None) \<and> t_objs t' i = None
    \<and> unat ` set (f_blocks f) \<inter> used (t_mmu t') = {}
    \<and> (\<forall>j g. j \<noteq> i \<and> get_file j t = Some g \<and> file_ok t g \<and> set (f_blocks g) \<inter> set (f_blocks f) = {} \<longrightarrow>
         get_file j t' = Some g \<and> file_ok t' g \<and> file_bytes t' g = file_bytes t g)"
proof -
  have x: "t_objs t i = Some (File f)"
    using f(1) by (simp add: get_file_def split: option.splits tmpfs_obj.splits)
  obtain d1 where d1: "t_objs t di = Some (Dir d1)" using ok by (rule dir_okE)
  have fo: "frame_of (b * 0x1000) = unat b \<and> unat b < nframes (t_mmu t)" if "b \<in> set (f_blocks f)" for b
  proof -
    have "unat b < nframes (t_mmu t)" "nframes (t_mmu t) \<le> 134217728"
      using that f(2) ok by (auto simp: file_ok_def blocks_ok_def dir_ok_def fr_ok_def)
    then show ?thesis using frame_of_shift [of b] by (simp add: push_bit_eq_mult)
  qed
  have fr: "{g. g < nframes (t_mmu t) \<and> g \<in> (\<lambda>b. frame_of (b * 0x1000)) ` set (f_blocks f)} = unat ` set (f_blocks f)"
    using fo by (auto intro!: image_eqI)
  obtain t' where t': "unlink_tmpfs (tmpfs_from_dir di d) name t = Some (t', 0)" "dir_ok di t'"
    "dir_look di t' = (dir_look di t)(name := None)" "t_objs t' i = None"
    "used (t_mmu t') = used (t_mmu t) - unat ` set (f_blocks f)" "\<forall>j. j \<noteq> i \<and> j \<noteq> di \<longrightarrow> t_objs t' j = t_objs t j"
    "kmem (t_mmu t') = kmem (t_mmu t)" "nframes (t_mmu t') = nframes (t_mmu t)"
    using unlink_removes [OF ok found x, of d, unfolded fr] by blast
  have "get_file j t' = Some g \<and> file_ok t' g \<and> file_bytes t' g = file_bytes t g"
    if g: "j \<noteq> i" "get_file j t = Some g" "file_ok t g" "set (f_blocks g) \<inter> set (f_blocks f) = {}" for j g
  proof -
    have "j \<noteq> di" using g(2) d1 by (auto simp: get_file_def)
    then have "get_file j t' = Some g" using t'(6) g(1,2) by (simp add: get_file_def)
    moreover have "unat b \<notin> unat ` set (f_blocks f)" if "b \<in> set (f_blocks g)" for b
      using that g(4) by (auto simp: word_unat_eq_iff [symmetric])
    then have "file_ok t' g" using g(3) t'(5,8) by (auto simp: file_ok_def blocks_ok_def)
    ultimately show ?thesis using byte_at_kmem [OF t'(7)] by (simp add: file_bytes_def segment_def)
  qed
  then show ?thesis using t'(1-5) by (intro exI [of _ t']) blast
qed

text \<open>
  A directory can never be removed: unlinking a name that is a directory is refused with
  \<open>ENOTEMPTY\<close>, with the state unchanged, also when the directory has no entries.
\<close>

lemma unlink_directory_refused:
  assumes "dir_ok di t" and "dir_look di t name = Some i" and "get_dir i t = Some e"
  shows "unlink_tmpfs (tmpfs_from_dir di d) name t = Some (t, - ENOTEMPTY)"
proof -
  obtain d1 where d1: "get_dir di t = Some d1" using assms(1) by (rule dir_okE)
  have "t_objs t i = Some (Dir e)"
    using assms(3) by (simp add: get_dir_def split: option.splits tmpfs_obj.splits)
  then show ?thesis using d1 dir_scan [OF assms(1) d1] assms(2) by (simp add: unlink_tmpfs_def)
qed

text \<open>
  C33. Listing a directory by increasing index, of live entries with pairwise different names as the
  operations of the driver leave it, enumerates its names: up to the first index that
  \<open>readdir\<close> refuses it delivers (after the two dot entries of a directory that is not the root)
  each name that a lookup in the directory finds exactly once, and nothing else.
\<close>

theorem readdir_enumerates:
  assumes ok: "dir_ok di t" and d: "get_dir di t = Some d"
  shows "\<exists>ns. distinct ns \<and> set ns = {name. dir_look di t name \<noteq> None}
    \<and> (\<forall>index. map_option (map_option d_name) (readdir_tmpfs (tmpfs_from_dir di d0) index t) =
         (let ds = (if di = t_root t then ns else ''.'' # ''..'' # ns) in
          Some (if index < length ds then Some (ds ! index) else None)))"
proof (intro exI conjI)
  let ?ns = "map (name_of t) (dr_files d)"
  have live: "t_objs t (dr_files d ! k) \<noteq> None" if "k < length (dr_files d)" for k
    using ok d nth_mem [OF that] by (auto simp: dir_ok_def)
  show "distinct ?ns" using ok d by (auto simp: dir_ok_def)
  show "set ?ns = {name. dir_look di t name \<noteq> None}"
    using d by (auto simp: dir_look_def map_of_eq_None_iff image_iff dest: map_of_SomeD)
  have entry: "map_option (map_option d_name) (do {
       x \<leftarrow> t_objs t (dr_files d ! k);
       Some (Some \<lparr>d_ino = of_nat (dr_files d ! k), d_name = obj_name x\<rparr>) }) = Some (Some (name_of t (dr_files d ! k)))"
    if "k < length (dr_files d)" for k
    using live [OF that] by (auto simp: name_of_def)
  show "\<forall>index. map_option (map_option d_name) (readdir_tmpfs (tmpfs_from_dir di d0) index t) =
         (let ds = (if di = t_root t then ?ns else ''.'' # ''..'' # ?ns) in
          Some (if index < length ds then Some (ds ! index) else None))"
  proof
    fix index
    consider "di = t_root t" | "di \<noteq> t_root t" "index = 0" | "di \<noteq> t_root t" "index = 1"
      | k where "di \<noteq> t_root t" "index = Suc (Suc k)"
      by (metis One_nat_def not0_implies_Suc)
    then show "map_option (map_option d_name) (readdir_tmpfs (tmpfs_from_dir di d0) index t) =
         (let ds = (if di = t_root t then ?ns else ''.'' # ''..'' # ?ns) in
          Some (if index < length ds then Some (ds ! index) else None))"
      by cases (use d entry in \<open>simp_all add: readdir_tmpfs_def Let_def\<close>)
  qed
qed


section \<open>Witnesses\<close>

text \<open>
  A small file system: the root directory 0 holds the file \<open>a\<close> (object 1, three bytes in frame
  0) and the empty directory \<open>d\<close> (object 2).
\<close>

definition example_file :: tmpfs_file where
  "example_file = (tmpfs_new_file ''a'')\<lparr>f_length := 3, f_blocks := [0]\<rparr>"

definition example_dir :: tmpfs_dir where
  "example_dir = (tmpfs_new_dir '''' None)\<lparr>dr_files := [1, 2]\<rparr>"

definition example_tmpfs :: tmpfs where
  "example_tmpfs = \<lparr>t_mmu = example_mmu\<lparr>frames := [1, 0], lowest_available := 1\<rparr>,
     t_objs = [0 \<mapsto> Dir example_dir, 1 \<mapsto> File example_file, 2 \<mapsto> Dir (tmpfs_new_dir ''d'' (Some 0))],
     t_next = 3, t_root = 0, t_total_blocks = 1\<rparr>"

lemma example_tmpfs_simps [simp]:
  "get_dir 0 example_tmpfs = Some example_dir" "get_file 1 example_tmpfs = Some example_file"
  "get_file (Suc 0) example_tmpfs = Some example_file"
  "get_dir 2 example_tmpfs = Some (tmpfs_new_dir ''d'' (Some 0))"
  "dr_files example_dir = [1, 2]" "f_length example_file = 3" "f_blocks example_file = [0]"
  "name_of example_tmpfs 1 = ''a''" "name_of example_tmpfs (Suc 0) = ''a''" "name_of example_tmpfs 2 = ''d''"
  "t_root example_tmpfs = 0"
  by (simp_all add: get_dir_def get_file_def example_tmpfs_def example_dir_def example_file_def tmpfs_new_file_def
      name_of_def obj_name_def tmpfs_new_dir_def)

lemma example_tmpfs_mmu [simp]:
  "fr_ok (t_mmu example_tmpfs)" "low_ok (t_mmu example_tmpfs)" "used (t_mmu example_tmpfs) = {0}"
  "nframes (t_mmu example_tmpfs) = 64" "kmem (t_mmu example_tmpfs) = (\<lambda>_. 0)"
proof -
  have "f < 64 \<Longrightarrow> bit ([1, 0 :: u32] ! (f div 32)) (f mod 32) \<longleftrightarrow> f = 0" for f :: nat
    by (auto simp: nth_Cons' bit_1_iff div_eq_0_iff)
  then have "used (t_mmu example_tmpfs) = {0}"
    by (auto simp: example_tmpfs_def example_mmu_def used_def nframes_def)
  then show "used (t_mmu example_tmpfs) = {0}" "fr_ok (t_mmu example_tmpfs)" "low_ok (t_mmu example_tmpfs)"
    "nframes (t_mmu example_tmpfs) = 64" "kmem (t_mmu example_tmpfs) = (\<lambda>_. 0)"
    by (simp_all add: fr_ok_def low_ok_def nframes_def) (simp_all add: example_tmpfs_def example_mmu_def)
qed

lemma example_tmpfs_ok [simp]: "file_ok example_tmpfs example_file" "dir_ok 0 example_tmpfs"
proof -
  show "file_ok example_tmpfs example_file"
    by (simp add: file_ok_def blocks_ok_def) (simp add: example_file_def tmpfs_new_file_def)
  have "t_next example_tmpfs = 3" "t_objs example_tmpfs 1 \<noteq> None" "t_objs example_tmpfs 2 \<noteq> None"
    by (simp_all add: example_tmpfs_def)
  then show "dir_ok 0 example_tmpfs" by (auto simp: dir_ok_def)
qed

lemma example_tmpfs_look [simp]:
  "dir_look 0 example_tmpfs name = (if name = ''a'' then Some 1 else if name = ''d'' then Some 2 else None)"
  by (simp add: dir_look_def)

lemma example_tmpfs_spare: "Suc 0 \<le> card (spare (t_mmu example_tmpfs))"
proof -
  have "1 \<in> spare (t_mmu example_tmpfs)" by (simp add: spare_def whole_words_def)
  then have "spare (t_mmu example_tmpfs) \<noteq> {}" by blast
  then have "0 < card (spare (t_mmu example_tmpfs))" by (simp only: card_gt_0_iff finite_spare simp_thms)
  then show ?thesis by simp
qed

definition example_node :: fs_node where
  "example_node = fs_node_zero\<lparr>n_device := Dev_tmpfs 1\<rparr>"

lemma example_node_device [simp]: "n_device example_node = Dev_tmpfs 1"
  by (simp add: example_node_def)

lemma example_file_bytes [simp]: "file_bytes example_tmpfs example_file = [0, 0, 0]"
  by (simp add: file_bytes_def segment_def byte_at_def numeral_3_eq_3)

lemma read_tmpfs_contents_witness:
  "read_tmpfs example_node 1 10 [7, 7, 7] example_tmpfs = Some ([0, 0, 7], 2)"
proof -
  have "read_tmpfs example_node 1 10 [7, 7, 7] example_tmpfs =
      Some (take 2 (drop 1 (file_bytes example_tmpfs example_file)) @ drop 2 [7, 7, 7], 2)"
    by (rule read_tmpfs_contents [of _ _ 1]) simp_all
  then show ?thesis by simp
qed

lemma write_tmpfs_contents_witness:
  "\<exists>t f. write_tmpfs example_node 2 3 [1, 2, 3] example_tmpfs = Some (t, 3) \<and> get_file 1 t = Some f
     \<and> file_bytes t f = [0, 0, 1, 2, 3]"
  using write_tmpfs_contents [of example_tmpfs example_node 1 example_file 2 3 "[1, 2, 3]"] example_tmpfs_spare
  by force

lemma read_tmpfs_past_end_witness:
  "read_tmpfs example_node 4 1 [7] example_tmpfs = None"
  by (rule read_tmpfs_past_end [of example_node 1 example_tmpfs example_file]) simp_all

lemma create_unlink_witness:
  "\<exists>t1 t2. create_tmpfs \<lparr>c_uid = 1, c_gid = 1, c_fds = []\<rparr> (tmpfs_from_dir 0 example_dir) ''b'' 0 example_tmpfs = Some (t1, 0)
     \<and> unlink_tmpfs (tmpfs_from_dir 0 example_dir) ''b'' t1 = Some (t2, 0)
     \<and> dir_look 0 t2 = dir_look 0 example_tmpfs"
  using create_unlink [of 0 example_tmpfs "''b''" "\<lparr>c_uid = 1, c_gid = 1, c_fds = []\<rparr>" example_dir 0]
  by auto

lemma unlink_releases_blocks_witness:
  "\<exists>t. unlink_tmpfs (tmpfs_from_dir 0 example_dir) ''a'' example_tmpfs = Some (t, 0) \<and> 0 \<notin> used (t_mmu t)"
  using unlink_releases_blocks [of 0 example_tmpfs "''a''" 1 example_file example_dir] by auto

lemma unlink_directory_refused_witness:
  "unlink_tmpfs (tmpfs_from_dir 0 example_dir) ''d'' example_tmpfs = Some (example_tmpfs, - ENOTEMPTY)"
  using unlink_directory_refused [of 0 example_tmpfs "''d''" 2 "tmpfs_new_dir ''d'' (Some 0)" example_dir] by simp

lemma readdir_enumerates_witness:
  "\<exists>ns. distinct ns \<and> set ns = {''a'', ''d''}
     \<and> (\<forall>index. map_option (map_option d_name) (readdir_tmpfs (tmpfs_from_dir 0 example_dir) index example_tmpfs) =
          Some (if index < length ns then Some (ns ! index) else None))"
proof -
  have "{name. dir_look 0 example_tmpfs name \<noteq> None} = {''a'', ''d''}" by auto
  then show ?thesis
    using readdir_enumerates [of 0 example_tmpfs example_dir example_dir] by (simp add: Let_def)
qed

end
