(* ===== verification/Tty.thy ===== *)
theory Tty
  imports Ringbuffer Cstring Fs_Node
begin

text \<open>
  The pseudo terminals of \<open>kernel/sys/fs/dev/tty.c\<close>: a terminal is two ring buffers with the
  line discipline of its \<open>termios\<close> between them. Terminals are objects of a map, named by their
  address. What the terminal driver \<open>terminal_pty_putchar\<close> of \<open>kmain.c\<close> prints is appended to a
  console log. The pointers \<open>write_in\<close> and \<open>fill_name\<close> are only ever set to the functions of
  \<open>tty.c\<close>; the line buffer \<open>canon_buf\<close> is never used. The contents that \<open>malloc\<close> leaves in the
  two rings are arguments of \<open>pty_new\<close>.
\<close>

section \<open>State\<close>

record winsize =
  ws_row :: "u16 option"
  ws_col :: "u16 option"
  ws_xpixel :: "u16 option"
  ws_ypixel :: "u16 option"

record termios =
  iflag :: u32
  oflag :: u32
  cflag :: u32
  lflag :: u32
  c_cc :: "u8 option list"  \<comment> \<open>\<open>None\<close> is a slot nobody has set\<close>

datatype write_out_fn = Pty_write_out | Terminal_pty_putchar

record pty =
  pty_name :: int
  pty_master :: fs_node
  pty_slave :: fs_node
  pty_size :: winsize
  pty_ios :: termios
  pty_in :: ringbuffer
  pty_out :: ringbuffer
  pty_canon_size :: nat
  pty_canon_len :: nat
  pty_control_pid :: int
  pty_foreground_pid :: int
  pty_write_out :: write_out_fn

record ttys =
  y_ptys :: "nat \<Rightarrow> pty option"
  y_next :: nat
  y_map :: "(int \<times> nat) list"
  y_capacity :: nat
  y_console :: "u8 list"

abbreviation (input) VMIN :: nat where "VMIN \<equiv> 6"
abbreviation (input) BRKINT :: u32 where "BRKINT \<equiv> 1"
abbreviation (input) ICRNL :: u32 where "ICRNL \<equiv> 2"
abbreviation (input) IGNCR :: u32 where "IGNCR \<equiv> 8"
abbreviation (input) INLCR :: u32 where "INLCR \<equiv> 32"
abbreviation (input) ISTRIP :: u32 where "ISTRIP \<equiv> 128"
abbreviation (input) IUCLC :: u32 where "IUCLC \<equiv> 256"
abbreviation (input) OPOST :: u32 where "OPOST \<equiv> 1"
abbreviation (input) OLCUC :: u32 where "OLCUC \<equiv> 2"
abbreviation (input) ONLCR :: u32 where "ONLCR \<equiv> 4"
abbreviation (input) ONLRET :: u32 where "ONLRET \<equiv> 32"
abbreviation (input) ICANON :: u32 where "ICANON \<equiv> 2"
abbreviation (input) ECHO :: u32 where "ECHO \<equiv> 8"

definition put_pty :: "nat \<Rightarrow> pty \<Rightarrow> ttys \<Rightarrow> ttys" where
  "put_pty i p y = y\<lparr>y_ptys := (y_ptys y)(i \<mapsto> p)\<rparr>"

definition pty_id :: "fs_node \<Rightarrow> nat option" where
  "pty_id node = (case n_device node of Dev_pty i \<Rightarrow> Some i | _ \<Rightarrow> None)"

section \<open>The table of terminals\<close>

definition pty_add :: "int \<Rightarrow> nat \<Rightarrow> ttys \<Rightarrow> ttys" where
  "pty_add name i y = y\<lparr>
     y_capacity := (if length (y_map y) \<ge> y_capacity y then y_capacity y + 32 else y_capacity y),
     y_map := y_map y @ [(name, i)]\<rparr>"

fun remove_index :: "int \<Rightarrow> (int \<times> nat) list \<Rightarrow> (int \<times> nat) list" where
  "remove_index index [] = []"
| "remove_index index ((k, i) # xs) = (if k = index then xs else (k, i) # remove_index index xs)"

definition pty_remove :: "int \<Rightarrow> ttys \<Rightarrow> ttys" where
  "pty_remove index y = y\<lparr>y_map := remove_index index (y_map y)\<rparr>"

definition pty_get :: "int \<Rightarrow> ttys \<Rightarrow> nat option" where
  "pty_get index y = map_of (y_map y) index"

section \<open>The line discipline\<close>

definition pty_put_in :: "nat \<Rightarrow> u8 \<Rightarrow> ttys \<Rightarrow> ttys option" where
  "pty_put_in i c y = do {
     p \<leftarrow> y_ptys y i;
     (rb, _) \<leftarrow> ringbuffer_write (pty_in p) 1 [c];
     Some (put_pty i (p\<lparr>pty_in := rb\<rparr>) y) }"

definition pty_put_out :: "nat \<Rightarrow> u8 \<Rightarrow> ttys \<Rightarrow> ttys option" where
  "pty_put_out i c y = do {
     p \<leftarrow> y_ptys y i;
     (case pty_write_out p of
       Pty_write_out \<Rightarrow> do {
         (rb, _) \<leftarrow> ringbuffer_write (pty_out p) 1 [c];
         Some (put_pty i (p\<lparr>pty_out := rb\<rparr>) y) }
     | Terminal_pty_putchar \<Rightarrow> Some (y\<lparr>y_console := y_console y @ [c]\<rparr>)) }"

definition tty_output_process_slave :: "nat \<Rightarrow> u8 \<Rightarrow> ttys \<Rightarrow> ttys option" where
  "tty_output_process_slave i c y = do {
     p \<leftarrow> y_ptys y i;
     let flags = oflag (pty_ios p);
     if flags AND OPOST = 0 then pty_put_out i c y
     else if c = 0x0A \<and> flags AND ONLCR \<noteq> 0 then do { y \<leftarrow> pty_put_out i 0x0A y; pty_put_out i 0x0D y }
     else if c = 0x0D \<and> flags AND ONLRET \<noteq> 0 then Some y
     else let c = (if flags AND OLCUC \<noteq> 0 \<and> c \<ge> 0x61 \<and> c \<le> 0x7A then c + 0x41 - 0x61 else c) in pty_put_out i c y }"

definition tty_output_process :: "nat \<Rightarrow> u8 \<Rightarrow> ttys \<Rightarrow> ttys option" where
  "tty_output_process i c y = tty_output_process_slave i c y"

text \<open>The test of \<open>IGNCR\<close> multiplies where it means to mask.\<close>

definition tty_input_process :: "nat \<Rightarrow> u8 \<Rightarrow> ttys \<Rightarrow> ttys option" where
  "tty_input_process i c y = do {
     p \<leftarrow> y_ptys y i;
     let flags = iflag (pty_ios p);
     let c = (if flags AND ISTRIP \<noteq> 0 then c AND 0x7F else c);
     if flags * IGNCR \<noteq> 0 \<and> c = 0x0D then Some y
     else do {
       let c = (if flags AND INLCR \<noteq> 0 \<and> c = 0x0A then 0x0D
                else if flags AND ICRNL \<noteq> 0 \<and> c = 0x0D then 0x0A else c);
       let c = (if flags AND IUCLC \<noteq> 0 \<and> c \<ge> 0x41 \<and> c \<le> 0x5A then c - 0x41 + 0x61 else c);
       y \<leftarrow> (if lflag (pty_ios p) AND ECHO \<noteq> 0 then tty_output_process i c y else Some y);
       pty_put_in i c y } }"

section \<open>The master and the slave device\<close>

abbreviation (input) IOCTL_TYPE :: nat where "IOCTL_TYPE \<equiv> 0xF000"
abbreviation (input) IOCTL_TYPE_TTY :: int where "IOCTL_TYPE_TTY \<equiv> 1"

definition ioctl_pty :: "nat \<Rightarrow> int" where
  "ioctl_pty request = (if request = IOCTL_TYPE then IOCTL_TYPE_TTY else - EINVAL)"

definition read_pty_master :: "fs_node \<Rightarrow> nat \<Rightarrow> u8 list \<Rightarrow> ttys \<Rightarrow> (ttys \<times> u8 list \<times> nat) option" where
  "read_pty_master node sz buffer y = do {
     i \<leftarrow> pty_id node;
     p \<leftarrow> y_ptys y i;
     (rb, buffer, n) \<leftarrow> ringbuffer_read (pty_out p) sz buffer;
     Some (put_pty i (p\<lparr>pty_out := rb\<rparr>) y, buffer, n) }"

definition write_pty_master :: "fs_node \<Rightarrow> nat \<Rightarrow> u8 list \<Rightarrow> ttys \<Rightarrow> (ttys \<times> nat) option" where
  "write_pty_master node sz buffer y = do {
     i \<leftarrow> pty_id node;
     bytes \<leftarrow> mem_read buffer 0 sz;
     y \<leftarrow> for_each bytes (tty_input_process i) y;
     Some (y, sz) }"

definition read_pty_slave :: "fs_node \<Rightarrow> nat \<Rightarrow> u8 list \<Rightarrow> ttys \<Rightarrow> (ttys \<times> u8 list \<times> nat) option" where
  "read_pty_slave node sz buffer y = do {
     i \<leftarrow> pty_id node;
     p \<leftarrow> y_ptys y i;
     n \<leftarrow> (if cflag (pty_ios p) AND ICANON \<noteq> 0 then Some sz
          else do {
            slot \<leftarrow> mem_load (c_cc (pty_ios p)) VMIN;
            vmin \<leftarrow> slot;
            let readable = ringbuffer_readable (pty_in p);
            Some (if vmin = 0 then (if sz < readable then sz else readable)
                  else if unat vmin < sz then unat vmin else sz) });
     (rb, buffer, n) \<leftarrow> ringbuffer_read (pty_in p) n buffer;
     Some (put_pty i (p\<lparr>pty_in := rb\<rparr>) y, buffer, n) }"

definition write_pty_slave :: "fs_node \<Rightarrow> nat \<Rightarrow> u8 list \<Rightarrow> ttys \<Rightarrow> (ttys \<times> nat) option" where
  "write_pty_slave node sz buffer y = do {
     i \<leftarrow> pty_id node;
     bytes \<leftarrow> mem_read buffer 0 sz;
     y \<leftarrow> for_each bytes (tty_output_process_slave i) y;
     Some (y, sz) }"

definition close_pty_slave :: "fs_node \<Rightarrow> ttys \<Rightarrow> ttys option" where
  "close_pty_slave node y = do {
     i \<leftarrow> pty_id node;
     p \<leftarrow> y_ptys y i;
     Some (if pty_name p \<noteq> 0 then pty_remove (pty_name p) y else y) }"

definition pty_master_create :: "cred \<Rightarrow> nat \<Rightarrow> fs_node" where
  "pty_master_create c i = fs_node_zero\<lparr>n_name := ''pty master'', n_uid := c_uid c, n_gid := c_gid c,
     n_mask := 0x1B6, n_device := Dev_pty i, n_flags := FS_PIPE, n_read := Some Read_pty_master,
     n_write := Some Write_pty_master, n_open := Some Open_pty_master, n_readdir := None, n_finddir := None,
     n_ioctl_pty := True\<rparr>"

definition pty_slave_create :: "cred \<Rightarrow> nat \<Rightarrow> fs_node" where
  "pty_slave_create c i = fs_node_zero\<lparr>n_name := ''pty slave'', n_uid := c_uid c, n_gid := c_gid c,
     n_mask := 0x190, n_device := Dev_pty i, n_flags := FS_CHARDEVICE, n_read := Some Read_pty_slave,
     n_write := Some Write_pty_slave, n_open := Some Open_pty_slave, n_close := Some Close_pty_slave,
     n_readdir := None, n_finddir := None, n_ioctl_pty := True\<rparr>"

section \<open>\<open>/dev/tty\<close> and \<open>/dev/pts\<close>\<close>

text \<open>The name of a terminal, written into a buffer of cells.\<close>

definition tty_fill_name :: "pty \<Rightarrow> string \<Rightarrow> string option" where
  "tty_fill_name p buf = do {
     buf \<leftarrow> strcpy buf 0 (''/dev/pts/'' @ [NUL]);
     (buf, _) \<leftarrow> itoa (pty_name p) buf 9 10;
     Some buf }"

text \<open>The text of the C string at the start of a buffer.\<close>

definition text_of :: "string \<Rightarrow> string option" where
  "text_of cells = do { n \<leftarrow> strlen cells; Some (take n cells) }"

fun controlling_pty :: "fs_node option option list \<Rightarrow> nat option option" where
  "controlling_pty [] = Some None"
| "controlling_pty (slot # fds) = do {
     fd \<leftarrow> slot;
     (case fd of None \<Rightarrow> controlling_pty fds
      | Some node \<Rightarrow>
          (if \<not> n_zeroed node then None
           else if (if n_ioctl_pty node then ioctl_pty IOCTL_TYPE else 0) = IOCTL_TYPE_TTY
                then map_option Some (pty_id node)
                else controlling_pty fds)) }"

definition readlink_dev_tty :: "cred \<Rightarrow> string \<Rightarrow> nat \<Rightarrow> ttys \<Rightarrow> (string \<times> nat) option" where
  "readlink_dev_tty c buf sz y = do {
     found \<leftarrow> controlling_pty (take 3 (c_fds c));
     name \<leftarrow> (case found of
         None \<Rightarrow> strcpy (replicate 256 NUL) 0 (''/dev/null'' @ [NUL])
       | Some i \<Rightarrow> do { p \<leftarrow> y_ptys y i; tty_fill_name p (replicate 256 NUL) });
     l \<leftarrow> strlen name;
     let len = l + 1;
     if sz < len then do {
       bytes \<leftarrow> mem_read name 0 sz;
       buf \<leftarrow> mem_write buf 0 bytes;
       buf \<leftarrow> mem_store buf (sub64 sz 1) NUL;
       Some (buf, sub64 sz 1) }
     else do {
       bytes \<leftarrow> mem_read name 0 len;
       buf \<leftarrow> mem_write buf 0 bytes;
       Some (buf, len - 1) } }"

definition create_dev_tty :: fs_node where
  "create_dev_tty = fs_node_zero\<lparr>n_inode := 0, n_name := ''tty'', n_mask := 0x1FF, n_uid := 0, n_gid := 0,
     n_flags := FS_FILE OR FS_SYMLINK, n_readlink := Some Readlink_dev_tty, n_length := 1, n_nlink := 1\<rparr>"

definition readdir_pty :: "nat \<Rightarrow> ttys \<Rightarrow> dirent option option" where
  "readdir_pty index y =
     (if index = 0 then Some (Some \<lparr>d_ino = 0, d_name = ''.''\<rparr>)
      else if index = 1 then Some (Some \<lparr>d_ino = 0, d_name = ''..''\<rparr>)
      else let index = index - 2 in
        if index \<ge> length (y_map y) then Some None
        else do {
          p \<leftarrow> y_ptys y (snd (y_map y ! index));
          (cells, _) \<leftarrow> itoa (pty_name p) (replicate 256 NUL) 0 10;
          name \<leftarrow> text_of cells;
          Some (Some \<lparr>d_ino = of_int (pty_name p), d_name = name\<rparr>) })"

definition finddir_pty :: "string \<Rightarrow> ttys \<Rightarrow> fs_node option option" where
  "finddir_pty name y =
     (if length name < 1 then Some None
      else do {
        n \<leftarrow> atoi (name @ [NUL]) 10;
        (case pty_get n y of None \<Rightarrow> Some None
         | Some i \<Rightarrow> do { p \<leftarrow> y_ptys y i; Some (Some (pty_slave p)) }) })"

definition create_pty_dir :: fs_node where
  "create_pty_dir = fs_node_zero\<lparr>n_inode := 0, n_name := ''pty'', n_mask := 0x16D, n_uid := 0, n_gid := 0,
     n_flags := FS_DIRECTORY, n_read := None, n_write := None, n_open := None, n_close := None,
     n_readdir := Some Readdir_pty, n_finddir := Some Finddir_pty, n_nlink := 1\<rparr>"

section \<open>Making a terminal\<close>

text \<open>
  \<open>pty_new\<close> sets the control characters one by one; \<open>VTIME\<close> twice. \<open>B38400\<close> is octal 17,
  \<open>CS8\<close> octal 60, \<open>CREAD\<close> octal 200.
\<close>

definition default_cc :: "u8 option list" where
  "default_cc = (replicate 32 None)[1 := Some 4, 2 := Some 0, 3 := Some 0x7F, 4 := Some 3, 5 := Some 21, 6 := Some 1,
     7 := Some 28, 8 := Some 17, 9 := Some 19, 10 := Some 26, 11 := Some 0, 11 := Some 22, 13 := Some 23]"

definition default_ios :: termios where
  "default_ios = \<lparr>iflag = ICRNL OR BRKINT, oflag = ONLCR OR OPOST,
     cflag = 0x80 OR 0x30 OR 0x0F, lflag = ECHO OR 0x10 OR 0x20 OR ICANON OR 0x01 OR 0x200,
     c_cc = default_cc\<rparr>"

definition pty_new :: "cred \<Rightarrow> u8 list \<Rightarrow> u8 list \<Rightarrow> winsize option \<Rightarrow> int \<Rightarrow> ttys \<Rightarrow> ttys \<times> nat" where
  "pty_new c g1 g2 sz index y = (let
     i = y_next y;
     p = \<lparr>pty_name = index, pty_master = pty_master_create c i, pty_slave = pty_slave_create c i,
          pty_size = (case sz of Some s \<Rightarrow> s
             | None \<Rightarrow> \<lparr>ws_row = Some 25, ws_col = Some 80, ws_xpixel = None, ws_ypixel = None\<rparr>),
          pty_ios = default_ios, pty_in = ringbuffer_alloc g1 4096, pty_out = ringbuffer_alloc g2 4096,
          pty_canon_size = 4094, pty_canon_len = 0, pty_control_pid = 0, pty_foreground_pid = 0,
          pty_write_out = Pty_write_out\<rparr>;
     y = (put_pty i p y)\<lparr>y_next := Suc i\<rparr>
     in (if index \<noteq> 0 then pty_add index i y else y, i))"


section \<open>The invariant of the driver\<close>

text \<open>
  Every terminal has two sane rings and a set \<open>VMIN\<close>; the table lists live terminals under
  their own, non-zero names; addresses not handed out yet are free.
\<close>

definition pty_ok :: "pty \<Rightarrow> bool" where
  "pty_ok p \<longleftrightarrow> rb_ok (pty_in p) \<and> rb_ok (pty_out p) \<and> 6 < length (c_cc (pty_ios p)) \<and> c_cc (pty_ios p) ! 6 \<noteq> None"

definition tty_ok :: "ttys \<Rightarrow> bool" where
  "tty_ok y \<longleftrightarrow> (\<forall>i p. y_ptys y i = Some p \<longrightarrow> pty_ok p)
     \<and> (\<forall>(n, i) \<in> set (y_map y). n \<noteq> 0 \<and> (\<exists>p. y_ptys y i = Some p \<and> pty_name p = n))
     \<and> (\<forall>i \<ge> y_next y. y_ptys y i = None)"

text \<open>Replacing a terminal by a sane one of the same name keeps the invariant.\<close>

lemma tty_ok_put:
  "tty_ok y \<Longrightarrow> y_ptys y i = Some p \<Longrightarrow> pty_ok p' \<Longrightarrow> pty_name p' = pty_name p \<Longrightarrow> tty_ok (put_pty i p' y)"
  by (fastforce simp: tty_ok_def put_pty_def)

lemma tty_ok_pty: "tty_ok y \<Longrightarrow> y_ptys y i = Some p \<Longrightarrow> pty_ok p"
  by (simp add: tty_ok_def)

lemma ring_put_bytes:
  assumes "rb_ok rb"
  shows "\<exists>rb'. put_bytes ringbuffer_write rb cs = Some rb' \<and> rb_ok rb' \<and> rb_size rb' = rb_size rb
     \<and> rb_list rb' = rb_list rb @ take (rb_room rb) cs \<and> rb_room rb' = rb_room rb - length cs"
proof -
  obtain rb' where rb': "put_bytes ringbuffer_write rb cs = Some rb'" "rb_ok rb'" "rb_size rb' - 1 = rb_size rb - 1"
    "rb_list rb' = rb_list rb @ take (rb_size rb - 1 - length (rb_list rb)) cs"
    using rbq.put_bytes_law [OF assms, of cs] by blast
  then have "rb_size rb' = rb_size rb" using assms by (auto simp: rb_ok_def)
  then show ?thesis using rb' by (auto simp: rb_room_def)
qed

lemma pty_put_in_all:
  assumes "tty_ok y" and "y_ptys y i = Some p"
  shows "\<exists>rb. for_each cs (pty_put_in i) y = Some (put_pty i (p\<lparr>pty_in := rb\<rparr>) y) \<and> rb_ok rb
     \<and> rb_list rb = rb_list (pty_in p) @ take (rb_room (pty_in p)) cs \<and> rb_room rb = rb_room (pty_in p) - length cs"
proof -
  have run: "for_each cs (pty_put_in i) y = map_option (\<lambda>rb. put_pty i (p\<lparr>pty_in := rb\<rparr>) y) (put_bytes ringbuffer_write (pty_in p) cs)"
    using assms(2)
  proof (induction cs arbitrary: y p)
    case Nil
    then have "put_pty i p y = y" by (simp add: put_pty_def fun_upd_idem)
    then show ?case by simp
  next
    case (Cons c cs)
    show ?case
    proof (cases "ringbuffer_write (pty_in p) 1 [c]")
      case None
      then show ?thesis using Cons.prems by (simp add: pty_put_in_def)
    next
      case (Some rk)
      then obtain rb k where rk: "ringbuffer_write (pty_in p) 1 [c] = Some (rb, k)" by (cases rk) auto
      let ?y = "put_pty i (p\<lparr>pty_in := rb\<rparr>) y"
      have "y_ptys ?y i = Some (p\<lparr>pty_in := rb\<rparr>)" by (simp add: put_pty_def)
      from Cons.IH [OF this] show ?thesis
        using rk Cons.prems by (simp add: pty_put_in_def put_pty_def)
    qed
  qed
  have "rb_ok (pty_in p)" using tty_ok_pty [OF assms] by (simp add: pty_ok_def)
  from ring_put_bytes [OF this, of cs] show ?thesis unfolding run by auto
qed

text \<open>What has been delivered to the terminal's output so far.\<close>

definition shown :: "nat \<Rightarrow> ttys \<Rightarrow> u8 list" where
  "shown i y = (case y_ptys y i of None \<Rightarrow> []
     | Some p \<Rightarrow> (case pty_write_out p of Pty_write_out \<Rightarrow> rb_list (pty_out p) | Terminal_pty_putchar \<Rightarrow> y_console y))"

text \<open>What of a run of bytes still gets through: a ring drops what it has no room for.\<close>

definition passed :: "nat \<Rightarrow> ttys \<Rightarrow> u8 list \<Rightarrow> u8 list" where
  "passed i y cs = (case y_ptys y i of None \<Rightarrow> []
     | Some p \<Rightarrow> (case pty_write_out p of Pty_write_out \<Rightarrow> take (rb_room (pty_out p)) cs | Terminal_pty_putchar \<Rightarrow> cs))"

text \<open>The terminal keeps everything but its output ring.\<close>

definition same_but_out :: "nat \<Rightarrow> ttys \<Rightarrow> ttys \<Rightarrow> bool" where
  "same_but_out i y y' \<longleftrightarrow> (\<exists>p rb. y_ptys y i = Some p \<and> y_ptys y' = (y_ptys y)(i \<mapsto> p\<lparr>pty_out := rb\<rparr>) \<and> rb_ok rb)
     \<and> y_map y' = y_map y \<and> y_next y' = y_next y"

lemma pty_put_out_all:
  assumes "tty_ok y" and "y_ptys y i = Some p"
  shows "\<exists>y'. for_each cs (pty_put_out i) y = Some y' \<and> tty_ok y' \<and> same_but_out i y y'
     \<and> shown i y' = shown i y @ passed i y cs \<and> (\<forall>ds. passed i y (cs @ ds) = passed i y cs @ passed i y' ds)"
proof (cases "pty_write_out p")
  case Pty_write_out
  have run: "for_each cs (pty_put_out i) y = map_option (\<lambda>rb. put_pty i (p\<lparr>pty_out := rb\<rparr>) y) (put_bytes ringbuffer_write (pty_out p) cs)"
    using assms(2) Pty_write_out
  proof (induction cs arbitrary: y p)
    case Nil
    then have "put_pty i p y = y" by (simp add: put_pty_def fun_upd_idem)
    then show ?case by simp
  next
    case (Cons c cs)
    show ?case
    proof (cases "ringbuffer_write (pty_out p) 1 [c]")
      case None
      then show ?thesis using Cons.prems by (simp add: pty_put_out_def)
    next
      case (Some rk)
      then obtain rb k where rk: "ringbuffer_write (pty_out p) 1 [c] = Some (rb, k)" by (cases rk) auto
      let ?y = "put_pty i (p\<lparr>pty_out := rb\<rparr>) y"
      have "y_ptys ?y i = Some (p\<lparr>pty_out := rb\<rparr>)" by (simp add: put_pty_def)
      from Cons.IH [OF this] show ?thesis
        using rk Cons.prems by (simp add: pty_put_out_def put_pty_def)
    qed
  qed
  have ok: "pty_ok p" by (rule tty_ok_pty [OF assms])
  then have "rb_ok (pty_out p)" by (simp add: pty_ok_def)
  from ring_put_bytes [OF this, of cs] obtain rb where rb: "put_bytes ringbuffer_write (pty_out p) cs = Some rb" "rb_ok rb"
    "rb_list rb = rb_list (pty_out p) @ take (rb_room (pty_out p)) cs" "rb_room rb = rb_room (pty_out p) - length cs"
    by auto
  let ?y = "put_pty i (p\<lparr>pty_out := rb\<rparr>) y"
  have "tty_ok ?y" by (rule tty_ok_put [OF assms]) (use ok rb(2) in \<open>simp_all add: pty_ok_def\<close>)
  moreover have "same_but_out i y ?y"
    unfolding same_but_out_def using assms(2) rb(2) by (auto simp: put_pty_def)
  moreover have "shown i ?y = shown i y @ passed i y cs"
    using assms(2) rb(3) Pty_write_out by (simp add: shown_def passed_def put_pty_def)
  moreover have "passed i y (cs @ ds) = passed i y cs @ passed i ?y ds" for ds
    using assms(2) rb(4) Pty_write_out by (simp add: passed_def put_pty_def)
  ultimately show ?thesis unfolding run using rb(1) by auto
next
  case Terminal_pty_putchar
  have run: "for_each cs (pty_put_out i) y = Some (y\<lparr>y_console := y_console y @ cs\<rparr>)"
    using assms(2) Terminal_pty_putchar
  proof (induction cs arbitrary: y)
    case (Cons c cs)
    then show ?case using Cons.IH [of "y\<lparr>y_console := y_console y @ [c]\<rparr>"] by (simp add: pty_put_out_def)
  qed simp
  have "tty_ok (y\<lparr>y_console := y_console y @ cs\<rparr>)" using assms(1) by (simp add: tty_ok_def)
  moreover have "same_but_out i y (y\<lparr>y_console := y_console y @ cs\<rparr>)"
    unfolding same_but_out_def using assms(2) tty_ok_pty [OF assms]
    by (auto simp: pty_ok_def intro!: exI [of _ "pty_out p"])
  moreover have "shown i (y\<lparr>y_console := y_console y @ cs\<rparr>) = shown i y @ passed i y cs"
    using assms(2) Terminal_pty_putchar by (simp add: shown_def passed_def)
  moreover have "passed i y (cs @ ds) = passed i y cs @ passed i (y\<lparr>y_console := y_console y @ cs\<rparr>) ds" for ds
    using assms(2) Terminal_pty_putchar by (simp add: passed_def)
  ultimately show ?thesis unfolding run by blast
qed


section \<open>The line discipline as a translation of byte strings\<close>

definition cook :: "u32 \<Rightarrow> u8 \<Rightarrow> u8 list" where
  "cook fl c = (if fl AND OPOST = 0 then [c] else if c = 0x0A \<and> fl AND ONLCR \<noteq> 0 then [0x0A, 0x0D]
     else if c = 0x0D \<and> fl AND ONLRET \<noteq> 0 then []
     else [if fl AND OLCUC \<noteq> 0 \<and> 0x61 \<le> c \<and> c \<le> 0x7A then c - 0x20 else c])"

text \<open>
  The translation of typed bytes that the input flags ask for: a carriage return is dropped with \<open>IGNCR\<close>
  and becomes a line feed with \<open>ICRNL\<close>, a line feed becomes a carriage return with \<open>INLCR\<close>, and
  capital letters become small ones with \<open>IUCLC\<close>. What the driver queues is the same except for the
  carriage return, which it drops whenever any of the flags is set.
\<close>

definition stripped :: "u32 \<Rightarrow> u8 \<Rightarrow> u8" where
  "stripped fl c = (if fl AND ISTRIP \<noteq> 0 then c AND 0x7F else c)"

definition small_letter :: "u32 \<Rightarrow> u8 \<Rightarrow> u8" where
  "small_letter fl c = (if fl AND IUCLC \<noteq> 0 \<and> 0x41 \<le> c \<and> c \<le> 0x5A then c - 0x41 + 0x61 else c)"

definition typed :: "u32 \<Rightarrow> u8 \<Rightarrow> u8 list" where
  "typed fl c =
     (if stripped fl c = 0x0D then
        (if fl AND IGNCR \<noteq> 0 then [] else if fl AND ICRNL \<noteq> 0 then [0x0A] else [0x0D])
      else if stripped fl c = 0x0A \<and> fl AND INLCR \<noteq> 0 then [0x0D]
      else [small_letter fl (stripped fl c)])"

definition queued :: "u32 \<Rightarrow> u8 \<Rightarrow> u8 list" where
  "queued fl c = (let c = stripped fl c in
     if fl * IGNCR \<noteq> 0 \<and> c = 0x0D then []
     else let c = (if fl AND INLCR \<noteq> 0 \<and> c = 0x0A then 0x0D else if fl AND ICRNL \<noteq> 0 \<and> c = 0x0D then 0x0A else c)
       in [small_letter fl c])"

lemma queued_typed: "stripped fl c \<noteq> 0x0D \<Longrightarrow> queued fl c = typed fl c"
  by (simp add: queued_def typed_def small_letter_def Let_def)

lemma output_process_cook:
  "y_ptys y i = Some p \<Longrightarrow>
   tty_output_process_slave i c y = for_each (cook (oflag (pty_ios p)) c) (pty_put_out i) y"
  by (simp add: tty_output_process_slave_def cook_def Let_def)

lemma output_process_all:
  assumes "tty_ok y" and "y_ptys y i = Some p"
  shows "\<exists>y'. for_each cs (tty_output_process_slave i) y = Some y' \<and> tty_ok y' \<and> same_but_out i y y'
     \<and> shown i y' = shown i y @ passed i y (concat (map (cook (oflag (pty_ios p))) cs))
     \<and> (\<forall>ds. passed i y (concat (map (cook (oflag (pty_ios p))) cs) @ ds) =
           passed i y (concat (map (cook (oflag (pty_ios p))) cs)) @ passed i y' ds)"
proof -
  have "for_each cs (tty_output_process_slave i) y = for_each (concat (map (cook (oflag (pty_ios p))) cs)) (pty_put_out i) y"
    using assms
  proof (induction cs arbitrary: y p)
    case (Cons c cs)
    obtain y1 where y1: "for_each (cook (oflag (pty_ios p)) c) (pty_put_out i) y = Some y1" "tty_ok y1" "same_but_out i y y1"
      using pty_put_out_all [OF Cons.prems] by blast
    obtain rb where "y_ptys y1 i = Some (p\<lparr>pty_out := rb\<rparr>)"
      using y1(3) Cons.prems(2) by (auto simp: same_but_out_def)
    from Cons.IH [OF y1(2) this] show ?case
      using y1(1) output_process_cook [OF Cons.prems(2), of c] by (simp add: for_each_append)
  qed simp
  then show ?thesis using pty_put_out_all [OF assms] by simp
qed

text \<open>One typed byte: the echo is shown, then the byte is queued for the slave.\<close>

definition echoed :: "termios \<Rightarrow> u8 list \<Rightarrow> u8 list" where
  "echoed ios cs = (if lflag ios AND ECHO \<noteq> 0 then concat (map (cook (oflag ios)) cs) else [])"

lemma echoed_append: "echoed ios (a @ b) = echoed ios a @ echoed ios b"
  by (simp add: echoed_def)

lemma input_process_queued:
  assumes "y_ptys y i = Some p"
  shows "tty_input_process i c y =
    for_each (queued (iflag (pty_ios p)) c) (\<lambda>c y. do {
      y \<leftarrow> (if lflag (pty_ios p) AND ECHO \<noteq> 0 then tty_output_process i c y else Some y);
      pty_put_in i c y }) y"
proof -
  let ?fl = "iflag (pty_ios p)"
  let ?d = "if ?fl AND ISTRIP \<noteq> 0 then c AND 0x7F else c"
  let ?e = "if ?fl AND INLCR \<noteq> 0 \<and> ?d = 0x0A then 0x0D else if ?fl AND ICRNL \<noteq> 0 \<and> ?d = 0x0D then 0x0A else ?d"
  let ?f = "if ?fl AND IUCLC \<noteq> 0 \<and> ?e \<ge> 0x41 \<and> ?e \<le> 0x5A then ?e - 0x41 + 0x61 else ?e"
  have lhs: "tty_input_process i c y = (if ?fl * IGNCR \<noteq> 0 \<and> ?d = 0x0D then Some y
      else do { y \<leftarrow> (if lflag (pty_ios p) AND ECHO \<noteq> 0 then tty_output_process i ?f y else Some y); pty_put_in i ?f y })"
    by (simp only: tty_input_process_def assms Let_def bind.bind_lunit)
  have rhs: "queued ?fl c = (if ?fl * 8 \<noteq> 0 \<and> ?d = 0x0D then [] else [?f])"
    by (simp only: queued_def small_letter_def stripped_def Let_def)
  show ?thesis
    unfolding lhs rhs by (cases "?fl * 8 \<noteq> 0 \<and> ?d = 0x0D") (simp_all only: if_True if_False for_each.simps for_each_one simp_thms)
qed

lemma echo_one:
  assumes "tty_ok y" and "y_ptys y i = Some p"
  shows "\<exists>y' p'. (if lflag (pty_ios p) AND ECHO \<noteq> 0 then tty_output_process i c y else Some y) = Some y'
     \<and> tty_ok y' \<and> y_ptys y' i = Some p' \<and> pty_ios p' = pty_ios p \<and> pty_in p' = pty_in p
     \<and> pty_write_out p' = pty_write_out p \<and> pty_name p' = pty_name p
     \<and> shown i y' = shown i y @ passed i y (echoed (pty_ios p) [c])
     \<and> (\<forall>ds. passed i y (echoed (pty_ios p) [c] @ ds) = passed i y (echoed (pty_ios p) [c]) @ passed i y' ds)"
proof (cases "lflag (pty_ios p) AND ECHO = 0")
  case True
  have "passed i y [] = []" by (simp add: passed_def split: option.split write_out_fn.split)
  then show ?thesis using True assms by (auto simp: echoed_def)
next
  case False
  then obtain y' where y': "for_each [c] (tty_output_process_slave i) y = Some y'" "tty_ok y'" "same_but_out i y y'"
    "shown i y' = shown i y @ passed i y (echoed (pty_ios p) [c])"
    "\<forall>ds. passed i y (echoed (pty_ios p) [c] @ ds) = passed i y (echoed (pty_ios p) [c]) @ passed i y' ds"
    using output_process_all [OF assms, of "[c]"] by (auto simp: echoed_def)
  obtain rb where "y_ptys y' i = Some (p\<lparr>pty_out := rb\<rparr>)"
    using y'(3) assms(2) by (auto simp: same_but_out_def)
  then show ?thesis
    using False y' by (auto simp: tty_output_process_def split: Option.bind_split_asm)
qed

lemma input_one:
  assumes "tty_ok y" and "y_ptys y i = Some p"
  shows "\<exists>y' p'. tty_input_process i c y = Some y' \<and> tty_ok y' \<and> y_ptys y' i = Some p' \<and> pty_ios p' = pty_ios p
     \<and> rb_list (pty_in p') = rb_list (pty_in p) @ take (rb_room (pty_in p)) (queued (iflag (pty_ios p)) c)
     \<and> rb_room (pty_in p') = rb_room (pty_in p) - length (queued (iflag (pty_ios p)) c)
     \<and> shown i y' = shown i y @ passed i y (echoed (pty_ios p) (queued (iflag (pty_ios p)) c))
     \<and> (\<forall>ds. passed i y (echoed (pty_ios p) (queued (iflag (pty_ios p)) c) @ ds) =
           passed i y (echoed (pty_ios p) (queued (iflag (pty_ios p)) c)) @ passed i y' ds)"
proof -
  have "queued (iflag (pty_ios p)) c = [] \<or> (\<exists>d. queued (iflag (pty_ios p)) c = [d])"
    by (simp add: queued_def Let_def)
  then consider "queued (iflag (pty_ios p)) c = []" | d where "queued (iflag (pty_ios p)) c = [d]" by blast
  then show ?thesis
  proof cases
    case 1
    have "passed i y [] = []" by (simp add: passed_def split: option.split write_out_fn.split)
    then show ?thesis using 1 assms input_process_queued [OF assms(2), of c] by (simp add: echoed_def)
  next
    case (2 d)
    from echo_one [OF assms, of d] obtain y1 p1 where
      e: "(if lflag (pty_ios p) AND ECHO \<noteq> 0 then tty_output_process i d y else Some y) = Some y1"
      and y1: "tty_ok y1" "y_ptys y1 i = Some p1" "pty_ios p1 = pty_ios p" "pty_in p1 = pty_in p"
        "pty_write_out p1 = pty_write_out p" "pty_name p1 = pty_name p"
        "shown i y1 = shown i y @ passed i y (echoed (pty_ios p) [d])"
        "\<forall>ds. passed i y (echoed (pty_ios p) [d] @ ds) = passed i y (echoed (pty_ios p) [d]) @ passed i y1 ds"
      by blast
    from pty_put_in_all [OF y1(1,2), of "[d]"] obtain rb where
      rb: "pty_put_in i d y1 = Some (put_pty i (p1\<lparr>pty_in := rb\<rparr>) y1)" "rb_ok rb"
        "rb_list rb = rb_list (pty_in p) @ take (rb_room (pty_in p)) [d]" "rb_room rb = rb_room (pty_in p) - 1"
      unfolding y1(4) by (auto split: Option.bind_split_asm)
    let ?y = "put_pty i (p1\<lparr>pty_in := rb\<rparr>) y1"
    have "tty_input_process i c y = Some ?y"
      unfolding input_process_queued [OF assms(2)] 2 using e rb(1) by (simp del: if_split)
    moreover have "tty_ok ?y"
      by (rule tty_ok_put [OF y1(1,2)]) (use tty_ok_pty [OF y1(1,2)] rb(2) in \<open>simp_all add: pty_ok_def\<close>)
    moreover have "shown i ?y = shown i y1" "\<And>ds. passed i ?y ds = passed i y1 ds"
      using y1(2) by (simp_all add: shown_def passed_def put_pty_def split: write_out_fn.split)
    ultimately show ?thesis
      unfolding 2 using y1 rb(3,4) by (intro exI [of _ ?y] exI [of _ "p1\<lparr>pty_in := rb\<rparr>"]) (simp add: put_pty_def)
  qed
qed

lemma input_all:
  assumes "tty_ok y" and "y_ptys y i = Some p"
  shows "\<exists>y' p'. for_each cs (tty_input_process i) y = Some y' \<and> tty_ok y' \<and> y_ptys y' i = Some p' \<and> pty_ios p' = pty_ios p
     \<and> rb_list (pty_in p') = rb_list (pty_in p) @ take (rb_room (pty_in p)) (concat (map (queued (iflag (pty_ios p))) cs))
     \<and> shown i y' = shown i y @ passed i y (echoed (pty_ios p) (concat (map (queued (iflag (pty_ios p))) cs)))"
  using assms
proof (induction cs arbitrary: y p)
  case Nil
  have "passed i y [] = []" by (simp add: passed_def split: option.split write_out_fn.split)
  then show ?case using Nil by (simp add: echoed_def)
next
  case (Cons c cs)
  let ?t = "queued (iflag (pty_ios p)) c" and ?ts = "concat (map (queued (iflag (pty_ios p))) cs)"
  obtain y1 p1 where 1: "tty_input_process i c y = Some y1" "tty_ok y1" "y_ptys y1 i = Some p1" "pty_ios p1 = pty_ios p"
    "rb_list (pty_in p1) = rb_list (pty_in p) @ take (rb_room (pty_in p)) ?t"
    "rb_room (pty_in p1) = rb_room (pty_in p) - length ?t"
    "shown i y1 = shown i y @ passed i y (echoed (pty_ios p) ?t)"
    "\<forall>ds. passed i y (echoed (pty_ios p) ?t @ ds) = passed i y (echoed (pty_ios p) ?t) @ passed i y1 ds"
    using input_one [OF Cons.prems, of c] by blast
  obtain y2 p2 where 2: "for_each cs (tty_input_process i) y1 = Some y2" "tty_ok y2" "y_ptys y2 i = Some p2" "pty_ios p2 = pty_ios p"
    "rb_list (pty_in p2) = rb_list (pty_in p1) @ take (rb_room (pty_in p1)) ?ts"
    "shown i y2 = shown i y1 @ passed i y1 (echoed (pty_ios p) ?ts)"
    using Cons.IH [OF 1(2,3)] unfolding 1(4) by blast
  show ?case
    using 1 2 by (intro exI [of _ y2] exI [of _ p2]) (simp add: echoed_append)
qed


section \<open>The properties of the terminals\<close>

text \<open>
  Writing to the slave of a terminal delivers the translated bytes to its output, in order:
  what the output has shown is extended by the image of the data under the output flags (a line
  feed becomes line feed and carriage return, and so on). A terminal bound to the console loses
  nothing; an output ring keeps what it has room for and drops the rest, silently: the count
  returned is always the whole length.
\<close>

lemma write_pty_slave_cooked:
  assumes "tty_ok y" and "n_device node = Dev_pty i" and "y_ptys y i = Some p" and "n \<le> length data"
  shows "\<exists>y'. write_pty_slave node n data y = Some (y', n) \<and> tty_ok y'
    \<and> shown i y' = shown i y @ passed i y (concat (map (cook (oflag (pty_ios p))) (take n data)))
    \<and> (\<forall>j. j \<noteq> i \<longrightarrow> y_ptys y' j = y_ptys y j)"
proof -
  obtain y' where "for_each (take n data) (tty_output_process_slave i) y = Some y'" "tty_ok y'" "same_but_out i y y'"
    "shown i y' = shown i y @ passed i y (concat (map (cook (oflag (pty_ios p))) (take n data)))"
    using output_process_all [OF assms(1,3)] by blast
  then show ?thesis
    using assms(2,4) by (auto simp: write_pty_slave_def pty_id_def mem_read_def same_but_out_def)
qed

lemma read_pty_slave_icanon:
  assumes "tty_ok y" and "y_ptys y i = Some p" and "n_device node = Dev_pty i" and "cflag (pty_ios p) AND ICANON \<noteq> 0"
    and "k \<le> length buf"
  shows "\<exists>y' p'. read_pty_slave node k buf y = Some (y', take k (rb_list (pty_in p)) @ drop (min k (length (rb_list (pty_in p)))) buf,
       min k (length (rb_list (pty_in p)))) \<and> tty_ok y' \<and> y_ptys y' i = Some p' \<and> rb_list (pty_in p') = drop k (rb_list (pty_in p))"
proof -
  have ok: "pty_ok p" by (rule tty_ok_pty [OF assms(1,2)])
  then have "rb_ok (pty_in p)" by (simp add: pty_ok_def)
  from rbq.get_law [OF this min.coboundedI1 [OF assms(5)]] obtain rb where
    rb: "ringbuffer_read (pty_in p) k buf = Some (rb, take k (rb_list (pty_in p)) @ drop (min k (length (rb_list (pty_in p)))) buf,
       min k (length (rb_list (pty_in p))))" "rb_ok rb" "rb_list rb = drop k (rb_list (pty_in p))" by auto
  have "tty_ok (put_pty i (p\<lparr>pty_in := rb\<rparr>) y)"
    by (rule tty_ok_put [OF assms(1,2)]) (use ok rb(2) in \<open>simp_all add: pty_ok_def\<close>)
  then show ?thesis
    using rb assms(2-4) by (auto simp: read_pty_slave_def pty_id_def put_pty_def)
qed

text \<open>
  C25. What is typed at the master can be read at the slave: the typed bytes, translated as the
  input flags ask, join the queue of the slave as far as there is room, the echo of the same bytes
  is shown, and a read delivers the oldest queued bytes in order and removes them. No carriage return is
  among the typed bytes, which the driver drops where it should translate it; and the bit
  \<open>ICANON\<close> is set in \<open>cflag\<close>, where the driver looks for it (every new terminal has it there), since
  otherwise the minimal count \<open>VMIN\<close> limits the read.
\<close>

theorem type_and_read:
  assumes "tty_ok y" and "n_device master = Dev_pty i" and "n_device slave = Dev_pty i" and "y_ptys y i = Some p"
    and "n \<le> length data" and "k \<le> length buf" and "cflag (pty_ios p) AND ICANON \<noteq> 0"
    and ret: "\<forall>c \<in> set (take n data). stripped (iflag (pty_ios p)) c \<noteq> 0x0D"
    and q: "q = rb_list (pty_in p) @ take (rb_room (pty_in p)) (concat (map (typed (iflag (pty_ios p))) (take n data)))"
  shows "\<exists>y1 y2 p2. write_pty_master master n data y = Some (y1, n)
    \<and> shown i y1 = shown i y @ passed i y (echoed (pty_ios p) (concat (map (typed (iflag (pty_ios p))) (take n data))))
    \<and> read_pty_slave slave k buf y1 = Some (y2, take k q @ drop (min k (length q)) buf, min k (length q))
    \<and> tty_ok y2 \<and> y_ptys y2 i = Some p2 \<and> rb_list (pty_in p2) = drop k q"
proof -
  have eq: "map (queued (iflag (pty_ios p))) (take n data) = map (typed (iflag (pty_ios p))) (take n data)"
    using ret queued_typed by simp
  from input_all [OF assms(1,4), of "take n data", unfolded eq, folded q]
  obtain y1 p1 where 1: "for_each (take n data) (tty_input_process i) y = Some y1" "tty_ok y1" "y_ptys y1 i = Some p1"
    "pty_ios p1 = pty_ios p" "rb_list (pty_in p1) = q"
    "shown i y1 = shown i y @ passed i y (echoed (pty_ios p) (concat (map (typed (iflag (pty_ios p))) (take n data))))"
    by blast
  have "write_pty_master master n data y = Some (y1, n)"
    using 1(1) assms(2,5) by (simp add: write_pty_master_def pty_id_def mem_read_def)
  moreover have "cflag (pty_ios p1) AND ICANON \<noteq> 0" using 1(4) assms(7) by simp
  from read_pty_slave_icanon [OF 1(2,3) assms(3) this assms(6)] obtain y2 p2 where
    "read_pty_slave slave k buf y1 = Some (y2, take k q @ drop (min k (length q)) buf, min k (length q))"
    "tty_ok y2" "y_ptys y2 i = Some p2" "rb_list (pty_in p2) = drop k q"
    unfolding 1(5) by blast
  ultimately show ?thesis using 1(6) by blast
qed

text \<open>
  A carriage return typed at a new terminal vanishes, although its settings translate
  carriage return to line feed (\<open>ICRNL\<close>) and do not ignore it (\<open>IGNCR\<close>): the test of
  \<open>IGNCR\<close> multiplies the flags.
\<close>

lemma new_pty_drops_return:
  "tty_input_process (snd (pty_new c g1 g2 sz n y)) 0x0D (fst (pty_new c g1 g2 sz n y)) = Some (fst (pty_new c g1 g2 sz n y))
   \<and> iflag default_ios AND ICRNL \<noteq> 0 \<and> iflag default_ios AND IGNCR = 0"
proof -
  have "queued (iflag default_ios) 0x0D = []" by (simp add: queued_def stripped_def default_ios_def)
  moreover have "\<exists>p. y_ptys (fst (pty_new c g1 g2 sz n y)) (snd (pty_new c g1 g2 sz n y)) = Some p \<and> pty_ios p = default_ios"
    by (simp add: pty_new_def Let_def put_pty_def pty_add_def)
  ultimately show ?thesis
    using input_process_queued [of "fst (pty_new c g1 g2 sz n y)" "snd (pty_new c g1 g2 sz n y)" _ "0x0D"]
    by (auto simp: default_ios_def)
qed

section \<open>The driver as a state machine\<close>

inductive tty_step :: "ttys \<Rightarrow> ttys \<Rightarrow> bool" where
  new: "tty_step y (fst (pty_new c g1 g2 sz n y))"
| to_console: "y_ptys y i = Some p \<Longrightarrow> tty_step y (put_pty i (p\<lparr>pty_write_out := Terminal_pty_putchar\<rparr>) y)"
| settings: "y_ptys y i = Some p \<Longrightarrow> 6 < length (c_cc ios) \<Longrightarrow> c_cc ios ! 6 \<noteq> None \<Longrightarrow>
    tty_step y (put_pty i (p\<lparr>pty_ios := ios\<rparr>) y)"
| read_master: "read_pty_master node sz buf y = Some (y', buf', k) \<Longrightarrow> tty_step y y'"
| write_master: "write_pty_master node sz buf y = Some (y', k) \<Longrightarrow> tty_step y y'"
| read_slave: "read_pty_slave node sz buf y = Some (y', buf', k) \<Longrightarrow> tty_step y y'"
| write_slave: "write_pty_slave node sz buf y = Some (y', k) \<Longrightarrow> tty_step y y'"
| close_slave: "close_pty_slave node y = Some y' \<Longrightarrow> tty_step y y'"

inductive_cases tty_stepE: "tty_step y y'"

definition tty_start :: ttys where
  "tty_start = \<lparr>y_ptys = (\<lambda>_. None), y_next = 0, y_map = [], y_capacity = 32, y_console = []\<rparr>"

lemma set_remove_index: "set (remove_index k xs) \<subseteq> set xs"
  by (induction k xs rule: remove_index.induct) auto

lemma pty_new_ok:
  assumes "tty_ok y"
  shows "tty_ok (fst (pty_new c g1 g2 sz n y))"
proof -
  let ?i = "y_next y"
  define y1 where "y1 = fst (pty_new c g1 g2 sz n y)"
  have rb: "rb_ok (ringbuffer_alloc g 4096)" for g by (rule rb_ok_alloc) simp_all
  obtain p where p: "y_ptys y1 = (y_ptys y)(?i \<mapsto> p)" "pty_name p = n" "pty_ok p" "y_next y1 = Suc ?i"
    "set (y_map y1) \<subseteq> set (y_map y) \<union> (if n = 0 then {} else {(n, ?i)})"
  proof (rule that)
    show "y_ptys y1 = (y_ptys y)(?i \<mapsto> the (y_ptys y1 ?i))" "pty_name (the (y_ptys y1 ?i)) = n" "y_next y1 = Suc ?i"
      "set (y_map y1) \<subseteq> set (y_map y) \<union> (if n = 0 then {} else {(n, ?i)})"
      by (simp_all add: y1_def pty_new_def Let_def put_pty_def pty_add_def)
    have "6 < length default_cc" "default_cc ! 6 \<noteq> None" by (simp_all add: default_cc_def)
    then show "pty_ok (the (y_ptys y1 ?i))"
      using rb by (simp add: y1_def pty_new_def Let_def put_pty_def pty_add_def pty_ok_def default_ios_def)
  qed
  have "tty_ok y1"
    unfolding tty_ok_def
  proof (intro conjI allI impI ballI)
    show "pty_ok q" if "y_ptys y1 j = Some q" for j q
      using that p(1,3) assms by (auto simp: tty_ok_def split: if_splits)
    show "y_ptys y1 j = None" if "y_next y1 \<le> j" for j
      using that p(1,4) assms by (simp add: tty_ok_def)
    fix e
    assume "e \<in> set (y_map y1)"
    then consider "e \<in> set (y_map y)" | "e = (n, ?i)" "n \<noteq> 0" using p(5) by (auto split: if_splits)
    then show "case e of (n, i) \<Rightarrow> n \<noteq> 0 \<and> (\<exists>p. y_ptys y1 i = Some p \<and> pty_name p = n)"
      using assms p(1,2) by cases (auto simp: tty_ok_def)
  qed
  then show ?thesis by (simp add: y1_def)
qed

lemma read_ring_keeps:
  assumes "ringbuffer_read rb n buf = Some (rb', buf', k)" and "rb_ok rb"
  shows "rb_ok rb'"
proof -
  let ?n = "if ringbuffer_readable rb < n then ringbuffer_readable rb else n"
  have b: "rb_ridx rb < rb_size rb" "rb_widx rb < rb_size rb" "2 * rb_size rb < SIZE_MOD"
    using assms(2) by (auto simp: rb_ok_def)
  have len: "?n \<le> (if rb_ridx rb \<le> rb_widx rb then rb_widx rb - rb_ridx rb else rb_size rb - rb_ridx rb + rb_widx rb)"
    unfolding ringbuffer_readable_eq [OF assms(2)] using assms(2) by (auto simp: rb_list_def rb_ok_def)
  let ?x = "if add64 (rb_ridx rb) ?n \<ge> rb_size rb then sub64 ?n (sub64 (rb_size rb) (rb_ridx rb)) else add64 (rb_ridx rb) ?n"
  have x: "rb' = rb\<lparr>rb_ridx := ?x\<rparr>"
    using assms(1) by (auto simp: ringbuffer_read_def Let_def split: if_splits Option.bind_split_asm)
  have "add64 (rb_ridx rb) ?n = rb_ridx rb + ?n" "sub64 (rb_size rb) (rb_ridx rb) = rb_size rb - rb_ridx rb"
    using len b by (auto simp: wrap64 split: if_splits)
  then have "?x < rb_size rb"
    using len b by (auto simp: wrap64 split: if_splits)
  then show ?thesis unfolding x using assms(2) by (simp add: rb_ok_def)
qed

lemma tty_step_ok:
  assumes "tty_step y y'" and ok: "tty_ok y"
  shows "tty_ok y'"
  using assms(1)
proof cases
  case (new c g1 g2 sz n)
  then show ?thesis using pty_new_ok [OF ok] by simp
next
  case (to_console i p)
  then show ?thesis using tty_ok_put [OF ok to_console(2)] tty_ok_pty [OF ok to_console(2)] by (simp add: pty_ok_def)
next
  case (settings i p ios)
  then show ?thesis using tty_ok_put [OF ok settings(2)] tty_ok_pty [OF ok settings(2)] by (simp add: pty_ok_def)
next
  case (read_master node sz buf buf' k)
  then obtain i p rb where i: "y_ptys y i = Some p" "ringbuffer_read (pty_out p) sz buf = Some (rb, buf', k)"
    "y' = put_pty i (p\<lparr>pty_out := rb\<rparr>) y"
    by (auto simp: read_pty_master_def split: Option.bind_split_asm)
  have "pty_ok p" by (rule tty_ok_pty [OF ok i(1)])
  then show ?thesis
    unfolding i(3) using read_ring_keeps [OF i(2)] by (intro tty_ok_put [OF ok i(1)]) (simp_all add: pty_ok_def)
next
  case (read_slave node sz buf buf' k)
  then obtain i p n rb where i: "y_ptys y i = Some p" "ringbuffer_read (pty_in p) n buf = Some (rb, buf', k)"
    "y' = put_pty i (p\<lparr>pty_in := rb\<rparr>) y"
    by (auto simp: read_pty_slave_def split: Option.bind_split_asm)
  have "pty_ok p" by (rule tty_ok_pty [OF ok i(1)])
  then show ?thesis
    unfolding i(3) using read_ring_keeps [OF i(2)] by (intro tty_ok_put [OF ok i(1)]) (simp_all add: pty_ok_def)
next
  case (write_master node sz buf k)
  then obtain i bs where i: "for_each bs (tty_input_process i) y = Some y'"
    by (auto simp: write_pty_master_def split: Option.bind_split_asm)
  show ?thesis
  proof (cases "y_ptys y i")
    case None
    then have "bs = []" using i by (cases bs) (simp_all add: tty_input_process_def)
    then show ?thesis using i ok by simp
  next
    case (Some p)
    then show ?thesis using input_all [OF ok Some, of bs] i by auto
  qed
next
  case (write_slave node sz buf k)
  then obtain i bs where i: "for_each bs (tty_output_process_slave i) y = Some y'"
    by (auto simp: write_pty_slave_def split: Option.bind_split_asm)
  show ?thesis
  proof (cases "y_ptys y i")
    case None
    then have "bs = []" using i by (cases bs) (simp_all add: tty_output_process_slave_def)
    then show ?thesis using i ok by simp
  next
    case (Some p)
    then show ?thesis using output_process_all [OF ok Some, of bs] i by auto
  qed
next
  case (close_slave node)
  then consider "y' = y" | n where "y' = pty_remove n y"
    by (auto simp: close_pty_slave_def split: Option.bind_split_asm if_splits)
  then show ?thesis
    using ok set_remove_index by cases (fastforce simp: tty_ok_def pty_remove_def)+
qed

lemma remove_index_filter: "filter (\<lambda>e. fst e = n) (remove_index n es) = tl (filter (\<lambda>e. fst e = n) es)"
  by (induction n es rule: remove_index.induct) auto

lemma remove_index_other: "k \<noteq> n \<Longrightarrow> map_of (remove_index n es) k = map_of es k"
  by (induction n es rule: remove_index.induct) auto

lemma map_of_filter_none: "filter (\<lambda>e. fst e = n) es = [] \<Longrightarrow> map_of es n = None"
  by (auto simp: map_of_eq_None_iff filter_empty_conv)

lemma close_pty_slave_spec:
  assumes "y_ptys y i = Some p" and "pty_name p \<noteq> 0" and "n_device node = Dev_pty i"
  shows "\<exists>y'. close_pty_slave node y = Some y' \<and> y_ptys y' = y_ptys y \<and> (\<forall>k. k \<noteq> pty_name p \<longrightarrow> pty_get k y' = pty_get k y) \<and>
    filter (\<lambda>e. fst e = pty_name p) (y_map y') = tl (filter (\<lambda>e. fst e = pty_name p) (y_map y))"
  using assms remove_index_filter [of "pty_name p"] remove_index_other [of _ "pty_name p"] by (simp add: close_pty_slave_def pty_id_def pty_remove_def pty_get_def)

text \<open>
  C26. The terminal driver keeps its invariant in every reachable state, whatever sequence of
  opens, reads, writes of either side, closes and changes of settings (to any settings with a value
  for \<open>VMIN\<close>) is executed: both rings of every terminal stay sane, and the table behind
  \<open>/dev/pts\<close> lists only terminals that exist, under their own names. In every such state closing the slave
  of a named terminal succeeds and takes the first entry of that name, and nothing else, out of the
  table: every other name is found as before, and a name that was listed once is not found any more.
\<close>

theorem tty_invariant:
  assumes "tty_step\<^sup>*\<^sup>* tty_start y"
  shows "tty_ok y \<and> (\<forall>n i. pty_get n y = Some i \<longrightarrow> (\<exists>p. y_ptys y i = Some p \<and> pty_name p = n)) \<and>
    (\<forall>i p node. y_ptys y i = Some p \<and> pty_name p \<noteq> 0 \<and> n_device node = Dev_pty i \<longrightarrow>
      (\<exists>y'. close_pty_slave node y = Some y' \<and> y_ptys y' = y_ptys y \<and> (\<forall>k. k \<noteq> pty_name p \<longrightarrow> pty_get k y' = pty_get k y) \<and>
        filter (\<lambda>e. fst e = pty_name p) (y_map y') = tl (filter (\<lambda>e. fst e = pty_name p) (y_map y)) \<and>
        (length (filter (\<lambda>e. fst e = pty_name p) (y_map y)) = 1 \<longrightarrow> pty_get (pty_name p) y' = None)))"
proof -
  have ok: "tty_ok y"
    using assms
  proof (induction rule: rtranclp_induct)
    case base
    then show ?case by (simp add: tty_start_def tty_ok_def)
  next
    case (step y z)
    then show ?case using tty_step_ok by blast
  qed
  have listed: "\<exists>p. y_ptys y i = Some p \<and> pty_name p = n" if "pty_get n y = Some i" for n i
    using ok map_of_SomeD [of "y_map y" n i] that by (auto simp: tty_ok_def pty_get_def)
  have once: "pty_get n y' = None" if "filter (\<lambda>e. fst e = n) (y_map y') = tl (filter (\<lambda>e. fst e = n) (y_map y))"
      "length (filter (\<lambda>e. fst e = n) (y_map y)) = 1" for n y'
  proof -
    have "filter (\<lambda>e. fst e = n) (y_map y') = []" using that by (cases "filter (\<lambda>e. fst e = n) (y_map y)") simp_all
    then show ?thesis unfolding pty_get_def by (rule map_of_filter_none)
  qed
  show ?thesis
  proof (intro conjI allI impI, goal_cases)
    case (3 i p node)
    then show ?case using close_pty_slave_spec [of y i p node] once by blast
  qed (use ok listed in blast)+
qed

section \<open>Witnesses\<close>

definition example_tty :: ttys where
  "example_tty = fst (pty_new \<lparr>c_uid = 0, c_gid = 0, c_fds = []\<rparr> [] [] None 1 tty_start)"

lemma example_tty_ok: "tty_ok example_tty"
  unfolding example_tty_def by (rule pty_new_ok) (simp add: tty_start_def tty_ok_def)

lemma example_tty_pty:
  "\<exists>p. y_ptys example_tty 0 = Some p \<and> pty_ios p = default_ios \<and> pty_write_out p = Pty_write_out
     \<and> rb_list (pty_in p) = [] \<and> rb_list (pty_out p) = [] \<and> rb_room (pty_in p) = 4095 \<and> rb_room (pty_out p) = 4095"
  by (simp add: example_tty_def pty_new_def Let_def put_pty_def pty_add_def tty_start_def rb_room_def)
     (simp add: ringbuffer_alloc_def)

definition example_pty_node :: fs_node where
  "example_pty_node = fs_node_zero\<lparr>n_device := Dev_pty 0\<rparr>"

lemma write_pty_slave_cooked_witness:
  "\<exists>y. write_pty_slave example_pty_node 2 [0x41, 0x0A] example_tty = Some (y, 2) \<and> shown 0 y = [0x41, 0x0A, 0x0D]"
proof -
  obtain p where p: "y_ptys example_tty 0 = Some p" "pty_ios p = default_ios" "pty_write_out p = Pty_write_out"
    "rb_list (pty_out p) = []" "rb_room (pty_out p) = 4095" using example_tty_pty by blast
  have "concat (map (cook (oflag default_ios)) [0x41, 0x0A]) = [0x41, 0x0A, 0x0D]"
    by (simp add: cook_def default_ios_def)
  then show ?thesis
    using write_pty_slave_cooked [OF example_tty_ok _ p(1), of example_pty_node 2 "[0x41, 0x0A]"] p
    by (auto simp: example_pty_node_def shown_def passed_def)
qed

lemma type_and_read_witness:
  "\<exists>y1 y2. write_pty_master example_pty_node 2 [0x41, 0x42] example_tty = Some (y1, 2) \<and> shown 0 y1 = [0x41, 0x42]
     \<and> read_pty_slave example_pty_node 2 [0, 0] y1 = Some (y2, [0x41, 0x42], 2)"
proof -
  obtain p where p: "y_ptys example_tty 0 = Some p" "pty_ios p = default_ios" "pty_write_out p = Pty_write_out"
    "rb_list (pty_out p) = []" "rb_list (pty_in p) = []" "rb_room (pty_in p) = 4095" "rb_room (pty_out p) = 4095"
    using example_tty_pty by blast
  have t: "typed (iflag default_ios) 0x41 = [0x41]" "typed (iflag default_ios) 0x42 = [0x42]"
    "stripped (iflag default_ios) 0x41 \<noteq> 0x0D" "stripped (iflag default_ios) 0x42 \<noteq> 0x0D"
    by (simp_all add: typed_def stripped_def small_letter_def default_ios_def)
  have e: "echoed default_ios [0x41, 0x42] = [0x41, 0x42]" by (simp add: echoed_def default_ios_def cook_def)
  have c: "cflag default_ios AND ICANON \<noteq> 0" by (simp add: default_ios_def)
  have d: "n_device example_pty_node = Dev_pty 0" by (simp add: example_pty_node_def)
  show ?thesis
    using type_and_read [OF example_tty_ok d d p(1), of 2 "[0x41, 0x42]" 2 "[0, 0]" "[0x41, 0x42]"] p t e c
    by (auto simp: shown_def passed_def)
qed

lemma tty_invariant_witness:
  "pty_get 1 example_tty = Some 0 \<and> (\<exists>p. y_ptys example_tty 0 = Some p \<and> pty_name p = 1) \<and>
   (\<exists>y. close_pty_slave example_pty_node example_tty = Some y \<and> pty_get 1 y = None)"
proof -
  have "tty_step\<^sup>*\<^sup>* tty_start example_tty" unfolding example_tty_def by (rule r_into_rtranclp) (rule tty_step.new)
  note inv = tty_invariant [OF this]
  have g: "pty_get 1 example_tty = Some 0" and m: "filter (\<lambda>e. fst e = 1) (y_map example_tty) = [(1, 0)]"
    by (simp_all add: example_tty_def pty_new_def Let_def pty_add_def pty_get_def tty_start_def put_pty_def)
  from inv g obtain p where p: "y_ptys example_tty 0 = Some p" "pty_name p = 1" by blast
  have "n_device example_pty_node = Dev_pty 0" by (simp add: example_pty_node_def)
  then have "\<exists>y. close_pty_slave example_pty_node example_tty = Some y \<and> pty_get 1 y = None"
    using inv p m by fastforce
  then show ?thesis using g p by blast
qed

end
