(* ===== verification/Ramdiskfs.thy ===== *)
theory Ramdiskfs
  imports Cstring Fs_Node
begin

text \<open>
  The two drivers without state of their own: \<open>kernel/sys/fs/dev/zero.c\<close> (\<open>/dev/null\<close> and
  \<open>/dev/zero\<close>) and \<open>kernel/sys/fs/ramdiskfs.c\<close>, the read-only file system of the boot image.
  The image is the list of its bytes, read at the offsets the packed structures give their
  fields; \<open>rd_base\<close> is its address. Entries link to each other by offset, so the loops over a
  directory end only when the chain does: they are partial functions. An access outside the
  image is \<open>None\<close>. A node of this driver carries the root node as its device; the node is the
  root itself exactly for \<open>Dev_ramdisk True\<close>. Fields that the driver leaves unset are marked by
  \<open>n_zeroed\<close> being false.
\<close>

section \<open>The null and the zero device\<close>

definition read_null :: "nat \<Rightarrow> u8 list \<Rightarrow> u8 list \<times> nat" where
  "read_null sz buffer = (buffer, 0)"

definition write_null :: "nat \<Rightarrow> u8 list \<Rightarrow> nat" where
  "write_null sz buffer = sz"

definition read_zero :: "nat \<Rightarrow> u8 list \<Rightarrow> (u8 list \<times> nat) option" where
  "read_zero sz buffer = do { buffer \<leftarrow> mem_write buffer 0 (replicate sz 0); Some (buffer, sz) }"

definition write_zero :: "nat \<Rightarrow> u8 list \<Rightarrow> nat" where
  "write_zero sz buffer = sz"

definition create_null_device :: fs_node where
  "create_null_device = fs_node_zero\<lparr>n_inode := 0, n_name := ''null'', n_uid := 0, n_gid := 0, n_mask := 0x1B6,
     n_flags := FS_CHARDEVICE, n_read := Some Read_null, n_write := Some Write_null, n_open := Some Open_null,
     n_close := Some Close_null\<rparr>"

definition create_zero_device :: fs_node where
  "create_zero_device = fs_node_zero\<lparr>n_inode := 0, n_name := ''zero'', n_uid := 0, n_gid := 0, n_mask := 0x1B6,
     n_flags := FS_CHARDEVICE, n_read := Some Read_zero, n_write := Some Write_zero, n_open := Some Open_zero,
     n_close := Some Close_zero\<rparr>"

section \<open>The image\<close>

record ramdisk =
  rd_base :: u64
  rd_image :: "u8 list"

definition le_nat :: "u8 list \<Rightarrow> nat" where
  "le_nat bs = foldr (\<lambda>b n. unat b + 256 * n) bs 0"

definition rd_u8 :: "u8 list \<Rightarrow> nat \<Rightarrow> nat option" where
  "rd_u8 img a = map_option le_nat (mem_read img a 1)"

definition rd_u16 :: "u8 list \<Rightarrow> nat \<Rightarrow> nat option" where
  "rd_u16 img a = map_option le_nat (mem_read img a 2)"

definition rd_u32 :: "u8 list \<Rightarrow> nat \<Rightarrow> nat option" where
  "rd_u32 img a = map_option le_nat (mem_read img a 4)"

text \<open>
  The packed header has its signature at 0, version at 2, size at 19 and root entry at 23, 27
  bytes in all; an entry has its name at 1, offset at 257, type at 261, next entry at 263,
  target entry at 267 and size at 271, 275 bytes in all.
\<close>

definition hdr_signature :: "u8 list \<Rightarrow> nat option" where "hdr_signature img = rd_u16 img 0"
definition hdr_version :: "u8 list \<Rightarrow> nat option" where "hdr_version img = rd_u8 img 2"
definition hdr_size :: "u8 list \<Rightarrow> nat option" where "hdr_size img = rd_u32 img 19"
definition hdr_root_entry :: "u8 list \<Rightarrow> nat option" where "hdr_root_entry img = rd_u32 img 23"
definition ent_offset :: "u8 list \<Rightarrow> nat \<Rightarrow> nat option" where "ent_offset img e = rd_u32 img (e + 257)"
definition ent_type :: "u8 list \<Rightarrow> nat \<Rightarrow> nat option" where "ent_type img e = rd_u8 img (e + 261)"
definition ent_next :: "u8 list \<Rightarrow> nat \<Rightarrow> nat option" where "ent_next img e = rd_u32 img (e + 263)"
definition ent_target :: "u8 list \<Rightarrow> nat \<Rightarrow> nat option" where "ent_target img e = rd_u32 img (e + 267)"
definition ent_size :: "u8 list \<Rightarrow> nat \<Rightarrow> nat option" where "ent_size img e = rd_u32 img (e + 271)"

text \<open>The characters from the name of an entry to the end of the image.\<close>

definition ent_name :: "u8 list \<Rightarrow> nat \<Rightarrow> string" where
  "ent_name img e = map (\<lambda>b. char_of (unat b)) (drop (e + 1) img)"

abbreviation (input) RDFS_SIGNATURE :: nat where "RDFS_SIGNATURE \<equiv> 0x1DF4"

definition rd_current_entry :: "fs_node \<Rightarrow> u8 list \<Rightarrow> nat option" where
  "rd_current_entry node img = (case n_device node of
       Dev_ramdisk True \<Rightarrow> hdr_root_entry img
     | Dev_ramdisk False \<Rightarrow> Some (unat (ucast (n_context node) :: u32))
     | _ \<Rightarrow> None)"

definition ramdiskfs_read :: "fs_node \<Rightarrow> nat \<Rightarrow> nat \<Rightarrow> u8 list \<Rightarrow> ramdisk \<Rightarrow> (u8 list \<times> nat) option" where
  "ramdiskfs_read node offset sz buffer rd = (let img = rd_image rd in do {
     sig \<leftarrow> hdr_signature img;
     if sig \<noteq> RDFS_SIGNATURE then Some (buffer, 0)
     else do {
       e \<leftarrow> rd_current_entry node img;
       esize \<leftarrow> ent_size img e;
       if offset > esize then Some (buffer, 0)
       else do {
         let sz = (if add64 offset sz > esize then esize - offset else sz);
         eoff \<leftarrow> ent_offset img e;
         bytes \<leftarrow> mem_read img (offset + eoff + 275) sz;
         buffer \<leftarrow> mem_write buffer 0 bytes;
         Some (buffer, sz) } } })"

text \<open>
  The counting loop of \<open>readdir\<close>, with its 32-bit counter; the outer result is \<open>None\<close> also when
  the loop does not end.
\<close>

partial_function (option) rd_skip :: "u8 list \<Rightarrow> u32 \<Rightarrow> nat \<Rightarrow> nat \<Rightarrow> nat option" where
  "rd_skip img i index e =
     (if unat i < index then
        if e = 0 then Some 0
        else do { e \<leftarrow> ent_next img e; rd_skip img (i + 1) index e }
      else Some e)"

definition entry_text :: "u8 list \<Rightarrow> nat \<Rightarrow> string option" where
  "entry_text img e = do {
     cells \<leftarrow> strcpy (replicate 256 NUL) 0 (ent_name img e);
     n \<leftarrow> strlen cells;
     Some (take n cells) }"

definition ramdiskfs_readdir :: "fs_node \<Rightarrow> nat \<Rightarrow> ramdisk \<Rightarrow> dirent option option" where
  "ramdiskfs_readdir node index rd = (let img = rd_image rd in do {
     sig \<leftarrow> hdr_signature img;
     if sig \<noteq> RDFS_SIGNATURE then Some None
     else do {
       e \<leftarrow> rd_current_entry node img;
       if e = 0 then Some None
       else do {
         e \<leftarrow> ent_target img e;
         e \<leftarrow> rd_skip img 0 index e;
         if e = 0 then Some None
         else do {
           name \<leftarrow> entry_text img e;
           Some (Some \<lparr>d_ino = 0, d_name = name\<rparr>) } } } })"

definition rd_node :: "string \<Rightarrow> nat \<Rightarrow> nat \<Rightarrow> nat \<Rightarrow> fs_node option" where
  "rd_node name e type esize = (let
     n = fs_node_zero\<lparr>n_zeroed := False, n_name := name, n_mask := 0, n_uid := 0, n_gid := 0, n_inode := 0,
           n_context := of_nat e, n_device := Dev_ramdisk False, n_read := None, n_write := None, n_open := None,
           n_close := None, n_readdir := None, n_finddir := None, n_length := 0\<rparr>
     in if type = 0 then Some (n\<lparr>n_flags := FS_FILE, n_read := Some Read_ramdiskfs, n_length := of_nat esize\<rparr>)
     else if type = 1 then Some (n\<lparr>n_flags := FS_DIRECTORY, n_readdir := Some Readdir_ramdiskfs,
         n_finddir := Some Finddir_ramdiskfs\<rparr>)
     else if type = 2 then Some (n\<lparr>n_flags := FS_SYMLINK\<rparr>)
     else None)"

partial_function (option) rd_search :: "u8 list \<Rightarrow> string \<Rightarrow> nat \<Rightarrow> nat option" where
  "rd_search img name e =
     (if e = 0 then Some 0
      else do {
        r \<leftarrow> strcmp (ent_name img e) (name @ [NUL]);
        if r = 0 then Some e
        else do { e \<leftarrow> ent_next img e; rd_search img name e } })"

definition ramdiskfs_finddir :: "fs_node \<Rightarrow> string \<Rightarrow> ramdisk \<Rightarrow> fs_node option option" where
  "ramdiskfs_finddir node name rd = (let img = rd_image rd in do {
     sig \<leftarrow> hdr_signature img;
     if sig \<noteq> RDFS_SIGNATURE then Some None
     else do {
       e \<leftarrow> rd_current_entry node img;
       if e = 0 then Some None
       else do {
         e \<leftarrow> ent_target img e;
         e \<leftarrow> rd_search img name e;
         if e = 0 then Some None
         else do {
           text \<leftarrow> entry_text img e;
           type \<leftarrow> ent_type img e;
           esize \<leftarrow> ent_size img e;
           Some (rd_node text e type esize) } } } })"

definition ramdiskfs_open :: "ramdisk \<Rightarrow> fs_node option option" where
  "ramdiskfs_open rd = (let img = rd_image rd in
     if rd_base rd = 0 then Some None
     else do {
       sig \<leftarrow> hdr_signature img;
       if sig \<noteq> RDFS_SIGNATURE then Some None
       else do {
         v \<leftarrow> hdr_version img;
         if v \<noteq> 1 then Some None
         else do {
           n \<leftarrow> hdr_size img;
           if n < 27 then Some None
           else Some (Some (fs_node_zero\<lparr>n_zeroed := False, n_name := ''fs:ramdisk'', n_mask := 0, n_uid := 0, n_gid := 0,
             n_flags := FS_DIRECTORY, n_inode := 0, n_length := 0, n_context := rd_base rd, n_read := None,
             n_write := None, n_open := None, n_close := None, n_readdir := Some Readdir_ramdiskfs,
             n_finddir := Some Finddir_ramdiskfs, n_device := Dev_ramdisk True\<rparr>)) } } })"


section \<open>Directories of a sane image\<close>

text \<open>
  The entries from offset \<open>e\<close> on, with their names: a finite chain of entries that lie in the
  image and whose names fit the field.
\<close>

fun rd_chain :: "u8 list \<Rightarrow> nat \<Rightarrow> (nat \<times> string) list \<Rightarrow> bool" where
  "rd_chain img e [] \<longleftrightarrow> e = 0"
| "rd_chain img e ((e', name) # es) \<longleftrightarrow> e \<noteq> 0 \<and> e' = e \<and> cstr (ent_name img e) name \<and> length name < 256
     \<and> ent_type img e \<noteq> None \<and> ent_size img e \<noteq> None \<and> (\<exists>e2. ent_next img e = Some e2 \<and> rd_chain img e2 es)"

lemma entry_text_cstr:
  assumes "cstr (ent_name img e) name" and "length name < 256"
  shows "entry_text img e = Some name"
proof -
  have "strcpy (replicate 256 NUL) 0 (ent_name img e) = mem_write (replicate 256 NUL) 0 (name @ [NUL])"
    by (rule strcpy_cstr [OF assms(1)]) (use assms(2) in simp)
  then have "strcpy (replicate 256 NUL) 0 (ent_name img e) = Some (name @ NUL # replicate (255 - length name) NUL)"
    using assms(2) by (simp add: mem_write_def)
  moreover have "strlen (name @ NUL # replicate (255 - length name) NUL) = Some (length name)"
    using assms(1) by (intro strlen_cstr) (simp add: cstr_def)
  ultimately show ?thesis by (simp add: entry_text_def)
qed

lemma rd_skip_chain:
  "rd_chain img e es \<Longrightarrow> j \<le> k \<Longrightarrow> j + length es < 4294967296 \<Longrightarrow>
   rd_skip img (of_nat j) k e = Some (if k - j < length es then fst (es ! (k - j)) else 0)"
proof (induction es arbitrary: e j)
  case Nil
  then show ?case by (subst rd_skip.simps) simp
next
  case (Cons x es)
  obtain e2 where e: "e \<noteq> 0" "x = (e, snd x)" "ent_next img e = Some e2" "rd_chain img e2 es"
    using Cons.prems(1) by (cases x) auto
  have j: "unat (of_nat j :: u32) = j" using Cons.prems(3) by (simp add: unat_of_nat)
  show ?case
  proof (cases "j < k")
    case True
    then have "rd_skip img (of_nat j) k e = rd_skip img (of_nat (Suc j)) k e2"
      using e(1,3) j by (subst rd_skip.simps) (simp add: add.commute)
    also have "\<dots> = Some (if k - Suc j < length es then fst (es ! (k - Suc j)) else 0)"
      using Cons.IH [OF e(4), of "Suc j"] True Cons.prems(3) by simp
    finally show ?thesis using True by (cases "k - j") (simp_all, metis Suc_diff_Suc diff_Suc_Suc nat.inject)
  next
    case False
    then have "k = j" using Cons.prems(2) by simp
    then show ?thesis using e(2) j by (subst rd_skip.simps) (metis diff_self_eq_0 fst_conv length_greater_0_conv list.discI nat_less_le nth_Cons_0)
  qed
qed

lemma rd_search_chain:
  "rd_chain img e es \<Longrightarrow> NUL \<notin> set name \<Longrightarrow>
   rd_search img name e = Some (case find (\<lambda>x. snd x = name) es of None \<Rightarrow> 0 | Some x \<Rightarrow> fst x)"
proof (induction es arbitrary: e)
  case Nil
  then show ?case by (subst rd_search.simps) simp
next
  case (Cons x es)
  obtain e2 where e: "e \<noteq> 0" "x = (e, snd x)" "cstr (ent_name img e) (snd x)" "ent_next img e = Some e2" "rd_chain img e2 es"
    using Cons.prems(1) by (cases x) auto
  have "cstr (name @ [NUL]) name" using Cons.prems(2) by simp
  from strcmp_cstr [OF e(3) this] obtain r where r: "strcmp (ent_name img e) (name @ [NUL]) = Some r" "r = 0 \<longleftrightarrow> snd x = name"
    by blast
  have "fst x = e" using e(2) by (metis fst_conv)
  then show ?case
    using Cons.IH [OF e(5) Cons.prems(2)] e(1,4) r by (subst rd_search.simps) simp
qed

lemma rd_chain_member:
  "rd_chain img e es \<Longrightarrow> x \<in> set es \<Longrightarrow>
   fst x \<noteq> 0 \<and> entry_text img (fst x) = Some (snd x) \<and> (\<exists>ty n. ent_type img (fst x) = Some ty \<and> ent_size img (fst x) = Some n)"
proof (induction es arbitrary: e)
  case (Cons y es)
  then obtain e2 where "fst y = e" "e \<noteq> 0" "cstr (ent_name img e) (snd y)" "length (snd y) < 256"
    "ent_type img e \<noteq> None" "ent_size img e \<noteq> None" "rd_chain img e2 es" by (cases y) auto
  then show ?case
    using Cons.prems(2) Cons.IH [of e2] entry_text_cstr [of img e "snd y"] by (cases "x = y") auto
qed simp

lemma readdir_chain:
  assumes "hdr_signature (rd_image rd) = Some RDFS_SIGNATURE" and "rd_current_entry node (rd_image rd) = Some e" "e \<noteq> 0"
    and "ent_target (rd_image rd) e = Some t" and chain: "rd_chain (rd_image rd) t es" and "length es < 4294967296"
  shows "map_option (map_option d_name) (ramdiskfs_readdir node k rd) =
    Some (if k < length es then Some (snd (es ! k)) else None)"
proof -
  have "rd_skip (rd_image rd) 0 k t = Some (if k < length es then fst (es ! k) else 0)"
    using rd_skip_chain [OF chain, of 0 k] assms(6) by simp
  then show ?thesis
    using assms(1-4) rd_chain_member [OF chain, of "es ! k"]
    by (cases "k < length es") (simp_all add: ramdiskfs_readdir_def Let_def)
qed

lemma finddir_chain:
  assumes "hdr_signature (rd_image rd) = Some RDFS_SIGNATURE" and "rd_current_entry node (rd_image rd) = Some e" "e \<noteq> 0"
    and "ent_target (rd_image rd) e = Some t" and chain: "rd_chain (rd_image rd) t es" and name: "NUL \<notin> set name"
  shows "\<exists>r. ramdiskfs_finddir node name rd = Some r
    \<and> (case find (\<lambda>x. snd x = name) es of None \<Rightarrow> r = None
       | Some x \<Rightarrow> \<exists>ty n. ent_type (rd_image rd) (fst x) = Some ty \<and> ent_size (rd_image rd) (fst x) = Some n
           \<and> r = rd_node name (fst x) ty n)"
proof -
  note search = rd_search_chain [OF chain name]
  show ?thesis
  proof (cases "find (\<lambda>x. snd x = name) es")
    case None
    then show ?thesis using assms(1-4) search by (simp add: ramdiskfs_finddir_def Let_def)
  next
    case (Some x)
    then have x: "x \<in> set es" "snd x = name" by (auto simp: find_Some_iff)
    then show ?thesis
      using assms(1-4) search Some rd_chain_member [OF chain x(1)] by (auto simp: ramdiskfs_finddir_def Let_def)
  qed
qed

lemma rd_node_kinds:
  "ty \<le> 2 \<Longrightarrow> \<exists>m. rd_node name e ty n = Some m \<and> n_name m = name \<and> n_device m = Dev_ramdisk False \<and> n_context m = of_nat e
     \<and> n_flags m = [FS_FILE, FS_DIRECTORY, FS_SYMLINK] ! ty \<and> n_length m = (if ty = 0 then of_nat n else 0)
     \<and> n_read m = (if ty = 0 then Some Read_ramdiskfs else None)
     \<and> n_readdir m = (if ty = 1 then Some Readdir_ramdiskfs else None) \<and> n_finddir m = (if ty = 1 then Some Finddir_ramdiskfs else None)"
  "2 < ty \<Longrightarrow> rd_node name e ty n = None"
proof -
  have "ty = 0 \<or> ty = 1 \<or> ty = 2" if "ty \<le> 2" using that by linarith
  then show "ty \<le> 2 \<Longrightarrow> \<exists>m. rd_node name e ty n = Some m \<and> n_name m = name \<and> n_device m = Dev_ramdisk False \<and> n_context m = of_nat e
     \<and> n_flags m = [FS_FILE, FS_DIRECTORY, FS_SYMLINK] ! ty \<and> n_length m = (if ty = 0 then of_nat n else 0)
     \<and> n_read m = (if ty = 0 then Some Read_ramdiskfs else None)
     \<and> n_readdir m = (if ty = 1 then Some Readdir_ramdiskfs else None) \<and> n_finddir m = (if ty = 1 then Some Finddir_ramdiskfs else None)"
    by (auto simp: rd_node_def Let_def fs_node_zero_def)
  show "2 < ty \<Longrightarrow> rd_node name e ty n = None" by (simp add: rd_node_def)
qed

text \<open>
  C34. On an image whose directory is a finite chain of entries the loops of the driver end and
  listing and lookup agree: \<open>readdir\<close> delivers the names of the chain by index and refuses every
  index behind it, and \<open>finddir\<close> looks up a name as the first entry of that name in the chain: a file,
  a directory or a link gives a node of that kind with the name, the entry's place and, for a file, the
  length that the entry records; an entry of any other kind, and a name that is not listed, is not found.
\<close>

theorem ramdiskfs_directory:
  assumes "hdr_signature (rd_image rd) = Some RDFS_SIGNATURE" and "rd_current_entry node (rd_image rd) = Some e" "e \<noteq> 0"
    and "ent_target (rd_image rd) e = Some t" and chain: "rd_chain (rd_image rd) t es" and "length es < 4294967296"
    and "NUL \<notin> set name"
  shows "map_option (map_option d_name) (ramdiskfs_readdir node k rd) =
      Some (if k < length es then Some (snd (es ! k)) else None)
    \<and> (case find (\<lambda>x. snd x = name) es of None \<Rightarrow> ramdiskfs_finddir node name rd = Some None
       | Some x \<Rightarrow> \<exists>ty n. ent_type (rd_image rd) (fst x) = Some ty \<and> ent_size (rd_image rd) (fst x) = Some n \<and>
           (if 2 < ty then ramdiskfs_finddir node name rd = Some None
            else \<exists>m. ramdiskfs_finddir node name rd = Some (Some m) \<and> n_name m = name \<and> n_device m = Dev_ramdisk False
              \<and> n_context m = of_nat (fst x) \<and> n_flags m = [FS_FILE, FS_DIRECTORY, FS_SYMLINK] ! ty
              \<and> n_length m = (if ty = 0 then of_nat n else 0)
              \<and> n_read m = (if ty = 0 then Some Read_ramdiskfs else None)
              \<and> n_readdir m = (if ty = 1 then Some Readdir_ramdiskfs else None)
              \<and> n_finddir m = (if ty = 1 then Some Finddir_ramdiskfs else None)))"
proof (rule conjI)
  show "map_option (map_option d_name) (ramdiskfs_readdir node k rd) =
      Some (if k < length es then Some (snd (es ! k)) else None)"
    by (rule readdir_chain [OF assms(1-6)])
next
  obtain r where r: "ramdiskfs_finddir node name rd = Some r"
    "case find (\<lambda>x. snd x = name) es of None \<Rightarrow> r = None
       | Some x \<Rightarrow> \<exists>ty n. ent_type (rd_image rd) (fst x) = Some ty \<and> ent_size (rd_image rd) (fst x) = Some n
           \<and> r = rd_node name (fst x) ty n"
    using finddir_chain [OF assms(1-5,7)] by blast
  show "case find (\<lambda>x. snd x = name) es of None \<Rightarrow> ramdiskfs_finddir node name rd = Some None
       | Some x \<Rightarrow> \<exists>ty n. ent_type (rd_image rd) (fst x) = Some ty \<and> ent_size (rd_image rd) (fst x) = Some n \<and>
           (if 2 < ty then ramdiskfs_finddir node name rd = Some None
            else \<exists>m. ramdiskfs_finddir node name rd = Some (Some m) \<and> n_name m = name \<and> n_device m = Dev_ramdisk False
              \<and> n_context m = of_nat (fst x) \<and> n_flags m = [FS_FILE, FS_DIRECTORY, FS_SYMLINK] ! ty
              \<and> n_length m = (if ty = 0 then of_nat n else 0)
              \<and> n_read m = (if ty = 0 then Some Read_ramdiskfs else None)
              \<and> n_readdir m = (if ty = 1 then Some Readdir_ramdiskfs else None)
              \<and> n_finddir m = (if ty = 1 then Some Finddir_ramdiskfs else None))"
  proof (cases "find (\<lambda>x. snd x = name) es")
    case None
    then show ?thesis using r by simp
  next
    case (Some x)
    then obtain ty n where n: "ent_type (rd_image rd) (fst x) = Some ty" "ent_size (rd_image rd) (fst x) = Some n"
      "r = rd_node name (fst x) ty n" using r(2) by auto
    show ?thesis
      unfolding Some option.case using n r(1) rd_node_kinds [of ty name "fst x" n]
      by (intro exI [of _ ty] exI [of _ n]) (cases "2 < ty", simp_all)
  qed
qed

text \<open>An image with one file, \<open>a\<close>, of two bytes, in its root directory.\<close>

definition example_image :: "u8 list" where
  "example_image = [0xF4, 0x1D, 1] @ replicate 16 0 @ [71, 2, 0, 0] @ [27, 0, 0, 0]
     @ (replicate 267 0 @ [46, 1, 0, 0] @ [0, 0, 0, 0])
     @ ([0, 0x61, 0] @ replicate 254 0 @ [46, 1, 0, 0] @ [0, 0] @ [0, 0, 0, 0] @ [0, 0, 0, 0] @ [2, 0, 0, 0]) @ [7, 8]"

lemma ramdiskfs_directory_witness:
  "map_option (map_option d_name) (ramdiskfs_readdir (fs_node_zero\<lparr>n_device := Dev_ramdisk True\<rparr>) 0
     \<lparr>rd_base = 0x1000, rd_image = example_image\<rparr>) = Some (Some ''a'')"
proof -
  let ?n = "fs_node_zero\<lparr>n_device := Dev_ramdisk True\<rparr>" and ?rd = "\<lparr>rd_base = 0x1000, rd_image = example_image\<rparr>"
  have "hdr_signature example_image = Some RDFS_SIGNATURE"
    by (simp add: hdr_signature_def rd_u16_def example_image_def mem_read_def le_nat_def)
  moreover have "rd_current_entry ?n example_image = Some 27"
    by (simp add: rd_current_entry_def hdr_root_entry_def rd_u32_def example_image_def mem_read_def le_nat_def)
  moreover have "ent_target example_image 27 = Some 302"
    by (simp add: ent_target_def rd_u32_def example_image_def mem_read_def le_nat_def)
  moreover have "rd_chain example_image 302 [(302, ''a'')]"
  proof -
    have "cstr (ent_name example_image 302) ''a''"
      by (simp add: ent_name_def example_image_def cstr_def char_of_def bit_0)
    moreover have "ent_type example_image 302 \<noteq> None" "ent_size example_image 302 \<noteq> None" "ent_next example_image 302 = Some 0"
      by (simp_all add: ent_type_def ent_size_def ent_next_def rd_u8_def rd_u32_def example_image_def mem_read_def le_nat_def)
    ultimately show ?thesis by simp
  qed
  ultimately show ?thesis
    using ramdiskfs_directory [of ?rd ?n 27 302 "[(302, ''a'')]" "''a''" 0] by simp
qed

end
