(* ===== verification/Vfs.thy ===== *)
theory Vfs
  imports Tmpfs Tty Ramdiskfs
begin

text \<open>
  The virtual file system switch, \<open>kernel/sys/fs/vfs.c\<close>, over the state of all drivers, with
  \<open>zerofs_mount\<close> of \<open>zero.c\<close> and \<open>pty_init\<close> of \<open>tty.c\<close>, which mount devices. A node of
  \<open>ramdiskfs.c\<close> leaves most of its function pointers (and \<open>ptr\<close>) with what \<open>malloc\<close> returned:
  testing one of them is \<open>None\<close>. Path names are texts; \<open>_kopen\<close> cuts its private copy of the name
  at each slash, so the mount table is asked for the text from the start of the name up to that
  slash, and the driver for the text since the last one.
\<close>

section \<open>State and dispatch\<close>

record vfs =
  v_tmpfs :: tmpfs
  v_ttys :: ttys
  v_ramdisk :: ramdisk
  v_mounts :: "(string \<times> fs_node) list"
  v_mount_capacity :: nat
  v_root :: "fs_node option"

definition on_tmpfs :: "(tmpfs \<times> 'a) option \<Rightarrow> vfs \<Rightarrow> (vfs \<times> 'a) option" where
  "on_tmpfs r v = map_option (\<lambda>(t, x). (v\<lparr>v_tmpfs := t\<rparr>, x)) r"

definition on_ttys :: "(ttys \<times> 'a) option \<Rightarrow> vfs \<Rightarrow> (vfs \<times> 'a) option" where
  "on_ttys r v = map_option (\<lambda>(y, x). (v\<lparr>v_ttys := y\<rparr>, x)) r"

definition read_fs :: "fs_node \<Rightarrow> nat \<Rightarrow> nat \<Rightarrow> u8 list \<Rightarrow> vfs \<Rightarrow> (vfs \<times> u8 list \<times> nat) option" where
  "read_fs node offset sz buffer v = (case n_read node of
       None \<Rightarrow> Some (v, buffer, 0)
     | Some Read_tmpfs \<Rightarrow> map_option (Pair v) (read_tmpfs node offset sz buffer (v_tmpfs v))
     | Some Read_null \<Rightarrow> Some (v, read_null sz buffer)
     | Some Read_zero \<Rightarrow> map_option (Pair v) (read_zero sz buffer)
     | Some Read_pty_master \<Rightarrow> on_ttys (read_pty_master node sz buffer (v_ttys v)) v
     | Some Read_pty_slave \<Rightarrow> on_ttys (read_pty_slave node sz buffer (v_ttys v)) v
     | Some Read_ramdiskfs \<Rightarrow> map_option (Pair v) (ramdiskfs_read node offset sz buffer (v_ramdisk v)))"

definition write_fs :: "fs_node \<Rightarrow> nat \<Rightarrow> nat \<Rightarrow> u8 list \<Rightarrow> vfs \<Rightarrow> (vfs \<times> nat) option" where
  "write_fs node offset sz buffer v = (case n_write node of
       None \<Rightarrow> Some (v, 0)
     | Some Write_tmpfs \<Rightarrow> on_tmpfs (write_tmpfs node offset sz buffer (v_tmpfs v)) v
     | Some Write_null \<Rightarrow> Some (v, write_null sz buffer)
     | Some Write_zero \<Rightarrow> Some (v, write_zero sz buffer)
     | Some Write_pty_master \<Rightarrow> on_ttys (write_pty_master node sz buffer (v_ttys v)) v
     | Some Write_pty_slave \<Rightarrow> on_ttys (write_pty_slave node sz buffer (v_ttys v)) v)"

text \<open>The \<open>open\<close> functions of all drivers are empty.\<close>

definition open_fs :: "fs_node \<Rightarrow> u32 \<Rightarrow> vfs \<Rightarrow> vfs" where
  "open_fs node flags v = (case n_open node of None \<Rightarrow> v | Some _ \<Rightarrow> v)"

definition close_fs :: "fs_node \<Rightarrow> vfs \<Rightarrow> vfs option" where
  "close_fs node v = (case n_close node of
       Some Close_pty_slave \<Rightarrow> map_option (\<lambda>y. v\<lparr>v_ttys := y\<rparr>) (close_pty_slave node (v_ttys v))
     | _ \<Rightarrow> Some v)"

definition ioctl_fs :: "fs_node \<Rightarrow> nat \<Rightarrow> int option" where
  "ioctl_fs node cmd = (if \<not> n_zeroed node then None
     else if n_ioctl_pty node then Some (ioctl_pty cmd) else Some 0)"

definition truncate_fs :: "fs_node \<Rightarrow> vfs \<Rightarrow> (vfs \<times> int) option" where
  "truncate_fs node v = (if \<not> n_zeroed node then None
     else if n_truncate_tmpfs node then on_tmpfs (truncate_tmpfs node (v_tmpfs v)) v else Some (v, 0))"

definition create_fs :: "cred \<Rightarrow> fs_node \<Rightarrow> string \<Rightarrow> u32 \<Rightarrow> vfs \<Rightarrow> (vfs \<times> int) option" where
  "create_fs c node name mode v = (if \<not> n_zeroed node then None
     else if n_create_tmpfs node then on_tmpfs (create_tmpfs c node name mode (v_tmpfs v)) v else Some (v, 0))"

definition mkdir_fs :: "cred \<Rightarrow> fs_node \<Rightarrow> string \<Rightarrow> u32 \<Rightarrow> vfs \<Rightarrow> (vfs \<times> int) option" where
  "mkdir_fs c node name mode v = (if \<not> n_zeroed node then None
     else if n_mkdir_tmpfs node then on_tmpfs (mkdir_tmpfs c node name mode (v_tmpfs v)) v else Some (v, 0))"

definition symlink_fs :: "cred \<Rightarrow> fs_node \<Rightarrow> string \<Rightarrow> string \<Rightarrow> vfs \<Rightarrow> (vfs \<times> int) option" where
  "symlink_fs c node target name v = (if \<not> n_zeroed node then None
     else if n_symlink_tmpfs node then on_tmpfs (symlink_tmpfs c node target name (v_tmpfs v)) v else Some (v, 0))"

definition unlink_fs :: "fs_node \<Rightarrow> string \<Rightarrow> vfs \<Rightarrow> (vfs \<times> int) option" where
  "unlink_fs node name v = (if \<not> n_zeroed node then None
     else if n_unlink_tmpfs node then on_tmpfs (unlink_tmpfs node name (v_tmpfs v)) v else Some (v, 0))"

definition readlink_fs :: "cred \<Rightarrow> fs_node \<Rightarrow> string \<Rightarrow> nat \<Rightarrow> vfs \<Rightarrow> (string \<times> nat) option" where
  "readlink_fs c node buf sz v = (if \<not> n_zeroed node then None
     else (case n_readlink node of None \<Rightarrow> Some (buf, 0)
       | Some Readlink_tmpfs \<Rightarrow> readlink_tmpfs node buf sz (v_tmpfs v)
       | Some Readlink_dev_tty \<Rightarrow> readlink_dev_tty c buf sz (v_ttys v)))"

definition chmod_fs :: "fs_node \<Rightarrow> u32 \<Rightarrow> vfs \<Rightarrow> (vfs \<times> int) option" where
  "chmod_fs node mode v = (if \<not> n_zeroed node then None
     else if n_chmod_tmpfs node then on_tmpfs (chmod_tmpfs node mode (v_tmpfs v)) v else Some (v, 0))"

definition chown_fs :: "fs_node \<Rightarrow> u32 \<Rightarrow> u32 \<Rightarrow> vfs \<Rightarrow> (vfs \<times> int) option" where
  "chown_fs node uid gid v = (if \<not> n_zeroed node then None
     else if n_chown_tmpfs node then on_tmpfs (chown_tmpfs node uid gid (v_tmpfs v)) v else Some (v, 0))"

definition readdir_fs :: "fs_node \<Rightarrow> nat \<Rightarrow> vfs \<Rightarrow> dirent option option" where
  "readdir_fs node index v =
     (if n_flags node AND 0x07 = FS_DIRECTORY then
        (case n_readdir node of None \<Rightarrow> Some None
         | Some Readdir_tmpfs \<Rightarrow> readdir_tmpfs node index (v_tmpfs v)
         | Some Readdir_pty \<Rightarrow> readdir_pty index (v_ttys v)
         | Some Readdir_ramdiskfs \<Rightarrow> ramdiskfs_readdir node index (v_ramdisk v))
      else Some None)"

definition finddir_fs :: "fs_node \<Rightarrow> string \<Rightarrow> vfs \<Rightarrow> fs_node option option" where
  "finddir_fs node name v = (case n_finddir node of
       None \<Rightarrow> Some None
     | Some Finddir_tmpfs \<Rightarrow> finddir_tmpfs node name (v_tmpfs v)
     | Some Finddir_pty \<Rightarrow> finddir_pty name (v_ttys v)
     | Some Finddir_ramdiskfs \<Rightarrow> ramdiskfs_finddir node name (v_ramdisk v))"

section \<open>Path names\<close>

text \<open>A copy of a node; a copy of the root node of a RAM disk is not that root node.\<close>

definition copy_node :: "fs_node \<Rightarrow> fs_node" where
  "copy_node node = (case n_device node of Dev_ramdisk _ \<Rightarrow> node\<lparr>n_device := Dev_ramdisk False\<rparr> | _ \<Rightarrow> node)"

definition vfs_get_mountpoint :: "string \<Rightarrow> vfs \<Rightarrow> fs_node option" where
  "vfs_get_mountpoint path v = map_option copy_node (map_of (v_mounts v) path)"

abbreviation (input) OPEN_FLAG_PARENT :: u32 where "OPEN_FLAG_PARENT \<equiv> 0x10000000"

definition slash :: char where "slash = CHR ''/''"

text \<open>Cutting off trailing slashes; a text of slashes only would be left at its front.\<close>

definition strip_slashes :: "string \<Rightarrow> string option" where
  "strip_slashes s = (if list_all (\<lambda>c. c = slash) s then None else Some (rev (dropWhile (\<lambda>c. c = slash) (rev s))))"

text \<open>
  One component: \<open>path\<close> is the name from its start to the end of the component \<open>tok\<close>. The
  field \<open>ptr\<close> of the node found is tested, which is null unless it was never set.
\<close>

definition kopen_step :: "string \<Rightarrow> string \<Rightarrow> u32 \<Rightarrow> fs_node \<Rightarrow> vfs \<Rightarrow> (vfs \<times> fs_node option) option" where
  "kopen_step path tok flags wd v = do {
     node \<leftarrow> (case vfs_get_mountpoint path v of Some m \<Rightarrow> Some (Some m) | None \<Rightarrow> finddir_fs wd tok v);
     let node = (if tok = [] then Some wd else node);
     (case node of None \<Rightarrow> Some (v, None)
      | Some wd \<Rightarrow> if \<not> n_zeroed wd then None else Some (open_fs wd flags v, Some wd)) }"

fun kopen_walk :: "string \<Rightarrow> string \<Rightarrow> string \<Rightarrow> u32 \<Rightarrow> fs_node \<Rightarrow> vfs \<Rightarrow> (vfs \<times> fs_node option) option" where
  "kopen_walk before tok [] flags wd v =
     (if flags AND OPEN_FLAG_PARENT \<noteq> 0
      then (if n_zeroed wd then Some (v, Some wd) else None)
      else kopen_step (before @ tok) tok flags wd v)"
| "kopen_walk before tok (c # cs) flags wd v =
     (if c = slash then do {
        (v, node) \<leftarrow> kopen_step (before @ tok) tok flags wd v;
        (case node of None \<Rightarrow> Some (v, None)
         | Some wd \<Rightarrow> (case cs of [] \<Rightarrow> None | d # ds \<Rightarrow> kopen_walk (before @ tok @ [c]) [d] ds flags wd v)) }
      else kopen_walk before (tok @ [c]) cs flags wd v)"

definition kopen_from :: "string \<Rightarrow> u32 \<Rightarrow> fs_node option \<Rightarrow> vfs \<Rightarrow> (vfs \<times> fs_node option) option" where
  "kopen_from filename flags wd v = (let
     lead = takeWhile (\<lambda>c. c = slash) filename;
     nodename = dropWhile (\<lambda>c. c = slash) filename
     in case wd of None \<Rightarrow> Some (v, None)
     | Some wd \<Rightarrow>
         let wd = copy_node wd in
         if nodename = [] then Some (v, Some wd)
         else do {
           nodename \<leftarrow> strip_slashes nodename;
           kopen_walk lead [] nodename flags wd v })"

definition kopen :: "string \<Rightarrow> u32 \<Rightarrow> vfs \<Rightarrow> (vfs \<times> fs_node option) option" where
  "kopen filename flags v = kopen_from filename flags (v_root v) v"

text \<open>The last component of a name, behind the last slash that a character other than a slash follows.\<close>

fun last_component :: "string \<Rightarrow> string \<Rightarrow> string" where
  "last_component filename [] = filename"
| "last_component filename (c # cs) =
     last_component (if c = slash \<and> cs \<noteq> [] \<and> hd cs \<noteq> slash then cs else filename) cs"

definition file_name :: "string \<Rightarrow> string option" where
  "file_name name = strip_slashes (last_component name name)"

section \<open>Operations on path names\<close>

text \<open>What the four operations share: opening the parent directory and asking for permission.\<close>

definition with_parent :: "cred \<Rightarrow> string \<Rightarrow> (fs_node \<Rightarrow> string \<Rightarrow> vfs \<Rightarrow> (vfs \<times> int) option) \<Rightarrow> vfs \<Rightarrow> (vfs \<times> int) option" where
  "with_parent c name body v =
     (if name = [] then Some (v, - EINVAL)
      else do {
        (v, parent) \<leftarrow> kopen name OPEN_FLAG_PARENT v;
        (case parent of None \<Rightarrow> Some (v, - ENOENT)
         | Some parent \<Rightarrow>
             if \<not> check_permission c parent 2 then Some (v, - EACCES)
             else do {
               filename \<leftarrow> file_name name;
               body parent filename v }) })"

definition create_file :: "cred \<Rightarrow> string \<Rightarrow> u32 \<Rightarrow> vfs \<Rightarrow> (vfs \<times> int) option" where
  "create_file c name mode v =
     (if name = [slash] then Some (v, - EEXIST)
      else with_parent c name (\<lambda>parent filename v. do {
        this \<leftarrow> finddir_fs parent filename v;
        if this \<noteq> None then Some (v, - EEXIST)
        else if \<not> n_zeroed parent then None
        else do {
          (v, result) \<leftarrow> (if n_create_tmpfs parent then on_tmpfs (create_tmpfs c parent filename mode (v_tmpfs v)) v
                          else Some (v, - EROFS));
          v \<leftarrow> close_fs parent v;
          Some (v, result) } }) v)"

definition mkdir :: "cred \<Rightarrow> string \<Rightarrow> u32 \<Rightarrow> vfs \<Rightarrow> (vfs \<times> int) option" where
  "mkdir c name mode v = with_parent c name (\<lambda>parent filename v. do {
     this \<leftarrow> finddir_fs parent filename v;
     if this \<noteq> None then Some (v, - EEXIST)
     else if \<not> n_zeroed parent then None
     else do {
       (v, result) \<leftarrow> (if n_mkdir_tmpfs parent then on_tmpfs (mkdir_tmpfs c parent filename mode (v_tmpfs v)) v
                       else Some (v, - EROFS));
       v \<leftarrow> close_fs parent v;
       Some (v, result) } }) v"

definition symlink :: "cred \<Rightarrow> string \<Rightarrow> string \<Rightarrow> vfs \<Rightarrow> (vfs \<times> int) option" where
  "symlink c target name v = with_parent c name (\<lambda>parent filename v.
     if \<not> n_zeroed parent then None
     else do {
       (v, result) \<leftarrow> (if n_symlink_tmpfs parent then on_tmpfs (symlink_tmpfs c parent target filename (v_tmpfs v)) v
                       else Some (v, - EINVAL));
       v \<leftarrow> close_fs parent v;
       Some (v, result) }) v"

definition unlink :: "cred \<Rightarrow> string \<Rightarrow> vfs \<Rightarrow> (vfs \<times> int) option" where
  "unlink c name v = with_parent c name (\<lambda>parent filename v.
     if \<not> n_zeroed parent then None
     else do {
       (v, result) \<leftarrow> (if n_unlink_tmpfs parent then on_tmpfs (unlink_tmpfs parent filename (v_tmpfs v)) v
                       else Some (v, - EINVAL));
       v \<leftarrow> close_fs parent v;
       Some (v, result) }) v"

section \<open>Mounting\<close>

definition vfs_init :: "vfs \<Rightarrow> vfs" where
  "vfs_init v = v\<lparr>v_mount_capacity := 32, v_mounts := []\<rparr>"

definition vfs_mount :: "cred \<Rightarrow> string \<Rightarrow> fs_node \<Rightarrow> vfs \<Rightarrow> (vfs \<times> int) option" where
  "vfs_mount c path target v = do {
     (v, result) \<leftarrow> create_file c path 0 v;
     if result \<noteq> 0 then Some (v, result)
     else Some (v\<lparr>v_mount_capacity := (if length (v_mounts v) \<ge> v_mount_capacity v then v_mount_capacity v + 32 else v_mount_capacity v),
                  v_mounts := v_mounts v @ [(path, target)]\<rparr>, 0) }"

definition zerofs_mount :: "cred \<Rightarrow> vfs \<Rightarrow> vfs option" where
  "zerofs_mount c v = do {
     (v, _) \<leftarrow> vfs_mount c ''/dev/null'' create_null_device v;
     (v, _) \<leftarrow> vfs_mount c ''/dev/zero'' create_zero_device v;
     Some v }"

definition pty_init :: "cred \<Rightarrow> vfs \<Rightarrow> vfs option" where
  "pty_init c v = do {
     let v = v\<lparr>v_ttys := (v_ttys v)\<lparr>y_capacity := 32\<rparr>\<rparr>;
     (v, _) \<leftarrow> vfs_mount c ''/dev/pts'' create_pty_dir v;
     (v, _) \<leftarrow> vfs_mount c ''/dev/tty'' create_dev_tty v;
     Some v }"


section \<open>Path resolution by components\<close>

text \<open>
  The specification of \<open>kopen\<close>: walk down component by component; a mount point with the text of
  the path so far goes before the directory's own entry.
\<close>

definition lookup_at :: "string \<Rightarrow> string \<Rightarrow> fs_node \<Rightarrow> vfs \<Rightarrow> fs_node option option" where
  "lookup_at path c wd v = do {
     node \<leftarrow> (case vfs_get_mountpoint (path @ slash # c) v of Some m \<Rightarrow> Some (Some m) | None \<Rightarrow> finddir_fs wd c v);
     (case node of None \<Rightarrow> Some None | Some n \<Rightarrow> if n_zeroed n then Some (Some n) else None) }"

fun resolve :: "string \<Rightarrow> string list \<Rightarrow> fs_node \<Rightarrow> vfs \<Rightarrow> fs_node option option" where
  "resolve path [] wd v = Some (Some wd)"
| "resolve path (c # cs) wd v = do {
     node \<leftarrow> lookup_at path c wd v;
     (case node of None \<Rightarrow> Some None | Some n \<Rightarrow> resolve (path @ slash # c) cs n v) }"

definition abs_name :: "string list \<Rightarrow> string" where
  "abs_name cs = concat (map (Cons slash) cs)"

text \<open>
  The components that the scan makes: the character behind a slash is never tested, so it belongs to
  the component even if it is a slash itself. Plain names are the ones without doubled slashes.
\<close>

definition scanned :: "string list \<Rightarrow> bool" where
  "scanned cs \<longleftrightarrow> (\<forall>c \<in> set cs. c \<noteq> [] \<and> slash \<notin> set (tl c))"

definition scanned_name :: "string list \<Rightarrow> bool" where
  "scanned_name cs \<longleftrightarrow> cs \<noteq> [] \<and> scanned cs \<and> hd (hd cs) \<noteq> slash \<and> last (last cs) \<noteq> slash"

definition plain_names :: "string list \<Rightarrow> bool" where
  "plain_names cs \<longleftrightarrow> (\<forall>c \<in> set cs. c \<noteq> [] \<and> slash \<notin> set c)"

lemma abs_name_simps [simp]:
  "abs_name [] = []" "abs_name (c # cs) = slash # c @ abs_name cs" "abs_name (cs @ ds) = abs_name cs @ abs_name ds"
  by (simp_all add: abs_name_def)

lemma plain_names_simps [simp]:
  "plain_names []" "plain_names (c # cs) \<longleftrightarrow> c \<noteq> [] \<and> slash \<notin> set c \<and> plain_names cs"
  "plain_names (cs @ ds) \<longleftrightarrow> plain_names cs \<and> plain_names ds"
  by (auto simp: plain_names_def)

lemma open_fs_id [simp]: "open_fs node flags v = v"
  by (simp add: open_fs_def split: option.split)

lemma kopen_step_state: "kopen_step path tok flags wd v = Some (v', r) \<Longrightarrow> v' = v"
  by (auto simp: kopen_step_def split: option.splits Option.bind_split_asm if_splits)

lemma kopen_walk_state: "kopen_walk before tok cs flags wd v = Some (v', r) \<Longrightarrow> v' = v"
proof (induction before tok cs flags wd v arbitrary: r rule: kopen_walk.induct)
  case (1 before tok flags wd v)
  then show ?case by (auto dest: kopen_step_state split: if_splits)
next
  case (2 before tok c cs flags wd v)
  show ?case
  proof (cases "c = slash")
    case True
    then obtain v1 node where s: "kopen_step (before @ tok) tok flags wd v = Some (v1, node)"
      using 2(3) by (auto split: Option.bind_split_asm)
    then show ?thesis
      using 2(1) [OF True s refl] 2(3) True kopen_step_state [OF s] by (auto split: option.splits list.splits)
  next
    case False
    then show ?thesis using 2 by simp
  qed
qed

lemma kopen_state: "kopen name flags v = Some (v', r) \<Longrightarrow> v' = v"
  by (auto simp: kopen_def kopen_from_def Let_def dest: kopen_walk_state
      split: option.splits if_splits Option.bind_split_asm)

lemma kopen_walk_plain:
  "slash \<notin> set xs \<Longrightarrow> kopen_walk before tok (xs @ ys) flags wd v = kopen_walk before (tok @ xs) ys flags wd v"
  by (induction xs arbitrary: tok) auto

lemma kopen_walk_component:
  assumes "c \<noteq> []" and "slash \<notin> set (tl c)" and "d \<noteq> []"
  shows "kopen_walk (path @ [slash]) [hd c] (tl c @ slash # d @ ys) flags wd v =
     do { (v, node) \<leftarrow> kopen_step (path @ slash # c) c flags wd v;
          (case node of None \<Rightarrow> Some (v, None)
           | Some wd \<Rightarrow> kopen_walk ((path @ slash # c) @ [slash]) [hd d] (tl d @ ys) flags wd v) }"
proof -
  obtain e es where d: "d = e # es" using assms(3) by (cases d) auto
  have "hd c # tl c = c" using assms(1) by simp
  then show ?thesis using d kopen_walk_plain [OF assms(2), of "path @ [slash]" "[hd c]"] by (simp cong: option.case_cong)
qed

lemma kopen_step_resolve:
  "c \<noteq> [] \<Longrightarrow> kopen_step (path @ slash # c) c flags wd v = map_option (Pair v) (lookup_at path c wd v)"
  by (auto simp: kopen_step_def lookup_at_def split: option.split Option.bind_split)

lemma lookup_at_zeroed: "lookup_at path c wd v = Some (Some n) \<Longrightarrow> n_zeroed n"
  by (auto simp: lookup_at_def split: option.splits if_splits Option.bind_split_asm)

lemma kopen_walk_last:
  "c \<noteq> [] \<Longrightarrow> slash \<notin> set (tl c) \<Longrightarrow>
    kopen_walk (path @ [slash]) [hd c] (tl c) flags wd v = kopen_walk (path @ [slash]) c [] flags wd v"
  using kopen_walk_plain [of "tl c" "path @ [slash]" "[hd c]" "[]"] by simp

lemma scanned_simps [simp]:
  "scanned []" "scanned (c # cs) \<longleftrightarrow> c \<noteq> [] \<and> slash \<notin> set (tl c) \<and> scanned cs"
  by (auto simp: scanned_def)

text \<open>One component and the slash behind it, in terms of the resolution.\<close>

lemma kopen_walk_slash:
  assumes "scanned (c # d # ds)"
  shows "kopen_walk (path @ [slash]) [hd c] (tl c @ abs_name (d # ds)) flags wd v = do {
     node \<leftarrow> lookup_at path c wd v;
     (case node of None \<Rightarrow> Some (v, None)
      | Some wd \<Rightarrow> kopen_walk ((path @ slash # c) @ [slash]) [hd d] (tl d @ abs_name ds) flags wd v) }"
proof -
  have "kopen_step (path @ slash # c) c flags wd v = map_option (Pair v) (lookup_at path c wd v)"
    by (rule kopen_step_resolve) (use assms in simp)
  then show ?thesis
    using kopen_walk_component [of c d path "abs_name ds" flags wd v] assms
    by (simp split: Option.bind_split cong: option.case_cong)
qed

lemma kopen_walk_resolve:
  assumes "flags AND OPEN_FLAG_PARENT = 0" and "scanned (c # cs)"
  shows "kopen_walk (path @ [slash]) [hd c] (tl c @ abs_name cs) flags wd v = map_option (Pair v) (resolve path (c # cs) wd v)"
  using assms(2)
proof (induction cs arbitrary: path c wd)
  case Nil
  then show ?case
    using assms(1) kopen_walk_last [of c path] kopen_step_resolve [of c path] by (simp split: Option.bind_split option.split)
next
  case (Cons d ds)
  show ?case
    using Cons.IH [where path = "path @ slash # c" and c = d] Cons.prems kopen_walk_slash [OF Cons.prems]
    by (cases "lookup_at path c wd v") (auto split: option.split)
qed

lemma kopen_walk_parent:
  assumes "flags AND OPEN_FLAG_PARENT \<noteq> 0" and "scanned (c # cs)" and "n_zeroed wd"
  shows "kopen_walk (path @ [slash]) [hd c] (tl c @ abs_name cs) flags wd v =
    map_option (Pair v) (resolve path (butlast (c # cs)) wd v)"
  using assms(2,3)
proof (induction cs arbitrary: path c wd)
  case Nil
  then show ?case using assms(1) kopen_walk_last [of c path] by simp
next
  case (Cons d ds)
  show ?case
    using Cons.IH [where path = "path @ slash # c" and c = d] Cons.prems kopen_walk_slash [OF Cons.prems(1)] lookup_at_zeroed
    by (cases "lookup_at path c wd v") (auto split: option.split)
qed

text \<open>Leading and trailing slashes.\<close>

lemma last_abs_name: "scanned cs \<Longrightarrow> cs \<noteq> [] \<Longrightarrow> last (abs_name cs) = last (last cs) \<and> abs_name cs \<noteq> []"
  by (induction cs rule: rev_induct) (auto simp: scanned_def)

lemma strip_plain: "xs \<noteq> [] \<Longrightarrow> last xs \<noteq> slash \<Longrightarrow> strip_slashes xs = Some xs"
  by (cases xs rule: rev_cases) (auto simp: strip_slashes_def list_all_iff)

lemma plain_scanned: "plain_names cs \<Longrightarrow> cs \<noteq> [] \<Longrightarrow> scanned_name cs"
proof -
  assume p: "plain_names cs" "cs \<noteq> []"
  then have "hd cs \<noteq> []" "slash \<notin> set (hd cs)" "last cs \<noteq> []" "slash \<notin> set (last cs)" by (auto simp: plain_names_def)
  then have "hd (hd cs) \<noteq> slash" "last (last cs) \<noteq> slash" by (metis list.set_sel(1), metis last_in_set)
  moreover have "scanned cs" using p(1) by (auto simp: scanned_def plain_names_def dest: list.set_sel(2))
  ultimately show ?thesis using p(2) by (simp add: scanned_name_def)
qed

lemma strip_tail:
  assumes "scanned_name (c # cs)"
  shows "strip_slashes (c @ abs_name cs) = Some (c @ abs_name cs)"
proof (rule strip_plain)
  show "c @ abs_name cs \<noteq> []" using assms by (simp add: scanned_name_def)
  have "last (abs_name (c # cs)) \<noteq> slash" using last_abs_name [of "c # cs"] assms by (simp add: scanned_name_def del: abs_name_simps)
  then show "last (c @ abs_name cs) \<noteq> slash" using assms by (simp add: scanned_name_def)
qed

lemma last_component_plain: "slash \<notin> set xs \<Longrightarrow> last_component f (xs @ ys) = last_component f ys"
  by (induction xs) auto

lemma last_component_abs: "plain_names cs \<Longrightarrow> cs \<noteq> [] \<Longrightarrow> last_component f (abs_name cs) = last cs"
proof (induction cs arbitrary: f)
  case (Cons c cs)
  then have "c @ abs_name cs \<noteq> []" "hd (c @ abs_name cs) \<noteq> slash" by (cases c; auto)+
  then have "last_component f (abs_name (c # cs)) = last_component (c @ abs_name cs) (abs_name cs)"
    using Cons.prems last_component_plain [of c] by simp
  then show ?case using Cons by (cases cs) auto
qed simp

lemma file_name_abs: "plain_names cs \<Longrightarrow> cs \<noteq> [] \<Longrightarrow> file_name (abs_name cs) = Some (last cs)"
proof -
  assume cs: "plain_names cs" "cs \<noteq> []"
  then have "last cs \<noteq> []" "slash \<notin> set (last cs)" using last_in_set [of cs] by (auto simp: plain_names_def)
  moreover from this have "last (last cs) \<noteq> slash" by (metis last_in_set)
  ultimately show ?thesis using cs strip_plain [of "last cs"] by (simp add: file_name_def last_component_abs)
qed


lemma kopen_from_abs:
  assumes "v_root v = Some r" and c: "scanned_name (c # cs)"
  shows "kopen (abs_name (c # cs)) flags v = kopen_walk [slash] [hd c] (tl c @ abs_name cs) flags (copy_node r) v"
    and "kopen (slash # abs_name (c # cs)) flags v = kopen_walk [slash, slash] [hd c] (tl c @ abs_name cs) flags (copy_node r) v"
proof -
  obtain x xs where x: "c = x # xs" "x \<noteq> slash" using c by (cases c) (auto simp: scanned_name_def)
  show "kopen (abs_name (c # cs)) flags v = kopen_walk [slash] [hd c] (tl c @ abs_name cs) flags (copy_node r) v"
    and "kopen (slash # abs_name (c # cs)) flags v = kopen_walk [slash, slash] [hd c] (tl c @ abs_name cs) flags (copy_node r) v"
    using assms(1) x strip_tail [OF c] by (simp_all add: kopen_def kopen_from_def Let_def)
qed

lemma kopen_parent:
  assumes "v_root v = Some r" and "scanned_name cs" and "n_zeroed r"
  shows "kopen (abs_name cs) OPEN_FLAG_PARENT v = map_option (Pair v) (resolve [] (butlast cs) (copy_node r) v)"
proof (cases cs)
  case (Cons c ds)
  have "n_zeroed (copy_node r)" using assms(3) by (simp add: copy_node_def split: device.split)
  then show ?thesis
    using kopen_from_abs(1) [OF assms(1), of c ds] kopen_walk_parent [of OPEN_FLAG_PARENT c ds "copy_node r" "[]" v] assms(2) Cons
    by (simp add: scanned_name_def)
qed (use assms(2) in \<open>simp add: scanned_name_def\<close>)

lemma kopen_abs:
  assumes "v_root v = Some r" and "scanned_name cs" and "flags AND OPEN_FLAG_PARENT = 0"
  shows "kopen (abs_name cs) flags v = map_option (Pair v) (resolve [] cs (copy_node r) v)"
proof (cases cs)
  case (Cons c ds)
  then show ?thesis
    using kopen_from_abs(1) [OF assms(1), of c ds] kopen_walk_resolve [OF assms(3), of c ds "[]"] assms(2)
    by (simp add: scanned_name_def)
qed (use assms(2) in \<open>simp add: scanned_name_def\<close>)

text \<open>
  C18. \<open>kopen\<close> on a rooted path name resolves it component by component from the root: at each
  component the mount table, asked for the text of the path so far, goes before the directory,
  a missing component ends the walk with no node, and opening changes nothing. The scanning of
  the name character by character, with its cuts at the slashes, computes exactly this. The
  components are those that the scan makes of a name that begins with one slash and does not end in
  one: the scan never tests the character behind a slash, so a second slash there is the first
  character of the next component, and only names without doubled slashes are cut at every slash.
\<close>

theorem kopen_resolves:
  assumes "v_root v = Some r" and "scanned_name cs" and "flags AND OPEN_FLAG_PARENT = 0"
  shows "kopen (abs_name cs) flags v = map_option (Pair v) (resolve [] cs (copy_node r) v)"
  by (rule kopen_abs [OF assms])

lemma finddir_fs_mounts [simp]: "finddir_fs node name (v\<lparr>v_mounts := m\<rparr>) = finddir_fs node name v"
  by (simp add: finddir_fs_def split: option.split finddir_fn.split)

lemma resolve_no_mounts:
  assumes "\<forall>(m, _) \<in> set (v_mounts v). \<not> prefix [slash, slash] m"
    and "\<And>c cs'. cs = c # cs' \<Longrightarrow> prefix [slash, slash] (slash # path @ slash # c)"
  shows "resolve (slash # path) cs wd v = resolve path' cs wd (v\<lparr>v_mounts := []\<rparr>)"
  using assms(2)
proof (induction cs arbitrary: path path' wd)
  case (Cons c cs)
  have "vfs_get_mountpoint (slash # path @ slash # c) v = None"
  proof -
    have "map_of (v_mounts v) (slash # path @ slash # c) = None"
      using assms(1) Cons.prems [of c cs] by (auto simp: map_of_eq_None_iff simp del: Cons_prefix_Cons)
    then show ?thesis by (simp add: vfs_get_mountpoint_def)
  qed
  then have l: "lookup_at (slash # path) c wd v = lookup_at path' c wd (v\<lparr>v_mounts := []\<rparr>)"
    by (simp add: lookup_at_def vfs_get_mountpoint_def)
  have "prefix [slash, slash] (slash # (path @ slash # c) @ slash # d)" for d
    using Cons.prems [of c cs] by (cases path) auto
  then have "resolve (slash # path @ slash # c) cs n v = resolve (path' @ slash # c) cs n (v\<lparr>v_mounts := []\<rparr>)" for n
    using Cons.IH [where path = "path @ slash # c" and path' = "path' @ slash # c" and wd = n] by simp
  then show ?case using l by simp
qed simp

text \<open>
  Mount points are recognised by the spelling of the path only: with a doubled slash at its
  front a name resolves as if nothing were mounted, to the plain files under the mount points.
\<close>

lemma double_slash_bypasses_mounts:
  assumes "v_root v = Some r" and "plain_names cs" "cs \<noteq> []" and "flags AND OPEN_FLAG_PARENT = 0"
    and "\<forall>(m, _) \<in> set (v_mounts v). \<not> prefix [slash, slash] m"
  shows "map_option snd (kopen (slash # abs_name cs) flags v) =
    map_option snd (kopen (abs_name cs) flags (v\<lparr>v_mounts := []\<rparr>))"
proof (cases cs)
  case (Cons c ds)
  have n: "scanned_name (c # ds)" "scanned (c # ds)" using plain_scanned [OF assms(2,3)] Cons by (simp_all add: scanned_name_def)
  have 1: "kopen (slash # abs_name cs) flags v = map_option (Pair v) (resolve [slash] cs (copy_node r) v)"
    using kopen_from_abs(2) [OF assms(1) n(1)] kopen_walk_resolve [OF assms(4) n(2), of "[slash]"] Cons by simp
  have 2: "kopen (abs_name cs) flags (v\<lparr>v_mounts := []\<rparr>) =
      map_option (Pair (v\<lparr>v_mounts := []\<rparr>)) (resolve [] cs (copy_node r) (v\<lparr>v_mounts := []\<rparr>))"
    using kopen_from_abs(1) [of "v\<lparr>v_mounts := []\<rparr>" r, OF _ n(1)] kopen_walk_resolve [OF assms(4) n(2), of "[]"] assms(1) Cons by simp
  have "resolve [slash] cs (copy_node r) v = resolve [] cs (copy_node r) (v\<lparr>v_mounts := []\<rparr>)"
    by (rule resolve_no_mounts [OF assms(5)]) simp_all
  then show ?thesis unfolding 1 2 by (simp add: option.map_comp comp_def)
qed (use assms(3) in simp)

text \<open>A doubled slash inside a name: the second one is taken into the component behind it.\<close>

lemma double_slash_component:
  assumes "v_root v = Some r" and "plain_names [a, b]" and "flags AND OPEN_FLAG_PARENT = 0"
  shows "kopen (slash # a @ [slash, slash] @ b) flags v = map_option (Pair v) (resolve [] [a, slash # b] (copy_node r) v)"
proof -
  have "slash \<notin> set a" "a \<noteq> []" "slash \<notin> set b" "b \<noteq> []" using assms(2) by simp_all
  then have "scanned_name [a, slash # b]" by (auto simp: scanned_name_def dest: list.set_sel last_in_set)
  then show ?thesis using kopen_abs [OF assms(1) _ assms(3), of "[a, slash # b]"] by (simp del: resolve.simps)
qed

section \<open>Permission\<close>

lemma with_parent_changes:
  assumes "with_parent c name body v = Some (v', r)" and "v' \<noteq> v"
  shows "\<exists>parent. kopen name OPEN_FLAG_PARENT v = Some (v, Some parent) \<and> check_permission c parent 2"
proof -
  obtain v1 p where k: "kopen name OPEN_FLAG_PARENT v = Some (v1, p)"
    using assms by (auto simp: with_parent_def split: if_splits Option.bind_split_asm)
  then have "v1 = v" by (rule kopen_state)
  then show ?thesis
    using assms k by (cases p) (auto simp: with_parent_def split: if_splits)
qed

text \<open>
  C28. No name is entered into or removed from any file system without write permission on the
  parent directory: if one of the four operations on path names changes anything at all, then
  the parent of the name could be opened and grants the caller its write bit.
\<close>

theorem changes_need_permission:
  assumes "create_file c name mode v = Some (v', r) \<or> mkdir c name mode v = Some (v', r)
     \<or> symlink c target name v = Some (v', r) \<or> unlink c name v = Some (v', r)"
    and "v' \<noteq> v"
  shows "\<exists>parent. kopen name OPEN_FLAG_PARENT v = Some (v, Some parent) \<and> check_permission c parent 2"
proof -
  obtain body where "with_parent c name body v = Some (v', r)"
    using assms unfolding create_file_def mkdir_def symlink_def unlink_def by (auto split: if_splits)
  then show ?thesis using with_parent_changes assms(2) by blast
qed


section \<open>Creating, opening and removing a file by name\<close>

text \<open>A change of the file system under which every successful lookup stays what it was.\<close>

definition lookups_kept :: "tmpfs \<Rightarrow> tmpfs \<Rightarrow> bool" where
  "lookups_kept t t' \<longleftrightarrow> (\<forall>node x m. finddir_tmpfs node x t = Some (Some m) \<longrightarrow> finddir_tmpfs node x t' = Some (Some m))"

text \<open>An object that may have become a directory with more entries.\<close>

definition extends :: "tmpfs_obj \<Rightarrow> tmpfs_obj \<Rightarrow> bool" where
  "extends x x' \<longleftrightarrow> x' = x \<or> (\<exists>d is n. x = Dir d \<and> x' = Dir (d\<lparr>dr_files := dr_files d @ is, dr_capacity := n\<rparr>))"

lemma extends_refl [simp]: "extends x x"
  by (simp add: extends_def)

lemma extends_add_entry [simp]: "extends (Dir d) (Dir (add_entry i d))"
  unfolding extends_def
  by (intro disjI2 exI [of _ d] exI [of _ "[i]"] exI [of _ "dr_capacity (add_entry i d)"])
     (cases d, simp add: add_entry_def)

lemma extends_capacity [simp]: "extends (Dir d) (Dir (d\<lparr>dr_capacity := n\<rparr>))"
  unfolding extends_def
  by (intro disjI2 exI [of _ d] exI [of _ "[]"] exI [of _ n]) (cases d, simp)

lemma scan_kept:
  assumes "\<And>k x. t_objs t k = Some x \<Longrightarrow> \<exists>x'. t_objs t' k = Some x' \<and> extends x x'"
  shows "scan_dir name is t = Some (Some i) \<Longrightarrow> scan_dir name (is @ js) t' = Some (Some i)"
proof (induction "is")
  case (Cons k ks)
  obtain x where x: "t_objs t k = Some x" using Cons.prems by (auto split: Option.bind_split_asm)
  obtain x' where "t_objs t' k = Some x'" "obj_name x' = obj_name x"
    using assms [OF x] by (auto simp: extends_def obj_name_def)
  then show ?case using Cons x by (auto split: if_splits)
qed simp

lemma lookups_kept_objects:
  assumes "\<And>k x. t_objs t k = Some x \<Longrightarrow> \<exists>x'. t_objs t' k = Some x' \<and> extends x x'"
  shows "lookups_kept t t'"
  unfolding lookups_kept_def
proof (intro allI impI)
  fix node x m
  assume "finddir_tmpfs node x t = Some (Some m)"
  then obtain di d i y where f: "device_id node = Some di" "get_dir di t = Some d" "scan_dir x (dr_files d) t = Some (Some i)"
    "t_objs t i = Some y" "m = (case y of
        File f \<Rightarrow> (if f_type f = TMPFS_TYPE_LINK then tmpfs_from_link i f else tmpfs_from_file i f) | Dir d \<Rightarrow> tmpfs_from_dir i d)"
    by (auto simp: finddir_tmpfs_def split: Option.bind_split_asm option.splits)
  have "t_objs t di = Some (Dir d)" using f(2) by (simp add: get_dir_def split: option.splits tmpfs_obj.splits)
  then obtain js n where "get_dir di t' = Some (d\<lparr>dr_files := dr_files d @ js, dr_capacity := n\<rparr>)"
  proof -
    obtain x' where x': "t_objs t' di = Some x'" "extends (Dir d) x'" using assms \<open>t_objs t di = Some (Dir d)\<close> by blast
    from x'(2) obtain js n where "x' = Dir (d\<lparr>dr_files := dr_files d @ js, dr_capacity := n\<rparr>)"
      using extends_capacity [of d "dr_capacity d"] by (cases d) (auto simp: extends_def)
    then show ?thesis using that x'(1) by (simp add: get_dir_def)
  qed
  moreover have "scan_dir x (dr_files d @ js) t' = Some (Some i)" by (rule scan_kept [OF assms f(3)])
  moreover obtain y' where "t_objs t' i = Some y'" "extends y y'" using assms [OF f(4)] by blast
  ultimately show "finddir_tmpfs node x t' = Some (Some m)"
    using f(1,5) by (auto simp: finddir_tmpfs_def extends_def tmpfs_from_dir_def split: tmpfs_obj.splits)
qed

lemma resolve_kept:
  "lookups_kept (v_tmpfs v) t' \<Longrightarrow> resolve path cs wd v = Some (Some n) \<Longrightarrow>
   resolve path cs wd (v\<lparr>v_tmpfs := t'\<rparr>) = Some (Some n)"
proof (induction cs arbitrary: path wd)
  case (Cons c cs)
  obtain m where m: "lookup_at path c wd v = Some (Some m)" "resolve (path @ slash # c) cs m v = Some (Some n)"
    using Cons.prems(2) by (auto split: Option.bind_split_asm option.splits)
  have "finddir_fs wd c (v\<lparr>v_tmpfs := t'\<rparr>) = Some (Some k)" if "finddir_fs wd c v = Some (Some k)" for k
    using that Cons.prems(1) by (auto simp: finddir_fs_def lookups_kept_def split: option.splits finddir_fn.splits)
  then have "lookup_at path c wd (v\<lparr>v_tmpfs := t'\<rparr>) = Some (Some m)"
    using m(1) by (auto simp: lookup_at_def vfs_get_mountpoint_def split: option.splits Option.bind_split_asm if_splits)
  then show ?case using Cons.IH [OF Cons.prems(1) m(2)] by simp
qed simp

lemma resolve_append:
  "resolve path (cs @ ds) wd v = do {
     n \<leftarrow> resolve path cs wd v;
     (case n of None \<Rightarrow> Some None | Some n \<Rightarrow> resolve (path @ abs_name cs) ds n v) }"
  by (induction cs arbitrary: path wd) (auto split: Option.bind_split option.split)

lemma create_object:
  assumes ok: "dir_ok di t" and d: "get_dir di t = Some d" and new: "dir_look di t name = None"
    and fresh: "t_objs t (t_next t) = None"
    and f: "f = (tmpfs_new_file name)\<lparr>f_mask := mode, f_uid := c_uid c, f_gid := c_gid c\<rparr>"
    and t1: "t1 = put_obj di (Dir (add_entry (t_next t) d)) (fst (new_obj (File f) t))"
    and t2: "t2 = t1\<lparr>t_objs := (t_objs t)(di \<mapsto> Dir (d\<lparr>dr_capacity := dr_capacity (add_entry (t_next t) d)\<rparr>), t_next t := None)\<rparr>"
  shows "create_tmpfs c (tmpfs_from_dir di d0) name mode t = Some (t1, 0)" and "lookups_kept t t1"
    and "finddir_tmpfs (tmpfs_from_dir di d0) name t1 = Some (Some (tmpfs_from_file (t_next t) f))"
    and "unlink_tmpfs (tmpfs_from_dir di d0) name t1 = Some (t2, 0)" and "lookups_kept t t2"
    and "finddir_tmpfs (tmpfs_from_dir di d0) name t2 = Some None"
proof -
  let ?i = "t_next t" and ?P = "tmpfs_from_dir di d0"
  obtain e where e: "t_objs t di = Some (Dir d)" "di < ?i" "\<forall>i \<in> set (dr_files d). t_objs t i \<noteq> None \<and> i \<noteq> di \<and> i < ?i"
    using ok d by (auto elim!: dir_okE)
  have n: "obj_name (File f) = name" "f_type f = TMPFS_TYPE_FILE" "f_blocks f = []"
    by (simp_all add: f obj_name_def tmpfs_new_file_def)
  have new': "dir_look di t (obj_name (File f)) = None" using new n(1) by simp
  from enter_object [OF ok d new'] have ok1: "dir_ok di t1" and look1: "dir_look di t1 = (dir_look di t)(name \<mapsto> ?i)"
    unfolding t1 n(1) .
  have d1: "get_dir di t1 = Some (add_entry ?i d)" by (simp add: t1 get_dir_def put_obj_def)
  have i1: "t_objs t1 ?i = Some (File f)" using e(2) by (simp add: t1 put_obj_def new_obj_def)
  have scan1: "scan_dir name (dr_files (add_entry ?i d)) t1 = Some (Some ?i)"
    using dir_scan [OF ok1 d1] look1 by simp
  show "create_tmpfs c ?P name mode t = Some (t1, 0)"
    using d dir_scan [OF ok d] new by (simp add: create_tmpfs_def new_obj_def Let_def t1 f)
  show "finddir_tmpfs ?P name t1 = Some (Some (tmpfs_from_file ?i f))"
    using d1 scan1 i1 n(2) by (simp add: finddir_tmpfs_def)
  have out: "?i \<notin> set (dr_files d)" using e(3) by blast
  then have "remove1 ?i (dr_files (add_entry ?i d)) = dr_files d" by (simp add: add_entry_def remove1_append)
  then show u: "unlink_tmpfs ?P name t1 = Some (t2, 0)"
    using d1 scan1 i1 n(3) e(2)
    by (auto simp: unlink_tmpfs_def tmpfs_free_file_def release_blocks_def Let_def t2 t1 put_obj_def new_obj_def add_entry_def fun_upd_twist)
  show "lookups_kept t t1"
    by (rule lookups_kept_objects) (use e(1,2) fresh in \<open>auto simp: t1 put_obj_def new_obj_def\<close>)
  show kept2: "lookups_kept t t2"
    by (rule lookups_kept_objects) (use e(1,2) fresh in \<open>auto simp: t2\<close>)
  show "finddir_tmpfs ?P name t2 = Some None"
  proof -
    have d2: "get_dir di t2 = Some (d\<lparr>dr_capacity := dr_capacity (add_entry ?i d)\<rparr>)"
      using e(2) by (simp add: t2 get_dir_def)
    have "map (\<lambda>i. (name_of t2 i, i)) (dr_files d) = map (\<lambda>i. (name_of t i, i)) (dr_files d)"
      using e(1,3) by (auto simp: name_of_def t2)
    moreover have "\<forall>i \<in> set (dr_files d). t_objs t2 i \<noteq> None" using e(3) by (auto simp: t2)
    ultimately have "scan_dir name (dr_files d) t2 = Some (dir_look di t name)"
      using d by (simp add: scan_dir_ok dir_look_def del: map_eq_conv)
    then show ?thesis using d2 new by (simp add: finddir_tmpfs_def)
  qed
qed

text \<open>
  C17. A file created by path name in a directory of tmpfs that the caller may write, that is sane and does not have
  the name, can be opened under that name, with the requested mode, the caller's identity and no contents;
  unlinking it by name succeeds and the name is gone again. The path may be of any depth and run over mount
  points, but its components contain no slash and the new name is no mount point itself. Every path that led
  to a node before still leads to it after the creation and after the removal.
\<close>

theorem create_open_unlink:
  assumes root: "v_root v = Some r" "n_zeroed r" and names: "plain_names (cs @ [name])"
    and parent: "resolve [] cs (copy_node r) v = Some (Some (tmpfs_from_dir di d0))"
    and perm: "check_permission c (tmpfs_from_dir di d0) 2"
    and dir: "dir_ok di (v_tmpfs v)" "dir_look di (v_tmpfs v) name = None"
    and fresh: "t_objs (v_tmpfs v) (t_next (v_tmpfs v)) = None"
    and unmounted: "vfs_get_mountpoint (abs_name (cs @ [name])) v = None"
  shows "\<exists>v1 v2 node. create_file c (abs_name (cs @ [name])) mode v = Some (v1, 0)
    \<and> kopen (abs_name (cs @ [name])) 0 v1 = Some (v1, Some node)
    \<and> n_name node = name \<and> n_flags node = FS_FILE \<and> n_mask node = mode \<and> n_uid node = c_uid c \<and> n_gid node = c_gid c
    \<and> n_length node = 0
    \<and> unlink c (abs_name (cs @ [name])) v1 = Some (v2, 0)
    \<and> kopen (abs_name (cs @ [name])) 0 v2 = Some (v2, None)
    \<and> (\<forall>ds n. resolve [] ds (copy_node r) v = Some (Some n) \<longrightarrow>
         resolve [] ds (copy_node r) v1 = Some (Some n) \<and> resolve [] ds (copy_node r) v2 = Some (Some n))"
proof -
  let ?t = "v_tmpfs v" and ?P = "tmpfs_from_dir di d0" and ?n = "abs_name (cs @ [name])"
  obtain d where d: "get_dir di ?t = Some d" using dir(1) by (rule dir_okE)
  define f where "f = (tmpfs_new_file name)\<lparr>f_mask := mode, f_uid := c_uid c, f_gid := c_gid c\<rparr>"
  define t1 where "t1 = put_obj di (Dir (add_entry (t_next ?t) d)) (fst (new_obj (File f) ?t))"
  define t2 where "t2 = t1\<lparr>t_objs := (t_objs ?t)(di \<mapsto> Dir (d\<lparr>dr_capacity := dr_capacity (add_entry (t_next ?t) d)\<rparr>), t_next ?t := None)\<rparr>"
  note made = create_object [OF dir(1) d dir(2) fresh f_def t1_def t2_def]
  define v1 where "v1 = v\<lparr>v_tmpfs := t1\<rparr>"
  define v2 where "v2 = v\<lparr>v_tmpfs := t2\<rparr>"
  have kept: "resolve [] ds (copy_node r) v1 = Some (Some n) \<and> resolve [] ds (copy_node r) v2 = Some (Some n)"
    if "resolve [] ds (copy_node r) v = Some (Some n)" for ds n
    using resolve_kept [OF made(2) that] resolve_kept [OF made(5) that] by (simp add: v1_def v2_def)
  have parent1: "resolve [] cs (copy_node r) v1 = Some (Some ?P)" and parent2: "resolve [] cs (copy_node r) v2 = Some (Some ?P)"
    using resolve_kept [OF made(2) parent] resolve_kept [OF made(5) parent] by (simp_all add: v1_def v2_def)
  have root': "v_root v1 = Some r" "v_root v2 = Some r" using root(1) by (simp_all add: v1_def v2_def)
  have fn: "file_name ?n = Some name" using file_name_abs [OF names] by simp
  have scanned: "scanned_name (cs @ [name])" by (rule plain_scanned [OF names]) simp
  have P: "n_zeroed ?P" "n_create_tmpfs ?P" "n_unlink_tmpfs ?P" "n_finddir ?P = Some Finddir_tmpfs" "n_close ?P = None"
    by (simp_all add: tmpfs_from_dir_def fs_node_zero_def)
  have opened: "kopen ?n OPEN_FLAG_PARENT v = Some (v, Some ?P)" "kopen ?n OPEN_FLAG_PARENT v1 = Some (v1, Some ?P)"
    using kopen_parent [OF root(1) scanned root(2)] kopen_parent [OF root'(1) scanned root(2)] parent parent1 by simp_all
  have ne: "?n \<noteq> []" "?n \<noteq> [slash]" using names by (cases cs; simp)+
  have none: "finddir_fs ?P name v = Some None"
    using d dir_scan [OF dir(1) d] dir(2) P(4) by (simp add: finddir_fs_def finddir_tmpfs_def)
  have "create_file c ?n mode v = Some (v1, 0)"
    unfolding create_file_def with_parent_def
    using ne opened(1) perm fn none P made(1) [of d0] by (simp add: on_tmpfs_def close_fs_def v1_def del: abs_name_simps)
  moreover have "unlink c ?n v1 = Some (v2, 0)"
    unfolding unlink_def with_parent_def
    using ne opened(2) perm fn P made(4) [of d0] by (simp add: on_tmpfs_def close_fs_def v1_def v2_def del: abs_name_simps)
  moreover have last: "kopen ?n 0 v' = map_option (Pair v') (lookup_at (abs_name cs) name ?P v')"
    if "v_root v' = Some r" "resolve [] cs (copy_node r) v' = Some (Some ?P)" for v'
  proof -
    have "kopen ?n 0 v' = map_option (Pair v') (resolve [] (cs @ [name]) (copy_node r) v')"
      by (rule kopen_abs [OF that(1) scanned]) simp
    moreover have "Option.bind x (case_option (Some None) (\<lambda>n. Some (Some n))) = x" for x :: "fs_node option option"
      by (cases x) (auto split: option.split)
    ultimately show ?thesis using that(2) by (simp add: resolve_append)
  qed
  have m: "vfs_get_mountpoint (abs_name cs @ slash # name) v1 = None" "vfs_get_mountpoint (abs_name cs @ slash # name) v2 = None"
    using unmounted by (simp_all add: vfs_get_mountpoint_def v1_def v2_def)
  have "kopen ?n 0 v1 = Some (v1, Some (tmpfs_from_file (t_next ?t) f))"
    unfolding last [OF root'(1) parent1]
    using m(1) P(4) made(3) [of d0] by (simp add: lookup_at_def finddir_fs_def v1_def tmpfs_from_file_def fs_node_zero_def)
  moreover have "kopen ?n 0 v2 = Some (v2, None)"
    unfolding last [OF root'(2) parent2]
    using m(2) P(4) made(6) [of d0] by (simp add: lookup_at_def finddir_fs_def v2_def)
  moreover have "n_name (tmpfs_from_file (t_next ?t) f) = name" "n_flags (tmpfs_from_file (t_next ?t) f) = FS_FILE"
    "n_mask (tmpfs_from_file (t_next ?t) f) = mode" "n_uid (tmpfs_from_file (t_next ?t) f) = c_uid c"
    "n_gid (tmpfs_from_file (t_next ?t) f) = c_gid c" "n_length (tmpfs_from_file (t_next ?t) f) = 0"
    by (simp_all add: tmpfs_from_file_def f_def tmpfs_new_file_def)
  ultimately show ?thesis using kept
    by (intro exI [of _ v1] exI [of _ v2] exI [of _ "tmpfs_from_file (t_next ?t) f"] conjI allI impI) simp_all
qed


section \<open>Witnesses\<close>

text \<open>The small file system with the null device mounted over the file \<open>/a\<close>.\<close>

definition example_vfs :: vfs where
  "example_vfs = \<lparr>v_tmpfs = example_tmpfs, v_ttys = tty_start, v_ramdisk = \<lparr>rd_base = 0, rd_image = []\<rparr>,
     v_mounts = [(''/a'', create_null_device)], v_mount_capacity = 32, v_root = Some (tmpfs_from_dir 0 example_dir)\<rparr>"

abbreviation (input) root_cred :: cred where
  "root_cred \<equiv> \<lparr>c_uid = 0, c_gid = 0, c_fds = []\<rparr>"

lemma example_vfs_simps [simp]:
  "v_root example_vfs = Some (tmpfs_from_dir 0 example_dir)" "v_tmpfs example_vfs = example_tmpfs"
  "v_mounts example_vfs = [(''/a'', create_null_device)]" "copy_node (tmpfs_from_dir i d) = tmpfs_from_dir i d"
  "n_zeroed (tmpfs_from_dir i d)" "t_next example_tmpfs = 3" "t_objs example_tmpfs 3 = None"
  by (simp_all add: example_vfs_def copy_node_def tmpfs_from_dir_def fs_node_zero_def example_tmpfs_def)

lemma example_lookup:
  "finddir_tmpfs (tmpfs_from_dir 0 example_dir) ''a'' example_tmpfs = Some (Some (tmpfs_from_file 1 example_file))"
proof -
  have "t_objs example_tmpfs 1 = Some (File example_file)" by (simp add: example_tmpfs_def)
  moreover have "f_type example_file = TMPFS_TYPE_FILE" by (simp add: example_file_def tmpfs_new_file_def)
  moreover have "scan_dir ''a'' [1, 2] example_tmpfs = Some (Some 1)"
    using dir_scan [of 0 example_tmpfs example_dir "''a''"] by simp
  ultimately show ?thesis by (simp add: finddir_tmpfs_def)
qed

lemma kopen_resolves_witness: "map_option (map_option n_name \<circ> snd) (kopen ''/a'' 0 example_vfs) = Some (Some ''null'')"
proof -
  have "kopen (abs_name [''a'']) 0 example_vfs = map_option (Pair example_vfs) (resolve [] [''a''] (copy_node (tmpfs_from_dir 0 example_dir)) example_vfs)"
    by (rule kopen_resolves) (simp_all add: slash_def scanned_name_def)
  then show ?thesis
    by (simp add: slash_def lookup_at_def vfs_get_mountpoint_def create_null_device_def fs_node_zero_def copy_node_def)
qed

lemma double_slash_bypasses_mounts_witness:
  "map_option (map_option n_name \<circ> snd) (kopen ''//a'' 0 example_vfs) = Some (Some ''a'')"
proof -
  have "map_option snd (kopen (slash # abs_name [''a'']) 0 example_vfs) = map_option snd (kopen (abs_name [''a'']) 0 (example_vfs\<lparr>v_mounts := []\<rparr>))"
    by (rule double_slash_bypasses_mounts) (simp_all add: slash_def)
  moreover have "kopen (abs_name [''a'']) 0 (example_vfs\<lparr>v_mounts := []\<rparr>) =
      map_option (Pair (example_vfs\<lparr>v_mounts := []\<rparr>)) (resolve [] [''a''] (copy_node (tmpfs_from_dir 0 example_dir)) (example_vfs\<lparr>v_mounts := []\<rparr>))"
    by (rule kopen_abs) (simp_all add: slash_def scanned_name_def example_vfs_def)
  moreover have "finddir_fs (tmpfs_from_dir 0 example_dir) ''a'' example_vfs = Some (Some (tmpfs_from_file 1 example_file))"
    using example_lookup by (simp add: finddir_fs_def tmpfs_from_dir_def)
  moreover have "n_zeroed (tmpfs_from_file 1 example_file)" "n_name (tmpfs_from_file 1 example_file) = ''a''"
    by (simp_all add: tmpfs_from_file_def fs_node_zero_def example_file_def tmpfs_new_file_def)
  ultimately have "map_option snd (kopen (slash # abs_name [''a'']) 0 example_vfs) = Some (Some (tmpfs_from_file 1 example_file))"
    by (simp add: lookup_at_def vfs_get_mountpoint_def)
  then show ?thesis
    using \<open>n_name _ = ''a''\<close> by (auto simp: slash_def)
qed

lemma create_open_unlink_witness:
  "\<exists>v1 v2 node. create_file root_cred ''/b'' 0x1A4 example_vfs = Some (v1, 0) \<and> kopen ''/b'' 0 v1 = Some (v1, Some node)
     \<and> n_mask node = 0x1A4 \<and> unlink root_cred ''/b'' v1 = Some (v2, 0) \<and> kopen ''/b'' 0 v2 = Some (v2, None)"
proof -
  have "check_permission root_cred (tmpfs_from_dir 0 example_dir) 2" by (simp add: check_permission_def)
  moreover have "vfs_get_mountpoint (abs_name ([] @ [''b''])) example_vfs = None"
    by (simp add: vfs_get_mountpoint_def slash_def)
  moreover note create_open_unlink [of example_vfs "tmpfs_from_dir 0 example_dir" "[]" "''b''" 0 example_dir root_cred "0x1A4"]
  ultimately show ?thesis by (auto simp: slash_def)
qed

lemma example_create:
  "\<exists>v1. create_file root_cred ''/b'' 0 example_vfs = Some (v1, 0) \<and> v1 \<noteq> example_vfs"
proof -
  let ?t = "example_tmpfs" and ?P = "tmpfs_from_dir 0 example_dir"
  let ?f = "(tmpfs_new_file ''b'')\<lparr>f_mask := 0, f_uid := 0, f_gid := 0\<rparr>"
  have c: "create_tmpfs root_cred ?P ''b'' 0 ?t = Some (put_obj 0 (Dir (add_entry 3 example_dir)) (fst (new_obj (File ?f) ?t)), 0)"
    by (rule create_object(1) [where f = ?f and c = root_cred and mode = 0]) simp_all
  have "kopen (abs_name [''b'']) OPEN_FLAG_PARENT example_vfs = map_option (Pair example_vfs) (resolve [] (butlast [''b'']) (copy_node ?P) example_vfs)"
    by (rule kopen_parent) (simp_all add: slash_def scanned_name_def)
  then have k: "kopen ''/b'' OPEN_FLAG_PARENT example_vfs = Some (example_vfs, Some ?P)" by (simp add: slash_def)
  have fn: "file_name ''/b'' = Some ''b''" using file_name_abs [of "[''b'']"] by (simp add: slash_def)
  have none: "finddir_fs ?P ''b'' example_vfs = Some None"
    using dir_scan [of 0 ?t example_dir "''b''"] by (simp add: finddir_fs_def finddir_tmpfs_def tmpfs_from_dir_def device_id_def)
  have P: "n_zeroed ?P" "n_create_tmpfs ?P" "n_close ?P = None"
    by (simp_all add: tmpfs_from_dir_def fs_node_zero_def)
  have "check_permission root_cred ?P 2" by (simp add: check_permission_def)
  then have "create_file root_cred ''/b'' 0 example_vfs =
      Some (example_vfs\<lparr>v_tmpfs := put_obj 0 (Dir (add_entry 3 example_dir)) (fst (new_obj (File ?f) ?t))\<rparr>, 0)"
    using k fn none P c by (simp add: create_file_def with_parent_def on_tmpfs_def close_fs_def slash_def)
  moreover have "example_vfs\<lparr>v_tmpfs := put_obj 0 (Dir (add_entry 3 example_dir)) (fst (new_obj (File ?f) ?t))\<rparr> \<noteq> example_vfs"
  proof
    assume eq: "example_vfs\<lparr>v_tmpfs := put_obj 0 (Dir (add_entry 3 example_dir)) (fst (new_obj (File ?f) ?t))\<rparr> = example_vfs"
    have "t_next (v_tmpfs (example_vfs\<lparr>v_tmpfs := put_obj 0 (Dir (add_entry 3 example_dir)) (fst (new_obj (File ?f) ?t))\<rparr>)) = 4"
      by (simp add: put_obj_def new_obj_def)
    then show False unfolding eq by simp
  qed
  ultimately show ?thesis by blast
qed

lemma changes_need_permission_witness:
  "\<exists>parent. kopen ''/b'' OPEN_FLAG_PARENT example_vfs = Some (example_vfs, Some parent) \<and> check_permission root_cred parent 2"
  using example_create changes_need_permission [of root_cred "''/b''" 0 example_vfs] by blast

end
