(* ===== verification/Tree.thy ===== *)
theory Tree
  imports Prelude
begin

text \<open>
  \<open>kernel/lib/tree.c\<close>: trees whose nodes keep their children in a doubly linked list of cells. The
  heap maps addresses to nodes and to cells; a freed node or cell is gone from its map, so using
  it again is \<open>None\<close>. A value is the address of an object of the client; the values that the
  code frees are recorded in \<open>h_freed\<close>, in order. The mutual recursion between a node and the
  loop over its cells is one partial function on a sum: \<open>Inl\<close> a node pointer, \<open>Inr\<close> the loop at
  a cell; a recursion that does not end is \<open>None\<close> as well.
\<close>

section \<open>Nodes and cells\<close>

record tree_node =
  n_children :: "nat option"
  n_parent :: "nat option"
  n_value :: "nat option"

record tree_cell =
  c_next :: "nat option"
  c_prev :: "nat option"
  c_value :: "nat option"

record tree_heap =
  h_nodes :: "nat \<Rightarrow> tree_node option"
  h_cells :: "nat \<Rightarrow> tree_cell option"
  h_next :: nat
  h_freed :: "nat list"

definition put_node :: "nat \<Rightarrow> tree_node \<Rightarrow> tree_heap \<Rightarrow> tree_heap" where
  "put_node n x h = h\<lparr>h_nodes := (h_nodes h)(n \<mapsto> x)\<rparr>"

definition put_cell :: "nat \<Rightarrow> tree_cell \<Rightarrow> tree_heap \<Rightarrow> tree_heap" where
  "put_cell c x h = h\<lparr>h_cells := (h_cells h)(c \<mapsto> x)\<rparr>"

text \<open>\<open>free\<close> of a node, a cell and a value; a null pointer is ignored.\<close>

definition free_node :: "nat \<Rightarrow> tree_heap \<Rightarrow> tree_heap option" where
  "free_node n h = (if h_nodes h n = None then None else Some (h\<lparr>h_nodes := (h_nodes h)(n := None)\<rparr>))"

definition free_cell :: "nat \<Rightarrow> tree_heap \<Rightarrow> tree_heap option" where
  "free_cell c h = (if h_cells h c = None then None else Some (h\<lparr>h_cells := (h_cells h)(c := None)\<rparr>))"

definition free_value :: "nat option \<Rightarrow> tree_heap \<Rightarrow> tree_heap" where
  "free_value v h = (case v of None \<Rightarrow> h | Some x \<Rightarrow> h\<lparr>h_freed := h_freed h @ [x]\<rparr>)"

section \<open>The operations\<close>

definition tree_create :: "tree_heap \<Rightarrow> tree_heap \<times> nat" where
  "tree_create h = ((put_node (h_next h) \<lparr>n_children = None, n_parent = None, n_value = None\<rparr> h)\<lparr>h_next := Suc (h_next h)\<rparr>,
     h_next h)"

partial_function (option) find_from :: "tree_heap \<Rightarrow> (nat option \<Rightarrow> bool) \<Rightarrow> nat option + nat option \<Rightarrow> nat option option" where
  "find_from h p at = (case at of
       Inl None \<Rightarrow> Some None
     | Inl (Some n) \<Rightarrow> do {
         x \<leftarrow> h_nodes h n;
         if p (n_value x) then Some (Some n) else find_from h p (Inr (n_children x)) }
     | Inr None \<Rightarrow> Some None
     | Inr (Some c) \<Rightarrow> do {
         x \<leftarrow> h_cells h c;
         r \<leftarrow> find_from h p (Inl (c_value x));
         (case r of Some n \<Rightarrow> Some (Some n) | None \<Rightarrow> find_from h p (Inr (c_next x))) })"

text \<open>The comparator gets the value of the node and the data looked for.\<close>

definition tree_find :: "nat option \<Rightarrow> (nat option \<Rightarrow> bool) \<Rightarrow> tree_heap \<Rightarrow> nat option option" where
  "tree_find tree p h = find_from h p (Inl tree)"

partial_function (option) free_nodes_from :: "nat option + nat option \<Rightarrow> tree_heap \<Rightarrow> tree_heap option" where
  "free_nodes_from at h = (case at of
       Inl None \<Rightarrow> Some h
     | Inl (Some n) \<Rightarrow> do {
         x \<leftarrow> h_nodes h n;
         h \<leftarrow> free_nodes_from (Inr (n_children x)) h;
         free_node n h }
     | Inr None \<Rightarrow> Some h
     | Inr (Some c) \<Rightarrow> do {
         x \<leftarrow> h_cells h c;
         h \<leftarrow> free_nodes_from (Inl (c_value x)) h;
         h \<leftarrow> free_cell c h;
         free_nodes_from (Inr (c_next x)) h })"

definition tree_free_nodes :: "nat option \<Rightarrow> tree_heap \<Rightarrow> tree_heap option" where
  "tree_free_nodes tree h = free_nodes_from (Inl tree) h"

text \<open>The loop of \<open>tree_free_values\<close> calls the function on the node itself, once per child.\<close>

partial_function (option) free_values_from :: "nat option \<Rightarrow> nat option option \<Rightarrow> tree_heap \<Rightarrow> tree_heap option" where
  "free_values_from tree loop h = (case loop of
       None \<Rightarrow> (case tree of None \<Rightarrow> Some h
         | Some n \<Rightarrow> do {
             x \<leftarrow> h_nodes h n;
             h \<leftarrow> free_values_from tree (Some (n_children x)) h;
             x \<leftarrow> h_nodes h n;
             Some (free_value (n_value x) h) })
     | Some None \<Rightarrow> Some h
     | Some (Some c) \<Rightarrow> do {
         h \<leftarrow> free_values_from tree None h;
         x \<leftarrow> h_cells h c;
         free_values_from tree (Some (c_next x)) h })"

definition tree_free_values :: "nat option \<Rightarrow> tree_heap \<Rightarrow> tree_heap option" where
  "tree_free_values tree h = free_values_from tree None h"

definition tree_free :: "nat option \<Rightarrow> tree_heap \<Rightarrow> tree_heap option" where
  "tree_free tree h = (if tree = None then Some h
     else do { h \<leftarrow> tree_free_values tree h; tree_free_nodes tree h })"

definition tree_insert_node :: "nat option \<Rightarrow> nat option \<Rightarrow> tree_heap \<Rightarrow> tree_heap option" where
  "tree_insert_node parent node h = (case (parent, node) of
     (Some p, Some n) \<Rightarrow> do {
       x \<leftarrow> h_nodes h n;
       let h = put_node n (x\<lparr>n_parent := Some p\<rparr>) h;
       let child = h_next h;
       let h = h\<lparr>h_next := Suc child\<rparr>;
       px \<leftarrow> h_nodes h p;
       h \<leftarrow> (case n_children px of None \<Rightarrow> Some h
            | Some c \<Rightarrow> do { x \<leftarrow> h_cells h c; Some (put_cell c (x\<lparr>c_prev := Some child\<rparr>) h) });
       let h = put_cell child \<lparr>c_next = n_children px, c_prev = None, c_value = Some n\<rparr> h;
       Some (put_node p (px\<lparr>n_children := Some child\<rparr>) h) }
   | _ \<Rightarrow> Some h)"

definition tree_insert_value :: "nat option \<Rightarrow> nat option \<Rightarrow> tree_heap \<Rightarrow> (tree_heap \<times> nat option) option" where
  "tree_insert_value parent value h = (case value of None \<Rightarrow> Some (h, None)
     | Some v \<Rightarrow> do {
         let (h, n) = tree_create h;
         let h = put_node n \<lparr>n_children = None, n_parent = None, n_value = Some v\<rparr> h;
         h \<leftarrow> tree_insert_node parent (Some n) h;
         Some (h, Some n) })"

text \<open>The search for the cell of a node in the list of its siblings.\<close>

partial_function (option) find_cell :: "nat \<Rightarrow> nat option \<Rightarrow> tree_heap \<Rightarrow> nat option option" where
  "find_cell node entry h = (case entry of None \<Rightarrow> Some None
     | Some c \<Rightarrow> do {
         x \<leftarrow> h_cells h c;
         if c_value x = Some node then Some (Some c) else find_cell node (c_next x) h })"

definition unlink_cell :: "nat \<Rightarrow> nat \<Rightarrow> tree_heap \<Rightarrow> tree_heap option" where
  "unlink_cell p entry h = do {
     px \<leftarrow> h_nodes h p;
     e \<leftarrow> h_cells h entry;
     let h = (if n_children px = Some entry then put_node p (px\<lparr>n_children := c_next e\<rparr>) h else h);
     h \<leftarrow> (case c_prev e of None \<Rightarrow> Some h
          | Some q \<Rightarrow> do { x \<leftarrow> h_cells h q; Some (put_cell q (x\<lparr>c_next := c_next e\<rparr>) h) });
     h \<leftarrow> (case c_next e of None \<Rightarrow> Some h
          | Some q \<Rightarrow> do { x \<leftarrow> h_cells h q; Some (put_cell q (x\<lparr>c_prev := c_prev e\<rparr>) h) });
     free_cell entry h }"

definition tree_remove_branch :: "nat option \<Rightarrow> tree_heap \<Rightarrow> tree_heap option" where
  "tree_remove_branch node h = (case node of None \<Rightarrow> Some h
     | Some n \<Rightarrow> do {
         x \<leftarrow> h_nodes h n;
         h \<leftarrow> (case n_parent x of None \<Rightarrow> Some h
              | Some p \<Rightarrow> do {
                  px \<leftarrow> h_nodes h p;
                  entry \<leftarrow> find_cell n (n_children px) h;
                  (case entry of None \<Rightarrow> Some h | Some e \<Rightarrow> unlink_cell p e h) });
         tree_free_nodes node h })"

definition tree_destroy_branch :: "nat option \<Rightarrow> tree_heap \<Rightarrow> tree_heap option" where
  "tree_destroy_branch node h = (if node = None then Some h
     else do { h \<leftarrow> tree_free_values node h; tree_remove_branch node h })"

partial_function (option) last_cell :: "nat \<Rightarrow> tree_heap \<Rightarrow> nat option" where
  "last_cell c h = do {
     x \<leftarrow> h_cells h c;
     (case c_next x of None \<Rightarrow> Some c | Some d \<Rightarrow> last_cell d h) }"

definition tree_remove_and_merge :: "nat option \<Rightarrow> tree_heap \<Rightarrow> tree_heap option" where
  "tree_remove_and_merge node h = (case node of None \<Rightarrow> Some h
     | Some n \<Rightarrow> do {
         x \<leftarrow> h_nodes h n;
         (case n_parent x of None \<Rightarrow> tree_remove_branch node h
          | Some p \<Rightarrow> do {
              px \<leftarrow> h_nodes h p;
              first \<leftarrow> n_children px;
              c \<leftarrow> last_cell first h;
              y \<leftarrow> h_cells h c;
              free_node n (put_cell c (y\<lparr>c_next := n_children x\<rparr>) h) }) })"

definition tree_destroy_and_merge :: "nat option \<Rightarrow> tree_heap \<Rightarrow> tree_heap option" where
  "tree_destroy_and_merge node h = (case node of None \<Rightarrow> Some h
     | Some n \<Rightarrow> do {
         x \<leftarrow> h_nodes h n;
         (case n_parent x of None \<Rightarrow> tree_destroy_branch node h
          | Some _ \<Rightarrow> tree_remove_branch node (free_value (n_value x) h)) })"


section \<open>The tree in the heap\<close>

text \<open>
  A tree with the addresses of its nodes, of the cells that hold them in their parents' lists
  (the cell of the root is a dummy) and their values. \<open>is_tree\<close> says that a heap holds it, with
  all parent and sibling links right.
\<close>

datatype rose = Rose (node_of: nat) (cell_of: nat) (value_of: "nat option") (kids_of: "rose list")

fun is_tree :: "tree_heap \<Rightarrow> nat option \<Rightarrow> rose \<Rightarrow> bool"
  and is_kids :: "tree_heap \<Rightarrow> nat \<Rightarrow> nat option \<Rightarrow> nat option \<Rightarrow> rose list \<Rightarrow> bool" where
  "is_tree h par (Rose n c v ks) \<longleftrightarrow>
     (\<exists>ch. h_nodes h n = Some \<lparr>n_children = ch, n_parent = par, n_value = v\<rparr> \<and> is_kids h n None ch ks)"
| "is_kids h p prev c [] \<longleftrightarrow> c = None"
| "is_kids h p prev c (k # ks) \<longleftrightarrow> c = Some (cell_of k)
     \<and> (\<exists>nx. h_cells h (cell_of k) = Some \<lparr>c_next = nx, c_prev = prev, c_value = Some (node_of k)\<rparr>
           \<and> is_tree h (Some p) k \<and> is_kids h p (Some (cell_of k)) nx ks)"

text \<open>Nodes with their values in preorder, and the cells below a node.\<close>

fun pre :: "rose \<Rightarrow> (nat \<times> nat option) list" and pres :: "rose list \<Rightarrow> (nat \<times> nat option) list" where
  "pre (Rose n c v ks) = (n, v) # pres ks"
| "pres [] = []"
| "pres (k # ks) = pre k @ pres ks"

fun tcells :: "rose \<Rightarrow> nat list" and kcells :: "rose list \<Rightarrow> nat list" where
  "tcells (Rose n c v ks) = kcells ks"
| "kcells [] = []"
| "kcells (k # ks) = cell_of k # tcells k @ kcells ks"

definition nodes :: "rose \<Rightarrow> nat list" where "nodes t = map fst (pre t)"
definition knodes :: "rose list \<Rightarrow> nat list" where "knodes ks = map fst (pres ks)"

lemma nodes_simps [simp]:
  "nodes (Rose n c v ks) = n # knodes ks" "knodes [] = []" "knodes (k # ks) = nodes k @ knodes ks"
  by (simp_all add: nodes_def knodes_def)

lemma find_append: "find p (xs @ ys) = (case find p xs of Some x \<Rightarrow> Some x | None \<Rightarrow> find p ys)"
  by (induction xs) auto

lemma find_from_tree:
  "is_tree h par t \<Longrightarrow> find_from h p (Inl (Some (node_of t))) = Some (map_option fst (find (\<lambda>x. p (snd x)) (pre t)))"
  "is_kids h q prev c ks \<Longrightarrow> find_from h p (Inr c) = Some (map_option fst (find (\<lambda>x. p (snd x)) (pres ks)))"
proof (induction h par t and h q prev c ks rule: is_tree_is_kids.induct)
  case (1 h par n c v ks)
  then show ?case by (subst find_from.simps) auto
next
  case (2 h q prev c)
  then show ?case by (subst find_from.simps) simp
next
  case (3 h q prev c k ks)
  then obtain nx where "c = Some (cell_of k)"
    "h_cells h (cell_of k) = Some \<lparr>c_next = nx, c_prev = prev, c_value = Some (node_of k)\<rparr>"
    "is_tree h (Some q) k" "is_kids h q (Some (cell_of k)) nx ks" by auto
  then show ?case
    using 3(1,2) by (subst find_from.simps) (auto simp: find_append split: option.split)
qed

text \<open>A heap that agrees on the nodes and cells of a tree holds it too.\<close>

lemma tree_frame:
  "is_tree h par t \<Longrightarrow> (\<forall>n \<in> set (nodes t). h_nodes h' n = h_nodes h n) \<Longrightarrow>
     (\<forall>c \<in> set (tcells t). h_cells h' c = h_cells h c) \<Longrightarrow> is_tree h' par t"
  "is_kids h q prev c ks \<Longrightarrow> (\<forall>n \<in> set (knodes ks). h_nodes h' n = h_nodes h n) \<Longrightarrow>
     (\<forall>c \<in> set (kcells ks). h_cells h' c = h_cells h c) \<Longrightarrow> is_kids h' q prev c ks"
  by (induction h par t and h q prev c ks rule: is_tree_is_kids.induct) auto

text \<open>Adding a child in front.\<close>

fun add_kid :: "nat \<Rightarrow> rose \<Rightarrow> rose \<Rightarrow> rose" and add_kids :: "nat \<Rightarrow> rose \<Rightarrow> rose list \<Rightarrow> rose list" where
  "add_kid p new (Rose n c v ks) = (if n = p then Rose n c v (new # ks) else Rose n c v (add_kids p new ks))"
| "add_kids p new [] = []"
| "add_kids p new (k # ks) = (if p \<in> set (nodes k) then add_kid p new k # ks else k # add_kids p new ks)"

lemma add_kid_same [simp]: "node_of (add_kid p new t) = node_of t" "cell_of (add_kid p new t) = cell_of t"
  by (cases t; simp)+

text \<open>The first cell below a node of the tree is one of the tree's cells.\<close>

lemma first_cell:
  "is_tree h par t \<Longrightarrow> p \<in> set (nodes t) \<Longrightarrow> h_nodes h p = Some x \<Longrightarrow> n_children x = Some c \<Longrightarrow> distinct (nodes t) \<Longrightarrow>
     c \<in> set (tcells t)"
  "is_kids h q prev ch ks \<Longrightarrow> p \<in> set (knodes ks) \<Longrightarrow> h_nodes h p = Some x \<Longrightarrow> n_children x = Some c \<Longrightarrow> distinct (knodes ks) \<Longrightarrow>
     c \<in> set (kcells ks)"
proof (induction h par t and h q prev ch ks rule: is_tree_is_kids.induct)
  case (1 h par n cl v ks)
  then obtain ch where h: "h_nodes h n = Some \<lparr>n_children = ch, n_parent = par, n_value = v\<rparr>" "is_kids h n None ch ks" by auto
  show ?case
  proof (cases "p = n")
    case True
    then have "ch = Some c" using 1(4,5) h(1) by auto
    then show ?thesis using h(2) by (cases ks) auto
  next
    case False
    then show ?thesis using 1 h by auto
  qed
qed auto

text \<open>The heap after an insertion.\<close>

definition inserted :: "nat \<Rightarrow> nat \<Rightarrow> nat \<Rightarrow> nat option \<Rightarrow> tree_heap \<Rightarrow> tree_heap \<Rightarrow> bool" where
  "inserted p m a v h h' \<longleftrightarrow> (\<exists>px. h_nodes h p = Some px
     \<and> h_nodes h' = (h_nodes h)(m \<mapsto> \<lparr>n_children = None, n_parent = Some p, n_value = v\<rparr>, p \<mapsto> px\<lparr>n_children := Some a\<rparr>)
     \<and> h_cells h' a = Some \<lparr>c_next = n_children px, c_prev = None, c_value = Some m\<rparr>
     \<and> (\<forall>b. b \<noteq> a \<longrightarrow> h_cells h' b = (if n_children px = Some b then map_option (\<lambda>x. x\<lparr>c_prev := Some a\<rparr>) (h_cells h b) else h_cells h b)))"

lemma kids_front:
  assumes "is_kids h p None ch ks" and "inserted p m a v h h'" and "h_nodes h p = Some px" "n_children px = ch"
    and "p \<notin> set (knodes ks)" "m \<notin> set (knodes ks)" "distinct (kcells ks)" "a \<notin> set (kcells ks)"
  shows "is_kids h' p (Some a) ch ks"
proof (cases ks)
  case (Cons k ks')
  from assms(2,3) have n: "h_nodes h' = (h_nodes h)(m \<mapsto> \<lparr>n_children = None, n_parent = Some p, n_value = v\<rparr>, p \<mapsto> px\<lparr>n_children := Some a\<rparr>)"
    and c: "\<And>b. b \<noteq> a \<Longrightarrow> h_cells h' b = (if ch = Some b then map_option (\<lambda>x. x\<lparr>c_prev := Some a\<rparr>) (h_cells h b) else h_cells h b)"
    using assms(4) by (auto simp: inserted_def)
  obtain nx where k: "ch = Some (cell_of k)" "h_cells h (cell_of k) = Some \<lparr>c_next = nx, c_prev = None, c_value = Some (node_of k)\<rparr>"
    "is_tree h (Some p) k" "is_kids h p (Some (cell_of k)) nx ks'" using assms(1) Cons by auto
  have other: "h_cells h' b = h_cells h b" if "b \<in> set (tcells k) \<union> set (kcells ks')" for b
  proof -
    have "b \<noteq> a" "b \<noteq> cell_of k" using that assms(7,8) Cons by auto
    then show ?thesis using c [of b] k(1) by simp
  qed
  have nodes: "h_nodes h' n = h_nodes h n" if "n \<in> set (knodes ks)" for n
    unfolding \<open>h_nodes h' = _\<close> using that assms(5,6) by auto
  have "is_tree h' (Some p) k" by (rule tree_frame(1) [OF k(3)]) (use other nodes Cons in auto)
  moreover have "is_kids h' p (Some (cell_of k)) nx ks'" by (rule tree_frame(2) [OF k(4)]) (use other nodes Cons in auto)
  moreover have "h_cells h' (cell_of k) = Some \<lparr>c_next = nx, c_prev = Some a, c_value = Some (node_of k)\<rparr>"
    using c [of "cell_of k"] k(1,2) assms(8) Cons by auto
  ultimately show ?thesis using k(1) Cons by auto
qed (use assms(1) in simp)

text \<open>What an insertion leaves alone: nodes but the two, cells but the new and the old first one.\<close>

lemma inserted_same:
  assumes "inserted p m a v h h'" and "h_nodes h p = Some px"
  shows "n \<noteq> m \<Longrightarrow> n \<noteq> p \<Longrightarrow> h_nodes h' n = h_nodes h n"
    and "b \<noteq> a \<Longrightarrow> n_children px \<noteq> Some b \<Longrightarrow> h_cells h' b = h_cells h b"
  using assms by (auto simp: inserted_def)

lemma insert_tree:
  "is_tree h par t \<Longrightarrow> p \<in> set (nodes t) \<Longrightarrow> distinct (nodes t) \<Longrightarrow> distinct (tcells t) \<Longrightarrow> m \<notin> set (nodes t) \<Longrightarrow> a \<notin> set (tcells t) \<Longrightarrow>
     inserted p m a v h h' \<Longrightarrow> is_tree h' par (add_kid p (Rose m a v []) t)"
  "is_kids h q prev ch ks \<Longrightarrow> p \<in> set (knodes ks) \<Longrightarrow> distinct (knodes ks) \<Longrightarrow> distinct (kcells ks) \<Longrightarrow> m \<notin> set (knodes ks) \<Longrightarrow>
     a \<notin> set (kcells ks) \<Longrightarrow> inserted p m a v h h' \<Longrightarrow> is_kids h' q prev ch (add_kids p (Rose m a v []) ks)"
proof (induction h par t and h q prev ch ks rule: is_tree_is_kids.induct)
  case (1 h par n c w ks)
  obtain ch where h: "h_nodes h n = Some \<lparr>n_children = ch, n_parent = par, n_value = w\<rparr>" "is_kids h n None ch ks"
    using 1(2) by auto
  obtain px where px: "h_nodes h p = Some px" using 1(8) by (auto simp: inserted_def)
  show ?case
  proof (cases "n = p")
    case True
    have "is_kids h' p (Some a) ch ks"
      by (rule kids_front [OF _ 1(8) px]) (use 1(4-7) h px True in auto)
    then show ?thesis using 1(6,8) h True px by (auto simp: inserted_def)
  next
    case False
    then have "h_nodes h' n = h_nodes h n" using inserted_same(1) [OF 1(8) px, of n] 1(6) by auto
    then show ?thesis using 1 h False by auto
  qed
next
  case (3 h q prev ch k ks)
  obtain nx where k: "ch = Some (cell_of k)" "h_cells h (cell_of k) = Some \<lparr>c_next = nx, c_prev = prev, c_value = Some (node_of k)\<rparr>"
    "is_tree h (Some q) k" "is_kids h q (Some (cell_of k)) nx ks" using 3(3) by auto
  obtain px where px: "h_nodes h p = Some px" using 3(9) by (auto simp: inserted_def)
  note same = inserted_same [OF 3(9) px]
  have d: "distinct (nodes k)" "distinct (knodes ks)" "set (nodes k) \<inter> set (knodes ks) = {}" "distinct (tcells k)"
    "distinct (kcells ks)" "cell_of k \<notin> set (tcells k)" "cell_of k \<notin> set (kcells ks)" "set (tcells k) \<inter> set (kcells ks) = {}"
    "m \<notin> set (nodes k)" "m \<notin> set (knodes ks)" "a \<noteq> cell_of k" "a \<notin> set (tcells k)" "a \<notin> set (kcells ks)"
    using 3(5-8) by auto
  show ?case
  proof (cases "p \<in> set (nodes k)")
    case True
    have f: "b \<in> set (tcells k)" if "n_children px = Some b" for b
      by (rule first_cell(1) [OF k(3) True px that d(1)])
    have "is_tree h' (Some q) (add_kid p (Rose m a v []) k)"
      by (rule 3(1) [OF k(3) True d(1,4,9,12) 3(9)])
    moreover have "is_kids h' q (Some (cell_of k)) nx ks"
    proof (rule tree_frame(2) [OF k(4)]; intro ballI)
      show "h_nodes h' n = h_nodes h n" if "n \<in> set (knodes ks)" for n
        by (rule same(1)) (use that d(3,10) True in auto)
      show "h_cells h' b = h_cells h b" if "b \<in> set (kcells ks)" for b
        by (rule same(2)) (use that d(8,13) f [of b] in auto)
    qed
    moreover have "h_cells h' (cell_of k) = h_cells h (cell_of k)"
      by (rule same(2)) (use d(6,11) f [of "cell_of k"] in auto)
    ultimately show ?thesis using k True by auto
  next
    case False
    then have p: "p \<in> set (knodes ks)" using 3(4) by simp
    have f: "b \<in> set (kcells ks)" if "n_children px = Some b" for b
      by (rule first_cell(2) [OF k(4) p px that d(2)])
    have "is_tree h' (Some q) k"
    proof (rule tree_frame(1) [OF k(3)]; intro ballI)
      show "h_nodes h' n = h_nodes h n" if "n \<in> set (nodes k)" for n
        by (rule same(1)) (use that d(9) False in auto)
      show "h_cells h' b = h_cells h b" if "b \<in> set (tcells k)" for b
        by (rule same(2)) (use that d(8,12) f [of b] in auto)
    qed
    moreover have "is_kids h' q (Some (cell_of k)) nx (add_kids p (Rose m a v []) ks)"
      by (rule 3(2) [OF k(4) p d(2,5,10,13) 3(9)])
    moreover have "h_cells h' (cell_of k) = h_cells h (cell_of k)"
      by (rule same(2)) (use d(7,11) f [of "cell_of k"] in auto)
    ultimately show ?thesis using k False by auto
  qed
qed simp


section \<open>Inserting and finding\<close>

text \<open>The heap holds the tree, nothing in it occurs twice, and addresses from \<open>h_next\<close> on are free.\<close>

definition tree_ok :: "tree_heap \<Rightarrow> rose \<Rightarrow> bool" where
  "tree_ok h t \<longleftrightarrow> is_tree h None t \<and> distinct (nodes t) \<and> distinct (tcells t)
     \<and> (\<forall>n \<in> set (nodes t). n < h_next h) \<and> (\<forall>c \<in> set (tcells t). c < h_next h)"

lemma tree_nodes_live:
  "is_tree h par t \<Longrightarrow> n \<in> set (nodes t) \<Longrightarrow> h_nodes h n \<noteq> None"
  "is_kids h q prev ch ks \<Longrightarrow> n \<in> set (knodes ks) \<Longrightarrow> h_nodes h n \<noteq> None"
  by (induction h par t and h q prev ch ks rule: is_tree_is_kids.induct) auto

lemma tree_cells_live:
  "is_tree h par t \<Longrightarrow> c \<in> set (tcells t) \<Longrightarrow> h_cells h c \<noteq> None"
  "is_kids h q prev ch ks \<Longrightarrow> c \<in> set (kcells ks) \<Longrightarrow> h_cells h c \<noteq> None"
  by (induction h par t and h q prev ch ks rule: is_tree_is_kids.induct) auto

lemma add_kid_split:
  "p \<in> set (nodes t) \<Longrightarrow> distinct (nodes t) \<Longrightarrow>
     \<exists>xs w ys. pre t = xs @ (p, w) # ys \<and> pre (add_kid p new t) = xs @ (p, w) # pre new @ ys"
  "p \<in> set (knodes ks) \<Longrightarrow> distinct (knodes ks) \<Longrightarrow>
     \<exists>xs w ys. pres ks = xs @ (p, w) # ys \<and> pres (add_kids p new ks) = xs @ (p, w) # pre new @ ys"
proof (induction p new t and p new ks rule: add_kid_add_kids.induct)
  case (1 p new n c v ks)
  show ?case
  proof (cases "n = p")
    case True
    then show ?thesis by (intro exI [of _ "[]"]) simp
  next
    case False
    then obtain xs w ys where "pres ks = xs @ (p, w) # ys" "pres (add_kids p new ks) = xs @ (p, w) # pre new @ ys"
      using 1 by auto
    then show ?thesis using False by (intro exI [of _ "(n, v) # xs"] exI [of _ w] exI [of _ ys]) simp
  qed
next
  case (3 p new k ks)
  show ?case
  proof (cases "p \<in> set (nodes k)")
    case True
    then obtain xs w ys where "pre k = xs @ (p, w) # ys" "pre (add_kid p new k) = xs @ (p, w) # pre new @ ys"
      using 3 by auto
    then show ?thesis using True by (intro exI [of _ xs] exI [of _ w] exI [of _ "ys @ pres ks"]) simp
  next
    case False
    then obtain xs w ys where "pres ks = xs @ (p, w) # ys" "pres (add_kids p new ks) = xs @ (p, w) # pre new @ ys"
      using 3 by auto
    then show ?thesis using False by (intro exI [of _ "pre k @ xs"] exI [of _ w] exI [of _ ys]) simp
  qed
qed simp

lemma add_kid_cells:
  "p \<in> set (nodes t) \<Longrightarrow> distinct (nodes t) \<Longrightarrow>
     \<exists>xs ys. tcells t = xs @ ys \<and> tcells (add_kid p new t) = xs @ (cell_of new # tcells new) @ ys"
  "p \<in> set (knodes ks) \<Longrightarrow> distinct (knodes ks) \<Longrightarrow>
     \<exists>xs ys. kcells ks = xs @ ys \<and> kcells (add_kids p new ks) = xs @ (cell_of new # tcells new) @ ys"
proof (induction p new t and p new ks rule: add_kid_add_kids.induct)
  case (1 p new n c v ks)
  then show ?case by (cases "n = p") (auto intro: exI [of _ "[]"])
next
  case (3 p new k ks)
  show ?case
  proof (cases "p \<in> set (nodes k)")
    case True
    then obtain xs ys where "tcells k = xs @ ys" "tcells (add_kid p new k) = xs @ (cell_of new # tcells new) @ ys"
      using 3 by auto
    then show ?thesis using True by (intro exI [of _ "cell_of k # xs"] exI [of _ "ys @ kcells ks"]) simp
  next
    case False
    then obtain xs ys where "kcells ks = xs @ ys" "kcells (add_kids p new ks) = xs @ (cell_of new # tcells new) @ ys"
      using 3 by auto
    then show ?thesis using False by (intro exI [of _ "cell_of k # tcells k @ xs"] exI [of _ ys]) simp
  qed
qed simp

lemma tree_insert_ok:
  assumes ok: "tree_ok h t" and p: "p \<in> set (nodes t)"
  shows "\<exists>h'. tree_insert_value (Some p) (Some v) h = Some (h', Some (h_next h))
     \<and> tree_ok h' (add_kid p (Rose (h_next h) (Suc (h_next h)) (Some v) []) t)"
proof -
  let ?m = "h_next h" and ?a = "Suc (h_next h)"
  have t: "is_tree h None t" "distinct (nodes t)" "distinct (tcells t)" and lt: "\<forall>n \<in> set (nodes t). n < ?m" "\<forall>c \<in> set (tcells t). c < ?m"
    using ok by (auto simp: tree_ok_def)
  obtain px where px: "h_nodes h p = Some px" using tree_nodes_live(1) [OF t(1) p] by blast
  have pm: "p \<noteq> ?m" using lt(1) p by blast
  have first: "c < ?m \<and> (\<exists>x. h_cells h c = Some x)" if "n_children px = Some c" for c
    using first_cell(1) [OF t(1) p px that t(2)] lt(2) tree_cells_live(1) [OF t(1)] by blast
  have "\<exists>h'. tree_insert_value (Some p) (Some v) h = Some (h', Some ?m) \<and> inserted p ?m ?a (Some v) h h' \<and> h_next h' = Suc ?a"
  proof (cases "n_children px")
    case None
    then show ?thesis
      using px pm by (simp add: tree_insert_value_def tree_create_def tree_insert_node_def Let_def put_node_def put_cell_def inserted_def fun_upd_twist)
  next
    case (Some c)
    then obtain x where x: "h_cells h c = Some x" "c < ?m" using first by blast
    then show ?thesis
      using px pm Some by (auto simp: tree_insert_value_def tree_create_def tree_insert_node_def Let_def put_node_def put_cell_def
          inserted_def fun_upd_twist)
  qed
  then obtain h' where h': "tree_insert_value (Some p) (Some v) h = Some (h', Some ?m)" "inserted p ?m ?a (Some v) h h'" "h_next h' = Suc ?a"
    by blast
  let ?new = "Rose ?m ?a (Some v) []"
  have "is_tree h' None (add_kid p ?new t)"
    by (rule insert_tree(1) [OF t(1) p t(2,3) _ _ h'(2)]) (use lt in auto)
  moreover obtain xs w ys where s: "pre t = xs @ (p, w) # ys" "pre (add_kid p ?new t) = xs @ (p, w) # pre ?new @ ys"
    using add_kid_split(1) [OF p t(2), of ?new] by blast
  then have "set (nodes (add_kid p ?new t)) = insert ?m (set (nodes t))" "distinct (nodes (add_kid p ?new t))"
    using t(2) lt(1) by (auto simp: nodes_def)
  moreover obtain us vs where "tcells t = us @ vs" "tcells (add_kid p ?new t) = us @ (cell_of ?new # tcells ?new) @ vs"
    using add_kid_cells(1) [OF p t(2), of ?new] by blast
  then have "set (tcells (add_kid p ?new t)) = insert ?a (set (tcells t))" "distinct (tcells (add_kid p ?new t))"
  proof -
    have "\<forall>c \<in> set us \<union> set vs. c < ?m" using lt(2) \<open>tcells t = us @ vs\<close> by simp
    then have "?a \<notin> set us \<union> set vs" by (meson Suc_lessD less_irrefl_nat)
    then show "set (tcells (add_kid p ?new t)) = insert ?a (set (tcells t))" "distinct (tcells (add_kid p ?new t))"
      using \<open>tcells t = us @ vs\<close> \<open>tcells (add_kid p ?new t) = _\<close> t(3) by auto
  qed
  ultimately have "tree_ok h' (add_kid p ?new t)"
    using lt h'(3) by (auto simp: tree_ok_def)
  then show ?thesis using h'(1) by blast
qed

text \<open>
  A value inserted below any node of a tree can be found: the insertion succeeds and leaves
  a sane tree, a search that only the new value satisfies returns its node, and every search
  that the new value does not satisfy returns what it returned before. On a sane tree every
  search ends.
\<close>

lemma tree_insert_find:
  assumes ok: "tree_ok h t" and p: "p \<in> set (nodes t)"
  shows "\<exists>h' n. tree_insert_value (Some p) (Some v) h = Some (h', Some n) \<and> n \<notin> set (nodes t)
    \<and> (\<exists>t'. tree_ok h' t' \<and> node_of t' = node_of t)
    \<and> (\<forall>q. tree_find (Some (node_of t)) q h \<noteq> None)
    \<and> (\<forall>q. \<not> q (Some v) \<longrightarrow> tree_find (Some (node_of t)) q h' = tree_find (Some (node_of t)) q h)
    \<and> (\<forall>q. q (Some v) \<longrightarrow> tree_find (Some (node_of t)) q h = Some None \<longrightarrow> tree_find (Some (node_of t)) q h' = Some (Some n))"
proof -
  let ?new = "Rose (h_next h) (Suc (h_next h)) (Some v) []" and ?r = "Some (node_of t)"
  obtain h' where h': "tree_insert_value (Some p) (Some v) h = Some (h', Some (h_next h))" "tree_ok h' (add_kid p ?new t)"
    using tree_insert_ok [OF ok p] by blast
  have f: "tree_find ?r q h = Some (map_option fst (find (\<lambda>x. q (snd x)) (pre t)))" for q
    using find_from_tree(1) [of h None t q] ok by (simp add: tree_find_def tree_ok_def)
  have f': "tree_find ?r q h' = Some (map_option fst (find (\<lambda>x. q (snd x)) (pre (add_kid p ?new t))))" for q
    using find_from_tree(1) [of h' None "add_kid p ?new t" q] h'(2) by (simp add: tree_find_def tree_ok_def)
  have d: "distinct (nodes t)" "h_next h \<notin> set (nodes t)" using ok by (auto simp: tree_ok_def)
  obtain xs w ys where s: "pre t = xs @ (p, w) # ys" "pre (add_kid p ?new t) = xs @ (p, w) # pre ?new @ ys"
    using add_kid_split(1) [OF p d(1), of ?new] by blast
  have "tree_find ?r q h' = tree_find ?r q h" if "\<not> q (Some v)" for q
    unfolding f f' s using that by (simp add: find_append split: option.split)
  moreover have "tree_find ?r q h' = Some (Some (h_next h))" if "q (Some v)" "tree_find ?r q h = Some None" for q
    using that unfolding f f' s by (auto simp: find_append split: option.splits if_splits)
  ultimately show ?thesis using h' d(2) f by (intro exI [of _ h'] exI [of _ "h_next h"]) auto
qed

text \<open>
  \<open>tree_free_values\<close> never returns for a node that has a child: its loop over the children
  calls the function on the node itself.
\<close>

lemma tree_free_values_diverges:
  assumes "h_nodes h n = Some x" and "n_children x = Some c"
  shows "tree_free_values (Some n) h = None"
proof -
  have "\<forall>x c. tree = Some n \<longrightarrow> h_nodes h n = Some x \<longrightarrow> n_children x = Some c \<longrightarrow> loop = Some None"
    if "free_values_from tree loop h = Some h'" for tree loop h h'
    using that
  proof (rule free_values_from.raw_induct [rotated], goal_cases)
    case (1 rec tree loop h h')
    note IH = 1(1) and body = 1(2)
    show ?case
    proof (intro allI impI, rule ccontr)
      fix x c
      assume x: "tree = Some n" "h_nodes h n = Some x" "n_children x = Some c" and l: "loop \<noteq> Some None"
      then consider "loop = None" | d where "loop = Some (Some d)" by (cases loop) auto
      then show False
      proof cases
        assume "loop = None"
        then obtain y where "rec tree (Some (n_children x)) h = Some y"
          using body x by (auto split: Option.bind_split_asm)
        then show False using IH x by fastforce
      next
        fix d
        assume "loop = Some (Some d)"
        then obtain y where "rec tree None h = Some y"
          using body x by (auto split: Option.bind_split_asm)
        then show False using IH x by fastforce
      qed
    qed
  qed
  from this [of "Some n" None h] show ?thesis
    using assms unfolding tree_free_values_def by (cases "free_values_from (Some n) None h") auto
qed


section \<open>Witnesses\<close>

definition example_tree :: tree_heap where
  "example_tree = \<lparr>h_nodes = [0 \<mapsto> \<lparr>n_children = None, n_parent = None, n_value = Some 5\<rparr>], h_cells = (\<lambda>_. None),
     h_next = 1, h_freed = []\<rparr>"

lemma example_tree_ok: "tree_ok example_tree (Rose 0 0 (Some 5) [])"
  by (simp add: tree_ok_def example_tree_def)

lemma tree_insert_find_witness:
  "\<exists>h n. tree_insert_value (Some 0) (Some 7) example_tree = Some (h, Some n)
     \<and> tree_find (Some 0) (\<lambda>v. v = Some 7) h = Some (Some n) \<and> tree_find (Some 0) (\<lambda>v. v = Some 5) h = Some (Some 0)"
proof -
  have f: "tree_find (Some 0) q example_tree = Some (if q (Some 5) then Some 0 else None)" for q
    using find_from_tree(1) [of example_tree None "Rose 0 0 (Some 5) []" q] example_tree_ok
    by (auto simp: tree_find_def tree_ok_def)
  obtain h n where h: "tree_insert_value (Some 0) (Some 7) example_tree = Some (h, Some n)"
    "\<forall>q. \<not> q (Some 7) \<longrightarrow> tree_find (Some 0) q h = tree_find (Some 0) q example_tree"
    "\<forall>q. q (Some 7) \<longrightarrow> tree_find (Some 0) q example_tree = Some None \<longrightarrow> tree_find (Some 0) q h = Some (Some n)"
    using tree_insert_find [OF example_tree_ok, of 0 7] by auto
  have "tree_find (Some 0) (\<lambda>v. v = Some 7) h = Some (Some n)" using h(3) f by simp
  moreover have "tree_find (Some 0) (\<lambda>v. v = Some 5) h = Some (Some 0)" using h(2) f by simp
  ultimately show ?thesis using h(1) by blast
qed

lemma tree_free_values_diverges_witness:
  "tree_free_values (Some 0) (example_tree\<lparr>h_nodes := [0 \<mapsto> \<lparr>n_children = Some 1, n_parent = None, n_value = Some 5\<rparr>]\<rparr>) = None"
  by (rule tree_free_values_diverges [where c = 1 and x = "\<lparr>n_children = Some 1, n_parent = None, n_value = Some 5\<rparr>"]) simp_all

end
