(* ===== verification/Process.thy ===== *)
theory Process
  imports Vfs Tree
begin

text \<open>
  Processes and the scheduler of \<open>kernel/sys/process.c\<close>. Processes are objects of a map named by
  their address; the queue node inside a process has the process's address, so the ready queue
  and the delete queue are lists linked through \<open>p_next\<close>. The process tree is the heap of \<open>Tree\<close>,
  whose values are process addresses. The kernel's state collects the file systems (with the
  memory management state inside tmpfs), the processes and the queues. Memory that \<open>malloc\<close> or
  \<open>realloc\<close> returns for descriptors reads as \<open>k_fresh\<close>: \<open>Some None\<close> where it happens to be zero,
  \<open>None\<close> where it is junk. Saving and restoring a context, which transfers control, is the
  assignment of \<open>current_process\<close>; saved registers stay with their process.
\<close>

section \<open>State\<close>

record regs =
  r15 :: u64
  r14 :: u64
  r13 :: u64
  r12 :: u64
  r11 :: u64
  r10 :: u64
  r9 :: u64
  r8 :: u64
  rbp :: u64
  rdi :: u64
  rsi :: u64
  rdx :: u64
  rcx :: u64
  rbx :: u64
  rax :: u64
  int_no :: u64
  err_code :: u64
  rip :: u64
  cs :: u64
  rflags :: u64
  rsp :: u64
  ss :: u64

datatype entry_point = No_entry | Address u64 | Idle_loop | Burn_loop | Resume_user

record thread_context =
  ctx_sp :: u64
  ctx_bp :: u64
  ctx_ip :: entry_point
  ctx_tls_base :: u64
  ctx_saved :: "u64 list"

record image =
  img_entry :: u64
  img_heap :: u64
  img_stack :: u64
  img_userstack :: u64

record process =
  p_pid :: int
  p_flags :: u32
  p_uid :: u32
  p_gid :: u32
  p_mask :: u32
  p_status :: u32
  p_name :: string
  p_pwd :: string
  p_pwd_node :: "fs_node option"
  p_tree_entry :: "nat option"
  p_regs :: "regs option"
  p_interrupted :: u64
  p_context :: thread_context
  p_directory :: u64
  p_image :: image
  p_fds :: "fs_node option option list"  \<comment> \<open>all \<open>fd_capacity\<close> slots; outer \<open>None\<close> is junk\<close>
  p_fd_length :: nat
  p_queued :: "nat option"   \<comment> \<open>\<open>queue_node.process\<close>\<close>
  p_next :: "nat option"     \<comment> \<open>\<open>queue_node.next\<close>\<close>

record kernel =
  k_vfs :: vfs
  k_procs :: "nat \<Rightarrow> process option"
  k_next_addr :: nat
  k_last_pid :: int
  k_current :: "nat option"
  k_idle :: "nat option"
  k_queue :: "nat option"
  k_queue_end :: "nat option"
  k_delete :: "nat option"
  k_tree :: tree_heap
  k_root :: "nat option"
  k_kernel_stack :: u64
  k_fresh :: "fs_node option option"

abbreviation (input) IS_TASKLET :: u32 where "IS_TASKLET \<equiv> 0x01"
abbreviation (input) FINISHED :: u32 where "FINISHED \<equiv> 0x02"
abbreviation (input) STARTED :: u32 where "STARTED \<equiv> 0x04"
abbreviation (input) RUNNING :: u32 where "RUNNING \<equiv> 0x08"
abbreviation (input) HAS_WAITERS :: u32 where "HAS_WAITERS \<equiv> 0x40"

definition k_mmu :: "kernel \<Rightarrow> mmu" where
  "k_mmu k = t_mmu (v_tmpfs (k_vfs k))"

definition put_mmu :: "mmu \<Rightarrow> kernel \<Rightarrow> kernel" where
  "put_mmu m k = k\<lparr>k_vfs := (k_vfs k)\<lparr>v_tmpfs := (v_tmpfs (k_vfs k))\<lparr>t_mmu := m\<rparr>\<rparr>\<rparr>"

definition put_proc :: "nat \<Rightarrow> process \<Rightarrow> kernel \<Rightarrow> kernel" where
  "put_proc i p k = k\<lparr>k_procs := (k_procs k)(i \<mapsto> p)\<rparr>"

definition new_proc :: "process \<Rightarrow> kernel \<Rightarrow> kernel \<times> nat" where
  "new_proc p k = ((put_proc (k_next_addr k) p k)\<lparr>k_next_addr := Suc (k_next_addr k)\<rparr>, k_next_addr k)"

text \<open>\<open>current_process\<close>, dereferenced.\<close>

definition current :: "kernel \<Rightarrow> (nat \<times> process) option" where
  "current k = do { i \<leftarrow> k_current k; p \<leftarrow> k_procs k i; Some (i, p) }"

definition cred_of :: "process \<Rightarrow> cred" where
  "cred_of p = \<lparr>c_uid = p_uid p, c_gid = p_gid p, c_fds = take (p_fd_length p) (p_fds p)\<rparr>"

text \<open>\<open>memset(p, 0, sizeof(process_t))\<close>.\<close>

definition process_zero :: process where
  "process_zero = \<lparr>p_pid = 0, p_flags = 0, p_uid = 0, p_gid = 0, p_mask = 0, p_status = 0, p_name = [], p_pwd = [],
     p_pwd_node = None, p_tree_entry = None, p_regs = None, p_interrupted = 0,
     p_context = \<lparr>ctx_sp = 0, ctx_bp = 0, ctx_ip = No_entry, ctx_tls_base = 0, ctx_saved = [0, 0, 0, 0, 0]\<rparr>,
     p_directory = 0, p_image = \<lparr>img_entry = 0, img_heap = 0, img_stack = 0, img_userstack = 0\<rparr>,
     p_fds = [], p_fd_length = 0, p_queued = None, p_next = None\<rparr>"

section \<open>Looking up processes\<close>

definition process_tree_init :: "kernel \<Rightarrow> kernel" where
  "process_tree_init k = (let (h, n) = tree_create (k_tree k) in k\<lparr>k_tree := h, k_root := Some n\<rparr>)"

definition get_next_pid :: "kernel \<Rightarrow> (kernel \<times> int) option" where
  "get_next_pid k = (if k_last_pid k \<ge> 2147483647 then None
     else Some (k\<lparr>k_last_pid := k_last_pid k + 1\<rparr>, k_last_pid k + 1))"

definition pid_comparator :: "kernel \<Rightarrow> int \<Rightarrow> nat option \<Rightarrow> bool" where
  "pid_comparator k pid v = (case v of None \<Rightarrow> False
     | Some i \<Rightarrow> (case k_procs k i of None \<Rightarrow> False | Some p \<Rightarrow> p_pid p = pid))"

text \<open>The process of the node found, or no process; a node without value is a null pointer.\<close>

definition get_process :: "int \<Rightarrow> kernel \<Rightarrow> nat option option" where
  "get_process pid k = do {
     tree \<leftarrow> tree_find (k_root k) (pid_comparator k pid) (k_tree k);
     (case tree of None \<Rightarrow> Some None
      | Some n \<Rightarrow> do { x \<leftarrow> h_nodes (k_tree k) n; Some (n_value x) }) }"

section \<open>File descriptors\<close>

definition append_process_fd :: "fs_node \<Rightarrow> kernel \<Rightarrow> (kernel \<times> int) option" where
  "append_process_fd node k = do {
     (i, p) \<leftarrow> current k;
     let fds = (if p_fd_length p = length (p_fds p) then p_fds p @ replicate 64 (k_fresh k) else p_fds p);
     fds \<leftarrow> mem_store fds (p_fd_length p) (Some (Some node));
     Some (put_proc i (p\<lparr>p_fds := fds, p_fd_length := Suc (p_fd_length p)\<rparr>) k, int (p_fd_length p)) }"

definition get_process_fd :: "int \<Rightarrow> kernel \<Rightarrow> fs_node option option" where
  "get_process_fd fd k = do {
     (_, p) \<leftarrow> current k;
     if fd < 0 \<or> fd \<ge> int (p_fd_length p) then Some None
     else do { slot \<leftarrow> mem_load (p_fds p) (nat fd); slot } }"

definition set_process_fd :: "int \<Rightarrow> fs_node option \<Rightarrow> kernel \<Rightarrow> kernel option" where
  "set_process_fd fd x k = do {
     (i, p) \<leftarrow> current k;
     fds \<leftarrow> mem_store (p_fds p) (nat fd) (Some x);
     Some (put_proc i (p\<lparr>p_fds := fds\<rparr>) k) }"

text \<open>\<open>close_fs\<close> and \<open>open_fs\<close> on the kernel's state.\<close>

definition k_close_fs :: "fs_node \<Rightarrow> kernel \<Rightarrow> kernel option" where
  "k_close_fs node k = map_option (\<lambda>v. k\<lparr>k_vfs := v\<rparr>) (close_fs node (k_vfs k))"

definition k_open_fs :: "fs_node \<Rightarrow> u32 \<Rightarrow> kernel \<Rightarrow> kernel" where
  "k_open_fs node flags k = k\<lparr>k_vfs := open_fs node flags (k_vfs k)\<rparr>"

text \<open>When \<open>from\<close> and \<open>to\<close> are the same open descriptor its node is freed before it is copied.\<close>

definition process_dup2 :: "int \<Rightarrow> int \<Rightarrow> kernel \<Rightarrow> (kernel \<times> int) option" where
  "process_dup2 from_fd to_fd k = do {
     found \<leftarrow> get_process_fd from_fd k;
     (case found of None \<Rightarrow> Some (k, -1)
      | Some node \<Rightarrow>
          if to_fd = -1 then append_process_fd (copy_node node) (k_open_fs (copy_node node) 0 k)
          else do {
            (i, p) \<leftarrow> current k;
            if to_fd \<ge> int (p_fd_length p) \<or> to_fd < 0 then Some (k, -1)
            else do {
              oldnode \<leftarrow> get_process_fd to_fd k;
              k \<leftarrow> (case oldnode of None \<Rightarrow> Some k
                   | Some n \<Rightarrow> do { k \<leftarrow> k_close_fs n k; if from_fd = to_fd then None else Some k });
              k \<leftarrow> set_process_fd to_fd (Some (copy_node node)) k;
              Some (k_open_fs (copy_node node) 0 k, to_fd) } }) }"

section \<open>Making processes\<close>

text \<open>A kernel stack of nine frames, the address of its end in the direct map.\<close>

definition alloc_stack :: "mmu \<Rightarrow> (mmu \<times> u64) option" where
  "alloc_stack m = do {
     index \<leftarrow> mmu_request_frames 9 m;
     let stack = push_bit 12 index + 0x9000;
     m \<leftarrow> for_each [1..<10] (\<lambda>i m. mmu_lock_frame (stack - 0x1000 * of_nat i) m) m;
     Some (m, mmu_from_physical stack) }"

definition spawn_init :: "kernel \<Rightarrow> (kernel \<times> nat) option" where
  "spawn_init k = do {
     (m, stack) \<leftarrow> alloc_stack (k_mmu k);
     (m, dir) \<leftarrow> mmu_clone 0 m;
     root \<leftarrow> k_root k;
     x \<leftarrow> h_nodes (k_tree k) root;
     let i = k_next_addr k;
     let p = process_zero\<lparr>p_tree_entry := Some root, p_pid := 1, p_name := ''init'', p_uid := 0, p_gid := 0,
           p_flags := STARTED OR RUNNING, p_pwd := ''/'', p_pwd_node := map_option copy_node (v_root (k_vfs k)),
           p_fd_length := 0, p_fds := replicate 32 (k_fresh k),
           p_image := \<lparr>img_entry = 0, img_heap = 0, img_stack = stack, img_userstack = 0\<rparr>,
           p_directory := dir, p_queued := Some i\<rparr>;
     let k = k\<lparr>k_tree := put_node root (x\<lparr>n_value := Some i\<rparr>) (k_tree k)\<rparr>;
     Some (new_proc p (put_mmu m k)) }"

definition spawn_idle :: "bool \<Rightarrow> kernel \<Rightarrow> (kernel \<times> nat) option" where
  "spawn_idle bsp k = do {
     (m, stack) \<leftarrow> alloc_stack (k_mmu k);
     (m, dir) \<leftarrow> mmu_clone 0 m;
     let p = process_zero\<lparr>p_pid := -1, p_name := ''idle'', p_flags := IS_TASKLET OR STARTED OR RUNNING,
           p_image := \<lparr>img_entry = 0, img_heap = 0, img_stack = stack, img_userstack = 0\<rparr>,
           p_context := \<lparr>ctx_sp = stack, ctx_bp = stack, ctx_ip = (if bsp then Idle_loop else Burn_loop),
             ctx_tls_base = 0, ctx_saved = [0, 0, 0, 0, 0]\<rparr>,
           p_directory := dir\<rparr>;
     Some (new_proc p (put_mmu m k)) }"

fun copy_fds :: "fs_node option option list \<Rightarrow> kernel \<Rightarrow> (kernel \<times> fs_node option option list) option" where
  "copy_fds [] k = Some (k, [])"
| "copy_fds (slot # fds) k = do {
     fd \<leftarrow> slot;
     let k = (case fd of None \<Rightarrow> k | Some node \<Rightarrow> k_open_fs (copy_node node) 0 k);
     (k, fds) \<leftarrow> copy_fds fds k;
     Some (k, Some (map_option copy_node fd) # fds) }"

definition spawn_process :: "nat \<Rightarrow> kernel \<Rightarrow> (kernel \<times> nat) option" where
  "spawn_process parent k = do {
     pp \<leftarrow> k_procs k parent;
     (k, pid) \<leftarrow> get_next_pid k;
     (m, stack) \<leftarrow> alloc_stack (k_mmu k);
     let k = put_mmu m k;
     (k, fds) \<leftarrow> copy_fds (p_fds pp) k;
     let i = k_next_addr k;
     (h, entry) \<leftarrow> tree_insert_value (p_tree_entry pp) (Some i) (k_tree k);
     let p = process_zero\<lparr>p_pid := pid, p_name := p_name pp, p_uid := p_uid pp, p_gid := p_gid pp,
           p_image := \<lparr>img_entry = img_entry (p_image pp), img_heap = img_heap (p_image pp), img_stack = stack,
             img_userstack = 0\<rparr>,
           p_pwd := p_pwd pp, p_pwd_node := map_option copy_node (p_pwd_node pp),
           p_fds := fds, p_fd_length := p_fd_length pp, p_tree_entry := entry, p_queued := Some i\<rparr>;
     Some (new_proc p (k\<lparr>k_tree := h\<rparr>)) }"

definition multitasking_init :: "kernel \<Rightarrow> kernel option" where
  "multitasking_init k = do {
     (k, i) \<leftarrow> spawn_init k;
     let k = k\<lparr>k_current := Some i\<rparr>;
     (k, i) \<leftarrow> spawn_idle True k;
     Some (k\<lparr>k_idle := Some i\<rparr>) }"

section \<open>The scheduler\<close>

text \<open>Nothing ever clears the link of a process that leaves the queue.\<close>

definition make_process_ready :: "nat \<Rightarrow> kernel \<Rightarrow> kernel option" where
  "make_process_ready i k = (case k_queue_end k of
       Some e \<Rightarrow> do {
         q \<leftarrow> k_procs k e;
         Some ((put_proc e (q\<lparr>p_next := Some i\<rparr>) k)\<lparr>k_queue_end := Some i\<rparr>) }
     | None \<Rightarrow> Some (k\<lparr>k_queue := Some i, k_queue_end := Some i\<rparr>))"

definition next_ready_process :: "kernel \<Rightarrow> (kernel \<times> nat option) option" where
  "next_ready_process k = (case k_queue k of None \<Rightarrow> Some (k, k_idle k)
     | Some q \<Rightarrow> do {
         n \<leftarrow> k_procs k q;
         r \<leftarrow> p_queued n;
         let k = k\<lparr>k_queue := p_next n\<rparr>;
         let k = (if p_next n = None then k\<lparr>k_queue_end := None\<rparr> else k);
         p \<leftarrow> k_procs k r;
         let k = (if p_flags p AND FINISHED = 0 then put_proc r (p\<lparr>p_flags := p_flags p OR RUNNING\<rparr>) k else k);
         Some (k, Some r) })"

text \<open>
  Deleting a process frees its tree node's value, which is the process itself, and then goes on
  using it.
\<close>

definition process_delete :: "nat \<Rightarrow> kernel \<Rightarrow> kernel option" where
  "process_delete i k = do {
     p \<leftarrow> k_procs k i;
     if p_tree_entry p = None then Some k
     else do {
       h \<leftarrow> tree_destroy_and_merge (p_tree_entry p) ((k_tree k)\<lparr>h_freed := []\<rparr>);
       let k = k\<lparr>k_tree := h, k_procs := (\<lambda>j. if j \<in> set (h_freed h) then None else k_procs k j)\<rparr>;
       p \<leftarrow> k_procs k i;
       m \<leftarrow> for_each [1..<10] (\<lambda>n m. mmu_release_frame (img_stack (p_image p) - 0x1000 * of_nat n) m) (k_mmu k);
       m \<leftarrow> mmu_free (p_directory p) m;
       let k = put_mmu m k;
       Some (k\<lparr>k_procs := (k_procs k)(i := None)\<rparr>) } }"

partial_function (option) empty_delete_queue :: "kernel \<Rightarrow> kernel option" where
  "empty_delete_queue k = (case k_delete k of None \<Rightarrow> Some k
     | Some q \<Rightarrow> do {
         n \<leftarrow> k_procs k q;
         k \<leftarrow> (case p_queued n of None \<Rightarrow> Some k | Some r \<Rightarrow> process_delete r k);
         empty_delete_queue (k\<lparr>k_delete := p_next n\<rparr>) })"

partial_function (option) pick_next :: "kernel \<Rightarrow> (kernel \<times> nat \<times> process) option" where
  "pick_next k = do {
     (k, r) \<leftarrow> next_ready_process k;
     let k = k\<lparr>k_current := r\<rparr>;
     (i, p) \<leftarrow> current k;
     if p_flags p AND FINISHED \<noteq> 0 then pick_next k else Some (k, i, p) }"

definition switch_next :: "kernel \<Rightarrow> kernel option" where
  "switch_next k = do {
     k \<leftarrow> empty_delete_queue k;
     (k, i, p) \<leftarrow> pick_next k;
     let k = put_mmu (mmu_set_directory (p_directory p) (k_mmu k)) k;
     let k = k\<lparr>k_kernel_stack := img_stack (p_image p)\<rparr>;
     Some (put_proc i (p\<lparr>p_flags := p_flags p OR STARTED\<rparr>) k) }"

definition switch_task :: "bool \<Rightarrow> kernel \<Rightarrow> kernel option" where
  "switch_task reschedule k = (case k_current k of None \<Rightarrow> Some k
     | Some i \<Rightarrow> do {
         p \<leftarrow> k_procs k i;
         if p_flags p AND RUNNING = 0 \<or> Some i = k_idle k then switch_next k
         else do {
           k \<leftarrow> (if reschedule then make_process_ready i k else Some k);
           switch_next k } })"

definition close_fds :: "nat list \<Rightarrow> kernel \<Rightarrow> kernel option" where
  "close_fds is = for_each is (\<lambda>fd k. do {
     node \<leftarrow> get_process_fd (int fd) k;
     (case node of None \<Rightarrow> Some k
      | Some n \<Rightarrow> do { k \<leftarrow> k_close_fs n k; set_process_fd (int fd) None k }) })"

definition process_exit :: "u32 \<Rightarrow> kernel \<Rightarrow> kernel option" where
  "process_exit rval k = do {
     (i, p) \<leftarrow> current k;
     let p = p\<lparr>p_status := rval\<rparr>;
     let k = (if p_flags p AND HAS_WAITERS = 0
              then (put_proc i (p\<lparr>p_next := k_delete k\<rparr>) k)\<lparr>k_delete := Some i\<rparr> else put_proc i p k);
     k \<leftarrow> close_fds [0..<p_fd_length p] k;
     (i, p) \<leftarrow> current k;
     switch_next (put_proc i (p\<lparr>p_flags := p_flags p OR FINISHED\<rparr>) k) }"

definition fork :: "kernel \<Rightarrow> (kernel \<times> int) option" where
  "fork k = do {
     (pi, parent) \<leftarrow> current k;
     (m, directory) \<leftarrow> mmu_clone (p_directory parent) (k_mmu k);
     (k, i) \<leftarrow> spawn_process pi (put_mmu m k);
     p \<leftarrow> k_procs k i;
     r \<leftarrow> p_regs parent;
     let sp = img_stack (p_image p) - 176;
     let p = p\<lparr>p_directory := directory, p_regs := Some (r\<lparr>rax := 0\<rparr>),
           p_context := \<lparr>ctx_sp = sp, ctx_bp = img_stack (p_image p), ctx_ip = Resume_user,
             ctx_tls_base = ctx_tls_base (p_context parent), ctx_saved = ctx_saved (p_context parent)\<rparr>,
           p_flags := (if p_flags parent AND IS_TASKLET \<noteq> 0 then p_flags p OR IS_TASKLET else p_flags p)\<rparr>;
     k \<leftarrow> make_process_ready i (put_proc i p k);
     Some (k, p_pid p) }"

section \<open>The ready queue is served in turn\<close>

lemma k_open_fs_id [simp]: "k_open_fs node flags k = k"
  by (simp add: k_open_fs_def)

lemma copy_fds_state: "copy_fds fds k = Some (k', r) \<Longrightarrow> k' = k \<and> length r = length fds"
proof (induction fds arbitrary: k k' r)
  case (Cons a fds)
  then show ?case by (cases a) (auto split: option.splits Option.bind_split_asm)
qed simp

text \<open>
  \<open>linked procs ps\<close>: the queue nodes of \<open>ps\<close> are linked in this order; the link of the last one is
  left open, since \<open>make_process_ready\<close> overwrites it and nothing else clears it.
\<close>

fun linked :: "(nat \<Rightarrow> process option) \<Rightarrow> nat list \<Rightarrow> bool" where
  "linked procs [] \<longleftrightarrow> True"
| "linked procs [i] \<longleftrightarrow> True"
| "linked procs (i # j # ps) \<longleftrightarrow> (\<exists>p. procs i = Some p \<and> p_next p = Some j) \<and> linked procs (j # ps)"

text \<open>A process that can be scheduled: its queue node names it and it has not exited.\<close>

definition ready :: "kernel \<Rightarrow> nat \<Rightarrow> bool" where
  "ready k i \<longleftrightarrow> (\<exists>p. k_procs k i = Some p \<and> p_queued p = Some i \<and> p_flags p AND FINISHED = 0)"

lemma linked_upd: "i \<notin> set ps \<Longrightarrow> linked (procs(i \<mapsto> p)) ps = linked procs ps"
  by (induction procs ps rule: linked.induct) auto

lemma linked_same:
  "procs i = Some p \<Longrightarrow> p_next q = p_next p \<Longrightarrow> linked (procs(i \<mapsto> q)) ps = linked procs ps"
  by (induction procs ps rule: linked.induct) auto

lemma linked_append:
  "linked procs ps \<Longrightarrow> ps \<noteq> [] \<Longrightarrow> distinct ps \<Longrightarrow> linked (procs(last ps \<mapsto> p\<lparr>p_next := Some c\<rparr>)) (ps @ [c])"
proof (induction procs ps rule: linked.induct)
  case (3 procs i j ps)
  have "last (j # ps) \<in> set (j # ps)" by (rule last_in_set) simp
  then have "i \<noteq> last (j # ps)" using 3(4) by auto
  moreover have "linked (procs(last (j # ps) \<mapsto> p\<lparr>p_next := Some c\<rparr>)) ((j # ps) @ [c])"
    using 3 by (simp del: last.simps fun_upd_apply)
  moreover have "last (i # j # ps) = last (j # ps)" by simp
  ultimately show ?case using 3(2) by (simp del: last.simps fun_upd_apply add: fun_upd_other)
qed auto

text \<open>The queue list as the code sees it; its last link may be stale unless it is alone.\<close>

definition queue_holds :: "kernel \<Rightarrow> nat list \<Rightarrow> bool" where
  "queue_holds k ps \<longleftrightarrow> k_queue k = (case ps of [] \<Rightarrow> None | p # _ \<Rightarrow> Some p)
     \<and> k_queue_end k = (if ps = [] then None else Some (last ps)) \<and> distinct ps
     \<and> (\<forall>i \<in> set ps. ready k i) \<and> linked (k_procs k) ps"

lemma make_ready_append:
  assumes "queue_holds k ps" and "ready k c" and "c \<notin> set ps"
  shows "\<exists>k'. make_process_ready c k = Some k' \<and> queue_holds k' (ps @ [c])
    \<and> k_current k' = k_current k \<and> k_idle k' = k_idle k \<and> k_delete k' = k_delete k \<and> k_procs k' c = k_procs k c
    \<and> k_vfs k' = k_vfs k \<and> k_tree k' = k_tree k \<and> k_root k' = k_root k
    \<and> (\<forall>i p. k_procs k i = Some p \<longrightarrow> (\<exists>x. k_procs k' i = Some (p\<lparr>p_next := x\<rparr>)))"
proof (cases "ps = []")
  case True
  then have "k_queue_end k = None" using assms(1) by (simp add: queue_holds_def)
  then have m: "make_process_ready c k = Some (k\<lparr>k_queue := Some c, k_queue_end := Some c\<rparr>)"
    by (simp add: make_process_ready_def)
  have "\<exists>x. k_procs k i = Some (p\<lparr>p_next := x\<rparr>)" if "k_procs k i = Some p" for i p
    using that by (intro exI [of _ "p_next p"]) simp
  then show ?thesis
    using True assms(2) by (intro exI [of _ "k\<lparr>k_queue := Some c, k_queue_end := Some c\<rparr>"]) (simp add: m queue_holds_def ready_def)
next
  case False
  have ne: "last ps \<noteq> c" "last ps \<in> set ps" using assms(3) False by auto
  then obtain q where q: "k_procs k (last ps) = Some q" using assms(1) by (fastforce simp: queue_holds_def ready_def)
  have e: "k_queue_end k = Some (last ps)" using assms(1) False by (simp add: queue_holds_def)
  let ?k = "(put_proc (last ps) (q\<lparr>p_next := Some c\<rparr>) k)\<lparr>k_queue_end := Some c\<rparr>"
  have "linked (k_procs ?k) (ps @ [c])"
    using linked_append [of "k_procs k" ps, where p = q and c = c] assms(1) False by (simp add: queue_holds_def put_proc_def)
  moreover have "\<forall>i \<in> set (ps @ [c]). ready ?k i"
    using assms(1,2) q by (auto simp: queue_holds_def ready_def put_proc_def)
  moreover have "k_queue ?k = (case ps @ [c] of [] \<Rightarrow> None | p # _ \<Rightarrow> Some p)"
    using assms(1) False by (cases ps) (auto simp: queue_holds_def put_proc_def)
  ultimately have "queue_holds ?k (ps @ [c])"
    using assms by (simp add: queue_holds_def put_proc_def)
  moreover have "\<exists>x. k_procs ?k i = Some (p\<lparr>p_next := x\<rparr>)" if "k_procs k i = Some p" for i p
  proof (cases "i = last ps")
    case True
    then show ?thesis using that q by (auto simp: put_proc_def)
  next
    case False
    then show ?thesis using that by (intro exI [of _ "p_next p"]) (simp add: put_proc_def)
  qed
  ultimately show ?thesis
    using e q ne by (intro exI [of _ ?k]) (auto simp: make_process_ready_def put_proc_def)
qed

text \<open>Taking the next process off the queue, where another one is queued behind it.\<close>

lemma next_ready_pop:
  assumes "queue_holds k (i # ps)" and "ps = [] \<Longrightarrow> \<exists>p. k_procs k i = Some p \<and> p_next p = None"
  shows "\<exists>p k'. next_ready_process k = Some (k', Some i) \<and> k_procs k i = Some p
    \<and> k_procs k' = (k_procs k)(i \<mapsto> p\<lparr>p_flags := p_flags p OR RUNNING\<rparr>) \<and> queue_holds k' ps
    \<and> k_current k' = k_current k \<and> k_idle k' = k_idle k \<and> k_delete k' = k_delete k \<and> k_vfs k' = k_vfs k"
proof -
  obtain p where p: "k_procs k i = Some p" "p_queued p = Some i" "p_flags p AND FINISHED = 0" "k_queue k = Some i"
    using assms(1) by (auto simp: queue_holds_def ready_def)
  have n: "p_next p = (case ps of [] \<Rightarrow> None | j # _ \<Rightarrow> Some j)"
    using assms p(1) by (cases ps) (auto simp: queue_holds_def)
  let ?q = "p\<lparr>p_flags := p_flags p OR RUNNING\<rparr>"
  define k' where "k' = put_proc i ?q (if p_next p = None then k\<lparr>k_queue := p_next p, k_queue_end := None\<rparr> else k\<lparr>k_queue := p_next p\<rparr>)"
  have r: "next_ready_process k = Some (k', Some i)"
    using p n by (simp add: next_ready_process_def k'_def Let_def split: list.split)
  have procs: "k_procs k' = (k_procs k)(i \<mapsto> ?q)" by (simp add: k'_def put_proc_def)
  have "i \<notin> set ps" "distinct ps" "linked (k_procs k) ps" "\<forall>j \<in> set ps. ready k j"
    using assms(1) by (cases ps; auto simp: queue_holds_def)+
  then have "linked (k_procs k') ps" "\<forall>j \<in> set ps. ready k' j"
    using linked_upd [of i ps "k_procs k" ?q] by (auto simp: procs ready_def)
  moreover have "k_queue k' = (case ps of [] \<Rightarrow> None | j # _ \<Rightarrow> Some j)" by (simp add: k'_def put_proc_def n)
  moreover have "k_queue_end k' = (if ps = [] then None else Some (last ps))"
    using assms(1) n by (auto simp: k'_def put_proc_def queue_holds_def split: list.splits)
  ultimately have "queue_holds k' ps" using \<open>distinct ps\<close> by (simp add: queue_holds_def)
  then show ?thesis using r p(1) procs by (intro exI [of _ p] exI [of _ k']) (simp add: k'_def put_proc_def)
qed

lemma flag_or_finished: "p AND FINISHED = (0::u32) \<Longrightarrow> (p OR RUNNING) AND FINISHED = 0 \<and> ((p OR RUNNING) OR STARTED) AND FINISHED = 0"
  by (simp add: bit.conj_disj_distrib2)

lemma flag_or_running: "((p OR RUNNING) OR STARTED) AND RUNNING \<noteq> (0::u32)"
  by (simp add: bit.conj_disj_distrib2)

text \<open>
  The running process \<open>c\<close> and the ready queue \<open>ps\<close>, with no exited process waiting for its
  deletion. A process that runs alone must not have a link.
\<close>

definition ring :: "kernel \<Rightarrow> nat \<Rightarrow> nat list \<Rightarrow> bool" where
  "ring k c ps \<longleftrightarrow> k_current k = Some c \<and> k_delete k = None \<and> (\<forall>i \<in> set (c # ps). k_idle k \<noteq> Some i)
     \<and> c \<notin> set ps \<and> queue_holds k ps \<and> ready k c
     \<and> (\<exists>p. k_procs k c = Some p \<and> p_flags p AND RUNNING \<noteq> 0 \<and> (ps = [] \<longrightarrow> p_next p = None))"

fun switches :: "nat \<Rightarrow> kernel \<Rightarrow> kernel option" where
  "switches 0 k = Some k"
| "switches (Suc n) k = do { k \<leftarrow> switch_task True k; switches n k }"

lemma switch_next_picks:
  assumes "queue_holds k (i # ps)" and "ps = [] \<Longrightarrow> \<exists>p. k_procs k i = Some p \<and> p_next p = None"
    and "k_delete k = None"
  shows "\<exists>p k'. switch_next k = Some k' \<and> k_current k' = Some i \<and> k_procs k i = Some p
    \<and> k_procs k' = (k_procs k)(i \<mapsto> p\<lparr>p_flags := (p_flags p OR RUNNING) OR STARTED\<rparr>) \<and> queue_holds k' ps
    \<and> k_idle k' = k_idle k \<and> k_delete k' = None \<and> current_pml (k_mmu k') = (if p_directory p = 0 then kernel_pml (k_mmu k) else p_directory p)
    \<and> k_kernel_stack k' = img_stack (p_image p)"
proof -
  obtain p k1 where k1: "next_ready_process k = Some (k1, Some i)" "k_procs k i = Some p"
    "k_procs k1 = (k_procs k)(i \<mapsto> p\<lparr>p_flags := p_flags p OR RUNNING\<rparr>)" "queue_holds k1 ps"
    "k_current k1 = k_current k" "k_idle k1 = k_idle k" "k_delete k1 = k_delete k" "k_vfs k1 = k_vfs k"
    using next_ready_pop [OF assms(1,2)] by blast
  have nf: "p_flags p AND FINISHED = 0" using assms(1) k1(2) by (auto simp: queue_holds_def ready_def)
  have pick: "pick_next k = Some (k1\<lparr>k_current := Some i\<rparr>, i, p\<lparr>p_flags := p_flags p OR RUNNING\<rparr>)"
    using k1 flag_or_finished [OF nf] by (subst pick_next.simps) (simp add: current_def)
  have del: "empty_delete_queue k = Some k" using assms(3) by (subst empty_delete_queue.simps) simp
  define k' where "k' = put_proc i (p\<lparr>p_flags := (p_flags p OR RUNNING) OR STARTED\<rparr>)
    ((put_mmu (mmu_set_directory (p_directory p) (k_mmu k1)) (k1\<lparr>k_current := Some i\<rparr>))\<lparr>k_kernel_stack := img_stack (p_image p)\<rparr>)"
  have s: "switch_next k = Some k'"
    by (simp add: switch_next_def del pick k'_def k_mmu_def Let_def)
  have procs: "k_procs k' = (k_procs k)(i \<mapsto> p\<lparr>p_flags := (p_flags p OR RUNNING) OR STARTED\<rparr>)"
    by (simp add: k'_def put_proc_def put_mmu_def k1(3))
  have "i \<notin> set ps" using assms(1) by (simp add: queue_holds_def)
  then have same: "\<forall>j \<in> set ps. k_procs k' j = k_procs k1 j" by (auto simp: procs k1(3))
  have "linked (k_procs k') ps"
    using k1(4) linked_same [of "k_procs k1" i "p\<lparr>p_flags := p_flags p OR RUNNING\<rparr>" "p\<lparr>p_flags := (p_flags p OR RUNNING) OR STARTED\<rparr>" ps]
    by (simp add: procs k1(3) queue_holds_def)
  moreover have f: "k_queue k' = k_queue k1" "k_queue_end k' = k_queue_end k1" "k_current k' = Some i" "k_idle k' = k_idle k1"
    "k_delete k' = k_delete k1" "k_kernel_stack k' = img_stack (p_image p)" "k_mmu k' = mmu_set_directory (p_directory p) (k_mmu k1)"
    by (simp_all add: k'_def put_proc_def put_mmu_def k_mmu_def)
  moreover have "ready k' j" if "j \<in> set ps" for j using k1(4) same that by (simp add: queue_holds_def ready_def)
  ultimately have "queue_holds k' ps"
    using k1(4) by (simp add: queue_holds_def)
  moreover have "k_mmu k1 = k_mmu k" by (simp add: k_mmu_def k1(8))
  ultimately show ?thesis
    using s procs k1(2) f k1(6,7) assms(3)
    by (intro exI [of _ p] exI [of _ k'] conjI) (simp_all add: mmu_set_directory_def)
qed

lemma switch_ring:
  assumes "ring k c ps"
  shows "\<exists>k'. switch_task True k = Some k' \<and> ring k' (hd (ps @ [c])) (tl (ps @ [c]))"
proof -
  obtain p where p: "k_procs k c = Some p" "p_flags p AND RUNNING \<noteq> 0" "ps = [] \<longrightarrow> p_next p = None"
    and r: "k_current k = Some c" "k_delete k = None" "\<forall>i \<in> set (c # ps). k_idle k \<noteq> Some i" "c \<notin> set ps" "queue_holds k ps" "ready k c"
    using assms by (auto simp: ring_def)
  obtain k1 where k1: "make_process_ready c k = Some k1" "queue_holds k1 (ps @ [c])" "k_procs k1 c = k_procs k c"
    "k_current k1 = k_current k" "k_idle k1 = k_idle k" "k_delete k1 = k_delete k"
    using make_ready_append [OF r(5,6,4)] by blast
  obtain i qs where e: "ps @ [c] = i # qs" by (cases ps) auto
  have q1: "queue_holds k1 (i # qs)" using k1(2) e by simp
  have alone: "qs = [] \<Longrightarrow> \<exists>q. k_procs k1 i = Some q \<and> p_next q = None"
    using p k1(3) e by (cases ps) auto
  obtain q k' where k': "switch_next k1 = Some k'" "k_current k' = Some i" "k_procs k1 i = Some q"
    "k_procs k' = (k_procs k1)(i \<mapsto> q\<lparr>p_flags := (p_flags q OR RUNNING) OR STARTED\<rparr>)" "queue_holds k' qs"
    "k_idle k' = k_idle k1" "k_delete k' = None"
    using switch_next_picks [OF q1 alone] k1(6) r(2) by auto
  have rq: "p_queued q = Some i" "p_flags q AND FINISHED = 0" "i \<notin> set qs"
    using q1 k'(3) by (simp_all add: queue_holds_def ready_def)
  have "ready k' i" using k'(4) rq flag_or_finished by (simp add: ready_def)
  moreover have "set (i # qs) = set (c # ps)" by (subst e [symmetric]) auto
  then have "\<forall>j \<in> set (i # qs). k_idle k' \<noteq> Some j" using r(3) k1(5) k'(6) by metis
  moreover have "\<exists>p. k_procs k' i = Some p \<and> p_flags p AND RUNNING \<noteq> 0 \<and> (qs = [] \<longrightarrow> p_next p = None)"
    using alone k'(3,4) flag_or_running by auto
  ultimately have "ring k' i qs" unfolding ring_def using k'(2,5,7) rq(3) by blast
  moreover have "switch_task True k = Some k'"
    using r(1,3) p(1,2) k1(1) k'(1) by (auto simp: switch_task_def)
  ultimately show ?thesis using e by simp
qed

lemma switches_ring:
  "ring k c ps \<Longrightarrow> \<exists>k'. switches n k = Some k' \<and> ring k' (hd (rotate n (c # ps))) (tl (rotate n (c # ps)))"
proof (induction n arbitrary: k c ps)
  case (Suc n)
  obtain k1 where k1: "switch_task True k = Some k1" "ring k1 (hd (ps @ [c])) (tl (ps @ [c]))"
    using switch_ring [OF Suc.prems] by blast
  have "hd (ps @ [c]) # tl (ps @ [c]) = ps @ [c]" by (cases ps) auto
  moreover have "rotate (Suc n) (c # ps) = rotate n (ps @ [c])" by (simp add: rotate1_rotate_swap)
  ultimately show ?case using Suc.IH [OF k1(2)] k1(1) by simp
qed simp

text \<open>
  C19. The scheduler starves nobody: while one process runs and the others are queued, and every
  process that is switched away from is put back, each switch succeeds, and the process at
  position \<open>n\<close> behind the running one runs after \<open>n\<close> switches; the order of the ring is kept, so
  after as many switches as there are processes the first one runs again.
\<close>

theorem round_robin:
  assumes "ring k c ps"
  shows "\<exists>k'. switches n k = Some k' \<and> k_current k' = Some ((c # ps) ! (n mod Suc (length ps)))
    \<and> ring k' (hd (rotate n (c # ps))) (tl (rotate n (c # ps)))"
proof -
  obtain k' where k': "switches n k = Some k'" "ring k' (hd (rotate n (c # ps))) (tl (rotate n (c # ps)))"
    using switches_ring [OF assms] by blast
  have "hd (rotate n (c # ps)) = (c # ps) ! (n mod Suc (length ps))"
    using hd_rotate_conv_nth [of "c # ps" n] by simp
  then show ?thesis using k' by (auto simp: ring_def)
qed

section \<open>Duplicating a descriptor\<close>

lemma k_close_fs_procs: "k_close_fs n k = Some k' \<Longrightarrow> k_procs k' = k_procs k \<and> k_current k' = k_current k"
  by (auto simp: k_close_fs_def)

text \<open>
  \<open>process_dup2\<close> to an open or a closed descriptor below the length of the table: the
  descriptor becomes a copy of the other's node, all other descriptors and the table's length stay,
  and the new descriptor is returned. The terminal's close function is the only one that can fail.
\<close>

lemma process_dup2_copies:
  assumes cur: "current k = Some (i, p)" and src: "get_process_fd a k = Some (Some node)"
    and b: "0 \<le> b" "b < int (p_fd_length p)" "p_fd_length p \<le> length (p_fds p)" "a \<noteq> b"
    and old: "get_process_fd b k = Some old" "\<forall>n. old = Some n \<longrightarrow> k_close_fs n k \<noteq> None"
  shows "\<exists>k' p'. process_dup2 a b k = Some (k', b) \<and> current k' = Some (i, p') \<and> p_fd_length p' = p_fd_length p
    \<and> get_process_fd b k' = Some (Some (copy_node node)) \<and> (\<forall>fd. fd \<noteq> b \<longrightarrow> get_process_fd fd k' = get_process_fd fd k)"
proof -
  obtain k1 where k1: "(case old of None \<Rightarrow> Some k | Some n \<Rightarrow> do { k \<leftarrow> k_close_fs n k; if a = b then None else Some k }) = Some k1"
    "k_procs k1 = k_procs k" "k_current k1 = k_current k"
  proof (cases old)
    case (Some n)
    then obtain k1 where "k_close_fs n k = Some k1" using old(2) by auto
    then show ?thesis using that [of k1] Some b(4) k_close_fs_procs by auto
  qed (use that in auto)
  have ip: "k_current k = Some i" "k_procs k i = Some p" using cur by (auto simp: current_def split: Option.bind_split_asm)
  let ?p = "p\<lparr>p_fds := (p_fds p)[nat b := Some (Some (copy_node node))]\<rparr>"
  let ?k = "put_proc i ?p k1"
  have nb: "nat b < length (p_fds p)" using b by linarith
  have "set_process_fd b (Some (copy_node node)) k1 = Some ?k"
    using ip k1 nb by (simp add: set_process_fd_def current_def mem_store_def)
  then have "process_dup2 a b k = Some (?k, b)"
    using src old(1) k1(1) b cur by (simp add: process_dup2_def)
  moreover have c: "current ?k = Some (i, ?p)" using k1 ip by (simp add: current_def put_proc_def)
  moreover have "get_process_fd b ?k = Some (Some (copy_node node))"
    using b nb by (simp add: get_process_fd_def c mem_load_def)
  moreover have "get_process_fd fd ?k = get_process_fd fd k" if "fd \<noteq> b" for fd
    using that b(1) by (simp add: get_process_fd_def c cur mem_load_def nth_list_update nat_eq_iff2 split: if_splits)
  ultimately show ?thesis by (intro exI [of _ ?k] exI [of _ ?p]) simp
qed

text \<open>Duplicating an open descriptor onto itself frees the node before copying it.\<close>

lemma process_dup2_self:
  assumes "get_process_fd a k = Some (Some node)"
  shows "process_dup2 a a k = None"
proof -
  obtain i p where ip: "current k = Some (i, p)" using assms by (auto simp: get_process_fd_def split: Option.bind_split_asm)
  then have "0 \<le> a" "a < int (p_fd_length p)" using assms by (auto simp: get_process_fd_def split: if_splits)
  then show ?thesis using assms ip by (simp add: process_dup2_def split: Option.bind_split)
qed

section \<open>Fork\<close>

text \<open>
  What \<open>fork\<close> needs of the kernel: the running process is in the process tree, whose values are
  live processes, no process has a
  process number that was not given out yet, addresses from \<open>k_next_addr\<close> on are unused, and the
  descriptors of the running process are initialised.
\<close>

definition can_fork :: "kernel \<Rightarrow> nat \<Rightarrow> process \<Rightarrow> regs \<Rightarrow> rose \<Rightarrow> nat \<Rightarrow> bool" where
  "can_fork k i p r t e \<longleftrightarrow> current k = Some (i, p) \<and> p_regs p = Some r \<and> None \<notin> set (p_fds p)
     \<and> p_tree_entry p = Some e \<and> e \<in> set (nodes t) \<and> tree_ok (k_tree k) t \<and> k_root k = Some (node_of t)
     \<and> (\<forall>l j. (l, Some j) \<in> set (pre t) \<longrightarrow> k_procs k j \<noteq> None)
     \<and> k_last_pid k < 2147483647 \<and> (\<forall>j q. k_procs k j = Some q \<longrightarrow> p_pid q \<le> k_last_pid k \<and> j < k_next_addr k)"

lemma copy_fds_initialised:
  "None \<notin> set fds \<Longrightarrow> copy_fds fds k = Some (k, map (map_option (map_option copy_node)) fds)"
proof (induction fds)
  case (Cons a fds)
  then show ?case by (cases a) (auto split: option.split)
qed simp

lemma tree_values:
  "is_tree h par t \<Longrightarrow> (m, w) \<in> set (pre t) \<Longrightarrow> \<exists>x. h_nodes h m = Some x \<and> n_value x = w"
  "is_kids h q prev ch ks \<Longrightarrow> (m, w) \<in> set (pres ks) \<Longrightarrow> \<exists>x. h_nodes h m = Some x \<and> n_value x = w"
  by (induction h par t and h q prev ch ks rule: is_tree_is_kids.induct) auto

lemma tree_insert_search:
  assumes "tree_ok h t" and "e \<in> set (nodes t)" and "q (Some v)" and "\<forall>(_, w) \<in> set (pre t). \<not> q w"
    and "tree_insert_value (Some e) (Some v) h = Some (h', n)"
  shows "\<exists>m x. n = Some m \<and> tree_find (Some (node_of t)) q h' = Some (Some m) \<and> h_nodes h' m = Some x \<and> n_value x = Some v"
proof -
  let ?new = "Rose (h_next h) (Suc (h_next h)) (Some v) []"
  have n: "n = Some (h_next h)" and ok: "tree_ok h' (add_kid e ?new t)"
    using tree_insert_ok [OF assms(1,2), of v] assms(5) by auto
  obtain xs w ys where s: "pre t = xs @ (e, w) # ys" "pre (add_kid e ?new t) = xs @ (e, w) # pre ?new @ ys"
    using add_kid_split(1) [of e t ?new] assms(1,2) by (auto simp: tree_ok_def)
  have "find (\<lambda>x. q (snd x)) xs = None" using assms(4) unfolding s by (auto simp: find_None_iff)
  then have "find (\<lambda>x. q (snd x)) (pre (add_kid e ?new t)) = Some (h_next h, Some v)"
    using assms(3,4) unfolding s by (simp add: find_append)
  then have "tree_find (Some (node_of t)) q h' = Some (Some (h_next h))"
    using find_from_tree(1) [of h' None "add_kid e ?new t" q] ok by (simp add: tree_find_def tree_ok_def)
  moreover have "\<exists>x. h_nodes h' m = Some x \<and> n_value x = w" if "is_tree h' par u" "(m, w) \<in> set (pre u)" for par u m w
    using that(1,2) tree_values(1) by blast
  then have "\<exists>x. h_nodes h' (h_next h) = Some x \<and> n_value x = Some v"
    using ok s(2) by (fastforce simp: tree_ok_def)
  ultimately show ?thesis using n by blast
qed

lemma queue_holds_fresh:
  assumes "queue_holds k ps" and "j \<notin> set ps" and "k_queue k' = k_queue k" and "k_queue_end k' = k_queue_end k"
    and "k_procs k' = (k_procs k)(j \<mapsto> p)"
  shows "queue_holds k' ps"
  using assms linked_upd [OF assms(2), of "k_procs k" p] by (auto simp: queue_holds_def ready_def)

lemma fork_spawns:
  assumes cf: "can_fork k i p r t e" and m: "mmu_clone (p_directory p) (k_mmu k) = Some (m1, dir)" "alloc_stack m1 = Some (m2, stack)"
  shows "\<exists>h n c k2. tree_insert_value (Some e) (Some (k_next_addr k)) (k_tree k) = Some (h, n)
    \<and> fork k = map_option (\<lambda>k. (k, k_last_pid k2)) (make_process_ready (k_next_addr k) k2)
    \<and> k_procs k2 = (k_procs k)(k_next_addr k \<mapsto> c) \<and> k_tree k2 = h \<and> k_root k2 = k_root k \<and> k_current k2 = Some i
    \<and> k_queue k2 = k_queue k \<and> k_queue_end k2 = k_queue_end k \<and> k_last_pid k2 = k_last_pid k + 1
    \<and> p_pid c = k_last_pid k + 1 \<and> p_directory c = dir \<and> p_regs c = Some (r\<lparr>rax := 0\<rparr>)
    \<and> p_fds c = map (map_option (map_option copy_node)) (p_fds p) \<and> p_fd_length c = p_fd_length p
    \<and> p_uid c = p_uid p \<and> p_gid c = p_gid p \<and> p_queued c = Some (k_next_addr k) \<and> p_flags c AND FINISHED = 0"
proof -
  let ?j = "k_next_addr k" and ?k = "put_mmu m1 k"
  have cur: "current k = Some (i, p)" and pr: "p_regs p = Some r" and fds: "None \<notin> set (p_fds p)" and te: "p_tree_entry p = Some e"
    and et: "e \<in> set (nodes t)" and ok: "tree_ok (k_tree k) t" and lp: "k_last_pid k < 2147483647"
    using cf unfolding can_fork_def by blast+
  have ip: "k_procs k i = Some p" "k_current k = Some i" using cur by (auto simp: current_def split: Option.bind_split_asm)
  obtain h n where h: "tree_insert_value (Some e) (Some ?j) (k_tree k) = Some (h, n)" using tree_insert_ok [OF ok et, of ?j] by blast
  define c0 where "c0 = process_zero\<lparr>p_pid := k_last_pid k + 1, p_name := p_name p, p_uid := p_uid p, p_gid := p_gid p,
           p_image := \<lparr>img_entry = img_entry (p_image p), img_heap = img_heap (p_image p), img_stack = stack, img_userstack = 0\<rparr>,
           p_pwd := p_pwd p, p_pwd_node := map_option copy_node (p_pwd_node p),
           p_fds := map (map_option (map_option copy_node)) (p_fds p), p_fd_length := p_fd_length p, p_tree_entry := n, p_queued := Some ?j\<rparr>"
  define k1 where "k1 = (put_mmu m2 (?k\<lparr>k_last_pid := k_last_pid k + 1\<rparr>))\<lparr>k_tree := h\<rparr>"
  have g: "get_next_pid ?k = Some (?k\<lparr>k_last_pid := k_last_pid k + 1\<rparr>, k_last_pid k + 1)"
    using lp by (simp add: get_next_pid_def put_mmu_def)
  have mm: "k_mmu (put_mmu m1 k\<lparr>k_last_pid := l\<rparr>) = m1" for l by (simp add: k_mmu_def put_mmu_def)
  have f: "k_procs (put_mmu m1 k) = k_procs k" "k_tree (put_mmu m2 (put_mmu m1 k\<lparr>k_last_pid := l\<rparr>)) = k_tree k"
    "k_next_addr (put_mmu m2 (put_mmu m1 k\<lparr>k_last_pid := l\<rparr>)) = k_next_addr k" for l
    by (simp_all add: put_mmu_def)
  have sp: "spawn_process i ?k = Some (new_proc c0 k1)"
    by (simp add: spawn_process_def g mm m(2) f ip copy_fds_initialised [OF fds] te h Let_def c0_def k1_def)
  define c where "c = c0\<lparr>p_directory := dir, p_regs := Some (r\<lparr>rax := 0\<rparr>),
           p_context := \<lparr>ctx_sp = img_stack (p_image c0) - 176, ctx_bp = img_stack (p_image c0), ctx_ip = Resume_user,
             ctx_tls_base = ctx_tls_base (p_context p), ctx_saved = ctx_saved (p_context p)\<rparr>,
           p_flags := (if p_flags p AND IS_TASKLET \<noteq> 0 then p_flags c0 OR IS_TASKLET else p_flags c0)\<rparr>"
  define k2 where "k2 = put_proc ?j c (fst (new_proc c0 k1))"
  have n: "snd (new_proc c0 k1) = ?j" "k_procs (fst (new_proc c0 k1)) ?j = Some c0"
    by (simp_all add: new_proc_def k1_def put_proc_def put_mmu_def)
  have nk: "new_proc c0 k1 = (fst (new_proc c0 k1), ?j)" using n(1) by (metis prod.collapse)
  then have sp2: "spawn_process i ?k = Some (fst (new_proc c0 k1), ?j)" using sp by simp
  have "fork k = Option.bind (make_process_ready ?j k2) (\<lambda>k. Some (k, p_pid c))"
    by (simp add: fork_def cur m(1) sp2 n(2) pr c_def k2_def Let_def)
  moreover have "p_pid c = k_last_pid k2" by (simp add: c_def c0_def k2_def new_proc_def k1_def put_proc_def put_mmu_def)
  ultimately have "fork k = map_option (\<lambda>k. (k, k_last_pid k2)) (make_process_ready ?j k2)"
    by (cases "make_process_ready ?j k2") simp_all
  moreover have "k_procs k2 = (k_procs k)(?j \<mapsto> c)" by (simp add: k2_def new_proc_def k1_def put_proc_def put_mmu_def)
  moreover have "k_tree k2 = h" "k_root k2 = k_root k" "k_current k2 = Some i" "k_queue k2 = k_queue k" "k_queue_end k2 = k_queue_end k"
    "k_last_pid k2 = k_last_pid k + 1"
    using ip by (simp_all add: k2_def new_proc_def k1_def put_proc_def put_mmu_def)
  ultimately show ?thesis
    by (intro exI [of _ h] exI [of _ n] exI [of _ c] exI [of _ k2]) (simp add: h c_def c0_def process_zero_def)
qed

text \<open>
  C20. \<open>fork\<close> returns the next process number to the parent, and the child of that number is found
  in the process tree and queued behind all other processes. The child is a copy: the cloned
  address space, the parent's registers except that its system call returns 0, copies of all
  descriptors, the same user and group. Needed are memory for the address space and the kernel stack,
  and a parent all of whose descriptor slots have been written: \<open>fork\<close> reads every slot of the table up
  to its capacity, and \<open>malloc\<close> does not clear the slots behind the open descriptors (those of a
  table with such slots, as the first process has, are not covered).
\<close>

theorem fork_child:
  assumes cf: "can_fork k i p r t e" and q: "queue_holds k ps"
    and m: "mmu_clone (p_directory p) (k_mmu k) = Some (m1, dir)" "alloc_stack m1 = Some (m2, stack)"
  shows "\<exists>k' j c. fork k = Some (k', k_last_pid k + 1) \<and> get_process (k_last_pid k + 1) k' = Some (Some j)
    \<and> queue_holds k' (ps @ [j]) \<and> k_current k' = Some i \<and> k_procs k' j = Some c
    \<and> p_pid c = k_last_pid k + 1 \<and> p_directory c = dir \<and> p_regs c = Some (r\<lparr>rax := 0\<rparr>)
    \<and> p_fds c = map (map_option (map_option copy_node)) (p_fds p) \<and> p_fd_length c = p_fd_length p
    \<and> p_uid c = p_uid p \<and> p_gid c = p_gid p"
proof -
  let ?j = "k_next_addr k" and ?pid = "k_last_pid k + 1"
  have et: "e \<in> set (nodes t)" and ok: "tree_ok (k_tree k) t" and rt: "k_root k = Some (node_of t)"
    and fresh: "\<forall>j q. k_procs k j = Some q \<longrightarrow> p_pid q \<le> k_last_pid k \<and> j < ?j"
    using cf unfolding can_fork_def by blast+
  obtain h n c k2 where k2: "tree_insert_value (Some e) (Some ?j) (k_tree k) = Some (h, n)"
    "fork k = map_option (\<lambda>k. (k, k_last_pid k2)) (make_process_ready ?j k2)"
    "k_procs k2 = (k_procs k)(?j \<mapsto> c)" "k_tree k2 = h" "k_root k2 = k_root k" "k_current k2 = Some i"
    "k_queue k2 = k_queue k" "k_queue_end k2 = k_queue_end k" "k_last_pid k2 = ?pid"
    and c: "p_pid c = ?pid" "p_directory c = dir" "p_regs c = Some (r\<lparr>rax := 0\<rparr>)"
    "p_fds c = map (map_option (map_option copy_node)) (p_fds p)" "p_fd_length c = p_fd_length p"
    "p_uid c = p_uid p" "p_gid c = p_gid p" "p_queued c = Some ?j" "p_flags c AND FINISHED = 0"
    using fork_spawns [OF cf m] by (elim exE conjE) (rule that)
  have nj: "?j \<notin> set ps" using q fresh by (fastforce simp: queue_holds_def ready_def)
  have qk: "queue_holds k2 ps" by (rule queue_holds_fresh [OF q nj k2(7,8,3)])
  have rk: "ready k2 ?j" using c by (simp add: ready_def k2(3))
  obtain k' where k': "make_process_ready ?j k2 = Some k'" "queue_holds k' (ps @ [?j])"
    "k_current k' = k_current k2" "k_procs k' ?j = k_procs k2 ?j" "k_tree k' = k_tree k2" "k_root k' = k_root k2"
    and same: "\<forall>i p. k_procs k2 i = Some p \<longrightarrow> (\<exists>x. k_procs k' i = Some (p\<lparr>p_next := x\<rparr>))"
    using make_ready_append [OF qk rk nj] by (elim exE conjE) (rule that)
  have old: "\<not> pid_comparator k' ?pid w" if lw: "(l, w) \<in> set (pre t)" for l w
  proof (cases w)
    case (Some x)
    have "\<forall>l j. (l, Some j) \<in> set (pre t) \<longrightarrow> k_procs k j \<noteq> None" using cf by (simp add: can_fork_def)
    then obtain q where q: "k_procs k x = Some q" using lw Some by fastforce
    then have "p_pid q \<le> k_last_pid k \<and> x < ?j" using fresh by blast
    then have x: "x \<noteq> ?j" "p_pid q \<noteq> ?pid" by auto
    then have "k_procs k2 x = Some q" using q by (simp add: k2(3))
    then obtain y where "k_procs k' x = Some (q\<lparr>p_next := y\<rparr>)" using same by blast
    then show ?thesis using x Some by (simp add: pid_comparator_def)
  qed (simp add: pid_comparator_def)
  have new: "pid_comparator k' ?pid (Some ?j)" using k'(4) k2(3) c(1) by (simp add: pid_comparator_def)
  obtain l x where "n = Some l" "tree_find (Some (node_of t)) (pid_comparator k' ?pid) h = Some (Some l)" "h_nodes h l = Some x" "n_value x = Some ?j"
    using tree_insert_search [where q = "pid_comparator k' ?pid", OF ok et new _ k2(1)] old by blast
  then have "get_process ?pid k' = Some (Some ?j)"
    by (simp add: get_process_def k'(5,6) k2(4,5) rt)
  moreover have "fork k = Some (k', ?pid)" using k2(2,9) k'(1) by simp
  ultimately show ?thesis
    using k'(2,3,4) k2(3,6) c(1-7) by (intro exI [of _ k'] exI [of _ ?j] exI [of _ c]) simp
qed

section \<open>Exit\<close>

lemma unlink_cell_freed: "unlink_cell p e h = Some h' \<Longrightarrow> h_freed h' = h_freed h"
  by (auto simp: unlink_cell_def Let_def put_node_def put_cell_def free_cell_def split: Option.bind_split_asm option.splits if_splits)

lemma free_nodes_freed:
  assumes "free_nodes_from at h = Some h'"
  shows "h_freed h' = h_freed h"
  using assms
proof (rule free_nodes_from.raw_induct [rotated], goal_cases)
  case (1 rec at h h')
  then show ?case by (auto simp: free_node_def free_cell_def split: sum.splits option.splits Option.bind_split_asm if_splits)
qed

lemma remove_branch_freed:
  assumes "tree_remove_branch node h = Some h'"
  shows "h_freed h' = h_freed h"
proof (cases node)
  case (Some n)
  then obtain x where "h_nodes h n = Some x"
    using assms by (auto simp: tree_remove_branch_def split: Option.bind_split_asm)
  then show ?thesis
    using assms Some by (cases "n_parent x")
      (auto simp: tree_remove_branch_def tree_free_nodes_def dest!: free_nodes_freed unlink_cell_freed
        split: Option.bind_split_asm option.splits)
qed (use assms in \<open>simp add: tree_remove_branch_def\<close>)

text \<open>
  Deleting a process that is a child in the process tree uses it after freeing it:
  \<open>tree_destroy_and_merge\<close> frees the value of the tree's node, which is the process itself, and
  \<open>process_delete\<close> goes on to free its name, its stack and itself.
\<close>

lemma process_delete_uses_freed:
  assumes "k_procs k i = Some p" and "p_tree_entry p = Some e" and "h_nodes (k_tree k) e = Some x"
    and "n_value x = Some i" and "n_parent x = Some y"
  shows "process_delete i k = None"
proof (cases "tree_destroy_and_merge (Some e) ((k_tree k)\<lparr>h_freed := []\<rparr>)")
  case (Some h)
  then have "h_freed h = [i]"
    using assms(3-5) remove_branch_freed by (fastforce simp: tree_destroy_and_merge_def free_value_def)
  then show ?thesis using Some assms(1,2) by (simp add: process_delete_def Let_def)
qed (use assms in \<open>simp add: process_delete_def\<close>)

section \<open>Witnesses\<close>

lemma alloc_stack_total:
  assumes "fr_ok m"
  shows "\<exists>m' stack. alloc_stack m = Some (m', stack)"
proof -
  obtain idx where "mmu_request_frames 9 m = Some idx"
    using request_frames_loop_spec [OF assms, of 9 "lowest_available m"] by (auto simp: mmu_request_frames_def)
  moreover obtain m' where "for_each [1..<10] (\<lambda>i m. mmu_lock_frame (push_bit 12 idx + 0x9000 - 0x1000 * of_nat i) m) m = Some m'"
    using for_each_invariant [where P = fr_ok and s = m, of "[1..<10]" "\<lambda>i m. mmu_lock_frame (push_bit 12 idx + 0x9000 - 0x1000 * of_nat i) m"]
      assms mmu_lock_frame_used by metis
  ultimately show ?thesis by (simp add: alloc_stack_def Let_def)
qed

lemma for_each_skip: "(\<forall>i \<in> set is. f i s = Some s) \<Longrightarrow> for_each is f s = Some s"
  by (induction "is") auto

lemma mmu_clone_empty:
  assumes "fr_ok m" and "low_ok m" and "kmem m = (\<lambda>_. 0)"
  shows "\<exists>m' dir. mmu_clone pml m = Some (m', dir) \<and> fr_ok m'"
proof -
  obtain m1 idx where m1: "mmu_request_frame m = Some (m1, idx)" "fr_ok m1" "kmem m1 = (\<lambda>_. 0)"
    using mmu_request_frame_spec [OF assms(1,2)] assms by (auto simp: fr_ok_def nframes_def)
  obtain m2 where m2: "mmu_lock_frame (push_bit 12 idx) m1 = Some m2" "fr_ok m2" "kmem m2 = (\<lambda>_. 0)"
    using mmu_lock_frame_used [OF m1(2)] m1(3) by force
  have z: "clone_level n below tin tout m = Some m" if "kmem m = (\<lambda>_. 0)" for n below tin tout m
    unfolding clone_level_def by (rule for_each_skip) (simp add: load_entry_def that kload_zero e_present_def)
  have k: "kset (\<lambda>_. 0) a 0 n = (\<lambda>_. 0)" "kcopy (\<lambda>_. 0) a b n = (\<lambda>_. 0)" for a b n
    by (simp_all add: kset_def kcopy_def)
  have "fr_ok (m2\<lparr>kmem := x\<rparr>)" for x using m2(2) by (simp add: fr_ok_def nframes_def)
  then show ?thesis by (simp add: mmu_clone_def m1(1) m2(1,3) k z Let_def)
qed

definition example_process :: "nat \<Rightarrow> int \<Rightarrow> process" where
  "example_process i pid = process_zero\<lparr>p_pid := pid, p_flags := RUNNING, p_tree_entry := Some 0, p_queued := Some i,
     p_regs := Some \<lparr>r15 = 0, r14 = 0, r13 = 0, r12 = 0, r11 = 0, r10 = 0, r9 = 0, r8 = 0, rbp = 0, rdi = 0, rsi = 0,
       rdx = 0, rcx = 0, rbx = 0, rax = 57, int_no = 128, err_code = 0, rip = 0, cs = 0, rflags = 0, rsp = 0, ss = 0\<rparr>,
     p_fds := [Some (Some (fs_node_zero\<lparr>n_name := ''tty''\<rparr>)), Some None, None], p_fd_length := 2\<rparr>"

definition example_kernel :: kernel where
  "example_kernel = \<lparr>k_vfs = example_vfs, k_procs = [5 \<mapsto> example_process 5 1, 6 \<mapsto> example_process 6 2], k_next_addr = 7,
     k_last_pid = 2, k_current = Some 5, k_idle = None, k_queue = Some 6, k_queue_end = Some 6, k_delete = None,
     k_tree = example_tree, k_root = Some 0, k_kernel_stack = 0, k_fresh = None\<rparr>"

lemma example_ring: "ring example_kernel 5 [6]"
  by (simp add: ring_def queue_holds_def ready_def example_kernel_def example_process_def process_zero_def)

lemma example_current: "current example_kernel = Some (5, example_process 5 1)"
  by (simp add: current_def example_kernel_def)

lemma round_robin_witness: "\<exists>k. switches 3 example_kernel = Some k \<and> k_current k = Some 6"
proof -
  have "(5 # [6]) ! (3 mod Suc (length [6 :: nat])) = (6 :: nat)" by code_simp
  then show ?thesis using round_robin [OF example_ring, of 3] by metis
qed

lemma process_dup2_copies_witness:
  "\<exists>k n. process_dup2 0 1 example_kernel = Some (k, 1) \<and> get_process_fd 1 k = Some (Some n) \<and> n_name n = ''tty''"
proof -
  have "get_process_fd 0 example_kernel = Some (Some (fs_node_zero\<lparr>n_name := ''tty''\<rparr>))" "get_process_fd 1 example_kernel = Some None"
    by (simp_all add: get_process_fd_def example_current) (simp_all add: example_process_def process_zero_def mem_load_def)
  then show ?thesis
    using process_dup2_copies [OF example_current, of 0 "fs_node_zero\<lparr>n_name := ''tty''\<rparr>" 1 None]
    by (auto simp: example_process_def copy_node_def process_zero_def fs_node_zero_def)
qed

lemma process_delete_uses_freed_witness:
  "process_delete 6 (example_kernel\<lparr>k_procs := [6 \<mapsto> (example_process 6 2)\<lparr>p_tree_entry := Some 1\<rparr>],
     k_tree := example_tree\<lparr>h_nodes := [0 \<mapsto> \<lparr>n_children = Some 2, n_parent = None, n_value = Some 5\<rparr>,
       1 \<mapsto> \<lparr>n_children = None, n_parent = Some 0, n_value = Some 6\<rparr>],
       h_cells := [2 \<mapsto> \<lparr>c_next = None, c_prev = None, c_value = Some 1\<rparr>]\<rparr>\<rparr>) = None"
  by (rule process_delete_uses_freed [where p = "(example_process 6 2)\<lparr>p_tree_entry := Some 1\<rparr>" and e = 1 and y = 0
        and x = "\<lparr>n_children = None, n_parent = Some 0, n_value = Some 6\<rparr>"])
    simp_all

lemma fork_child_witness:
  "\<exists>k j c. fork (example_kernel\<lparr>k_procs := [5 \<mapsto> (example_process 5 1)\<lparr>p_fds := [Some None]\<rparr>, 6 \<mapsto> example_process 6 2]\<rparr>)
       = Some (k, 3) \<and> get_process 3 k = Some (Some j) \<and> k_procs k j = Some c \<and> map_option rax (p_regs c) = Some 0"
proof -
  let ?p = "(example_process 5 1)\<lparr>p_fds := [Some None]\<rparr>"
  let ?k = "example_kernel\<lparr>k_procs := [5 \<mapsto> ?p, 6 \<mapsto> example_process 6 2]\<rparr>"
  have mm: "k_mmu ?k = t_mmu example_tmpfs" by (simp add: k_mmu_def example_kernel_def example_vfs_def)
  obtain m1 dir m2 stack where m: "mmu_clone (p_directory ?p) (k_mmu ?k) = Some (m1, dir)" "alloc_stack m1 = Some (m2, stack)"
    using mmu_clone_empty [of "t_mmu example_tmpfs" "p_directory ?p"] alloc_stack_total example_tmpfs_mmu mm by metis
  have q: "queue_holds ?k [6]"
    by (simp add: queue_holds_def ready_def example_kernel_def example_process_def process_zero_def)
  have "can_fork ?k 5 ?p (the (p_regs ?p)) (Rose 0 0 (Some 5) []) 0"
    using example_tree_ok by (simp add: can_fork_def current_def example_kernel_def example_process_def process_zero_def)
  from fork_child [OF this q m] show ?thesis by (auto simp: example_kernel_def)
qed

end
