(* ===== verification/Usermem.thy ===== *)
theory Usermem
  imports Paging
begin

text \<open>
  The kernel's accesses to memory of the running process: the walk the processor does from the
  current page directory, in kernel mode and with write protection on (\<open>mmu_init\<close> sets
  \<open>CR0.WP\<close>), and the page fault handler of \<open>kernel/cpu/idt.c\<close>, which copies a shared page and lets
  the access be repeated. An access that faults for any other reason halts the kernel (the handler
  loops for ever) and is \<open>None\<close>. Addresses from the direct map on need no walk.
\<close>

section \<open>One byte\<close>

definition canonical :: "u64 \<Rightarrow> bool" where
  "canonical va \<longleftrightarrow> va < 0x800000000000 \<or> 0xFFFF800000000000 \<le> va"

definition page_byte :: "pagemap_entry \<Rightarrow> u64 \<Rightarrow> u64" where
  "page_byte e va = mmu_from_physical (push_bit 12 (e_page e) OR (va AND 0xFFF))"

definition user_load :: "u64 \<Rightarrow> mmu \<Rightarrow> u8 option" where
  "user_load va m = (if \<not> canonical va then None
     else if HIGH_MAP_REGION \<le> va then Some (kmem m va)
     else let p = mmu_lookup_frame_from (current_pml m) va m; e = load_entry p m
          in if p = 0 \<or> \<not> e_present e then None else Some (kmem m (page_byte e va)))"

text \<open>
  The page fault handler: bit 0 of the error code says that the page is present, bit 1 that the
  access was a write; \<open>True\<close> lets the access be repeated.
\<close>

definition page_fault :: "u64 \<Rightarrow> u64 \<Rightarrow> mmu \<Rightarrow> (mmu \<times> bool) option" where
  "page_fault err faulting_address m =
     (if err AND 0x03 = 0x03
      then do { (m, r) \<leftarrow> mmu_copy_on_write faulting_address m; Some (m, r = 0) }
      else Some (m, False))"

definition put_byte :: "u64 \<Rightarrow> u8 \<Rightarrow> mmu \<Rightarrow> mmu" where
  "put_byte a b m = m\<lparr>kmem := (kmem m)(a := b)\<rparr>"

text \<open>A fault that was handled leaves the page writable, so the access faults once at most.\<close>

definition user_store :: "u64 \<Rightarrow> u8 \<Rightarrow> mmu \<Rightarrow> mmu option" where
  "user_store va b m = (if \<not> canonical va then None
     else if HIGH_MAP_REGION \<le> va then Some (put_byte va b m)
     else let p = mmu_lookup_frame_from (current_pml m) va m; e = load_entry p m
          in if p = 0 \<or> \<not> e_present e then None
             else if e_writable e then Some (put_byte (page_byte e va) b m)
             else do {
               (m, repeat) \<leftarrow> page_fault 0x03 va m;
               let e = load_entry p m;
               if repeat \<and> e_writable e then Some (put_byte (page_byte e va) b m) else None })"

section \<open>Buffers and strings\<close>

definition user_read :: "u64 \<Rightarrow> nat \<Rightarrow> mmu \<Rightarrow> u8 list option" where
  "user_read va n m = those (map (\<lambda>i. user_load (va + of_nat i) m) [0..<n])"

fun user_write :: "u64 \<Rightarrow> u8 list \<Rightarrow> mmu \<Rightarrow> mmu option" where
  "user_write va [] m = Some m"
| "user_write va (b # bs) m = do { m \<leftarrow> user_store va b m; user_write (va + 1) bs m }"

text \<open>The text at an address; a text that never ends is \<open>None\<close>.\<close>

partial_function (option) user_string :: "u64 \<Rightarrow> mmu \<Rightarrow> string option" where
  "user_string va m = do {
     b \<leftarrow> user_load va m;
     if b = 0 then Some [] else do { s \<leftarrow> user_string (va + 1) m; Some (char_of (unat b) # s) } }"

definition le_bytes :: "nat \<Rightarrow> u64 \<Rightarrow> u8 list" where
  "le_bytes n v = map (\<lambda>i. ucast (drop_bit (8 * i) v)) [0..<n]"

definition of_le_bytes :: "u8 list \<Rightarrow> u64" where
  "of_le_bytes bs = foldr (\<lambda>b v. ucast b + push_bit 8 v) bs 0"

definition text_bytes :: "string \<Rightarrow> u8 list" where
  "text_bytes s = map (\<lambda>c. of_nat (of_char c)) s"

definition user_load64 :: "u64 \<Rightarrow> mmu \<Rightarrow> u64 option" where
  "user_load64 va m = map_option of_le_bytes (user_read va 8 m)"

end
