(* ===== verification/Elf.thy ===== *)
theory Elf
  imports Process Usermem
begin

text \<open>
  The program loader, \<open>kernel/lib/elf.c\<close>, and the jump to user space of \<open>kernel/cpu/userspace.c\<close>.
  The file's headers are decoded from the bytes read into local variables; the bytes that a short
  read leaves unset are the unknown \<open>junk\<close> of the stack. A buffer in user memory is read as a
  whole before a driver fills it and written back as a whole, so a buffer of which only the part
  that is never touched is unmapped counts as a fault.
\<close>

section \<open>Headers\<close>

record elf_header =
  e_ident :: "u8 list"
  e_type :: u16
  e_machine :: u16
  e_version :: u32
  e_entry :: u64
  e_phoff :: u64
  e_shoff :: u64
  e_flags :: u32
  e_ehsize :: u16
  e_phentsize :: u16
  e_phnum :: u16
  e_shentsize :: u16
  e_shnum :: u16
  e_shstrndx :: u16

record elf_phdr =
  ph_type :: u32
  ph_flags :: u32
  ph_offset :: u64
  ph_vaddr :: u64
  ph_paddr :: u64
  ph_filesz :: u64
  ph_memsz :: u64
  ph_align :: u64

text \<open>The field of \<open>n\<close> bytes at an offset.\<close>

definition field :: "u8 list \<Rightarrow> nat \<Rightarrow> nat \<Rightarrow> u64" where
  "field bs off n = of_le_bytes (take n (drop off bs))"

definition elf_header_of :: "u8 list \<Rightarrow> elf_header" where
  "elf_header_of bs = \<lparr>e_ident = take 16 bs, e_type = ucast (field bs 16 2), e_machine = ucast (field bs 18 2),
     e_version = ucast (field bs 20 4), e_entry = field bs 24 8, e_phoff = field bs 32 8, e_shoff = field bs 40 8,
     e_flags = ucast (field bs 48 4), e_ehsize = ucast (field bs 52 2), e_phentsize = ucast (field bs 54 2),
     e_phnum = ucast (field bs 56 2), e_shentsize = ucast (field bs 58 2), e_shnum = ucast (field bs 60 2),
     e_shstrndx = ucast (field bs 62 2)\<rparr>"

definition elf_phdr_of :: "u8 list \<Rightarrow> elf_phdr" where
  "elf_phdr_of bs = \<lparr>ph_type = ucast (field bs 0 4), ph_flags = ucast (field bs 4 4), ph_offset = field bs 8 8,
     ph_vaddr = field bs 16 8, ph_paddr = field bs 24 8, ph_filesz = field bs 32 8, ph_memsz = field bs 40 8,
     ph_align = field bs 48 8\<rparr>"

abbreviation (input) PT_LOAD :: u32 where "PT_LOAD \<equiv> 1"
abbreviation (input) ET_EXEC :: u16 where "ET_EXEC \<equiv> 2"

text \<open>What uninitialised memory holds, and the address of a driver's object.\<close>

record environment =
  junk :: "nat \<Rightarrow> u8"
  device_address :: "device \<Rightarrow> u64"

section \<open>Reading and mapping\<close>

definition k_read_fs :: "fs_node \<Rightarrow> u64 \<Rightarrow> u8 list \<Rightarrow> kernel \<Rightarrow> (kernel \<times> u8 list \<times> nat) option" where
  "k_read_fs node offset buffer k = do {
     (v, buffer, out) \<leftarrow> read_fs node (unat offset) (length buffer) buffer (k_vfs k);
     Some (k\<lparr>k_vfs := v\<rparr>, buffer, out) }"

text \<open>\<open>read_fs\<close> into user memory.\<close>

definition user_read_fs :: "fs_node \<Rightarrow> u64 \<Rightarrow> u64 \<Rightarrow> u64 \<Rightarrow> kernel \<Rightarrow> (kernel \<times> nat) option" where
  "user_read_fs node offset len ptr k = do {
     buffer \<leftarrow> user_read ptr (unat len) (k_mmu k);
     (k, buffer, out) \<leftarrow> k_read_fs node offset buffer k;
     m \<leftarrow> user_write ptr buffer (k_mmu k);
     Some (put_mmu m k, out) }"

text \<open>The loops that map writable pages for a range of addresses; an entry that does not exist is a null pointer.\<close>

definition map_user :: "u64 \<Rightarrow> mmu \<Rightarrow> mmu option" where
  "map_user va m = do {
     (m, page) \<leftarrow> mmu_lookup_frame va True m;
     if page = 0 then None else mmu_allocate_frame_ex page MMU_FLAG_WRITABLE m }"

partial_function (option) map_range :: "u64 \<Rightarrow> u64 \<Rightarrow> mmu \<Rightarrow> mmu option" where
  "map_range j limit m = (if j < limit
     then do { m \<leftarrow> map_user j m; map_range (j + 0x1000) limit m }
     else Some m)"

definition load_segment :: "fs_node \<Rightarrow> elf_phdr \<Rightarrow> kernel \<Rightarrow> kernel option" where
  "load_segment file ph k = do {
     m \<leftarrow> map_range (ph_vaddr ph) (ph_vaddr ph + ph_memsz ph) (k_mmu k);
     (k, _) \<leftarrow> user_read_fs file (ph_offset ph) (ph_filesz ph) (ph_vaddr ph) (put_mmu m k);
     m \<leftarrow> user_write (ph_vaddr ph + ph_filesz ph) (replicate (unat (ph_memsz ph) - unat (ph_filesz ph)) 0) (k_mmu k);
     Some (put_mmu m k) }"

definition load_segments :: "environment \<Rightarrow> fs_node \<Rightarrow> elf_header \<Rightarrow> kernel \<Rightarrow> (kernel \<times> u64) option" where
  "load_segments env file header k = for_each [0..<unat (e_phnum header)] (\<lambda>i (k, heap_base). do {
     (k, bytes, _) \<leftarrow> k_read_fs file (e_phoff header + of_nat (unat (e_phentsize header) * i)) (map (junk env) [0..<56]) k;
     let ph = elf_phdr_of bytes;
     if ph_type ph = PT_LOAD then do {
       k \<leftarrow> load_segment file ph k;
       Some (k, if ph_vaddr ph + ph_memsz ph > heap_base then ph_vaddr ph + ph_memsz ph else heap_base) }
     else Some (k, heap_base) }) (k, 0)"

section \<open>The stack of the new program\<close>

text \<open>
  \<open>USERSTACK_PUSH\<close> for a value of \<open>n\<close> bytes; moving down one by one to a multiple of the power
  of two \<open>n\<close> clears the low bits.
\<close>

definition push_value :: "nat \<Rightarrow> u64 \<Rightarrow> u64 \<times> mmu \<Rightarrow> (u64 \<times> mmu) option" where
  "push_value n v st = (let sp = (fst st - of_nat n) AND NOT (of_nat n - 1) in
     do { m \<leftarrow> user_write sp (le_bytes n v) (snd st); Some (sp, m) })"

text \<open>\<open>USERSTACK_PUSHSTR\<close>: the bytes of the text with its NUL, from the last to the first.\<close>

definition push_string :: "string \<Rightarrow> u64 \<times> mmu \<Rightarrow> (u64 \<times> mmu) option" where
  "push_string s = for_each (rev (s @ [CHR 0x00])) (\<lambda>c. push_value 1 (of_nat (of_char c)))"

fun push_strings :: "string list \<Rightarrow> u64 \<times> mmu \<Rightarrow> (u64 list \<times> u64 \<times> mmu) option" where
  "push_strings [] st = Some ([], st)"
| "push_strings (s # strs) st = do {
     st \<leftarrow> push_string s st;
     (ptrs, st') \<leftarrow> push_strings strs st;
     Some (fst st # ptrs, st') }"

definition push_values :: "u64 list \<Rightarrow> u64 \<times> mmu \<Rightarrow> (u64 \<times> mmu) option" where
  "push_values vs = for_each vs (push_value 8)"

definition push_arguments :: "u64 \<Rightarrow> string list \<Rightarrow> string list \<Rightarrow> u64 \<times> mmu \<Rightarrow> (u64 \<times> u64 \<times> u64 \<times> mmu) option" where
  "push_arguments uid argv envp st = do {
     (argv_ptrs, st) \<leftarrow> push_strings argv st;
     (envp_ptrs, st) \<leftarrow> push_strings envp st;
     st \<leftarrow> push_values [0, uid, 11, uid, 12, 0] st;
     st \<leftarrow> push_values (0 # rev envp_ptrs) st;
     let user_envp = fst st;
     st \<leftarrow> push_values (0 # rev argv_ptrs) st;
     let user_argv = fst st;
     (sp, m) \<leftarrow> push_value 8 (of_nat (length argv)) st;
     Some (user_argv, user_envp, sp, m) }"

section \<open>Executing a file\<close>

text \<open>The registers \<open>enter_userspace\<close> hands to the program.\<close>

record user_entry =
  u_rip :: u64
  u_rsp :: u64
  u_cs :: u64
  u_ss :: u64
  u_rflags :: u64
  u_rdi :: u64
  u_rsi :: u64
  u_rdx :: u64

definition enter_userspace :: "u64 \<Rightarrow> nat \<Rightarrow> u64 \<Rightarrow> u64 \<Rightarrow> u64 \<Rightarrow> user_entry" where
  "enter_userspace entrypoint argc argv envp stack =
     \<lparr>u_rip = entrypoint, u_rsp = stack, u_cs = 0x18 OR 0x03, u_ss = 0x20 OR 0x03,
      u_rflags = push_bit 21 1 OR push_bit 9 1, u_rdi = of_nat argc, u_rsi = argv, u_rdx = envp\<rparr>"

text \<open>Tests the identification; 0 is a file that can be loaded, else the line that returns.\<close>

definition elf_valid :: "elf_header \<Rightarrow> nat" where
  "elf_valid h = (if take 4 (e_ident h) \<noteq> [0x7F, 0x45, 0x4C, 0x46] then 1
     else if e_ident h ! 4 \<noteq> 2 then 2 else if e_type h \<noteq> ET_EXEC then 3 else 0)"

text \<open>A result of the call, or the program that runs instead.\<close>

definition elf_exec :: "environment \<Rightarrow> fs_node \<Rightarrow> string list \<Rightarrow> string list \<Rightarrow> kernel \<Rightarrow> (kernel \<times> (int + user_entry)) option" where
  "elf_exec env file argv envp k = do {
     (k, bytes, _) \<leftarrow> k_read_fs file 0 (map (junk env) [0..<64]) k;
     let header = elf_header_of bytes;
     if elf_valid header = 1 then do { k \<leftarrow> k_close_fs file k; Some (k, Inl 0) }
     else if elf_valid header \<noteq> 0 then Some (k, Inl 0)
     else do {
       (i, p) \<leftarrow> current k;
       let m = mmu_set_directory 0 (k_mmu k);
       (m, directory) \<leftarrow> mmu_clone 0 m;
       let m = mmu_set_directory directory m;
       m \<leftarrow> mmu_free (p_directory p) m;
       let k = put_mmu m (put_proc i (p\<lparr>p_directory := directory\<rparr>) k);
       (k, heap_base) \<leftarrow> load_segments env file header k;
       (i, p) \<leftarrow> current k;
       let p = p\<lparr>p_image := (p_image p)\<lparr>img_heap := (heap_base + 0xFFF) AND NOT 0xFFF, img_entry := e_entry header\<rparr>\<rparr>;
       k \<leftarrow> k_close_fs file (put_proc i p k);
       m \<leftarrow> map_range (0x800000000000 - 512 * 0x400) 0x800000000000 (k_mmu k);
       let p = p\<lparr>p_image := (p_image p)\<lparr>img_userstack := 0x800000000000 - 16 * 0x400\<rparr>\<rparr>;
       let k = put_proc i p k;
       (user_argv, user_envp, sp, m) \<leftarrow> push_arguments (ucast (p_uid p)) argv envp (0x800000000000, m);
       let k = (put_mmu m k)\<lparr>k_kernel_stack := img_stack (p_image p)\<rparr>;
       Some (k, Inr (enter_userspace (e_entry header) (length argv) user_argv user_envp sp)) } }"

end
