(* ===== verification/Syscall.thy ===== *)
theory Syscall
  imports Elf
begin

text \<open>
  The system calls, \<open>kernel/sys/syscall.c\<close>. Arguments are the 64-bit registers of the caller; a
  parameter of type \<open>int\<close> takes the low half. User pointers are followed with \<open>Usermem\<close>, and what
  \<open>validate_ptr\<close> returns is ignored, as in every caller of the code. A call either returns a value
  or gives the processor to another process; a call that waits is resumed by \<open>waitpid_step\<close>.
\<close>

section \<open>Helpers\<close>

definition int_arg :: "u64 \<Rightarrow> int" where "int_arg x = sint (ucast x :: u32)"

abbreviation (input) O_WRONLY :: u64 where "O_WRONLY \<equiv> 0x0001"
abbreviation (input) O_RDWR :: u64 where "O_RDWR \<equiv> 0x0002"
abbreviation (input) O_APPEND :: u64 where "O_APPEND \<equiv> 0x0008"
abbreviation (input) O_CREAT :: u64 where "O_CREAT \<equiv> 0x0200"
abbreviation (input) O_TRUNC :: u64 where "O_TRUNC \<equiv> 0x0400"
abbreviation (input) O_EXCL :: u64 where "O_EXCL \<equiv> 0x0800"
abbreviation (input) O_DIRECTORY :: u64 where "O_DIRECTORY \<equiv> 0x8000"

definition on_vfs :: "(vfs \<Rightarrow> (vfs \<times> 'a) option) \<Rightarrow> kernel \<Rightarrow> (kernel \<times> 'a) option" where
  "on_vfs f k = map_option (\<lambda>(v, x). (k\<lparr>k_vfs := v\<rparr>, x)) (f (k_vfs k))"

definition current_cred :: "kernel \<Rightarrow> cred option" where
  "current_cred k = map_option (\<lambda>(_, p). cred_of p) (current k)"

definition on_mmu :: "(mmu \<Rightarrow> (mmu \<times> 'a) option) \<Rightarrow> kernel \<Rightarrow> (kernel \<times> 'a) option" where
  "on_mmu f k = map_option (\<lambda>(m, x). (put_mmu m k, x)) (f (k_mmu k))"

definition store_user :: "u64 \<Rightarrow> u8 list \<Rightarrow> kernel \<Rightarrow> kernel option" where
  "store_user ptr bs k = map_option (\<lambda>m. put_mmu m k) (user_write ptr bs (k_mmu k))"

definition validate_user :: "u64 \<Rightarrow> u64 \<Rightarrow> bool \<Rightarrow> bool \<Rightarrow> kernel \<Rightarrow> (kernel \<times> int) option" where
  "validate_user ptr len null wr k = do {
     (_, p) \<leftarrow> current k;
     on_mmu (mmu_validate_user (p_directory p) ptr len null wr) k }"

text \<open>\<open>validate_ptr\<close> ends without a value for a pointer that passes its tests.\<close>

definition validate_ptr :: "u64 \<Rightarrow> kernel \<Rightarrow> (kernel \<times> int option) option" where
  "validate_ptr ptr k = (if ptr = 0 then Some (k, Some 0)
     else do {
       (_, p) \<leftarrow> current k;
       if ptr \<le> img_entry (p_image p) \<or> 0x8000000000000000 \<le> ptr then Some (k, Some 1)
       else do {
         (k, valid) \<leftarrow> validate_user ptr 1 False False k;
         Some (k, if valid = 0 then Some 1 else None) } })"

definition update_fd :: "int \<Rightarrow> (fs_node \<Rightarrow> fs_node) \<Rightarrow> fs_node \<Rightarrow> kernel \<Rightarrow> kernel option" where
  "update_fd fd f node k = set_process_fd fd (Some (f node)) k"

section \<open>Processes and memory\<close>

definition sys_exit :: "u64 \<Rightarrow> kernel \<Rightarrow> kernel option" where
  "sys_exit code k = process_exit (push_bit 8 (ucast (code AND 0xFF))) k"

definition sys_fork :: "kernel \<Rightarrow> (kernel \<times> int) option" where
  "sys_fork k = fork k"

definition sys_getpid :: "kernel \<Rightarrow> (kernel \<times> int) option" where
  "sys_getpid k = map_option (\<lambda>(_, p). (k, p_pid p)) (current k)"

definition sys_sbrk :: "u64 \<Rightarrow> kernel \<Rightarrow> (kernel \<times> int) option" where
  "sys_sbrk sz k = (if sz AND 0xFFF \<noteq> 0 then Some (k, - EINVAL)
     else do {
       (i, p) \<leftarrow> current k;
       let out = img_heap (p_image p);
       m \<leftarrow> map_range out (out + sz) (k_mmu k);
       let p = p\<lparr>p_image := (p_image p)\<lparr>img_heap := out + sz\<rparr>\<rparr>;
       Some (put_proc i p (put_mmu m k), sint out) })"

definition sys_umask :: "u64 \<Rightarrow> kernel \<Rightarrow> (kernel \<times> int) option" where
  "sys_umask mode k = do {
     (i, p) \<leftarrow> current k;
     Some (put_proc i (p\<lparr>p_mask := ucast (mode AND 0x1FF)\<rparr>) k, 0) }"

definition sys_uname :: "u64 \<Rightarrow> kernel \<Rightarrow> (kernel \<times> int) option" where
  "sys_uname name k = do {
     (k, _) \<leftarrow> validate_ptr name k;
     if name = 0 then Some (k, - EFAULT)
     else do {
       k \<leftarrow> for_each [(0, ''voxel''), (256, ''localhost''), (512, [CHR 0x22] @ ''Unsought Origin'' @ [CHR 0x22]),
              (768, ''Voxel 1.0.0-dev''), (1024, ''x86_64'')] (\<lambda>(off, s). store_user (name + off) (text_bytes s @ [0])) k;
       Some (k, 0) } }"

section \<open>Open files\<close>

definition sys_read :: "u64 \<Rightarrow> u64 \<Rightarrow> u64 \<Rightarrow> kernel \<Rightarrow> (kernel \<times> int) option" where
  "sys_read fd ptr len k = do {
     found \<leftarrow> get_process_fd (int_arg fd) k;
     (case found of None \<Rightarrow> Some (k, - EBADF)
      | Some node \<Rightarrow> do {
          (k, valid) \<leftarrow> validate_user ptr len True True k;
          if valid = 0 then Some (k, - EINVAL)
          else if len \<noteq> 0 \<and> ptr = 0 then Some (k, - EFAULT)
          else if n_user_mode node AND 0x01 = 0 then Some (k, - EACCES)
          else do {
            (k, n) \<leftarrow> user_read_fs node (of_nat (n_user_offset node)) len ptr k;
            let out = sint (of_nat n :: u64);
            k \<leftarrow> (if out > 0
                 then update_fd (int_arg fd) (\<lambda>node. node\<lparr>n_user_offset := add64 (n_user_offset node) n\<rparr>) node k
                 else Some k);
            Some (k, out) } }) }"

definition sys_write :: "u64 \<Rightarrow> u64 \<Rightarrow> u64 \<Rightarrow> kernel \<Rightarrow> (kernel \<times> int) option" where
  "sys_write fd ptr len k = do {
     found \<leftarrow> get_process_fd (int_arg fd) k;
     (case found of None \<Rightarrow> Some (k, - EBADF)
      | Some node \<Rightarrow> do {
          (k, valid) \<leftarrow> validate_user ptr len True False k;
          if valid = 0 then Some (k, - EINVAL)
          else if len \<noteq> 0 \<and> ptr = 0 then Some (k, - EFAULT)
          else if n_user_mode node AND 0x02 = 0 then Some (k, - EACCES)
          else do {
            buffer \<leftarrow> user_read ptr (unat len) (k_mmu k);
            (k, n) \<leftarrow> on_vfs (write_fs node (n_user_offset node) (unat len) buffer) k;
            let out = sint (of_nat n :: u64);
            k \<leftarrow> (if out > 0
                 then update_fd (int_arg fd) (\<lambda>node. node\<lparr>n_user_offset := add64 (n_user_offset node) n\<rparr>) node k
                 else Some k);
            Some (k, out) } }) }"

text \<open>
  \<open>sys_open\<close> in three parts: the tests on a file that exists, with the error and whether the node
  is closed (it is always freed); the access mode; and what follows once the file may have been
  made.
\<close>

definition open_wants_read :: "u64 \<Rightarrow> bool" where
  "open_wants_read flags \<longleftrightarrow> flags AND O_WRONLY = 0 \<or> flags AND O_RDWR \<noteq> 0"

definition open_wants_write :: "u64 \<Rightarrow> bool" where
  "open_wants_write flags \<longleftrightarrow> flags AND O_RDWR \<noteq> 0 \<or> flags AND O_WRONLY \<noteq> 0"

definition access_bit :: "u64 \<Rightarrow> u32" where
  "access_bit flags = (if open_wants_read flags then 0x01 else 0) OR (if open_wants_write flags then 0x02 else 0)"

definition open_refused :: "cred \<Rightarrow> fs_node \<Rightarrow> u64 \<Rightarrow> (int \<times> bool) option" where
  "open_refused c node flags =
     (if flags AND O_CREAT \<noteq> 0 \<and> flags AND O_EXCL \<noteq> 0 then Some (- EEXIST, True)
      else if open_wants_read flags \<and> \<not> check_permission c node 0x04 then Some (- EACCES, True)
      else if open_wants_write flags \<and> \<not> check_permission c node 0x02 then Some (- EACCES, True)
      else if open_wants_write flags \<and> n_flags node AND FS_DIRECTORY \<noteq> 0 then Some (- EISDIR, False)
      else None)"

definition leave_open :: "bool \<Rightarrow> fs_node \<Rightarrow> int \<Rightarrow> kernel \<Rightarrow> (kernel \<times> int) option" where
  "leave_open closes node err k = do {
     k \<leftarrow> (if closes then k_close_fs node k else Some k);
     Some (k, err) }"

definition open_finish :: "fs_node option \<Rightarrow> u64 \<Rightarrow> kernel \<Rightarrow> (kernel \<times> int) option" where
  "open_finish found flags k = (case found of None \<Rightarrow> Some (k, - ENOTDIR)
     | Some node \<Rightarrow>
       if flags AND O_DIRECTORY \<noteq> 0 \<and> n_flags node AND FS_DIRECTORY = 0 then leave_open False node (- ENOTDIR) k
       else if flags AND O_TRUNC \<noteq> 0 \<and> access_bit flags AND 0x02 = 0 then leave_open True node (- EINVAL) k
       else do {
         (k, _) \<leftarrow> (if flags AND O_TRUNC \<noteq> 0 then on_vfs (truncate_fs node) k else Some (k, 0));
         if flags AND O_CREAT \<noteq> 0 \<and> n_flags node AND FS_DIRECTORY \<noteq> 0 then leave_open True node (- EISDIR) k
         else do {
           (k, fd) \<leftarrow> append_process_fd node k;
           k \<leftarrow> update_fd fd (\<lambda>node. node\<lparr>n_user_mode := access_bit flags,
                   n_user_offset := (if flags AND O_APPEND \<noteq> 0 then unat (n_length node) else 0)\<rparr>) node k;
           Some (k, fd) } })"

definition sys_open :: "u64 \<Rightarrow> u64 \<Rightarrow> u64 \<Rightarrow> kernel \<Rightarrow> (kernel \<times> int) option" where
  "sys_open file flags mode k = do {
     (k, _) \<leftarrow> validate_ptr file k;
     if file = 0 then Some (k, - EFAULT)
     else do {
       name \<leftarrow> user_string file (k_mmu k);
       c \<leftarrow> current_cred k;
       (k, found) \<leftarrow> on_vfs (kopen name (ucast flags)) k;
       (case found of
          Some node \<Rightarrow>
            (case open_refused c node flags of
               Some (err, closes) \<Rightarrow> leave_open closes node err k
             | None \<Rightarrow> open_finish (Some node) flags k)
        | None \<Rightarrow>
            if flags AND O_CREAT \<noteq> 0 then do {
              (k, result) \<leftarrow> on_vfs (create_file c name (ucast mode)) k;
              if result \<noteq> 0 then Some (k, result)
              else do {
                (k, found) \<leftarrow> on_vfs (kopen name (ucast flags)) k;
                open_finish found flags k } }
            else open_finish None flags k) } }"

text \<open>The node is looked up by the \<open>int\<close>, its slot cleared by the \<open>long\<close>.\<close>

definition sys_close :: "u64 \<Rightarrow> kernel \<Rightarrow> (kernel \<times> int) option" where
  "sys_close fd k = do {
     found \<leftarrow> get_process_fd (int_arg fd) k;
     (case found of None \<Rightarrow> Some (k, - EBADF)
      | Some node \<Rightarrow> do {
          k \<leftarrow> k_close_fs node k;
          k \<leftarrow> (if sint fd < 0 then None else set_process_fd (sint fd) None k);
          Some (k, 0) }) }"

definition sys_seek :: "u64 \<Rightarrow> u64 \<Rightarrow> u64 \<Rightarrow> kernel \<Rightarrow> (kernel \<times> int) option" where
  "sys_seek fd offset whence k = do {
     found \<leftarrow> get_process_fd (int_arg fd) k;
     (case found of None \<Rightarrow> Some (k, - EBADF)
      | Some node \<Rightarrow>
          if n_flags node AND (FS_PIPE OR FS_CHARDEVICE) \<noteq> 0 then Some (k, - ESPIPE)
          else let target = (if whence = 0 then Some (unat offset)
                             else if whence = 1 then Some (add64 (n_user_offset node) (unat offset))
                             else if whence = 2 then Some (add64 (unat (n_length node)) (unat offset))
                             else None)
          in (case target of None \<Rightarrow> Some (k, - EINVAL)
              | Some t \<Rightarrow> do {
                  k \<leftarrow> update_fd (int_arg fd) (\<lambda>node. node\<lparr>n_user_offset := t\<rparr>) node k;
                  Some (k, sint (of_nat t :: u64)) })) }"

definition sys_dup2 :: "u64 \<Rightarrow> u64 \<Rightarrow> kernel \<Rightarrow> (kernel \<times> int) option" where
  "sys_dup2 from_fd to_fd k = process_dup2 (int_arg from_fd) (int_arg to_fd) k"

definition sys_ioctl :: "u64 \<Rightarrow> u64 \<Rightarrow> u64 \<Rightarrow> kernel \<Rightarrow> (kernel \<times> int) option" where
  "sys_ioctl fd cmd arg k = do {
     found \<leftarrow> get_process_fd (int_arg fd) k;
     (case found of None \<Rightarrow> Some (k, - EBADF)
      | Some node \<Rightarrow> do {
          (k, _) \<leftarrow> validate_ptr arg k;
          r \<leftarrow> ioctl_fs node (unat cmd);
          Some (k, r) }) }"

section \<open>Names and attributes\<close>

definition stat_flags :: "u32 \<Rightarrow> u32" where
  "stat_flags f = (if f AND FS_FILE \<noteq> 0 then 0x8000 else 0) OR (if f AND FS_DIRECTORY \<noteq> 0 then 0x4000 else 0)
     OR (if f AND FS_CHARDEVICE \<noteq> 0 then 0x2000 else 0) OR (if f AND FS_BLOCKDEVICE \<noteq> 0 then 0x1000 else 0)
     OR (if f AND FS_SYMLINK \<noteq> 0 then 0xA000 else 0)"

text \<open>
  \<open>_stat\<close> fills the structure field by field: offset, width and value. The variable \<open>flags\<close> starts
  with whatever the stack holds; \<open>st_blocks\<close> is not written.
\<close>

definition stat_fields :: "environment \<Rightarrow> fs_node \<Rightarrow> (u64 \<times> nat \<times> u64) list" where
  "stat_fields env node = (let flags = ucast (field (map (junk env) [0..<4]) 0 4) OR stat_flags (n_flags node) in
     [(0, 4, drop_bit 8 (device_address env (n_device node) AND 0xFFFF0) AND 0xFFFF), (4, 4, ucast (n_inode node)),
      (8, 4, ucast (n_mask node OR flags)), (12, 2, ucast (n_nlink node)), (16, 4, ucast (n_uid node)),
      (20, 4, ucast (n_gid node)), (24, 4, 0), (32, 8, ucast (n_length node)), (40, 8, 0), (48, 8, 0), (56, 8, 0),
      (64, 8, 512)])"

definition stat_node :: "environment \<Rightarrow> fs_node option \<Rightarrow> u64 \<Rightarrow> kernel \<Rightarrow> (kernel \<times> int) option" where
  "stat_node env found st k = (case found of None \<Rightarrow> Some (k, - ENOENT)
     | Some node \<Rightarrow> do {
         k \<leftarrow> for_each (stat_fields env node) (\<lambda>(off, n, v). store_user (st + off) (le_bytes n v)) k;
         Some (k, 0) })"

definition sys_stat :: "environment \<Rightarrow> u64 \<Rightarrow> u64 \<Rightarrow> kernel \<Rightarrow> (kernel \<times> int) option" where
  "sys_stat env fd ptr k = do {
     found \<leftarrow> get_process_fd (int_arg fd) k;
     (case found of None \<Rightarrow> Some (k, - EBADF)
      | Some node \<Rightarrow> do {
          (k, _) \<leftarrow> validate_ptr ptr k;
          if ptr = 0 then Some (k, - EFAULT) else stat_node env (Some node) ptr k }) }"

definition sys_statf :: "environment \<Rightarrow> u64 \<Rightarrow> u64 \<Rightarrow> kernel \<Rightarrow> (kernel \<times> int) option" where
  "sys_statf env path ptr k = do {
     (k, _) \<leftarrow> validate_ptr path k;
     (k, _) \<leftarrow> validate_ptr ptr k;
     if path = 0 \<or> ptr = 0 then Some (k, - EFAULT)
     else do {
       name \<leftarrow> user_string path (k_mmu k);
       (k, found) \<leftarrow> on_vfs (kopen name 0) k;
       (k, r) \<leftarrow> stat_node env found ptr k;
       (case found of None \<Rightarrow> Some (k, r) | Some node \<Rightarrow> leave_open True node r k) } }"

definition sys_lstat :: "environment \<Rightarrow> u64 \<Rightarrow> u64 \<Rightarrow> kernel \<Rightarrow> (kernel \<times> int) option" where
  "sys_lstat env path ptr k = do {
     (k, _) \<leftarrow> validate_ptr path k;
     (k, _) \<leftarrow> validate_ptr ptr k;
     if path = 0 \<or> ptr = 0 then Some (k, - EFAULT)
     else do {
       name \<leftarrow> user_string path (k_mmu k);
       (k, found) \<leftarrow> on_vfs (kopen name 0) k;
       (k, r) \<leftarrow> stat_node env found ptr k;
       (case found of None \<Rightarrow> Some (k, r) | Some node \<Rightarrow> leave_open True node r k) } }"

text \<open>A directory entry is copied with all 256 bytes of its name; those behind the NUL are not set.\<close>

definition dirent_bytes :: "environment \<Rightarrow> dirent \<Rightarrow> u8 list" where
  "dirent_bytes env d = le_bytes 4 (ucast (d_ino d)) @ text_bytes (d_name d) @ [0]
     @ map (junk env) [Suc (length (d_name d))..<256]"

definition sys_readdir :: "environment \<Rightarrow> u64 \<Rightarrow> u64 \<Rightarrow> u64 \<Rightarrow> kernel \<Rightarrow> (kernel \<times> int) option" where
  "sys_readdir env fd index ptr k = do {
     found \<leftarrow> get_process_fd (int_arg fd) k;
     (case found of None \<Rightarrow> Some (k, - EBADF)
      | Some node \<Rightarrow> do {
          (k, _) \<leftarrow> validate_ptr ptr k;
          if ptr = 0 then Some (k, - EFAULT)
          else do {
            dirent \<leftarrow> readdir_fs node (unat index) (k_vfs k);
            (case dirent of None \<Rightarrow> Some (k, 0)
             | Some d \<Rightarrow> do { k \<leftarrow> store_user ptr (dirent_bytes env d) k; Some (k, 1) }) } }) }"

text \<open>What the calls on one path name share.\<close>

definition with_path :: "u64 \<Rightarrow> (cred \<Rightarrow> string \<Rightarrow> kernel \<Rightarrow> (kernel \<times> int) option) \<Rightarrow> kernel \<Rightarrow> (kernel \<times> int) option" where
  "with_path path body k = do {
     (k, _) \<leftarrow> validate_ptr path k;
     if path = 0 then Some (k, - EFAULT)
     else do {
       name \<leftarrow> user_string path (k_mmu k);
       c \<leftarrow> current_cred k;
       body c name k } }"

definition sys_mkdir :: "u64 \<Rightarrow> u64 \<Rightarrow> kernel \<Rightarrow> (kernel \<times> int) option" where
  "sys_mkdir path mode = with_path path (\<lambda>c name. on_vfs (mkdir c name (ucast mode)))"

definition sys_access :: "u64 \<Rightarrow> u64 \<Rightarrow> kernel \<Rightarrow> (kernel \<times> int) option" where
  "sys_access path flags = with_path path (\<lambda>c name k. do {
     (k, found) \<leftarrow> on_vfs (kopen name 0) k;
     (case found of None \<Rightarrow> Some (k, - ENOENT) | Some node \<Rightarrow> leave_open True node 0 k) })"

definition sys_chmod :: "u64 \<Rightarrow> u64 \<Rightarrow> kernel \<Rightarrow> (kernel \<times> int) option" where
  "sys_chmod path mode = with_path path (\<lambda>c name k. do {
     (k, found) \<leftarrow> on_vfs (kopen name 0) k;
     (case found of None \<Rightarrow> Some (k, - ENOENT)
      | Some node \<Rightarrow>
          if c_uid c \<noteq> 0 \<and> c_uid c \<noteq> n_uid node then leave_open True node (- EACCES) k
          else do {
            (k, r) \<leftarrow> on_vfs (chmod_fs node (ucast mode)) k;
            leave_open True node r k }) })"

definition sys_chown :: "u64 \<Rightarrow> u64 \<Rightarrow> u64 \<Rightarrow> kernel \<Rightarrow> (kernel \<times> int) option" where
  "sys_chown path uid gid = with_path path (\<lambda>c name k. do {
     (k, found) \<leftarrow> on_vfs (kopen name 0) k;
     (case found of None \<Rightarrow> Some (k, - ENOENT)
      | Some node \<Rightarrow>
          if c_uid c \<noteq> 0 \<and> uid \<noteq> - 1 then leave_open True node (- EACCES) k
          else if c_uid c \<noteq> 0 \<and> gid \<noteq> - 1 \<and> (c_uid c \<noteq> n_uid node \<or> c_gid c \<noteq> n_gid node)
          then leave_open True node (- EACCES) k
          else do {
            (k, r) \<leftarrow> on_vfs (chown_fs node (ucast uid) (ucast gid)) k;
            leave_open True node r k }) })"

definition sys_unlink :: "u64 \<Rightarrow> kernel \<Rightarrow> (kernel \<times> int) option" where
  "sys_unlink path = with_path path (\<lambda>c name. on_vfs (unlink c name))"

definition sys_symlink :: "u64 \<Rightarrow> u64 \<Rightarrow> kernel \<Rightarrow> (kernel \<times> int) option" where
  "sys_symlink target name k = do {
     (k, _) \<leftarrow> validate_ptr target k;
     (k, _) \<leftarrow> validate_ptr name k;
     if target = 0 \<or> name = 0 then Some (k, - EFAULT)
     else do {
       target \<leftarrow> user_string target (k_mmu k);
       name \<leftarrow> user_string name (k_mmu k);
       c \<leftarrow> current_cred k;
       on_vfs (symlink c target name) k } }"

text \<open>The path is not tested for null here.\<close>

definition sys_readlink :: "u64 \<Rightarrow> u64 \<Rightarrow> u64 \<Rightarrow> kernel \<Rightarrow> (kernel \<times> int) option" where
  "sys_readlink path ptr len k = do {
     (k, _) \<leftarrow> validate_ptr path k;
     (k, valid) \<leftarrow> validate_user ptr len False False k;
     if valid = 0 then Some (k, - EFAULT)
     else do {
       name \<leftarrow> user_string path (k_mmu k);
       c \<leftarrow> current_cred k;
       (k, found) \<leftarrow> on_vfs (kopen name 0) k;
       (case found of None \<Rightarrow> Some (k, - ENOENT)
        | Some node \<Rightarrow> do {
            buffer \<leftarrow> user_read ptr (unat len) (k_mmu k);
            (text, n) \<leftarrow> readlink_fs c node (map (\<lambda>b. char_of (unat b)) buffer) (unat len) (k_vfs k);
            k \<leftarrow> store_user ptr (text_bytes text) k;
            leave_open True node (sint (of_nat n :: u64)) k }) } }"

section \<open>Programs and children\<close>

text \<open>A null-terminated array of pointers.\<close>

partial_function (option) user_pointers :: "u64 \<Rightarrow> mmu \<Rightarrow> u64 list option" where
  "user_pointers va m = do {
     p \<leftarrow> user_load64 va m;
     if p = 0 then Some [] else do { ps \<leftarrow> user_pointers (va + 8) m; Some (p # ps) } }"

fun user_strings :: "u64 list \<Rightarrow> mmu \<Rightarrow> string list option" where
  "user_strings [] m = Some []"
| "user_strings (p # ps) m = do { s \<leftarrow> user_string p m; strs \<leftarrow> user_strings ps m; Some (s # strs) }"

definition validate_ptrs :: "u64 list \<Rightarrow> kernel \<Rightarrow> kernel option" where
  "validate_ptrs ps = for_each ps (\<lambda>p k. map_option fst (validate_ptr p k))"

definition sys_execve :: "environment \<Rightarrow> u64 \<Rightarrow> u64 \<Rightarrow> u64 \<Rightarrow> kernel \<Rightarrow> (kernel \<times> (int + user_entry)) option" where
  "sys_execve env file argv envp k = do {
     k \<leftarrow> validate_ptrs [file, argv, envp] k;
     if file = 0 \<or> argv = 0 then Some (k, Inl (- EFAULT))
     else do {
       name \<leftarrow> user_string file (k_mmu k);
       (k, found) \<leftarrow> on_vfs (kopen name 0) k;
       (case found of None \<Rightarrow> Some (k, Inl (- ENOENT))
        | Some node \<Rightarrow> do {
            args \<leftarrow> user_pointers argv (k_mmu k);
            k \<leftarrow> validate_ptrs args k;
            envs \<leftarrow> (if envp = 0 then Some [] else user_pointers envp (k_mmu k));
            k \<leftarrow> validate_ptrs envs k;
            kargv \<leftarrow> user_strings args (k_mmu k);
            kenvp \<leftarrow> user_strings envs (k_mmu k);
            (i, p) \<leftarrow> current k;
            k \<leftarrow> close_fds [3..<p_fd_length p] k;
            (i, p) \<leftarrow> current k;
            let k = put_proc i (p\<lparr>p_fd_length := min 3 (p_fd_length p)\<rparr>) k;
            elf_exec env node kargv kenvp k }) } }"

text \<open>
  The loop of \<open>sys_waitpid\<close>: the child's result once it has exited, else the switch to another
  process; the caller is back at the test when it runs again.
\<close>

definition waitpid_step :: "nat \<Rightarrow> kernel \<Rightarrow> (kernel \<times> int option) option" where
  "waitpid_step proc k = do {
     p \<leftarrow> k_procs k proc;
     if p_flags p AND FINISHED = 0 then do {
       k \<leftarrow> switch_task True (put_proc proc (p\<lparr>p_flags := p_flags p OR HAS_WAITERS\<rparr>) k);
       Some (k, None) }
     else do {
       k \<leftarrow> process_delete proc k;
       Some (k, Some (sint (p_status p))) } }"

definition sys_waitpid :: "u64 \<Rightarrow> kernel \<Rightarrow> (kernel \<times> int option) option" where
  "sys_waitpid pid k = do {
     proc \<leftarrow> get_process (int_arg pid) k;
     (case proc of None \<Rightarrow> Some (k, Some 0) | Some proc \<Rightarrow> waitpid_step proc k) }"

section \<open>The handler\<close>

text \<open>A value for the caller, another process (or the same one later), or a new program.\<close>

datatype outcome = Returned int | Switched | Entered user_entry

definition returned :: "(kernel \<times> int) option \<Rightarrow> (kernel \<times> outcome) option" where
  "returned r = map_option (\<lambda>(k, v). (k, Returned v)) r"

definition syscall_func :: "environment \<Rightarrow> u64 \<Rightarrow> regs \<Rightarrow> kernel \<Rightarrow> (kernel \<times> outcome) option" where
  "syscall_func env n r k = (let a = rbx r; b = rcx r; c = rdx r in
     if n = 0 then map_option (\<lambda>k. (k, Switched)) (sys_exit a k)
     else if n = 1 then returned (sys_fork k)
     else if n = 2 then returned (sys_read a b c k)
     else if n = 3 then returned (sys_write a b c k)
     else if n = 4 then returned (sys_open a b c k)
     else if n = 5 then returned (sys_close a k)
     else if n = 6 then returned (sys_seek a b c k)
     else if n = 7 then returned (sys_getpid k)
     else if n = 8 then returned (sys_sbrk a k)
     else if n = 9 then returned (sys_uname a k)
     else if n = 10 then returned (sys_stat env a b k)
     else if n = 11 then returned (sys_statf env a b k)
     else if n = 12 then returned (sys_lstat env a b k)
     else if n = 13 then returned (sys_readdir env a b c k)
     else if n = 14 then returned (sys_mkdir a b k)
     else if n = 15 then returned (sys_ioctl a b c k)
     else if n = 16 then returned (sys_access a b k)
     else if n = 17 then returned (sys_chmod a b k)
     else if n = 18 then returned (sys_umask a k)
     else if n = 19 then returned (sys_chown a b c k)
     else if n = 20 then returned (sys_unlink a k)
     else if n = 21 then returned (sys_symlink a b k)
     else if n = 22 then returned (sys_readlink a b c k)
     else if n = 23 then returned (sys_dup2 a b k)
     else if n = 24 then map_option (\<lambda>(k, r). (k, case r of Inl v \<Rightarrow> Returned v | Inr u \<Rightarrow> Entered u)) (sys_execve env a b c k)
     else map_option (\<lambda>(k, r). (k, case r of Some v \<Rightarrow> Returned v | None \<Rightarrow> Switched)) (sys_waitpid a k))"

definition put_regs :: "regs \<Rightarrow> kernel \<Rightarrow> kernel option" where
  "put_regs r k = do { (i, p) \<leftarrow> current k; Some (put_proc i (p\<lparr>p_regs := Some r\<rparr>) k) }"

definition syscall_handler :: "environment \<Rightarrow> regs \<Rightarrow> kernel \<Rightarrow> (kernel \<times> regs \<times> outcome) option" where
  "syscall_handler env r k = do {
     k \<leftarrow> put_regs r k;
     (k, result) \<leftarrow> (if 26 \<le> rax r then Some (k, Returned (- EINVAL)) else syscall_func env (rax r) r k);
     (case result of
        Returned v \<Rightarrow> do {
          (i, p) \<leftarrow> current k;
          let k = (if 26 \<le> rax r \<or> v \<noteq> - ERESTART then k else put_proc i (p\<lparr>p_interrupted := rax r\<rparr>) k);
          let r = r\<lparr>rax := of_int v\<rparr>;
          k \<leftarrow> put_regs r k;
          Some (k, r, result) }
      | _ \<Rightarrow> Some (k, r, result)) }"

section \<open>Checks leave the state alone\<close>

lemma put_mmu_same [simp]: "put_mmu (k_mmu k) k = k"
  by (simp add: put_mmu_def k_mmu_def)

lemma put_mmu_procs [simp]: "k_procs (put_mmu m k) = k_procs k" "k_current (put_mmu m k) = k_current k"
  by (simp_all add: put_mmu_def)

lemma validate_page_keeps: "validate_page pml False page m = Some (m', x) \<Longrightarrow> m' = m"
  by (auto simp: validate_page_def Let_def split: if_splits)

lemma validate_pages_keeps: "validate_pages pml False page n m = Some (m', x) \<Longrightarrow> m' = m"
proof (induction n arbitrary: page m)
  case (Suc n)
  then show ?case by (auto dest!: validate_page_keeps elim!: bind_SomeE split: if_splits)
qed simp

lemma validate_page_total: "\<exists>x. validate_page pml False page m = Some (m, x)"
  by (auto simp: validate_page_def Let_def)

lemma validate_pages_total: "\<exists>x. validate_pages pml False page n m = Some (m, x)"
proof (induction n arbitrary: page)
  case (Suc n)
  then show ?case using validate_page_total [of pml page m] by fastforce
qed simp

lemma validate_user_total: "current k = Some (i, p) \<Longrightarrow> \<exists>x. validate_user ptr len null False k = Some (k, x)"
proof -
  assume c: "current k = Some (i, p)"
  obtain x where "validate_pages (p_directory p) False (drop_bit 12 ptr)
      (unat (drop_bit 12 (if len \<noteq> 0 then ptr + (len - 1) else ptr)) + 1 - unat (drop_bit 12 ptr)) (k_mmu k) = Some (k_mmu k, x)"
    using validate_pages_total by blast
  then show ?thesis
    using c unfolding validate_user_def on_mmu_def mmu_validate_user_def Let_def by simp
qed

lemma validate_user_keeps: "validate_user ptr len null False k = Some (k', x) \<Longrightarrow> k' = k"
  by (auto simp: validate_user_def on_mmu_def mmu_validate_user_def Let_def simp del: validate_pages.simps
      split: if_splits elim!: bind_SomeE dest!: validate_pages_keeps)

lemma validate_ptr_keeps: "validate_ptr ptr k = Some (k', x) \<Longrightarrow> k' = k"
  by (auto simp: validate_ptr_def split: if_splits Option.bind_split_asm dest!: validate_user_keeps)

lemma on_kopen_keeps: "on_vfs (kopen name flags) k = Some (k', r) \<Longrightarrow> k' = k \<and> kopen name flags (k_vfs k) = Some (k_vfs k, r)"
  using kopen_state by (fastforce simp: on_vfs_def)

section \<open>Opening a file\<close>

lemma create_result: "create_file c name mode v = Some (v', r) \<Longrightarrow> r \<le> 0"
  by (auto simp: create_file_def with_parent_def on_tmpfs_def create_tmpfs_def Let_def split: if_splits option.splits Option.bind_split_asm prod.splits)

lemma current_put [simp]: "current (put_proc i p k) = (if k_current k = Some i then Some (i, p) else current k)"
  by (auto simp: current_def put_proc_def split: Option.bind_split)

lemma append_fd_result:
  assumes "append_process_fd node k = Some (k', fd)" and "current k = Some (i, p)"
  shows "fd = int (p_fd_length p) \<and> (\<exists>q. current k' = Some (i, q) \<and> p_fd_length q = Suc (p_fd_length p)
    \<and> p_fd_length p < length (p_fds q) \<and> p_fds q ! p_fd_length p = Some (Some node))"
proof -
  have "k_current k = Some i" using assms(2) by (auto simp: current_def split: Option.bind_split_asm)
  then show ?thesis
    using assms by (auto simp: append_process_fd_def Let_def mem_store_def split: Option.bind_split_asm if_splits)
qed

lemma update_fd_get:
  assumes "update_fd fd f node k = Some k'" and "current k = Some (i, q)" and "0 \<le> fd" and "fd < int (p_fd_length q)"
  shows "get_process_fd fd k' = Some (Some (f node))"
proof -
  have "k_current k = Some i" using assms(2) by (auto simp: current_def split: Option.bind_split_asm)
  then show ?thesis
    using assms by (auto simp: update_fd_def set_process_fd_def get_process_fd_def mem_store_def mem_load_def split: Option.bind_split_asm if_splits)
qed

lemma on_vfs_current: "on_vfs f k = Some (k', r) \<Longrightarrow> current k' = current k"
  by (auto simp: on_vfs_def current_def)

lemma leave_open_result: "leave_open closes node err k = Some (k', r) \<Longrightarrow> r = err"
  by (auto simp: leave_open_def split: Option.bind_split_asm)

definition opened_node :: "u64 \<Rightarrow> fs_node \<Rightarrow> fs_node" where
  "opened_node flags node = node\<lparr>n_user_mode := access_bit flags,
     n_user_offset := (if flags AND O_APPEND \<noteq> 0 then unat (n_length node) else 0)\<rparr>"

lemma open_finish_fd:
  assumes "open_finish found flags k = Some (k', fd)" and "0 \<le> fd" and "current k \<noteq> None"
  shows "\<exists>node. found = Some node \<and> get_process_fd fd k' = Some (Some (opened_node flags node))"
proof -
  obtain node where node: "found = Some node" using assms(1,2) by (cases found) (auto simp: open_finish_def)
  obtain i p where ip: "current k = Some (i, p)" using assms(3) by auto
  have ne: "\<not> (flags AND O_DIRECTORY \<noteq> 0 \<and> n_flags node AND FS_DIRECTORY = 0)"
    "\<not> (flags AND O_TRUNC \<noteq> 0 \<and> access_bit flags AND 0x02 = 0)"
    using assms(1,2) node by (auto simp: open_finish_def dest!: leave_open_result split: if_splits)
  then obtain k1 r where k1: "(if flags AND O_TRUNC \<noteq> 0 then on_vfs (truncate_fs node) k else Some (k, 0)) = Some (k1, r)"
    and rest: "(if flags AND O_CREAT \<noteq> 0 \<and> n_flags node AND FS_DIRECTORY \<noteq> 0 then leave_open True node (- EISDIR) k1
         else do {
           (k, fd) \<leftarrow> append_process_fd node k1;
           k \<leftarrow> update_fd fd (\<lambda>node. node\<lparr>n_user_mode := access_bit flags,
                   n_user_offset := (if flags AND O_APPEND \<noteq> 0 then unat (n_length node) else 0)\<rparr>) node k;
           Some (k, fd) }) = Some (k', fd)"
    using assms(1) unfolding open_finish_def node option.case by (simp only: if_False) (elim bind_SomeE, auto)
  have cur: "current k1 = Some (i, p)" using k1 ip by (auto split: if_splits dest!: on_vfs_current)
  obtain k2 where k2: "append_process_fd node k1 = Some (k2, fd)"
    "update_fd fd (\<lambda>node. node\<lparr>n_user_mode := access_bit flags,
                   n_user_offset := (if flags AND O_APPEND \<noteq> 0 then unat (n_length node) else 0)\<rparr>) node k2 = Some k'"
    using rest assms(2) by (auto dest!: leave_open_result elim!: bind_SomeE split: if_splits)
  obtain q where "current k2 = Some (i, q)" "fd = int (p_fd_length p)" "p_fd_length q = Suc (p_fd_length p)"
    using append_fd_result [OF k2(1) cur] by blast
  then show ?thesis using update_fd_get [OF k2(2)] node by (simp add: opened_node_def)
qed

text \<open>What a successful \<open>open\<close> has checked, and what it enters into the table.\<close>

definition may_open :: "cred \<Rightarrow> string \<Rightarrow> u64 \<Rightarrow> u64 \<Rightarrow> vfs \<Rightarrow> fs_node option \<Rightarrow> bool" where
  "may_open c name flags mode v found \<longleftrightarrow>
     (\<exists>node. found = Some node \<and> kopen name (ucast flags) v = Some (v, Some node)
        \<and> (open_wants_read flags \<longrightarrow> check_permission c node 0x04)
        \<and> (open_wants_write flags \<longrightarrow> check_permission c node 0x02 \<and> n_flags node AND FS_DIRECTORY = 0)
        \<and> \<not> (flags AND O_CREAT \<noteq> 0 \<and> flags AND O_EXCL \<noteq> 0))
     \<or> kopen name (ucast flags) v = Some (v, None) \<and> flags AND O_CREAT \<noteq> 0
        \<and> (\<exists>v'. create_file c name (ucast mode) v = Some (v', 0) \<and> kopen name (ucast flags) v' = Some (v', found))"

lemma open_refused_negative: "open_refused c node flags = Some (err, closes) \<Longrightarrow> err < 0"
  by (auto simp: open_refused_def split: if_splits)

lemma sys_open_cases:
  assumes "sys_open file flags mode k = Some (k', fd)" and "0 \<le> fd"
  shows "\<exists>name c k1 found. user_string file (k_mmu k) = Some name \<and> current_cred k = Some c
    \<and> may_open c name flags mode (k_vfs k) found \<and> open_finish found flags k1 = Some (k', fd) \<and> current k1 = current k"
proof -
  obtain x where v: "validate_ptr file k = Some (k, x)"
    using assms(1) validate_ptr_keeps by (auto simp: sys_open_def elim!: bind_SomeE)
  have f: "file \<noteq> 0" using assms v by (auto simp: sys_open_def)
  obtain name c k1 found where n: "user_string file (k_mmu k) = Some name" "current_cred k = Some c"
    "on_vfs (kopen name (ucast flags)) k = Some (k1, found)"
    using assms(1) v f by (auto simp: sys_open_def elim!: bind_SomeE)
  then have k1: "k1 = k" "kopen name (ucast flags) (k_vfs k) = Some (k_vfs k, found)" using on_kopen_keeps by blast+
  show ?thesis
  proof (cases found)
    case (Some node)
    then have r: "(case open_refused c node flags of
               Some (err, closes) \<Rightarrow> leave_open closes node err k
             | None \<Rightarrow> open_finish (Some node) flags k) = Some (k', fd)"
      using assms(1) v f n k1(1) by (simp add: sys_open_def)
    have nr: "open_refused c node flags = None"
    proof (rule ccontr)
      assume "open_refused c node flags \<noteq> None"
      then obtain err closes where e: "open_refused c node flags = Some (err, closes)" by auto
      then have "fd = err" using r by (simp add: leave_open_result)
      then show False using open_refused_negative [OF e] assms(2) by simp
    qed
    then have "may_open c name flags mode (k_vfs k) (Some node)"
      using k1(2) Some by (auto simp: may_open_def open_refused_def split: if_splits)
    then show ?thesis using n(1,2) r nr by auto
  next
    case None
    then have r: "(if flags AND O_CREAT \<noteq> 0 then do {
              (k, result) \<leftarrow> on_vfs (create_file c name (ucast mode)) k;
              if result \<noteq> 0 then Some (k, result)
              else do {
                (k, found) \<leftarrow> on_vfs (kopen name (ucast flags)) k;
                open_finish found flags k } }
            else open_finish None flags k) = Some (k', fd)"
      using assms(1) v f n k1(1) by (simp add: sys_open_def)
    then have cr: "flags AND O_CREAT \<noteq> 0" using assms(2) by (auto simp: open_finish_def split: if_splits)
    then obtain k2 res where c2: "on_vfs (create_file c name (ucast mode)) k = Some (k2, res)"
      and r2: "(if res \<noteq> 0 then Some (k2, res) else do {
                (k, found) \<leftarrow> on_vfs (kopen name (ucast flags)) k2;
                open_finish found flags k }) = Some (k', fd)"
      using r by (auto elim!: bind_SomeE)
    have le: "res \<le> 0" using c2 create_result by (fastforce simp: on_vfs_def)
    have z: "res = 0"
    proof (rule ccontr)
      assume "res \<noteq> 0"
      then have "fd = res" using r2 by simp
      then show False using le \<open>res \<noteq> 0\<close> assms(2) by simp
    qed
    then obtain found2 where fin: "on_vfs (kopen name (ucast flags)) k2 = Some (k2, found2)" "open_finish found2 flags k2 = Some (k', fd)"
      using r2 on_kopen_keeps by (fastforce elim!: bind_SomeE)
    have "create_file c name (ucast mode) (k_vfs k) = Some (k_vfs k2, 0)" using c2 z by (auto simp: on_vfs_def)
    moreover have "kopen name (ucast flags) (k_vfs k2) = Some (k_vfs k2, found2)" using on_kopen_keeps [OF fin(1)] by simp
    ultimately have "may_open c name flags mode (k_vfs k) found2" using k1(2) None cr unfolding may_open_def by blast
    moreover have "current k2 = current k" using c2 by (rule on_vfs_current)
    ultimately show ?thesis using n(1,2) fin(2) by blast
  qed
qed


lemma int_arg_of_int: "0 \<le> fd \<Longrightarrow> fd < 2147483648 \<Longrightarrow> int_arg (of_int fd) = fd"
proof -
  assume fd: "0 \<le> fd" "fd < 2147483648"
  have "ucast (of_int fd :: u64) = (of_int fd :: u32)"
    by (rule bit_word_eqI) (simp add: bit_simps)
  then show ?thesis
    using fd by (simp add: int_arg_def signed_of_int signed_take_bit_int_eq_self)
qed

lemma sint_of_int_fd: "0 \<le> fd \<Longrightarrow> fd < 2147483648 \<Longrightarrow> sint (of_int fd :: u64) = fd"
  by (simp add: signed_of_int signed_take_bit_int_eq_self)

lemma get_fd_cases:
  assumes "get_process_fd fd k = Some (Some node)"
  shows "\<exists>i p. current k = Some (i, p) \<and> k_current k = Some i \<and> 0 \<le> fd \<and> fd < int (p_fd_length p) \<and> nat fd < length (p_fds p)"
  using assms by (auto simp: get_process_fd_def current_def mem_load_def split: Option.bind_split_asm if_splits)

lemma k_close_fs_current: "k_close_fs n k = Some k' \<Longrightarrow> current k' = current k"
  using k_close_fs_procs by (auto simp: current_def)

text \<open>Calls that keep the access mode of a descriptor, if it is open.\<close>

definition keeps_mode :: "int \<Rightarrow> kernel \<Rightarrow> kernel \<Rightarrow> bool" where
  "keeps_mode fd k k' \<longleftrightarrow> (\<forall>n. get_process_fd fd k = Some (Some n) \<longrightarrow>
     (\<exists>n'. get_process_fd fd k' = Some (Some n') \<and> n_user_mode n' = n_user_mode n))"

lemma keeps_mode_current: "current k' = current k \<Longrightarrow> keeps_mode fd k k'"
  by (simp add: keeps_mode_def get_process_fd_def)

lemma keeps_mode_trans: "keeps_mode fd k k1 \<Longrightarrow> keeps_mode fd k1 k2 \<Longrightarrow> keeps_mode fd k k2"
  unfolding keeps_mode_def by metis

lemma set_fd_keeps:
  assumes "set_process_fd g x k = Some k'" and "0 \<le> g"
    and "g = fd \<Longrightarrow> \<exists>n n'. get_process_fd fd k = Some (Some n) \<and> x = Some n' \<and> n_user_mode n' = n_user_mode n"
  shows "keeps_mode fd k k'"
  unfolding keeps_mode_def
proof (intro allI impI)
  fix n
  assume n: "get_process_fd fd k = Some (Some n)"
  obtain i p where ip: "current k = Some (i, p)" "k_current k = Some i" "0 \<le> fd" "fd < int (p_fd_length p)" "nat fd < length (p_fds p)"
    using get_fd_cases [OF n] by blast
  have k': "k' = put_proc i (p\<lparr>p_fds := (p_fds p)[nat g := Some x]\<rparr>) k" "nat g < length (p_fds p)"
    using assms(1) ip(1) by (auto simp: set_process_fd_def mem_store_def split: if_splits)
  have slot: "get_process_fd fd k' = ((p_fds p)[nat g := Some x]) ! nat fd"
    using ip k' by (simp add: get_process_fd_def mem_load_def)
  show "\<exists>n'. get_process_fd fd k' = Some (Some n') \<and> n_user_mode n' = n_user_mode n"
  proof (cases "g = fd")
    case True
    then show ?thesis using assms(3) n slot ip(5) by auto
  next
    case False
    then have "nat g \<noteq> nat fd" using assms(2) ip(3) by (simp add: eq_nat_nat_iff)
    then show ?thesis using slot n ip by (simp add: get_process_fd_def mem_load_def)
  qed
qed

lemma append_fd_keeps: "append_process_fd node k = Some (k', g) \<Longrightarrow> keeps_mode fd k k'"
  unfolding keeps_mode_def
proof (intro allI impI)
  fix n
  assume a: "append_process_fd node k = Some (k', g)" and n: "get_process_fd fd k = Some (Some n)"
  obtain i p where ip: "current k = Some (i, p)" "k_current k = Some i" "0 \<le> fd" "fd < int (p_fd_length p)" "nat fd < length (p_fds p)"
    using get_fd_cases [OF n] by blast
  define fds where "fds = (if p_fd_length p = length (p_fds p) then p_fds p @ replicate 64 (k_fresh k) else p_fds p)"
  have f: "k' = put_proc i (p\<lparr>p_fds := fds[p_fd_length p := Some (Some node)], p_fd_length := Suc (p_fd_length p)\<rparr>) k"
    using a ip(1) by (auto simp: append_process_fd_def Let_def mem_store_def fds_def split: if_splits)
  have ne: "p_fd_length p \<noteq> nat fd" "nat fd < length fds" "fds ! nat fd = p_fds p ! nat fd"
    using ip by (auto simp: fds_def nth_append)
  have old: "p_fds p ! nat fd = Some (Some n)" using n ip by (simp add: get_process_fd_def mem_load_def)
  have "fds[p_fd_length p := Some (Some node)] ! nat fd = Some (Some n)" using ne old by simp
  then have "get_process_fd fd k' = Some (Some n)" using ip ne(2) by (simp add: f get_process_fd_def mem_load_def)
  then show "\<exists>n'. get_process_fd fd k' = Some (Some n') \<and> n_user_mode n' = n_user_mode n" by simp
qed

lemma current_simps [simp]: "current (put_mmu m k) = current k" "current (k\<lparr>k_vfs := v\<rparr>) = current k"
  by (simp_all add: current_def put_mmu_def)

lemma k_open_fs_current [simp]: "current (k_open_fs n flags k) = current k"
  by (simp add: k_open_fs_def)

lemma update_fd_keeps:
  assumes "update_fd g f node k = Some k'" and "get_process_fd g k = Some (Some node)" and "n_user_mode (f node) = n_user_mode node"
  shows "keeps_mode fd k k'"
proof -
  have "0 \<le> g" using get_fd_cases [OF assms(2)] by blast
  then show ?thesis using set_fd_keeps [of g "Some (f node)" k k' fd] assms by (auto simp: update_fd_def)
qed

lemma new_fd_keeps:
  assumes a: "append_process_fd node k = Some (k1, g)" and u: "update_fd g f node' k1 = Some k2"
  shows "keeps_mode fd k k2"
proof (cases "\<exists>n. get_process_fd fd k = Some (Some n)")
  case True
  then obtain n i p where n: "get_process_fd fd k = Some (Some n)" "current k = Some (i, p)" "fd < int (p_fd_length p)" "0 \<le> fd"
    using get_fd_cases by blast
  have "g = int (p_fd_length p)" using append_fd_result [OF a n(2)] by blast
  then have "keeps_mode fd k1 k2" using set_fd_keeps [of g _ k1 k2 fd] u n(3) by (simp add: update_fd_def)
  then show ?thesis using append_fd_keeps [OF a] keeps_mode_trans by blast
qed (simp add: keeps_mode_def)

lemma validate_user_current: "validate_user ptr len null wr k = Some (k', x) \<Longrightarrow> current k' = current k"
  by (auto simp: validate_user_def on_mmu_def elim!: bind_SomeE)

lemma user_read_fs_current: "user_read_fs node offset len ptr k = Some (k', x) \<Longrightarrow> current k' = current k"
  by (auto simp: user_read_fs_def k_read_fs_def elim!: bind_SomeE)

text \<open>What read, write and seek do to the table: the node of the descriptor gets another offset, if anything.\<close>

lemma transfer_keeps:
  assumes "get_process_fd g k = Some (Some node)" and "current k1 = current k"
    and "(if b then update_fd g f node k1 else Some k1) = Some k'" and "n_user_mode (f node) = n_user_mode node"
  shows "keeps_mode fd k k'"
proof -
  have g: "get_process_fd g k1 = Some (Some node)" using assms(1,2) by (simp add: get_process_fd_def)
  have "keeps_mode fd k1 k'"
    using assms(3) update_fd_keeps [OF _ g, where f = f, OF _ assms(4)] keeps_mode_current [of k1 k1 fd] by (auto split: if_splits)
  then show ?thesis using keeps_mode_current [OF assms(2)] keeps_mode_trans by blast
qed

lemma sys_read_keeps:
  assumes "sys_read g ptr len k = Some (k', r)"
  shows "keeps_mode fd k k'"
proof -
  consider "k' = k" | node k1 x where "get_process_fd (int_arg g) k = Some (Some node)" "validate_user ptr len True True k = Some (k1, x)" "k' = k1"
    | node k1 x k2 n where "get_process_fd (int_arg g) k = Some (Some node)" "validate_user ptr len True True k = Some (k1, x)"
      "user_read_fs node (of_nat (n_user_offset node)) len ptr k1 = Some (k2, n)"
      "(if sint (of_nat n :: u64) > 0 then update_fd (int_arg g) (\<lambda>node'. node'\<lparr>n_user_offset := add64 (n_user_offset node') n\<rparr>) node k2
        else Some k2) = Some k'"
    using assms by (auto simp: sys_read_def Let_def elim!: bind_SomeE split: option.splits if_splits)
  then show ?thesis
  proof cases
    case (3 node k1 x k2 n)
    have "current k2 = current k" using validate_user_current [OF 3(2)] user_read_fs_current [OF 3(3)] by simp
    from transfer_keeps [OF 3(1) this 3(4)] show ?thesis by simp
  qed (use keeps_mode_current validate_user_current in auto)
qed

lemma sys_write_keeps:
  assumes "sys_write g ptr len k = Some (k', r)"
  shows "keeps_mode fd k k'"
proof -
  consider "k' = k" | node k1 x where "get_process_fd (int_arg g) k = Some (Some node)" "validate_user ptr len True False k = Some (k1, x)" "k' = k1"
    | node k1 x buffer k2 n where "get_process_fd (int_arg g) k = Some (Some node)" "validate_user ptr len True False k = Some (k1, x)"
      "on_vfs (write_fs node (n_user_offset node) (unat len) buffer) k1 = Some (k2, n)"
      "(if sint (of_nat n :: u64) > 0 then update_fd (int_arg g) (\<lambda>node'. node'\<lparr>n_user_offset := add64 (n_user_offset node') n\<rparr>) node k2
        else Some k2) = Some k'"
    using assms by (auto simp: sys_write_def Let_def elim!: bind_SomeE split: option.splits if_splits)
  then show ?thesis
  proof cases
    case (3 node k1 x buffer k2 n)
    have "current k2 = current k" using validate_user_current [OF 3(2)] on_vfs_current [OF 3(3)] by simp
    from transfer_keeps [OF 3(1) this 3(4)] show ?thesis by simp
  qed (use keeps_mode_current validate_user_current in auto)
qed

lemma sys_seek_keeps:
  assumes "sys_seek g off whence k = Some (k', r)"
  shows "keeps_mode fd k k'"
proof -
  consider "k' = k" | node t where "get_process_fd (int_arg g) k = Some (Some node)"
      "update_fd (int_arg g) (\<lambda>node'. node'\<lparr>n_user_offset := t\<rparr>) node k = Some k'"
    using assms by (auto simp: sys_seek_def Let_def elim!: bind_SomeE split: option.splits if_splits)
  then show ?thesis
  proof cases
    case (2 node t)
    then show ?thesis by (intro update_fd_keeps [OF 2(2,1)]) simp
  qed (simp add: keeps_mode_current)
qed

lemma sys_close_keeps:
  assumes "sys_close g k = Some (k', r)" and "sint g \<noteq> fd"
  shows "keeps_mode fd k k'"
proof -
  consider "k' = k" | node k1 where "k_close_fs node k = Some k1" "0 \<le> sint g" "set_process_fd (sint g) None k1 = Some k'"
    using assms(1) by (auto simp: sys_close_def elim!: bind_SomeE split: option.splits if_splits)
  then show ?thesis
  proof cases
    case (2 node k1)
    have "keeps_mode fd k k1" by (rule keeps_mode_current [OF k_close_fs_current [OF 2(1)]])
    moreover have "keeps_mode fd k1 k'" by (rule set_fd_keeps [OF 2(3,2)]) (use assms(2) in simp)
    ultimately show ?thesis by (rule keeps_mode_trans)
  qed (simp add: keeps_mode_current)
qed

lemma open_finish_keeps:
  assumes "open_finish found flags k = Some (k', r)"
  shows "keeps_mode fd k k'"
proof -
  have lv: "keeps_mode fd k1 k'" if "leave_open closes node err k1 = Some (k', r)" for closes node err k1
    using that k_close_fs_current by (intro keeps_mode_current) (auto simp: leave_open_def elim!: bind_SomeE split: if_splits)
  show ?thesis
  proof (cases found)
    case None
    then show ?thesis using assms by (simp add: open_finish_def keeps_mode_current)
  next
    case (Some node)
    consider err closes where "leave_open closes node err k = Some (k', r)"
      | "\<not> (flags AND O_DIRECTORY \<noteq> 0 \<and> n_flags node AND FS_DIRECTORY = 0)" "\<not> (flags AND O_TRUNC \<noteq> 0 \<and> access_bit flags AND 0x02 = 0)"
      using assms Some that by (simp add: open_finish_def split: if_splits)
    then show ?thesis
    proof cases
      case 2
      then obtain k1 x where k1: "(if flags AND O_TRUNC \<noteq> 0 then on_vfs (truncate_fs node) k else Some (k, 0)) = Some (k1, x)"
        and rest: "(if flags AND O_CREAT \<noteq> 0 \<and> n_flags node AND FS_DIRECTORY \<noteq> 0 then leave_open True node (- EISDIR) k1
         else do {
           (k, fd) \<leftarrow> append_process_fd node k1;
           k \<leftarrow> update_fd fd (\<lambda>node. node\<lparr>n_user_mode := access_bit flags,
                   n_user_offset := (if flags AND O_APPEND \<noteq> 0 then unat (n_length node) else 0)\<rparr>) node k;
           Some (k, fd) }) = Some (k', r)"
        using assms unfolding open_finish_def Some option.case by (simp only: if_False) (elim bind_SomeE, auto)
      have "keeps_mode fd k k1" using k1 by (intro keeps_mode_current) (auto split: if_splits dest!: on_vfs_current)
      moreover have "keeps_mode fd k1 k'"
      proof (cases "flags AND O_CREAT \<noteq> 0 \<and> n_flags node AND FS_DIRECTORY \<noteq> 0")
        case True
        then show ?thesis using rest lv by simp
      next
        case False
        then obtain k2 where "append_process_fd node k1 = Some (k2, r)"
          "update_fd r (\<lambda>node. node\<lparr>n_user_mode := access_bit flags,
                   n_user_offset := (if flags AND O_APPEND \<noteq> 0 then unat (n_length node) else 0)\<rparr>) node k2 = Some k'"
          using rest by (auto elim!: bind_SomeE)
        then show ?thesis by (rule new_fd_keeps)
      qed
      ultimately show ?thesis by (rule keeps_mode_trans)
    qed (rule lv)
  qed
qed

lemma sys_open_keeps:
  assumes "sys_open file flags mode k = Some (k', r)"
  shows "keeps_mode fd k k'"
proof -
  have lv: "current k' = current k" if "leave_open closes node err k = Some (k', r)" for closes node err
    using that k_close_fs_current by (auto simp: leave_open_def elim!: bind_SomeE split: if_splits)
  consider "current k' = current k" | found k1 where "current k1 = current k" "open_finish found flags k1 = Some (k', r)"
  proof -
    obtain x where v: "validate_ptr file k = Some (k, x)"
      using assms validate_ptr_keeps by (auto simp: sys_open_def elim!: bind_SomeE)
    show ?thesis
    proof (cases "file = 0")
      case True
      then show ?thesis using assms v that(1) by (simp add: sys_open_def)
    next
      case False
      then obtain name c k1 found where n: "on_vfs (kopen name (ucast flags)) k = Some (k1, found)"
        "(case found of
          Some node \<Rightarrow>
            (case open_refused c node flags of
               Some (err, closes) \<Rightarrow> leave_open closes node err k1
             | None \<Rightarrow> open_finish (Some node) flags k1)
        | None \<Rightarrow>
            if flags AND O_CREAT \<noteq> 0 then do {
              (k, result) \<leftarrow> on_vfs (create_file c name (ucast mode)) k1;
              if result \<noteq> 0 then Some (k, result)
              else do {
                (k, found) \<leftarrow> on_vfs (kopen name (ucast flags)) k;
                open_finish found flags k } }
            else open_finish None flags k1) = Some (k', r)"
        using assms v by (auto simp: sys_open_def elim!: bind_SomeE)
      then have k1: "k1 = k" using on_kopen_keeps by blast
      show ?thesis
      proof (cases found)
        case (Some node)
        then show ?thesis using n(2) k1 lv that by (auto split: option.splits)
      next
        case None
        show ?thesis
        proof (cases "flags AND O_CREAT = 0")
          case True
          then show ?thesis using n(2) None k1 that(2) by simp
        next
          case False
          then obtain k2 res where k2: "on_vfs (create_file c name (ucast mode)) k = Some (k2, res)"
            and rest: "(if res \<noteq> 0 then Some (k2, res) else do {
                (k, found) \<leftarrow> on_vfs (kopen name (ucast flags)) k2;
                open_finish found flags k }) = Some (k', r)"
            using n(2) None k1 by (auto elim!: bind_SomeE)
          note c2 = on_vfs_current [OF k2]
          show ?thesis
          proof (cases "res = 0")
            case True
            then obtain found2 where "on_vfs (kopen name (ucast flags)) k2 = Some (k2, found2)" "open_finish found2 flags k2 = Some (k', r)"
              using rest on_kopen_keeps by (fastforce elim!: bind_SomeE)
            then show ?thesis using that(2) c2 by blast
          next
            case False
            then show ?thesis using rest c2 that(1) by simp
          qed
        qed
      qed
    qed
  qed
  then show ?thesis using keeps_mode_current open_finish_keeps keeps_mode_trans by cases blast+
qed

text \<open>
  What may happen between the opening of a descriptor and a call on it, as long as nobody closes or replaces
  the descriptor: transfers and seeks on any descriptor, opening of files, closing of other descriptors,
  and whatever leaves the process as it is (calls on names, and everything that other processes do).
\<close>

inductive fd_step :: "int \<Rightarrow> kernel \<Rightarrow> kernel \<Rightarrow> bool" for fd where
  reads: "sys_read g ptr len k = Some (k', r) \<Longrightarrow> fd_step fd k k'"
| writes: "sys_write g ptr len k = Some (k', r) \<Longrightarrow> fd_step fd k k'"
| seeks: "sys_seek g off whence k = Some (k', r) \<Longrightarrow> fd_step fd k k'"
| opens: "sys_open file flags mode k = Some (k', r) \<Longrightarrow> fd_step fd k k'"
| closes: "sys_close g k = Some (k', r) \<Longrightarrow> sint g \<noteq> fd \<Longrightarrow> fd_step fd k k'"
| elsewhere: "current k' = current k \<Longrightarrow> fd_step fd k k'"

lemma fd_steps_keep: "(fd_step fd)\<^sup>*\<^sup>* k k' \<Longrightarrow> keeps_mode fd k k'"
proof (induction rule: rtranclp_induct)
  case base
  show ?case by (rule keeps_mode_current) simp
next
  case (step k1 k2)
  have "keeps_mode fd k1 k2"
    using step(2) by cases
      (blast intro: sys_read_keeps sys_write_keeps sys_seek_keeps sys_open_keeps sys_close_keeps keeps_mode_current)+
  then show ?case using step(3) keeps_mode_trans by blast
qed

text \<open>
  C29. A file that was opened for reading only is never written through its descriptor: after any sequence
  of reads, writes and seeks on any descriptor, of opening files, of closing other descriptors, and of
  calls and other processes' steps that leave the process as it is, the descriptor is still open without
  write access, and every \<open>write\<close> to it is an error and changes nothing at all, whatever buffer is passed.
\<close>

theorem read_only_never_writes:
  assumes "sys_open file flags mode k = Some (k', fd)" and "0 \<le> fd" and "fd < 2147483648"
    and ro: "\<not> open_wants_write flags" and steps: "(fd_step fd)\<^sup>*\<^sup>* k' k2"
  shows "\<exists>n. get_process_fd fd k2 = Some (Some n) \<and> n_user_mode n AND 0x02 = 0 \<and>
    (\<exists>r < 0. sys_write (of_int fd) ptr len k2 = Some (k2, r))"
proof -
  obtain name c k1 found where o: "current_cred k = Some c" "open_finish found flags k1 = Some (k', fd)" "current k1 = current k"
    using sys_open_cases [OF assms(1,2)] by blast
  then have "current k1 \<noteq> None" by (auto simp: current_cred_def)
  then obtain n where "get_process_fd fd k' = Some (Some n)" "n_user_mode n = access_bit flags"
    using open_finish_fd [OF o(2) assms(2)] by (auto simp: opened_node_def)
  then obtain n2 where n: "get_process_fd fd k2 = Some (Some n2)" "n_user_mode n2 = access_bit flags"
    using fd_steps_keep [OF steps] by (auto simp: keeps_mode_def)
  have ro2: "n_user_mode n2 AND 0x02 = 0" using n(2) ro by (simp add: access_bit_def)
  obtain i p where "current k2 = Some (i, p)" using get_fd_cases [OF n(1)] by blast
  then obtain x where "validate_user ptr len True False k2 = Some (k2, x)" using validate_user_total by blast
  then show ?thesis
    using n(1) ro2 int_arg_of_int [OF assms(2,3)] by (simp add: sys_write_def)
qed

text \<open>
  C30. A closed descriptor is dead. A \<open>close\<close> that succeeded leaves its slot empty; and in every state
  in which the slot is empty, at once or later, read, write, seek, ioctl, stat, readdir and close report
  \<open>EBADF\<close> for it, copying it with \<open>dup2\<close> gives -1, and none of them changes anything.
\<close>

theorem closed_descriptor:
  assumes c: "sys_close (of_int fd) k = Some (k', 0)" and fd: "0 \<le> fd" "fd < 2147483648"
  shows "get_process_fd fd k' = Some None \<and> (\<forall>k2. get_process_fd fd k2 = Some None \<longrightarrow>
    sys_read (of_int fd) ptr len k2 = Some (k2, - EBADF) \<and> sys_write (of_int fd) ptr len k2 = Some (k2, - EBADF)
    \<and> sys_seek (of_int fd) off whence k2 = Some (k2, - EBADF) \<and> sys_ioctl (of_int fd) cmd arg k2 = Some (k2, - EBADF)
    \<and> sys_stat env (of_int fd) ptr k2 = Some (k2, - EBADF) \<and> sys_readdir env (of_int fd) index ptr k2 = Some (k2, - EBADF)
    \<and> sys_close (of_int fd) k2 = Some (k2, - EBADF) \<and> sys_dup2 (of_int fd) to_fd k2 = Some (k2, -1))"
proof -
  note ia = int_arg_of_int [OF fd]
  obtain node where n: "get_process_fd fd k = Some (Some node)"
    using c by (auto simp: sys_close_def ia elim!: bind_SomeE split: option.splits)
  then obtain i p where ip: "current k = Some (i, p)" "k_current k = Some i" "fd < int (p_fd_length p)" "nat fd < length (p_fds p)"
    using get_fd_cases by blast
  obtain k1 where k1: "k_close_fs node k = Some k1" "set_process_fd fd None k1 = Some k'"
    using c n fd by (auto simp: sys_close_def ia sint_of_int_fd elim!: bind_SomeE)
  have "current k1 = Some (i, p)" "k_current k1 = Some i"
    using k1(1) ip(1,2) k_close_fs_current k_close_fs_procs by auto
  then have "k' = put_proc i (p\<lparr>p_fds := (p_fds p)[nat fd := Some None]\<rparr>) k1"
    using k1(2) ip(4) by (simp add: set_process_fd_def mem_store_def)
  then have "get_process_fd fd k' = Some None"
    using ip fd \<open>k_current k1 = Some i\<close> by (simp add: get_process_fd_def mem_load_def)
  then show ?thesis
    by (simp add: sys_read_def sys_write_def sys_seek_def sys_ioctl_def sys_stat_def sys_readdir_def sys_close_def
        sys_dup2_def process_dup2_def ia)
qed

text \<open>
  A call number outside the table is refused: the caller gets \<open>EINVAL\<close>, and the registers of
  the running process are the only thing that changes. Every number inside is dispatched to its
  function and the value it returns is put into \<open>rax\<close>.
\<close>

lemma unknown_syscall:
  assumes "current k = Some (i, p)" and "26 \<le> rax r"
  shows "syscall_handler env r k = Some (put_proc i (p\<lparr>p_regs := Some (r\<lparr>rax := - 22\<rparr>)\<rparr>) k, r\<lparr>rax := - 22\<rparr>, Returned (- EINVAL))"
proof -
  have "k_current k = Some i" using assms(1) by (auto simp: current_def split: Option.bind_split_asm)
  then show ?thesis using assms by (simp add: syscall_handler_def put_regs_def Let_def) (simp add: put_proc_def)
qed

text \<open>
  A descriptor of more than 32 bits finds its node by its low half and then clears a slot far
  outside the table.
\<close>

lemma sys_close_wide:
  assumes "current k = Some (i, p)" and "int (length (p_fds p)) < 4294967296" and "4294967296 \<le> sint fd"
    and "get_process_fd (int_arg fd) k = Some (Some node)"
  shows "sys_close fd k = None"
proof (cases "k_close_fs node k")
  case (Some k1)
  then have "current k1 = Some (i, p)" using assms(1) k_close_fs_current by simp
  then have "set_process_fd (sint fd) None k1 = None" using assms(2,3) by (simp add: set_process_fd_def mem_store_def)
  then show ?thesis using assms(3,4) Some by (simp add: sys_close_def)
qed (use assms in \<open>simp add: sys_close_def\<close>)

section \<open>Witnesses\<close>

text \<open>The example kernel's memory is zero, so the text at the start of the direct map is empty and names the root directory.\<close>

lemma example_kernel_simps [simp]:
  "k_current example_kernel = Some 5" "k_vfs example_kernel = example_vfs" "kmem (k_mmu example_kernel) = (\<lambda>_. 0)"
  by (simp_all add: example_kernel_def k_mmu_def example_vfs_def)

lemma example_path: "user_string HIGH_MAP_REGION (k_mmu example_kernel) = Some []"
  by (subst user_string.simps) (simp add: user_load_def canonical_def)

lemma example_open:
  "\<exists>k n. sys_open HIGH_MAP_REGION 0 0 example_kernel = Some (k, 2) \<and> current k \<noteq> None \<and> get_process_fd 2 k = Some (Some n)"
proof -
  have v: "validate_ptr HIGH_MAP_REGION example_kernel = Some (example_kernel, Some 1)"
    by (simp add: validate_ptr_def example_current)
  let ?n = "tmpfs_from_dir 0 example_dir"
  have o: "on_vfs (kopen [] 0) example_kernel = Some (example_kernel, Some ?n)"
    by (simp add: on_vfs_def kopen_def kopen_from_def example_kernel_def)
  have c: "current_cred example_kernel = Some (cred_of (example_process 5 1))" by (simp add: current_cred_def example_current)
  have u: "c_uid (cred_of (example_process 5 1)) = 0" by (simp add: cred_of_def example_process_def process_zero_def)
  have r: "open_refused (cred_of (example_process 5 1)) ?n 0 = None"
    by (simp add: open_refused_def open_wants_read_def open_wants_write_def check_permission_def u)
  have "\<exists>k n. open_finish (Some ?n) 0 example_kernel = Some (k, 2) \<and> current k \<noteq> None \<and> get_process_fd 2 k = Some (Some n)"
    by (simp add: open_finish_def append_process_fd_def example_current Let_def mem_store_def update_fd_def set_process_fd_def
        get_process_fd_def mem_load_def) (simp add: example_process_def process_zero_def)
  then show ?thesis by (simp add: sys_open_def v example_path c o r)
qed


lemma read_only_never_writes_witness:
  "\<exists>k r. sys_open HIGH_MAP_REGION 0 0 example_kernel = Some (k, 2) \<and> sys_write 2 0x1000 5 k = Some (k, r) \<and> r < 0"
proof -
  obtain k where k: "sys_open HIGH_MAP_REGION 0 0 example_kernel = Some (k, 2)" using example_open by blast
  then show ?thesis using read_only_never_writes [OF k _ _ _ rtranclp.rtrancl_refl] by (auto simp: open_wants_write_def)
qed

lemma closed_descriptor_witness:
  "\<exists>k. sys_close 0 example_kernel = Some (k, 0) \<and> sys_read 0 0x1000 5 k = Some (k, - 9)"
proof -
  have "get_process_fd 0 example_kernel = Some (Some (fs_node_zero\<lparr>n_name := ''tty''\<rparr>))"
    by (simp add: get_process_fd_def example_current) (simp add: example_process_def process_zero_def mem_load_def)
  moreover have "k_close_fs (fs_node_zero\<lparr>n_name := ''tty''\<rparr>) example_kernel = Some example_kernel"
    by (simp add: k_close_fs_def close_fs_def fs_node_zero_def)
  moreover have "\<exists>k. set_process_fd 0 None example_kernel = Some k"
    by (simp add: set_process_fd_def example_current mem_store_def) (simp add: example_process_def process_zero_def)
  ultimately have "\<exists>k. sys_close (of_int 0) example_kernel = Some (k, 0)"
    by (auto simp: sys_close_def int_arg_def)
  then obtain k where "sys_close (of_int 0) example_kernel = Some (k, 0)" by blast
  from closed_descriptor [OF this] show ?thesis using \<open>sys_close (of_int 0) example_kernel = Some (k, 0)\<close> by auto
qed

lemma unknown_syscall_witness:
  "\<exists>k r. syscall_handler env ((the (p_regs (example_process 5 1)))\<lparr>rax := 99\<rparr>) example_kernel = Some (k, r, Returned (- 22)) \<and> rax r = - 22"
  using unknown_syscall [OF example_current, of "(the (p_regs (example_process 5 1)))\<lparr>rax := 99\<rparr>" env] by simp

end
