(* ===== verification/Kprintf.thy ===== *)
theory Kprintf
  imports Cstring
begin

text \<open>
  The kernel's formatted output, \<open>kernel/lib/kprintf.c\<close>. The format is the text that is still to
  be scanned; past its end the scan would read behind the terminator. The variable arguments are
  a list of 64-bit words and texts, taken in order; asking for one that is not there, or of the
  other kind, is \<open>None\<close>. The result is the text put on the terminal, the count of characters and
  what \<open>%n\<close> stored, with the width of the place.

  Numbers are built in a zeroed buffer of 256 bytes and padded by writing at \<open>strlen\<close>: the model
  keeps the text in it, and a text of more than 255 characters has lost its terminator.
\<close>

section \<open>Numbers\<close>

definition digit_table :: "nat \<Rightarrow> string" where
  "digit_table base = (if base = 16 then ''0123456789ABCDEF''
     else if base = 17 then ''0123456789abcdef'' else ''0123456789'')"

text \<open>
  The digits from the last to the first. The bases used are 8, 10 and 16; for a base below 2 the
  loop would not end, which the guard avoids.
\<close>

function digit_loop :: "string \<Rightarrow> nat \<Rightarrow> nat \<Rightarrow> string \<Rightarrow> string" where
  "digit_loop digit base i p =
     (let p = digit ! (i mod base) # p
      in if i div base = 0 \<or> base < 2 then p else digit_loop digit base (i div base) p)"
  by pat_completeness auto
termination
proof (relation "measure (\<lambda>(_, _, i, _). i)", goal_cases)
  case (2 digit base i p)
  then show ?case by (cases "i = 0") (auto intro: div_less_dividend)
qed simp

declare digit_loop.simps [simp del]

definition put_zeros :: "nat \<Rightarrow> bool \<Rightarrow> string" where
  "put_zeros padding zero_pad = replicate padding (if zero_pad then CHR ''0'' else CHR '' '')"

definition int_str :: "int \<Rightarrow> nat \<Rightarrow> bool \<Rightarrow> bool \<Rightarrow> int \<Rightarrow> bool \<Rightarrow> bool \<Rightarrow> string option" where
  "int_str i base plus_sign space_sign padding_no justify zero_pad =
     (if i = - 9223372036854775808 then None
      else let digit = digit_table base;
               base = (if base = 17 then 16 else base);
               sign = (if i < 0 then ''-'' else if plus_sign then ''+'' else if space_sign then '' '' else '''');
               b = sign @ digit_loop digit base (nat \<bar>i\<bar>) [];
               padding = nat (padding_no - int (length b));
               b = (if justify then b @ put_zeros padding zero_pad else put_zeros padding zero_pad @ b)
           in if length b \<le> 255 then Some b else None)"

section \<open>Conversion specifications\<close>

datatype va = Va_word u64 | Va_text string

record spec =
  left_justify :: bool
  plus_sign :: bool
  alt_form :: bool
  space_no_sign :: bool
  zero_pad :: bool
  length_spec :: int
  prec_spec :: int
  length_mod :: char

definition spec_init :: spec where
  "spec_init = \<lparr>left_justify = False, plus_sign = False, alt_form = False, space_no_sign = False, zero_pad = False,
     length_spec = 0, prec_spec = 0, length_mod = NUL\<rparr>"

fun parse_flags :: "string \<Rightarrow> spec \<Rightarrow> spec \<times> string" where
  "parse_flags [] s = (s, [])"
| "parse_flags (c # cs) s =
     (if c = CHR ''-'' then parse_flags cs (s\<lparr>left_justify := True\<rparr>)
      else if c = CHR ''+'' then parse_flags cs (s\<lparr>plus_sign := True\<rparr>)
      else if c = CHR ''#'' then parse_flags cs (s\<lparr>alt_form := True\<rparr>)
      else if c = CHR '' '' then parse_flags cs (s\<lparr>space_no_sign := True\<rparr>)
      else if c = CHR ''0'' then parse_flags cs (s\<lparr>zero_pad := True\<rparr>)
      else (s, c # cs))"

fun parse_digits :: "string \<Rightarrow> int \<Rightarrow> int \<times> string" where
  "parse_digits [] n = (n, [])"
| "parse_digits (c # cs) n = (if isdigit c then parse_digits cs (n * 10 + (int (of_char c) - 48)) else (n, c # cs))"

definition next_word :: "va list \<Rightarrow> (u64 \<times> va list) option" where
  "next_word args = (case args of Va_word w # args \<Rightarrow> Some (w, args) | _ \<Rightarrow> None)"

definition next_text :: "va list \<Rightarrow> (string \<times> va list) option" where
  "next_text args = (case args of Va_text s # args \<Rightarrow> Some (s, args) | _ \<Rightarrow> None)"

text \<open>Width or precision: digits, which must not overflow an \<open>int\<close>, or an argument.\<close>

definition parse_count :: "string \<Rightarrow> va list \<Rightarrow> (int \<times> string \<times> va list) option" where
  "parse_count fmt args = (let (n, fmt) = parse_digits fmt 0 in
     if n > 2147483647 then None
     else if fmt \<noteq> [] \<and> hd fmt = CHR ''*'' then do {
       (w, args) \<leftarrow> next_word args;
       Some (sint (ucast w :: u32), tl fmt, args) }
     else Some (n, fmt, args))"

definition parse_length :: "string \<Rightarrow> char \<times> string" where
  "parse_length fmt = (case fmt of [] \<Rightarrow> (NUL, [])
     | c # cs \<Rightarrow>
         if c \<in> {CHR ''h'', CHR ''l'', CHR ''j'', CHR ''z'', CHR ''t'', CHR ''L''} then
           (if cs \<noteq> [] \<and> hd cs = CHR ''h'' then (CHR ''H'', cs)
            else if cs \<noteq> [] \<and> hd cs = CHR ''l'' then (CHR ''q'', tl cs)
            else (c, cs))
         else (NUL, c # cs))"

definition parse_spec :: "string \<Rightarrow> va list \<Rightarrow> (spec \<times> string \<times> va list) option" where
  "parse_spec fmt args = (let (s, fmt) = parse_flags fmt spec_init in
     do {
       (width, fmt, args) \<leftarrow> parse_count fmt args;
       (prec, fmt, args) \<leftarrow> (if fmt \<noteq> [] \<and> hd fmt = CHR ''.'' then parse_count (tl fmt) args else Some (6, fmt, args));
       let (l, fmt) = parse_length fmt;
       Some (s\<lparr>length_spec := width, prec_spec := prec, length_mod := l\<rparr>, fmt, args) })"

section \<open>Output\<close>

record kp =
  kp_out :: string
  kp_chars :: int
  kp_args :: "va list"
  kp_stores :: "(char \<times> int) list"

definition put_text :: "string \<Rightarrow> kp \<Rightarrow> kp" where
  "put_text t st = st\<lparr>kp_out := kp_out st @ t, kp_chars := kp_chars st + int (length t)\<rparr>"

definition print_int :: "int \<Rightarrow> nat \<Rightarrow> spec \<Rightarrow> kp \<Rightarrow> kp option" where
  "print_int i base s st = do {
     t \<leftarrow> int_str i base (plus_sign s) (space_no_sign s) (length_spec s) (left_justify s) (zero_pad s);
     Some (put_text t st) }"

text \<open>
  The argument of an unsigned and of a signed conversion, as the \<open>intmax_t\<close> that is printed; with
  the modifier \<open>L\<close> no argument is taken.
\<close>

definition unsigned_value :: "char \<Rightarrow> u64 \<Rightarrow> int option" where
  "unsigned_value l w = (if l = NUL then Some (uint (ucast w :: u32))
     else if l = CHR ''H'' then Some (uint (ucast w :: u8))
     else if l = CHR ''h'' then Some (uint (ucast w :: u16))
     else if l \<in> {CHR ''l'', CHR ''q'', CHR ''j'', CHR ''z'', CHR ''t''} then Some (sint w)
     else None)"

definition signed_value :: "char \<Rightarrow> u64 \<Rightarrow> int option" where
  "signed_value l w = (if l = NUL then Some (sint (ucast w :: u32))
     else if l = CHR ''H'' then Some (sint (ucast w :: u8))
     else if l = CHR ''h'' then Some (sint (ucast w :: u16))
     else if l \<in> {CHR ''l'', CHR ''q'', CHR ''j'', CHR ''z'', CHR ''t''} then Some (sint w)
     else None)"

definition print_arg :: "(char \<Rightarrow> u64 \<Rightarrow> int option) \<Rightarrow> nat \<Rightarrow> spec \<Rightarrow> kp \<Rightarrow> kp option" where
  "print_arg value base s st =
     (if value (length_mod s) 0 = None then Some st
      else do {
        (w, args) \<leftarrow> next_word (kp_args st);
        i \<leftarrow> value (length_mod s) w;
        print_int i base s (st\<lparr>kp_args := args\<rparr>) })"

definition print_char :: "kp \<Rightarrow> kp option" where
  "print_char st = do {
     (w, args) \<leftarrow> next_word (kp_args st);
     Some (put_text [char_of (unat w mod 256)] (st\<lparr>kp_args := args\<rparr>)) }"

definition print_string :: "kp \<Rightarrow> kp option" where
  "print_string st = do {
     (t, args) \<leftarrow> next_text (kp_args st);
     Some (put_text t (st\<lparr>kp_args := args\<rparr>)) }"

definition store_count :: "spec \<Rightarrow> kp \<Rightarrow> kp option" where
  "store_count s st =
     (if length_mod s \<notin> {NUL, CHR ''H'', CHR ''h'', CHR ''l'', CHR ''q'', CHR ''j'', CHR ''z'', CHR ''t''} then Some st
      else do {
        (w, args) \<leftarrow> next_word (kp_args st);
        Some (st\<lparr>kp_args := args, kp_stores := kp_stores st @ [(length_mod s, kp_chars st)]\<rparr>) })"

text \<open>The exponent is always 0 and the mantissa is not printed.\<close>

definition print_exponent :: "string \<Rightarrow> kp \<Rightarrow> kp option" where
  "print_exponent mark st = do {
     t \<leftarrow> int_str 0 10 False False 2 False True;
     Some (put_text t (put_text mark st)) }"

text \<open>An octal number is an unsigned one in base 8, a pointer a \<open>size_t\<close> in base 16; \<open>X\<close> falls into \<open>x\<close> and that into \<open>u\<close>.\<close>

definition convert :: "spec \<Rightarrow> char \<Rightarrow> kp \<Rightarrow> kp option" where
  "convert s c st =
     (if c = CHR ''o'' then print_arg unsigned_value 8 s (if alt_form s then put_text ''0'' st else st)
      else if c = CHR ''p'' then print_arg unsigned_value 16 (s\<lparr>length_mod := CHR ''z''\<rparr>) st
      else if c = CHR ''X'' then print_arg unsigned_value 16 s (if alt_form s then put_text ''0x'' st else st)
      else if c = CHR ''x'' then print_arg unsigned_value 17 s (if alt_form s then put_text ''0x'' st else st)
      else if c = CHR ''u'' then print_arg unsigned_value 10 s st
      else if c = CHR ''d'' \<or> c = CHR ''i'' then print_arg signed_value 10 s st
      else if c = CHR ''c'' then print_char st
      else if c = CHR ''s'' then print_string st
      else if c = CHR ''n'' then store_count s st
      else if c = CHR ''e'' then print_exponent ''e+'' st
      else if c = CHR ''E'' then print_exponent ''E+'' st
      else Some st)"

section \<open>The scan of the format\<close>

lemma parse_flags_length: "length (snd (parse_flags fmt s)) \<le> length fmt"
  by (induction fmt s rule: parse_flags.induct) (auto simp: le_SucI)

lemma parse_digits_length: "length (snd (parse_digits fmt n)) \<le> length fmt"
  by (induction fmt n rule: parse_digits.induct) (auto simp: le_SucI)

lemma parse_count_length: "parse_count fmt args = Some (n, rest, args') \<Longrightarrow> length rest \<le> length fmt"
  using parse_digits_length [of fmt 0]
  by (auto simp: parse_count_def split: prod.splits if_splits Option.bind_split_asm)

lemma parse_length_length: "length (snd (parse_length fmt)) \<le> length fmt"
  by (auto simp: parse_length_def split: list.split)

lemma parse_spec_length: "parse_spec fmt args = Some (s, rest, args') \<Longrightarrow> length rest \<le> length fmt"
proof -
  assume p: "parse_spec fmt args = Some (s, rest, args')"
  obtain s1 f1 where f1: "parse_flags fmt spec_init = (s1, f1)" by fastforce
  obtain w f2 a2 where f2: "parse_count f1 args = Some (w, f2, a2)"
    using p f1 by (auto simp: parse_spec_def elim!: bind_SomeE)
  obtain pr f3 a3 where f3: "(if f2 \<noteq> [] \<and> hd f2 = CHR ''.'' then parse_count (tl f2) a2 else Some (6, f2, a2)) = Some (pr, f3, a3)"
    using p f1 f2 by (auto simp: parse_spec_def elim!: bind_SomeE)
  have "rest = snd (parse_length f3)" using p f1 f2 f3 by (auto simp: parse_spec_def split: prod.splits)
  moreover have "length f1 \<le> length fmt" using parse_flags_length [of fmt spec_init] f1 by simp
  moreover have "length f2 \<le> length f1" using parse_count_length [OF f2] .
  moreover have "length f3 \<le> length f2"
    using f3 parse_count_length [of "tl f2" a2 pr f3 a3] by (auto split: if_splits)
  ultimately show ?thesis using parse_length_length [of f3] by simp
qed

text \<open>A specification that is cut off by the end of the format lets the scan run past the terminator.\<close>

function (sequential) kvprintf_loop :: "string \<Rightarrow> kp \<Rightarrow> kp option" where
  "kvprintf_loop [] st = Some st"
| "kvprintf_loop (c # fmt) st =
     (if c \<noteq> CHR ''%'' then kvprintf_loop fmt (put_text [c] st)
      else (case parse_spec fmt (kp_args st) of
          Some (s, specifier # rest, args) \<Rightarrow>
            (case convert s specifier (st\<lparr>kp_args := args\<rparr>) of
               Some st \<Rightarrow> kvprintf_loop rest st | None \<Rightarrow> None)
        | _ \<Rightarrow> None))"
  by pat_completeness auto
termination
  by (relation "measure (\<lambda>(fmt, _). length fmt)") (auto dest: parse_spec_length)

definition kvprintf :: "string \<Rightarrow> va list \<Rightarrow> kp option" where
  "kvprintf format args = kvprintf_loop format \<lparr>kp_out = [], kp_chars = 0, kp_args = args, kp_stores = []\<rparr>"

definition kprintf :: "string \<Rightarrow> va list \<Rightarrow> (string \<times> int) option" where
  "kprintf format args = map_option (\<lambda>st. (kp_out st, kp_chars st)) (kvprintf format args)"

section \<open>What is printed\<close>

lemma digit_loop_digits:
  "2 \<le> base \<Longrightarrow> digit_loop digit base i p = map ((!) digit) (rev (lsd_digits base i)) @ p"
proof (induction base i arbitrary: p rule: lsd_digits.induct)
  case (1 base i)
  then show ?case
    by (cases "i < base") (simp_all add: digit_loop.simps [of digit base i] lsd_digits.simps [of base i] Let_def div_eq_0_iff)
qed

lemma lsd_digits_length: "t < 10 ^ n \<Longrightarrow> 0 < n \<Longrightarrow> length (lsd_digits 10 t) \<le> n"
proof (induction n arbitrary: t)
  case (Suc n)
  show ?case
  proof (cases "t < 10")
    case False
    then have "t div 10 < 10 ^ n" "0 < n" using Suc.prems by (cases n; simp add: less_mult_imp_div_less)+
    then show ?thesis using Suc.IH [of "t div 10"] False by (simp add: lsd_digits.simps [of 10 t])
  qed (simp add: lsd_digits.simps [of 10 t])
qed simp

lemma decimal_digits:
  "map ((!) ''0123456789'') (rev (lsd_digits 10 t)) = map ((!) alphabet) (rev (lsd_digits 10 t))"
proof -
  have "''0123456789'' = take 10 alphabet" by (simp add: alphabet_def)
  then have "''0123456789'' ! d = alphabet ! d" if "d < 10" for d using that by simp
  then show ?thesis using lsd_digits_less [of 10 _ t] by (simp add: map_eq_conv)
qed

lemma int_str_decimal:
  assumes "\<bar>i\<bar> < 1000000000000000000"
  shows "int_str i 10 False False 0 False False = Some (int_text 10 i)"
proof -
  have "nat \<bar>i\<bar> < 10 ^ 18" using assms by simp
  then have "length (lsd_digits 10 (nat \<bar>i\<bar>)) \<le> 18" by (rule lsd_digits_length) simp
  moreover have "i \<noteq> - 9223372036854775808" using assms by auto
  ultimately show ?thesis
    by (simp add: int_str_def digit_table_def digit_loop_digits decimal_digits put_zeros_def int_text_def Let_def abs_if split: if_splits)
qed

lemma kvprintf_plain:
  "CHR ''%'' \<notin> set s \<Longrightarrow> kvprintf_loop (s @ fmt) st = kvprintf_loop fmt (put_text s st)"
proof (induction s arbitrary: st)
  case (Cons c s)
  then show ?case by (auto simp: put_text_def add.assoc)
qed (simp add: put_text_def)

lemma parse_simple:
  "parse_spec (CHR ''d'' # fmt) args = Some (spec_init\<lparr>prec_spec := 6\<rparr>, CHR ''d'' # fmt, args)"
proof -
  have "\<not> isdigit CHR ''d''" by (simp add: isdigit_def less_eq_char_def)
  then show ?thesis by (simp add: parse_spec_def parse_count_def parse_length_def spec_init_def)
qed

text \<open>
  Text is printed as it is and \<open>%d\<close> prints the decimal representation of its argument as an
  \<open>int\<close>, the text that \<open>itoa\<close> would produce; the count returned is the number of characters.
\<close>

lemma kprintf_decimal:
  assumes "CHR ''%'' \<notin> set s" and "CHR ''%'' \<notin> set t"
  shows "kprintf (s @ ''%d'' @ t) [Va_word w] =
    (let out = s @ int_text 10 (sint (ucast w :: u32)) @ t in Some (out, int (length out)))"
proof -
  let ?i = "sint (ucast w :: u32)"
  have "- (2 ^ 31) \<le> ?i" "?i < 2 ^ 31" using sint_ge [of "ucast w :: u32"] sint_lt [of "ucast w :: u32"] by simp_all
  then have "int_str ?i 10 False False 0 False False = Some (int_text 10 ?i)"
    by (intro int_str_decimal) simp
  then have c: "convert (spec_init\<lparr>prec_spec := 6\<rparr>) CHR ''d'' st = Some (put_text (int_text 10 ?i) (st\<lparr>kp_args := args\<rparr>))"
    if "kp_args st = Va_word w # args" for st args
    by (simp add: convert_def print_arg_def print_int_def signed_value_def next_word_def that spec_init_def)
  show ?thesis
    using kvprintf_plain [OF assms(2), of "[]"]
    by (simp add: kprintf_def kvprintf_def kvprintf_plain [OF assms(1)] parse_simple c put_text_def Let_def)
qed

lemma print_int_count: "print_int i base s st = Some st' \<Longrightarrow> kp_chars st = int (length (kp_out st)) \<Longrightarrow> kp_chars st' = int (length (kp_out st'))"
  by (auto simp: print_int_def put_text_def split: Option.bind_split_asm)

lemma convert_count:
  assumes "convert s c st = Some st'" and "kp_chars st = int (length (kp_out st))"
  shows "kp_chars st' = int (length (kp_out st'))"
proof -
  have p: "kp_chars (put_text t x) = int (length (kp_out (put_text t x)))" if "kp_chars x = int (length (kp_out x))" for t x
    using that by (simp add: put_text_def)
  have a: "kp_chars st' = int (length (kp_out st'))"
    if "print_arg val base s x = Some st'" "kp_chars x = int (length (kp_out x))" for val base s x
    using that print_int_count by (fastforce simp: print_arg_def split: if_splits Option.bind_split_asm)
  show ?thesis
    using assms a p
    by (auto simp: convert_def print_char_def print_string_def store_count_def print_exponent_def
        split: if_splits elim!: bind_SomeE)
qed

text \<open>
  The count that \<open>kprintf\<close> returns is the number of characters it put on the terminal, for
  every format and all arguments it accepts.
\<close>

lemma kprintf_count:
  "kprintf format args = Some (out, n) \<Longrightarrow> n = int (length out)"
proof -
  have "kp_chars st' = int (length (kp_out st'))"
    if "kvprintf_loop fmt st = Some st'" "kp_chars st = int (length (kp_out st))" for fmt st st'
    using that
  proof (induction fmt st rule: kvprintf_loop.induct)
    case (2 c fmt st)
    show ?case
    proof (cases "c = CHR ''%''")
      case True
      then obtain s x rest args st1 where "parse_spec fmt (kp_args st) = Some (s, x # rest, args)"
        "convert s x (st\<lparr>kp_args := args\<rparr>) = Some st1" "kvprintf_loop rest st1 = Some st'"
        using 2(3) by (auto split: option.splits list.splits)
      then show ?thesis using 2(2) [of _ s _ _ args x rest st1] True 2(4) convert_count [of s x "st\<lparr>kp_args := args\<rparr>" st1] by simp
    next
      case False
      then show ?thesis using 2 by (simp add: put_text_def)
    qed
  qed simp
  then show "kprintf format args = Some (out, n) \<Longrightarrow> n = int (length out)"
    by (auto simp: kprintf_def kvprintf_def)
qed

text \<open>
  Zeros that pad to the left-justified side change the number, a number padded with zeros has its
  sign behind them, \<open>%hhd\<close> prints nothing but the \<open>d\<close>, and a format that ends in a percent
  sign is scanned past its end.
\<close>

lemma kprintf_padding:
  "kprintf ''%-04d'' [Va_word 5] = Some (''5000'', 4)" "kprintf ''%04d'' [Va_word (- 5)] = Some (''00-5'', 4)"
  "kprintf ''%hhd'' [Va_word 5] = Some (''d'', 1)" "kprintf ''100%'' [] = None"
  by code_simp+

section \<open>Witnesses\<close>

lemma kprintf_decimal_witness: "kprintf ''a=%d;'' [Va_word (- 42)] = Some (''a=-42;'', 6)"
proof -
  have "int_text 10 (- 42) = ''-42''"
    by (simp add: int_text_def lsd_digits.simps alphabet_def)
  then show ?thesis using kprintf_decimal [of "''a=''" "'';''" "- 42"] by simp
qed

lemma kprintf_count_witness: "kprintf ''100 %s'' [Va_text ''bytes''] = Some (''100 bytes'', 9) \<and> (9 :: int) = int (length ''100 bytes'')"
proof -
  have k: "kprintf ''100 %s'' [Va_text ''bytes''] = Some (''100 bytes'', 9)" by code_simp
  from kprintf_count [OF this] show ?thesis using k by simp
qed

end
