(* ===== verification/Terminal.thy ===== *)
theory Terminal
  imports Cstring
begin

unbundle bit_operations_syntax

text \<open>
  The terminals: the front end \<open>kernel/lib/terminal.c\<close>, the text screen \<open>kernel/video/vga_terminal.c\<close>
  and the frame buffer \<open>kernel/video/lfb.c\<close> with its terminal \<open>lfb_terminal.c\<close>. The pixels are lists
  of 32-bit cells, the text screen a list of 16-bit cells; writing behind one of them is \<open>None\<close>. The
  front end calls the driver in the variable \<open>terminal\<close>, and the frame buffer terminal calls the
  front end for the line break at the end of a row, so the two are one function on the driver. The
  offsets of pixels are natural numbers; the code has them in 32 bits, which the 16-bit width and height
  of a mode cannot exceed.
\<close>

section \<open>State\<close>

datatype driver = Vga_terminal | Lfb_terminal

record font =
  character_size :: u8
  font_buffer :: "u8 list"

record screen =
  terminal_row :: nat
  terminal_column :: nat
  text_color :: u32
  terminal :: driver
  terminal_rows :: nat
  terminal_columns :: nat
  terminal_color :: u8
  terminal_buffer :: "u16 list"
  vga_membuffer :: "u8 list"
  linear_framebuffer :: "u32 list"
  lfb_membuffer :: "u32 list option"
  lfb_width :: nat
  lfb_height :: nat
  lfb_rows :: nat
  lfb_columns :: nat
  lfb_font :: "font option"

text \<open>
  The variable \<open>terminal\<close> of the front end is a copy of the driver's structure, made when the driver is
  selected: the driver's number of rows and columns at that time. The text screen's driver declares
  \<open>VGA_HEIGHT\<close> columns; the frame buffer's numbers are those of \<open>lfb_terminal\<close>, which
  \<open>lfb_terminal_init\<close> sets in the driver's structure only.
\<close>

abbreviation (input) VGA_WIDTH :: nat where "VGA_WIDTH \<equiv> 80"
abbreviation (input) VGA_HEIGHT :: nat where "VGA_HEIGHT \<equiv> 25"

definition terminal_set_row :: "nat \<Rightarrow> screen \<Rightarrow> screen" where
  "terminal_set_row row s = s\<lparr>terminal_row := row\<rparr>"

definition terminal_set_column :: "nat \<Rightarrow> screen \<Rightarrow> screen" where
  "terminal_set_column column s = s\<lparr>terminal_column := column\<rparr>"

definition terminal_set_color :: "u32 \<Rightarrow> screen \<Rightarrow> screen" where
  "terminal_set_color newcolor s = s\<lparr>text_color := newcolor\<rparr>"

section \<open>The text screen\<close>

definition terminal_vga_color :: "u8 \<Rightarrow> u8 \<Rightarrow> u8" where
  "terminal_vga_color fg bg = fg OR push_bit 4 bg"

definition terminal_vga_entry :: "u8 \<Rightarrow> u8 \<Rightarrow> u16" where
  "terminal_vga_entry c color = push_bit 8 (ucast color) OR ucast c"

definition vga_terminal_init :: "screen \<Rightarrow> screen" where
  "vga_terminal_init s = s\<lparr>terminal_color := terminal_vga_color 7 0, terminal_row := 0, terminal_column := 0\<rparr>"

definition vga_terminal_set_color :: "u8 \<Rightarrow> screen \<Rightarrow> screen" where
  "vga_terminal_set_color color s = s\<lparr>terminal_color := color\<rparr>"

definition vga_terminal_putentryat :: "u8 \<Rightarrow> u8 \<Rightarrow> nat \<Rightarrow> nat \<Rightarrow> screen \<Rightarrow> screen option" where
  "vga_terminal_putentryat c color x y s = do {
     b \<leftarrow> mem_store (terminal_buffer s) (y * VGA_WIDTH + x) (terminal_vga_entry c color);
     m \<leftarrow> mem_store (vga_membuffer s) (y * VGA_WIDTH + x) c;
     Some (s\<lparr>terminal_buffer := b, vga_membuffer := m\<rparr>) }"

definition vga_next_row :: "screen \<Rightarrow> screen" where
  "vga_next_row s = s\<lparr>terminal_column := 0,
     terminal_row := (if Suc (terminal_row s) = VGA_HEIGHT then 0 else Suc (terminal_row s))\<rparr>"

definition vga_terminal_putchar :: "u8 \<Rightarrow> screen \<Rightarrow> screen option" where
  "vga_terminal_putchar c s =
     (if c = 10 then Some (vga_next_row s)
      else do {
        s \<leftarrow> vga_terminal_putentryat c (terminal_color s) (terminal_column s) (terminal_row s) s;
        Some (if Suc (terminal_column s) = VGA_WIDTH then vga_next_row s
              else s\<lparr>terminal_column := Suc (terminal_column s)\<rparr>) })"

definition vga_terminal_clear_terminal :: "screen \<Rightarrow> screen option" where
  "vga_terminal_clear_terminal s = for_each [0..<VGA_HEIGHT] (\<lambda>y. for_each [0..<VGA_WIDTH] (\<lambda>x s.
     vga_terminal_putentryat 32 (terminal_color s) x y s)) s"

section \<open>The frame buffer\<close>

definition lfb_set_pixel :: "nat \<Rightarrow> nat \<Rightarrow> u32 \<Rightarrow> screen \<Rightarrow> screen option" where
  "lfb_set_pixel x y color s =
     (if x \<ge> lfb_width s \<or> y \<ge> lfb_height s then Some s
      else do {
        let offset = x + y * lfb_width s;
        fb \<leftarrow> mem_store (linear_framebuffer s) offset color;
        let s = s\<lparr>linear_framebuffer := fb\<rparr>;
        (case lfb_membuffer s of None \<Rightarrow> Some s
         | Some mb \<Rightarrow> do { mb \<leftarrow> mem_store mb offset color; Some (s\<lparr>lfb_membuffer := Some mb\<rparr>) }) })"

definition lfb_get_pixel :: "nat \<Rightarrow> nat \<Rightarrow> screen \<Rightarrow> u32 option" where
  "lfb_get_pixel x y s =
     (if x \<ge> lfb_width s \<or> y \<ge> lfb_height s then Some 0
      else mem_load (case lfb_membuffer s of Some mb \<Rightarrow> mb | None \<Rightarrow> linear_framebuffer s) (x + y * lfb_width s))"

definition lfb_set_membuffer :: "u32 list option \<Rightarrow> screen \<Rightarrow> screen" where
  "lfb_set_membuffer buffer s = s\<lparr>lfb_membuffer := buffer\<rparr>"

definition lfb_terminal_init :: "screen \<Rightarrow> screen" where
  "lfb_terminal_init s = s\<lparr>lfb_columns := lfb_width s div 8, lfb_rows := lfb_height s div 16\<rparr>"

definition lfb_terminal_set_font :: "font option \<Rightarrow> screen \<Rightarrow> screen" where
  "lfb_terminal_set_font f s = s\<lparr>lfb_font := f\<rparr>"

text \<open>
  The line break: at the last row everything moves up by the height of a character, in the copy
  in memory, which is then copied out; a row of text is \<open>lfb_width * 16\<close> pixels.
\<close>

definition lfb_line_break :: "screen \<Rightarrow> screen option" where
  "lfb_line_break s = (let s = s\<lparr>terminal_column := 0\<rparr> in
     if terminal_row s + 1 \<ge> lfb_rows s then do {
       mb \<leftarrow> lfb_membuffer s;
       let row_length = lfb_width s * 16;
       bytes \<leftarrow> mem_read mb row_length (row_length * (lfb_rows s - 1));
       mb \<leftarrow> mem_write mb 0 bytes;
       mb \<leftarrow> mem_write mb (row_length * (lfb_rows s - 1)) (replicate row_length 0);
       bytes \<leftarrow> mem_read mb 0 (lfb_width s * lfb_height s);
       fb \<leftarrow> mem_write (linear_framebuffer s) 0 bytes;
       Some (s\<lparr>lfb_membuffer := Some mb, linear_framebuffer := fb\<rparr>) }
     else Some (s\<lparr>terminal_row := Suc (terminal_row s)\<rparr>))"

text \<open>A character is signed: one above 127 would take its face from before the font's buffer.\<close>

definition lfb_draw :: "u8 \<Rightarrow> screen \<Rightarrow> screen option" where
  "lfb_draw ch s = do {
     f \<leftarrow> lfb_font s;
     if 128 \<le> ch then None
     else for_each [0..<16] (\<lambda>j s. do {
       face \<leftarrow> mem_load (font_buffer f) (unat ch * unat (character_size f) + j);
       for_each [0..<8] (\<lambda>i s.
         lfb_set_pixel (terminal_column s * 8 + i) (terminal_row s * 16 + j)
           (if bit face (7 - i) then text_color s else 0) s) s }) s }"

text \<open>
  \<open>lfb_terminal_putchar\<close>; the line break at the end of a row goes through the front end, to
  whichever driver is current.
\<close>

definition lfb_terminal_putchar :: "u8 \<Rightarrow> screen \<Rightarrow> screen option" where
  "lfb_terminal_putchar ch s =
     (if ch = 10 then lfb_line_break s
      else do {
        s \<leftarrow> lfb_draw ch s;
        let s = s\<lparr>terminal_column := Suc (terminal_column s)\<rparr>;
        if terminal_column s \<ge> lfb_columns s
        then (case terminal s of Vga_terminal \<Rightarrow> vga_terminal_putchar 10 s | Lfb_terminal \<Rightarrow> lfb_line_break s)
        else Some s })"

definition lfb_terminal_clear :: "screen \<Rightarrow> screen option" where
  "lfb_terminal_clear s = for_each [0..<lfb_height s] (\<lambda>y. for_each [0..<lfb_width s] (\<lambda>x. lfb_set_pixel x y 0)) s"

text \<open>The characters of a row of the text screen up to the first empty cell.\<close>

definition lfb_copy_row :: "nat \<Rightarrow> screen \<Rightarrow> screen option" where
  "lfb_copy_row y s = do {
     row \<leftarrow> mem_read (vga_membuffer s) (y * VGA_WIDTH) VGA_WIDTH;
     s \<leftarrow> for_each (takeWhile (\<lambda>c. c \<noteq> 0) row) lfb_terminal_putchar s;
     Some (s\<lparr>terminal_row := Suc (terminal_row s), terminal_column := 0\<rparr>) }"

definition lfb_copy_from_vga :: "screen \<Rightarrow> screen option" where
  "lfb_copy_from_vga s = do {
     t \<leftarrow> for_each [0..<VGA_HEIGHT] lfb_copy_row (s\<lparr>terminal_row := 0, terminal_column := 0\<rparr>);
     Some (t\<lparr>terminal_row := terminal_row s, terminal_column := terminal_column s\<rparr>) }"

section \<open>The front end\<close>

definition terminal_init :: "screen \<Rightarrow> screen" where
  "terminal_init s = (let s = s\<lparr>text_color := 0xFFFFFFFF\<rparr> in
     case terminal s of Vga_terminal \<Rightarrow> vga_terminal_init s | Lfb_terminal \<Rightarrow> lfb_terminal_init s)"

definition terminal_clear_terminal :: "screen \<Rightarrow> screen option" where
  "terminal_clear_terminal s = (case terminal s of
     Vga_terminal \<Rightarrow> vga_terminal_clear_terminal s | Lfb_terminal \<Rightarrow> lfb_terminal_clear s)"

definition terminal_putchar :: "u8 \<Rightarrow> screen \<Rightarrow> screen option" where
  "terminal_putchar c s = (case terminal s of
     Vga_terminal \<Rightarrow> vga_terminal_putchar c s | Lfb_terminal \<Rightarrow> lfb_terminal_putchar c s)"

definition terminal_put :: "u8 list \<Rightarrow> nat \<Rightarrow> screen \<Rightarrow> screen option" where
  "terminal_put str n s = for_each [0..<n] (\<lambda>i s. do { c \<leftarrow> mem_load str i; terminal_putchar c s }) s"

text \<open>Strings are cells with their terminator.\<close>

definition terminal_putstring :: "string \<Rightarrow> screen \<Rightarrow> screen option" where
  "terminal_putstring str s = do {
     n \<leftarrow> strlen str;
     terminal_put (map (\<lambda>c. of_nat (of_char c)) str) n s }"

text \<open>The assignments \<open>terminal = vga_terminal\<close> and \<open>terminal = lfb_terminal\<close> of \<open>kmain.c\<close>.\<close>

definition select_terminal :: "driver \<Rightarrow> screen \<Rightarrow> screen" where
  "select_terminal d s = s\<lparr>terminal := d,
     terminal_rows := (case d of Vga_terminal \<Rightarrow> VGA_HEIGHT | Lfb_terminal \<Rightarrow> lfb_rows s),
     terminal_columns := (case d of Vga_terminal \<Rightarrow> VGA_HEIGHT | Lfb_terminal \<Rightarrow> lfb_columns s)\<rparr>"

definition terminal_get_columns :: "screen \<Rightarrow> nat" where
  "terminal_get_columns s = terminal_columns s"

definition terminal_get_rows :: "screen \<Rightarrow> nat" where
  "terminal_get_rows s = terminal_rows s"

text \<open>
  \<open>kmain\<close> selects the frame buffer's terminal before it initialises it: the front end goes on to
  report the size from before, 0 rows of 0 columns at the first time.
\<close>

lemma lfb_size_not_reported:
  "terminal_get_columns (lfb_terminal_init (select_terminal Lfb_terminal s)) = lfb_columns s"
  "terminal_get_rows (lfb_terminal_init (select_terminal Lfb_terminal s)) = lfb_rows s"
  by (simp_all add: terminal_get_columns_def terminal_get_rows_def lfb_terminal_init_def select_terminal_def)

definition putchar :: "u32 \<Rightarrow> screen \<Rightarrow> (screen \<times> u32) option" where
  "putchar c s = map_option (\<lambda>s. (s, c)) (terminal_putchar (ucast c) s)"

definition puts :: "string \<Rightarrow> screen \<Rightarrow> (screen \<times> int) option" where
  "puts str s = do {
     s \<leftarrow> terminal_putstring str s;
     s \<leftarrow> terminal_putchar 10 s;
     Some (s, 0) }"

section \<open>The cursor stays on the screen\<close>

text \<open>The text screen: the cursor is on it and both buffers have its size.\<close>

definition vga_ok :: "screen \<Rightarrow> bool" where
  "vga_ok s \<longleftrightarrow> terminal_row s < VGA_HEIGHT \<and> terminal_column s < VGA_WIDTH
     \<and> length (terminal_buffer s) = VGA_HEIGHT * VGA_WIDTH \<and> length (vga_membuffer s) = VGA_HEIGHT * VGA_WIDTH"

text \<open>
  The frame buffer: the current cell lies inside, both buffers have the size of the screen, which
  is high enough for a line of text, and the font has a face of 16 bytes for every ASCII character.
\<close>

definition lfb_ok :: "screen \<Rightarrow> bool" where
  "lfb_ok s \<longleftrightarrow> terminal_row s < lfb_rows s \<and> terminal_column s < lfb_columns s
     \<and> lfb_rows s = lfb_height s div 16 \<and> lfb_columns s = lfb_width s div 8
     \<and> length (linear_framebuffer s) = lfb_width s * lfb_height s
     \<and> (\<exists>mb. lfb_membuffer s = Some mb \<and> length mb = lfb_width s * lfb_height s)
     \<and> (\<exists>f. lfb_font s = Some f \<and> 128 * unat (character_size f) + 16 \<le> length (font_buffer f))"

definition screen_ok :: "screen \<Rightarrow> bool" where
  "screen_ok s \<longleftrightarrow> (case terminal s of Vga_terminal \<Rightarrow> vga_ok s | Lfb_terminal \<Rightarrow> lfb_ok s)"

lemma vga_putchar_ok:
  assumes "vga_ok s"
  shows "\<exists>s'. vga_terminal_putchar c s = Some s' \<and> vga_ok s' \<and> terminal s' = terminal s"
proof -
  have "terminal_row s * 80 + terminal_column s < 2000" using assms by (auto simp: vga_ok_def)
  then show ?thesis
    using assms by (auto simp: vga_terminal_putchar_def vga_next_row_def vga_terminal_putentryat_def mem_store_def vga_ok_def)
qed

lemma pixel_in_range: "x < w \<Longrightarrow> y < h \<Longrightarrow> x + y * w < w * (h :: nat)"
proof -
  assume "x < w" "y < h"
  then have "x + y * w < Suc y * w" by simp
  also have "\<dots> \<le> h * w" using \<open>y < h\<close> by (intro mult_le_mono1) simp
  finally show ?thesis by (simp add: mult.commute)
qed

text \<open>Everything that drawing keeps: all but the pixels.\<close>

definition same_layout :: "screen \<Rightarrow> screen \<Rightarrow> bool" where
  "same_layout s s' \<longleftrightarrow> terminal_row s' = terminal_row s \<and> terminal_column s' = terminal_column s
     \<and> terminal s' = terminal s \<and> lfb_rows s' = lfb_rows s \<and> lfb_columns s' = lfb_columns s
     \<and> lfb_width s' = lfb_width s \<and> lfb_height s' = lfb_height s \<and> lfb_font s' = lfb_font s
     \<and> length (linear_framebuffer s') = length (linear_framebuffer s)
     \<and> map_option length (lfb_membuffer s') = map_option length (lfb_membuffer s)"

lemma set_pixel_ok:
  assumes "lfb_ok s"
  shows "\<exists>s'. lfb_set_pixel x y color s = Some s' \<and> lfb_ok s' \<and> same_layout s s'"
proof (cases "x < lfb_width s \<and> y < lfb_height s")
  case True
  then have "x + y * lfb_width s < lfb_width s * lfb_height s" by (simp add: pixel_in_range)
  then show ?thesis
    using assms True by (auto simp: lfb_set_pixel_def mem_store_def lfb_ok_def same_layout_def Let_def)
next
  case False
  then have "lfb_set_pixel x y color s = Some s" by (auto simp: lfb_set_pixel_def)
  then show ?thesis using assms by (simp add: same_layout_def)
qed

lemma same_layout_trans: "same_layout a b \<Longrightarrow> same_layout b c \<Longrightarrow> same_layout a c"
  by (simp add: same_layout_def)

lemma draw_row_ok:
  assumes "lfb_ok s"
  shows "\<exists>s'. for_each [0..<8] (\<lambda>i s. lfb_set_pixel (terminal_column s * 8 + i) (terminal_row s * 16 + j) (g i s) s) s = Some s'
    \<and> lfb_ok s' \<and> same_layout s s'"
proof (rule for_each_invariant [where P = "\<lambda>t. lfb_ok t \<and> same_layout s t"])
  fix i t
  assume t: "lfb_ok t \<and> same_layout s t"
  then obtain u where "lfb_set_pixel (terminal_column t * 8 + i) (terminal_row t * 16 + j) (g i t) t = Some u" "lfb_ok u" "same_layout t u"
    using set_pixel_ok by blast
  then show "\<exists>u. lfb_set_pixel (terminal_column t * 8 + i) (terminal_row t * 16 + j) (g i t) t = Some u \<and> lfb_ok u \<and> same_layout s u"
    using t same_layout_trans by blast
qed (use assms in \<open>simp add: same_layout_def\<close>)

lemma draw_ok:
  assumes ok: "lfb_ok s" and c: "ch < 128"
  shows "\<exists>s'. lfb_draw ch s = Some s' \<and> lfb_ok s' \<and> same_layout s s'"
proof -
  obtain f where f: "lfb_font s = Some f" "128 * unat (character_size f) + 16 \<le> length (font_buffer f)"
    using ok by (auto simp: lfb_ok_def)
  have "unat ch < 128" using c by unat_arith
  then have "unat ch * unat (character_size f) \<le> 127 * unat (character_size f)" by simp
  then have face: "unat ch * unat (character_size f) + j < length (font_buffer f)" if "j < 16" for j
    using f(2) that by linarith
  let ?row = "\<lambda>j t. do {
       face \<leftarrow> mem_load (font_buffer f) (unat ch * unat (character_size f) + j);
       for_each [0..<8] (\<lambda>i s.
         lfb_set_pixel (terminal_column s * 8 + i) (terminal_row s * 16 + j)
           (if bit face (7 - i) then text_color s else 0) s) t }"
  have "\<exists>s'. for_each [0..<16] ?row s = Some s' \<and> lfb_ok s' \<and> same_layout s s'"
  proof (rule for_each_invariant [where P = "\<lambda>t. lfb_ok t \<and> same_layout s t"])
    fix j t
    assume j: "j \<in> set [0..<16]" and t: "lfb_ok t \<and> same_layout s t"
    obtain u where "?row j t = Some u" "lfb_ok u" "same_layout t u"
      using draw_row_ok [of t j "\<lambda>i s. if bit (font_buffer f ! (unat ch * unat (character_size f) + j)) (7 - i) then text_color s else 0"] t j face [of j]
      by (auto simp: mem_load_def)
    then show "\<exists>u. ?row j t = Some u \<and> lfb_ok u \<and> same_layout s u" using t same_layout_trans by blast
  qed (use ok in \<open>simp add: same_layout_def\<close>)
  then show ?thesis using c by (simp add: lfb_draw_def f(1) linorder_not_le [symmetric])
qed

lemma line_break_ok:
  assumes "lfb_ok (s\<lparr>terminal_column := 0\<rparr>)"
  shows "\<exists>s'. lfb_line_break s = Some s' \<and> lfb_ok s' \<and> terminal s' = terminal s"
proof (cases "terminal_row s + 1 \<ge> lfb_rows s")
  case False
  then show ?thesis using assms by (auto simp: lfb_line_break_def lfb_ok_def)
next
  case True
  obtain mb where mb: "lfb_membuffer s = Some mb" "length mb = lfb_width s * lfb_height s"
    "length (linear_framebuffer s) = lfb_width s * lfb_height s" and rows: "lfb_rows s = lfb_height s div 16" "0 < lfb_rows s"
    using assms by (auto simp: lfb_ok_def)
  let ?r = "lfb_width s * 16"
  have "?r * lfb_rows s \<le> lfb_width s * lfb_height s" using rows(1) by (simp add: mult.assoc)
  moreover have e: "?r + ?r * (lfb_rows s - 1) = ?r * lfb_rows s" using rows(2) by (cases "lfb_rows s") auto
  ultimately have le: "?r + ?r * (lfb_rows s - 1) \<le> length mb" using mb(2) by simp
  obtain b1 where b1: "mem_read mb ?r (?r * (lfb_rows s - 1)) = Some b1" "length b1 = ?r * (lfb_rows s - 1)"
    using le mem_read_length by (fastforce simp: mem_read_def)
  obtain m1 where m1: "mem_write mb 0 b1 = Some m1" "length m1 = length mb"
    using le b1(2) mem_write_length by (fastforce simp: mem_write_def)
  obtain m2 where m2: "mem_write m1 (?r * (lfb_rows s - 1)) (replicate ?r 0) = Some m2" "length m2 = length mb"
    using le m1(2) mem_write_length by (fastforce simp: mem_write_def)
  have "mem_read m2 0 (lfb_width s * lfb_height s) = Some m2" using m2(2) mb(2) by (simp add: mem_read_def)
  moreover have "mem_write (linear_framebuffer s) 0 m2 = Some m2" using m2(2) mb(2,3) by (simp add: mem_write_def)
  ultimately have "lfb_line_break s = Some (s\<lparr>terminal_column := 0, lfb_membuffer := Some m2, linear_framebuffer := m2\<rparr>)"
    using True mb(1) b1(1) m1(1) m2(1) by (simp add: lfb_line_break_def Let_def)
  then show ?thesis using assms m2(2) mb(2) by (auto simp: lfb_ok_def)
qed

lemma lfb_putchar_ok:
  assumes ok: "lfb_ok s" and t: "terminal s = Lfb_terminal" and c: "c < 128"
  shows "\<exists>s'. lfb_terminal_putchar c s = Some s' \<and> lfb_ok s' \<and> terminal s' = Lfb_terminal"
proof (cases "c = 10")
  case True
  have "lfb_ok (s\<lparr>terminal_column := 0\<rparr>)" using ok by (auto simp: lfb_ok_def)
  from line_break_ok [OF this] show ?thesis using True t by (simp add: lfb_terminal_putchar_def)
next
  case False
  obtain s1 where s1: "lfb_draw c s = Some s1" "lfb_ok s1" "same_layout s s1" using draw_ok [OF ok c] by blast
  have t1: "terminal s1 = Lfb_terminal" using s1(3) t by (simp add: same_layout_def)
  show ?thesis
  proof (cases "Suc (terminal_column s1) \<ge> lfb_columns s1")
    case True
    have "lfb_ok ((s1\<lparr>terminal_column := Suc (terminal_column s1)\<rparr>)\<lparr>terminal_column := 0\<rparr>)"
      using s1(2) by (auto simp: lfb_ok_def)
    from line_break_ok [OF this] show ?thesis
      using False True s1(1) t1 by (simp add: lfb_terminal_putchar_def Let_def)
  next
    case nobreak: False
    then have "lfb_ok (s1\<lparr>terminal_column := Suc (terminal_column s1)\<rparr>)" using s1(2) by (auto simp: lfb_ok_def)
    then show ?thesis using False nobreak s1(1) t1 by (simp add: lfb_terminal_putchar_def Let_def)
  qed
qed

text \<open>
  C35. Printing stays inside the screen: from any sane state of either terminal, every sequence of
  ASCII characters is printed without a write outside the text buffer, the frame buffer, its copy
  in memory or a read outside the font, and the cursor ends on the screen again.
\<close>

theorem terminal_stays_on_screen:
  assumes "screen_ok s" and "\<forall>c \<in> set str. c < 128"
  shows "\<exists>s'. for_each str terminal_putchar s = Some s' \<and> screen_ok s'"
proof (rule for_each_invariant)
  fix c t
  assume "c \<in> set str" and t: "screen_ok t"
  then show "\<exists>t'. terminal_putchar c t = Some t' \<and> screen_ok t'"
    using assms(2) vga_putchar_ok [of t c] lfb_putchar_ok [of t c]
    by (cases "terminal t") (auto simp: screen_ok_def terminal_putchar_def)
qed (rule assms(1))

section \<open>Witnesses\<close>

lemma terminal_stays_on_screen_witness:
  "\<exists>s'. for_each [72, 10, 105] terminal_putchar \<lparr>terminal_row = 24, terminal_column = 79, text_color = 0, terminal = Vga_terminal, terminal_rows = 25, terminal_columns = 25,
     terminal_color = 7, terminal_buffer = replicate 2000 0, vga_membuffer = replicate 2000 0, linear_framebuffer = [],
     lfb_membuffer = None, lfb_width = 0, lfb_height = 0, lfb_rows = 0, lfb_columns = 0, lfb_font = None\<rparr> = Some s' \<and> screen_ok s'"
  by (rule terminal_stays_on_screen) (simp_all add: screen_ok_def vga_ok_def)

end
