(* ===== verification/Interrupts.thy ===== *)
theory Interrupts
  imports Syscall Kprintf
begin

text \<open>
  Interrupts and descriptors: \<open>kernel/cpu/idt.c\<close>, \<open>gdt.c\<close>, \<open>pic.c\<close>, \<open>kbd.c\<close> and \<open>timer.c\<close>. The state
  adds to the kernel's the interrupt table, the handlers registered for interrupt lines, the
  keyboard's modifiers, the clock and what was done to the outside: the bytes written to ports, in
  order, and the lines put on the console. What the hardware supplies (the scan code at port
  \<open>0x60\<close>, the faulting address in \<open>cr2\<close>) is an argument, as is the address of each entry stub.
\<close>

section \<open>Segment descriptors\<close>

text \<open>The eight bytes of a descriptor.\<close>

definition gdt_encode_entry :: "u32 \<Rightarrow> u32 \<Rightarrow> u8 \<Rightarrow> u8 \<Rightarrow> u8 list" where
  "gdt_encode_entry base limit access_byte flags =
     [ucast (limit AND 0xFF), ucast (drop_bit 8 limit AND 0xFF), ucast (base AND 0xFF), ucast (drop_bit 8 base AND 0xFF),
      ucast (drop_bit 16 base AND 0xFF), access_byte, ucast (drop_bit 16 limit AND 0x0F) OR push_bit 4 flags,
      ucast (drop_bit 24 base AND 0xFF)]"

record gdt64_entry =
  g_limit0 :: u16
  g_base0 :: u16
  g_base1 :: u8
  g_access_byte :: u8
  g_flags :: u8
  g_base2 :: u8
  g_base3 :: u32
  g_reserved :: u32

text \<open>The descriptor of the task state segment, which is 104 bytes long, in two table entries; \<open>reserved\<close> is not written.\<close>

definition tss_encode :: "u64 \<Rightarrow> gdt64_entry \<Rightarrow> gdt64_entry" where
  "tss_encode tss entry64 = entry64\<lparr>g_limit0 := 104, g_base0 := ucast (tss AND 0xFFFF),
     g_base1 := ucast (drop_bit 16 tss AND 0xFF), g_base2 := ucast (drop_bit 24 tss AND 0xFF),
     g_base3 := ucast (drop_bit 32 tss AND 0xFFFFFFFF), g_access_byte := 0xE9, g_flags := 0\<rparr>"

definition set_kernel_stack :: "u64 \<Rightarrow> kernel \<Rightarrow> kernel" where
  "set_kernel_stack stack k = k\<lparr>k_kernel_stack := stack\<rparr>"

section \<open>State\<close>

record idt_entry =
  i_offset0 :: u16
  i_selector :: u16
  i_ist :: u8
  i_gate_type :: u8
  i_offset1 :: u16
  i_offset2 :: u32
  i_zero :: u32

datatype irq_handler = Kbd_handler | Timer_handler

record machine =
  m_kernel :: kernel
  m_idt :: "idt_entry list"
  m_irq_routines :: "irq_handler option list"
  m_kbd_out :: "fs_node option"
  m_caps_lock :: bool
  m_shift :: bool
  m_tick :: u32
  m_ports :: "(u16 \<times> u8) list"
  m_console :: string

definition outb :: "u16 \<Rightarrow> u8 \<Rightarrow> machine \<Rightarrow> machine" where
  "outb port b s = s\<lparr>m_ports := m_ports s @ [(port, b)]\<rparr>"

definition io_wait :: "machine \<Rightarrow> machine" where
  "io_wait s = outb 0x80 0 s"

definition console_puts :: "string \<Rightarrow> machine \<Rightarrow> machine" where
  "console_puts str s = s\<lparr>m_console := m_console s @ str @ [CHR 0x0A]\<rparr>"

section \<open>The interrupt controller and the clock\<close>

definition irq_ack :: "int \<Rightarrow> machine \<Rightarrow> machine" where
  "irq_ack n s = outb 0x20 0x20 (if n \<ge> 8 then outb 0xA0 0x20 s else s)"

definition pic_remap :: "machine \<Rightarrow> machine" where
  "pic_remap s = fold (\<lambda>(port, b) s. io_wait (outb port b s))
     [(0x20, 0x10 OR 0x01), (0xA0, 0x10 OR 0x01), (0x21, 0x20), (0xA1, 0x28), (0x21, 0x04), (0xA1, 0x02),
      (0x21, 0x01), (0xA1, 0x01), (0x21, 0x00), (0xA1, 0x00)] s"

definition irq_set_handler :: "nat \<Rightarrow> irq_handler \<Rightarrow> machine \<Rightarrow> machine option" where
  "irq_set_handler irq h s = (case find (\<lambda>i. i * 16 + irq \<ge> length (m_irq_routines s) \<or> m_irq_routines s ! (i * 16 + irq) = None) [0..<4] of
       None \<Rightarrow> Some s
     | Some i \<Rightarrow> do {
         routines \<leftarrow> mem_store (m_irq_routines s) (i * 16 + irq) (Some h);
         Some (s\<lparr>m_irq_routines := routines\<rparr>) })"

definition timer_init :: "u32 \<Rightarrow> machine \<Rightarrow> machine option" where
  "timer_init frequency s = do {
     s \<leftarrow> irq_set_handler 0 Timer_handler s;
     if frequency = 0 then None
     else let divisor = 1193180 div frequency
       in Some (outb 0x40 (ucast (drop_bit 8 divisor AND 0xFF)) (outb 0x40 (ucast (divisor AND 0xFF)) (outb 0x43 0x36 s))) }"

text \<open>The handler returns after the switch, when the interrupted process runs again.\<close>

definition timer_handler :: "machine \<Rightarrow> (machine \<times> bool) option" where
  "timer_handler s = do {
     let s = irq_ack 0 (s\<lparr>m_tick := m_tick s + 1\<rparr>);
     k \<leftarrow> switch_task True (m_kernel s);
     Some (s\<lparr>m_kernel := k\<rparr>, True) }"

section \<open>The keyboard\<close>

definition kbd_scs :: "u8 list" where
  "kbd_scs = map (\<lambda>c. of_nat (of_char c))
     ([NUL, NUL] @ ''1234567890-='' @ [NUL, NUL] @ ''qwertyuiop[]'' @ [NUL, NUL] @ ''asdfghjkl;'' @ [CHR 0x27, CHR 0x60]
      @ [NUL, CHR 0x5C] @ ''zxcvbnm,./'' @ [NUL] @ ''*'' @ [NUL] @ '' '' @ replicate 13 NUL @ ''789-456+1230.'')"

text \<open>The character of a scan code, 0 for none; capitals are the letter less 32, whatever the key.\<close>

definition kbd_chr :: "u8 \<Rightarrow> machine \<Rightarrow> machine \<times> u8" where
  "kbd_chr scancode s =
     (if scancode = 0x1C then (s, 10)
      else if scancode = 0x2A then (s\<lparr>m_shift := True\<rparr>, 0)
      else if scancode = 0xAA then (s\<lparr>m_shift := False\<rparr>, 0)
      else if scancode = 0x3A then (s\<lparr>m_caps_lock := \<not> m_caps_lock s\<rparr>, 0)
      else if scancode = 0x0E then (s, 8)
      else if unat scancode \<ge> length kbd_scs then (s, 0)
      else let c = kbd_scs ! unat scancode
        in (s, if c \<noteq> 0 then (if m_caps_lock s \<noteq> m_shift s then c - 32 else c) else 0))"

definition kbd_handler :: "u8 \<Rightarrow> machine \<Rightarrow> (machine \<times> bool) option" where
  "kbd_handler scancode s = do {
     let (s, c) = kbd_chr scancode s;
     s \<leftarrow> (if c = 0 then Some s else do {
            out \<leftarrow> m_kbd_out s;
            (k, _) \<leftarrow> on_vfs (write_fs out 0 1 [c]) (m_kernel s);
            Some (s\<lparr>m_kernel := k\<rparr>) });
     Some (irq_ack 1 s, True) }"

definition kbd_init :: "fs_node option \<Rightarrow> machine \<Rightarrow> machine option" where
  "kbd_init out s = irq_set_handler 1 Kbd_handler (s\<lparr>m_kbd_out := out\<rparr>)"

section \<open>The interrupt table\<close>

definition idt_set_gate :: "nat \<Rightarrow> u64 \<Rightarrow> u16 \<Rightarrow> u8 \<Rightarrow> bool \<Rightarrow> idt_entry list \<Rightarrow> idt_entry list option" where
  "idt_set_gate n base selector flags userspace idt = mem_store idt n
     \<lparr>i_offset0 = ucast (base AND 0xFFFF), i_selector = selector, i_ist = 0,
      i_gate_type = flags OR (if userspace then 0x60 else 0),
      i_offset1 = ucast (drop_bit 16 base AND 0xFFFF), i_offset2 = ucast (drop_bit 32 base AND 0xFFFFFFFF), i_zero = 0\<rparr>"

text \<open>The stubs: all exceptions, the sixteen lines of the controller, four spare ones and the system call.\<close>

definition idt_gates :: "nat list" where
  "idt_gates = [0..<32] @ [32..<48] @ [123, 124, 125, 126, 128]"

definition idt_init :: "(nat \<Rightarrow> u64) \<Rightarrow> machine \<Rightarrow> machine option" where
  "idt_init isr s = do {
     idt \<leftarrow> for_each idt_gates (\<lambda>n. idt_set_gate n (isr n) 0x08 0x8E (n = 128)) (m_idt s);
     Some (s\<lparr>m_idt := idt\<rparr>) }"

section \<open>Dispatch\<close>

definition exception_text :: "u64 \<Rightarrow> string option" where
  "exception_text n = map_of
     [(0, ''divide_by_zero''), (3, ''breakpoint''), (4, ''overflow''), (5, ''bound range exceeded''), (6, ''invalid opcode''),
      (7, ''device not available''), (10, ''invalid tss''), (11, ''segment not present''), (12, ''stack-segment fault''),
      (16, ''floating point exception''), (17, ''alignment check''), (18, ''machine check''),
      (19, ''simd floating-point exception''), (20, ''virtualization exception''), (21, ''control protection exception''),
      (28, ''hypervisor injection exception''), (29, ''vmm communication exception''), (30, ''security exception'')] n"

definition exception :: "regs \<Rightarrow> string \<Rightarrow> machine \<Rightarrow> machine" where
  "exception r desc s = (if cs r = 0x08 then console_puts desc s else s)"

text \<open>A fault in the kernel that cannot be handled stops it: the handler never returns.\<close>

definition page_fault_handler :: "u64 \<Rightarrow> regs \<Rightarrow> machine \<Rightarrow> machine option" where
  "page_fault_handler cr2 r s = do {
     (k, handled) \<leftarrow> on_mmu (page_fault (err_code r) cr2) (m_kernel s);
     let s = s\<lparr>m_kernel := k\<rparr>;
     if handled then Some s
     else if cs r = 0x08 then None
     else do {
       (text, _) \<leftarrow> kprintf (''User page fault at %llx'' @ [CHR 0x0A]) [Va_word cr2];
       Some (s\<lparr>m_console := m_console s @ text\<rparr>) } }"

definition run_irq_handler :: "u8 \<Rightarrow> irq_handler \<Rightarrow> machine \<Rightarrow> (machine \<times> bool) option" where
  "run_irq_handler scancode h s = (case h of Kbd_handler \<Rightarrow> kbd_handler scancode s | Timer_handler \<Rightarrow> timer_handler s)"

fun handle_irq_from :: "nat list \<Rightarrow> u8 \<Rightarrow> nat \<Rightarrow> machine \<Rightarrow> machine option" where
  "handle_irq_from [] scancode irq s = Some (irq_ack (int irq) s)"
| "handle_irq_from (i # rest) scancode irq s = do {
     slot \<leftarrow> mem_load (m_irq_routines s) (i * 16 + irq);
     (case slot of None \<Rightarrow> Some (irq_ack (int irq) s)
      | Some h \<Rightarrow> do {
          (s, handled) \<leftarrow> run_irq_handler scancode h s;
          if handled then Some s else handle_irq_from rest scancode irq s }) }"

definition handle_irq :: "u8 \<Rightarrow> nat \<Rightarrow> machine \<Rightarrow> machine option" where
  "handle_irq scancode irq s = handle_irq_from [0..<4] scancode irq s"

text \<open>A program that is entered or a process that is switched to returns to its own registers.\<close>

definition isr_handler :: "environment \<Rightarrow> u64 \<Rightarrow> u8 \<Rightarrow> regs \<Rightarrow> machine \<Rightarrow> (machine \<times> regs) option" where
  "isr_handler env cr2 scancode r s =
     (case exception_text (int_no r) of
        Some desc \<Rightarrow> Some (exception r desc s, r)
      | None \<Rightarrow>
          if int_no r = 8 then Some (console_puts ''Double Fault.'' s, r)
          else if int_no r = 13 then Some (console_puts ''General Protection Fault.'' s, r)
          else if int_no r = 14 then map_option (\<lambda>s. (s, r)) (page_fault_handler cr2 r s)
          else if int_no r = 39 then Some (s, r)
          else if 32 \<le> int_no r \<and> int_no r \<le> 47
          then map_option (\<lambda>s. (s, r)) (handle_irq scancode (unat (int_no r) - 32) s)
          else if int_no r = 128 then do {
            (k, r, _) \<leftarrow> syscall_handler env r (m_kernel s);
            Some (s\<lparr>m_kernel := k\<rparr>, r) }
          else Some (console_puts ''Unexpected interrupt'' s, r))"

section \<open>What the tables hold\<close>

lemma store_each:
  "\<forall>n \<in> set ns. n < length xs \<Longrightarrow>
   \<exists>ys. for_each ns (\<lambda>n xs. mem_store xs n (f n)) xs = Some ys \<and> length ys = length xs
     \<and> (\<forall>n < length xs. ys ! n = (if n \<in> set ns then f n else xs ! n))"
proof (induction ns arbitrary: xs)
  case (Cons n ns)
  then obtain ys where ys: "for_each ns (\<lambda>n xs. mem_store xs n (f n)) (xs[n := f n]) = Some ys" "length ys = length xs"
    "\<forall>k < length xs. ys ! k = (if k \<in> set ns then f k else xs[n := f n] ! k)"
    using Cons.IH [of "xs[n := f n]"] by auto
  moreover have "ys ! k = (if k \<in> set (n # ns) then f k else xs ! k)" if "k < length xs" for k
    using ys(3) that by (auto simp: nth_list_update)
  ultimately show ?case using Cons.prems by (auto simp: mem_store_def)
qed simp

text \<open>The address the processor jumps to, and the privilege needed to call the gate.\<close>

definition gate_base :: "idt_entry \<Rightarrow> u64" where
  "gate_base e = ucast (i_offset0 e) OR push_bit 16 (ucast (i_offset1 e)) OR push_bit 32 (ucast (i_offset2 e))"

definition gate_dpl :: "idt_entry \<Rightarrow> nat" where
  "gate_dpl e = unat (drop_bit 5 (i_gate_type e) AND 3)"

lemma split_base:
  "(ucast (ucast (base AND 0xFFFF) :: u16) :: u64) OR push_bit 16 (ucast (ucast (drop_bit 16 base AND 0xFFFF) :: u16))
     OR push_bit 32 (ucast (ucast (drop_bit 32 base AND 0xFFFFFFFF) :: u32)) = base"
proof -
  have m: "(0xFFFF :: u64) = mask 16" "(0xFFFFFFFF :: u64) = mask 32" by (simp_all add: mask_eq_exp_minus_1)
  show ?thesis unfolding m
  proof (rule bit_word_eqI)
    fix n :: nat
    consider "n < 16" | "16 \<le> n" "n < 32" | "32 \<le> n" by linarith
    then show "bit ((ucast (ucast (base AND mask 16) :: u16) :: u64) OR push_bit 16 (ucast (ucast (drop_bit 16 base AND mask 16) :: u16))
      OR push_bit 32 (ucast (ucast (drop_bit 32 base AND mask 32) :: u32))) n = bit base n" if "n < LENGTH(64)"
      using that by cases (auto simp: bit_simps)
  qed
qed

text \<open>
  C36. After \<open>idt_init\<close> every gate leads to its own stub and runs in the kernel's code segment, and
  the system call gate 128 is the only one that user mode may call; all other entries of the table
  are left as they were.
\<close>

theorem idt_init_gates:
  assumes "length (m_idt s) = 256"
  shows "\<exists>s'. idt_init isr s = Some s' \<and> length (m_idt s') = 256
    \<and> (\<forall>n \<in> set idt_gates. gate_base (m_idt s' ! n) = isr n \<and> i_selector (m_idt s' ! n) = 8
         \<and> gate_dpl (m_idt s' ! n) = (if n = 128 then 3 else 0))
    \<and> (\<forall>n < 256. n \<notin> set idt_gates \<longrightarrow> m_idt s' ! n = m_idt s ! n)"
proof -
  define f where "f n = \<lparr>i_offset0 = ucast (isr n AND 0xFFFF), i_selector = 0x08, i_ist = 0,
      i_gate_type = 0x8E OR (if n = 128 then 0x60 else 0),
      i_offset1 = ucast (drop_bit 16 (isr n) AND 0xFFFF), i_offset2 = ucast (drop_bit 32 (isr n) AND 0xFFFFFFFF), i_zero = 0\<rparr>" for n :: nat
  have g: "\<forall>n \<in> set idt_gates. n < length (m_idt s)" using assms by (auto simp: idt_gates_def)
  obtain ys where ys: "for_each idt_gates (\<lambda>n xs. mem_store xs n (f n)) (m_idt s) = Some ys" "length ys = 256"
    "\<forall>n < 256. ys ! n = (if n \<in> set idt_gates then f n else m_idt s ! n)"
    using store_each [OF g, of f] assms by auto
  have "(\<lambda>n. idt_set_gate n (isr n) 0x08 0x8E (n = 128)) = (\<lambda>n xs. mem_store xs n (f n))"
    by (intro ext) (simp add: idt_set_gate_def f_def)
  then have i: "idt_init isr s = Some (s\<lparr>m_idt := ys\<rparr>)" using ys(1) by (simp add: idt_init_def)
  have "gate_base (f n) = isr n" for n
    unfolding gate_base_def f_def idt_entry.simps by (rule split_base)
  moreover have "gate_dpl (f n) = (if n = 128 then 3 else 0)" for n by (simp add: gate_dpl_def f_def)
  moreover have "i_selector (f n) = 8" for n by (simp add: f_def)
  moreover have "\<forall>n \<in> set idt_gates. n < 256" using g assms by simp
  ultimately show ?thesis using ys(2,3) i by (intro exI [of _ "s\<lparr>m_idt := ys\<rparr>"]) auto
qed

text \<open>A segment descriptor gives back its base and the twenty bits of its limit that it can hold.\<close>

definition gdt_base :: "u8 list \<Rightarrow> u32" where
  "gdt_base e = ucast (e ! 2) OR push_bit 8 (ucast (e ! 3)) OR push_bit 16 (ucast (e ! 4)) OR push_bit 24 (ucast (e ! 7))"

definition gdt_limit :: "u8 list \<Rightarrow> u32" where
  "gdt_limit e = ucast (e ! 0) OR push_bit 8 (ucast (e ! 1)) OR push_bit 16 (ucast (e ! 6 AND 0x0F))"

lemma gdt_encode_decode:
  "gdt_base (gdt_encode_entry base limit a f) = base" "gdt_limit (gdt_encode_entry base limit a f) = take_bit 20 limit"
proof -
  have m: "(0xFF :: u32) = mask 8" "(0x0F :: u32) = mask 4" "(0x0F :: u8) = mask 4" by (simp_all add: mask_eq_exp_minus_1)
  show "gdt_base (gdt_encode_entry base limit a f) = base"
  proof (rule bit_word_eqI)
    fix n :: nat
    consider "n < 8" | "8 \<le> n" "n < 16" | "16 \<le> n" "n < 24" | "24 \<le> n" by linarith
    then show "bit (gdt_base (gdt_encode_entry base limit a f)) n = bit base n" if "n < LENGTH(32)"
      using that unfolding gdt_base_def gdt_encode_entry_def m by cases (auto simp: bit_simps)
  qed
  show "gdt_limit (gdt_encode_entry base limit a f) = take_bit 20 limit"
  proof (rule bit_word_eqI)
    fix n :: nat
    consider "n < 8" | "8 \<le> n" "n < 16" | "16 \<le> n" by linarith
    then show "bit (gdt_limit (gdt_encode_entry base limit a f)) n = bit (take_bit 20 limit) n" if "n < LENGTH(32)"
      using that unfolding gdt_limit_def gdt_encode_entry_def m by cases (auto simp: bit_simps)
  qed
qed

text \<open>A space typed with the shift key held is the character 0, which the handler takes for none.\<close>

lemma kbd_shift_space: "m_shift s \<Longrightarrow> \<not> m_caps_lock s \<Longrightarrow> kbd_chr 0x39 s = (s, 0)"
proof -
  have "length kbd_scs = 84" "kbd_scs ! 57 = 32" by (simp_all add: kbd_scs_def)
  then show "m_shift s \<Longrightarrow> \<not> m_caps_lock s \<Longrightarrow> kbd_chr 0x39 s = (s, 0)" by (simp add: kbd_chr_def)
qed

section \<open>Witnesses\<close>

lemma idt_init_gates_witness:
  "\<exists>s'. idt_init (\<lambda>n. 0x100000 + of_nat (16 * n)) \<lparr>m_kernel = example_kernel, m_idt = replicate 256 \<lparr>i_offset0 = 0, i_selector = 0,
     i_ist = 0, i_gate_type = 0, i_offset1 = 0, i_offset2 = 0, i_zero = 0\<rparr>, m_irq_routines = replicate 64 None, m_kbd_out = None,
     m_caps_lock = False, m_shift = False, m_tick = 0, m_ports = [], m_console = []\<rparr> = Some s'
     \<and> gate_dpl (m_idt s' ! 128) = 3 \<and> gate_dpl (m_idt s' ! 14) = 0"
proof -
  have "14 \<in> set idt_gates" "128 \<in> set idt_gates" by (simp_all add: idt_gates_def)
  then show ?thesis
    using idt_init_gates [of "\<lparr>m_kernel = example_kernel, m_idt = replicate 256 \<lparr>i_offset0 = 0, i_selector = 0,
     i_ist = 0, i_gate_type = 0, i_offset1 = 0, i_offset2 = 0, i_zero = 0\<rparr>, m_irq_routines = replicate 64 None, m_kbd_out = None,
     m_caps_lock = False, m_shift = False, m_tick = 0, m_ports = [], m_console = []\<rparr>" "\<lambda>n. 0x100000 + of_nat (16 * n)"]
    by fastforce
qed

end
