(* ===== verification/Libprintf.thy ===== *)
theory Libprintf
  imports Cstring
begin

unbundle bit_operations_syntax

text \<open>
  Formatted output of the C library, the second half of \<open>libc/stdio.c\<close>: \<open>_printf\<close>, which hands
  characters to a callback, and the callbacks that write to memory. The callback is a state
  transformer on the caller's data; \<open>None\<close> from it (a write outside the target) ends the run. The
  format is the text still to be scanned. A double argument is the word of its bits: infinities,
  NaNs and the zero of \<open>%g\<close> are printed, the digits of other doubles are not modelled (\<open>None\<close>).
\<close>

section \<open>Numbers\<close>

text \<open>The number of decimal digits, as the loop of \<open>_print_dec\<close> counts them.\<close>

fun dec_width :: "nat \<Rightarrow> nat" where
  "dec_width v = (if 10 \<le> v then Suc (dec_width (v div 10)) else 1)"

declare dec_width.simps [simp del]

fun dec_cells :: "nat \<Rightarrow> nat \<Rightarrow> string" where
  "dec_cells 0 v = []"
| "dec_cells (Suc n) v = dec_cells n (v div 10) @ [char_of (v mod 10 + 48)]"

definition fill_char :: "bool \<Rightarrow> char" where
  "fill_char fzero = (if fzero then CHR ''0'' else CHR '' '')"

text \<open>
  The text of \<open>_print_dec\<close>. The array \<open>t\<close> has 100 cells, and the counter \<open>printed\<close> is an \<open>int\<close>. In
  the branch \<open>align\<close> every cell is assigned \<open>'0'\<close> (\<open>t[i - 1] = r = '0'\<close>).
\<close>

definition print_dec :: "nat \<Rightarrow> nat \<Rightarrow> bool \<Rightarrow> bool \<Rightarrow> int \<Rightarrow> string option" where
  "print_dec value width fzero align precision =
     (let precision = (if precision = -1 then 1 else precision);
          nwidth = (if value = 0 then 0 else dec_width value);
          nwidth = (if precision < 0 \<or> nwidth < nat precision then nat (precision mod 18446744073709551616) else nwidth);
          fill = replicate (width - nwidth) (fill_char fzero)
      in if 100 < nwidth \<or> 2147483647 < (if align then width - nwidth else width) then None
         else if align then Some (fill @ replicate nwidth (CHR ''0''))
         else Some (dec_cells nwidth value @ fill))"

function hex_width :: "nat \<Rightarrow> nat \<Rightarrow> nat \<Rightarrow> nat" where
  "hex_width v j n = (if j < v \<and> j < 18446744073709551615 then hex_width v (j * 16 + 15) (Suc n) else n)"
  by pat_completeness auto
termination by (relation "measure (\<lambda>(v, j, _). v - j)") auto

declare hex_width.simps [simp del]

definition hex_table :: "bool \<Rightarrow> string" where
  "hex_table caps = (if caps then ''0123456789ABCDEF'' else ''0123456789abcdef'')"

definition print_hex :: "u64 \<Rightarrow> nat \<Rightarrow> bool \<Rightarrow> bool \<Rightarrow> bool \<Rightarrow> bool \<Rightarrow> string" where
  "print_hex value width fzero alt caps align =
     (let nwidth = hex_width (unat value) 0x0F 1;
          room = nat (sint (of_nat width :: u32) - int (nwidth + (if alt then 2 else 0)));
          mark = (if alt then [CHR ''0'', if caps then CHR ''X'' else CHR ''x''] else []);
          digits = map (\<lambda>i. hex_table caps ! unat (drop_bit (i * 4) value AND 0x0F)) (rev [0..<nwidth])
      in (if \<not> fzero \<and> align then replicate room (CHR '' '') else []) @ mark
         @ (if fzero \<and> align then replicate room (CHR ''0'') else []) @ digits
         @ (if align then [] else replicate room (CHR '' '')))"

section \<open>Conversion specifications\<close>

datatype varg = Arg_word u64 | Arg_text "string option" | Arg_double u64

record pspec =
  argw :: nat
  p_align :: bool
  p_fzero :: bool
  p_big :: nat
  p_alt :: bool
  p_asign :: nat
  p_prec :: int

definition pspec_init :: pspec where
  "pspec_init = \<lparr>argw = 0, p_align = True, p_fzero = False, p_big = 0, p_alt = False, p_asign = 0, p_prec = -1\<rparr>"

definition take_word :: "varg list \<Rightarrow> (u64 \<times> varg list) option" where
  "take_word args = (case args of Arg_word w # args \<Rightarrow> Some (w, args) | _ \<Rightarrow> None)"

fun scan_flags :: "string \<Rightarrow> varg list \<Rightarrow> pspec \<Rightarrow> (pspec \<times> string \<times> varg list) option" where
  "scan_flags [] args s = Some (s, [], args)"
| "scan_flags (c # f) args s =
     (if c = CHR ''-'' then scan_flags f args (s\<lparr>p_align := False\<rparr>)
      else if c = CHR ''#'' then scan_flags f args (s\<lparr>p_alt := True\<rparr>)
      else if c = CHR ''*'' then do {
        (w, args) \<leftarrow> take_word args;
        scan_flags f args (s\<lparr>argw := unat (ucast w :: u32)\<rparr>) }
      else if c = CHR ''0'' then scan_flags f args (s\<lparr>p_fzero := True\<rparr>)
      else if c = CHR ''+'' then scan_flags f args (s\<lparr>p_asign := 1\<rparr>)
      else if c = CHR '' '' then scan_flags f args (s\<lparr>p_asign := 2\<rparr>)
      else Some (s, c # f, args))"

text \<open>The width is an \<open>unsigned\<close> and wraps; the precision is an \<open>int\<close> that must not overflow.\<close>

fun scan_width :: "string \<Rightarrow> nat \<Rightarrow> nat \<times> string" where
  "scan_width [] n = (n, [])"
| "scan_width (c # f) n =
     (if isdigit c then scan_width f ((n * 10 + (of_char c - 48)) mod 4294967296) else (n, c # f))"

fun scan_number :: "string \<Rightarrow> int \<Rightarrow> (int \<times> string) option" where
  "scan_number [] n = Some (n, [])"
| "scan_number (c # f) n =
     (if isdigit c then (let n = n * 10 + (of_char c - 48) in if 2147483647 < n then None else scan_number f n)
      else Some (n, c # f))"

definition scan_precision :: "string \<Rightarrow> varg list \<Rightarrow> (int \<times> string \<times> varg list) option" where
  "scan_precision f args =
     (if f = [] \<or> hd f \<noteq> CHR ''.'' then Some (-1, f, args)
      else let f = tl f in
        if f \<noteq> [] \<and> hd f = CHR ''*'' then do {
          (w, args) \<leftarrow> take_word args;
          Some (sint (ucast w :: u32), tl f, args) }
        else do {
          (n, f) \<leftarrow> scan_number f 0;
          Some (n, f, args) })"

text \<open>\<open>l\<close> and \<open>ll\<close>, then \<open>j\<close>, \<open>z\<close> and \<open>t\<close>, which are all eight bytes wide.\<close>

definition skip_mark :: "char \<Rightarrow> nat \<Rightarrow> string \<times> nat \<Rightarrow> string \<times> nat" where
  "skip_mark c big p = (if fst p \<noteq> [] \<and> hd (fst p) = c then (tl (fst p), big) else p)"

definition scan_length :: "string \<Rightarrow> string \<times> nat" where
  "scan_length f =
     (let p = (if f \<noteq> [] \<and> hd f = CHR ''l'' then skip_mark (CHR ''l'') 2 (tl f, 1) else (f, 0))
      in skip_mark (CHR ''t'') 2 (skip_mark (CHR ''z'') 2 (skip_mark (CHR ''j'') 2 p)))"

definition scan_spec :: "string \<Rightarrow> varg list \<Rightarrow> (pspec \<times> string \<times> varg list) option" where
  "scan_spec f args = do {
     (s, f, args) \<leftarrow> scan_flags f args pspec_init;
     let (width, f) = scan_width f (argw s);
     (prec, f, args) \<leftarrow> scan_precision f args;
     let (f, big) = scan_length f;
     Some (s\<lparr>argw := width, p_prec := prec, p_big := big\<rparr>, f, args) }"

section \<open>Conversions\<close>

text \<open>\<open>%s\<close>: a width cuts the text as well as filling it up.\<close>

definition string_text :: "pspec \<Rightarrow> string option \<Rightarrow> string" where
  "string_text s arg =
     (let t = (case arg of None \<Rightarrow> ''(null)'' | Some t \<Rightarrow> t);
          t = (if 0 \<le> p_prec s then take (nat (p_prec s)) t else t);
          t = (if argw s \<noteq> 0 then take (argw s) t else t)
      in t @ replicate (argw s - length t) (CHR '' ''))"

definition unsigned_arg :: "pspec \<Rightarrow> u64 \<Rightarrow> u64" where
  "unsigned_arg s w = (if p_big s = 0 then ucast (ucast w :: u32) else w)"

definition signed_arg :: "pspec \<Rightarrow> u64 \<Rightarrow> int" where
  "signed_arg s w = (if p_big s = 0 then sint (ucast w :: u32) else sint w)"

definition signed_text :: "pspec \<Rightarrow> int \<Rightarrow> string option" where
  "signed_text s v =
     (if v = - 9223372036854775808 then None
      else do {
        t \<leftarrow> print_dec (nat \<bar>v\<bar>) (argw s) (p_fzero s) (p_align s) (p_prec s);
        Some ((if v < 0 then ''-'' else if p_asign s = 2 then '' '' else if p_asign s \<noteq> 0 then ''+'' else []) @ t) })"

definition double_text :: "char \<Rightarrow> u64 \<Rightarrow> string option" where
  "double_text c bits =
     (let exponent = drop_bit 52 (bits AND 0x7ff0000000000000);
          fraction = bits AND 0x000fffffffffffff;
          minus = (if bits AND 0x8000000000000000 \<noteq> 0 then ''-'' else [])
      in if exponent = 0x7FF then Some (if fraction = 0 then minus @ ''inf'' else ''nan'')
         else if (c = CHR ''g'' \<or> c = CHR ''G'') \<and> exponent = 0 \<and> fraction = 0 then Some (minus @ ''0'')
         else None)"

text \<open>
  What a conversion prints, and the arguments left. The last component tells that \<open>_printf\<close>
  returns at once, as it does for \<open>%ls\<close>.
\<close>

definition conversion :: "pspec \<Rightarrow> char \<Rightarrow> varg list \<Rightarrow> (string \<times> varg list \<times> bool) option" where
  "conversion s c args =
     (if c = CHR ''s'' then
        (if p_big s \<noteq> 0 then Some ([], args, True)
         else (case args of Arg_text t # args \<Rightarrow> Some (string_text s t, args, False) | _ \<Rightarrow> None))
      else if c = CHR ''c'' then do {
        (w, args) \<leftarrow> take_word args;
        Some ([char_of (unat w mod 256)], args, False) }
      else if c = CHR ''p'' \<or> c = CHR ''X'' \<or> c = CHR ''x'' then do {
        let s = (if c = CHR ''p'' then s\<lparr>p_alt := True, p_big := 2\<rparr> else s);
        (w, args) \<leftarrow> take_word args;
        Some (print_hex (unsigned_arg s w) (argw s) (p_fzero s) (p_alt s) (c = CHR ''X'') (p_align s), args, False) }
      else if c = CHR ''i'' \<or> c = CHR ''d'' then do {
        (w, args) \<leftarrow> take_word args;
        t \<leftarrow> signed_text s (signed_arg s w);
        Some (t, args, False) }
      else if c = CHR ''u'' then do {
        (w, args) \<leftarrow> take_word args;
        t \<leftarrow> print_dec (unat (unsigned_arg s w)) (argw s) (p_fzero s) (p_align s) (p_prec s);
        Some (t, args, False) }
      else if c \<in> {CHR ''G'', CHR ''F'', CHR ''g'', CHR ''f''} then
        (case args of Arg_double bits # args \<Rightarrow>
            (case double_text c bits of Some t \<Rightarrow> Some (t, args, False) | None \<Rightarrow> None)
         | _ \<Rightarrow> None)
      else Some ([c], args, False))"

section \<open>The scan of the format\<close>

record 's pf =
  pf_user :: 's
  pf_written :: nat
  pf_args :: "varg list"

text \<open>\<open>cb(user, c)\<close> for every character of a text; what the callback returns is ignored.\<close>

definition put_chars :: "(char \<Rightarrow> 's \<Rightarrow> 's option) \<Rightarrow> string \<Rightarrow> 's pf \<Rightarrow> 's pf option" where
  "put_chars cb t st = do {
     u \<leftarrow> for_each t cb (pf_user st);
     Some (st\<lparr>pf_user := u, pf_written := pf_written st + length t\<rparr>) }"

lemma scan_flags_length: "scan_flags f args s = Some (s', f', args') \<Longrightarrow> length f' \<le> length f"
proof (induction f args s rule: scan_flags.induct)
  case (2 c f args s)
  show ?case
    using "2.prems" "2.IH" by (simp split: if_splits Option.bind_split_asm prod.splits) (force intro: le_SucI)+
qed simp

lemma scan_width_length: "length (snd (scan_width f n)) \<le> length f"
  by (induction f n rule: scan_width.induct) (auto simp: le_SucI)

lemma scan_number_length: "scan_number f n = Some (n', f') \<Longrightarrow> length f' \<le> length f"
  by (induction f n rule: scan_number.induct) (auto simp: Let_def le_SucI split: if_splits)

lemma scan_precision_length: "scan_precision f args = Some (n, f', args') \<Longrightarrow> length f' \<le> length f"
  by (auto simp: scan_precision_def Let_def dest!: scan_number_length split: if_splits Option.bind_split_asm prod.splits)

lemma scan_length_length: "length (fst (scan_length f)) \<le> length f"
  by (auto simp: scan_length_def skip_mark_def Let_def)

lemma scan_spec_length: "scan_spec f args = Some (s, f', args') \<Longrightarrow> length f' \<le> length f"
proof -
  assume p: "scan_spec f args = Some (s, f', args')"
  then obtain s1 f1 a1 where f1: "scan_flags f args pspec_init = Some (s1, f1, a1)"
    by (auto simp: scan_spec_def elim!: bind_SomeE)
  obtain w f2 where f2: "scan_width f1 (argw s1) = (w, f2)" by fastforce
  obtain pr f3 a3 where f3: "scan_precision f2 a1 = Some (pr, f3, a3)"
    using p f1 f2 by (auto simp: scan_spec_def elim!: bind_SomeE)
  have "f' = fst (scan_length f3)" using p f1 f2 f3 by (auto simp: scan_spec_def split: prod.splits)
  moreover have "length f2 \<le> length f1" using scan_width_length [of f1 "argw s1"] f2 by simp
  ultimately show ?thesis
    using scan_flags_length [OF f1] scan_precision_length [OF f3] scan_length_length [of f3] by simp
qed

text \<open>A format that ends inside a specification lets the scan run past its terminator.\<close>

function (sequential) printf_loop :: "(char \<Rightarrow> 's \<Rightarrow> 's option) \<Rightarrow> string \<Rightarrow> 's pf \<Rightarrow> 's pf option" where
  "printf_loop cb [] st = Some st"
| "printf_loop cb (c # f) st =
     (if c \<noteq> CHR ''%''
      then (case put_chars cb [c] st of None \<Rightarrow> None | Some st \<Rightarrow> printf_loop cb f st)
      else (case scan_spec f (pf_args st) of
          Some (s, conv # rest, args) \<Rightarrow>
            (case conversion s conv args of
               Some (t, args, stop) \<Rightarrow>
                 (case put_chars cb t (st\<lparr>pf_args := args\<rparr>) of
                    None \<Rightarrow> None
                  | Some st \<Rightarrow> if stop then Some st else printf_loop cb rest st)
             | None \<Rightarrow> None)
        | _ \<Rightarrow> None))"
  by pat_completeness auto
termination
  by (relation "measure (\<lambda>(_, f, _). length f)") (auto dest: scan_spec_length)

text \<open>\<open>_printf\<close>: the caller's data afterwards and the count of characters.\<close>

definition printf_with :: "(char \<Rightarrow> 's \<Rightarrow> 's option) \<Rightarrow> 's \<Rightarrow> string \<Rightarrow> varg list \<Rightarrow> ('s \<times> nat) option" where
  "printf_with cb u fmt args =
     map_option (\<lambda>st. (pf_user st, pf_written st)) (printf_loop cb fmt \<lparr>pf_user = u, pf_written = 0, pf_args = args\<rparr>)"

section \<open>Printing to memory\<close>

text \<open>
  The target of \<open>sprintf\<close> and \<open>snprintf\<close>: the object \<open>str\<close> points to, the size the caller gives
  and the count written.
\<close>

record printf_cb =
  cb_str :: string
  cb_size :: nat
  cb_written :: nat

definition cb_u_sprintf :: "char \<Rightarrow> printf_cb \<Rightarrow> printf_cb option" where
  "cb_u_sprintf c d = do {
     str \<leftarrow> mem_store (cb_str d) (cb_written d) c;
     Some (d\<lparr>cb_str := str, cb_written := Suc (cb_written d)\<rparr>) }"

definition cb_sprintf :: "char \<Rightarrow> printf_cb \<Rightarrow> printf_cb option" where
  "cb_sprintf c d =
     (if cb_size d > cb_written d + 1 then do {
        str \<leftarrow> mem_store (cb_str d) (cb_written d) c;
        let written = cb_written d + 1;
        str \<leftarrow> (if written < cb_size d then mem_store str written NUL else Some str);
        Some (d\<lparr>cb_str := str, cb_written := written\<rparr>) }
      else Some d)"

definition int_result :: "nat \<Rightarrow> int" where "int_result n = sint (of_nat n :: u32)"

definition vsnprintf :: "string \<Rightarrow> nat \<Rightarrow> string \<Rightarrow> varg list \<Rightarrow> (string \<times> int) option" where
  "vsnprintf str sz fmt args = do {
     (d, n) \<leftarrow> printf_with cb_sprintf \<lparr>cb_str = str, cb_size = sz, cb_written = 0\<rparr> fmt args;
     d \<leftarrow> cb_sprintf NUL d;
     Some (cb_str d, int_result n) }"

definition vsprintf :: "string \<Rightarrow> string \<Rightarrow> varg list \<Rightarrow> (string \<times> int) option" where
  "vsprintf str fmt args = do {
     (d, n) \<leftarrow> printf_with cb_u_sprintf \<lparr>cb_str = str, cb_size = 0, cb_written = 0\<rparr> fmt args;
     d \<leftarrow> cb_u_sprintf NUL d;
     Some (cb_str d, int_result n) }"

section \<open>The callback\<close>

text \<open>The text a format stands for: what a callback that appends collects.\<close>

definition collect :: "char \<Rightarrow> string \<Rightarrow> string option" where "collect c t = Some (t @ [c])"

definition printf_text :: "string \<Rightarrow> varg list \<Rightarrow> (string \<times> nat) option" where
  "printf_text fmt args = printf_with collect [] fmt args"

lemma for_each_collect [simp]: "for_each t collect u = Some (u @ t)"
  by (induction t arbitrary: u) (simp_all add: collect_def)

lemma put_collect [simp]:
  "put_chars collect t st = Some (st\<lparr>pf_user := pf_user st @ t, pf_written := pf_written st + length t\<rparr>)"
  by (simp add: put_chars_def)

text \<open>A run that collects only adds to what it has, and counts what it adds.\<close>

lemma printf_loop_collects:
  "printf_loop collect f st = Some st' \<Longrightarrow>
   \<exists>t. pf_user st' = pf_user st @ t \<and> pf_written st' = pf_written st + length t"
proof (induction f arbitrary: st rule: measure_induct_rule [where f = length])
  case (less f)
  show ?case
  proof (cases f)
    case Nil
    with less.prems show ?thesis by auto
  next
    case [simp]: (Cons c g)
    show ?thesis
    proof (cases "c = CHR ''%''")
      case True
      then obtain s conv rest args where sc: "scan_spec g (pf_args st) = Some (s, conv # rest, args)"
        using less.prems by (auto split: option.splits list.splits)
      then obtain t args' stop where cv: "conversion s conv args = Some (t, args', stop)"
        using less.prems True by (auto split: option.splits)
      let ?st = "st\<lparr>pf_args := args', pf_user := pf_user st @ t, pf_written := pf_written st + length t\<rparr>"
      show ?thesis
      proof (cases stop)
        case True
        with less.prems \<open>c = _\<close> sc cv show ?thesis by auto
      next
        case False
        then have "printf_loop collect rest ?st = Some st'" using less.prems \<open>c = _\<close> sc cv by simp
        from less.IH [OF _ this] scan_spec_length [OF sc] show ?thesis by auto
      qed
    next
      case False
      then have "printf_loop collect g (st\<lparr>pf_user := pf_user st @ [c], pf_written := Suc (pf_written st)\<rparr>) = Some st'"
        using less.prems by simp
      from less.IH [OF _ this] show ?thesis by auto
    qed
  qed
qed

text \<open>Any other callback gets the same characters in the same order.\<close>

lemma put_chars_for_each:
  "for_each t0 cb u0 = Some u \<Longrightarrow>
   put_chars cb t \<lparr>pf_user = u, pf_written = w, pf_args = a\<rparr> =
     map_option (\<lambda>u'. \<lparr>pf_user = u', pf_written = w + length t, pf_args = a\<rparr>) (for_each (t0 @ t) cb u0)"
  by (simp add: put_chars_def for_each_append split: option.split Option.bind_split)

lemma printf_loop_replays:
  "for_each t0 cb u0 = Some u \<Longrightarrow>
   printf_loop cb f \<lparr>pf_user = u, pf_written = w, pf_args = a\<rparr> =
   (case printf_loop collect f \<lparr>pf_user = t0, pf_written = w, pf_args = a\<rparr> of None \<Rightarrow> None
    | Some st \<Rightarrow> map_option (\<lambda>u'. \<lparr>pf_user = u', pf_written = pf_written st, pf_args = pf_args st\<rparr>) (for_each (pf_user st) cb u0))"
proof (induction f arbitrary: t0 u w a rule: measure_induct_rule [where f = length])
  case (less f)
  show ?case
  proof (cases f)
    case Nil
    with less.prems show ?thesis by simp
  next
    case [simp]: (Cons c g)
    have fails: "map_option h (for_each (pf_user st) cb u0) = None"
      if "for_each (t0 @ t) cb u0 = None" "printf_loop collect g' \<lparr>pf_user = t0 @ t, pf_written = w', pf_args = a'\<rparr> = Some st"
      for t g' w' a' st and h :: "'a \<Rightarrow> 'a pf"
      using printf_loop_collects [OF that(2)] that(1) by (auto simp: for_each_append split: Option.bind_split_asm)
    show ?thesis
    proof (cases "c = CHR ''%''")
      case True
      show ?thesis
      proof (cases "\<exists>s conv rest args t args' stop. scan_spec g a = Some (s, conv # rest, args) \<and> conversion s conv args = Some (t, args', stop)")
        case False
        with True show ?thesis by (auto split: option.splits list.splits)
      next
        case ex: True
        then obtain s conv rest args t args' stop
          where sc: "scan_spec g a = Some (s, conv # rest, args)" and cv: "conversion s conv args = Some (t, args', stop)"
          by (elim exE conjE)
        have len: "length rest < length f" using scan_spec_length [OF sc] by simp
        show ?thesis
        proof (cases "for_each (t0 @ t) cb u0")
          case None
          then show ?thesis
            using True sc cv fails [OF None] by (auto simp: put_chars_for_each [OF less.prems] split: option.splits)
        next
          case (Some u')
          then show ?thesis
            using True sc cv less.IH [OF len Some] by (simp add: put_chars_for_each [OF less.prems])
        qed
      qed
    next
      case False
      show ?thesis
      proof (cases "for_each (t0 @ [c]) cb u0")
        case None
        then show ?thesis
          using False fails [OF None] by (auto simp: put_chars_for_each [OF less.prems] split: option.splits)
      next
        case (Some u')
        have "length g < length f" by simp
        from less.IH [OF this Some] show ?thesis
          using False Some by (simp add: put_chars_for_each [OF less.prems])
      qed
    qed
  qed
qed

lemma printf_with_text:
  "printf_with cb u fmt args =
   (case printf_text fmt args of None \<Rightarrow> None
    | Some (t, _) \<Rightarrow> map_option (\<lambda>u. (u, length t)) (for_each t cb u))"
proof -
  let ?st = "\<lparr>pf_user = [], pf_written = 0, pf_args = args\<rparr>"
  show ?thesis
  proof (cases "printf_loop collect fmt ?st")
    case None
    then show ?thesis using printf_loop_replays [of "[]" cb u u fmt 0 args]
      by (simp add: printf_with_def printf_text_def)
  next
    case (Some st)
    from printf_loop_collects [OF Some] have "pf_written st = length (pf_user st)" by auto
    then show ?thesis using Some printf_loop_replays [of "[]" cb u u fmt 0 args]
      by (simp add: printf_with_def printf_text_def option.map_comp o_def)
  qed
qed

text \<open>
  A format has one text: \<open>_printf\<close> gives its callback exactly the characters of that text, in
  order, whatever the callback does with them, and returns how many there are; where the format has a text, only
  a callback that fails keeps it from finishing.
\<close>

lemma printf_callback:
  "printf_with cb u fmt args =
   (case printf_text fmt args of None \<Rightarrow> None
    | Some (t, _) \<Rightarrow> map_option (\<lambda>u. (u, length t)) (for_each t cb u))"
  by (rule printf_with_text)

section \<open>\<open>vsnprintf\<close> stays inside its buffer\<close>

text \<open>The buffer after the characters \<open>out\<close>, of which at most \<open>sz - 1\<close> are kept.\<close>

definition printed_so_far :: "string \<Rightarrow> nat \<Rightarrow> string \<Rightarrow> printf_cb \<Rightarrow> bool" where
  "printed_so_far str sz out d \<longleftrightarrow>
     cb_size d = sz \<and> length (cb_str d) = length str \<and> cb_written d = min (length out) (sz - 1) \<and>
     take (cb_written d) (cb_str d) = take (sz - 1) out \<and> drop sz (cb_str d) = drop sz str \<and>
     (out \<noteq> [] \<longrightarrow> cb_str d ! cb_written d = NUL)"

lemma cb_sprintf_step:
  assumes "printed_so_far str sz out d" and "2 \<le> sz" and "sz \<le> length str"
  shows "\<exists>d'. cb_sprintf c d = Some d' \<and> printed_so_far str sz (out @ [c]) d'"
proof (cases "length out < sz - 1")
  case True
  with assms have w: "cb_written d = length out" and sz: "cb_size d = sz" and len: "length (cb_str d) = length str"
    and pre: "take (length out) (cb_str d) = out"
    by (auto simp: printed_so_far_def)
  have "take (Suc (length out)) ((cb_str d)[length out := c, Suc (length out) := NUL]) = out @ [c]"
    using True assms(3) len pre by (simp add: take_Suc_conv_app_nth take_update_cancel)
  moreover have "Suc (length out) < sz" "length out < sz" using True by arith+
  ultimately show ?thesis
    using assms w sz len
    by (simp add: cb_sprintf_def memobj Let_def printed_so_far_def)
next
  case False
  with assms have "cb_written d = sz - 1" "out \<noteq> []" by (auto simp: printed_so_far_def)
  then show ?thesis using False assms by (simp add: cb_sprintf_def printed_so_far_def)
qed

lemma cb_sprintf_all:
  assumes "printed_so_far str sz out d" and "2 \<le> sz" and "sz \<le> length str"
  shows "\<exists>d'. for_each t cb_sprintf d = Some d' \<and> printed_so_far str sz (out @ t) d'"
  using assms(1)
proof (induction t arbitrary: out d)
  case (Cons c t)
  from cb_sprintf_step [OF Cons.prems assms(2,3), of c] obtain d1
    where d1: "cb_sprintf c d = Some d1" "printed_so_far str sz (out @ [c]) d1" by (elim exE conjE)
  from Cons.IH [OF d1(2)] d1(1) show ?case by simp
qed simp

text \<open>
  C27. \<open>vsnprintf\<close> with a size of at least 2 never writes at or behind that size: it leaves the first
  \<open>sz - 1\<close> characters of the text (all of them when they fit) and a NUL behind them, keeps every
  cell from \<open>sz\<close> on, and returns the length of the whole text.
\<close>

theorem vsnprintf_bounded:
  assumes t: "printf_text fmt args = Some (out, n)" and sz: "2 \<le> sz" "sz \<le> length str"
  shows "\<exists>str'. vsnprintf str sz fmt args = Some (str', int_result (length out)) \<and> length str' = length str \<and>
    take (Suc (min (length out) (sz - 1))) str' = take (sz - 1) out @ [NUL] \<and> drop sz str' = drop sz str"
proof -
  let ?d = "\<lparr>cb_str = str, cb_size = sz, cb_written = 0\<rparr>"
  have "printed_so_far str sz [] ?d" by (simp add: printed_so_far_def)
  from cb_sprintf_all [OF this sz, of out] obtain d
    where d: "for_each out cb_sprintf ?d = Some d" "printed_so_far str sz out d" by auto
  from cb_sprintf_step [OF d(2) sz, of NUL] obtain d'
    where d': "cb_sprintf NUL d = Some d'" "printed_so_far str sz (out @ [NUL]) d'" by (elim exE conjE)
  have "vsnprintf str sz fmt args = Some (cb_str d', int_result (length out))"
    by (simp add: vsnprintf_def printf_with_text t d(1) d'(1))
  moreover have "take (Suc (min (length out) (sz - 1))) (cb_str d') = take (sz - 1) out @ [NUL]"
  proof (cases "length out < sz - 1")
    case True
    then show ?thesis using d'(2) by (auto simp: printed_so_far_def)
  next
    case False
    then have len: "sz - 1 < length (cb_str d')" and nul: "cb_str d' ! (sz - 1) = NUL"
      and pre: "take (sz - 1) (cb_str d') = take (sz - 1) out"
      using d'(2) sz by (auto simp: printed_so_far_def min_def)
    from False show ?thesis
      using take_Suc_conv_app_nth [OF len] by (simp only: nul pre min_absorb2 not_less)
  qed
  ultimately show ?thesis using d'(2) by (auto simp: printed_so_far_def)
qed

text \<open>A size of 1 leaves the buffer as it was, without a terminator.\<close>

lemma vsnprintf_size_one:
  "printf_text fmt args = Some (out, n) \<Longrightarrow> vsnprintf str 1 fmt args = Some (str, int_result (length out))"
proof -
  have one: "cb_sprintf c d = Some d" if "cb_size d = 1" for c d using that by (simp add: cb_sprintf_def)
  have "for_each t cb_sprintf d = Some d" if "cb_size d = 1" for t d
    using that by (induction t) (simp_all add: one)
  then show "printf_text fmt args = Some (out, n) \<Longrightarrow> ?thesis"
    by (simp add: vsnprintf_def printf_with_text one)
qed

text \<open>
  A number printed with no \<open>-\<close> flag, which is how \<open>align\<close> starts, comes out as as many zeros as it
  has digits.
\<close>

lemma print_dec_zeros: "0 < v \<Longrightarrow> dec_width v \<le> 100 \<Longrightarrow> print_dec v 0 fz True (-1) = Some (replicate (dec_width v) (CHR ''0''))"
proof -
  have "1 \<le> dec_width v" by (simp add: dec_width.simps)
  then show "0 < v \<Longrightarrow> dec_width v \<le> 100 \<Longrightarrow> ?thesis" by (simp add: print_dec_def)
qed

lemmas printf_eval = printf_text_def printf_with_def scan_spec_def scan_precision_def scan_length_def skip_mark_def
  pspec_init_def conversion_def take_word_def string_text_def signed_text_def signed_arg_def isdigit_def less_eq_char_def Let_def

lemma printf_five: "printf_text ''%d'' [Arg_word 5] = Some (''0'', 1)"
  by (simp add: printf_eval print_dec_def dec_width.simps)

text \<open>A width cuts a longer text.\<close>

lemma printf_width_cuts: "printf_text ''%3s'' [Arg_text (Some ''voxel'')] = Some (''vox'', 3)"
  by (simp add: printf_eval)

lemma vsnprintf_bounded_witness:
  "\<exists>str'. vsnprintf (replicate 4 (CHR ''x'')) 3 ''%s'' [Arg_text (Some ''voxel'')] = Some (str', 5) \<and>
     take 3 str' = ''vo'' @ [NUL] \<and> drop 3 str' = ''x''"
proof -
  have t: "printf_text ''%s'' [Arg_text (Some ''voxel'')] = Some (''voxel'', 5)" by (simp add: printf_eval)
  have "int_result (length ''voxel'') = 5" by code_simp
  then show ?thesis
    using vsnprintf_bounded [OF t, of 3 "replicate 4 (CHR ''x'')"] by (auto simp: numeral_3_eq_3 min_def)
qed

end
