(* ===== verification/Stdio.thy ===== *)
theory Stdio
  imports Libprintf
begin

unbundle bit_operations_syntax

text \<open>
  Buffered streams of the C library, the first half of \<open>libc/stdio.c\<close>. The library is a client of
  the kernel through system calls only; they are a parameter of the model, the record \<open>os\<close>, acting
  on a world of any type. Streams live at addresses; 0, 1 and 2 are the three that exist from the
  start. \<open>malloc\<close> of the library never fails and never gives an address twice, and its \<open>free\<close> does
  nothing; using a stream after \<open>free\<close> is nevertheless \<open>None\<close> here. The counters \<open>available\<close>,
  \<open>offset\<close>, \<open>read_from\<close> and \<open>bufsiz\<close> are \<open>int\<close> in the code and never become negative.
\<close>

section \<open>System calls\<close>

text \<open>
  \<open>os_read fd n\<close> also returns the bytes that were stored at the start of the buffer; \<open>os_junk\<close> is
  what fresh memory holds.
\<close>

record 'w os =
  os_read :: "int \<Rightarrow> nat \<Rightarrow> 'w \<Rightarrow> ('w \<times> int \<times> string) option"
  os_write :: "int \<Rightarrow> string \<Rightarrow> 'w \<Rightarrow> ('w \<times> int) option"
  os_seek :: "int \<Rightarrow> int \<Rightarrow> int \<Rightarrow> 'w \<Rightarrow> ('w \<times> int) option"
  os_open :: "string \<Rightarrow> u32 \<Rightarrow> int \<Rightarrow> 'w \<Rightarrow> ('w \<times> int) option"
  os_close :: "int \<Rightarrow> 'w \<Rightarrow> ('w \<times> int) option"
  os_unlink :: "string \<Rightarrow> 'w \<Rightarrow> ('w \<times> int) option"
  os_getpid :: "'w \<Rightarrow> ('w \<times> int) option"
  os_junk :: "nat \<Rightarrow> char"

section \<open>Streams\<close>

abbreviation (input) BUFSIZ :: nat where "BUFSIZ \<equiv> 8192"
abbreviation (input) C_EOF :: int where "C_EOF \<equiv> -1"

record cfile =
  f_fd :: int
  f_read_buf :: "string option"
  f_available :: nat
  f_offset :: nat
  f_read_from :: nat
  f_ungetc :: int
  f_eof :: bool
  f_bufsiz :: nat
  f_last_read_start :: int
  f_name :: "string option"
  f_write_buf :: "string option"
  f_written :: nat
  f_wbufsiz :: nat
  f_prev :: "nat option"
  f_next :: "nat option"

record 'w libc =
  lc_files :: "nat \<Rightarrow> cfile option"
  lc_head :: "nat option"
  lc_fresh :: nat
  lc_errno :: int
  lc_tmp_id :: int
  lc_world :: 'w

definition std_stream :: "int \<Rightarrow> cfile" where
  "std_stream fd = \<lparr>f_fd = fd, f_read_buf = None, f_available = 0, f_offset = 0, f_read_from = 0, f_ungetc = -1,
     f_eof = False, f_bufsiz = BUFSIZ, f_last_read_start = 0, f_name = None, f_write_buf = None, f_written = 0,
     f_wbufsiz = BUFSIZ, f_prev = None, f_next = None\<rparr>"

definition fresh_buffer :: "'w os \<Rightarrow> string" where
  "fresh_buffer os = map (os_junk os) [0..<BUFSIZ]"

definition stdio_init :: "'w os \<Rightarrow> 'w \<Rightarrow> 'w libc" where
  "stdio_init os w =
     \<lparr>lc_files = [0 \<mapsto> (std_stream 0)\<lparr>f_read_buf := Some (fresh_buffer os), f_name := Some ''stdin''\<rparr>,
                  1 \<mapsto> (std_stream 1)\<lparr>f_write_buf := Some (fresh_buffer os), f_name := Some ''stdin''\<rparr>,
                  2 \<mapsto> (std_stream 2)\<lparr>f_write_buf := Some (fresh_buffer os), f_name := Some ''stdin''\<rparr>],
      lc_head = None, lc_fresh = 3, lc_errno = 0, lc_tmp_id = 0, lc_world = w\<rparr>"

definition put_file :: "nat \<Rightarrow> cfile \<Rightarrow> 'w libc \<Rightarrow> 'w libc" where
  "put_file f file st = st\<lparr>lc_files := (lc_files st)(f \<mapsto> file)\<rparr>"

definition upd_file :: "nat \<Rightarrow> (cfile \<Rightarrow> cfile) \<Rightarrow> 'w libc \<Rightarrow> 'w libc option" where
  "upd_file f g st = map_option (\<lambda>file. put_file f (g file) st) (lc_files st f)"

definition call :: "('w \<Rightarrow> ('w \<times> 'a) option) \<Rightarrow> 'w libc \<Rightarrow> ('w libc \<times> 'a) option" where
  "call g st = map_option (\<lambda>(w, r). (st\<lparr>lc_world := w\<rparr>, r)) (g (lc_world st))"

section \<open>Reading\<close>

text \<open>\<open>read\<close> of \<open>unistd.c\<close>: an error number goes to \<open>errno\<close>.\<close>

definition libc_read :: "'w os \<Rightarrow> int \<Rightarrow> nat \<Rightarrow> 'w libc \<Rightarrow> ('w libc \<times> int \<times> string) option" where
  "libc_read os fd n st = do {
     (st, r, data) \<leftarrow> call (os_read os fd n) st;
     if r < 0 then Some (st\<lparr>lc_errno := - r\<rparr>, -1, []) else Some (st, r, data) }"

text \<open>The refill of \<open>_read_bytes\<close>; the flag tells whether the read succeeded.\<close>

definition fill_buffer :: "'w os \<Rightarrow> nat \<Rightarrow> 'w libc \<Rightarrow> ('w libc \<times> bool) option" where
  "fill_buffer os f st = do {
     file \<leftarrow> lc_files st f;
     let off = (if f_offset file = f_bufsiz file then 0 else f_offset file);
     (st, pos) \<leftarrow> call (os_seek os (f_fd file) 0 1) st;
     let file = file\<lparr>f_offset := off, f_last_read_start := pos\<rparr>;
     if f_bufsiz file < off then None
     else do {
       buf \<leftarrow> f_read_buf file;
       (st, r, data) \<leftarrow> libc_read os (f_fd file) (f_bufsiz file - off) st;
       if r < 0 then Some (put_file f file st, False)
       else do {
         buf \<leftarrow> mem_write buf off data;
         Some (put_file f (file\<lparr>f_read_buf := Some buf, f_read_from := off, f_available := nat r, f_offset := off + nat r\<rparr>) st, True) } } }"

text \<open>The inner loop: bytes that are in the buffer.\<close>

fun take_available :: "nat \<Rightarrow> cfile \<Rightarrow> (string \<times> cfile) option" where
  "take_available 0 file = Some ([], file)"
| "take_available (Suc n) file =
     (if f_read_from file < f_offset file \<and> 0 < f_available file then do {
        buf \<leftarrow> f_read_buf file;
        c \<leftarrow> mem_load buf (f_read_from file);
        (t, file) \<leftarrow> take_available n (file\<lparr>f_read_from := f_read_from file + 1, f_available := f_available file - 1\<rparr>);
        Some (c # t, file) }
      else Some ([], file))"

partial_function (option) read_bytes :: "'w os \<Rightarrow> nat \<Rightarrow> nat \<Rightarrow> 'w libc \<Rightarrow> (string \<times> 'w libc) option" where
  "read_bytes os f len st =
     (if len = 0 then Some ([], st)
      else do {
        file \<leftarrow> lc_files st f;
        if 0 \<le> f_ungetc file then do {
          (t, st') \<leftarrow> read_bytes os f (len - 1) (put_file f (file\<lparr>f_ungetc := -1\<rparr>) st);
          Some (char_of (nat (f_ungetc file) mod 256) # t, st') }
        else do {
          (st, ok) \<leftarrow> (if f_available file = 0 then fill_buffer os f st else Some (st, True));
          if \<not> ok then Some ([], st)
          else do {
            file \<leftarrow> lc_files st f;
            if f_available file = 0 then Some ([], put_file f (file\<lparr>f_eof := True\<rparr>) st)
            else do {
              (t, file) \<leftarrow> take_available len file;
              (t', st) \<leftarrow> read_bytes os f (len - length t) (put_file f file st);
              Some (t @ t', st) } } } })"

text \<open>
  \<open>fread\<close> keeps the result of \<open>_read_bytes\<close> in an \<open>int\<close>; items of \<open>2 ^ 31\<close> bytes and more are not
  modelled. The bytes stored are returned with the number of items.
\<close>

fun fread_loop :: "'w os \<Rightarrow> nat \<Rightarrow> nat \<Rightarrow> nat \<Rightarrow> 'w libc \<Rightarrow> (string \<times> nat \<times> 'w libc) option" where
  "fread_loop os sz 0 f st = Some ([], 0, st)"
| "fread_loop os sz (Suc n) f st = do {
     (t, st) \<leftarrow> read_bytes os f sz st;
     if length t < sz then Some (t, 0, st)
     else do {
       (t', k, st) \<leftarrow> fread_loop os sz n f st;
       Some (t @ t', Suc k, st) } }"

definition fread :: "'w os \<Rightarrow> nat \<Rightarrow> nat \<Rightarrow> nat \<Rightarrow> 'w libc \<Rightarrow> (string \<times> nat \<times> 'w libc) option" where
  "fread os sz nmemb f st = (if 2147483648 \<le> sz then None else fread_loop os sz nmemb f st)"

definition fgetc :: "'w os \<Rightarrow> nat \<Rightarrow> 'w libc \<Rightarrow> ('w libc \<times> int) option" where
  "fgetc os f st = do {
     (t, r, st) \<leftarrow> fread os 1 1 f st;
     if r = 0 then map_option (\<lambda>st. (st, C_EOF)) (upd_file f (\<lambda>file. file\<lparr>f_eof := True\<rparr>) st)
     else Some (st, of_char (hd t)) }"

text \<open>
  \<open>fgets\<close> on the object \<open>s\<close> points to: the object afterwards and whether the result is the string
  (not \<open>NULL\<close>). The count reaches 0 before the terminator of the last character is stored.
\<close>

partial_function (option) fgets_loop :: "'w os \<Rightarrow> nat \<Rightarrow> string \<Rightarrow> nat \<Rightarrow> int \<Rightarrow> 'w libc \<Rightarrow> (string \<times> bool \<times> 'w libc) option" where
  "fgets_loop os f s i sz st = do {
     (st, c) \<leftarrow> fgetc os f st;
     if 0 < c then do {
       s \<leftarrow> mem_store s i (char_of (nat c));
       if sz - 1 = 0 then Some (s, True, st)
       else do {
         s \<leftarrow> mem_store s (i + 1) NUL;
         if c = 10 then Some (s, True, st) else fgets_loop os f s (i + 1) (sz - 1) st } }
     else if c = C_EOF then
       map_option (\<lambda>st. (s, i \<noteq> 0, st)) (upd_file f (\<lambda>file. file\<lparr>f_eof := True\<rparr>) st)
     else Some (s, False, st) }"

definition fgets :: "'w os \<Rightarrow> string \<Rightarrow> int \<Rightarrow> nat \<Rightarrow> 'w libc \<Rightarrow> (string \<times> bool \<times> 'w libc) option" where
  "fgets os s sz f st = fgets_loop os f s 0 sz st"

definition ungetc :: "int \<Rightarrow> nat \<Rightarrow> 'w libc \<Rightarrow> ('w libc \<times> int) option" where
  "ungetc c f st = do {
     file \<leftarrow> lc_files st f;
     if 0 < f_ungetc file then Some (st, C_EOF)
     else Some (put_file f (file\<lparr>f_ungetc := c\<rparr>) st, c) }"

section \<open>Writing\<close>

definition fflush :: "'w os \<Rightarrow> nat \<Rightarrow> 'w libc \<Rightarrow> ('w libc \<times> int) option" where
  "fflush os f st = do {
     file \<leftarrow> lc_files st f;
     (case f_write_buf file of None \<Rightarrow> Some (st, C_EOF)
      | Some buf \<Rightarrow>
          if f_written file \<noteq> 0 then do {
            data \<leftarrow> mem_read buf 0 (f_written file);
            (st, _) \<leftarrow> call (os_write os (f_fd file) data) st;
            Some (put_file f (file\<lparr>f_written := 0\<rparr>) st, 0) }
          else Some (st, 0)) }"

definition write_byte :: "'w os \<Rightarrow> nat \<Rightarrow> char \<Rightarrow> 'w libc \<Rightarrow> 'w libc option" where
  "write_byte os f c st = do {
     file \<leftarrow> lc_files st f;
     buf \<leftarrow> f_write_buf file;
     buf \<leftarrow> mem_store buf (f_written file) c;
     let st = put_file f (file\<lparr>f_write_buf := Some buf, f_written := f_written file + 1\<rparr>) st;
     if f_written file + 1 = f_wbufsiz file \<or> c = CHR 0x0A then map_option fst (fflush os f st) else Some st }"

definition write_bytes :: "'w os \<Rightarrow> nat \<Rightarrow> string \<Rightarrow> 'w libc \<Rightarrow> ('w libc \<times> nat) option" where
  "write_bytes os f cs st = do {
     file \<leftarrow> lc_files st f;
     if f_write_buf file = None then Some (st, 0)
     else do {
       st \<leftarrow> for_each cs (write_byte os f) st;
       Some (st, length cs) } }"

fun fwrite_loop :: "'w os \<Rightarrow> string \<Rightarrow> nat \<Rightarrow> nat \<Rightarrow> nat \<Rightarrow> 'w libc \<Rightarrow> ('w libc \<times> nat) option" where
  "fwrite_loop os p sz 0 f st = Some (st, 0)"
| "fwrite_loop os p sz (Suc n) f st = do {
     item \<leftarrow> mem_read p 0 sz;
     (st, r) \<leftarrow> write_bytes os f item st;
     if r < sz then Some (st, 0)
     else do {
       (st, k) \<leftarrow> fwrite_loop os (drop sz p) sz n f st;
       Some (st, Suc k) } }"

definition fwrite :: "'w os \<Rightarrow> string \<Rightarrow> nat \<Rightarrow> nat \<Rightarrow> nat \<Rightarrow> 'w libc \<Rightarrow> ('w libc \<times> nat) option" where
  "fwrite os p sz nmemb f st = (if 2147483648 \<le> sz then None else fwrite_loop os p sz nmemb f st)"

definition fputc :: "'w os \<Rightarrow> int \<Rightarrow> nat \<Rightarrow> 'w libc \<Rightarrow> ('w libc \<times> int) option" where
  "fputc os c f st = map_option (\<lambda>(st, _). (st, c)) (write_bytes os f [char_of (nat (c mod 256))] st)"

definition fputs :: "'w os \<Rightarrow> string \<Rightarrow> nat \<Rightarrow> 'w libc \<Rightarrow> ('w libc \<times> int) option" where
  "fputs os s f st = map_option (\<lambda>st. (st, 0)) (for_each s (\<lambda>c st. map_option fst (fputc os (of_char c) f st)) st)"

definition putchar :: "'w os \<Rightarrow> int \<Rightarrow> 'w libc \<Rightarrow> ('w libc \<times> int) option" where
  "putchar os c st = fputc os c 1 st"

definition puts :: "'w os \<Rightarrow> string \<Rightarrow> 'w libc \<Rightarrow> ('w libc \<times> int) option" where
  "puts os s st = do {
     (st, _) \<leftarrow> fwrite os s 1 (length s) 1 st;
     (st, _) \<leftarrow> fwrite os [CHR 0x0A] 1 1 1 st;
     Some (st, 0) }"

definition cb_fprintf :: "'w os \<Rightarrow> nat \<Rightarrow> char \<Rightarrow> 'w libc \<Rightarrow> 'w libc option" where
  "cb_fprintf os f c st = map_option fst (fputc os (of_char c) f st)"

definition vfprintf :: "'w os \<Rightarrow> nat \<Rightarrow> string \<Rightarrow> varg list \<Rightarrow> 'w libc \<Rightarrow> ('w libc \<times> int) option" where
  "vfprintf os f fmt args st = map_option (\<lambda>(st, n). (st, int_result n)) (printf_with (cb_fprintf os f) st fmt args)"

section \<open>Opening and closing\<close>

abbreviation (input) C_O_WRONLY :: u32 where "C_O_WRONLY \<equiv> 0x0001"
abbreviation (input) C_O_RDWR :: u32 where "C_O_RDWR \<equiv> 0x0002"
abbreviation (input) C_O_APPEND :: u32 where "C_O_APPEND \<equiv> 0x0008"
abbreviation (input) C_O_CREAT :: u32 where "C_O_CREAT \<equiv> 0x0200"
abbreviation (input) C_O_TRUNC :: u32 where "C_O_TRUNC \<equiv> 0x0400"

text \<open>The flags and the mode of a new file, computed by \<open>fopen\<close> from the characters of the \<open>path\<close>.\<close>

fun open_flags :: "string \<Rightarrow> u32 \<times> int \<Rightarrow> u32 \<times> int" where
  "open_flags [] fm = fm"
| "open_flags (c # path) (flags, cmode) = open_flags path
     (if c = CHR ''a'' then (flags OR C_O_WRONLY OR C_O_APPEND OR C_O_CREAT, cmode)
      else if c = CHR ''w'' then (flags OR C_O_WRONLY OR C_O_CREAT OR C_O_TRUNC, 438)
      else if c = CHR ''+'' then ((flags OR C_O_RDWR) AND NOT C_O_APPEND, cmode)
      else (flags, cmode))"

definition push_file :: "nat \<Rightarrow> 'w libc \<Rightarrow> 'w libc option" where
  "push_file f st = do {
     let h = lc_head st;
     st \<leftarrow> upd_file f (\<lambda>file. file\<lparr>f_next := h\<rparr>) st;
     st \<leftarrow> (case h of None \<Rightarrow> Some st | Some g \<Rightarrow> upd_file g (\<lambda>file. file\<lparr>f_prev := Some f\<rparr>) st);
     Some (st\<lparr>lc_head := Some f\<rparr>) }"

definition new_file :: "'w os \<Rightarrow> int \<Rightarrow> string \<Rightarrow> nat \<Rightarrow> cfile" where
  "new_file os fd name wbufsiz = (std_stream fd)\<lparr>f_read_buf := Some (fresh_buffer os), f_name := Some name,
     f_write_buf := Some (fresh_buffer os), f_wbufsiz := wbufsiz\<rparr>"

definition alloc_file :: "cfile \<Rightarrow> 'w libc \<Rightarrow> ('w libc \<times> nat option) option" where
  "alloc_file file st = (let f = lc_fresh st in
     map_option (\<lambda>st. (st, Some f)) (push_file f (put_file f file (st\<lparr>lc_fresh := Suc f\<rparr>))))"

text \<open>\<open>fopen\<close> does not look at its second argument.\<close>

definition fopen :: "'w os \<Rightarrow> string \<Rightarrow> string \<Rightarrow> 'w libc \<Rightarrow> ('w libc \<times> nat option) option" where
  "fopen os path mode st = do {
     let (flags, cmode) = open_flags path (0, 420);
     (st, fd) \<leftarrow> call (os_open os path flags cmode) st;
     if fd < 0 then Some (st\<lparr>lc_errno := - fd\<rparr>, None)
     else alloc_file (new_file os fd path BUFSIZ) st }"

text \<open>\<open>fdopen\<close> leaves the size of the write buffer 0.\<close>

definition fdopen :: "'w os \<Rightarrow> int \<Rightarrow> string \<Rightarrow> 'w libc \<Rightarrow> ('w libc \<times> nat option) option" where
  "fdopen os fd mode st = do {
     (name, _) \<leftarrow> printf_text ''fd[%d]'' [Arg_word (of_int fd)];
     alloc_file (new_file os fd name 0) st }"

definition freopen :: "'w os \<Rightarrow> string option \<Rightarrow> string \<Rightarrow> nat \<Rightarrow> 'w libc \<Rightarrow> ('w libc \<times> nat option) option" where
  "freopen os path mode f st = (case path of None \<Rightarrow> Some (st, Some f)
     | Some path \<Rightarrow> do {
         (st, _) \<leftarrow> fflush os f st;
         file \<leftarrow> lc_files st f;
         (st, _) \<leftarrow> call (os_close os (f_fd file)) st;
         let (flags, cmode) = open_flags path (0, 420);
         (st, fd) \<leftarrow> call (os_open os path flags cmode) st;
         let file = file\<lparr>f_fd := fd, f_available := 0, f_read_from := 0, f_offset := 0, f_ungetc := -1, f_eof := False,
                         f_name := Some path, f_written := 0\<rparr>;
         st \<leftarrow> (if f < 3 then Some (put_file f file st) else push_file f (put_file f file st));
         if fd < 0 then Some (st\<lparr>lc_errno := - fd\<rparr>, None) else Some (st, Some f) })"

definition fclose :: "'w os \<Rightarrow> nat \<Rightarrow> 'w libc \<Rightarrow> ('w libc \<times> int) option" where
  "fclose os f st = do {
     (st, _) \<leftarrow> fflush os f st;
     file \<leftarrow> lc_files st f;
     (st, out) \<leftarrow> call (os_close os (f_fd file)) st;
     let file = file\<lparr>f_name := None, f_read_buf := None, f_write_buf := None\<rparr>;
     let st = put_file f file st;
     if f < 3 then Some (st, out)
     else do {
       st \<leftarrow> (case f_prev file of None \<Rightarrow> Some st | Some g \<Rightarrow> upd_file g (\<lambda>p. p\<lparr>f_next := f_next file\<rparr>) st);
       file \<leftarrow> lc_files st f;
       st \<leftarrow> (case f_next file of None \<Rightarrow> Some st | Some g \<Rightarrow> upd_file g (\<lambda>p. p\<lparr>f_prev := f_prev file\<rparr>) st);
       file \<leftarrow> lc_files st f;
       let st = (if lc_head st = Some f then st\<lparr>lc_head := f_next file\<rparr> else st);
       Some (st\<lparr>lc_files := (lc_files st)(f := None)\<rparr>, out) } }"

partial_function (option) close_all :: "'w os \<Rightarrow> 'w libc \<Rightarrow> 'w libc option" where
  "close_all os st = (case lc_head st of None \<Rightarrow> Some st
     | Some f \<Rightarrow> do { (st, _) \<leftarrow> fclose os f st; close_all os st })"

definition stdio_free :: "'w os \<Rightarrow> 'w libc \<Rightarrow> 'w libc option" where
  "stdio_free os st = do {
     (st, _) \<leftarrow> fflush os 1 st;
     (st, _) \<leftarrow> fflush os 2 st;
     close_all os st }"

section \<open>Positions and buffers\<close>

definition forget_input :: "cfile \<Rightarrow> cfile" where
  "forget_input file = file\<lparr>f_offset := 0, f_read_from := 0, f_available := 0, f_ungetc := -1, f_eof := False\<rparr>"

definition flush_written :: "'w os \<Rightarrow> nat \<Rightarrow> 'w libc \<Rightarrow> 'w libc option" where
  "flush_written os f st = do {
     file \<leftarrow> lc_files st f;
     if f_written file \<noteq> 0 then map_option fst (fflush os f st) else Some st }"

definition seek_result :: "'w libc \<times> int \<Rightarrow> 'w libc \<times> int" where
  "seek_result p = (let (st, out) = p in if out < 0 then (st\<lparr>lc_errno := - out\<rparr>, -1) else (st, out))"

definition fseek :: "'w os \<Rightarrow> nat \<Rightarrow> int \<Rightarrow> int \<Rightarrow> 'w libc \<Rightarrow> ('w libc \<times> int) option" where
  "fseek os f offset whence st = do {
     file \<leftarrow> lc_files st f;
     let (offset, whence) = (if f_read_from file \<noteq> 0 \<and> whence = 1
           then (offset + int (f_read_from file) + f_last_read_start file, 0) else (offset, whence));
     st \<leftarrow> flush_written os f st;
     st \<leftarrow> upd_file f forget_input st;
     (st, out) \<leftarrow> call (os_seek os (f_fd file) offset whence) st;
     let (st, out) = seek_result (st, sint (of_int out :: u32));
     Some (st, if out < 0 then -1 else 0) }"

definition ftell :: "'w os \<Rightarrow> nat \<Rightarrow> 'w libc \<Rightarrow> ('w libc \<times> int) option" where
  "ftell os f st = do {
     st \<leftarrow> flush_written os f st;
     file \<leftarrow> lc_files st f;
     if f_read_from file \<noteq> 0 \<or> f_last_read_start file \<noteq> 0
     then Some (st, f_last_read_start file + int (f_read_from file))
     else do {
       st \<leftarrow> upd_file f forget_input st;
       (st, out) \<leftarrow> call (os_seek os (f_fd file) 0 1) st;
       Some (seek_result (st, out)) } }"

definition fgetpos :: "'w os \<Rightarrow> nat \<Rightarrow> 'w libc \<Rightarrow> ('w libc \<times> int \<times> int option) option" where
  "fgetpos os f st = map_option (\<lambda>(st, out). if out = -1 then (st, -1, None) else (st, 0, Some out)) (ftell os f st)"

definition fsetpos :: "'w os \<Rightarrow> nat \<Rightarrow> int \<Rightarrow> 'w libc \<Rightarrow> ('w libc \<times> int) option" where
  "fsetpos os f pos st = fseek os f pos 0 st"

definition rewind :: "'w os \<Rightarrow> nat \<Rightarrow> 'w libc \<Rightarrow> 'w libc option" where
  "rewind os f st = map_option fst (fseek os f 0 0 st)"

definition clearerr :: "nat \<Rightarrow> 'w libc \<Rightarrow> 'w libc option" where
  "clearerr f st = upd_file f (\<lambda>file. file\<lparr>f_eof := False\<rparr>) st"

definition feof :: "nat \<Rightarrow> 'w libc \<Rightarrow> bool option" where
  "feof f st = map_option f_eof (lc_files st f)"

definition fileno :: "nat \<Rightarrow> 'w libc \<Rightarrow> int option" where
  "fileno f st = map_option f_fd (lc_files st f)"

text \<open>\<open>setvbuf\<close> with the caller's buffer, of which the stream sees the contents; the mode is \<open>_IOLBF\<close>, 1.\<close>

definition setvbuf :: "nat \<Rightarrow> string option \<Rightarrow> int \<Rightarrow> nat \<Rightarrow> 'w libc \<Rightarrow> ('w libc \<times> int) option" where
  "setvbuf f buf mode sz st =
     (if mode \<noteq> 1 then Some (st, -1)
      else map_option (\<lambda>st. (st, 0)) (case buf of None \<Rightarrow> Some st
        | Some b \<Rightarrow> upd_file f (\<lambda>file. file\<lparr>f_read_buf := Some b, f_bufsiz := sz\<rparr>) st))"

section \<open>Temporary files\<close>

definition tmp_name :: "'w os \<Rightarrow> 'w libc \<Rightarrow> ('w libc \<times> string) option" where
  "tmp_name os st = do {
     (st, pid) \<leftarrow> call (os_getpid os) st;
     let tmp_id = lc_tmp_id st + 1;
     (t, _) \<leftarrow> printf_text ''/tmp/tmp_%d.%d'' [Arg_word (of_int pid), Arg_word (of_int tmp_id)];
     Some (st\<lparr>lc_tmp_id := tmp_id\<rparr>, t) }"

definition tmpfile :: "'w os \<Rightarrow> 'w libc \<Rightarrow> ('w libc \<times> nat option) option" where
  "tmpfile os st = do {
     (st, path) \<leftarrow> tmp_name os st;
     (st, f) \<leftarrow> fopen os path ''w+b'' st;
     (st, out) \<leftarrow> call (os_unlink os path) st;
     let st = (if out < 0 then st\<lparr>lc_errno := - out\<rparr> else st);
     Some (st, f) }"

section \<open>Buffered reading is reading\<close>

text \<open>
  What the library relies on when it reads a descriptor, \<open>rest\<close> being the bytes the kernel has yet
  to deliver: \<open>read\<close> gives a piece of them of at most the size asked for, no byte only at their end,
  and asking for the position takes none.
\<close>

definition delivers :: "'w os \<Rightarrow> int \<Rightarrow> ('w \<Rightarrow> string) \<Rightarrow> bool" where
  "delivers os fd rest \<longleftrightarrow>
     (\<forall>n w. \<exists>w' d. os_read os fd n w = Some (w', int (length d), d) \<and> rest w = d @ rest w' \<and> length d \<le> n \<and>
        (0 < n \<and> d = [] \<longrightarrow> rest w = [])) \<and>
     (\<forall>w. \<exists>w' r. os_seek os fd 0 1 w = Some (w', r) \<and> rest w' = rest w)"

definition input_ok :: "cfile \<Rightarrow> bool" where
  "input_ok fl \<longleftrightarrow> (\<exists>buf. f_read_buf fl = Some buf \<and> length buf = f_bufsiz fl) \<and> 0 < f_bufsiz fl \<and>
     f_read_from fl + f_available fl = f_offset fl \<and> f_offset fl \<le> f_bufsiz fl"

text \<open>What the program can still read: a byte pushed back, the buffered bytes, and the kernel's.\<close>

definition buffered :: "cfile \<Rightarrow> string" where
  "buffered fl = take (f_available fl) (drop (f_read_from fl) (the (f_read_buf fl)))"

definition pending_in :: "('w \<Rightarrow> string) \<Rightarrow> nat \<Rightarrow> 'w libc \<Rightarrow> string" where
  "pending_in rest f st = (case lc_files st f of None \<Rightarrow> []
     | Some fl \<Rightarrow> (if 0 \<le> f_ungetc fl then [char_of (nat (f_ungetc fl) mod 256)] else []) @ buffered fl @ rest (lc_world st))"

text \<open>A stream of descriptor \<open>fd\<close> in good order.\<close>

definition reading :: "'w os \<Rightarrow> int \<Rightarrow> ('w \<Rightarrow> string) \<Rightarrow> nat \<Rightarrow> 'w libc \<Rightarrow> bool" where
  "reading os fd rest f st \<longleftrightarrow> delivers os fd rest \<and> (\<exists>fl. lc_files st f = Some fl \<and> f_fd fl = fd \<and> input_ok fl)"

lemma put_file_simps [simp]:
  "lc_files (put_file f fl st) f = Some fl" "lc_world (put_file f fl st) = lc_world st"
  "put_file f fl' (put_file f fl st) = put_file f fl' st"
  "lc_files (st\<lparr>lc_world := w\<rparr>) = lc_files st"
  by (simp_all add: put_file_def)

lemma take_available_ok:
  assumes "input_ok fl"
  shows "\<exists>fl'. take_available n fl = Some (take n (buffered fl), fl') \<and> input_ok fl' \<and> f_fd fl' = f_fd fl \<and>
    f_ungetc fl' = f_ungetc fl \<and> buffered fl' = drop n (buffered fl)"
  using assms
proof (induction n arbitrary: fl)
  case (Suc n)
  then obtain buf where buf: "f_read_buf fl = Some buf" "length buf = f_bufsiz fl"
    and rest: "f_read_from fl + f_available fl = f_offset fl" "f_offset fl \<le> f_bufsiz fl"
    by (auto simp: input_ok_def)
  show ?case
  proof (cases "f_available fl")
    case 0
    with Suc.prems show ?thesis by (simp add: buffered_def)
  next
    case (Suc a)
    let ?fl = "fl\<lparr>f_read_from := f_read_from fl + 1, f_available := f_available fl - 1\<rparr>"
    have lt: "f_read_from fl < f_offset fl" "f_read_from fl < length buf" using buf rest Suc by auto
    have "input_ok ?fl" using Suc.prems \<open>f_available fl = Suc a\<close> by (simp add: input_ok_def)
    moreover have "buffered fl = buf ! f_read_from fl # buffered ?fl"
      using buf lt Suc by (simp add: buffered_def flip: Cons_nth_drop_Suc)
    ultimately show ?thesis using Suc.IH [of ?fl] buf lt Suc by (auto simp: memobj)
  qed
qed simp

lemma fill_buffer_ok:
  assumes r: "reading os fd rest f st" and fi: "lc_files st f = Some fl" and a: "f_available fl = 0"
  shows "\<exists>st' fl'. fill_buffer os f st = Some (st', True) \<and> lc_files st' f = Some fl' \<and> reading os fd rest f st' \<and>
    f_ungetc fl' = f_ungetc fl \<and> f_eof fl' = f_eof fl \<and> buffered fl' @ rest (lc_world st') = rest (lc_world st) \<and>
    (f_available fl' = 0 \<longrightarrow> rest (lc_world st) = []) \<and> length (buffered fl') = f_available fl'"
proof -
  from r fi obtain buf where d: "delivers os fd rest" and fd: "f_fd fl = fd" and buf: "f_read_buf fl = Some buf"
    "length buf = f_bufsiz fl" and pos: "0 < f_bufsiz fl" "f_offset fl \<le> f_bufsiz fl"
    by (auto simp: reading_def input_ok_def)
  obtain off where off_eq: "(if f_offset fl = f_bufsiz fl then 0 else f_offset fl) = off" by simp
  have off: "off < f_bufsiz fl" "off < length buf" using pos off_eq buf(2) by auto
  from d obtain w1 p where sk: "os_seek os fd 0 1 (lc_world st) = Some (w1, p)" "rest w1 = rest (lc_world st)"
    unfolding delivers_def by blast
  from d obtain w2 t where rd: "os_read os fd (f_bufsiz fl - off) w1 = Some (w2, int (length t), t)" "rest w1 = t @ rest w2"
    "length t \<le> f_bufsiz fl - off" "0 < f_bufsiz fl - off \<and> t = [] \<longrightarrow> rest w1 = []"
    unfolding delivers_def by meson
  let ?buf = "take off buf @ t @ drop (off + length t) buf"
  let ?fl = "fl\<lparr>f_last_read_start := p, f_read_buf := Some ?buf, f_read_from := off, f_available := length t, f_offset := off + length t\<rparr>"
  let ?st = "put_file f ?fl (st\<lparr>lc_world := w2\<rparr>)"
  have w: "mem_write buf off t = Some ?buf" using off rd(3) buf(2) by (intro mem_write_Some) linarith
  have run: "fill_buffer os f st = Some (?st, True)"
    using fi off buf sk rd(1) w by (simp add: fill_buffer_def call_def libc_read_def fd off_eq Let_def)
  have bf: "buffered ?fl = t" using off(2) by (simp add: buffered_def)
  have ok: "input_ok ?fl" using off buf rd(3) pos by (simp add: input_ok_def)
  show ?thesis
    using run bf ok d fd sk(2) rd(2,4) off
    by (intro exI [of _ ?st] exI [of _ ?fl]) (simp add: reading_def)
qed

lemma pending_simps:
  "lc_files st f = Some fl \<Longrightarrow> pending_in rest f st =
     (if 0 \<le> f_ungetc fl then [char_of (nat (f_ungetc fl) mod 256)] else []) @ buffered fl @ rest (lc_world st)"
  by (simp add: pending_in_def)

lemma read_bytes_pending:
  assumes "reading os fd rest f st"
  shows "\<exists>st'. read_bytes os f len st = Some (take len (pending_in rest f st), st') \<and> reading os fd rest f st' \<and>
    pending_in rest f st' = drop len (pending_in rest f st)"
  using assms
proof (induction len arbitrary: st rule: less_induct)
  case (less len)
  from less.prems obtain fl where d: "delivers os fd rest" and fi: "lc_files st f = Some fl" "f_fd fl = fd" "input_ok fl"
    by (auto simp: reading_def)
  show ?case
  proof (cases "len = 0")
    case True
    then show ?thesis using less.prems by (simp add: read_bytes.simps)
  next
    case len: False
    show ?thesis
    proof (cases "0 \<le> f_ungetc fl")
      case True
      let ?st = "put_file f (fl\<lparr>f_ungetc := -1\<rparr>) st"
      have ok: "reading os fd rest f ?st" using d fi by (simp add: reading_def input_ok_def)
      have p: "pending_in rest f st = char_of (nat (f_ungetc fl) mod 256) # pending_in rest f ?st"
        using True fi by (simp add: pending_simps buffered_def)
      from less.IH [OF _ ok, of "len - 1"] len obtain st'
        where st': "read_bytes os f (len - 1) ?st = Some (take (len - 1) (pending_in rest f ?st), st')"
          "reading os fd rest f st'" "pending_in rest f st' = drop (len - 1) (pending_in rest f ?st)" by auto
      show ?thesis
        using len True fi st' by (simp add: read_bytes.simps [of os f len] p take_Cons' drop_Cons')
    next
      case ungetc: False
      obtain st1 fl1 where fill: "(if f_available fl = 0 then fill_buffer os f st else Some (st, True)) = Some (st1, True)"
        and f1: "lc_files st1 f = Some fl1" "reading os fd rest f st1" "\<not> 0 \<le> f_ungetc fl1"
          "length (buffered fl1) = f_available fl1"
        and p1: "pending_in rest f st = buffered fl1 @ rest (lc_world st1)"
        and z1: "f_available fl1 = 0 \<longrightarrow> pending_in rest f st = []"
      proof (cases "f_available fl = 0")
        case True
        from fill_buffer_ok [OF less.prems fi(1) True] show ?thesis
          using that True ungetc fi by (auto simp: pending_simps buffered_def)
      next
        case False
        have "length (buffered fl) = f_available fl" using fi(3) by (auto simp: input_ok_def buffered_def)
        then show ?thesis using that [of st fl] False ungetc fi less.prems by (simp add: pending_simps)
      qed
      show ?thesis
      proof (cases "f_available fl1 = 0")
        case True
        let ?st = "put_file f (fl1\<lparr>f_eof := True\<rparr>) st1"
        have "reading os fd rest f ?st" using f1(1,2) by (auto simp: reading_def input_ok_def)
        moreover have "pending_in rest f ?st = []"
          using p1 z1 True f1(3) by (simp add: pending_simps buffered_def)
        moreover have "read_bytes os f len st = Some ([], ?st)"
          using len ungetc fi fill f1 True by (simp add: read_bytes.simps [of os f len])
        ultimately show ?thesis using z1 True by simp
      next
        case avail: False
        from f1(1,2) have "input_ok fl1" "f_fd fl1 = fd" by (auto simp: reading_def)
        from take_available_ok [OF this(1), of len] this(2) obtain fl2
          where f2: "take_available len fl1 = Some (take len (buffered fl1), fl2)" "input_ok fl2" "f_fd fl2 = fd"
            "f_ungetc fl2 = f_ungetc fl1" "buffered fl2 = drop len (buffered fl1)" by (elim exE conjE) auto
        let ?st = "put_file f fl2 st1"
        have ok: "reading os fd rest f ?st" using d f2 by (simp add: reading_def)
        have p2: "pending_in rest f ?st = drop len (buffered fl1) @ rest (lc_world st1)"
          using f1(3) f2 by (simp add: pending_simps)
        let ?k = "length (take len (buffered fl1))"
        have "len - ?k < len" using avail f1(4) len by simp
        from less.IH [OF this ok] obtain st'
          where st': "read_bytes os f (len - ?k) ?st = Some (take (len - ?k) (pending_in rest f ?st), st')"
            "reading os fd rest f st'" "pending_in rest f st' = drop (len - ?k) (pending_in rest f ?st)" by (elim exE conjE)
        have run: "read_bytes os f len st = Some (take len (buffered fl1) @ take (len - ?k) (pending_in rest f ?st), st')"
          using len ungetc fi fill f1(1) avail f2(1) st'(1) by (simp add: read_bytes.simps [of os f len])
        have split: "take len (buffered fl1) @ take (len - ?k) (pending_in rest f ?st) = take len (pending_in rest f st) \<and>
          drop (len - ?k) (pending_in rest f ?st) = drop len (pending_in rest f st)"
          by (cases "len \<le> length (buffered fl1)") (simp_all add: p1 p2)
        show ?thesis using run split st' by simp
      qed
    qed
  qed
qed

lemma fread_pending:
  assumes "reading os fd rest f st" and "0 < sz" and "sz < 2147483648"
  shows "\<exists>st'. fread os sz n f st = Some (take (sz * n) (pending_in rest f st), min n (length (pending_in rest f st) div sz), st') \<and>
    reading os fd rest f st' \<and> pending_in rest f st' = drop (sz * n) (pending_in rest f st)"
proof -
  have "\<exists>st'. fread_loop os sz n f st = Some (take (sz * n) (pending_in rest f st), min n (length (pending_in rest f st) div sz), st') \<and>
    reading os fd rest f st' \<and> pending_in rest f st' = drop (sz * n) (pending_in rest f st)" (is "\<exists>st'. ?P st n st'")
    using assms(1)
  proof (induction n arbitrary: st)
    case (Suc n)
    let ?t = "pending_in rest f st"
    from read_bytes_pending [OF Suc.prems, of sz] obtain st1
      where s1: "read_bytes os f sz st = Some (take sz ?t, st1)" "reading os fd rest f st1" "pending_in rest f st1 = drop sz ?t"
      by (elim exE conjE)
    show ?case
    proof (cases "length ?t < sz")
      case True
      have "length ?t \<le> sz * Suc n" using True by simp
      then show ?thesis using s1 True by simp
    next
      case False
      from Suc.IH [OF s1(2)] obtain st'
        where "fread_loop os sz n f st1 = Some (take (sz * n) (drop sz ?t), min n ((length ?t - sz) div sz), st')"
          "reading os fd rest f st'" "pending_in rest f st' = drop (sz * n + sz) ?t"
        by (auto simp: s1(3))
      moreover have "length ?t div sz = Suc ((length ?t - sz) div sz)"
        using False assms(2) by (simp add: le_div_geq)
      ultimately show ?thesis using s1(1) False assms(2) by (simp add: take_add add.commute)
    qed
  qed simp
  with assms(3) show ?thesis by (simp add: fread_def)
qed

text \<open>
  C14. Whatever pieces the kernel delivers the bytes of a descriptor in and wherever the buffer
  wraps, \<open>fread\<close> gives the next bytes of the stream, a pushed back character first, without losing,
  repeating or reordering any, and returns; the count is the number of complete items.
\<close>

theorem fread_stream:
  assumes "reading os fd rest f st" and "0 < sz" and "sz < 2147483648"
  shows "\<exists>st'. let t = pending_in rest f st in
    fread os sz n f st = Some (take (sz * n) t, min n (length t div sz), st') \<and>
    reading os fd rest f st' \<and> pending_in rest f st' = drop (sz * n) t"
  using fread_pending [OF assms, of n] by (simp add: Let_def)

section \<open>Buffered writing is writing\<close>

text \<open>What the library relies on when it writes a descriptor: \<open>write\<close> takes all it is given.\<close>

definition accepts :: "'w os \<Rightarrow> int \<Rightarrow> ('w \<Rightarrow> string) \<Rightarrow> bool" where
  "accepts os fd sink \<longleftrightarrow> (\<forall>t w. \<exists>w' r. os_write os fd t w = Some (w', r) \<and> sink w' = sink w @ t)"

definition writing :: "'w os \<Rightarrow> int \<Rightarrow> ('w \<Rightarrow> string) \<Rightarrow> nat \<Rightarrow> 'w libc \<Rightarrow> bool" where
  "writing os fd sink f st \<longleftrightarrow> accepts os fd sink \<and> (\<exists>fl buf. lc_files st f = Some fl \<and> f_fd fl = fd \<and>
     f_write_buf fl = Some buf \<and> length buf = f_wbufsiz fl \<and> f_written fl < f_wbufsiz fl)"

text \<open>What the program has written: what the kernel has, and what the buffer holds.\<close>

definition sent :: "('w \<Rightarrow> string) \<Rightarrow> nat \<Rightarrow> 'w libc \<Rightarrow> string" where
  "sent sink f st = (case lc_files st f of None \<Rightarrow> []
     | Some fl \<Rightarrow> sink (lc_world st) @ take (f_written fl) (the (f_write_buf fl)))"

lemma writingE:
  assumes "writing os fd sink f st"
  obtains fl buf where "accepts os fd sink" "lc_files st f = Some fl" "f_fd fl = fd" "f_write_buf fl = Some buf"
    "length buf = f_wbufsiz fl" "f_written fl < f_wbufsiz fl" "sent sink f st = sink (lc_world st) @ take (f_written fl) buf"
  using assms by (auto simp: writing_def sent_def)

lemma fflush_ok:
  assumes "accepts os fd sink" and "lc_files st f = Some fl" and "f_fd fl = fd" and "f_write_buf fl = Some buf"
    and "length buf = f_wbufsiz fl" and "0 < f_wbufsiz fl" and "f_written fl \<le> f_wbufsiz fl"
  shows "\<exists>st'. fflush os f st = Some (st', 0) \<and> writing os fd sink f st' \<and>
    sink (lc_world st') = sink (lc_world st) @ take (f_written fl) buf \<and> sent sink f st' = sink (lc_world st')"
proof (cases "f_written fl = 0")
  case True
  then show ?thesis using assms by (auto simp: fflush_def writing_def sent_def)
next
  case False
  from assms(1) obtain w r where "os_write os fd (take (f_written fl) buf) (lc_world st) = Some (w, r)"
    "sink w = sink (lc_world st) @ take (f_written fl) buf" unfolding accepts_def by meson
  then show ?thesis using False assms by (auto simp: fflush_def writing_def sent_def call_def memobj)
qed

lemma write_byte_ok:
  assumes "writing os fd sink f st"
  shows "\<exists>st'. write_byte os f c st = Some st' \<and> writing os fd sink f st' \<and> sent sink f st' = sent sink f st @ [c]"
proof -
  from assms obtain fl buf where fl: "accepts os fd sink" "lc_files st f = Some fl" "f_fd fl = fd" "f_write_buf fl = Some buf"
    "length buf = f_wbufsiz fl" "f_written fl < f_wbufsiz fl" and sent: "sent sink f st = sink (lc_world st) @ take (f_written fl) buf"
    by (rule writingE)
  let ?buf = "buf[f_written fl := c]"
  let ?fl = "fl\<lparr>f_write_buf := Some ?buf, f_written := f_written fl + 1\<rparr>"
  let ?st = "put_file f ?fl st"
  have t: "take (Suc (f_written fl)) ?buf = take (f_written fl) buf @ [c]"
    using fl(5,6) by (simp add: take_Suc_conv_app_nth)
  from fflush_ok [OF fl(1), of ?st f ?fl ?buf] fl obtain st'
    where st': "fflush os f ?st = Some (st', 0)" "writing os fd sink f st'"
      "sink (lc_world st') = sink (lc_world st) @ take (Suc (f_written fl)) ?buf" "sent sink f st' = sink (lc_world st')"
    by auto
  show ?thesis
  proof (cases "f_written fl + 1 = f_wbufsiz fl \<or> c = CHR 0x0A")
    case True
    then show ?thesis using fl st' t sent by (auto simp: write_byte_def memobj)
  next
    case False
    then have "writing os fd sink f ?st" using fl by (auto simp: writing_def)
    then show ?thesis using False fl t sent by (auto simp: write_byte_def memobj sent_def)
  qed
qed

lemma write_bytes_ok:
  assumes "writing os fd sink f st"
  shows "\<exists>st'. write_bytes os f cs st = Some (st', length cs) \<and> writing os fd sink f st' \<and> sent sink f st' = sent sink f st @ cs"
proof -
  have "\<exists>st'. for_each cs (write_byte os f) st = Some st' \<and> writing os fd sink f st' \<and> sent sink f st' = sent sink f st @ cs"
    using assms
  proof (induction cs arbitrary: st)
    case (Cons c cs)
    from write_byte_ok [OF Cons.prems, of c] obtain st1
      where "write_byte os f c st = Some st1" "writing os fd sink f st1" "sent sink f st1 = sent sink f st @ [c]"
      by (elim exE conjE)
    with Cons.IH [of st1] show ?case by simp
  qed simp
  moreover from assms obtain fl where "lc_files st f = Some fl" "f_write_buf fl \<noteq> None" by (auto elim!: writingE)
  ultimately show ?thesis by (auto simp: write_bytes_def)
qed

lemma fprintf_ok:
  assumes "writing os fd sink f st"
  shows "\<exists>st'. for_each t (cb_fprintf os f) st = Some st' \<and> writing os fd sink f st' \<and> sent sink f st' = sent sink f st @ t"
  using assms
proof (induction t arbitrary: st)
  case (Cons c t)
  from write_bytes_ok [OF Cons.prems, of "[c]"] obtain st1
    where "write_bytes os f [c] st = Some (st1, 1)" "writing os fd sink f st1" "sent sink f st1 = sent sink f st @ [c]"
    by auto
  moreover have "char_of (nat (of_char c mod 256)) = c" by simp
  ultimately show ?case using Cons.IH [of st1] by (simp add: cb_fprintf_def fputc_def)
qed simp

text \<open>
  C15. \<open>fprintf\<close> to a stream that has its write buffer (allocated, of the size the stream records and not
  full, as the streams of \<open>fopen\<close>, the standard output and the standard error are; a stream of \<open>fdopen\<close> records size 0 and is
  overrun, \<open>fdopen_overruns\<close>), on a descriptor on which the kernel accepts everything,
  with a format and arguments that have a text (\<open>printf_text\<close>), followed by \<open>fflush\<close>: the kernel
  gets, after everything written to the stream before, exactly the text of the format, whatever flushes full buffers
  and line ends caused on the way; the buffer is not overrun, the stream keeps its buffer and the length of the text
  is returned.
\<close>

theorem fprintf_fflush:
  assumes "writing os fd sink f st" and "printf_text fmt args = Some (t, n)"
  shows "\<exists>st1 st2. vfprintf os f fmt args st = Some (st1, int_result (length t)) \<and> fflush os f st1 = Some (st2, 0) \<and>
    writing os fd sink f st2 \<and> sink (lc_world st2) = sent sink f st @ t"
proof -
  from fprintf_ok [OF assms(1), of t] obtain st1
    where st1: "for_each t (cb_fprintf os f) st = Some st1" "writing os fd sink f st1" "sent sink f st1 = sent sink f st @ t"
    by (elim exE conjE)
  have "vfprintf os f fmt args st = Some (st1, int_result (length t))"
    by (simp add: vfprintf_def printf_with_text assms(2) st1(1))
  moreover from st1(2) obtain fl buf where fl: "accepts os fd sink" "lc_files st1 f = Some fl" "f_fd fl = fd" "f_write_buf fl = Some buf"
    "length buf = f_wbufsiz fl" "f_written fl < f_wbufsiz fl" "sent sink f st1 = sink (lc_world st1) @ take (f_written fl) buf"
    by (rule writingE)
  moreover from fl(6) have "0 < f_wbufsiz fl" "f_written fl \<le> f_wbufsiz fl" by simp_all
  from fflush_ok [OF fl(1-5) this] obtain st2 where "fflush os f st1 = Some (st2, 0)" "writing os fd sink f st2"
    "sink (lc_world st2) = sent sink f st1" using fl(7) by auto
  ultimately show ?thesis using st1(3) by auto
qed

section \<open>What goes wrong\<close>

text \<open>A stream of \<open>fdopen\<close> is flushed by line ends only; the line that fills the buffer overruns it.\<close>

lemma fdopen_overruns:
  assumes "lc_files st f = Some fl" and "f_wbufsiz fl = 0" and "f_write_buf fl = Some buf" and "f_written fl + n = length buf"
    and "c \<noteq> CHR 0x0A"
  shows "for_each (replicate (Suc n) c) (write_byte os f) st = None"
  using assms
proof (induction n arbitrary: st fl buf)
  case 0
  then show ?case by (simp add: write_byte_def mem_store_def)
next
  case (Suc n)
  let ?fl = "fl\<lparr>f_write_buf := Some (buf[f_written fl := c]), f_written := f_written fl + 1\<rparr>"
  have "write_byte os f c st = Some (put_file f ?fl st)" using Suc.prems by (simp add: write_byte_def memobj)
  moreover have "for_each (replicate (Suc n) c) (write_byte os f) (put_file f ?fl st) = None"
    using Suc.prems by (intro Suc.IH [of _ ?fl "buf[f_written fl := c]"]) simp_all
  ultimately show ?case by simp
qed

text \<open>A letter in the name of the file opens it for appending.\<close>

lemma open_flags_of_name: "fst (open_flags ''/bin/cat'' (0, 420)) = C_O_WRONLY OR C_O_APPEND OR C_O_CREAT"
  by simp

text \<open>
  \<open>freopen\<close> puts the stream into the list a second time. At the head it becomes its own successor,
  and closing all streams comes back to it after it was freed.
\<close>

lemma fflush_keeps:
  "fflush os f st = Some (st', r) \<Longrightarrow> lc_head st' = lc_head st \<and>
   (\<exists>fl fl'. lc_files st f = Some fl \<and> lc_files st' f = Some fl' \<and> f_next fl' = f_next fl \<and> f_prev fl' = f_prev fl)"
  by (auto simp: fflush_def call_def put_file_def split: option.splits if_splits elim!: bind_SomeE)

lemma call_keeps: "call g st = Some (st', r) \<Longrightarrow> lc_head st' = lc_head st \<and> lc_files st' = lc_files st"
  by (auto simp: call_def)

lemma push_file_again:
  "lc_head st = Some f \<Longrightarrow> lc_files st f = Some fl \<Longrightarrow>
   push_file f st = Some ((put_file f (fl\<lparr>f_next := Some f, f_prev := Some f\<rparr>) st)\<lparr>lc_head := Some f\<rparr>)"
  by (simp add: push_file_def upd_file_def Let_def)

lemma freopen_head_again:
  assumes "3 \<le> f" and h: "lc_head st = Some f" and run: "freopen os (Some path) mode f st = Some (st', g)"
  shows "close_all os st' = None"
proof -
  from run obtain st1 fl where 1: "fflush os f st = Some st1" "lc_files (fst st1) f = Some fl"
    by (auto simp: freopen_def elim!: bind_SomeE)
  with run obtain st2 where 2: "call (os_close os (f_fd fl)) (fst st1) = Some st2"
    by (auto simp: freopen_def split: prod.splits elim!: bind_SomeE)
  obtain flags cmode where fm: "open_flags path (0, 420) = (flags, cmode)" by fastforce
  with run 1 2 obtain st3 where 3: "call (os_open os path flags cmode) (fst st2) = Some st3"
    by (auto simp: freopen_def split: prod.splits elim!: bind_SomeE)
  have head: "lc_head (fst st3) = Some f"
    using h 1 2 3 fflush_keeps [of os f st "fst st1"] call_keeps [of _ "fst st1" "fst st2"] call_keeps [of _ "fst st2" "fst st3"]
    by (metis prod.collapse)
  define fl3 where "fl3 = fl\<lparr>f_fd := snd st3, f_available := 0, f_read_from := 0, f_offset := 0, f_ungetc := -1, f_eof := False,
    f_name := Some path, f_written := 0\<rparr>"
  have "lc_head (put_file f fl3 (fst st3)) = Some f" by (simp add: head put_file_def)
  from push_file_again [OF this put_file_simps(1)] obtain fl4
    where 4: "push_file f (put_file f fl3 (fst st3)) = Some (put_file f fl4 (fst st3)\<lparr>lc_head := Some f\<rparr>)"
      "f_next fl4 = Some f" "f_prev fl4 = Some f" by simp
  have "lc_files st' = lc_files (put_file f fl4 (fst st3)) \<and> lc_head st' = Some f"
    using run 1 2 3 fm 4(1) assms(1) unfolding fl3_def
    by (auto simp: freopen_def Let_def split: prod.splits if_splits)
  then have fl: "lc_files st' f = Some fl4" "f_next fl4 = Some f" "f_prev fl4 = Some f" "lc_head st' = Some f"
    using 4 by simp_all
  show ?thesis
  proof (cases "fclose os f st'")
    case None
    then show ?thesis using fl by (simp add: close_all.simps [of os st'])
  next
    case (Some p)
    then obtain st2 r where c: "fclose os f st' = Some (st2, r)" by (cases p) auto
    then have "lc_head st2 = Some f \<and> lc_files st2 f = None"
      using fl assms(1)
      by (auto simp: fclose_def upd_file_def put_file_def Let_def dest!: fflush_keeps call_keeps elim!: bind_SomeE)
    then show ?thesis using c fl by (simp add: close_all.simps [of os st'] close_all.simps [of os st2] fclose_def fflush_def)
  qed
qed

section \<open>Examples\<close>

text \<open>A kernel with one descriptor that delivers at most three bytes at a time and records what is written.\<close>

record example_world =
  ew_pos :: nat
  ew_rest :: string
  ew_sink :: string

definition example_os :: "example_world os" where
  "example_os = \<lparr>
     os_read = (\<lambda>fd n w. let d = take (min n 3) (ew_rest w) in
        Some (w\<lparr>ew_pos := ew_pos w + length d, ew_rest := drop (min n 3) (ew_rest w)\<rparr>, int (length d), d)),
     os_write = (\<lambda>fd t w. Some (w\<lparr>ew_sink := ew_sink w @ t\<rparr>, int (length t))),
     os_seek = (\<lambda>fd offset whence w. Some (w, int (ew_pos w))),
     os_open = (\<lambda>path flags mode w. Some (w, 3)),
     os_close = (\<lambda>fd w. Some (w, 0)),
     os_unlink = (\<lambda>path w. Some (w, 0)),
     os_getpid = (\<lambda>w. Some (w, 1)),
     os_junk = (\<lambda>_. NUL)\<rparr>"

definition example_libc :: "string \<Rightarrow> example_world libc" where
  "example_libc input = stdio_init example_os \<lparr>ew_pos = 0, ew_rest = input, ew_sink = []\<rparr>"

lemma example_os_simps:
  "os_read example_os fd n w = (let d = take (min n 3) (ew_rest w) in
     Some (w\<lparr>ew_pos := ew_pos w + length d, ew_rest := drop (min n 3) (ew_rest w)\<rparr>, int (length d), d))"
  "os_seek example_os fd offset whence w = Some (w, int (ew_pos w))"
  by (simp_all add: example_os_def)

lemma example_delivers: "delivers example_os fd ew_rest"
  by (simp add: delivers_def example_os_def Let_def split: if_splits) (auto simp: min_def)

lemma example_accepts: "accepts example_os fd ew_sink"
  by (simp add: accepts_def example_os_def)

lemma length_fresh_buffer [simp]: "length (fresh_buffer os) = BUFSIZ"
  by (simp add: fresh_buffer_def)

lemma example_reading: "reading example_os 0 ew_rest 0 (example_libc input)"
  by (simp add: reading_def example_delivers example_libc_def stdio_init_def std_stream_def input_ok_def)

lemma example_writing: "writing example_os 1 ew_sink 1 (example_libc input)"
  by (simp add: writing_def example_accepts example_libc_def stdio_init_def std_stream_def)

lemma fread_stream_witness:
  "\<exists>st'. fread example_os 2 2 0 (example_libc ''voxel'') = Some (''voxe'', 2, st') \<and> pending_in ew_rest 0 st' = ''l''"
proof -
  have "pending_in ew_rest 0 (example_libc ''voxel'') = ''voxel''"
    by (simp add: pending_in_def example_libc_def stdio_init_def std_stream_def buffered_def)
  then show ?thesis using fread_stream [OF example_reading [of "''voxel''"], where sz = 2 and n = 2] by (auto simp: Let_def)
qed

lemma fprintf_fflush_witness:
  "\<exists>st1 st2. vfprintf example_os 1 ''%s!'' [Arg_text (Some ''voxel'')] (example_libc []) = Some (st1, 6) \<and>
     fflush example_os 1 st1 = Some (st2, 0) \<and> ew_sink (lc_world st2) = ''voxel!''"
proof -
  have t: "printf_text ''%s!'' [Arg_text (Some ''voxel'')] = Some (''voxel!'', 6)" by (simp add: printf_eval)
  have "sent ew_sink 1 (example_libc []) = []"
    by (simp add: sent_def example_libc_def stdio_init_def std_stream_def)
  moreover have "int_result (length ''voxel!'') = 6" by code_simp
  ultimately show ?thesis using fprintf_fflush [OF example_writing t, of "[]"] by auto
qed

text \<open>
  After a refill in the middle of the buffer \<open>ftell\<close> adds the place in the buffer to the place in the
  file: four bytes have been read here, and the position given is 7.
\<close>

lemma ftell_second_fill:
  "\<exists>st1 st2 st3. setvbuf 0 (Some ''......'') 1 6 (example_libc ''abcdefgh'') = Some (st1, 0) \<and>
     fread example_os 4 1 0 st1 = Some (''abcd'', 1, st2) \<and> ftell example_os 0 st2 = Some (st3, 7)"
proof -
  define fl where "fl = (std_stream 0)\<lparr>f_read_buf := Some ''......'', f_bufsiz := 6, f_name := Some ''stdin''\<rparr>"
  define fs where "fs = lc_files (example_libc ''abcdefgh'')"
  define st1 where "st1 = \<lparr>lc_files = fs(0 \<mapsto> fl), lc_head = None, lc_fresh = 3, lc_errno = 0, lc_tmp_id = 0,
    lc_world = \<lparr>ew_pos = 0, ew_rest = ''abcdefgh'', ew_sink = []\<rparr>\<rparr>"
  have 1: "setvbuf 0 (Some ''......'') 1 6 (example_libc ''abcdefgh'') = Some (st1, 0)"
    by (simp add: setvbuf_def upd_file_def put_file_def example_libc_def stdio_init_def st1_def fs_def fl_def std_stream_def fun_eq_iff)
  let ?four = "Suc (Suc (Suc (Suc 0)))"
  have 2: "\<exists>st2. read_bytes example_os 0 ?four st1 = Some (''abcd'', st2) \<and>
      (\<exists>fl. lc_files st2 0 = Some fl \<and> f_read_from fl = 4 \<and> f_last_read_start fl = 3 \<and> f_written fl = 0)"
    by (simp add: read_bytes.simps [of example_os 0 ?four] read_bytes.simps [of example_os 0 "Suc 0"] read_bytes.simps [of example_os 0 0]
        st1_def fl_def std_stream_def fill_buffer_def call_def libc_read_def example_os_simps memobj put_file_def)
  have four: "4 = ?four" by simp
  from 1 2 show ?thesis by (auto simp: fread_def ftell_def flush_written_def four)
qed

end
