(* ===== verification/Libstring.thy ===== *)
theory Libstring
  imports Cstring
begin

text \<open>
  The functions of \<open>libc/string.c\<close> that the kernel's library does not have, and the loop of
  \<open>userspace/sh.c\<close> that cuts a command line into words with them. As in \<open>Cstring\<close> a string is the list
  of the cells from its start; \<open>strtok_r\<close> changes its string, so there the object is a list of cells
  and pointers are offsets.
\<close>

section \<open>Spans\<close>

text \<open>The inner loops of \<open>strcspn\<close> and \<open>strspn\<close>.\<close>

fun occurs :: "char \<Rightarrow> string \<Rightarrow> bool option" where
  "occurs c [] = None"
| "occurs c (x # xs) = (if x = NUL then Some False else if c = x then Some True else occurs c xs)"

fun strcspn :: "string \<Rightarrow> string \<Rightarrow> nat option" where
  "strcspn [] b = None"
| "strcspn (c # cs) b =
     (if c = NUL then Some 0
      else do { hit \<leftarrow> occurs c b; if hit then Some 0 else map_option Suc (strcspn cs b) })"

fun span_char :: "string \<Rightarrow> char \<Rightarrow> nat option" where
  "span_char [] x = None"
| "span_char (c # cs) x = (if c = x then map_option Suc (span_char cs x) else Some 0)"

fun span_set :: "string \<Rightarrow> string \<Rightarrow> nat option" where
  "span_set [] b = None"
| "span_set (c # cs) b =
     (if c = NUL then Some 0
      else do { hit \<leftarrow> occurs c b; if hit then map_option Suc (span_set cs b) else Some 0 })"

definition strspn :: "string \<Rightarrow> string \<Rightarrow> nat option" where
  "strspn s b = do {
     x \<leftarrow> mem_load b 0;
     if x = NUL then Some 0
     else do {
       y \<leftarrow> mem_load b 1;
       if y = NUL then span_char s x else span_set s b } }"

definition strpbrk :: "string \<Rightarrow> string \<Rightarrow> nat option option" where
  "strpbrk s b = do {
     n \<leftarrow> strcspn s b;
     c \<leftarrow> mem_load s n;
     Some (if c \<noteq> NUL then Some n else None) }"

section \<open>Words\<close>

text \<open>The result is the object, the token or a null pointer, and what \<open>*out\<close> is afterwards.\<close>

definition strtok_r :: "string \<Rightarrow> nat option \<Rightarrow> string \<Rightarrow> nat option \<Rightarrow> (string \<times> nat option \<times> nat) option" where
  "strtok_r m str delim out = do {
     p \<leftarrow> (case str of Some p \<Rightarrow> Some p | None \<Rightarrow> out);
     n \<leftarrow> strspn (drop p m) delim;
     let token = p + n;
     c \<leftarrow> mem_load m token;
     if c = NUL then Some (m, None, token)
     else do {
       hit \<leftarrow> strpbrk (drop token m) delim;
       (case hit of
          None \<Rightarrow> do {
            e \<leftarrow> strchr (drop token m) NUL;
            e \<leftarrow> e;
            Some (m, Some token, token + e) }
        | Some k \<Rightarrow> do {
            m \<leftarrow> mem_store m (token + k) NUL;
            Some (m, Some token, Suc (token + k)) }) } }"

text \<open>
  The loop of the shell: \<open>tokens\<close> has 512 places of which 511 are filled; the count \<open>i\<close> goes on, and
  the place \<open>i\<close> gets the null pointer at the end.
\<close>

partial_function (option) token_loop :: "string \<Rightarrow> nat option \<Rightarrow> string \<Rightarrow> nat option \<Rightarrow> nat list \<Rightarrow> (string \<times> nat list) option" where
  "token_loop m str delim out tokens = do {
     (m, p, last) \<leftarrow> strtok_r m str delim out;
     (case p of None \<Rightarrow> Some (m, tokens) | Some p \<Rightarrow> token_loop m None delim (Some last) (tokens @ [p])) }"

definition sh_tokens :: "string \<Rightarrow> (string \<times> nat option list) option" where
  "sh_tokens command = do {
     (m, ps) \<leftarrow> token_loop command (Some 0) [CHR '' '', NUL] None [];
     if 512 \<le> length ps then None else Some (m, map Some (take 511 ps) @ [None]) }"

section \<open>What the spans measure\<close>

lemma occurs_cstr: "cstr b ds \<Longrightarrow> c \<noteq> NUL \<Longrightarrow> occurs c b = Some (c \<in> set ds)"
  by (induction b arbitrary: ds) (auto simp: cstr_Cons split: if_splits)

lemma strcspn_cstr:
  "cstr b ds \<Longrightarrow> cstr s t \<Longrightarrow> strcspn s b = Some (length (takeWhile (\<lambda>c. c \<notin> set ds) t))"
  by (induction s arbitrary: t) (auto simp: cstr_Cons occurs_cstr split: if_splits)

lemma span_set_cstr:
  "cstr b ds \<Longrightarrow> cstr s t \<Longrightarrow> span_set s b = Some (length (takeWhile (\<lambda>c. c \<in> set ds) t))"
  by (induction s arbitrary: t) (auto simp: cstr_Cons occurs_cstr split: if_splits)

lemma span_char_cstr:
  "x \<noteq> NUL \<Longrightarrow> cstr s t \<Longrightarrow> span_char s x = Some (length (takeWhile (\<lambda>c. c = x) t))"
  by (induction s arbitrary: t) (auto simp: cstr_Cons split: if_splits)

lemma cstr_nth:
  assumes "cstr s t"
  shows "i \<le> length t \<Longrightarrow> mem_load s i = Some (if i < length t then t ! i else NUL)" and "length t < length s"
proof -
  from assms obtain r where s: "s = t @ NUL # r" by (auto simp: cstr_def prefix_def)
  show "i \<le> length t \<Longrightarrow> mem_load s i = Some (if i < length t then t ! i else NUL)" "length t < length s"
    by (simp_all add: s mem_load_def nth_append)
qed

lemma strspn_cstr:
  assumes "cstr b ds" and "cstr s t"
  shows "strspn s b = Some (length (takeWhile (\<lambda>c. c \<in> set ds) t))"
proof (cases ds)
  case Nil
  then show ?thesis using cstr_nth(1) [OF assms(1), of 0] by (cases t) (simp_all add: strspn_def)
next
  case (Cons x xs)
  then have "x \<noteq> NUL" using assms(1) by (auto simp: cstr_def)
  moreover have "NUL \<notin> set xs" using Cons assms(1) by (auto simp: cstr_def)
  ultimately show ?thesis
    using Cons cstr_nth(1) [OF assms(1), of 0] cstr_nth(1) [OF assms(1), of 1]
      span_char_cstr [OF _ assms(2), of x] span_set_cstr [OF assms]
    by (cases xs) (auto simp: strspn_def)
qed

lemma strpbrk_cstr:
  assumes "cstr b ds" and "cstr s t"
  shows "strpbrk s b = Some (let n = length (takeWhile (\<lambda>c. c \<notin> set ds) t) in if n < length t then Some n else None)"
proof -
  have "NUL \<notin> set t" using assms(2) by (simp add: cstr_def)
  then show ?thesis
    using strcspn_cstr [OF assms] cstr_nth(1) [OF assms(2) length_takeWhile_le, of "\<lambda>c. c \<notin> set ds"]
    by (auto simp: strpbrk_def Let_def dest: nth_mem)
qed

section \<open>Cutting a text into words\<close>

text \<open>The words of a text: its longest runs of characters that are no delimiters, in order.\<close>

function words :: "(char \<Rightarrow> bool) \<Rightarrow> string \<Rightarrow> string list" where
  "words d t = (let u = dropWhile d t in
     if u = [] then [] else takeWhile (\<lambda>c. \<not> d c) u # words d (dropWhile (\<lambda>c. \<not> d c) u))"
  by pat_completeness auto
termination
proof (relation "measure (\<lambda>(d, t). length t)", goal_cases)
  case (2 d t u)
  then obtain c u' where u: "dropWhile d t = c # u'" "u = c # u'" by (cases "dropWhile d t") auto
  then have "\<not> d c" by (metis dropWhile_eq_Cons_conv)
  then have "length (dropWhile (\<lambda>c. \<not> d c) u) < length u" using u by (simp add: le_imp_less_Suc length_dropWhile_le)
  then show ?case using 2 length_dropWhile_le [of d t] by simp
qed simp

declare words.simps [simp del]

lemma words_skip: "d x \<Longrightarrow> words d (x # v) = words d v"
  by (subst (1 2) words.simps) simp

text \<open>A text in an object, cell by cell.\<close>

lemma cstr_cells:
  "cstr (drop p m) w \<longleftrightarrow> NUL \<notin> set w \<and> p + length w < length m \<and> (\<forall>i < length w. m ! (p + i) = w ! i) \<and> m ! (p + length w) = NUL"
  (is "_ \<longleftrightarrow> ?r")
proof
  assume c: "cstr (drop p m) w"
  have "length w < length m - p" using cstr_nth(2) [OF c] by simp
  moreover have "m ! (p + i) = (if i < length w then w ! i else NUL)" if "i \<le> length w" for i
    using cstr_nth(1) [OF c that] calculation that by (auto simp: mem_load_def split: if_splits)
  moreover have "NUL \<notin> set w" using c by (simp add: cstr_def)
  ultimately show ?r by auto
next
  assume r: ?r
  have "take (Suc (length w)) (drop p m) = w @ [NUL]"
    using r by (intro nth_equalityI) (auto simp: nth_append less_Suc_eq)
  then have "prefix (w @ [NUL]) (drop p m)" by (metis take_is_prefix)
  then show "cstr (drop p m) w" using r by (simp add: cstr_def)
qed

lemma cstr_mono: "cstr s t \<Longrightarrow> n \<le> length t \<Longrightarrow> cstr (drop n s) (drop n t)"
  by (auto simp: cstr_def prefix_def dest: in_set_dropD)

lemma strtok_none:
  assumes "cstr delim ds" and "cstr (drop p m) t" and "dropWhile (\<lambda>c. c \<in> set ds) t = []"
    and "str = Some p \<or> str = None \<and> out = Some p"
  shows "\<exists>q. strtok_r m str delim out = Some (m, None, q)"
proof -
  have n: "length (takeWhile (\<lambda>c. c \<in> set ds) t) = length t"
    using assms(3) by (metis append.right_neutral takeWhile_dropWhile_id)
  have "mem_load m (p + length t) = Some NUL" using assms(2) by (simp add: cstr_cells mem_load_def)
  moreover have "(case str of Some p \<Rightarrow> Some p | None \<Rightarrow> out) = Some p" using assms(4) by auto
  ultimately show ?thesis using strspn_cstr [OF assms(1,2)] n by (auto simp: strtok_r_def Let_def)
qed

lemma strtok_some:
  assumes d: "cstr delim ds" and s: "cstr (drop p m) t" and u: "dropWhile (\<lambda>c. c \<in> set ds) t = u" "u \<noteq> []"
    and str: "str = Some p \<or> str = None \<and> out = Some p"
  shows "\<exists>m' q r. strtok_r m str delim out = Some (m', Some q, r) \<and> cstr (drop q m') (takeWhile (\<lambda>c. c \<notin> set ds) u) \<and>
    q = p + length (takeWhile (\<lambda>c. c \<in> set ds) t) \<and> q + length (takeWhile (\<lambda>c. c \<notin> set ds) u) \<le> r \<and> (r = q + length (takeWhile (\<lambda>c. c \<notin> set ds) u) \<longrightarrow> m' = m) \<and>
    (\<exists>rest. cstr (drop r m') rest \<and> words (\<lambda>c. c \<in> set ds) rest = words (\<lambda>c. c \<in> set ds) (dropWhile (\<lambda>c. c \<notin> set ds) u) \<and>
       length rest < length t \<and> r + length rest = p + length t) \<and>
    length m' = length m \<and> (\<forall>i. i < p \<or> p + length t \<le> i \<longrightarrow> m' ! i = m ! i)"
proof -
  let ?d = "\<lambda>c. c \<in> set ds"
  define n w v where "n = length (takeWhile ?d t)" and "w = takeWhile (\<lambda>c. \<not> ?d c) u" and "v = dropWhile (\<lambda>c. \<not> ?d c) u"
  have uw: "u = w @ v" by (simp add: w_def v_def)
  have t: "t = takeWhile ?d t @ u" using u(1) by (metis takeWhile_dropWhile_id)
  have nt: "length t = n + length u" unfolding n_def by (subst t) simp
  have du: "drop n t = u" using t unfolding n_def by (metis append_eq_conv_conj)
  have su: "cstr (drop (p + n) m) u" using cstr_mono [OF s, of n] nt du by (simp add: add.commute)
  have ne: "w \<noteq> []"
  proof -
    from u obtain c u' where "u = c # u'" by (cases u) auto
    then show ?thesis using u(1) unfolding w_def by (metis dropWhile_eq_Cons_conv list.distinct(1) takeWhile.simps(2))
  qed
  have c: "mem_load m (p + n) = Some (u ! 0)" "u ! 0 \<noteq> NUL"
  proof -
    obtain x xs where x: "u = x # xs" using u(2) by (cases u) auto
    have "mem_load (drop (p + n) m) 0 = Some x" using cstr_nth(1) [OF su, of 0] x by simp
    then show "mem_load m (p + n) = Some (u ! 0)" using x by (auto simp: mem_load_def split: if_splits)
    show "u ! 0 \<noteq> NUL" using su x by (auto simp: cstr_def)
  qed
  have sel: "(case str of Some p \<Rightarrow> Some p | None \<Rightarrow> out) = Some p" using str by auto
  have spn: "strspn (drop p m) delim = Some n" using strspn_cstr [OF d s] by (simp add: n_def)
  have brk: "strpbrk (drop (p + n) m) delim = Some (if v = [] then None else Some (length w))"
  proof -
    have "length w < length u \<longleftrightarrow> v \<noteq> []" by (simp add: uw)
    then show ?thesis using strpbrk_cstr [OF d su] by (simp add: w_def [symmetric] Let_def)
  qed
  show ?thesis
  proof (cases "v = []")
    case True
    have nul: "strchr (drop (p + n) m) NUL = Some (Some (length u))"
    proof -
      have "cstr x y \<Longrightarrow> strchr x NUL = Some (Some (length y))" for x y
        by (induction x arbitrary: y) (auto simp: cstr_Cons split: if_splits)
      then show ?thesis using su .
    qed
    have "strtok_r m str delim out = Some (m, Some (p + n), p + n + length u)"
      using sel spn c brk True nul by (simp add: strtok_r_def Let_def)
    moreover have "cstr (drop (p + n + length u) m) []" using su by (simp add: cstr_cells)
    moreover have "u = w" using uw True by simp
    ultimately show ?thesis
      using su nt u(2) True unfolding w_def [symmetric] v_def [symmetric] n_def [symmetric]
      by (intro exI [of _ m] exI [of _ "p + n"] exI [of _ "p + n + length u"] conjI exI [of _ "[]"]) simp_all
  next
    case False
    then obtain x rest where v: "v = x # rest" by (cases v) auto
    have dx: "?d x" using v unfolding v_def by (metis dropWhile_eq_Cons_conv)
    let ?k = "p + n + length w"
    let ?m = "m[?k := NUL]"
    have k: "?k < length m" using su uw v by (simp add: cstr_cells)
    have "strtok_r m str delim out = Some (?m, Some (p + n), Suc ?k)"
      using sel spn c brk False k by (simp add: strtok_r_def Let_def memobj)
    moreover have "cstr (drop (p + n) ?m) w"
      using su k uw by (auto simp: cstr_cells nth_append nth_list_update)
    moreover have "cstr (drop (Suc ?k) ?m) rest"
    proof -
      have "cstr (drop (Suc (length w)) (drop (p + n) m)) (drop (Suc (length w)) u)"
        using cstr_mono [OF su, of "Suc (length w)"] uw v by simp
      then have "cstr (drop (Suc ?k) m) rest" using uw v by (simp add: add.commute)
      then show ?thesis by (simp add: cstr_cells)
    qed
    moreover have "words ?d rest = words ?d v" using words_skip [of ?d x rest] dx v by simp
    moreover have "length rest < length t" "Suc ?k + length rest = p + length t" using nt uw v by simp_all
    moreover have "\<forall>i. i < p \<or> p + length t \<le> i \<longrightarrow> ?m ! i = m ! i" using nt uw v by auto
    ultimately show ?thesis
      unfolding w_def [symmetric] v_def [symmetric] n_def [symmetric]
      by (intro exI [of _ ?m] exI [of _ "p + n"] exI [of _ "Suc ?k"] conjI exI [of _ rest]) simp_all
  qed
qed

lemma token_loop_words:
  assumes "cstr delim ds" and "cstr (drop p m) t" and "str = Some p \<or> str = None \<and> out = Some p"
  shows "\<exists>m' ps. token_loop m str delim out toks = Some (m', toks @ ps) \<and>
    list_all2 (\<lambda>q w. cstr (drop q m') w) ps (words (\<lambda>c. c \<in> set ds) t) \<and>
    (ps \<noteq> [] \<longrightarrow> hd ps = p + length (takeWhile (\<lambda>c. c \<in> set ds) t)) \<and>
    length m' = length m \<and> (\<forall>i. i < p \<or> p + length t \<le> i \<longrightarrow> m' ! i = m ! i)"
  using assms(2,3)
proof (induction "length t" arbitrary: p m t str out toks rule: less_induct)
  case less
  let ?d = "\<lambda>c. c \<in> set ds"
  show ?case
  proof (cases "dropWhile ?d t")
    case Nil
    from strtok_none [OF assms(1) less.prems(1) Nil less.prems(2)] show ?thesis
      using Nil by (auto simp: token_loop.simps words.simps [of ?d t])
  next
    case (Cons x u')
    let ?u = "x # u'" and ?w = "takeWhile (\<lambda>c. \<not> ?d c) (x # u')"
    from strtok_some [OF assms(1) less.prems(1) Cons list.distinct(2) less.prems(2)] obtain m1 q r rest
      where 1: "strtok_r m str delim out = Some (m1, Some q, r)" "cstr (drop q m1) ?w" "q = p + length (takeWhile ?d t)" "q + length ?w \<le> r"
        "r = q + length ?w \<longrightarrow> m1 = m" "cstr (drop r m1) rest" "words ?d rest = words ?d (dropWhile (\<lambda>c. \<not> ?d c) ?u)"
        "length rest < length t" "r + length rest = p + length t" "length m1 = length m"
        "\<forall>i. i < p \<or> p + length t \<le> i \<longrightarrow> m1 ! i = m ! i"
      by (elim exE conjE) (rule that)
    from less.hyps [OF 1(8,6), of None "Some r" "toks @ [q]"] obtain m' ps
      where 2: "token_loop m1 None delim (Some r) (toks @ [q]) = Some (m', toks @ q # ps)"
        "list_all2 (\<lambda>q w. cstr (drop q m') w) ps (words ?d rest)" "length m' = length m1"
        "\<forall>i. i < r \<or> r + length rest \<le> i \<longrightarrow> m' ! i = m1 ! i" by auto
    have "m' ! (q + length ?w) = m1 ! (q + length ?w)"
    proof (cases "q + length ?w < r")
      case False
      then have "r = q + length ?w" using 1(4) by simp
      moreover have "rest = []"
        using 1(2,6) calculation by (cases rest) (auto simp: cstr_cells)
      ultimately show ?thesis using 2(4) by simp
    qed (use 2(4) in simp)
    moreover have "\<forall>i < length ?w. m' ! (q + i) = m1 ! (q + i)" using 1(4) 2(4) by simp
    ultimately have "cstr (drop q m') ?w" using 1(2) 2(3) by (simp add: cstr_cells)
    moreover have "words ?d t = ?w # words ?d rest" using Cons 1(7) by (simp add: words.simps [of ?d t])
    moreover have "token_loop m str delim out toks = Some (m', toks @ q # ps)"
      using 1(1) 2(1) by (simp add: token_loop.simps [of m str])
    moreover have "\<forall>i. i < p \<or> p + length t \<le> i \<longrightarrow> m' ! i = m ! i"
      using 1(3,4,9,11) 2(4) by auto
    ultimately show ?thesis using 1(3,10) 2(2,3) by (intro exI [of _ m'] exI [of _ "q # ps"]) simp
  qed
qed

lemma words_count: "2 * length (words d t) \<le> Suc (length t)"
proof (induction "length t" arbitrary: t rule: less_induct)
  case less
  show ?case
  proof (cases "dropWhile d t")
    case Nil
    then show ?thesis by (simp add: words.simps [of d t])
  next
    case (Cons c u)
    let ?v = "dropWhile (\<lambda>c. \<not> d c) (c # u)"
    have "\<not> d c" using Cons by (metis dropWhile_eq_Cons_conv)
    then have v: "length ?v \<le> length u" "length u < length t"
      using Cons length_dropWhile_le [of d t] by (simp_all add: length_dropWhile_le)
    have w: "words d t = takeWhile (\<lambda>c. \<not> d c) (c # u) # words d ?v" using Cons by (simp add: words.simps [of d t])
    show ?thesis
    proof (cases ?v)
      case Nil
      then show ?thesis using w v by (simp add: words.simps [of d "[]"])
    next
      case (Cons x r)
      then have "d x" by (metis dropWhile_eq_Cons_conv)
      then show ?thesis using w v less.hyps [of r] Cons words_skip [of d x r] by simp
    qed
  qed
qed

text \<open>
  The shell's token loop cuts a command line into exactly its words: for a line of at most 1022
  characters before its terminator (what \<open>readline\<close> leaves in the 1024 bytes of \<open>command\<close> once the newline
  is removed) the loop ends, never writes past the 512 places of \<open>tokens\<close>, and the entries before the
  final null pointer point, inside the line, at the terminated words of the line in order; the bytes
  behind the line are untouched.
\<close>

lemma sh_tokens_cut:
  assumes "cstr command t" and "length t \<le> 1022"
  shows "\<exists>m ps. sh_tokens command = Some (m, map Some ps @ [None]) \<and>
    list_all2 (\<lambda>p w. cstr (drop p m) w) ps (words (\<lambda>c. c = CHR '' '') t) \<and>
    (ps \<noteq> [] \<longrightarrow> hd ps = length (takeWhile (\<lambda>c. c = CHR '' '') t)) \<and>
    length m = length command \<and> (\<forall>i \<ge> length t. m ! i = command ! i)"
proof -
  have d: "cstr [CHR '' '', NUL] '' ''" by (simp add: cstr_Cons)
  have s: "(\<lambda>c. c \<in> set '' '') = (\<lambda>c. c = CHR '' '')" by auto
  from token_loop_words [OF d, of 0 command t "Some 0" None "[]"] assms(1) obtain m ps
    where 1: "token_loop command (Some 0) [CHR '' '', NUL] None [] = Some (m, ps)"
      "list_all2 (\<lambda>q w. cstr (drop q m) w) ps (words (\<lambda>c. c = CHR '' '') t)"
      "ps \<noteq> [] \<longrightarrow> hd ps = length (takeWhile (\<lambda>c. c = CHR '' '') t)"
      "length m = length command" "\<forall>i. length t \<le> i \<longrightarrow> m ! i = command ! i"
    unfolding s by auto
  have "length ps \<le> 511"
    using list_all2_lengthD [OF 1(2)] words_count [of "\<lambda>c. c = CHR '' ''" t] assms(2) by simp
  then show ?thesis using 1 by (auto simp: sh_tokens_def)
qed

lemma sh_tokens_example:
  "\<exists>m ps. sh_tokens (''ls  /bin'' @ [NUL]) = Some (m, map Some ps @ [None]) \<and>
    list_all2 (\<lambda>p w. cstr (drop p m) w) ps [''ls'', ''/bin'']"
proof -
  have "words (\<lambda>c. c = CHR '' '') ''ls  /bin'' = [''ls'', ''/bin'']"
    by (simp add: words.simps [of _ "''ls  /bin''"] words.simps [of _ "''  /bin''"] words.simps [of _ "[]"])
  then show ?thesis
    using sh_tokens_cut [of "''ls  /bin'' @ [NUL]" "''ls  /bin''"] by (auto simp: cstr_def)
qed

text \<open>A line of one word more would be cut all the same, but its 512 tokens overrun the array.\<close>

lemma sh_tokens_overrun: "length ps \<ge> 512 \<Longrightarrow> token_loop m (Some 0) [CHR '' '', NUL] None [] = Some (m', ps) \<Longrightarrow> sh_tokens m = None"
  by (simp add: sh_tokens_def)

end
