(* ===== verification/Userland.thy ===== *)
theory Userland
  imports Stdio Libstring
begin

unbundle bit_operations_syntax

text \<open>
  The rest of the C library's face to the kernel (\<open>libc/unistd.c\<close>, \<open>libc/fcntl.c\<close>, \<open>libc/sys/stat.c\<close>,
  \<open>libc/dirent.c\<close>, \<open>libc/strerror.c\<close>) and the programs of \<open>userspace/\<close> over it: \<open>ls\<close>, \<open>sh\<close> and \<open>init\<close>. The system
  calls that \<open>Stdio\<close> does not use are the record \<open>calls\<close>; they act on the same world. What a call stores
  through a pointer is part of its result. A program's arguments are lists of texts.
\<close>

section \<open>System calls and errno\<close>

record 'w calls =
  c_access :: "string \<Rightarrow> int \<Rightarrow> 'w \<Rightarrow> ('w \<times> int) option"
  c_chown :: "string \<Rightarrow> int \<Rightarrow> int \<Rightarrow> 'w \<Rightarrow> ('w \<times> int) option"
  c_chmod :: "string \<Rightarrow> int \<Rightarrow> 'w \<Rightarrow> ('w \<times> int) option"
  c_mkdir :: "string \<Rightarrow> int \<Rightarrow> 'w \<Rightarrow> ('w \<times> int) option"
  c_umask :: "int \<Rightarrow> 'w \<Rightarrow> ('w \<times> int) option"
  c_symlink :: "string \<Rightarrow> string \<Rightarrow> 'w \<Rightarrow> ('w \<times> int) option"
  c_readlink :: "string \<Rightarrow> nat \<Rightarrow> 'w \<Rightarrow> ('w \<times> int \<times> string) option"
  c_stat :: "int \<Rightarrow> 'w \<Rightarrow> ('w \<times> int \<times> u8 list) option"
  c_statf :: "string \<Rightarrow> 'w \<Rightarrow> ('w \<times> int \<times> u8 list) option"
  c_lstat :: "string \<Rightarrow> 'w \<Rightarrow> ('w \<times> int \<times> u8 list) option"
  c_readdir :: "int \<Rightarrow> nat \<Rightarrow> 'w \<Rightarrow> ('w \<times> int \<times> string) option"
  c_dup2 :: "int \<Rightarrow> int \<Rightarrow> 'w \<Rightarrow> ('w \<times> int) option"
  c_fork :: "'w \<Rightarrow> ('w \<times> int) option"
  c_execve :: "string \<Rightarrow> string list \<Rightarrow> string list \<Rightarrow> 'w \<Rightarrow> ('w \<times> int) option"
  c_waitpid :: "int \<Rightarrow> 'w \<Rightarrow> ('w \<times> int) option"

text \<open>A \<open>long\<close> that is returned as an \<open>int\<close>.\<close>

definition c_int :: "int \<Rightarrow> int" where
  "c_int r = sint (of_int r :: u32)"

text \<open>
  The common end of the wrappers: a negative result goes to \<open>errno\<close> (an \<open>int\<close>) and becomes \<open>-1\<close>. The first
  form returns an \<open>int\<close>, the second an \<open>ssize_t\<close> or \<open>off_t\<close> of 64 bits.
\<close>

definition errno_result :: "'w libc \<times> int \<Rightarrow> 'w libc \<times> int" where
  "errno_result p = (let (st, out) = p in
     if out < 0 then (st\<lparr>lc_errno := c_int (- out)\<rparr>, -1) else (st, c_int out))"

definition errno_result_long :: "'w libc \<times> int \<Rightarrow> 'w libc \<times> int" where
  "errno_result_long p = (let (st, out) = p in
     if out < 0 then (st\<lparr>lc_errno := c_int (- out)\<rparr>, -1) else (st, out))"

text \<open>The same for calls that also store something.\<close>

definition errno_stored :: "'w libc \<times> int \<times> 'a \<Rightarrow> 'w libc \<times> int \<times> 'a" where
  "errno_stored p = (let (st, out, x) = p; (st, out) = errno_result (st, out) in (st, out, x))"

definition errno_stored_long :: "'w libc \<times> int \<times> 'a \<Rightarrow> 'w libc \<times> int \<times> 'a" where
  "errno_stored_long p = (let (st, out, x) = p; (st, out) = errno_result_long (st, out) in (st, out, x))"

definition access :: "'w calls \<Rightarrow> string \<Rightarrow> int \<Rightarrow> 'w libc \<Rightarrow> ('w libc \<times> int) option" where
  "access cs path mode st = do {
     (st, out) \<leftarrow> call (c_access cs path mode) st;
     Some (if out < 0 then (st\<lparr>lc_errno := 2\<rparr>, -1) else (st, c_int out)) }"

definition chown :: "'w calls \<Rightarrow> string \<Rightarrow> int \<Rightarrow> int \<Rightarrow> 'w libc \<Rightarrow> ('w libc \<times> int) option" where
  "chown cs path owner grp st = map_option errno_result (call (c_chown cs path owner grp) st)"

definition close :: "'w os \<Rightarrow> int \<Rightarrow> 'w libc \<Rightarrow> ('w libc \<times> int) option" where
  "close os fd st = map_option (\<lambda>(st, r). (st, c_int r)) (call (os_close os fd) st)"

definition dup2 :: "'w calls \<Rightarrow> int \<Rightarrow> int \<Rightarrow> 'w libc \<Rightarrow> ('w libc \<times> int) option" where
  "dup2 cs oldfd newfd st = map_option (\<lambda>(st, r). (st, c_int r)) (call (c_dup2 cs oldfd newfd) st)"

definition dup :: "'w calls \<Rightarrow> int \<Rightarrow> 'w libc \<Rightarrow> ('w libc \<times> int) option" where
  "dup cs fd st = dup2 cs fd (-1) st"

definition execve :: "'w calls \<Rightarrow> string \<Rightarrow> string list \<Rightarrow> string list \<Rightarrow> 'w libc \<Rightarrow> ('w libc \<times> int) option" where
  "execve cs path argv envp st = map_option errno_result (call (c_execve cs path argv envp) st)"

definition execv :: "'w calls \<Rightarrow> string list \<Rightarrow> string \<Rightarrow> string list \<Rightarrow> 'w libc \<Rightarrow> ('w libc \<times> int) option" where
  "execv cs environ path argv st = execve cs path argv environ st"

definition execvp :: "'w calls \<Rightarrow> string list \<Rightarrow> string option \<Rightarrow> string list \<Rightarrow> 'w libc \<Rightarrow> ('w libc \<times> int) option" where
  "execvp cs environ path argv st = (case path of None \<Rightarrow> Some (st\<lparr>lc_errno := 2\<rparr>, -1)
     | Some path \<Rightarrow> execve cs path argv environ st)"

definition fork :: "'w calls \<Rightarrow> 'w libc \<Rightarrow> ('w libc \<times> int) option" where
  "fork cs st = map_option (\<lambda>(st, r). (st, c_int r)) (call (c_fork cs) st)"

definition getpid :: "'w os \<Rightarrow> 'w libc \<Rightarrow> ('w libc \<times> int) option" where
  "getpid os st = map_option (\<lambda>(st, r). (st, c_int r)) (call (os_getpid os) st)"

definition getppid :: "'w libc \<Rightarrow> 'w libc \<times> int" where
  "getppid st = (st\<lparr>lc_errno := 1\<rparr>, -1)"

definition lseek :: "'w os \<Rightarrow> int \<Rightarrow> int \<Rightarrow> int \<Rightarrow> 'w libc \<Rightarrow> ('w libc \<times> int) option" where
  "lseek os fd off whence st = map_option errno_result_long (call (os_seek os fd off whence) st)"

definition readlink :: "'w calls \<Rightarrow> string \<Rightarrow> nat \<Rightarrow> 'w libc \<Rightarrow> ('w libc \<times> int \<times> string) option" where
  "readlink cs name len st = map_option errno_stored_long (call (c_readlink cs name len) st)"

definition rmdir :: "string \<Rightarrow> 'w libc \<Rightarrow> 'w libc \<times> int" where
  "rmdir name st = (st\<lparr>lc_errno := 1\<rparr>, -1)"

definition symlink :: "'w calls \<Rightarrow> string \<Rightarrow> string \<Rightarrow> 'w libc \<Rightarrow> ('w libc \<times> int) option" where
  "symlink cs target name st = map_option errno_result (call (c_symlink cs target name) st)"

definition unlink :: "'w os \<Rightarrow> string \<Rightarrow> 'w libc \<Rightarrow> ('w libc \<times> int) option" where
  "unlink os path st = map_option errno_result (call (os_unlink os path) st)"

definition libc_write :: "'w os \<Rightarrow> int \<Rightarrow> string \<Rightarrow> 'w libc \<Rightarrow> ('w libc \<times> int) option" where
  "libc_write os fd bytes st = map_option errno_result_long (call (os_write os fd bytes) st)"

definition chmod :: "'w calls \<Rightarrow> string \<Rightarrow> int \<Rightarrow> 'w libc \<Rightarrow> ('w libc \<times> int) option" where
  "chmod cs path mode st = map_option errno_result (call (c_chmod cs path mode) st)"

definition fstat :: "'w calls \<Rightarrow> int \<Rightarrow> 'w libc \<Rightarrow> ('w libc \<times> int \<times> u8 list) option" where
  "fstat cs fd st = map_option errno_stored (call (c_stat cs fd) st)"

definition lstat :: "'w calls \<Rightarrow> string \<Rightarrow> 'w libc \<Rightarrow> ('w libc \<times> int \<times> u8 list) option" where
  "lstat cs path st = map_option errno_stored (call (c_lstat cs path) st)"

definition mkdir :: "'w calls \<Rightarrow> string \<Rightarrow> int \<Rightarrow> 'w libc \<Rightarrow> ('w libc \<times> int) option" where
  "mkdir cs name mode st = map_option errno_result (call (c_mkdir cs name mode) st)"

definition stat :: "'w calls \<Rightarrow> string \<Rightarrow> 'w libc \<Rightarrow> ('w libc \<times> int \<times> u8 list) option" where
  "stat cs path st = map_option errno_stored (call (c_statf cs path) st)"

definition umask :: "'w calls \<Rightarrow> int \<Rightarrow> 'w libc \<Rightarrow> ('w libc \<times> int) option" where
  "umask cs mode st = map_option (\<lambda>(st, r). (st, c_int r)) (call (c_umask cs mode) st)"

text \<open>\<open>mode\<close> is the optional argument: reading it without one being passed is \<open>None\<close>.\<close>

definition open_path :: "'w os \<Rightarrow> string \<Rightarrow> u32 \<Rightarrow> int option \<Rightarrow> 'w libc \<Rightarrow> ('w libc \<times> int) option" where
  "open_path os path flags mode st = do {
     mode \<leftarrow> (if flags AND 0x200 \<noteq> 0 then mode else Some 0);
     (st, out) \<leftarrow> call (os_open os path flags mode) st;
     Some (if out = -1 then (st\<lparr>lc_errno := (if flags AND 0x200 \<noteq> 0 then 13 else 2)\<rparr>, -1)
       else if out < 0 then (st\<lparr>lc_errno := c_int (- out)\<rparr>, -1)
       else (st, c_int out)) }"

definition creat :: "'w os \<Rightarrow> string \<Rightarrow> int \<Rightarrow> 'w libc \<Rightarrow> ('w libc \<times> int) option" where
  "creat os path mode st = open_path os path (0x1 OR 0x200 OR 0x400) (Some mode) st"

section \<open>Directories\<close>

text \<open>
  A \<open>DIR\<close> is never freed and only its owner refers to it: it is a value that \<open>readdir\<close> returns updated.
  The entry is a static object, overwritten by the next call; its callers use it before that.
\<close>

record cdir =
  d_fd :: int
  d_index :: int

definition fdopendir :: "int \<Rightarrow> cdir" where
  "fdopendir fd = \<lparr>d_fd = fd, d_index = 0\<rparr>"

definition opendir :: "'w os \<Rightarrow> string \<Rightarrow> 'w libc \<Rightarrow> ('w libc \<times> cdir option) option" where
  "opendir os name st = do {
     (st, fd) \<leftarrow> open_path os name 0 None st;
     Some (st, if fd < 0 then None else Some (fdopendir fd)) }"

definition closedir :: "'w os \<Rightarrow> cdir option \<Rightarrow> 'w libc \<Rightarrow> ('w libc \<times> int) option" where
  "closedir os dir st = (case dir of
     None \<Rightarrow> Some (st, - 9)
   | Some d \<Rightarrow> if d_fd d \<noteq> -1 then close os (d_fd d) st else Some (st, - 9))"

definition dirfd :: "cdir \<Rightarrow> int" where
  "dirfd d = d_fd d"

text \<open>The counter is an \<open>int\<close>; stepping it beyond its range is undefined.\<close>

definition readdir :: "'w calls \<Rightarrow> cdir \<Rightarrow> 'w libc \<Rightarrow> ('w libc \<times> cdir \<times> string option) option" where
  "readdir cs d st = (if d_index d = 2147483647 then None else do {
     (st, out, name) \<leftarrow> call (c_readdir cs (d_fd d) (nat (d_index d))) st;
     let d = d\<lparr>d_index := d_index d + 1\<rparr>;
     Some (if out < 0 then (st\<lparr>lc_errno := c_int (- out)\<rparr>, d, None)
       else if out = 0 then (st, d, None)
       else (st, d, Some name)) })"

section \<open>Error texts\<close>

definition errlist :: "(int \<times> string) list" where
  "errlist = [
     (1, ''Operation not permitted''), (2, ''No such file or directory''),
     (3, ''No such process''), (4, ''Interrupted system call''),
     (5, ''I/O error''), (6, ''No such device or address''),
     (7, ''Argument list too long''), (8, ''Exec format error''),
     (9, ''Bad file descriptor''), (10, ''No child process''),
     (11, ''Try again''), (12, ''Out of memory''),
     (13, ''Permission denied''), (14, ''Bad address''),
     (15, ''Block device required''), (16, ''Device or resource busy''),
     (17, ''File exists''), (18, ''Cross-device link''),
     (19, ''No such device''), (20, ''Not a directory''),
     (21, ''Is a directory''), (22, ''Invalid argument''),
     (23, ''File table overflow''), (24, ''Too many open files''),
     (25, ''Not a typewriter''), (26, ''Text file busy''),
     (27, ''File too large''), (28, ''No space left on device''),
     (29, ''Illegal seek''), (30, ''Read-only file system''),
     (31, ''Too many links''), (32, ''Broken pipe''),
     (33, ''Math argument out of domain of func''), (34, ''Math result not representable''),
     (35, ''Resource deadlock would occur''), (36, ''File name too long''),
     (37, ''No record locks available''), (38, ''Function not implemented''),
     (39, ''Directory not empty''), (40, ''Too many symbolic links encountered''),
     (42, ''No message of desired type''), (43, ''Identifier removed''),
     (44, ''Channel number out of range''), (45, ''Level 2 not synchronized''),
     (46, ''Level 3 halted''), (47, ''Level 3 reset''),
     (48, ''Link number out of range''), (49, ''Protocol driver not attached''),
     (50, ''No CSI structure available''), (51, ''Level 2 halted''),
     (52, ''Invalid exchange''), (53, ''Invalid request descriptor''),
     (54, ''Exchange full''), (55, ''No anode''),
     (56, ''Invalid request code''), (57, ''Invalid slot''),
     (59, ''Bad font file format''), (60, ''Device not a stream''),
     (61, ''No data available''), (62, ''Timer expired''),
     (63, ''Out of streams resources''), (64, ''Machine is not on the network''),
     (65, ''Package not installed''), (66, ''Object is remote''),
     (67, ''Link has been severed''), (68, ''Advertise error''),
     (69, ''Srmount error''), (70, ''Communication error on send''),
     (71, ''Protocol error''), (72, ''Multihop attempted''),
     (73, ''RFS specific error''), (74, ''Not a data message''),
     (75, ''Value too large for defined data type''), (76, ''Name not unique on network''),
     (77, ''File descriptor in bad state''), (78, ''Remote address changed''),
     (79, ''Can not access a needed shared library''), (80, ''Accessing a corrupted shared library''),
     (81, ''.lib section in a.out corrupted''), (82, ''Attempting to link in too many shared libraries''),
     (83, ''Cannot exec a shared library directly''), (84, ''Illegal byte sequence''),
     (85, ''Interrupted system call should be restarted''), (86, ''Streams pipe error''),
     (87, ''Too many users''), (88, ''Socket operation on non-socket''),
     (89, ''Destination address required''), (90, ''Message too long''),
     (91, ''Protocol wrong type for socket''), (92, ''Protocol not available''),
     (93, ''Protocol not supported''), (94, ''Socket type not supported''),
     (95, ''Operation not supported on transport endpoint''), (96, ''Protocol family not supported''),
     (97, ''Address family not supported''), (98, ''Address already in use''),
     (99, ''Cannot assign requested address''), (100, ''Network is down''),
     (101, ''Network is unreachable''), (102, ''Network dropped connection because of reset''),
     (103, ''Software caused connection abort''), (104, ''Connection reset by peer''),
     (105, ''No buffer space available''), (106, ''Transport endpoint is already connected''),
     (107, ''Transport endpoint is not connected''), (108, ''Cannot send after transport endpoint shutdown''),
     (109, ''Too many references: cannot splice''), (110, ''Connection timed out''),
     (111, ''Connection refused''), (112, ''Host is down''),
     (113, ''No route to host''), (114, ''Operation already in progress''),
     (115, ''Operation now in progress''), (116, ''Stale NFS file handle''),
     (117, ''Structure needs cleaning''), (118, ''Not a XENIX named type file''),
     (119, ''No XENIX semaphores available''), (120, ''Is a named type file''),
     (121, ''Remote I/O error''), (122, ''Quota exceeded''),
     (123, ''No medium found''), (124, ''Wrong medium type''),
     (125, ''Operation canceled''), (126, ''Required key not available''),
     (127, ''Key has expired''), (128, ''Key has been revoked''),
     (129, ''Key was rejected by service''), (130, ''Owner died''),
     (131, ''State no recoverable''), (132, ''Not supported'')]"

definition c_text :: "string \<Rightarrow> nat \<Rightarrow> string option" where
  "c_text m p = do { n \<leftarrow> strlen (drop p m); Some (take n (drop p m)) }"

text \<open>The text of a number without an entry is printed into a static buffer of 30 characters.\<close>

definition strerror :: "int \<Rightarrow> string option" where
  "strerror err = (case map_of errlist err of
     Some s \<Rightarrow> Some s
   | None \<Rightarrow> do {
       (buf, _) \<leftarrow> vsnprintf (replicate 30 NUL) 30 ''%d'' [Arg_word (of_int err)];
       c_text buf 0 })"

definition perror :: "'w os \<Rightarrow> string option \<Rightarrow> 'w libc \<Rightarrow> 'w libc option" where
  "perror os s st = do {
     e \<leftarrow> strerror (lc_errno st);
     (case s of
        Some s \<Rightarrow> map_option fst (vfprintf os 2 (''%s: %s'' @ [CHR 0x0A]) [Arg_text (Some s), Arg_text (Some e)] st)
      | None \<Rightarrow> map_option fst (vfprintf os 2 (''%s'' @ [CHR 0x0A]) [Arg_text (Some e)] st)) }"

section \<open>The programs\<close>

text \<open>\<open>ls\<close>: the loop over the entries; the second result is the number of names printed.\<close>

partial_function (option) ls_loop :: "'w os \<Rightarrow> 'w calls \<Rightarrow> cdir \<Rightarrow> nat \<Rightarrow> 'w libc \<Rightarrow> ('w libc \<times> nat) option" where
  "ls_loop os cs dir printed st = do {
     (st, dir, e) \<leftarrow> readdir cs dir st;
     (case e of
        None \<Rightarrow> Some (st, printed)
      | Some name \<Rightarrow>
          if name \<noteq> [] \<and> hd name = CHR ''.'' then ls_loop os cs dir printed st
          else do {
            (st, _) \<leftarrow> vfprintf os 1 ''%-15s'' [Arg_text (Some name)] st;
            ls_loop os cs dir (add64 printed 1) st }) }"

definition ls_main :: "'w os \<Rightarrow> 'w calls \<Rightarrow> string list \<Rightarrow> 'w libc \<Rightarrow> ('w libc \<times> int) option" where
  "ls_main os cs argv st = do {
     let path = (if length argv > 1 then argv ! 1 else ''/'');
     (st, dir) \<leftarrow> opendir os path st;
     (case dir of
        None \<Rightarrow> do { st \<leftarrow> perror os (Some ''ls: cannot open directory'') st; Some (st, 0) }
      | Some d \<Rightarrow> do {
          (st, printed) \<leftarrow> ls_loop os cs d 0 st;
          st \<leftarrow> (if printed \<noteq> 0 then map_option fst (vfprintf os 1 [CHR 0x0A] [] st) else Some st);
          (st, _) \<leftarrow> closedir os (Some d) st;
          Some (st, 0) }) }"

text \<open>\<open>sh\<close>: a line of input, with the number of characters read; at the end of input it waits for ever.\<close>

partial_function (option) readline_loop :: "'w os \<Rightarrow> string \<Rightarrow> nat \<Rightarrow> nat \<Rightarrow> 'w libc \<Rightarrow> (string \<times> nat \<times> 'w libc) option" where
  "readline_loop os buf sz got st =
     (if got < sub64 sz 1 then do {
        (t, n, st) \<leftarrow> fread os 1 1 0 st;
        if 0 < n then do {
          c \<leftarrow> mem_load t 0;
          buf \<leftarrow> mem_store buf got c;
          if c = CHR 0x0A then do {
            buf \<leftarrow> mem_store buf (Suc got) NUL;
            Some (buf, Suc got, st) }
          else readline_loop os buf sz (Suc got) st }
        else readline_loop os buf sz got st }
      else do {
        buf \<leftarrow> mem_store buf got NUL;
        Some (buf, got, st) })"

definition readline :: "'w os \<Rightarrow> string \<Rightarrow> nat \<Rightarrow> 'w libc \<Rightarrow> (string \<times> nat \<times> 'w libc) option" where
  "readline os buf sz st = readline_loop os buf sz 0 st"

text \<open>
  One turn of the shell's loop: it goes on, ends, or is the child that could not run the program. The
  shell's \<open>command\<close> is not initialised: \<open>buf\<close> is what it holds.
\<close>

datatype turn = Turn_next | Turn_exit | Turn_child int

definition not_found :: "'w os \<Rightarrow> string \<Rightarrow> 'w libc \<Rightarrow> ('w libc \<times> turn) option" where
  "not_found os name st = do {
     (st, _) \<leftarrow> vfprintf os 1 (''sh: command not found: %s'' @ [CHR 0x0A]) [Arg_text (Some name)] st;
     Some (st, Turn_next) }"

definition run_program :: "'w calls \<Rightarrow> string list \<Rightarrow> string \<Rightarrow> string list \<Rightarrow> 'w libc \<Rightarrow> ('w libc \<times> turn) option" where
  "run_program cs environ path argv st = do {
     (st, child) \<leftarrow> fork cs st;
     if child = 0 then do {
       (st, r) \<leftarrow> execv cs environ path argv st;
       Some (st, Turn_child r) }
     else do {
       (st, _) \<leftarrow> call (c_waitpid cs child) st;
       Some (st, Turn_next) } }"

definition find_program :: "'w os \<Rightarrow> 'w calls \<Rightarrow> string list \<Rightarrow> string \<Rightarrow> string list \<Rightarrow> 'w libc \<Rightarrow> ('w libc \<times> turn) option" where
  "find_program os cs environ command argv st = do {
     let name = hd argv;
     (st, a) \<leftarrow> access cs name 0 st;
     if a \<noteq> 0 then do {
       slash \<leftarrow> strstr (name @ [NUL]) [CHR ''/'', NUL];
       if slash = None then do {
         (cells, _) \<leftarrow> vsnprintf (replicate 1024 NUL) 1024 ''/bin/%s'' [Arg_text (Some name)];
         path \<leftarrow> c_text cells 0;
         (st, a) \<leftarrow> access cs path 0 st;
         if a \<noteq> 0 then not_found os name st else run_program cs environ path argv st }
       else not_found os name st }
     else do {
       path \<leftarrow> c_text command 0;
       run_program cs environ path argv st } }"

definition sh_turn :: "'w os \<Rightarrow> 'w calls \<Rightarrow> string list \<Rightarrow> string \<Rightarrow> string \<Rightarrow> 'w libc \<Rightarrow> ('w libc \<times> turn) option" where
  "sh_turn os cs environ working_dir buf st = do {
     (st, _) \<leftarrow> vfprintf os 1 ''%s %% '' [Arg_text (Some working_dir)] st;
     (st, _) \<leftarrow> fflush os 1 st;
     (command, _, st) \<leftarrow> readline os buf 1024 st;
     n \<leftarrow> strlen command;
     if n = 0 then None
     else do {
       command \<leftarrow> mem_store command (n - 1) NUL;
       (command, tokens) \<leftarrow> sh_tokens command;
       argv \<leftarrow> those (map (c_text command) (map the (takeWhile (\<lambda>t. t \<noteq> None) tokens)));
       if argv = [] \<or> hd argv = [] then Some (st, Turn_next)
       else if hd argv = ''exit'' then Some (st, Turn_exit)
       else find_program os cs environ command argv st } }"

partial_function (option) sh_loop :: "'w os \<Rightarrow> 'w calls \<Rightarrow> string list \<Rightarrow> 'w libc \<Rightarrow> ('w libc \<times> int) option" where
  "sh_loop os cs environ st = do {
     (st, t) \<leftarrow> sh_turn os cs environ ''/'' (map (os_junk os) [0..<1024]) st;
     (case t of Turn_next \<Rightarrow> sh_loop os cs environ st | Turn_exit \<Rightarrow> Some (st, 0) | Turn_child r \<Rightarrow> Some (st, r)) }"

definition sh_main :: "'w os \<Rightarrow> 'w calls \<Rightarrow> string list \<Rightarrow> 'w libc \<Rightarrow> ('w libc \<times> int) option" where
  "sh_main os cs environ st = do {
     (st, _) \<leftarrow> puts os ''sh - version 1.0.0-dev'' st;
     sh_loop os cs environ st }"

text \<open>\<open>init\<close> opens the terminal three times, as descriptors 0, 1 and 2, and waits for the shell.\<close>

definition init_stdio_fds :: "'w os \<Rightarrow> 'w libc \<Rightarrow> 'w libc option" where
  "init_stdio_fds os st = do {
     (st, _) \<leftarrow> call (os_open os ''/dev/pts/1'' 0 0) st;
     (st, _) \<leftarrow> call (os_open os ''/dev/pts/1'' 1 0) st;
     (st, _) \<leftarrow> call (os_open os ''/dev/pts/1'' 1 0) st;
     Some st }"

definition init_main :: "'w os \<Rightarrow> 'w calls \<Rightarrow> string list \<Rightarrow> 'w libc \<Rightarrow> ('w libc \<times> int) option" where
  "init_main os cs environ st = do {
     st \<leftarrow> init_stdio_fds os st;
     (st, child) \<leftarrow> fork cs st;
     if child = 0 then do {
       (st, _) \<leftarrow> execv cs environ ''/bin/sh'' [''/bin/sh''] st;
       Some (st, 1) }
     else do {
       (st, _) \<leftarrow> call (c_waitpid cs child) st;
       Some (st, 0) } }"

section \<open>Reading a line\<close>

lemma readline_loop_line:
  "reading os fd rest 0 st \<Longrightarrow> pending_in rest 0 st = l @ CHR 0x0A # left \<Longrightarrow> CHR 0x0A \<notin> set l \<Longrightarrow>
   got + length l + 1 < sz \<Longrightarrow> sz \<le> length buf \<Longrightarrow> sz < 18446744073709551616 \<Longrightarrow>
   \<exists>st'. readline_loop os buf sz got st = Some (take got buf @ l @ [CHR 0x0A, NUL] @ drop (got + length l + 2) buf, got + length l + 1, st') \<and>
     reading os fd rest 0 st' \<and> pending_in rest 0 st' = left"
proof (induction l arbitrary: got buf st)
  case Nil
  from fread_pending [OF Nil.prems(1), of 1 1] Nil.prems(2) obtain st'
    where "fread os 1 1 0 st = Some ([CHR 0x0A], 1, st')" "reading os fd rest 0 st'" "pending_in rest 0 st' = left"
    by auto
  moreover have "sub64 sz 1 = sz - 1" using Nil.prems(4,6) by (intro sub64_id) simp_all
  moreover have "take got buf @ [CHR 0x0A, NUL] @ drop (got + 2) buf = buf[got := CHR 0x0A, Suc got := NUL]"
  proof -
    have g: "got < length buf" "Suc got < length buf" using Nil.prems(4,5) by simp_all
    have "drop (Suc got) buf = buf ! Suc got # drop (got + 2) buf" using g(2) by (simp add: Cons_nth_drop_Suc)
    then show ?thesis using g by (simp add: upd_conv_take_nth_drop list_update_append)
  qed
  ultimately show ?case
    using Nil.prems(4,5) by (subst readline_loop.simps) (simp add: memobj)
next
  case (Cons c l)
  from fread_pending [OF Cons.prems(1), of 1 1] Cons.prems(2) obtain st1
    where f: "fread os 1 1 0 st = Some ([c], 1, st1)" "reading os fd rest 0 st1" "pending_in rest 0 st1 = l @ CHR 0x0A # left"
    by auto
  have sub: "sub64 sz 1 = sz - 1" using Cons.prems(4,6) by (intro sub64_id) simp_all
  have "\<exists>st'. readline_loop os (buf[got := c]) sz (Suc got) st1 =
      Some (take (Suc got) (buf[got := c]) @ l @ [CHR 0x0A, NUL] @ drop (Suc got + length l + 2) (buf[got := c]), Suc got + length l + 1, st') \<and>
      reading os fd rest 0 st' \<and> pending_in rest 0 st' = left"
    by (rule Cons.IH [OF f(2,3)]) (use Cons.prems in auto)
  moreover have "take (Suc got) (buf[got := c]) = take got buf @ [c]"
    using Cons.prems(4,5) by (simp add: take_Suc_conv_app_nth)
  moreover have "c \<noteq> CHR 0x0A" "got < sz - 1" "got < length buf" using Cons.prems(3-5) by auto
  then have "readline_loop os buf sz got st = readline_loop os (buf[got := c]) sz (Suc got) st1"
    using f(1) sub by (subst readline_loop.simps) (simp add: memobj)
  ultimately show ?case by simp
qed

lemma readline_line:
  assumes "reading os fd rest 0 st" and "pending_in rest 0 st = l @ CHR 0x0A # left" and "CHR 0x0A \<notin> set l"
    and "length l + 1 < sz" and "sz \<le> length buf" and "sz < 18446744073709551616"
  shows "\<exists>st'. readline os buf sz st = Some (l @ [CHR 0x0A, NUL] @ drop (length l + 2) buf, length l + 1, st') \<and>
    reading os fd rest 0 st' \<and> pending_in rest 0 st' = left"
  using readline_loop_line [OF assms(1-3), of 0 sz buf] assms(4-6) by (simp add: readline_def)

section \<open>What printing leaves alone\<close>

text \<open>A fact of the world that writing to any descriptor keeps.\<close>

definition kept_by_write :: "'w os \<Rightarrow> ('w \<Rightarrow> bool) \<Rightarrow> bool" where
  "kept_by_write os P \<longleftrightarrow> (\<forall>fd t w w' r. os_write os fd t w = Some (w', r) \<longrightarrow> P w \<longrightarrow> P w')"

lemma kept_by_writeD: "kept_by_write os P \<Longrightarrow> os_write os fd t w = Some (w', r) \<Longrightarrow> P w \<Longrightarrow> P w'"
  unfolding kept_by_write_def by blast

lemma fflush_frame:
  assumes "fflush os f st = Some (st', r)" and "kept_by_write os P" and "P (lc_world st)"
  shows "(\<forall>g. g \<noteq> f \<longrightarrow> lc_files st' g = lc_files st g) \<and> P (lc_world st')"
  using assms
  by (auto simp: fflush_def call_def put_file_def split: option.splits if_splits elim!: bind_SomeE) (erule (2) kept_by_writeD)

lemma write_byte_frame:
  assumes "write_byte os f c st = Some st'" and "kept_by_write os P" and "P (lc_world st)"
  shows "(\<forall>g. g \<noteq> f \<longrightarrow> lc_files st' g = lc_files st g) \<and> P (lc_world st')"
proof -
  from assms(1) obtain fl buf where b: "(if Suc (f_written fl) = f_wbufsiz fl \<or> c = CHR 0x0A
      then map_option fst (fflush os f (put_file f (fl\<lparr>f_write_buf := Some buf, f_written := Suc (f_written fl)\<rparr>) st))
      else Some (put_file f (fl\<lparr>f_write_buf := Some buf, f_written := Suc (f_written fl)\<rparr>) st)) = Some st'"
    by (auto simp: write_byte_def Let_def elim!: bind_SomeE)
  let ?st = "put_file f (fl\<lparr>f_write_buf := Some buf, f_written := Suc (f_written fl)\<rparr>) st"
  have p: "P (lc_world ?st)" "\<forall>g. g \<noteq> f \<longrightarrow> lc_files ?st g = lc_files st g" using assms(3) by (simp_all add: put_file_def)
  show ?thesis
  proof (cases "Suc (f_written fl) = f_wbufsiz fl \<or> c = CHR 0x0A")
    case True
    then obtain r where "fflush os f ?st = Some (st', r)" using b by auto
    from fflush_frame [OF this assms(2) p(1)] p(2) show ?thesis by simp
  next
    case False
    then show ?thesis using b p by auto
  qed
qed

lemma print_frame:
  assumes "for_each t (cb_fprintf os f) st = Some st'" and "kept_by_write os P" and "P (lc_world st)"
  shows "(\<forall>g. g \<noteq> f \<longrightarrow> lc_files st' g = lc_files st g) \<and> P (lc_world st')"
  using assms(1,3)
proof (induction t arbitrary: st)
  case (Cons c t)
  then obtain st1 where st1: "cb_fprintf os f c st = Some st1" "for_each t (cb_fprintf os f) st1 = Some st'" by (auto elim!: bind_SomeE)
  have "st1 = st \<or> (\<exists>x. write_byte os f x st = Some st1)"
    using st1(1) by (auto simp: cb_fprintf_def fputc_def write_bytes_def split: if_splits elim!: bind_SomeE)
  then have "(\<forall>g. g \<noteq> f \<longrightarrow> lc_files st1 g = lc_files st g) \<and> P (lc_world st1)"
    using write_byte_frame [OF _ assms(2) Cons.prems(2)] Cons.prems(2) by auto
  then show ?case using Cons.IH [OF st1(2)] by simp
qed simp

section \<open>What reading leaves alone\<close>

definition kept_by_read :: "'w os \<Rightarrow> ('w \<Rightarrow> bool) \<Rightarrow> bool" where
  "kept_by_read os P \<longleftrightarrow> (\<forall>fd n w w' r. os_read os fd n w = Some (w', r) \<longrightarrow> P w \<longrightarrow> P w') \<and>
     (\<forall>fd pos whence w w' r. os_seek os fd pos whence w = Some (w', r) \<longrightarrow> P w \<longrightarrow> P w')"

lemma fill_buffer_frame:
  assumes "fill_buffer os f st = Some (st', ok)" and "kept_by_read os P" and "P (lc_world st)"
  shows "P (lc_world st')"
proof -
  have rd: "os_read os fd n w = Some (w', r) \<Longrightarrow> P w \<Longrightarrow> P w'" and sk: "os_seek os fd pos whence w = Some (w', x) \<Longrightarrow> P w \<Longrightarrow> P w'"
    for fd n w w' r pos whence x using assms(2) unfolding kept_by_read_def by blast+
  show ?thesis
    using assms(1,3) by (auto simp: fill_buffer_def libc_read_def call_def put_file_def Let_def split: if_splits elim!: bind_SomeE dest!: rd sk)
qed

lemma read_bytes_frame:
  assumes "read_bytes os f n st = Some (t, st')" and k: "kept_by_read os P" and "P (lc_world st)"
  shows "P (lc_world st')"
proof -
  have "read_bytes os f n st = Some y \<Longrightarrow> kept_by_read os P \<longrightarrow> P (lc_world st) \<longrightarrow> P (lc_world (snd y))" for n st y
  proof (erule read_bytes.raw_induct [rotated], goal_cases)
    case (1 rb os f n st y)
    note IH = 1(1)
    show ?case
    proof (intro impI)
      assume k: "kept_by_read os P" and P: "P (lc_world st)"
      have fb: "fill_buffer os f st = Some (st1, ok) \<Longrightarrow> P (lc_world st1)" for st1 ok by (rule fill_buffer_frame [OF _ k P])
      show "P (lc_world (snd y))"
        using 1(2) k P by (auto simp: put_file_def split: if_splits elim!: bind_SomeE dest!: IH fb)
    qed
  qed
  from this [OF assms(1)] k assms(3) show ?thesis by simp
qed

lemma fread_frame:
  assumes "fread os sz n f st = Some (t, k, st')" and "kept_by_read os P" and "P (lc_world st)"
  shows "P (lc_world st')"
proof -
  have "fread_loop os sz n f st = Some (t, k, st') \<Longrightarrow> P (lc_world st) \<Longrightarrow> P (lc_world st')" for t k st
  proof (induction n arbitrary: t k st)
    case (Suc n)
    from Suc.prems(1) obtain t1 st1 where r: "read_bytes os f sz st = Some (t1, st1)"
      and n: "st1 = st' \<or> (\<exists>t2 k2. fread_loop os sz n f st1 = Some (t2, k2, st'))"
      by (auto split: if_splits elim!: bind_SomeE)
    from read_bytes_frame [OF r assms(2) Suc.prems(2)] n Suc.IH show ?case by auto
  qed simp
  then show ?thesis using assms(1,3) by (simp add: fread_def split: if_splits)
qed

lemma readline_frame:
  assumes "readline os buf sz st = Some (t, n, st')" and k: "kept_by_read os P" and "P (lc_world st)"
  shows "P (lc_world st')"
proof -
  have "readline_loop os buf sz got st = Some y \<Longrightarrow> kept_by_read os P \<longrightarrow> P (lc_world st) \<longrightarrow> P (lc_world (snd (snd y)))" for buf sz got st y
  proof (erule readline_loop.raw_induct [rotated], goal_cases)
    case (1 rl os buf sz got st y)
    from 1(2) consider "snd (snd y) = st" | t n st1 where "fread os 1 1 0 st = Some (t, n, st1)" "snd (snd y) = st1"
      | t n st1 b g where "fread os 1 1 0 st = Some (t, n, st1)" "rl os b sz g st1 = Some y"
      by (auto simp: Let_def split: if_splits elim!: bind_SomeE)
    then show ?case
    proof cases
      case (3 t n st1 b g)
      then show ?thesis using fread_frame [OF 3(1)] 1(1) [OF 3(2)] by blast
    qed (use fread_frame in auto)
  qed
  from this [of buf sz 0 st "(t, n, st')"] k assms(1,3) show ?thesis by (simp add: readline_def)
qed

section \<open>The shell runs the line it is given\<close>

lemma vfprintf_ok:
  assumes "writing os fd sink f st" and "printf_text fmt args = Some (t, n)"
  shows "\<exists>st'. vfprintf os f fmt args st = Some (st', int_result (length t)) \<and> for_each t (cb_fprintf os f) st = Some st' \<and>
    writing os fd sink f st' \<and> sent sink f st' = sent sink f st @ t"
proof -
  from fprintf_ok [OF assms(1), of t] obtain st'
    where "for_each t (cb_fprintf os f) st = Some st'" "writing os fd sink f st'" "sent sink f st' = sent sink f st @ t"
    by (elim exE conjE)
  then show ?thesis by (simp add: vfprintf_def printf_with_text assms(2))
qed

lemma prompt_text: "printf_text ''%s %% '' [Arg_text (Some ''/'')] = Some (''/ % '', 4)"
  by (simp add: printf_eval)

text \<open>The prompt reaches the kernel and takes nothing from the input.\<close>

lemma prompt_reading:
  assumes w: "writing os fd1 sink 1 st" and r: "reading os fd0 rest 0 st" and k: "\<And>x. kept_by_write os (\<lambda>w. rest w = x)"
  shows "\<exists>st1 st2 n. vfprintf os 1 ''%s %% '' [Arg_text (Some ''/'')] st = Some (st1, n) \<and> fflush os 1 st1 = Some (st2, 0) \<and>
    reading os fd0 rest 0 st2 \<and> pending_in rest 0 st2 = pending_in rest 0 st \<and> sink (lc_world st2) = sent sink 1 st @ ''/ % ''"
proof -
  from vfprintf_ok [OF w prompt_text] obtain st1 where st1:
    "vfprintf os 1 ''%s %% '' [Arg_text (Some ''/'')] st = Some (st1, int_result (length ''/ % ''))" "for_each ''/ % '' (cb_fprintf os 1) st = Some st1"
    "writing os fd1 sink 1 st1" "sent sink 1 st1 = sent sink 1 st @ ''/ % ''" by (elim exE conjE)
  from st1(3) obtain fl buf where fl: "accepts os fd1 sink" "lc_files st1 1 = Some fl" "f_fd fl = fd1" "f_write_buf fl = Some buf"
    "length buf = f_wbufsiz fl" "f_written fl < f_wbufsiz fl" "sent sink 1 st1 = sink (lc_world st1) @ take (f_written fl) buf"
    by (rule writingE)
  from fflush_ok [OF fl(1-5)] fl(6,7) obtain st2 where st2: "fflush os 1 st1 = Some (st2, 0)" "sink (lc_world st2) = sent sink 1 st1" by auto
  have f1: "lc_files st1 0 = lc_files st 0 \<and> rest (lc_world st1) = rest (lc_world st)"
    using print_frame [OF st1(2) k, of "rest (lc_world st)"] by simp
  have f2: "lc_files st2 0 = lc_files st1 0 \<and> rest (lc_world st2) = rest (lc_world st1)"
    using fflush_frame [OF st2(1) k, of "rest (lc_world st1)"] by simp
  have "reading os fd0 rest 0 st2" "pending_in rest 0 st2 = pending_in rest 0 st"
    using r f1 f2 by (auto simp: reading_def pending_in_def)
  then show ?thesis using st1(1,4) st2 by auto
qed

lemma words_nonempty: "w \<in> set (words d t) \<Longrightarrow> w \<noteq> []"
proof (induction "length t" arbitrary: t rule: less_induct)
  case less
  show ?case
  proof (cases "dropWhile d t")
    case Nil
    then show ?thesis using less.prems by (simp add: words.simps [of d t])
  next
    case (Cons c u)
    let ?v = "dropWhile (\<lambda>c. \<not> d c) (c # u)"
    have c: "\<not> d c" using Cons by (metis dropWhile_eq_Cons_conv)
    have "length ?v < length t" using c Cons length_dropWhile_le [of d t] length_dropWhile_le [of "\<lambda>c. \<not> d c" u] by simp
    moreover have "words d t = takeWhile (\<lambda>c. \<not> d c) (c # u) # words d ?v" using Cons by (simp add: words.simps [of d t])
    ultimately show ?thesis using less.hyps [of ?v] less.prems c by (auto split: if_splits)
  qed
qed

lemma c_text_cstr: "cstr (drop p m) w \<Longrightarrow> c_text m p = Some w"
  by (auto simp: c_text_def strlen_cstr) (auto simp: cstr_def prefix_def)

lemma texts_of_tokens:
  "list_all2 (\<lambda>p w. cstr (drop p m) w) ps ws \<Longrightarrow>
   those (map (c_text m) (map the (takeWhile (\<lambda>t. t \<noteq> None) (map Some ps @ [None])))) = Some ws"
  by (induction rule: list_all2_induct) (simp_all add: c_text_cstr)

text \<open>
  C16. The shell runs the line it is given: when its input holds a line of at most 1022 characters that
  begins with a word other than \<open>exit\<close> (which ends the shell) that the kernel finds, a turn of its loop hands
  the kernel what was still in the buffer of the standard output and then the prompt \<open>/ % \<close> and nothing
  else, takes exactly that line from the input, however the kernel delivers it, and starts the program of the first
  word with the words of the line as its arguments. What the terminal got is read off a \<open>sink\<close> of the kernel that reads, seeks and the
  test for the file do not change, and the input left off a \<open>rest\<close> that writes do not change.
\<close>

theorem sh_runs_line:
  assumes "writing os fd1 sink 1 st" and "reading os fd0 rest 0 st" and k: "\<And>x. kept_by_write os (\<lambda>w. rest w = x)"
    and kr: "\<And>x. kept_by_read os (\<lambda>w. sink w = x)"
    and inp: "pending_in rest 0 st = l @ CHR 0x0A # left" "CHR 0x0A \<notin> set l" "NUL \<notin> set l" "length l \<le> 1022"
    and ws: "words (\<lambda>c. c = CHR '' '') l = w # ws" "hd l \<noteq> CHR '' ''" "w \<noteq> ''exit''"
    and found: "\<And>x. \<exists>x'. c_access cs w 0 x = Some (x', 0) \<and> rest x' = rest x \<and> sink x' = sink x" and buf: "length buf = 1024"
  shows "\<exists>st'. sh_turn os cs env ''/'' buf st = run_program cs env w (w # ws) st' \<and>
    sink (lc_world st') = sent sink 1 st @ ''/ % '' \<and> reading os fd0 rest 0 st' \<and> pending_in rest 0 st' = left"
proof -
  from prompt_reading [OF assms(1,2) k] obtain st1 st2 n where
    p: "vfprintf os 1 ''%s %% '' [Arg_text (Some ''/'')] st = Some (st1, n)" "fflush os 1 st1 = Some (st2, 0)"
      "reading os fd0 rest 0 st2" "pending_in rest 0 st2 = pending_in rest 0 st"
      "sink (lc_world st2) = sent sink 1 st @ ''/ % ''" by (elim exE conjE)
  let ?cmd = "l @ [CHR 0x0A, NUL] @ drop (length l + 2) buf" and ?cut = "l @ [NUL, NUL] @ drop (length l + 2) buf"
  from readline_line [OF p(3), of l left 1024 buf] p(4) inp buf obtain st3 where
    r: "readline os buf 1024 st2 = Some (?cmd, length l + 1, st3)" "reading os fd0 rest 0 st3" "pending_in rest 0 st3 = left" by auto
  have sink3: "sink (lc_world st3) = sent sink 1 st @ ''/ % ''" using readline_frame [OF r(1) kr p(5)] .
  have len: "strlen ?cmd = Some (length l + 1)"
    using strlen_cstr [of ?cmd "l @ [CHR 0x0A]"] inp(3) by (simp add: cstr_def)
  have cut: "mem_store ?cmd (length l + 1 - 1) NUL = Some ?cut" by (simp add: mem_store_def list_update_append)
  have "cstr ?cut l" using inp(3) by (simp add: cstr_def)
  from sh_tokens_cut [OF this inp(4)] obtain m ps where
    t: "sh_tokens ?cut = Some (m, map Some ps @ [None])" "list_all2 (\<lambda>p w. cstr (drop p m) w) ps (w # ws)"
      "ps \<noteq> [] \<longrightarrow> hd ps = length (takeWhile (\<lambda>c. c = CHR '' '') l)"
    unfolding ws(1) by (elim exE conjE)
  have first: "c_text m 0 = Some w"
  proof -
    obtain q qs where q: "ps = q # qs" "cstr (drop q m) w" using t(2) by (cases ps) auto
    moreover have "takeWhile (\<lambda>c. c = CHR '' '') l = []" using ws(2) by (cases l) auto
    ultimately show ?thesis using t(3) c_text_cstr [of q m w] by simp
  qed
  have ne: "w \<noteq> []" using words_nonempty [of w "\<lambda>c. c = CHR '' ''" l] ws(1) by simp
  from found [of "lc_world st3"] obtain x where a: "c_access cs w 0 (lc_world st3) = Some (x, 0)" "rest x = rest (lc_world st3)"
    "sink x = sink (lc_world st3)" by blast
  let ?st4 = "st3\<lparr>lc_world := x\<rparr>"
  have "access cs w 0 st3 = Some (?st4, 0)" using a(1) by (simp add: access_def call_def c_int_def)
  then have "find_program os cs env m (w # ws) st3 = run_program cs env w (w # ws) ?st4"
    using first by (simp add: find_program_def)
  then have "sh_turn os cs env ''/'' buf st = run_program cs env w (w # ws) ?st4"
    using p(1,2) r(1) len cut t(1) texts_of_tokens [OF t(2)] ne ws(3)
    by (simp add: sh_turn_def del: length_append append_assoc One_nat_def list.map map_append takeWhile_append2)
  moreover have "sink (lc_world ?st4) = sent sink 1 st @ ''/ % ''" using sink3 a(3) by simp
  moreover have "reading os fd0 rest 0 ?st4" "pending_in rest 0 ?st4 = left"
    using r(2,3) a(2) by (auto simp: reading_def pending_in_def)
  ultimately show ?thesis by blast
qed

text \<open>A kernel that finds every program and forks into the child.\<close>

definition example_calls :: "example_world calls" where
  "example_calls = \<lparr>
     c_access = (\<lambda>path mode w. Some (w, 0)),
     c_chown = (\<lambda>path owner grp w. Some (w, 0)),
     c_chmod = (\<lambda>path mode w. Some (w, 0)),
     c_mkdir = (\<lambda>path mode w. Some (w, 0)),
     c_umask = (\<lambda>mode w. Some (w, 0)),
     c_symlink = (\<lambda>target name w. Some (w, 0)),
     c_readlink = (\<lambda>path n w. Some (w, 0, [])),
     c_stat = (\<lambda>fd w. Some (w, 0, [])),
     c_statf = (\<lambda>path w. Some (w, 0, [])),
     c_lstat = (\<lambda>path w. Some (w, 0, [])),
     c_readdir = (\<lambda>fd i w. Some (if i < 3 then (w, 1, [''.'', ''etc'', ''bin''] ! i) else (w, 0, []))),
     c_dup2 = (\<lambda>oldfd newfd w. Some (w, newfd)),
     c_fork = (\<lambda>w. Some (w, 0)),
     c_execve = (\<lambda>path argv env w. Some (w, -2)),
     c_waitpid = (\<lambda>pid w. Some (w, 0))\<rparr>"

lemma example_kept: "kept_by_write example_os (\<lambda>w. ew_rest w = x)"
  by (auto simp: kept_by_write_def example_os_def)

lemma example_kept_read: "kept_by_read example_os (\<lambda>w. ew_sink w = x)"
  by (auto simp: kept_by_read_def example_os_def)

lemma sh_runs_line_witness:
  "\<exists>st'. sh_turn example_os example_calls [] ''/'' (replicate 1024 NUL) (example_libc (''ls /bin'' @ CHR 0x0A # ''x'')) =
    run_program example_calls [] ''ls'' [''ls'', ''/bin''] st' \<and>
    ew_sink (lc_world st') = ''/ % '' \<and> pending_in ew_rest 0 st' = ''x''"
proof -
  have "words (\<lambda>c. c = CHR '' '') ''ls /bin'' = [''ls'', ''/bin'']"
    by (simp add: words.simps [of _ "''ls /bin''"] words.simps [of _ "'' /bin''"] words.simps [of _ "[]"])
  moreover have "pending_in ew_rest 0 (example_libc (''ls /bin'' @ CHR 0x0A # ''x'')) = ''ls /bin'' @ CHR 0x0A # ''x''"
    by (simp add: pending_in_def example_libc_def stdio_init_def std_stream_def buffered_def)
  moreover have "sent ew_sink 1 (example_libc (''ls /bin'' @ CHR 0x0A # ''x'')) = []"
    by (simp add: sent_def example_libc_def stdio_init_def std_stream_def)
  ultimately show ?thesis
    using sh_runs_line [OF example_writing [of "''ls /bin'' @ CHR 0x0A # ''x''"] example_reading example_kept example_kept_read, of "''ls /bin''" "''x''" "''ls''" "[''/bin'']" example_calls "replicate 1024 NUL" "[]"]
    by (auto simp: example_calls_def)
qed

section \<open>\<open>ls\<close> prints the names of a directory\<close>

text \<open>
  What \<open>ls\<close> relies on: reading the directory by increasing index gives the names in order and then no
  more, and neither that, opening nor closing writes to the terminal.
\<close>

definition lists :: "'w os \<Rightarrow> 'w calls \<Rightarrow> string \<Rightarrow> string list \<Rightarrow> ('w \<Rightarrow> string) \<Rightarrow> bool" where
  "lists os cs path ns sink \<longleftrightarrow>
     (\<exists>fd. 0 \<le> fd \<and> fd < 2147483648 \<and> (\<forall>w. \<exists>w'. os_open os path 0 0 w = Some (w', fd) \<and> sink w' = sink w) \<and>
        (\<forall>i w. \<exists>w' r t. c_readdir cs fd i w = Some (w', r, t) \<and> sink w' = sink w \<and>
           (if i < length ns then 0 < r \<and> t = ns ! i else r \<le> 0)) \<and>
        (\<forall>w. \<exists>w' r. os_close os fd w = Some (w', r) \<and> sink w' = sink w))"

definition hidden :: "string \<Rightarrow> bool" where
  "hidden n \<longleftrightarrow> n \<noteq> [] \<and> hd n = CHR ''.''"

definition column :: "string \<Rightarrow> string" where
  "column n = take 15 n @ replicate (15 - length n) (CHR '' '')"

lemma column_text: "\<exists>k. printf_text ''%-15s'' [Arg_text (Some name)] = Some (column name, k)"
  by (simp add: printf_eval string_text_def column_def)

lemma call_writing:
  assumes "writing os fd sink f st" and "g (lc_world st) = Some (w, r)" and "sink w = sink (lc_world st)"
  shows "call g st = Some (st\<lparr>lc_world := w\<rparr>, r) \<and> writing os fd sink f (st\<lparr>lc_world := w\<rparr>) \<and>
    sent sink f (st\<lparr>lc_world := w\<rparr>) = sent sink f st"
  using assms by (auto simp: call_def writing_def sent_def)

lemma writing_errno [simp]:
  "writing os fd sink f (st\<lparr>lc_errno := e\<rparr>) = writing os fd sink f st" "sent sink f (st\<lparr>lc_errno := e\<rparr>) = sent sink f st"
  by (simp_all add: writing_def sent_def cong: option.case_cong)

lemma readdir_step:
  assumes w: "writing os ofd sink 1 st" and rd: "\<And>i w. \<exists>w' r t. c_readdir cs fd i w = Some (w', r, t) \<and> sink w' = sink w \<and>
      (if i < length ns then 0 < r \<and> t = ns ! i else r \<le> 0)" and i: "i < 2147483647"
  shows "\<exists>st'. readdir cs \<lparr>d_fd = fd, d_index = int i\<rparr> st =
      Some (st', \<lparr>d_fd = fd, d_index = int (Suc i)\<rparr>, if i < length ns then Some (ns ! i) else None) \<and>
    writing os ofd sink 1 st' \<and> sent sink 1 st' = sent sink 1 st"
proof -
  from rd [of i "lc_world st"] obtain w' r t where 1: "c_readdir cs fd i (lc_world st) = Some (w', r, t)" "sink w' = sink (lc_world st)"
    "if i < length ns then 0 < r \<and> t = ns ! i else r \<le> 0" by (elim exE conjE)
  note c = call_writing [OF w, of "c_readdir cs fd i" w' "(r, t)", OF 1(1,2)]
  show ?thesis
    using c i 1(3) by (cases "i < length ns"; cases "r < 0") (auto simp: readdir_def)
qed

lemma ls_loop_prints:
  assumes rd: "\<And>i w. \<exists>w' r t. c_readdir cs fd i w = Some (w', r, t) \<and> sink w' = sink w \<and>
      (if i < length ns then 0 < r \<and> t = ns ! i else r \<le> 0)" and n: "length ns < 2147483647"
  shows "writing os ofd sink 1 st \<Longrightarrow> i \<le> length ns \<Longrightarrow> k + (length ns - i) < 18446744073709551616 \<Longrightarrow>
    \<exists>st'. ls_loop os cs \<lparr>d_fd = fd, d_index = int i\<rparr> k st = Some (st', k + length (filter (\<lambda>n. \<not> hidden n) (drop i ns))) \<and>
      writing os ofd sink 1 st' \<and> sent sink 1 st' = sent sink 1 st @ concat (map column (filter (\<lambda>n. \<not> hidden n) (drop i ns)))"
proof (induction "length ns - i" arbitrary: i k st)
  case 0
  then have "i = length ns" by simp
  with readdir_step [OF 0(2) rd, of i] n show ?case by (subst ls_loop.simps) auto
next
  case (Suc m)
  then have i: "i < length ns" by simp
  from readdir_step [OF Suc.prems(1) rd, of i] i n obtain st1 where
    s1: "readdir cs \<lparr>d_fd = fd, d_index = int i\<rparr> st = Some (st1, \<lparr>d_fd = fd, d_index = int (Suc i)\<rparr>, Some (ns ! i))"
      "writing os ofd sink 1 st1" "sent sink 1 st1 = sent sink 1 st" by auto
  have dr: "drop i ns = ns ! i # drop (Suc i) ns" using i by (simp add: Cons_nth_drop_Suc)
  have m: "m = length ns - Suc i" using Suc.hyps(2) by simp
  note ih = Suc.hyps(1) [OF m]
  show ?case
  proof (cases "hidden (ns ! i)")
    case True
    have "ls_loop os cs \<lparr>d_fd = fd, d_index = int i\<rparr> k st = ls_loop os cs \<lparr>d_fd = fd, d_index = int (Suc i)\<rparr> k st1"
      using s1(1) True by (subst ls_loop.simps) (simp add: hidden_def del: of_nat_Suc)
    then show ?thesis using ih [OF s1(2), of k] i Suc.prems(3) s1(3) True by (simp add: dr del: of_nat_Suc)
  next
    case False
    obtain c where "printf_text ''%-15s'' [Arg_text (Some (ns ! i))] = Some (column (ns ! i), c)" using column_text by blast
    from vfprintf_ok [OF s1(2) this] obtain st2 r where s2: "vfprintf os 1 ''%-15s'' [Arg_text (Some (ns ! i))] st1 = Some (st2, r)"
      "writing os ofd sink 1 st2" "sent sink 1 st2 = sent sink 1 st1 @ column (ns ! i)" by blast
    have "add64 k 1 = Suc k" using Suc.prems(3) i by (simp add: add64_def)
    then have "ls_loop os cs \<lparr>d_fd = fd, d_index = int i\<rparr> k st = ls_loop os cs \<lparr>d_fd = fd, d_index = int (Suc i)\<rparr> (Suc k) st2"
      using s1(1) s2(1) False by (subst ls_loop.simps) (auto simp: hidden_def simp del: of_nat_Suc One_nat_def)
    then show ?thesis using ih [OF s2(2), of "Suc k"] i Suc.prems(3) s1(3) s2(3) False by (simp add: dr del: of_nat_Suc)
  qed
qed

text \<open>
  C38. \<open>ls\<close> prints the names of a directory: whatever was printed before is followed by one column of 15
  characters for every name that does not begin with a dot, in the order of the directory, and by a
  newline if there was one; the program ends with 0. A name fills its column, or is cut to it.
\<close>

theorem ls_prints_names:
  assumes "writing os fd sink 1 st" and "lists os cs path ns sink" and "length ns < 2147483647"
    and "path = (if length argv > 1 then argv ! 1 else ''/'')"
  shows "\<exists>st'. ls_main os cs argv st = Some (st', 0) \<and> writing os fd sink 1 st' \<and>
    (let shown = filter (\<lambda>n. \<not> hidden n) ns in
     sent sink 1 st' = sent sink 1 st @ concat (map column shown) @ (if shown \<noteq> [] then [CHR 0x0A] else []))"
proof -
  let ?shown = "filter (\<lambda>n. \<not> hidden n) ns"
  from assms(2) obtain d where d: "0 \<le> d" "d < 2147483648"
    and op: "\<And>w. \<exists>w'. os_open os path 0 0 w = Some (w', d) \<and> sink w' = sink w"
    and rd: "\<And>i w. \<exists>w' r t. c_readdir cs d i w = Some (w', r, t) \<and> sink w' = sink w \<and> (if i < length ns then 0 < r \<and> t = ns ! i else r \<le> 0)"
    and cl: "\<And>w. \<exists>w' r. os_close os d w = Some (w', r) \<and> sink w' = sink w"
    unfolding lists_def by (elim exE conjE) blast
  have ci: "c_int d = d" using d by (simp add: c_int_def signed_of_int signed_take_bit_int_eq_self)
  from op [of "lc_world st"] obtain w1 where w1: "os_open os path 0 0 (lc_world st) = Some (w1, d)" "sink w1 = sink (lc_world st)" by blast
  let ?st1 = "st\<lparr>lc_world := w1\<rparr>"
  note c1 = call_writing [OF assms(1), of "os_open os path 0 0" w1 d, OF w1]
  have "opendir os path st = Some (?st1, Some \<lparr>d_fd = d, d_index = int 0\<rparr>)"
    using c1 d ci by (simp add: opendir_def open_path_def fdopendir_def)
  moreover from ls_loop_prints [OF rd assms(3), of os fd ?st1 0 0] c1 assms(3) obtain st2 where
    s2: "ls_loop os cs \<lparr>d_fd = d, d_index = int 0\<rparr> 0 ?st1 = Some (st2, length ?shown)" "writing os fd sink 1 st2"
      "sent sink 1 st2 = sent sink 1 st @ concat (map column ?shown)" by auto
  moreover have "\<exists>st3. (if length ?shown \<noteq> 0 then map_option fst (vfprintf os 1 [CHR 0x0A] [] st2) else Some st2) = Some st3 \<and>
      writing os fd sink 1 st3 \<and> sent sink 1 st3 = sent sink 1 st2 @ (if ?shown \<noteq> [] then [CHR 0x0A] else [])"
  proof (cases "?shown = []")
    case False
    have "printf_text [CHR 0x0A] [] = Some ([CHR 0x0A], 1)" by (simp add: printf_eval)
    from vfprintf_ok [OF s2(2) this] False show ?thesis by auto
  qed (use s2(2) in simp)
  then obtain st3 where s3: "(if length ?shown \<noteq> 0 then map_option fst (vfprintf os 1 [CHR 0x0A] [] st2) else Some st2) = Some st3"
    "writing os fd sink 1 st3" "sent sink 1 st3 = sent sink 1 st2 @ (if ?shown \<noteq> [] then [CHR 0x0A] else [])" by (elim exE conjE)
  from cl [of "lc_world st3"] obtain w4 r where w4: "os_close os d (lc_world st3) = Some (w4, r)" "sink w4 = sink (lc_world st3)" by blast
  note c4 = call_writing [OF s3(2), of "os_close os d" w4 r, OF w4]
  have "closedir os (Some \<lparr>d_fd = d, d_index = int 0\<rparr>) st3 = Some (st3\<lparr>lc_world := w4\<rparr>, c_int r)"
    using c4 d by (simp add: closedir_def close_def)
  ultimately have "ls_main os cs argv st = Some (st3\<lparr>lc_world := w4\<rparr>, 0)"
    unfolding ls_main_def assms(4) [symmetric] using s3(1) by (simp add: Let_def)
  then show ?thesis using c4 s3(3) s2(3) by (simp add: Let_def)
qed

lemma ls_prints_names_witness:
  "\<exists>st'. ls_main example_os example_calls [''ls'', ''/''] (example_libc []) = Some (st', 0) \<and>
    sent ew_sink 1 st' = ''etc            bin            '' @ [CHR 0x0A]"
proof -
  have "lists example_os example_calls ''/'' [''.'', ''etc'', ''bin''] ew_sink"
    unfolding lists_def by (rule exI [of _ 3]) (auto simp: example_os_def example_calls_def)
  moreover have "sent ew_sink 1 (example_libc []) = []"
    by (simp add: sent_def example_libc_def stdio_init_def std_stream_def)
  moreover have "column ''etc'' @ column ''bin'' = ''etc            bin            ''" by code_simp
  ultimately show ?thesis
    using ls_prints_names [OF example_writing [of "[]"], of example_calls "''/''" "[''.'', ''etc'', ''bin'']" "[''ls'', ''/'']"]
    by (auto simp: hidden_def Let_def)
qed

section \<open>What goes wrong\<close>

text \<open>
  \<open>close\<close>, \<open>dup2\<close>, \<open>fork\<close> and \<open>umask\<close> pass the kernel's negative error number on instead of \<open>-1\<close>, and leave
  \<open>errno\<close> alone.
\<close>

lemma close_raw_error:
  "os_close os fd (lc_world st) = Some (w, -9) \<Longrightarrow> close os fd st = Some (st\<lparr>lc_world := w\<rparr>, -9)"
  by (simp add: close_def call_def c_int_def)

text \<open>Two names of 15 characters and more are printed without a blank between them.\<close>

lemma columns_touch: "length a \<ge> 15 \<Longrightarrow> length b \<ge> 15 \<Longrightarrow> concat (map column [a, b]) = take 15 a @ take 15 b"
  by (simp add: column_def)

end
