(* ===== verification/Bootmem.thy ===== *)
theory Bootmem
  imports Kmem Frames
begin

unbundle bit_operations_syntax

text \<open>
  How the kernel learns what memory there is: the multiboot part of \<open>kernel/kmain.c\<close> and the frame
  table of \<open>mmu_init\<close> in \<open>kernel/cpu/mmu.c\<close>. The map is read twice, first at its physical addresses
  (\<open>low\<close>, the identity mapping of the boot code), then through the kernel's direct map. The page tables
  that \<open>mmu_init\<close> fills before are in \<open>Bootmap\<close>.
\<close>

section \<open>The memory map\<close>

abbreviation (input) MULTIBOOT_FLAG_MODS :: u32 where "MULTIBOOT_FLAG_MODS \<equiv> 0x008"
abbreviation (input) MULTIBOOT_FLAG_MMAP :: u32 where "MULTIBOOT_FLAG_MMAP \<equiv> 0x040"
abbreviation (input) MULTIBOOT_MEMORY_AVAILABLE :: u32 where "MULTIBOOT_MEMORY_AVAILABLE \<equiv> 1"

text \<open>The fields of \<open>struct multiboot\<close> that the kernel reads.\<close>

record multiboot =
  mb_flags :: u32
  mb_mods_count :: u32
  mb_mods_addr :: u32
  mb_mmap_length :: u32
  mb_mmap_addr :: u32

text \<open>A packed entry of the map: size (without itself), address, length and type.\<close>

definition mm_size :: "bytes_at \<Rightarrow> u64 \<Rightarrow> u32" where "mm_size km a = kload 4 km a"
definition mm_addr :: "bytes_at \<Rightarrow> u64 \<Rightarrow> u64" where "mm_addr km a = load64 km (a + 4)"
definition mm_len :: "bytes_at \<Rightarrow> u64 \<Rightarrow> u64" where "mm_len km a = load64 km (a + 12)"
definition mm_type :: "bytes_at \<Rightarrow> u64 \<Rightarrow> u32" where "mm_type km a = kload 4 km (a + 20)"

definition mm_after :: "bytes_at \<Rightarrow> u64 \<Rightarrow> u64" where
  "mm_after km a = a + ucast (mm_size km a) + 4"

text \<open>The loop over the pages from \<open>base\<close> on that start below \<open>limit\<close>.\<close>

partial_function (option) for_pages :: "(u64 \<Rightarrow> 's \<Rightarrow> 's option) \<Rightarrow> u64 \<Rightarrow> u64 \<Rightarrow> 's \<Rightarrow> 's option" where
  "for_pages f base limit m =
     (if base < limit then do { m \<leftarrow> f base m; for_pages f (base + 0x1000) limit m } else Some m)"

definition marker_entry :: "u64 \<Rightarrow> mmu \<Rightarrow> mmu option" where
  "marker_entry a m =
     (if mm_type (kmem m) a = MULTIBOOT_MEMORY_AVAILABLE
      then for_pages mmu_release_frame (mm_addr (kmem m) a) (mm_addr (kmem m) a + (mm_len (kmem m) a AND 0xFFFFFFFFFFFFF000)) m
      else Some m)"

partial_function (option) marker_loop :: "u64 \<Rightarrow> u64 \<Rightarrow> mmu \<Rightarrow> mmu option" where
  "marker_loop a limit m =
     (if a < limit then do {
        m \<leftarrow> marker_entry a m;
        marker_loop (mm_after (kmem m) a) limit m }
      else Some m)"

definition multiboot_memory_marker :: "multiboot \<Rightarrow> mmu \<Rightarrow> mmu option" where
  "multiboot_memory_marker mb = marker_loop (mmu_from_physical (ucast (mb_mmap_addr mb)))
     (mmu_from_physical (ucast (mb_mmap_addr mb + mb_mmap_length mb)))"

text \<open>\<open>highest_valid_address\<close>: the last byte of the available memory.\<close>

partial_function (option) valid_loop :: "bytes_at \<Rightarrow> u64 \<Rightarrow> u64 \<Rightarrow> u64 \<Rightarrow> u64 option" where
  "valid_loop low a limit highest =
     (if a < limit
      then valid_loop low (mm_after low a) limit
        (if mm_type low a = MULTIBOOT_MEMORY_AVAILABLE \<and> mm_len low a \<noteq> 0 \<and> mm_addr low a + mm_len low a - 1 > highest
         then mm_addr low a + mm_len low a - 1 else highest)
      else Some highest)"

definition module_end :: "bytes_at \<Rightarrow> u64 \<Rightarrow> nat \<Rightarrow> u64" where
  "module_end low mods i = ucast (kload 4 low (mods + of_nat (16 * i) + 4) :: u32)"

text \<open>
  The result is \<open>highest_valid_address\<close> and \<open>highest_kernel_address\<close>, which is \<open>kernel_end\<close>, the end
  of the kernel's image, before. The limit of the loop is computed in 32 bits.
\<close>

definition multiboot_initialize :: "bytes_at \<Rightarrow> multiboot \<Rightarrow> u64 \<Rightarrow> (u64 \<times> u64) option" where
  "multiboot_initialize low mb kernel_end =
     (if mb_flags mb AND MULTIBOOT_FLAG_MMAP = 0 then Some (0, kernel_end)
      else do {
        let mmap = ucast (mb_mmap_addr mb);
        let top = max kernel_end (mmap + ucast (mb_mmap_length mb));
        valid \<leftarrow> valid_loop low mmap (ucast (mb_mmap_addr mb + mb_mmap_length mb)) 0;
        let top = (if mb_flags mb AND MULTIBOOT_FLAG_MODS \<noteq> 0
              then foldl (\<lambda>top i. max top (module_end low (ucast (mb_mods_addr mb)) i)) top [0..<unat (mb_mods_count mb)]
              else top);
        Some (valid, (top + 0xFFF) AND 0xFFFFFFFFFFFFF000) })"

section \<open>The frame table\<close>

definition page_round :: "u64 \<Rightarrow> u64" where
  "page_round a = (a + 0xFFF) AND 0xFFFFFFFFFFFFF000"

text \<open>The size of the table in bytes; the code takes a quarter of the number of frames.\<close>

definition frame_bytes :: "u64 \<Rightarrow> u64" where
  "frame_bytes n = page_round (bit_index (n * 8))"

definition count_frames :: "mmu \<Rightarrow> nat \<times> nat" where
  "count_frames m = (let bits = concat (map (\<lambda>w. map (bit w) [0..<32]) (take (unat (bit_index (n_frames m))) (frames m)))
     in (length (filter Not bits), length (filter id bits)))"

text \<open>The part of \<open>mmu_init\<close> that builds the frame table; the result has \<open>total_memory\<close> as well.\<close>

definition mmu_init_frames :: "(mmu \<Rightarrow> mmu option) \<Rightarrow> u64 \<Rightarrow> u64 \<Rightarrow> mmu \<Rightarrow> (mmu \<times> nat) option" where
  "mmu_init_frames memory_marker mem_size first_page m = do {
     let n = drop_bit 12 mem_size;
     let bytes = frame_bytes n;
     m \<leftarrow> memory_marker (m\<lparr>n_frames := n, frames := replicate (unat bytes div 4) 0xFFFFFFFF, lowest_available := 0\<rparr>);
     let (available, unavailable) = count_frames m;
     m \<leftarrow> for_pages mmu_lock_frame 0 (page_round first_page + bytes) (m\<lparr>unavailable_memory := unavailable * 4\<rparr>);
     Some (m, available * 4) }"

section \<open>The frames that are free after booting\<close>

text \<open>The map as a list of address, length and type.\<close>

fun mmap_at :: "bytes_at \<Rightarrow> u64 \<Rightarrow> u64 \<Rightarrow> (u64 \<times> u64 \<times> u32) list \<Rightarrow> bool" where
  "mmap_at km a limit [] \<longleftrightarrow> limit \<le> a"
| "mmap_at km a limit ((addr, len, type) # es) \<longleftrightarrow>
     a < limit \<and> mm_addr km a = addr \<and> mm_len km a = len \<and> mm_type km a = type \<and> mmap_at km (mm_after km a) limit es"

text \<open>The frames that lie wholly in a region of available memory.\<close>

definition region_frames :: "u64 \<times> u64 \<times> u32 \<Rightarrow> nat set" where
  "region_frames = (\<lambda>(addr, len, type). {f. type = MULTIBOOT_MEMORY_AVAILABLE \<and>
     unat addr \<le> 4096 * f \<and> 4096 * f + 4096 \<le> unat addr + unat len})"

text \<open>The frames that the marker hands out for a region: its length is cut to whole pages, its start is cut by the frame number.\<close>

definition swept_frames :: "u64 \<times> u64 \<times> u32 \<Rightarrow> nat set" where
  "swept_frames = (\<lambda>(addr, len, type). if type = MULTIBOOT_MEMORY_AVAILABLE
     then {unat addr div 4096 ..< unat addr div 4096 + unat len div 4096} else {})"

definition region_aligned :: "u64 \<times> u64 \<times> u32 \<Rightarrow> bool" where
  "region_aligned = (\<lambda>(addr, _, type). type = MULTIBOOT_MEMORY_AVAILABLE \<longrightarrow> unat addr mod 4096 = 0)"

lemma swept_aligned: "region_aligned e \<Longrightarrow> swept_frames e = region_frames e"
proof -
  obtain addr len type where e: "e = (addr, len, type)" by (cases e)
  assume "region_aligned e"
  then have "unat addr = 4096 * (unat addr div 4096)" if "type = MULTIBOOT_MEMORY_AVAILABLE"
    using that mult_div_mod_eq [of 4096 "unat addr"] by (simp add: e region_aligned_def)
  moreover have "f < a + unat len div 4096 \<longleftrightarrow> 4096 * f + 4096 \<le> 4096 * a + unat len" "4096 * a \<le> 4096 * f \<longleftrightarrow> a \<le> f" for a f :: nat
    by linarith+
  ultimately show ?thesis by (auto simp: e swept_frames_def region_frames_def)
qed

definition region_fits :: "u64 \<times> u64 \<times> u32 \<Rightarrow> bool" where
  "region_fits = (\<lambda>(addr, len, _). unat addr + unat len < 9223372036854775808)"

lemma page_cut: "unat (len AND 0xFFFFFFFFFFFFF000 :: u64) = 4096 * (unat len div 4096)"
proof -
  have "(0xFFFFFFFFFFFFF000 :: u64) = NOT (mask 12)" by (simp add: mask_eq_exp_minus_1)
  moreover have "len AND NOT (mask 12) = push_bit 12 (drop_bit 12 len)"
    by (rule bit_word_eqI) (auto simp: bit_simps)
  moreover have "unat (push_bit 12 (drop_bit 12 len)) = 4096 * (unat len div 4096)"
  proof -
    have "unat len < 18446744073709551616" using unsigned_less [of len, where 'a = nat] by simp
    then have "unat len div 4096 * 4096 < 18446744073709551616" by linarith
    then show ?thesis by (simp add: push_bit_eq_mult unat_word_ariths unat_drop_bit mult.commute)
  qed
  ultimately show ?thesis by simp
qed

lemma unat_page_step:
  "unat base + 4096 * i < 18446744073709551616 \<Longrightarrow> unat (base + of_nat (4096 * i) :: u64) = unat base + 4096 * i"
proof -
  have "base + of_nat (4096 * i) = of_nat (unat base + 4096 * i)" by (simp del: of_nat_mult)
  then show "unat base + 4096 * i < 18446744073709551616 \<Longrightarrow> ?thesis" by (simp only: unat_of_nat) simp
qed

lemma for_pages_invariant:
  assumes step: "\<And>j s. j < k \<Longrightarrow> P j s \<Longrightarrow> \<exists>s'. f (base + of_nat (4096 * j)) s = Some s' \<and> P (Suc j) s'"
    and "P 0 s" and lim: "unat base + 4096 * k = unat limit"
  shows "\<exists>s'. for_pages f base limit s = Some s' \<and> P k s'"
proof -
  have at: "unat (base + of_nat (4096 * i)) = unat base + 4096 * i" if "i \<le> k" for i
    using that lim unsigned_less [of limit, where 'a = nat] by (intro unat_page_step) simp
  have "i \<le> k \<Longrightarrow> P i s \<Longrightarrow> \<exists>s'. for_pages f (base + of_nat (4096 * i)) limit s = Some s' \<and> P k s'" for i s
  proof (induction "k - i" arbitrary: i s)
    case 0
    then have "i = k" by simp
    with 0 at [of k] lim show ?case by (simp add: for_pages.simps word_less_nat_alt)
  next
    case (Suc n)
    then have ik: "i < k" by simp
    define b where "b = base + of_nat (4096 * i)"
    have lt: "b < limit" using at [of i] ik lim by (simp add: word_less_nat_alt b_def)
    from step [OF ik Suc.prems(2)] obtain s1 where s1: "f b s = Some s1" "P (Suc i) s1" unfolding b_def by blast
    have n: "n = k - Suc i" "Suc i \<le> k" using Suc.hyps(2) ik by simp_all
    have suc: "base + of_nat (4096 * Suc i) = b + 0x1000" by (simp add: b_def)
    from Suc.hyps(1) [OF n s1(2)] obtain s' where "for_pages f (b + 0x1000) limit s1 = Some s'" "P k s'"
      unfolding suc by blast
    then show ?case using lt s1(1) unfolding b_def [symmetric] by (simp add: for_pages.simps [of f b])
  qed
  from this [of 0 s] \<open>P 0 s\<close> show ?thesis by simp
qed

text \<open>Sweeps over the frames, for anything that behaves as the set of taken frames.\<close>

context frame_set
begin

lemma frame_step:
  "unat base + 4096 * j < 18446744073709551616 \<Longrightarrow> frame_of (base + of_nat (4096 * j)) = frame_of base + j"
  by (simp add: frame_of_def unat_page_step del: of_nat_mult)

lemma release_sweep:
  assumes "ok s" and lim: "unat base + 4096 * k = unat limit"
  shows "\<exists>s'. for_pages release base limit s = Some s' \<and> ok s' \<and> cap s' = cap s \<and> mem s' = mem s \<and>
    taken s' = taken s - {frame_of base ..< frame_of base + k} \<inter> {..<cap s}"
proof (rule for_pages_invariant [OF _ _ lim])
  fix j s1
  assume j: "j < k" and P: "ok s1 \<and> cap s1 = cap s \<and> mem s1 = mem s \<and>
    taken s1 = taken s - {frame_of base ..< frame_of base + j} \<inter> {..<cap s}"
  have "frame_of (base + of_nat (4096 * j)) = frame_of base + j"
    using j lim unsigned_less [of limit, where 'a = nat] by (intro frame_step) simp
  moreover have "{frame_of base ..< frame_of base + Suc j} = insert (frame_of base + j) {frame_of base ..< frame_of base + j}" by auto
  ultimately show "\<exists>s'. release (base + of_nat (4096 * j)) s1 = Some s' \<and> ok s' \<and> cap s' = cap s \<and> mem s' = mem s \<and>
    taken s' = taken s - {frame_of base ..< frame_of base + Suc j} \<inter> {..<cap s}"
    using release_law [of s1 "base + of_nat (4096 * j)"] P by auto
qed (use assms(1) in simp)

lemma lock_sweep:
  assumes "ok s" and lim: "unat base + 4096 * k = unat limit"
  shows "\<exists>s'. for_pages lock base limit s = Some s' \<and> ok s' \<and> cap s' = cap s \<and> mem s' = mem s \<and>
    taken s' = taken s \<union> {frame_of base ..< frame_of base + k} \<inter> {..<cap s}"
proof (rule for_pages_invariant [OF _ _ lim])
  fix j s1
  assume j: "j < k" and P: "ok s1 \<and> cap s1 = cap s \<and> mem s1 = mem s \<and>
    taken s1 = taken s \<union> {frame_of base ..< frame_of base + j} \<inter> {..<cap s}"
  have "frame_of (base + of_nat (4096 * j)) = frame_of base + j"
    using j lim unsigned_less [of limit, where 'a = nat] by (intro frame_step) simp
  moreover have "{frame_of base ..< frame_of base + Suc j} = insert (frame_of base + j) {frame_of base ..< frame_of base + j}" by auto
  ultimately show "\<exists>s'. lock (base + of_nat (4096 * j)) s1 = Some s' \<and> ok s' \<and> cap s' = cap s \<and> mem s' = mem s \<and>
    taken s' = taken s \<union> {frame_of base ..< frame_of base + Suc j} \<inter> {..<cap s}"
    using lock_law [of s1 "base + of_nat (4096 * j)"] P by auto
qed (use assms(1) in simp)

end

lemma marker_entry_spec:
  assumes "fr_ok m" and "low_ok m" and e: "mm_addr (kmem m) a = addr" "mm_len (kmem m) a = len" "mm_type (kmem m) a = type"
    and fits: "region_fits (addr, len, type)"
  shows "\<exists>m'. marker_entry a m = Some m' \<and> (fr_ok m' \<and> low_ok m') \<and> nframes m' = nframes m \<and> kmem m' = kmem m \<and>
    used m' = used m - swept_frames (addr, len, type) \<inter> {..<nframes m}"
proof (cases "type = MULTIBOOT_MEMORY_AVAILABLE")
  case True
  have "unat addr + unat len < 9223372036854775808" using fits by (simp add: region_fits_def)
  moreover have "4096 * (unat len div 4096) \<le> unat len" by simp
  ultimately have "unat addr + 4096 * (unat len div 4096) < 18446744073709551616" by linarith
  then have "unat addr + 4096 * (unat len div 4096) = unat (addr + (len AND 0xFFFFFFFFFFFFF000))"
    by (subst unat_plus_if_size) (simp add: word_size page_cut)
  from fs.release_sweep [OF _ this, of m] show ?thesis
    using True assms(1,2) e by (simp add: marker_entry_def swept_frames_def frame_of_def)
next
  case False
  then show ?thesis using assms(1,2) e by (simp add: marker_entry_def swept_frames_def)
qed

lemma marker_loop_spec:
  assumes "fr_ok m" and "low_ok m" and "mmap_at (kmem m) a limit es" and "\<forall>e \<in> set es. region_fits e"
  shows "\<exists>m'. marker_loop a limit m = Some m' \<and> (fr_ok m' \<and> low_ok m') \<and> nframes m' = nframes m \<and> kmem m' = kmem m \<and>
    used m' = used m - (\<Union>e \<in> set es. swept_frames e) \<inter> {..<nframes m}"
  using assms
proof (induction es arbitrary: a m)
  case Nil
  then have "\<not> a < limit" by (simp add: not_less)
  with Nil show ?case by (simp add: marker_loop.simps [of a])
next
  case (Cons e es)
  obtain addr len type where e: "e = (addr, len, type)" by (cases e)
  have at: "a < limit" "mm_addr (kmem m) a = addr" "mm_len (kmem m) a = len" "mm_type (kmem m) a = type"
    "mmap_at (kmem m) (mm_after (kmem m) a) limit es" using Cons.prems(3) by (simp_all add: e)
  from marker_entry_spec [OF Cons.prems(1,2) at(2-4)] Cons.prems(4) obtain m1
    where m1: "marker_entry a m = Some m1" "fr_ok m1" "low_ok m1" "nframes m1 = nframes m" "kmem m1 = kmem m"
      "used m1 = used m - swept_frames e \<inter> {..<nframes m}" by (auto simp: e)
  have "mmap_at (kmem m1) (mm_after (kmem m1) a) limit es" using at(5) m1(5) by simp
  from Cons.IH [OF m1(2,3) this] Cons.prems(4) obtain m' where "marker_loop (mm_after (kmem m1) a) limit m1 = Some m'"
    "fr_ok m'" "low_ok m'" "nframes m' = nframes m1" "kmem m' = kmem m1"
    "used m' = used m1 - (\<Union>e \<in> set es. swept_frames e) \<inter> {..<nframes m1}" by auto
  then show ?case using at(1) m1 by (auto simp: marker_loop.simps [of a])
qed

lemma unat_page_round:
  "unat a < 18446744073709547520 \<Longrightarrow> unat (page_round a) = 4096 * ((unat a + 4095) div 4096)"
proof -
  assume a: "unat a < 18446744073709547520"
  have "unat (a + 0xFFF) = unat a + 4095" using a by (subst unat_plus_if_size) (simp add: word_size)
  then show ?thesis by (simp add: page_round_def page_cut)
qed

lemma unat_frame_bytes:
  assumes "unat n \<le> 134217728"
  shows "unat (frame_bytes n) = 4096 * ((unat n div 4 + 4095) div 4096)"
proof -
  have "unat (n * 8) = unat n * 8" using assms by (subst unat_mult_lem [THEN iffD1]) simp_all
  then have b: "unat (bit_index (n * 8)) = unat n div 4" by (simp add: bit_index_def unat_drop_bit)
  have "unat n div 4 < 18446744073709547520" using assms by simp
  with b show ?thesis by (simp add: frame_bytes_def unat_page_round)
qed

text \<open>The table is large enough for all frames, with room to spare.\<close>

lemma frame_table_covers:
  assumes "4 \<le> unat n" and "unat n \<le> 134217728"
  shows "unat n \<le> 32 * (unat (frame_bytes n) div 4)"
proof -
  define d c where "d = unat n div 4" and "c = (d + 4095) div 4096"
  have "unat n < 4 * d + 4" "1 \<le> d" "d \<le> 4096 * c" using assms(1) unfolding d_def c_def by linarith+
  moreover have "unat (frame_bytes n) div 4 = 1024 * c" by (simp add: unat_frame_bytes assms(2) c_def d_def)
  ultimately show ?thesis by simp
qed

lemma used_simps [simp]:
  "used (m\<lparr>unavailable_memory := x\<rparr>) = used m" "nframes (m\<lparr>unavailable_memory := x\<rparr>) = nframes m"
  "fr_ok (m\<lparr>unavailable_memory := x\<rparr>) = fr_ok m" "low_ok (m\<lparr>unavailable_memory := x\<rparr>) = low_ok m"
  by (simp_all add: used_def nframes_def fr_ok_def low_ok_def)

lemma mmu_init_frames_free:
  assumes n: "n = drop_bit 12 mem_size" "4 \<le> unat n" "unat n \<le> 134217728" and fp: "unat first_page < 1099511627776"
    and map: "mmap_at (kmem m) (mmu_from_physical (ucast (mb_mmap_addr mb)))
      (mmu_from_physical (ucast (mb_mmap_addr mb + mb_mmap_length mb))) es"
    and fits: "\<forall>e \<in> set es. region_fits e"
  shows "\<exists>m' total. mmu_init_frames (multiboot_memory_marker mb) mem_size first_page m = Some (m', total) \<and>
    fr_ok m' \<and> low_ok m' \<and> nframes m' = unat n \<and>
    (\<forall>f < unat n. f \<notin> used m' \<longleftrightarrow>
      f \<in> (\<Union>e \<in> set es. swept_frames e) \<and> unat (page_round first_page) + unat (frame_bytes n) \<le> 4096 * f)"
proof -
  let ?b = "frame_bytes n"
  let ?m0 = "m\<lparr>n_frames := n, frames := replicate (unat ?b div 4) 0xFFFFFFFF, lowest_available := 0\<rparr>"
  have cover: "unat n \<le> 32 * (unat ?b div 4)" using frame_table_covers n(2,3) .
  have m0: "fr_ok ?m0" "low_ok ?m0" "nframes ?m0 = unat n" "kmem ?m0 = kmem m"
    using n(3) cover by (simp_all add: fr_ok_def low_ok_def nframes_def)
  have all: "f \<in> used ?m0" if "f < unat n" for f
  proof -
    have "bit (0xFFFFFFFF :: u32) (f mod 32)"
    proof -
      have "(0xFFFFFFFF :: u32) = - 1" by simp
      then show ?thesis by (simp only: bit_minus_1_iff) simp
    qed
    moreover have "f < 32 * (unat ?b div 4)" "f div 32 < unat ?b div 4" using that cover by simp_all
    ultimately show ?thesis by (simp add: used_def)
  qed
  from marker_loop_spec [OF m0(1,2) map [folded m0(4)] fits] obtain m1
    where m1: "multiboot_memory_marker mb ?m0 = Some m1" "fr_ok m1" "low_ok m1" "nframes m1 = unat n"
      "used m1 = used ?m0 - (\<Union>e \<in> set es. swept_frames e) \<inter> {..<unat n}"
    unfolding multiboot_memory_marker_def m0(3) by (elim exE conjE)
  obtain av un where c: "count_frames m1 = (av, un)" by fastforce
  define k where "k = (unat first_page + 4095) div 4096 + (unat n div 4 + 4095) div 4096"
  have pr: "unat (page_round first_page) = 4096 * ((unat first_page + 4095) div 4096)"
    using fp by (intro unat_page_round) simp
  have sum: "unat (page_round first_page) + unat ?b = 4096 * k"
    by (simp add: pr unat_frame_bytes n(3) k_def)
  have "4096 * ((unat first_page + 4095) div 4096) \<le> unat first_page + 4095" "4096 * ((unat n div 4 + 4095) div 4096) \<le> unat n div 4 + 4095"
    "unat n div 4 \<le> unat n" by simp_all
  then have "4096 * k < 18446744073709551616" using fp n(3) unfolding k_def distrib_left by linarith
  then have lim: "unat (0 :: u64) + 4096 * k = unat (page_round first_page + ?b)"
    using sum by (subst unat_plus_if_size) (simp add: word_size)
  from fs.lock_sweep [OF _ lim, of "m1\<lparr>unavailable_memory := un * 4\<rparr>"] m1 obtain m2
    where m2: "for_pages mmu_lock_frame 0 (page_round first_page + ?b) (m1\<lparr>unavailable_memory := un * 4\<rparr>) = Some m2"
      "fr_ok m2" "low_ok m2" "nframes m2 = unat n" "used m2 = used m1 \<union> {0..<k} \<inter> {..<unat n}"
    by (auto simp: frame_of_def)
  have "mmu_init_frames (multiboot_memory_marker mb) mem_size first_page m = Some (m2, av * 4)"
    using m1(1) m2(1) c by (simp add: mmu_init_frames_def Let_def flip: n(1))
  moreover have "\<forall>f < unat n. f \<notin> used m2 \<longleftrightarrow> f \<in> (\<Union>e \<in> set es. swept_frames e) \<and> unat (page_round first_page) + unat ?b \<le> 4096 * f"
    unfolding sum m2(5) m1(5) using all by auto
  ultimately show ?thesis using m2(2-4) by blast
qed

section \<open>The layout the boot loader left\<close>

text \<open>The last byte of the available memory, and the addresses that the kernel's pages start behind.\<close>

definition memory_top :: "(u64 \<times> u64 \<times> u32) list \<Rightarrow> nat" where
  "memory_top es = Max (set (0 # map (\<lambda>(addr, len, _). unat addr + unat len - 1)
     (filter (\<lambda>(_, len, type). type = MULTIBOOT_MEMORY_AVAILABLE \<and> len \<noteq> 0) es)))"

definition image_ends :: "bytes_at \<Rightarrow> multiboot \<Rightarrow> u64 \<Rightarrow> nat list" where
  "image_ends low mb kernel_end = unat kernel_end # (unat (mb_mmap_addr mb) + unat (mb_mmap_length mb)) #
     (if mb_flags mb AND MULTIBOOT_FLAG_MODS \<noteq> 0
      then map (\<lambda>i. unat (module_end low (ucast (mb_mods_addr mb)) i)) [0..<unat (mb_mods_count mb)] else [])"

definition round_up :: "nat \<Rightarrow> nat" where
  "round_up x = 4096 * ((x + 4095) div 4096)"

lemma unat_max: "unat (max a b) = max (unat a) (unat b)"
  by (simp add: max_def word_le_nat_alt)

lemma Max_insert_max: "finite A \<Longrightarrow> Max (insert (max a b) A) = max a (Max (insert (b :: nat) A))"
  by (cases "A = {}") (simp_all add: max.assoc)

lemma Max_insert_zero: "finite A \<Longrightarrow> max a (Max (insert 0 A)) = Max (insert (a :: nat) A)"
  using Max_insert_max [of A a 0] by simp

lemma valid_loop_spec:
  assumes "mmap_at low a limit es" and "\<forall>e \<in> set es. region_fits e"
  shows "\<exists>h'. valid_loop low a limit h = Some h' \<and> unat h' = max (unat h) (memory_top es)"
  using assms
proof (induction es arbitrary: a h)
  case Nil
  then show ?case by (simp add: valid_loop.simps [of low a] memory_top_def not_less [symmetric])
next
  case (Cons e es)
  obtain addr len type where e: "e = (addr, len, type)" by (cases e)
  have at: "a < limit" "mm_addr low a = addr" "mm_len low a = len" "mm_type low a = type" "mmap_at low (mm_after low a) limit es"
    using Cons.prems(1) by (simp_all add: e)
  define last where "last = (if type = MULTIBOOT_MEMORY_AVAILABLE \<and> len \<noteq> 0 then unat addr + unat len - 1 else 0)"
  define h1 where "h1 = (if type = MULTIBOOT_MEMORY_AVAILABLE \<and> len \<noteq> 0 \<and> addr + len - 1 > h then addr + len - 1 else h)"
  have "unat (addr + len - 1) = unat addr + unat len - 1" if "len \<noteq> 0"
  proof -
    have f: "unat addr + unat len < 9223372036854775808" using Cons.prems(2) by (simp add: e region_fits_def)
    then have s: "unat (addr + len) = unat addr + unat len" by (subst unat_plus_if_size) (simp add: word_size)
    have "0 < unat len" using that unat_eq_zero [of len] by (cases "unat len") auto
    then have "unat (addr + len) \<noteq> 0" using s by simp
    then have "addr + len \<noteq> 0" by auto
    then show ?thesis using s by (simp add: unat_minus_one)
  qed
  then have h1: "unat h1 = max (unat h) last" by (auto simp: h1_def last_def word_less_nat_alt)
  have top: "memory_top (e # es) = max last (memory_top es)" by (simp add: memory_top_def last_def e Max_insert_zero)
  obtain h' where "valid_loop low (mm_after low a) limit h1 = Some h'" "unat h' = max (unat h1) (memory_top es)"
    using Cons.IH [OF at(5)] Cons.prems(2) by auto
  then show ?case
    using at(1-4) h1 top by (auto simp: valid_loop.simps [of low a] h1_def)
qed

lemma foldl_max: "unat (foldl (\<lambda>t i. max t (g i)) t is) = Max (set (unat t # map (\<lambda>i. unat (g i)) is))"
  by (induction "is" arbitrary: t) (simp_all add: unat_max Max_insert_max)

lemma multiboot_initialize_spec:
  assumes "mb_flags mb AND MULTIBOOT_FLAG_MMAP \<noteq> 0"
    and "mmap_at low (ucast (mb_mmap_addr mb)) (ucast (mb_mmap_addr mb + mb_mmap_length mb)) es" and "\<forall>e \<in> set es. region_fits e"
    and "unat kernel_end < 549755813888"
  shows "\<exists>valid top. multiboot_initialize low mb kernel_end = Some (valid, top) \<and> unat valid = memory_top es \<and>
    unat top = round_up (Max (set (image_ends low mb kernel_end))) \<and> unat top < 1099511627776"
proof -
  define top where "top = max kernel_end (ucast (mb_mmap_addr mb) + ucast (mb_mmap_length mb))"
  define t where "t = (if mb_flags mb AND MULTIBOOT_FLAG_MODS \<noteq> 0
     then foldl (\<lambda>top i. max top (module_end low (ucast (mb_mods_addr mb)) i)) top [0..<unat (mb_mods_count mb)] else top)"
  have a: "unat (mb_mmap_addr mb) < 4294967296" "unat (mb_mmap_length mb) < 4294967296"
    using unsigned_less [of "mb_mmap_addr mb", where 'a = nat] unsigned_less [of "mb_mmap_length mb", where 'a = nat] by simp_all
  then have "unat (ucast (mb_mmap_addr mb) + ucast (mb_mmap_length mb) :: u64) = unat (mb_mmap_addr mb) + unat (mb_mmap_length mb)"
    by (subst unat_plus_if_size) (simp add: word_size unsigned_ucast_eq take_bit_nat_eq_self)
  then have tp: "unat top = max (unat kernel_end) (unat (mb_mmap_addr mb) + unat (mb_mmap_length mb))" by (simp add: top_def unat_max)
  have t: "unat t = Max (set (image_ends low mb kernel_end))"
    using tp by (simp add: t_def image_ends_def foldl_max max.assoc del: list.set) (simp add: Max_insert_max)
  have me: "unat (module_end low b i) < 4294967296" for b i
    using unsigned_less [of "kload 4 low (b + of_nat (16 * i) + 4) :: u32", where 'a = nat]
    by (simp add: module_end_def unsigned_ucast_eq take_bit_nat_eq_self)
  have "x < 549755813888" if "x \<in> set (image_ends low mb kernel_end)" for x
    using that a assms(4) me less_trans [OF me, of 549755813888] by (auto simp: image_ends_def split: if_splits)
  then have lt: "unat t < 549755813888" unfolding t by (subst Max_less_iff) (auto simp: image_ends_def)
  have pr: "unat (page_round t) = round_up (unat t)"
    using lt by (simp add: unat_page_round round_up_def)
  moreover have "round_up (unat t) < 1099511627776" using lt unfolding round_up_def by linarith
  moreover obtain v where "valid_loop low (ucast (mb_mmap_addr mb)) (ucast (mb_mmap_addr mb + mb_mmap_length mb)) 0 = Some v"
    "unat v = memory_top es" using valid_loop_spec [OF assms(2,3), of 0] by auto
  ultimately show ?thesis
    using assms(1) t unfolding multiboot_initialize_def Let_def top_def [symmetric] t_def [symmetric] page_round_def [symmetric]
    by simp
qed


text \<open>A region that does not start on a page boundary gives its first frame away too, whose beginning is not part of it.\<close>

lemma unaligned_region:
  "1 \<in> swept_frames (0x1800, 0x1000, MULTIBOOT_MEMORY_AVAILABLE)" "1 \<notin> region_frames (0x1800, 0x1000, MULTIBOOT_MEMORY_AVAILABLE)"
  by (simp_all add: swept_frames_def region_frames_def)

section \<open>Example\<close>

text \<open>A machine of 32 frames whose map, at 0x500, has one available region of 16 frames from the first megabyte's start.\<close>

definition example_map :: "u8 list" where
  "example_map = [20, 0, 0, 0,  0, 0x80, 0, 0, 0, 0, 0, 0,  0, 0, 1, 0, 0, 0, 0, 0,  1, 0, 0, 0]"

definition example_boot_mmu :: mmu where
  "example_boot_mmu = example_mmu\<lparr>kmem := kwrite (\<lambda>_. 0) (mmu_from_physical 0x500) example_map\<rparr>"

definition example_multiboot :: multiboot where
  "example_multiboot = \<lparr>mb_flags = MULTIBOOT_FLAG_MMAP, mb_mods_count = 0, mb_mods_addr = 0, mb_mmap_length = 24, mb_mmap_addr = 0x500\<rparr>"


end
