(* ===== verification/Bootmap.thy ===== *)
theory Bootmap
  imports Paging Bootmem
begin

unbundle bit_operations_syntax

text \<open>
  The page tables with which the kernel starts, the other half of \<open>mmu_init\<close> in \<open>kernel/cpu/mmu.c\<close>. The
  tables are static arrays, aligned to pages; the linker places them, so their frame numbers are a
  parameter. \<open>mmu_init\<close> writes them through the identity mapping of \<open>boot.s\<close>, which here is the same memory
  that the direct map shows. The theorem is about what the processor makes of the tables.
\<close>

section \<open>The static tables\<close>

record boot_tables =
  t_initial :: nat
  t_high :: nat
  t_heap_pml :: nat
  t_heap_pd :: nat
  t_heap_pt :: nat
  t_low :: nat
  t_twom :: nat
  t_end :: u64

abbreviation (input) KERNEL_PML_ACCESS :: u64 where "KERNEL_PML_ACCESS \<equiv> 0x03"
abbreviation (input) LARGE_PAGE_BIT :: u64 where "LARGE_PAGE_BIT \<equiv> 0x80"
abbreviation (input) KERNEL_HEAP_START :: u64 where "KERNEL_HEAP_START \<equiv> 0xFFFFFF0000000000"

text \<open>The address of a frame.\<close>

definition frame_base :: "nat \<Rightarrow> u64" where
  "frame_base f = push_bit 12 (of_nat f)"

definition set_entry :: "nat \<Rightarrow> nat \<Rightarrow> pagemap_entry \<Rightarrow> mmu \<Rightarrow> mmu" where
  "set_entry f i e m = store_entry (entry_at f i) e m"

section \<open>Filling them\<close>

text \<open>The direct map: 64 GiB in large pages.\<close>

definition map_high :: "boot_tables \<Rightarrow> mmu \<Rightarrow> mmu" where
  "map_high bt m = fold (\<lambda>i m.
     fold (\<lambda>j. set_entry (t_twom bt + i) j ((push_bit 30 (of_nat i) + push_bit 21 (of_nat j)) OR LARGE_PAGE_BIT OR KERNEL_PML_ACCESS))
       [0..<512] (set_entry (t_high bt) i (frame_base (t_twom bt + i) OR KERNEL_PML_ACCESS) m)) [0..<64] m"

text \<open>The kernel's image where the boot loader has put it, without the page at 0.\<close>

definition low_tables :: "u64 \<Rightarrow> nat" where
  "low_tables image_end = (let end_ptr = (image_end + 0xFFF) AND 0xFFFFFFFFFFFFF000 in unat (drop_bit 9 (drop_bit 12 end_ptr + 0x1FF)))"

definition map_low :: "boot_tables \<Rightarrow> mmu \<Rightarrow> mmu option" where
  "map_low bt m = (let pd_count = low_tables (t_end bt) in
     if 32 < pd_count then None
     else Some (set_entry (t_low bt + 2) 0 0 (fold (\<lambda>j m.
       fold (\<lambda>i. set_entry (t_low bt + (j + 2)) i ((0x200000 * of_nat j + 0x1000 * of_nat i) OR KERNEL_PML_ACCESS))
         [0..<512] (set_entry (t_low bt + 1) j (frame_base (t_low bt + (j + 2)) OR KERNEL_PML_ACCESS) m)) [0..<pd_count] m)))"

text \<open>The frame table at the start of the kernel's heap; there are 1536 entries.\<close>

definition map_heap :: "boot_tables \<Rightarrow> u64 \<Rightarrow> nat \<Rightarrow> mmu \<Rightarrow> mmu option" where
  "map_heap bt first_page frame_pages m = (if 1536 < frame_pages then None
     else let m = set_entry (t_heap_pml bt) 0 (frame_base (t_heap_pd bt) OR KERNEL_PML_ACCESS) m;
              m = set_entry (t_heap_pd bt) 0 (frame_base (t_heap_pt bt) OR KERNEL_PML_ACCESS) m;
              m = set_entry (t_heap_pd bt) 1 (frame_base (t_heap_pt bt + 1) OR KERNEL_PML_ACCESS) m;
              m = set_entry (t_heap_pd bt) 2 (frame_base (t_heap_pt bt + 2) OR KERNEL_PML_ACCESS) m
       in Some (fold (\<lambda>i. set_entry (t_heap_pt bt + i div 512) (i mod 512) ((first_page + push_bit 12 (of_nat i)) OR KERNEL_PML_ACCESS))
            [0..<frame_pages] m))"

definition init_tables :: "boot_tables \<Rightarrow> u64 \<Rightarrow> u64 \<Rightarrow> mmu \<Rightarrow> mmu option" where
  "init_tables bt mem_size first_page m = do {
     let m = set_entry (t_initial bt) 511 (frame_base (t_high bt) OR KERNEL_PML_ACCESS) m;
     let m = set_entry (t_initial bt) 510 (frame_base (t_heap_pml bt) OR KERNEL_PML_ACCESS) m;
     let m = map_high bt m;
     let m = set_entry (t_low bt) 0 (frame_base (t_low bt + 1) OR USER_PML_ACCESS) m;
     m \<leftarrow> map_low bt m;
     let m = set_entry (t_initial bt) 0 (frame_base (t_low bt) OR USER_PML_ACCESS) m;
     map_heap bt (page_round first_page) (unat (drop_bit 12 (frame_bytes (drop_bit 12 mem_size)))) m }"

text \<open>
  All of \<open>mmu_init\<close>; the results are the state, \<open>total_memory\<close> and \<open>heap_start\<close>. The sharing counts are a
  list in the model; that its pages are mapped is part of the operation.
\<close>

definition refcounts_size :: "u64 \<Rightarrow> u64" where
  "refcounts_size n = (if n AND 0xFFF \<noteq> 0 then n + 0x1000 - (n AND 0xFFF) else n)"

definition mmu_init :: "boot_tables \<Rightarrow> (mmu \<Rightarrow> mmu option) \<Rightarrow> u64 \<Rightarrow> u64 \<Rightarrow> mmu \<Rightarrow> (mmu \<times> nat \<times> u64) option" where
  "mmu_init bt memory_marker mem_size first_page m = do {
     m \<leftarrow> init_tables bt mem_size first_page m;
     (m, total) \<leftarrow> mmu_init_frames memory_marker mem_size first_page (m\<lparr>current_pml := mmu_from_physical (frame_base (t_initial bt))\<rparr>);
     let start = KERNEL_HEAP_START + frame_bytes (n_frames m);
     let bytes = refcounts_size (n_frames m);
     m \<leftarrow> for_pages (\<lambda>p m. do {
            (m, page) \<leftarrow> mmu_lookup_frame p True m;
            if page = 0 then None else mmu_allocate_frame_ex page (MMU_FLAG_WRITABLE OR MMU_FLAG_KERNEL) m }) start (start + bytes) m;
     Some (m\<lparr>mem_refcounts := replicate (unat bytes) 0\<rparr>, total, start + bytes) }"

section \<open>The processor's walk\<close>

text \<open>
  How an x86-64 processor translates an address with four levels of tables: a present entry of the
  second or third level with the size bit ends the walk.
\<close>

definition translate :: "nat \<Rightarrow> u64 \<Rightarrow> mmu \<Rightarrow> u64 option" where
  "translate pml va m = (
     let e4 = load_entry (entry (frame_ptr pml) (pml4_index va)) m in
     if \<not> e_present e4 then None
     else let e3 = load_entry (entry (table_of e4) (pdp_index va)) m in
     if \<not> e_present e3 then None
     else if e_size e3 then Some (push_bit 30 (drop_bit 18 (e_page e3)) OR take_bit 30 va)
     else let e2 = load_entry (entry (table_of e3) (pd_index va)) m in
     if \<not> e_present e2 then None
     else if e_size e2 then Some (push_bit 21 (drop_bit 9 (e_page e2)) OR take_bit 21 va)
     else let e1 = load_entry (entry (table_of e2) (pt_index va)) m in
     if \<not> e_present e1 then None
     else Some (push_bit 12 (e_page e1) OR take_bit 12 va))"

text \<open>
  The linker gives the tables different frames of memory that the direct map reaches: the runs of
  frames (first frame, number) do not meet.
\<close>

definition runs :: "boot_tables \<Rightarrow> (nat \<times> nat) list" where
  "runs bt = [(t_initial bt, 1), (t_high bt, 1), (t_heap_pml bt, 1), (t_heap_pd bt, 1), (t_heap_pt bt, 3), (t_low bt, 34), (t_twom bt, 64)]"

definition tables_apart :: "boot_tables \<Rightarrow> bool" where
  "tables_apart bt \<longleftrightarrow> sorted_wrt (\<lambda>(a, n) (b, k). a + n \<le> b \<or> b + k \<le> a) (runs bt) \<and>
     list_all (\<lambda>(a, n). a + n \<le> 134217728) (runs bt)"

section \<open>Tables after stores\<close>

definition tab :: "mmu \<Rightarrow> nat \<Rightarrow> nat \<Rightarrow> pagemap_entry" where
  "tab m f i = load_entry (entry_at f i) m"

lemma tab_set:
  "f < 134217728 \<Longrightarrow> g < 134217728 \<Longrightarrow> i < 512 \<Longrightarrow> j < 512 \<Longrightarrow>
   tab (set_entry f i e m) g j = (if f = g \<and> i = j then e else tab m g j)"
  using entries_apart [of g f j i] by (auto simp: tab_def set_entry_def load_store_apart)

lemma tab_fold_other:
  "g < 134217728 \<Longrightarrow> j < 512 \<Longrightarrow> (\<And>x. x \<in> set xs \<Longrightarrow> F x < 134217728 \<and> I x < 512 \<and> \<not> (F x = g \<and> I x = j)) \<Longrightarrow>
   tab (fold (\<lambda>x. set_entry (F x) (I x) (E x)) xs m) g j = tab m g j"
  by (induction xs arbitrary: m) (auto simp: tab_set)

lemma tab_fold_hit:
  "x \<in> set xs \<Longrightarrow> distinct xs \<Longrightarrow> inj_on (\<lambda>x. (F x, I x)) (set xs) \<Longrightarrow> (\<And>x. x \<in> set xs \<Longrightarrow> F x < 134217728 \<and> I x < 512) \<Longrightarrow>
   tab (fold (\<lambda>x. set_entry (F x) (I x) (E x)) xs m) (F x) (I x) = E x"
proof (induction xs arbitrary: m)
  case (Cons y ys)
  show ?case
  proof (cases "x = y")
    case True
    have "tab (fold (\<lambda>x. set_entry (F x) (I x) (E x)) ys (set_entry (F y) (I y) (E y) m)) (F y) (I y) = tab (set_entry (F y) (I y) (E y) m) (F y) (I y)"
      by (rule tab_fold_other) (use Cons.prems in \<open>auto simp: inj_on_def\<close>)
    then show ?thesis using True Cons.prems(4) [of y] by (simp add: tab_set)
  next
    case False
    then show ?thesis using Cons by (auto simp: inj_on_def)
  qed
qed simp

text \<open>A table whose entries point to tables that are filled in the same turn.\<close>

definition fill_tables :: "nat \<Rightarrow> (nat \<Rightarrow> pagemap_entry) \<Rightarrow> (nat \<Rightarrow> nat) \<Rightarrow> (nat \<Rightarrow> nat \<Rightarrow> pagemap_entry) \<Rightarrow> nat \<Rightarrow> mmu \<Rightarrow> mmu" where
  "fill_tables A X B Y n m =
     fold (\<lambda>i m. fold (\<lambda>j. set_entry (B i) j (Y i j)) [0..<512] (set_entry A i (X i) m)) [0..<n] m"

lemma fill_one:
  assumes "f < 134217728" and "g < 134217728" and "j < 512"
  shows "tab (fold (\<lambda>j. set_entry f j (Y j)) [0..<512] m) g j = (if g = f then Y j else tab m g j)"
proof (cases "g = f")
  case True
  have "tab (fold (\<lambda>j. set_entry f j (Y j)) [0..<512] m) f j = Y j"
    by (rule tab_fold_hit [where F = "\<lambda>_. f" and I = "\<lambda>j. j"]) (use assms in \<open>auto simp: inj_on_def\<close>)
  then show ?thesis using True by simp
next
  case False
  then show ?thesis using tab_fold_other [of g j "[0..<512]" "\<lambda>_. f" "\<lambda>j. j" Y m] assms by auto
qed

lemma fill_tables_tab:
  assumes A: "A < 134217728" and B: "\<And>i. i < n \<Longrightarrow> B i < 134217728 \<and> B i \<noteq> A" and inj: "\<And>i k. i < n \<Longrightarrow> k < n \<Longrightarrow> B i = B k \<Longrightarrow> i = k"
    and n: "n \<le> 512" and g: "g < 134217728" and j: "j < 512"
  shows "(g = A \<and> j < n \<longrightarrow> tab (fill_tables A X B Y n m) g j = X j) \<and>
    (\<forall>i < n. g = B i \<longrightarrow> tab (fill_tables A X B Y n m) g j = Y i j) \<and>
    ((g = A \<longrightarrow> n \<le> j) \<and> (\<forall>i < n. g \<noteq> B i) \<longrightarrow> tab (fill_tables A X B Y n m) g j = tab m g j)"
  using B inj n
proof (induction n)
  case 0
  then show ?case by (simp add: fill_tables_def)
next
  case (Suc n)
  let ?m = "fill_tables A X B Y n m"
  have step: "fill_tables A X B Y (Suc n) m = fold (\<lambda>j. set_entry (B n) j (Y n j)) [0..<512] (set_entry A n (X n) ?m)"
    by (simp add: fill_tables_def)
  have Bn: "B n < 134217728" "B n \<noteq> A" using Suc.prems(1) [of n] by simp_all
  have t: "tab (fill_tables A X B Y (Suc n) m) g j =
      (if g = B n then Y n j else if g = A \<and> j = n then X n else tab ?m g j)"
    unfolding step fill_one [OF Bn(1) g j] using Suc.prems(3) A g j by (auto simp: tab_set)
  have ih: "(g = A \<and> j < n \<longrightarrow> tab ?m g j = X j) \<and> (\<forall>i < n. g = B i \<longrightarrow> tab ?m g j = Y i j) \<and>
      ((g = A \<longrightarrow> n \<le> j) \<and> (\<forall>i < n. g \<noteq> B i) \<longrightarrow> tab ?m g j = tab m g j)"
    by (rule Suc.IH) (use Suc.prems in auto)
  have other: "B i \<noteq> B n" "B i \<noteq> A" if "i < n" for i using Suc.prems(1) [of i] Suc.prems(2) [of i n] that by auto
  show ?case
    unfolding t using ih Bn(2) other by (auto simp: less_Suc_eq)
qed

lemma map_high_fill:
  "map_high bt m = fill_tables (t_high bt) (\<lambda>i. frame_base (t_twom bt + i) OR KERNEL_PML_ACCESS) (\<lambda>i. t_twom bt + i)
     (\<lambda>i j. (push_bit 30 (of_nat i) + push_bit 21 (of_nat j)) OR LARGE_PAGE_BIT OR KERNEL_PML_ACCESS) 64 m"
  unfolding map_high_def fill_tables_def ..

lemma map_low_fill:
  "low_tables (t_end bt) \<le> 32 \<Longrightarrow> map_low bt m = Some (set_entry (t_low bt + 2) 0 0
     (fill_tables (t_low bt + 1) (\<lambda>j. frame_base (t_low bt + (j + 2)) OR KERNEL_PML_ACCESS) (\<lambda>j. t_low bt + (j + 2))
       (\<lambda>j i. (0x200000 * of_nat j + 0x1000 * of_nat i) OR KERNEL_PML_ACCESS) (low_tables (t_end bt)) m))"
  unfolding map_low_def fill_tables_def Let_def by simp

definition run_apart :: "nat \<Rightarrow> nat \<Rightarrow> nat \<Rightarrow> nat \<Rightarrow> bool" where
  "run_apart a n b k \<longleftrightarrow> a + n \<le> b \<or> b + k \<le> a"

definition within :: "nat \<Rightarrow> nat \<Rightarrow> nat \<Rightarrow> bool" where
  "within g a n \<longleftrightarrow> a \<le> g \<and> g < a + n"

lemma tables_runs:
  assumes "tables_apart bt"
  shows "run_apart (t_initial bt) 1 (t_high bt) 1" "run_apart (t_initial bt) 1 (t_heap_pml bt) 1" "run_apart (t_initial bt) 1 (t_heap_pd bt) 1"
    "run_apart (t_initial bt) 1 (t_heap_pt bt) 3" "run_apart (t_initial bt) 1 (t_low bt) 34" "run_apart (t_initial bt) 1 (t_twom bt) 64"
    "run_apart (t_high bt) 1 (t_heap_pml bt) 1" "run_apart (t_high bt) 1 (t_heap_pd bt) 1" "run_apart (t_high bt) 1 (t_heap_pt bt) 3"
    "run_apart (t_high bt) 1 (t_low bt) 34" "run_apart (t_high bt) 1 (t_twom bt) 64" "run_apart (t_heap_pml bt) 1 (t_heap_pd bt) 1"
    "run_apart (t_heap_pml bt) 1 (t_heap_pt bt) 3" "run_apart (t_heap_pml bt) 1 (t_low bt) 34" "run_apart (t_heap_pml bt) 1 (t_twom bt) 64"
    "run_apart (t_heap_pd bt) 1 (t_heap_pt bt) 3" "run_apart (t_heap_pd bt) 1 (t_low bt) 34" "run_apart (t_heap_pd bt) 1 (t_twom bt) 64"
    "run_apart (t_heap_pt bt) 3 (t_low bt) 34" "run_apart (t_heap_pt bt) 3 (t_twom bt) 64" "run_apart (t_low bt) 34 (t_twom bt) 64"
  using assms by (simp_all add: tables_apart_def runs_def run_apart_def)

lemma tables_low:
  assumes "tables_apart bt"
  shows "t_initial bt < 134217728" "t_high bt < 134217728" "t_heap_pml bt < 134217728" "t_heap_pd bt < 134217728"
    "k < 3 \<Longrightarrow> t_heap_pt bt + k < 134217728" "k < 34 \<Longrightarrow> t_low bt + k < 134217728" "k < 64 \<Longrightarrow> t_twom bt + k < 134217728"
  using assms by (auto simp: tables_apart_def runs_def)

text \<open>A place in one run is in no other.\<close>

lemma within_self: "within a a (Suc n)" "i < n \<Longrightarrow> within (a + i) a n"
  by (simp_all add: within_def)

lemma within_other:
  "run_apart a (Suc n) b k \<Longrightarrow> \<not> within a b k" "run_apart b k a (Suc n) \<Longrightarrow> \<not> within a b k"
  "run_apart a n b k \<Longrightarrow> i < n \<Longrightarrow> \<not> within (a + i) b k" "run_apart b k a n \<Longrightarrow> i < n \<Longrightarrow> \<not> within (a + i) b k"
  by (auto simp: within_def run_apart_def)

section \<open>What each part of the initialisation writes\<close>

lemma set_tab:
  "f < 134217728 \<Longrightarrow> g < 134217728 \<Longrightarrow> i < 512 \<Longrightarrow> j < 512 \<Longrightarrow>
   tab (set_entry f i e m) g j = (if within g f 1 \<and> i = j then e else tab m g j)"
  by (auto simp: tab_set within_def)

text \<open>The entry \<open>j\<close> of frame \<open>g\<close> after each part, from the entries \<open>T\<close> before it.\<close>

definition high_view :: "boot_tables \<Rightarrow> (nat \<Rightarrow> nat \<Rightarrow> pagemap_entry) \<Rightarrow> nat \<Rightarrow> nat \<Rightarrow> pagemap_entry" where
  "high_view bt T g j =
    (if within g (t_high bt) 1 \<and> j < 64 then frame_base (t_twom bt + j) OR KERNEL_PML_ACCESS
     else if within g (t_twom bt) 64
     then (push_bit 30 (of_nat (g - t_twom bt)) + push_bit 21 (of_nat j)) OR LARGE_PAGE_BIT OR KERNEL_PML_ACCESS
     else T g j)"

definition low_view :: "boot_tables \<Rightarrow> (nat \<Rightarrow> nat \<Rightarrow> pagemap_entry) \<Rightarrow> nat \<Rightarrow> nat \<Rightarrow> pagemap_entry" where
  "low_view bt T g j =
    (if within g (t_low bt + 2) 1 \<and> j = 0 then 0
     else if within g (t_low bt + 1) 1 \<and> j < low_tables (t_end bt) then frame_base (t_low bt + (j + 2)) OR KERNEL_PML_ACCESS
     else if within g (t_low bt + 2) (low_tables (t_end bt))
     then (0x200000 * of_nat (g - (t_low bt + 2)) + 0x1000 * of_nat j) OR KERNEL_PML_ACCESS
     else T g j)"

definition heap_view :: "boot_tables \<Rightarrow> u64 \<Rightarrow> nat \<Rightarrow> (nat \<Rightarrow> nat \<Rightarrow> pagemap_entry) \<Rightarrow> nat \<Rightarrow> nat \<Rightarrow> pagemap_entry" where
  "heap_view bt first_page fp T g j =
    (if within g (t_heap_pml bt) 1 \<and> j = 0 then frame_base (t_heap_pd bt) OR KERNEL_PML_ACCESS
     else if within g (t_heap_pd bt) 1 \<and> j < 3 then frame_base (t_heap_pt bt + j) OR KERNEL_PML_ACCESS
     else if within g (t_heap_pt bt) 3 \<and> 512 * (g - t_heap_pt bt) + j < fp
     then (first_page + push_bit 12 (of_nat (512 * (g - t_heap_pt bt) + j))) OR KERNEL_PML_ACCESS
     else T g j)"

lemma map_high_tab:
  assumes ap: "tables_apart bt" and g: "g < 134217728" "j < 512"
  shows "tab (map_high bt m) g j = high_view bt (tab m) g j"
proof -
  let ?X = "\<lambda>i. frame_base (t_twom bt + i) OR KERNEL_PML_ACCESS" and ?B = "\<lambda>i. t_twom bt + i"
  let ?Y = "\<lambda>i j. (push_bit 30 (of_nat i) + push_bit 21 (of_nat j)) OR LARGE_PAGE_BIT OR KERNEL_PML_ACCESS"
  have ra: "run_apart (t_high bt) 1 (t_twom bt) 64" by (rule tables_runs [OF ap])
  have f: "(g = t_high bt \<and> j < 64 \<longrightarrow> tab (map_high bt m) g j = ?X j) \<and>
      (\<forall>i < 64. g = ?B i \<longrightarrow> tab (map_high bt m) g j = ?Y i j) \<and>
      ((g = t_high bt \<longrightarrow> 64 \<le> j) \<and> (\<forall>i < 64. g \<noteq> ?B i) \<longrightarrow> tab (map_high bt m) g j = tab m g j)"
    unfolding map_high_fill
    by (rule fill_tables_tab [OF tables_low(2) [OF ap] _ _ _ g]) (use ra tables_low(7) [OF ap] in \<open>auto simp: run_apart_def\<close>)
  consider "g = t_high bt" | i where "i < 64" "g = t_twom bt + i" | "g \<noteq> t_high bt" "\<not> within g (t_twom bt) 64"
  proof -
    have "\<exists>i < 64. g = t_twom bt + i" if "within g (t_twom bt) 64"
      by (rule exI [of _ "g - t_twom bt"]) (use that in \<open>auto simp: within_def\<close>)
    with that show ?thesis by blast
  qed
  then show ?thesis
  proof cases
    case 1
    then show ?thesis using f ra by (auto simp: high_view_def within_def run_apart_def)
  next
    case 2
    then show ?thesis using f ra by (auto simp: high_view_def within_def run_apart_def)
  next
    case 3
    moreover from this have "\<forall>i < 64. g \<noteq> t_twom bt + i" by (auto simp: within_def)
    ultimately show ?thesis using f by (auto simp: high_view_def within_def)
  qed
qed

lemma map_low_tab:
  assumes ap: "tables_apart bt" and pd: "low_tables (t_end bt) \<le> 32" and g: "g < 134217728" "j < 512"
  shows "\<exists>m'. map_low bt m = Some m' \<and> tab m' g j = low_view bt (tab m) g j"
proof -
  let ?n = "low_tables (t_end bt)"
  let ?X = "\<lambda>j. frame_base (t_low bt + (j + 2)) OR KERNEL_PML_ACCESS" and ?B = "\<lambda>j. t_low bt + (j + 2)"
  let ?Y = "\<lambda>j i. (0x200000 * of_nat j + 0x1000 * of_nat i) OR KERNEL_PML_ACCESS"
  let ?m = "fill_tables (t_low bt + 1) ?X ?B ?Y ?n m"
  have f: "(g = t_low bt + 1 \<and> j < ?n \<longrightarrow> tab ?m g j = ?X j) \<and> (\<forall>i < ?n. g = ?B i \<longrightarrow> tab ?m g j = ?Y i j) \<and>
      ((g = t_low bt + 1 \<longrightarrow> ?n \<le> j) \<and> (\<forall>i < ?n. g \<noteq> ?B i) \<longrightarrow> tab ?m g j = tab m g j)"
    by (rule fill_tables_tab [OF tables_low(6) [OF ap] _ _ _ g]) (use tables_low(6) [OF ap, of 33] pd in auto)
  have s: "tab (set_entry (t_low bt + 2) 0 0 ?m) g j = (if within g (t_low bt + 2) 1 \<and> 0 = j then 0 else tab ?m g j)"
    by (rule set_tab [OF tables_low(6) [OF ap] g(1)]) (use g in simp_all)
  have "tab ?m g j = (if within g (t_low bt + 1) 1 \<and> j < ?n then ?X j
     else if within g (t_low bt + 2) ?n then ?Y (g - (t_low bt + 2)) j else tab m g j)"
  proof (cases "within g (t_low bt + 2) ?n")
    case True
    then have "g = ?B (g - (t_low bt + 2))" "g - (t_low bt + 2) < ?n" by (auto simp: within_def)
    then have "tab ?m g j = ?Y (g - (t_low bt + 2)) j" using f by blast
    then show ?thesis using True by (auto simp: within_def)
  next
    case False
    then have n: "\<forall>i < ?n. g \<noteq> ?B i" by (auto simp: within_def)
    have w: "within g (t_low bt + 1) 1 \<longleftrightarrow> g = t_low bt + 1" by (auto simp: within_def)
    show ?thesis
    proof (cases "g = t_low bt + 1 \<and> j < ?n")
      case True
      then have "tab ?m g j = ?X j" using f by blast
      then show ?thesis using True unfolding w by (simp only: True simp_thms if_True)
    next
      case c: False
      then have "tab ?m g j = tab m g j" using f n by (meson not_le)
      then show ?thesis using c False unfolding w by (simp only: c False if_False)
    qed
  qed
  then show ?thesis unfolding low_view_def using s by (simp add: map_low_fill [OF pd])
qed

lemma map_heap_tab:
  assumes ap: "tables_apart bt" and fp: "fp \<le> 1536" and g: "g < 134217728" "j < 512"
  shows "\<exists>m'. map_heap bt first_page fp m = Some m' \<and> tab m' g j = heap_view bt first_page fp (tab m) g j"
proof -
  let ?m1 = "set_entry (t_heap_pml bt) 0 (frame_base (t_heap_pd bt) OR KERNEL_PML_ACCESS) m"
  let ?m2 = "set_entry (t_heap_pd bt) 0 (frame_base (t_heap_pt bt) OR KERNEL_PML_ACCESS) ?m1"
  let ?m3 = "set_entry (t_heap_pd bt) 1 (frame_base (t_heap_pt bt + 1) OR KERNEL_PML_ACCESS) ?m2"
  let ?m4 = "set_entry (t_heap_pd bt) 2 (frame_base (t_heap_pt bt + 2) OR KERNEL_PML_ACCESS) ?m3"
  let ?F = "\<lambda>i. t_heap_pt bt + i div 512" and ?I = "\<lambda>i. i mod 512" and ?E = "\<lambda>i. (first_page + push_bit 12 (of_nat i)) OR KERNEL_PML_ACCESS"
  let ?m5 = "fold (\<lambda>i. set_entry (?F i) (?I i) (?E i)) [0..<fp] ?m4"
  have run: "map_heap bt first_page fp m = Some ?m5" using fp by (simp add: map_heap_def Let_def)
  have ok: "?F i < 134217728 \<and> ?I i < 512" if "i \<in> set [0..<fp]" for i
    using that fp tables_low(5) [OF ap, of "i div 512"] by (auto simp: less_mult_imp_div_less)
  have m4: "tab ?m4 g j = (if within g (t_heap_pml bt) 1 \<and> j = 0 then frame_base (t_heap_pd bt) OR KERNEL_PML_ACCESS
     else if within g (t_heap_pd bt) 1 \<and> j < 3 then frame_base (t_heap_pt bt + j) OR KERNEL_PML_ACCESS else tab m g j)"
  proof -
    have "tab ?m1 g j = (if within g (t_heap_pml bt) 1 \<and> 0 = j then frame_base (t_heap_pd bt) OR KERNEL_PML_ACCESS else tab m g j)"
      by (rule set_tab [OF tables_low(3) [OF ap] g(1)]) (use g in simp_all)
    moreover have "tab ?m2 g j = (if within g (t_heap_pd bt) 1 \<and> 0 = j then frame_base (t_heap_pt bt) OR KERNEL_PML_ACCESS else tab ?m1 g j)"
      by (rule set_tab [OF tables_low(4) [OF ap] g(1)]) (use g in simp_all)
    moreover have "tab ?m3 g j = (if within g (t_heap_pd bt) 1 \<and> 1 = j then frame_base (t_heap_pt bt + 1) OR KERNEL_PML_ACCESS else tab ?m2 g j)"
      by (rule set_tab [OF tables_low(4) [OF ap] g(1)]) (use g in simp_all)
    moreover have "tab ?m4 g j = (if within g (t_heap_pd bt) 1 \<and> 2 = j then frame_base (t_heap_pt bt + 2) OR KERNEL_PML_ACCESS else tab ?m3 g j)"
      by (rule set_tab [OF tables_low(4) [OF ap] g(1)]) (use g in simp_all)
    moreover have "\<not> (within g (t_heap_pml bt) 1 \<and> within g (t_heap_pd bt) 1)"
      using tables_runs(12) [OF ap] by (auto simp: within_def run_apart_def)
    moreover have "j < 3 \<longleftrightarrow> j = 0 \<or> j = 1 \<or> j = 2" by auto
    ultimately show ?thesis by (cases "within g (t_heap_pd bt) 1"; cases "j = 0"; cases "j = 1"; cases "j = 2") simp_all
  qed
  show ?thesis
  proof (cases "within g (t_heap_pt bt) 3 \<and> 512 * (g - t_heap_pt bt) + j < fp")
    case True
    let ?k = "512 * (g - t_heap_pt bt) + j"
    have k: "?F ?k = g" "?I ?k = j" using True g(2) by (auto simp: within_def)
    have "tab ?m5 (?F ?k) (?I ?k) = ?E ?k"
    proof (rule tab_fold_hit)
      show "inj_on (\<lambda>x. (?F x, ?I x)) (set [0..<fp])"
        by (rule inj_onI) (metis add_left_cancel div_mult_mod_eq prod.inject)
    qed (use True ok in auto)
    moreover have "\<not> within g (t_heap_pml bt) 1" "\<not> within g (t_heap_pd bt) 1"
      using True tables_runs(13,16) [OF ap] by (auto simp: within_def run_apart_def)
    ultimately show ?thesis using True k run by (simp add: heap_view_def)
  next
    case False
    have "tab ?m5 g j = tab ?m4 g j"
    proof (rule tab_fold_other [OF g])
      fix x
      assume x: "x \<in> set [0..<fp]"
      have "\<not> (?F x = g \<and> ?I x = j)"
      proof
        assume e: "?F x = g \<and> ?I x = j"
        then have "g - t_heap_pt bt = x div 512" "t_heap_pt bt \<le> g" by auto
        moreover have "x div 512 < 3" using x fp by (auto simp: less_mult_imp_div_less)
        ultimately have "within g (t_heap_pt bt) 3" "512 * (g - t_heap_pt bt) + j = x" using e by (auto simp: within_def)
        with False x show False by simp
      qed
      with ok [OF x] show "?F x < 134217728 \<and> ?I x < 512 \<and> \<not> (?F x = g \<and> ?I x = j)" by blast
    qed
    then show ?thesis unfolding heap_view_def m4 run if_not_P [OF False] by blast
  qed
qed

text \<open>A frame lies in one of the runs only.\<close>

lemma run_apartD: "run_apart a n b k \<Longrightarrow> \<not> (within g a n \<and> within g b k)"
  by (auto simp: within_def run_apart_def)

lemma in_one_run:
  assumes ap: "tables_apart bt"
  shows "within g (t_initial bt) 1 \<Longrightarrow> \<not> within g (t_high bt) 1 \<and> \<not> within g (t_heap_pml bt) 1 \<and> \<not> within g (t_heap_pd bt) 1 \<and>
      \<not> within g (t_heap_pt bt) 3 \<and> \<not> within g (t_low bt) 34 \<and> \<not> within g (t_twom bt) 64"
    "within g (t_high bt) 1 \<Longrightarrow> \<not> within g (t_initial bt) 1 \<and> \<not> within g (t_heap_pml bt) 1 \<and> \<not> within g (t_heap_pd bt) 1 \<and>
      \<not> within g (t_heap_pt bt) 3 \<and> \<not> within g (t_low bt) 34 \<and> \<not> within g (t_twom bt) 64"
    "within g (t_heap_pml bt) 1 \<Longrightarrow> \<not> within g (t_heap_pd bt) 1 \<and> \<not> within g (t_heap_pt bt) 3"
    "within g (t_heap_pd bt) 1 \<Longrightarrow> \<not> within g (t_heap_pml bt) 1 \<and> \<not> within g (t_heap_pt bt) 3"
    "within g (t_heap_pt bt) 3 \<Longrightarrow> \<not> within g (t_heap_pml bt) 1 \<and> \<not> within g (t_heap_pd bt) 1"
    "within g (t_low bt) 34 \<Longrightarrow> \<not> within g (t_initial bt) 1 \<and> \<not> within g (t_heap_pml bt) 1 \<and> \<not> within g (t_heap_pd bt) 1 \<and>
      \<not> within g (t_heap_pt bt) 3 \<and> \<not> within g (t_high bt) 1 \<and> \<not> within g (t_twom bt) 64"
    "within g (t_twom bt) 64 \<Longrightarrow> \<not> within g (t_initial bt) 1 \<and> \<not> within g (t_heap_pml bt) 1 \<and> \<not> within g (t_heap_pd bt) 1 \<and>
      \<not> within g (t_heap_pt bt) 3 \<and> \<not> within g (t_high bt) 1 \<and> \<not> within g (t_low bt) 34"
  using tables_runs [OF ap, THEN run_apartD, of g] by blast+

lemma low_run: "within g (t_low bt + k) n \<Longrightarrow> k + n \<le> 34 \<Longrightarrow> within g (t_low bt) 34"
  by (auto simp: within_def)

section \<open>The tables when it is done\<close>

definition table_pages :: "u64 \<Rightarrow> nat" where
  "table_pages mem_size = unat (drop_bit 12 (frame_bytes (drop_bit 12 mem_size)))"

lemma init_tables_tab:
  assumes ap: "tables_apart bt" and pd: "low_tables (t_end bt) \<le> 32" and fp: "table_pages mem_size \<le> 1536"
  obtains m' where "init_tables bt mem_size first_page m = Some m'" and
    "\<And>g j. g < 134217728 \<Longrightarrow> j < 512 \<Longrightarrow> tab m' g j =
       heap_view bt (page_round first_page) (table_pages mem_size) (\<lambda>g j.
         if within g (t_initial bt) 1 \<and> 0 = j then frame_base (t_low bt) OR USER_PML_ACCESS
         else low_view bt (\<lambda>g j.
           if within g (t_low bt) 1 \<and> 0 = j then frame_base (t_low bt + 1) OR USER_PML_ACCESS
           else high_view bt (\<lambda>g j.
             if within g (t_initial bt) 1 \<and> 510 = j then frame_base (t_heap_pml bt) OR KERNEL_PML_ACCESS
             else if within g (t_initial bt) 1 \<and> 511 = j then frame_base (t_high bt) OR KERNEL_PML_ACCESS
             else tab m g j) g j) g j) g j"
proof -
  define m1 where "m1 = set_entry (t_initial bt) 511 (frame_base (t_high bt) OR KERNEL_PML_ACCESS) m"
  define m2 where "m2 = set_entry (t_initial bt) 510 (frame_base (t_heap_pml bt) OR KERNEL_PML_ACCESS) m1"
  define m3 where "m3 = set_entry (t_low bt) 0 (frame_base (t_low bt + 1) OR USER_PML_ACCESS) (map_high bt m2)"
  obtain m4 where m4: "map_low bt m3 = Some m4" using map_low_tab [OF ap pd, of 0 0 m3] by auto
  define m5 where "m5 = set_entry (t_initial bt) 0 (frame_base (t_low bt) OR USER_PML_ACCESS) m4"
  obtain m6 where m6: "map_heap bt (page_round first_page) (table_pages mem_size) m5 = Some m6"
    using map_heap_tab [OF ap fp, of 0 0 "page_round first_page" m5] by auto
  have low0: "t_low bt < 134217728" using tables_low(6) [OF ap, of 0] by simp
  show ?thesis
  proof (rule that)
    show "init_tables bt mem_size first_page m = Some m6"
      using m4 m6 by (simp add: init_tables_def Let_def m1_def m2_def m3_def m5_def table_pages_def)
  next
    fix g j :: nat
    assume g: "g < 134217728" "j < 512"
    have "tab m6 g j = heap_view bt (page_round first_page) (table_pages mem_size) (tab m5) g j"
      using map_heap_tab [OF ap fp g, of "page_round first_page" m5] m6 by simp
    moreover have "tab m5 g j = (if within g (t_initial bt) 1 \<and> 0 = j then frame_base (t_low bt) OR USER_PML_ACCESS else tab m4 g j)"
      unfolding m5_def by (rule set_tab [OF tables_low(1) [OF ap]]) (use g in simp_all)
    moreover have "tab m4 g j = low_view bt (tab m3) g j" using map_low_tab [OF ap pd g, of m3] m4 by simp
    moreover have "tab m3 g j = (if within g (t_low bt) 1 \<and> 0 = j then frame_base (t_low bt + 1) OR USER_PML_ACCESS else tab (map_high bt m2) g j)"
      unfolding m3_def by (rule set_tab [OF low0]) (use g in simp_all)
    moreover have "tab (map_high bt m2) g j = high_view bt (tab m2) g j" by (rule map_high_tab [OF ap g])
    moreover have "tab m2 g j = (if within g (t_initial bt) 1 \<and> 510 = j then frame_base (t_heap_pml bt) OR KERNEL_PML_ACCESS else tab m1 g j)"
      unfolding m2_def by (rule set_tab [OF tables_low(1) [OF ap]]) (use g in simp_all)
    moreover have "tab m1 g j = (if within g (t_initial bt) 1 \<and> 511 = j then frame_base (t_high bt) OR KERNEL_PML_ACCESS else tab m g j)"
      unfolding m1_def by (rule set_tab [OF tables_low(1) [OF ap]]) (use g in simp_all)
    ultimately show "tab m6 g j = heap_view bt (page_round first_page) (table_pages mem_size) (\<lambda>g j.
         if within g (t_initial bt) 1 \<and> 0 = j then frame_base (t_low bt) OR USER_PML_ACCESS
         else low_view bt (\<lambda>g j.
           if within g (t_low bt) 1 \<and> 0 = j then frame_base (t_low bt + 1) OR USER_PML_ACCESS
           else high_view bt (\<lambda>g j.
             if within g (t_initial bt) 1 \<and> 510 = j then frame_base (t_heap_pml bt) OR KERNEL_PML_ACCESS
             else if within g (t_initial bt) 1 \<and> 511 = j then frame_base (t_high bt) OR KERNEL_PML_ACCESS
             else tab m g j) g j) g j) g j"
      unfolding heap_view_def low_view_def high_view_def by (simp only:)
  qed
qed

lemma init_tables_entries:
  assumes ap: "tables_apart bt" and pd: "low_tables (t_end bt) \<le> 32" and fp: "table_pages mem_size \<le> 1536"
  obtains m' where "init_tables bt mem_size first_page m = Some m'"
    "tab m' (t_initial bt) 0 = frame_base (t_low bt) OR USER_PML_ACCESS"
    "tab m' (t_initial bt) 510 = frame_base (t_heap_pml bt) OR KERNEL_PML_ACCESS"
    "tab m' (t_initial bt) 511 = frame_base (t_high bt) OR KERNEL_PML_ACCESS"
    "\<And>j. j < 64 \<Longrightarrow> tab m' (t_high bt) j = frame_base (t_twom bt + j) OR KERNEL_PML_ACCESS"
    "\<And>i j. i < 64 \<Longrightarrow> j < 512 \<Longrightarrow> tab m' (t_twom bt + i) j =
       (push_bit 30 (of_nat i) + push_bit 21 (of_nat j)) OR LARGE_PAGE_BIT OR KERNEL_PML_ACCESS"
    "tab m' (t_heap_pml bt) 0 = frame_base (t_heap_pd bt) OR KERNEL_PML_ACCESS"
    "\<And>j. j < 3 \<Longrightarrow> tab m' (t_heap_pd bt) j = frame_base (t_heap_pt bt + j) OR KERNEL_PML_ACCESS"
    "\<And>i j. i < 3 \<Longrightarrow> j < 512 \<Longrightarrow> 512 * i + j < table_pages mem_size \<Longrightarrow> tab m' (t_heap_pt bt + i) j =
       (page_round first_page + push_bit 12 (of_nat (512 * i + j))) OR KERNEL_PML_ACCESS"
    "tab m' (t_low bt) 0 = frame_base (t_low bt + 1) OR USER_PML_ACCESS"
    "\<And>j. j < low_tables (t_end bt) \<Longrightarrow> tab m' (t_low bt + 1) j = frame_base (t_low bt + (j + 2)) OR KERNEL_PML_ACCESS"
    "\<And>i j. i < low_tables (t_end bt) \<Longrightarrow> j < 512 \<Longrightarrow> tab m' (t_low bt + (i + 2)) j =
       (if i = 0 \<and> j = 0 then 0 else (0x200000 * of_nat i + 0x1000 * of_nat j) OR KERNEL_PML_ACCESS)"
proof -
  obtain m' where run: "init_tables bt mem_size first_page m = Some m'" and
    t: "\<And>g j. g < 134217728 \<Longrightarrow> j < 512 \<Longrightarrow> tab m' g j =
       heap_view bt (page_round first_page) (table_pages mem_size) (\<lambda>g j.
         if within g (t_initial bt) 1 \<and> 0 = j then frame_base (t_low bt) OR USER_PML_ACCESS
         else low_view bt (\<lambda>g j.
           if within g (t_low bt) 1 \<and> 0 = j then frame_base (t_low bt + 1) OR USER_PML_ACCESS
           else high_view bt (\<lambda>g j.
             if within g (t_initial bt) 1 \<and> 510 = j then frame_base (t_heap_pml bt) OR KERNEL_PML_ACCESS
             else if within g (t_initial bt) 1 \<and> 511 = j then frame_base (t_high bt) OR KERNEL_PML_ACCESS
             else tab m g j) g j) g j) g j"
    by (rule init_tables_tab [OF ap pd fp, of first_page m]) (rule that)
  note views = heap_view_def low_view_def high_view_def
  have w: "within a a 1" "i < n \<Longrightarrow> within (a + i) a n" for a i n by (simp_all add: within_def)
  have notlow: "\<not> within g (t_low bt + 2) 1 \<and> \<not> within g (t_low bt + 1) 1 \<and> \<not> within g (t_low bt + 2) (low_tables (t_end bt)) \<and>
      \<not> within g (t_low bt) 1" if "\<not> within g (t_low bt) 34" for g
    using that pd by (auto simp: within_def)
  have lowr: "\<not> within g (t_initial bt) 1" "\<not> within g (t_heap_pml bt) 1" "\<not> within g (t_heap_pd bt) 1"
      "\<not> within g (t_heap_pt bt) 3" if "within g (t_low bt) 34" for g
    using in_one_run(6) [OF ap that] by blast+
  show ?thesis
  proof (rule that [OF run], goal_cases)
    case 1
    show ?case using in_one_run(1) [OF ap w(1)] tables_low(1) [OF ap] w(1) [of "t_initial bt"] by (subst t) (simp_all add: views del: One_nat_def)
  next
    case 2
    show ?case using in_one_run(1) [OF ap w(1)] notlow tables_low(1) [OF ap] w(1) [of "t_initial bt"] by (subst t) (simp_all add: views del: One_nat_def)
  next
    case 3
    show ?case using in_one_run(1) [OF ap w(1)] notlow tables_low(1) [OF ap] w(1) [of "t_initial bt"] by (subst t) (simp_all add: views del: One_nat_def)
  next
    case (4 j)
    then show ?case using in_one_run(2) [OF ap w(1)] notlow tables_low(2) [OF ap] w(1) [of "t_high bt"]
      by (subst t) (simp_all add: views del: One_nat_def)
  next
    case (5 i j)
    then show ?case using in_one_run(7) [OF ap w(2)] notlow tables_low(7) [OF ap] w(2) [of i 64 "t_twom bt"]
      by (subst t) (simp_all add: views del: One_nat_def)
  next
    case 6
    show ?case using tables_low(3) [OF ap] w(1) [of "t_heap_pml bt"]
      by (subst t) (simp_all add: views del: One_nat_def)
  next
    case (7 j)
    then show ?case using in_one_run(4) [OF ap w(1)] tables_low(4) [OF ap] w(1) [of "t_heap_pd bt"]
      by (subst t) (simp_all add: views del: One_nat_def)
  next
    case (8 i j)
    then show ?case using in_one_run(5) [OF ap w(2)] tables_low(5) [OF ap] w(2) [of i 3 "t_heap_pt bt"]
      by (subst t) (simp_all add: views del: One_nat_def)
  next
    case 9
    have "within (t_low bt) (t_low bt) 34" "\<not> within (t_low bt) (t_low bt + 2) 1" "\<not> within (t_low bt) (t_low bt + 1) 1"
      "\<not> within (t_low bt) (t_low bt + 2) (low_tables (t_end bt))" by (simp_all add: within_def)
    then show ?case using lowr [of "t_low bt"] tables_low(6) [OF ap, of 0] w(1) [of "t_low bt"]
      by (subst t) (simp_all add: views del: One_nat_def)
  next
    case (10 j)
    have "within (t_low bt + 1) (t_low bt) 34" "\<not> within (t_low bt + 1) (t_low bt + 2) 1"
      "\<not> within (t_low bt + 1) (t_low bt + 2) (low_tables (t_end bt))" by (simp_all add: within_def)
    then show ?case using lowr [of "t_low bt + 1"] tables_low(6) [OF ap, of 1] w(1) [of "t_low bt + 1"] 10 pd
      by (subst t) (simp_all add: views del: One_nat_def)
  next
    case (11 i j)
    have "within (t_low bt + (i + 2)) (t_low bt) 34" "within (t_low bt + (i + 2)) (t_low bt + 2) 1 \<longleftrightarrow> i = 0"
      "\<not> within (t_low bt + (i + 2)) (t_low bt + 1) 1"
      "within (t_low bt + (i + 2)) (t_low bt + 2) (low_tables (t_end bt))" "t_low bt + (i + 2) - (t_low bt + 2) = i"
      using 11 pd by (auto simp add: within_def)
    then show ?case using lowr [of "t_low bt + (i + 2)"] tables_low(6) [OF ap, of "i + 2"] 11 pd
      by (subst t) (simp_all add: views del: One_nat_def add_2_eq_Suc')
  qed
qed

section \<open>Walks\<close>

lemma index_above: "(n :: nat) div d = 512 * k + x \<Longrightarrow> n div d mod 512 = x mod 512"
  by simp

lemma index_split:
  "512 * (n div 2097152) + n div 4096 mod 512 = (n :: nat) div 4096"
  "512 * (n div 1073741824) + n div 2097152 mod 512 = (n :: nat) div 2097152"
  using mult_div_mod_eq [of 512 "n div 4096"] mult_div_mod_eq [of 512 "n div 2097152"] by (simp_all add: div_mult2_eq [symmetric])

text \<open>What the tables of the kernel say: a frame, with access bits below it.\<close>

lemma plain_entry:
  assumes "a = 3 \<or> a = 7"
  shows "e_present (push_bit 12 k OR a)" "\<not> e_size (push_bit 12 k OR a)" "e_page (push_bit 12 k OR a) = take_bit 28 k"
proof -
  have b: "\<not> bit a n" if "3 \<le> n" for n
  proof -
    have "take_bit 3 a = a" using assms by auto
    then show ?thesis using that by (metis bit_take_bit_iff not_less)
  qed
  show "e_present (push_bit 12 k OR a)" using assms by (auto simp: e_present_def bit_simps)
  show "\<not> e_size (push_bit 12 k OR a)" using b by (auto simp: e_size_def bit_simps)
  show "e_page (push_bit 12 k OR a) = take_bit 28 k"
    unfolding e_page_def by (rule bit_word_eqI) (use b in \<open>auto simp: bit_simps\<close>)
qed

lemma large_entry:
  "e_present (push_bit 21 k OR LARGE_PAGE_BIT OR KERNEL_PML_ACCESS)" "e_size (push_bit 21 k OR LARGE_PAGE_BIT OR KERNEL_PML_ACCESS)"
  "drop_bit 9 (e_page (push_bit 21 k OR LARGE_PAGE_BIT OR KERNEL_PML_ACCESS)) = take_bit 19 k"
proof -
  have b: "\<not> bit (0x83 :: u64) n" if "8 \<le> n" for n
  proof -
    have "take_bit 8 (0x83 :: u64) = 0x83" by simp
    then show ?thesis using that by (metis bit_take_bit_iff not_less)
  qed
  have e: "push_bit 21 k OR LARGE_PAGE_BIT OR KERNEL_PML_ACCESS = push_bit 21 k OR 0x83" by (simp add: or.assoc)
  show "e_present (push_bit 21 k OR LARGE_PAGE_BIT OR KERNEL_PML_ACCESS)" "e_size (push_bit 21 k OR LARGE_PAGE_BIT OR KERNEL_PML_ACCESS)"
    unfolding e by (simp_all add: e_present_def e_size_def bit_simps)
  show "drop_bit 9 (e_page (push_bit 21 k OR LARGE_PAGE_BIT OR KERNEL_PML_ACCESS)) = take_bit 19 k"
    unfolding e e_page_def by (rule bit_word_eqI) (use b in \<open>auto simp: bit_simps\<close>)
qed

lemma table_entry:
  assumes "g < 134217728" and "a = 3 \<or> a = 7"
  shows "e_present (frame_base g OR a)" "\<not> e_size (frame_base g OR a)" "table_of (frame_base g OR a) = frame_ptr g"
proof -
  have "take_bit 28 (of_nat g :: u64) = of_nat g" using assms(1) by (intro take_bit_page) (simp add: unat_of_nat)
  then show "e_present (frame_base g OR a)" "\<not> e_size (frame_base g OR a)" "table_of (frame_base g OR a) = frame_ptr g"
    using plain_entry [OF assms(2)] assms(1) by (simp_all add: frame_base_def table_of_def)
qed

lemma translate_small:
  assumes "tab m p (pml4_index va) = frame_base a OR x" "tab m a (pdp_index va) = frame_base b OR y" "tab m b (pd_index va) = frame_base c OR z"
    and "a < 134217728" "b < 134217728" "c < 134217728" and "x = 3 \<or> x = 7" "y = 3 \<or> y = 7" "z = 3 \<or> z = 7"
  shows "translate p va m = (if \<not> e_present (tab m c (pt_index va)) then None
     else Some (push_bit 12 (e_page (tab m c (pt_index va))) OR take_bit 12 va))"
  using assms table_entry [OF assms(4,7)] table_entry [OF assms(5,8)] table_entry [OF assms(6,9)]
  by (simp add: translate_def tab_def entry_at_def Let_def)

lemma translate_large:
  assumes "tab m p (pml4_index va) = frame_base a OR x" "tab m a (pdp_index va) = frame_base b OR y"
    "tab m b (pd_index va) = push_bit 21 k OR LARGE_PAGE_BIT OR KERNEL_PML_ACCESS"
    and "a < 134217728" "b < 134217728" and "x = 3 \<or> x = 7" "y = 3 \<or> y = 7"
  shows "translate p va m = Some (push_bit 21 (take_bit 19 k) OR take_bit 21 va)"
  using assms table_entry [OF assms(4,6)] table_entry [OF assms(5,7)] large_entry [of k]
  by (simp add: translate_def tab_def entry_at_def Let_def)

lemma unat_in_page:
  assumes n: "n = 12 \<or> n = 21" and k: "unat (k :: u64) < 8796093022208"
  shows "unat (push_bit n k OR take_bit n va) = unat k * 2 ^ n + unat (va :: u64) mod 2 ^ n"
proof -
  have "push_bit n k AND take_bit n va = 0" by (rule bit_word_eqI) (auto simp: bit_simps)
  then have "push_bit n k OR take_bit n va = push_bit n k + take_bit n va" by (simp add: disjunctive_add_eq_or)
  moreover have "unat (take_bit n va) = unat va mod 2 ^ n" by (rule unat_take_bit)
  moreover have "unat (push_bit n k) = unat k * 2 ^ n" using n k by (auto simp: push_bit_eq_mult unat_word_ariths)
  moreover have "unat k * 2 ^ n + unat va mod 2 ^ n < 18446744073709551616"
  proof -
    have "unat va mod 2 ^ n < 2 ^ n" by simp
    moreover have "unat k * 2 ^ n + 2 ^ n \<le> 18446744073709551616" using n k by auto
    ultimately show ?thesis by linarith
  qed
  ultimately show ?thesis by (simp add: unat_word_ariths)
qed

section \<open>Where addresses lead\<close>

lemma direct_walk:
  assumes p: "unat p < 68719476736"
    and t: "tab m pml 511 = frame_base a OR KERNEL_PML_ACCESS"
      "\<And>j. j < 64 \<Longrightarrow> tab m a j = frame_base (b + j) OR KERNEL_PML_ACCESS"
      "\<And>i j. i < 64 \<Longrightarrow> j < 512 \<Longrightarrow> tab m (b + i) j =
         (push_bit 30 (of_nat i) + push_bit 21 (of_nat j)) OR LARGE_PAGE_BIT OR KERNEL_PML_ACCESS"
    and small: "a < 134217728" "b + 63 < 134217728"
  shows "translate pml (mmu_from_physical p) m = Some p"
proof -
  define P where "P = unat p"
  let ?va = "mmu_from_physical p" and ?i = "P div 1073741824" and ?j = "P div 2097152 mod 512"
  have P: "P < 68719476736" using p by (simp add: P_def)
  have va: "unat ?va = 18446743523953737728 + P"
    using p by (simp add: mmu_from_physical_add unat_word_ariths P_def)
  have "(18446743523953737728 + P) div 549755813888 = 33554431" using P by linarith
  then have ix: "pml4_index ?va = 511" unfolding index_div va by simp
  have i: "?i < 64" using P by linarith
  have "(18446743523953737728 + P) div 1073741824 = 512 * 33554431 + ?i" by linarith
  then have "pdp_index ?va = ?i mod 512" unfolding index_div va by (rule index_above)
  then have ix2: "pdp_index ?va = ?i" using i by simp
  have "(18446743523953737728 + P) div 2097152 = 512 * 17179868672 + P div 2097152" by linarith
  then have ix3: "pd_index ?va = ?j" unfolding index_div va by (rule index_above)
  let ?k = "of_nat (P div 2097152) :: u64"
  have "push_bit 30 (of_nat ?i) + push_bit 21 (of_nat ?j) = push_bit 21 (of_nat (512 * ?i + ?j) :: u64)"
    by (simp add: push_bit_eq_mult algebra_simps)
  moreover have "512 * ?i + ?j = P div 2097152" by (rule index_split)
  ultimately have e: "tab m (b + ?i) ?j = push_bit 21 ?k OR LARGE_PAGE_BIT OR KERNEL_PML_ACCESS"
    using t(3) [OF i, of ?j] by simp
  have k: "unat ?k = P div 2097152" using P by (simp add: unat_of_nat)
  have k19: "take_bit 19 ?k = ?k"
  proof -
    have "P div 2097152 < 524288" using P by linarith
    then show ?thesis by (simp add: word_unat_eq_iff unat_take_bit k)
  qed
  have "translate pml ?va m = Some (push_bit 21 (take_bit 19 ?k) OR take_bit 21 ?va)"
    by (rule translate_large [of m pml ?va a KERNEL_PML_ACCESS "b + ?i" KERNEL_PML_ACCESS])
      (use t(1) t(2) [OF i] e small i in \<open>simp_all add: ix ix2 ix3\<close>)
  moreover have "push_bit 21 ?k OR take_bit 21 ?va = p"
  proof -
    have r: "(18446743523953737728 + P) mod 2097152 = P mod 2097152" using mod_mult_self4 [of 2097152 8796092760064 P] by simp
    have "unat (push_bit 21 ?k OR take_bit 21 ?va) = unat ?k * 2 ^ 21 + unat ?va mod 2 ^ 21"
      by (rule unat_in_page) (use k P in simp_all)
    also have "\<dots> = P" using r unfolding k va by simp
    finally show ?thesis by (simp add: P_def word_unat_eq_iff)
  qed
  ultimately show ?thesis by (simp add: k19)
qed

lemma page_walk:
  assumes t: "tab m pml (pml4_index va) = frame_base a OR x" "tab m a (pdp_index va) = frame_base b OR y"
      "tab m b (pd_index va) = frame_base c OR z" "tab m c (pt_index va) = push_bit 12 (of_nat k) OR KERNEL_PML_ACCESS"
    and small: "a < 134217728" "b < 134217728" "c < 134217728" "x = 3 \<or> x = 7" "y = 3 \<or> y = 7" "z = 3 \<or> z = 7"
    and k: "k < 268435456" and r: "unat r = 4096 * k + unat va mod 4096"
  shows "translate pml va m = Some r"
proof -
  have u: "unat (of_nat k :: u64) = k" using k by (simp add: unat_of_nat)
  have k28: "take_bit 28 (of_nat k :: u64) = of_nat k" using k by (simp add: word_unat_eq_iff unat_take_bit u)
  have "unat (push_bit 12 (of_nat k) OR take_bit 12 va) = unat r"
    using unat_in_page [of 12 "of_nat k" va] k u r by simp
  then have "push_bit 12 (of_nat k) OR take_bit 12 va = r" by (simp add: word_unat_eq_iff)
  then show ?thesis
    using translate_small [OF t(1-3) small] plain_entry [of KERNEL_PML_ACCESS "of_nat k"] by (simp add: t(4) k28)
qed

lemma low_tables_of:
  assumes "unat image_end \<le> 67108864"
  shows "low_tables image_end = (unat image_end + 2097151) div 2097152"
proof -
  have r: "(image_end + 0xFFF) AND 0xFFFFFFFFFFFFF000 = page_round image_end" by (simp add: page_round_def)
  have u: "unat (page_round image_end) = 4096 * ((unat image_end + 4095) div 4096)" using assms by (simp add: unat_page_round)
  define q where "q = (unat image_end + 4095) div 4096"
  have d: "unat (drop_bit 12 (page_round image_end)) = q" using u by (simp add: unat_drop_bit q_def)
  have q: "q \<le> 16384" using assms unfolding q_def by linarith
  have "unat (drop_bit 12 (page_round image_end) + 0x1FF) = q + 511" using d q by (simp add: unat_word_ariths)
  then have "low_tables image_end = (q + 511) div 512" by (simp add: low_tables_def Let_def r unat_drop_bit)
  also have "\<dots> = (unat image_end + 2097151) div 2097152" unfolding q_def by linarith
  finally show ?thesis .
qed

lemma table_pages_of:
  assumes "unat mem_size \<le> 68719476736"
  shows "unat (frame_bytes (drop_bit 12 mem_size)) = 4096 * table_pages mem_size" and "table_pages mem_size \<le> 1024"
proof -
  have n: "unat (drop_bit 12 mem_size) \<le> 16777216" using assms by (simp add: unat_drop_bit)
  then have f: "unat (frame_bytes (drop_bit 12 mem_size)) = 4096 * ((unat (drop_bit 12 mem_size) div 4 + 4095) div 4096)"
    by (simp add: unat_frame_bytes)
  then show "unat (frame_bytes (drop_bit 12 mem_size)) = 4096 * table_pages mem_size" "table_pages mem_size \<le> 1024"
    using n by (simp_all add: table_pages_def unat_drop_bit)
qed

lemma heap_walk:
  assumes d: "unat d < unat (frame_bytes (drop_bit 12 mem_size))"
    and memory: "unat mem_size \<le> 68719476736" and first: "unat first_page \<le> 549755813888"
    and t: "tab m pml 510 = frame_base a OR KERNEL_PML_ACCESS" "tab m a 0 = frame_base b OR KERNEL_PML_ACCESS"
      "\<And>j. j < 3 \<Longrightarrow> tab m b j = frame_base (c + j) OR KERNEL_PML_ACCESS"
      "\<And>i j. i < 3 \<Longrightarrow> j < 512 \<Longrightarrow> 512 * i + j < table_pages mem_size \<Longrightarrow> tab m (c + i) j =
         (page_round first_page + push_bit 12 (of_nat (512 * i + j))) OR KERNEL_PML_ACCESS"
    and small: "a < 134217728" "b < 134217728" "c + 2 < 134217728"
  shows "translate pml (KERNEL_HEAP_START + d) m = Some (page_round first_page + d)"
proof -
  define D where "D = unat d"
  let ?va = "KERNEL_HEAP_START + d" and ?i = "D div 2097152" and ?j = "D div 4096 mod 512" and ?c = "(unat first_page + 4095) div 4096"
  note fp = table_pages_of [OF memory]
  have D: "D < 4096 * table_pages mem_size" "D < 4194304" using d fp by (simp_all add: D_def)
  have va: "unat ?va = 18446742974197923840 + D" using D by (simp add: unat_word_ariths D_def)
  have "(18446742974197923840 + D) div 549755813888 = 33554430" using D(2) by linarith
  then have i4: "pml4_index ?va = 510" unfolding index_div va by simp
  have "(18446742974197923840 + D) div 1073741824 = 17179868160" using D(2) by linarith
  then have i3: "pdp_index ?va = 0" unfolding index_div va by simp
  have "(18446742974197923840 + D) div 2097152 = 512 * 17179868160 + ?i" by linarith
  then have "pd_index ?va = ?i mod 512" unfolding index_div va by (rule index_above)
  moreover have "?i < 3" using D(2) by linarith
  ultimately have i2: "pd_index ?va = ?i" by simp
  have "(18446742974197923840 + D) div 4096 = 512 * 8796092497920 + D div 4096" by linarith
  then have i1: "pt_index ?va = ?j" unfolding index_div va by (rule index_above)
  have s: "512 * ?i + ?j = D div 4096" by (rule index_split)
  have i: "?i < 3" "D div 4096 < table_pages mem_size" using D by linarith+
  have round: "page_round first_page = push_bit 12 (of_nat ?c)"
    using first by (simp add: word_unat_eq_iff unat_page_round push_bit_eq_mult unat_word_ariths unat_of_nat)
  have "tab m (c + ?i) ?j = (page_round first_page + push_bit 12 (of_nat (D div 4096))) OR KERNEL_PML_ACCESS"
    using t(4) [OF i(1), of ?j] i(2) unfolding s by simp
  then have e: "tab m (c + ?i) ?j = push_bit 12 (of_nat (?c + D div 4096)) OR KERNEL_PML_ACCESS"
    by (simp add: round push_bit_eq_mult algebra_simps)
  have c: "?c \<le> 134217728" using first by linarith
  have r: "unat (page_round first_page + d) = 4096 * ?c + D"
    using first D(2) c by (simp add: unat_word_ariths unat_page_round D_def)
  show ?thesis
  proof (rule page_walk [of m pml ?va a KERNEL_PML_ACCESS b KERNEL_PML_ACCESS "c + ?i" KERNEL_PML_ACCESS "?c + D div 4096"])
    show "unat (page_round first_page + d) = 4096 * (?c + D div 4096) + unat ?va mod 4096"
    proof -
      have "(18446742974197923840 + D) mod 4096 = D mod 4096"
        using mod_mult_self4 [of 4096 4503599358935040 D] by simp
      then show ?thesis unfolding r va using mult_div_mod_eq [of 4096 D] by (simp only: distrib_left add.assoc)
    qed
  qed (use t(1,2) t(3) [OF i(1)] e small i c D in \<open>simp_all add: i4 i3 i2 i1\<close>)
qed

lemma low_walk:
  assumes va: "unat va < 67108864" "unat va div 2097152 < n"
    and t: "tab m pml 0 = frame_base a OR USER_PML_ACCESS" "tab m a 0 = frame_base (a + 1) OR USER_PML_ACCESS"
      "\<And>j. j < n \<Longrightarrow> tab m (a + 1) j = frame_base (a + (j + 2)) OR KERNEL_PML_ACCESS"
      "\<And>i j. i < n \<Longrightarrow> j < 512 \<Longrightarrow> tab m (a + (i + 2)) j =
         (if i = 0 \<and> j = 0 then 0 else (0x200000 * of_nat i + 0x1000 * of_nat j) OR KERNEL_PML_ACCESS)"
    and small: "a + 33 < 134217728"
  shows "translate pml va m = (if unat va < 4096 then None else Some va)"
proof -
  define V where "V = unat va"
  let ?i = "V div 2097152" and ?j = "V div 4096 mod 512"
  have V: "V < 67108864" "?i < n" using va by (simp_all add: V_def)
  have i4: "pml4_index va = 0" unfolding index_div V_def [symmetric] using V(1) by simp
  have i3: "pdp_index va = 0" unfolding index_div V_def [symmetric] using V(1) by simp
  have i32: "?i < 32" using V(1) by linarith
  then have i2: "pd_index va = ?i" unfolding index_div V_def [symmetric] by simp
  have i1: "pt_index va = ?j" unfolding index_div V_def [symmetric] by simp
  have g: "a < 134217728" "a + 1 < 134217728" "a + (?i + 2) < 134217728" using small i32 by simp_all
  show ?thesis
  proof (cases "V < 4096")
    case True
    then have z: "?i = 0" "?j = 0" by simp_all
    then have "tab m (a + (?i + 2)) ?j = 0" using t(4) [OF V(2), of ?j] by simp
    then have "translate pml va m = None"
      using translate_small [of m pml va a USER_PML_ACCESS "a + 1" USER_PML_ACCESS "a + (?i + 2)" KERNEL_PML_ACCESS]
        t(1,2) t(3) [OF V(2)] g unfolding i4 i3 i2 i1 by simp
    then show ?thesis using True by (simp add: V_def)
  next
    case False
    have s: "512 * ?i + ?j = V div 4096" by (rule index_split)
    have "\<not> (?i = 0 \<and> ?j = 0)"
    proof
      assume "?i = 0 \<and> ?j = 0"
      then have "V div 4096 = 0" using s by simp
      with False show False by simp
    qed
    then have "tab m (a + (?i + 2)) ?j = (0x200000 * of_nat ?i + 0x1000 * of_nat ?j) OR KERNEL_PML_ACCESS"
      using t(4) [OF V(2), of ?j] by (simp only: if_False mod_less_divisor zero_less_numeral simp_thms)
    also have "0x200000 * of_nat ?i + 0x1000 * of_nat ?j = push_bit 12 (of_nat (512 * ?i + ?j) :: u64)"
      by (simp add: push_bit_eq_mult algebra_simps del: of_nat_div of_nat_mod)
    finally have e: "tab m (a + (?i + 2)) ?j = push_bit 12 (of_nat (V div 4096)) OR KERNEL_PML_ACCESS" unfolding s .
    have "translate pml va m = Some va"
    proof (rule page_walk [of m pml va a USER_PML_ACCESS "a + 1" USER_PML_ACCESS "a + (?i + 2)" KERNEL_PML_ACCESS "V div 4096"])
      show "unat va = 4096 * (V div 4096) + unat va mod 4096" by (simp add: V_def)
    qed (use t(1,2) t(3) [OF V(2)] e g V in \<open>simp_all only: i4 i3 i2 i1, simp_all\<close>)
    then show ?thesis using False by (simp add: V_def)
  qed
qed

text \<open>
  C7. The tables with which the kernel starts. The direct map shows all of the first 64 GiB; the
  kernel's heap starts with the frame table, at the first free page; the kernel's image is where it
  has been loaded, but for the first page, so that a null pointer faults.
\<close>

theorem boot_translate:
  assumes ap: "tables_apart bt" and image: "0 < unat (t_end bt)" "unat (t_end bt) \<le> 67108864"
    and memory: "unat mem_size \<le> 68719476736" and first: "unat first_page \<le> 549755813888"
  shows "\<exists>m'. init_tables bt mem_size first_page m = Some m' \<and>
    (\<forall>p. unat p < 68719476736 \<longrightarrow> translate (t_initial bt) (mmu_from_physical p) m' = Some p) \<and>
    (\<forall>d. unat d < unat (frame_bytes (drop_bit 12 mem_size)) \<longrightarrow>
       translate (t_initial bt) (KERNEL_HEAP_START + d) m' = Some (page_round first_page + d)) \<and>
    (\<forall>va. 4096 \<le> unat va \<and> unat va < unat (t_end bt) \<longrightarrow> translate (t_initial bt) va m' = Some va) \<and>
    (\<forall>va. unat va < 4096 \<longrightarrow> translate (t_initial bt) va m' = None)"
proof -
  let ?n = "low_tables (t_end bt)"
  have n: "?n = (unat (t_end bt) + 2097151) div 2097152" by (rule low_tables_of [OF image(2)])
  have n32: "?n \<le> 32" "0 < ?n" unfolding n using image by linarith+
  note fp = table_pages_of [OF memory]
  have fp1: "table_pages mem_size \<le> 1536" using fp(2) by simp
  obtain m' where run: "init_tables bt mem_size first_page m = Some m'" and
    t: "tab m' (t_initial bt) 0 = frame_base (t_low bt) OR USER_PML_ACCESS"
    "tab m' (t_initial bt) 510 = frame_base (t_heap_pml bt) OR KERNEL_PML_ACCESS"
    "tab m' (t_initial bt) 511 = frame_base (t_high bt) OR KERNEL_PML_ACCESS"
    "\<And>j. j < 64 \<Longrightarrow> tab m' (t_high bt) j = frame_base (t_twom bt + j) OR KERNEL_PML_ACCESS"
    "\<And>i j. i < 64 \<Longrightarrow> j < 512 \<Longrightarrow> tab m' (t_twom bt + i) j =
       (push_bit 30 (of_nat i) + push_bit 21 (of_nat j)) OR LARGE_PAGE_BIT OR KERNEL_PML_ACCESS"
    "tab m' (t_heap_pml bt) 0 = frame_base (t_heap_pd bt) OR KERNEL_PML_ACCESS"
    "\<And>j. j < 3 \<Longrightarrow> tab m' (t_heap_pd bt) j = frame_base (t_heap_pt bt + j) OR KERNEL_PML_ACCESS"
    "\<And>i j. i < 3 \<Longrightarrow> j < 512 \<Longrightarrow> 512 * i + j < table_pages mem_size \<Longrightarrow> tab m' (t_heap_pt bt + i) j =
       (page_round first_page + push_bit 12 (of_nat (512 * i + j))) OR KERNEL_PML_ACCESS"
    "tab m' (t_low bt) 0 = frame_base (t_low bt + 1) OR USER_PML_ACCESS"
    "\<And>j. j < ?n \<Longrightarrow> tab m' (t_low bt + 1) j = frame_base (t_low bt + (j + 2)) OR KERNEL_PML_ACCESS"
    "\<And>i j. i < ?n \<Longrightarrow> j < 512 \<Longrightarrow> tab m' (t_low bt + (i + 2)) j =
       (if i = 0 \<and> j = 0 then 0 else (0x200000 * of_nat i + 0x1000 * of_nat j) OR KERNEL_PML_ACCESS)"
    by (rule init_tables_entries [OF ap n32(1) fp1, of first_page m]) (rule that)
  note small = tables_low [OF ap]
  have direct: "translate (t_initial bt) (mmu_from_physical p) m' = Some p" if "unat p < 68719476736" for p
    by (rule direct_walk [OF that t(3,4,5) small(2)]) (use small(7) [of 63] in simp_all)
  have heap: "translate (t_initial bt) (KERNEL_HEAP_START + d) m' = Some (page_round first_page + d)"
    if d: "unat d < unat (frame_bytes (drop_bit 12 mem_size))" for d
    by (rule heap_walk [OF d memory first t(2,6,7,8) small(3,4)]) (use small(5) [of 2] in simp_all)
  have low: "translate (t_initial bt) va m' = (if unat va < 4096 then None else Some va)"
    if va: "unat va < unat (t_end bt) \<or> unat va < 4096" for va
    by (rule low_walk [OF _ _ t(1,9,10,11)]) (use va n n32 image small(6) [of 33] in auto)
  show ?thesis using run direct heap low by auto
qed

definition example_tables :: boot_tables where
  "example_tables = \<lparr>t_initial = 256, t_high = 259, t_heap_pml = 260, t_heap_pd = 261, t_heap_pt = 262, t_low = 265,
     t_twom = 299, t_end = 0x180000\<rparr>"

lemma boot_translate_witness:
  "\<exists>m'. init_tables example_tables 0x10000000 0x180000 (paged_mmu 0 0) = Some m' \<and>
    translate 256 0xFFFFFF80000B8000 m' = Some 0xB8000 \<and> translate 256 0x100000 m' = Some 0x100000 \<and> translate 256 0 m' = None"
proof -
  have "tables_apart example_tables" by (simp add: tables_apart_def runs_def example_tables_def)
  from boot_translate [OF this, where mem_size = "0x10000000" and first_page = "0x180000" and m = "paged_mmu 0 0"] obtain m' where
    run: "init_tables example_tables 0x10000000 0x180000 (paged_mmu 0 0) = Some m'" and
    d: "\<forall>p. unat p < 68719476736 \<longrightarrow> translate (t_initial example_tables) (mmu_from_physical p) m' = Some p" and
    l: "\<forall>va. 4096 \<le> unat va \<and> unat va < unat (t_end example_tables) \<longrightarrow> translate (t_initial example_tables) va m' = Some va"
      "\<forall>va. unat va < 4096 \<longrightarrow> translate (t_initial example_tables) va m' = None"
    by (auto simp: example_tables_def)
  have "mmu_from_physical 0xB8000 = 0xFFFFFF80000B8000" by (simp add: mmu_from_physical_def)
  then have "translate (t_initial example_tables) 0xFFFFFF80000B8000 m' = Some 0xB8000" using d [rule_format, of "0xB8000"] by simp
  moreover have "translate (t_initial example_tables) 0x100000 m' = Some 0x100000"
    using l(1) [rule_format, of "0x100000"] by (simp add: example_tables_def)
  moreover have "translate (t_initial example_tables) 0 m' = None" using l(2) [rule_format, of 0] by simp
  ultimately show ?thesis using run by (auto simp: example_tables_def)
qed

end
