(* ===== verification/Bootfs.thy ===== *)
theory Bootfs
  imports Vfs
begin

unbundle bit_operations_syntax

text \<open>
  The root file system: \<open>copy_directory\<close> of \<open>kernel/kmain.c\<close>, which copies the RAM disk into tmpfs,
  and the calls of \<open>kmain\<close> that make the first directories and mount the devices. The messages are
  left out. \<open>junk\<close> is what the 1024 bytes of the buffer hold at first, \<open>c\<close> the current process.
\<close>

section \<open>One file\<close>

text \<open>
  The inner loop writes what one read gave; after a short write it goes on with the first bytes of
  the buffer again. The flag is false when the copy was given up.
\<close>

partial_function (option) write_all :: "fs_node \<Rightarrow> nat \<Rightarrow> nat \<Rightarrow> nat \<Rightarrow> u8 list \<Rightarrow> vfs \<Rightarrow> (vfs \<times> bool) option" where
  "write_all target offset to_copy to_write buf v =
     (if to_write = 0 then Some (v, True)
      else do {
        (v, written) \<leftarrow> write_fs target (sub64 (add64 offset to_copy) to_write) to_write buf v;
        if written > to_write then Some (v, False)
        else write_all target offset to_copy (to_write - written) buf v })"

partial_function (option) copy_data :: "fs_node \<Rightarrow> fs_node \<Rightarrow> nat \<Rightarrow> nat \<Rightarrow> u8 list \<Rightarrow> vfs \<Rightarrow> (vfs \<times> bool) option" where
  "copy_data node target offset remaining buf v =
     (if remaining = 0 then Some (v, True)
      else do {
        (v, buf, to_copy) \<leftarrow> read_fs node offset (min remaining 1024) buf v;
        if to_copy > 1024 \<or> to_copy > remaining then Some (v, False)
        else do {
          (v, ok) \<leftarrow> write_all target offset to_copy to_copy buf v;
          if ok then copy_data node target (add64 offset to_copy) (remaining - to_copy) buf v else Some (v, False) } })"

definition copy_file :: "u8 list \<Rightarrow> cred \<Rightarrow> fs_node \<Rightarrow> fs_node \<Rightarrow> vfs \<Rightarrow> vfs option" where
  "copy_file junk c to node v = do {
     (v, result) \<leftarrow> create_fs c to (n_name node) 0x1FF v;
     if result \<noteq> 0 then Some v
     else do {
       target \<leftarrow> finddir_fs to (n_name node) v;
       (case target of None \<Rightarrow> Some v
        | Some target \<Rightarrow> do {
            (v, _) \<leftarrow> copy_data node target 0 (unat (n_length node)) junk (open_fs target 0 v);
            close_fs target v }) } }"

section \<open>Directories\<close>

partial_function (option) copy_entries :: "u8 list \<Rightarrow> cred \<Rightarrow> fs_node \<Rightarrow> fs_node \<Rightarrow> nat \<Rightarrow> vfs \<Rightarrow> vfs option" where
  "copy_entries junk c to from i v = do {
     dirent \<leftarrow> readdir_fs from i v;
     (case dirent of None \<Rightarrow> Some v
      | Some d \<Rightarrow> do {
          found \<leftarrow> finddir_fs from (d_name d) v;
          v \<leftarrow> (case found of None \<Rightarrow> Some v
            | Some node \<Rightarrow> do {
                let v = open_fs node 0 v;
                v \<leftarrow> (if n_flags node AND FS_FILE \<noteq> 0 then copy_file junk c to node v
                  else if n_flags node AND FS_DIRECTORY \<noteq> 0 then do {
                    (v, result) \<leftarrow> mkdir_fs c to (n_name node) 0x1FF v;
                    if result \<noteq> 0 then Some v
                    else do {
                      target \<leftarrow> finddir_fs to (n_name node) v;
                      (case target of None \<Rightarrow> Some v
                       | Some target \<Rightarrow> do {
                           v \<leftarrow> copy_entries junk c target node 0 (open_fs target 0 v);
                           close_fs target v }) } }
                  else Some v);
                close_fs node v });
          copy_entries junk c to from (add64 i 1) v }) }"

definition copy_directory :: "u8 list \<Rightarrow> cred \<Rightarrow> fs_node option \<Rightarrow> fs_node option \<Rightarrow> vfs \<Rightarrow> vfs option" where
  "copy_directory junk c to from v = (case to of None \<Rightarrow> Some v
     | Some to \<Rightarrow> (case from of None \<Rightarrow> Some v | Some from \<Rightarrow> copy_entries junk c to from 0 v))"

text \<open>The file system part of \<open>kmain\<close>, up to the first pseudo terminal.\<close>

definition mount_root :: "u8 list \<Rightarrow> cred \<Rightarrow> vfs \<Rightarrow> vfs option" where
  "mount_root junk c v = do {
     let v = vfs_init v;
     ramdisk_root \<leftarrow> ramdiskfs_open (v_ramdisk v);
     let (t, root) = tmpfs_create ''/'' (v_tmpfs v);
     copy_directory junk c (Some root) ramdisk_root (v\<lparr>v_tmpfs := t, v_root := Some root\<rparr>) }"

definition make_devices :: "cred \<Rightarrow> vfs \<Rightarrow> vfs option" where
  "make_devices c v = do {
     (v, _) \<leftarrow> mkdir c ''/tmp'' 0x1FF v;
     (v, _) \<leftarrow> mkdir c ''/dev'' 0 v;
     v \<leftarrow> zerofs_mount c v;
     pty_init c v }"

section \<open>Copying keeps the contents\<close>

text \<open>A file of the RAM disk whose header lies at \<open>e\<close> and whose contents are \<open>data\<close>.\<close>

definition rd_file :: "u8 list \<Rightarrow> nat \<Rightarrow> u8 list \<Rightarrow> bool" where
  "rd_file img e data \<longleftrightarrow> hdr_signature img = Some RDFS_SIGNATURE \<and> e < 4294967296 \<and> length data < 4294967296 \<and>
     ent_size img e = Some (length data) \<and> (\<exists>eo. ent_offset img e = Some eo \<and> mem_read img (eo + 275) (length data) = Some data)"

lemma ramdiskfs_read_file:
  assumes f: "rd_file (rd_image rd) e data" and node: "n_device node = Dev_ramdisk False" "n_context node = of_nat e"
    and off: "offset \<le> length data" and sz: "sz < 4294967296" and n: "n = min sz (length data - offset)" "n \<le> length buf"
  shows "ramdiskfs_read node offset sz buf rd = Some (take n (drop offset data) @ drop n buf, n)"
proof -
  let ?img = "rd_image rd"
  from f obtain eo where eo: "ent_offset ?img e = Some eo" "mem_read ?img (eo + 275) (length data) = Some data"
    and r: "hdr_signature ?img = Some RDFS_SIGNATURE" "ent_size ?img e = Some (length data)" "e < 4294967296" "length data < 4294967296"
    by (auto simp: rd_file_def)
  have e: "rd_current_entry node ?img = Some e"
    using node r(3) by (simp add: rd_current_entry_def unsigned_ucast_eq unat_of_nat take_bit_eq_mod)
  have s: "(if add64 offset sz > length data then length data - offset else sz) = n"
    using off sz n r(4) by (auto simp: add64_id min_def)
  have len: "eo + 275 + length data \<le> length ?img" "take (length data) (drop (eo + 275) ?img) = data"
    using eo(2) by (simp_all add: mem_read_def split: if_splits)
  have "take n (drop (offset + (eo + 275)) ?img) = take n (drop offset data)"
  proof -
    have "take n (drop offset data) = take n (drop offset (take (length data) (drop (eo + 275) ?img)))" using len(2) by simp
    also have "\<dots> = take n (drop (offset + (eo + 275)) ?img)"
      using n(1) off by (simp add: drop_take take_take min_def add.commute)
    finally show ?thesis by simp
  qed
  then have rd: "mem_read ?img (offset + eo + 275) n = Some (take n (drop offset data))"
    using n(1) off len(1) by (simp add: mem_read_def add.assoc)
  have ln: "length (take n (drop offset data)) = n" using n(1) by simp
  show ?thesis
    using r e s eo rd n(2) off unfolding ramdiskfs_read_def Let_def
    by (simp add: mem_write_def ln del: length_take length_drop)
qed

text \<open>The copy in progress: \<open>done\<close> bytes of the file are in the new object \<open>i\<close>.\<close>

definition copying :: "vfs \<Rightarrow> nat \<Rightarrow> u8 list \<Rightarrow> nat \<Rightarrow> vfs \<Rightarrow> bool" where
  "copying v0 i data n v \<longleftrightarrow> v\<lparr>v_tmpfs := v_tmpfs v0\<rparr> = v0 \<and>
     (\<forall>j. j \<noteq> i \<longrightarrow> t_objs (v_tmpfs v) j = t_objs (v_tmpfs v0) j) \<and> fr_ok (t_mmu (v_tmpfs v)) \<and> low_ok (t_mmu (v_tmpfs v)) \<and>
     (\<exists>f. get_file i (v_tmpfs v) = Some f \<and> file_ok (v_tmpfs v) f \<and> f_length f = n \<and> file_bytes (v_tmpfs v) f = take n data \<and>
        f_name f = name_of (v_tmpfs v0) i \<and> nframes (t_mmu (v_tmpfs v)) = nframes (t_mmu (v_tmpfs v0)) \<and>
        used (t_mmu (v_tmpfs v)) = used (t_mmu (v_tmpfs v0)) \<union> unat ` set (f_blocks f) \<and>
        unat ` set (f_blocks f) \<inter> used (t_mmu (v_tmpfs v0)) = {} \<and> foreign_kept (t_mmu (v_tmpfs v0)) [] (t_mmu (v_tmpfs v)) \<and>
        Suc (length data div 4096) \<le> length (f_blocks f) + card (spare (t_mmu (v_tmpfs v))))"

lemma write_all_ok:
  assumes cp: "copying v0 i data off v" and t: "n_write target = Some Write_tmpfs" "n_device target = Dev_tmpfs i"
    and n: "off + n \<le> length data" "take n buf = take n (drop off data)" "n \<le> length buf" "length data < 4294967296"
  shows "\<exists>v'. write_all target off n n buf v = Some (v', True) \<and> copying v0 i data (off + n) v'"
proof (cases "n = 0")
  case True
  then show ?thesis using cp by (simp add: write_all.simps)
next
  case False
  let ?t = "v_tmpfs v"
  from cp obtain f where f: "get_file i ?t = Some f" "file_ok ?t f" "f_length f = off" "file_bytes ?t f = take off data"
    "f_name f = name_of (v_tmpfs v0) i" "Suc (length data div 4096) \<le> length (f_blocks f) + card (spare (t_mmu ?t))"
    "nframes (t_mmu ?t) = nframes (t_mmu (v_tmpfs v0))" "used (t_mmu ?t) = used (t_mmu (v_tmpfs v0)) \<union> unat ` set (f_blocks f)"
    "unat ` set (f_blocks f) \<inter> used (t_mmu (v_tmpfs v0)) = {}" "foreign_kept (t_mmu (v_tmpfs v0)) [] (t_mmu ?t)"
    and ok: "fr_ok (t_mmu ?t)" "low_ok (t_mmu ?t)" "v\<lparr>v_tmpfs := v_tmpfs v0\<rparr> = v0"
    "\<forall>j. j \<noteq> i \<longrightarrow> t_objs ?t j = t_objs (v_tmpfs v0) j"
    unfolding copying_def by blast
  have "(off + n) div 4096 \<le> length data div 4096" using n(1) by (rule div_le_mono)
  then have cap: "Suc ((off + n) div 4096) \<le> length (f_blocks f) + card (spare (t_mmu ?t))" using f(6) by simp
  have small: "off + n < 9223372036854775808" using n(1,4) by simp
  have "off \<le> f_length f" using f(3) by simp
  from write_tmpfs_bytes [OF ok(1,2) t(2) f(1,2) this small n(3) cap] obtain t' f'
    where w: "write_tmpfs target off n buf ?t = Some (t', n)" "get_file i t' = Some f'" "file_ok t' f'" "fr_ok (t_mmu t')" "low_ok (t_mmu t')"
      "file_bytes t' f' = take off (file_bytes ?t f) @ take n buf @ drop (off + n) (file_bytes ?t f)"
      "\<forall>j. j \<noteq> i \<longrightarrow> t_objs t' j = t_objs ?t j" "f_name f' = f_name f"
      "length (f_blocks f) + card (spare (t_mmu ?t)) \<le> length (f_blocks f') + card (spare (t_mmu t'))"
      and fk: "foreign_kept (t_mmu ?t) (f_blocks f) (t_mmu t')" "nframes (t_mmu t') = nframes (t_mmu ?t)"
      and nb: "\<exists>nb. f_blocks f' = f_blocks f @ nb \<and> unat ` set nb \<inter> used (t_mmu ?t) = {} \<and> used (t_mmu t') = used (t_mmu ?t) \<union> unat ` set nb"
    by (elim exE conjE) (rule that, assumption+, blast)
  let ?v = "v\<lparr>v_tmpfs := t'\<rparr>"
  have bytes: "file_bytes t' f' = take (off + n) data" using w(6) f(4) n(1,2) by (simp add: take_add)
  then have len: "f_length f' = off + n" using n(1) by (metis file_bytes_def length_segment diff_zero length_take min_absorb2)
  have us: "used (t_mmu t') = used (t_mmu (v_tmpfs v0)) \<union> unat ` set (f_blocks f')" "unat ` set (f_blocks f') \<inter> used (t_mmu (v_tmpfs v0)) = {}"
  proof -
    from nb obtain nb where b: "f_blocks f' = f_blocks f @ nb" and n: "unat ` set nb \<inter> used (t_mmu ?t) = {}"
      "used (t_mmu t') = used (t_mmu ?t) \<union> unat ` set nb" by (elim exE conjE) (rule that)
    have u: "unat ` set (f_blocks f') = unat ` set (f_blocks f) \<union> unat ` set nb" by (simp add: b image_Un)
    show "used (t_mmu t') = used (t_mmu (v_tmpfs v0)) \<union> unat ` set (f_blocks f')" unfolding u n(2) f(8) by (simp only: Un_assoc)
    have "unat ` set nb \<inter> used (t_mmu (v_tmpfs v0)) = {}" using n(1) unfolding f(8) by (simp only: Int_Un_distrib Un_empty)
    then show "unat ` set (f_blocks f') \<inter> used (t_mmu (v_tmpfs v0)) = {}" using f(9) unfolding u by (simp only: Int_Un_distrib2 Un_empty)
  qed
  have kept: "foreign_kept (t_mmu (v_tmpfs v0)) [] (t_mmu t')"
    unfolding foreign_kept_def
  proof (intro allI impI)
    fix g x
    assume g: "g \<in> used (t_mmu (v_tmpfs v0))" "g < nframes (t_mmu (v_tmpfs v0))" "in_range x (frame_ptr g) 4096"
    then have "g \<in> used (t_mmu ?t)" "g < nframes (t_mmu ?t)" "g \<notin> unat ` set (f_blocks f)" using f(7-9) by auto
    then have "kmem (t_mmu t') x = kmem (t_mmu ?t) x" using fk(1) g(3) unfolding foreign_kept_def by blast
    also have "\<dots> = kmem (t_mmu (v_tmpfs v0)) x" using f(10) g unfolding foreign_kept_def by simp
    finally show "kmem (t_mmu t') x = kmem (t_mmu (v_tmpfs v0)) x" .
  qed
  have "v\<lparr>v_tmpfs := t'\<rparr>\<lparr>v_tmpfs := v_tmpfs v0\<rparr> = v0" using ok(3) by simp
  moreover have "\<forall>j. j \<noteq> i \<longrightarrow> t_objs t' j = t_objs (v_tmpfs v0) j" using ok(4) w(7) by simp
  moreover have "f_name f' = name_of (v_tmpfs v0) i" "Suc (length data div 4096) \<le> length (f_blocks f') + card (spare (t_mmu t'))"
    "nframes (t_mmu t') = nframes (t_mmu (v_tmpfs v0))"
    using w(8,9) f(5,6,7) fk(2) by simp_all
  ultimately have "copying v0 i data (off + n) ?v"
    unfolding copying_def using w(2-5) bytes len us kept by simp
  moreover have "write_all target off n n buf v = Some (?v, True)"
  proof -
    have "sub64 (add64 off n) n = off" using n(1,4) by (simp add: add64_id sub64_id)
    then show ?thesis using False t(1) w(1)
      by (simp add: write_all.simps [of target off n n] write_all.simps [of target off n 0] write_fs_def on_tmpfs_def)
  qed
  ultimately show ?thesis by blast
qed

lemma copy_data_ok:
  assumes "copying v0 i data off v" and "remaining = length data - off" and "off \<le> length data"
    and src: "rd_file (rd_image (v_ramdisk v0)) e data" "n_read node = Some Read_ramdiskfs" "n_device node = Dev_ramdisk False"
      "n_context node = of_nat e"
    and target: "n_write target = Some Write_tmpfs" "n_device target = Dev_tmpfs i"
    and "length buf = 1024"
  shows "\<exists>v'. copy_data node target off remaining buf v = Some (v', True) \<and> copying v0 i data (length data) v'"
  using assms(1,2,3,10)
proof (induction remaining arbitrary: off buf v rule: less_induct)
  case (less remaining)
  have small: "length data < 4294967296" using src(1) by (simp add: rd_file_def)
  show ?case
  proof (cases "remaining = 0")
    case True
    then show ?thesis using less.prems by (simp add: copy_data.simps)
  next
    case False
    define n where "n = min remaining 1024"
    let ?buf = "take n (drop off data) @ drop n buf"
    have n: "n \<noteq> 0" "n \<le> remaining" "n \<le> 1024" "n \<le> length buf" "off + n \<le> length data"
      using False less.prems by (auto simp: n_def)
    have lb: "length ?buf = 1024" "take n ?buf = take n (drop off data)" using n less.prems by simp_all
    have "v_ramdisk v = v_ramdisk v0" using less.prems(1) by (auto simp: copying_def) (metis vfs.select_convs(3) vfs.surjective vfs.update_convs(1))
    then have rd: "read_fs node off n buf v = Some (v, ?buf, n)"
      using ramdiskfs_read_file [OF _ src(3,4), of "v_ramdisk v" data off n n buf] src(1,2) n small less.prems
      by (simp add: read_fs_def min_def)
    from write_all_ok [OF less.prems(1) target n(5) lb(2)] lb(1) n(3) small obtain v1
      where v1: "write_all target off n n ?buf v = Some (v1, True)" "copying v0 i data (off + n) v1" by auto
    have "remaining - n < remaining" "remaining - n = length data - (off + n)" using n less.prems by simp_all
    from less.IH [OF this(1) v1(2) this(2) n(5) lb(1)] obtain v'
      where v': "copy_data node target (off + n) (remaining - n) ?buf v1 = Some (v', True)" "copying v0 i data (length data) v'"
      by (elim exE conjE)
    have "add64 off n = off + n" using n(5) small by (simp add: add64_id)
    then have "copy_data node target off remaining buf v = Some (v', True)"
      using False n rd v1(1) v'(1) by (simp add: copy_data.simps [of node target off remaining] flip: n_def)
    then show ?thesis using v'(2) by blast
  qed
qed

lemma dir_look_file:
  assumes "\<forall>j. j \<noteq> i \<longrightarrow> t_objs t' j = t_objs t j" and "get_file i t' = Some f" and "f_name f = name_of t i" and "i \<noteq> di"
  shows "dir_look di t' = dir_look di t"
proof -
  have "t_objs t' i = Some (File f)" using assms(2) by (auto simp: get_file_def split: option.splits tmpfs_obj.splits)
  then have "name_of t' j = name_of t j" for j
    using assms(1,3) by (cases "j = i") (simp_all add: name_of_def obj_name_def)
  then have "name_of t' = name_of t" by (rule ext)
  moreover have "get_dir di t' = get_dir di t" using assms(1,4) by (simp add: get_dir_def)
  ultimately show ?thesis unfolding dir_look_def by (simp cong: option.case_cong)
qed

text \<open>
  C8. Copying a file of the RAM disk into a directory of tmpfs that has no entry of its name adds
  exactly that entry, and the new file has the same bytes, whatever the length and however the
  contents fall into the buffer. Its blocks are frames that were free, and exactly these become used;
  every object other than the directory and the new file is kept, with the contents of every other file,
  and nothing outside tmpfs changes. It needs one free frame for every started page (the frames that
  the kernel heap takes for the new object, its name and its array of blocks are not part of the model).
\<close>

theorem copy_file_contents:
  assumes dir: "dir_ok di (v_tmpfs v)" "dir_look di (v_tmpfs v) (n_name node) = None"
      "t_objs (v_tmpfs v) (t_next (v_tmpfs v)) = None"
    and src: "rd_file (rd_image (v_ramdisk v)) e data" "n_read node = Some Read_ramdiskfs" "n_device node = Dev_ramdisk False"
      "n_context node = of_nat e" "n_length node = of_nat (length data)"
    and room: "length data div 4096 < card (spare (t_mmu (v_tmpfs v)))" and junk: "length junk = 1024"
  shows "\<exists>v' i f. copy_file junk c (tmpfs_from_dir di d0) node v = Some v' \<and> v'\<lparr>v_tmpfs := v_tmpfs v\<rparr> = v \<and>
    dir_look di (v_tmpfs v') = (dir_look di (v_tmpfs v))(n_name node \<mapsto> i) \<and> get_file i (v_tmpfs v') = Some f \<and>
    file_ok (v_tmpfs v') f \<and> file_bytes (v_tmpfs v') f = data \<and> get_file i (v_tmpfs v) = None \<and>
    unat ` set (f_blocks f) \<inter> used (t_mmu (v_tmpfs v)) = {} \<and>
    used (t_mmu (v_tmpfs v')) = used (t_mmu (v_tmpfs v)) \<union> unat ` set (f_blocks f) \<and>
    (\<forall>j. j \<noteq> i \<and> j \<noteq> di \<longrightarrow> t_objs (v_tmpfs v') j = t_objs (v_tmpfs v) j) \<and>
    (\<forall>j g. get_file j (v_tmpfs v) = Some g \<and> file_ok (v_tmpfs v) g \<longrightarrow>
       get_file j (v_tmpfs v') = Some g \<and> file_bytes (v_tmpfs v') g = file_bytes (v_tmpfs v) g)"
proof -
  let ?t = "v_tmpfs v" and ?name = "n_name node" and ?P = "tmpfs_from_dir di d0" and ?i = "t_next (v_tmpfs v)"
  obtain d where d: "get_dir di ?t = Some d" "di < ?i" using dir(1) by (rule dir_okE)
  define f where "f = (tmpfs_new_file ?name)\<lparr>f_mask := 0x1FF, f_uid := c_uid c, f_gid := c_gid c\<rparr>"
  define t1 where "t1 = put_obj di (Dir (add_entry ?i d)) (fst (new_obj (File f) ?t))"
  note made = create_object [OF dir(1) d(1) dir(2,3) f_def t1_def refl]
  define v1 where "v1 = v\<lparr>v_tmpfs := t1\<rparr>"
  have new: "dir_look di ?t (obj_name (File f)) = None" "obj_name (File f) = ?name"
    using dir(2) by (simp_all add: f_def obj_name_def tmpfs_new_file_def)
  from enter_object [OF dir(1) d(1) new(1)] have look1: "dir_look di t1 = (dir_look di ?t)(?name \<mapsto> ?i)"
    and ok1: "dir_ok di t1" unfolding t1_def new(2) by simp_all
  have i1: "t_objs t1 ?i = Some (File f)" using d(2) by (simp add: t1_def put_obj_def new_obj_def)
  have mm: "t_mmu t1 = t_mmu ?t" by (simp add: t1_def put_obj_def new_obj_def)
  have small: "length data < 4294967296" using src(1) by (simp add: rd_file_def)
  have f0: "f_length f = 0" "f_blocks f = []" "f_name f = ?name" "0 < f_pointers f" by (simp_all add: f_def tmpfs_new_file_def)
  have start: "copying v1 ?i data 0 v1"
    using ok1 i1 f0 room mm
    by (simp add: copying_def v1_def dir_ok_def get_file_def file_ok_def blocks_ok_def file_bytes_def segment_def name_of_def obj_name_def
        foreign_kept_def)
  let ?target = "tmpfs_from_file ?i f"
  have tg: "n_write ?target = Some Write_tmpfs" "n_device ?target = Dev_tmpfs ?i" "n_close ?target = None" "n_open ?target = Some Open_tmpfs"
    by (simp_all add: tmpfs_from_file_def)
  have "rd_file (rd_image (v_ramdisk v1)) e data" using src(1) by (simp add: v1_def)
  from copy_data_ok [OF start _ _ this src(2-4) tg(1,2) junk, of "length data"] obtain v'
    where v': "copy_data node ?target 0 (length data) junk v1 = Some (v', True)" "copying v1 ?i data (length data) v'" by auto
  have len: "unat (n_length node) = length data" using src(5) small by (simp add: unat_of_nat)
  have P: "n_zeroed ?P" "n_create_tmpfs ?P" "n_finddir ?P = Some Finddir_tmpfs"
    by (simp_all add: tmpfs_from_dir_def fs_node_zero_def)
  have "create_fs c ?P ?name 0x1FF v = Some (v1, 0)"
    using made(1) [of d0] P by (simp add: create_fs_def on_tmpfs_def v1_def)
  moreover have "finddir_fs ?P ?name v1 = Some (Some ?target)"
    using made(3) [of d0] P by (simp add: finddir_fs_def v1_def)
  ultimately have run: "copy_file junk c ?P node v = Some v'"
    using v'(1) len tg by (simp add: copy_file_def open_fs_def close_fs_def)
  from v'(2) obtain f' where f': "get_file ?i (v_tmpfs v') = Some f'" "file_ok (v_tmpfs v') f'" "file_bytes (v_tmpfs v') f' = data"
    "f_name f' = name_of t1 ?i" "\<forall>j. j \<noteq> ?i \<longrightarrow> t_objs (v_tmpfs v') j = t_objs t1 j" "v'\<lparr>v_tmpfs := v_tmpfs v1\<rparr> = v1"
    and fr': "used (t_mmu (v_tmpfs v')) = used (t_mmu ?t) \<union> unat ` set (f_blocks f')" "unat ` set (f_blocks f') \<inter> used (t_mmu ?t) = {}"
      "foreign_kept (t_mmu ?t) [] (t_mmu (v_tmpfs v'))"
    by (auto simp: copying_def v1_def mm)
  have "dir_look di (v_tmpfs v') = dir_look di t1"
    using d(2) by (intro dir_look_file [OF f'(5,1,4)]) simp
  moreover have "v'\<lparr>v_tmpfs := ?t\<rparr> = v"
  proof -
    have "v'\<lparr>v_tmpfs := ?t\<rparr> = (v'\<lparr>v_tmpfs := v_tmpfs v1\<rparr>)\<lparr>v_tmpfs := ?t\<rparr>" by simp
    then show ?thesis unfolding f'(6) by (simp add: v1_def)
  qed
  moreover have none: "get_file ?i ?t = None" using dir(3) by (simp add: get_file_def)
  moreover have objs: "\<forall>j. j \<noteq> ?i \<and> j \<noteq> di \<longrightarrow> t_objs (v_tmpfs v') j = t_objs ?t j"
    using f'(5) by (simp add: t1_def put_obj_def new_obj_def)
  moreover have "get_file j (v_tmpfs v') = Some g \<and> file_bytes (v_tmpfs v') g = file_bytes ?t g"
    if g: "get_file j ?t = Some g" "file_ok ?t g" for j g
  proof -
    have "j \<noteq> ?i" "j \<noteq> di" using none g(1) d(1) by (auto simp: get_file_def get_dir_def split: option.splits tmpfs_obj.splits)
    then have "get_file j (v_tmpfs v') = Some g" using objs g(1) by (simp add: get_file_def)
    moreover have "file_bytes (v_tmpfs v') g = file_bytes ?t g"
      by (rule file_bytes_kept [OF fr'(3) _ g(2)]) (use dir(1) in \<open>auto simp: dir_ok_def\<close>)
    ultimately show ?thesis by simp
  qed
  ultimately show ?thesis
    using run f'(1-3) look1 fr'(1,2) by (intro exI [of _ v'] exI [of _ ?i] exI [of _ f']) (simp, blast)
qed

section \<open>Example\<close>

definition example_rd_node :: fs_node where
  "example_rd_node = fs_node_zero\<lparr>n_name := ''z'', n_device := Dev_ramdisk False, n_context := 302, n_read := Some Read_ramdiskfs,
     n_flags := FS_FILE, n_length := 2\<rparr>"

lemma copy_file_contents_witness:
  "\<exists>v' i f. copy_file (replicate 1024 0) \<lparr>c_uid = 0, c_gid = 0, c_fds = []\<rparr> (tmpfs_from_dir 0 example_dir) example_rd_node
     (example_vfs\<lparr>v_ramdisk := \<lparr>rd_base = 0x1000, rd_image = example_image\<rparr>\<rparr>) = Some v' \<and>
     dir_look 0 (v_tmpfs v') ''z'' = Some i \<and> get_file i (v_tmpfs v') = Some f \<and> file_bytes (v_tmpfs v') f = [7, 8]"
proof -
  let ?v = "example_vfs\<lparr>v_ramdisk := \<lparr>rd_base = 0x1000, rd_image = example_image\<rparr>\<rparr>"
  have t: "v_tmpfs ?v = example_tmpfs" by (simp add: example_vfs_def)
  have img: "rd_file (rd_image (v_ramdisk ?v)) 302 [7, 8]"
    by (simp add: rd_file_def hdr_signature_def ent_size_def ent_offset_def rd_u16_def rd_u32_def example_image_def mem_read_def le_nat_def)
  have "t_objs example_tmpfs (t_next example_tmpfs) = None" by (simp add: example_tmpfs_def)
  then show ?thesis
    using copy_file_contents [of 0 ?v example_rd_node 302 "[7, 8]" "replicate 1024 0" "\<lparr>c_uid = 0, c_gid = 0, c_fds = []\<rparr>" example_dir]
      img example_tmpfs_spare
    by (auto simp: t example_rd_node_def)
qed

end
