(* ===== verification/Nodetypes.thy ===== *)
theory Nodetypes
  imports Bootfs
begin

text \<open>
  The drivers cast the \<open>device\<close> of a node to the object they expect without a test. Here is the type
  system behind that: which object a node must carry for the functions it names, which shape the
  directories of tmpfs must have, and that every operation on path names and on nodes keeps it.
\<close>

section \<open>Types\<close>

definition file_object :: "tmpfs \<Rightarrow> fs_node \<Rightarrow> bool" where
  "file_object t n \<longleftrightarrow> (\<exists>i f. n_device n = Dev_tmpfs i \<and> t_objs t i = Some (File f))"

definition dir_object :: "tmpfs \<Rightarrow> fs_node \<Rightarrow> bool" where
  "dir_object t n \<longleftrightarrow> (\<exists>i d. n_device n = Dev_tmpfs i \<and> t_objs t i = Some (Dir d))"

definition node_typed :: "tmpfs \<Rightarrow> fs_node \<Rightarrow> bool" where
  "node_typed t n \<longleftrightarrow>
     (n_read n = Some Read_tmpfs \<or> n_write n = Some Write_tmpfs \<or> n_truncate_tmpfs n \<or> n_readlink n = Some Readlink_tmpfs
        \<longrightarrow> file_object t n) \<and>
     (n_create_tmpfs n \<or> n_mkdir_tmpfs n \<or> n_symlink_tmpfs n \<or> n_unlink_tmpfs n \<or> n_readdir n = Some Readdir_tmpfs \<or>
        n_finddir n = Some Finddir_tmpfs \<longrightarrow> dir_object t n) \<and>
     (n_chmod_tmpfs n \<or> n_chown_tmpfs n \<longrightarrow> file_object t n \<or> dir_object t n) \<and>
     (n_read n = Some Read_pty_master \<or> n_read n = Some Read_pty_slave \<or> n_write n = Some Write_pty_master \<or>
        n_write n = Some Write_pty_slave \<or> n_close n = Some Close_pty_slave \<longrightarrow> (\<exists>i. n_device n = Dev_pty i)) \<and>
     (n_read n = Some Read_ramdiskfs \<or> n_readdir n = Some Readdir_ramdiskfs \<or> n_finddir n = Some Finddir_ramdiskfs
        \<longrightarrow> (\<exists>b. n_device n = Dev_ramdisk b))"

text \<open>A directory has each of its entries once, every entry is an object, and no object is in two directories.\<close>

definition tmpfs_typed :: "tmpfs \<Rightarrow> bool" where
  "tmpfs_typed t \<longleftrightarrow>
     (\<forall>i x. t_objs t i = Some x \<longrightarrow> i < t_next t) \<and>
     (\<forall>i d. t_objs t i = Some (Dir d) \<longrightarrow> distinct (dr_files d) \<and> (\<forall>j \<in> set (dr_files d). t_objs t j \<noteq> None)) \<and>
     (\<forall>i j d e k. t_objs t i = Some (Dir d) \<and> t_objs t j = Some (Dir e) \<and> k \<in> set (dr_files d) \<and> k \<in> set (dr_files e) \<longrightarrow> i = j)"

text \<open>What may be mounted: directories of tmpfs, which are never removed, and nodes of the other drivers.\<close>

definition mountable :: "tmpfs \<Rightarrow> fs_node \<Rightarrow> bool" where
  "mountable t n \<longleftrightarrow> node_typed t n \<and> (\<forall>i. n_device n = Dev_tmpfs i \<longrightarrow> dir_object t n)"

section \<open>The operations of tmpfs keep them\<close>

definition dirs_kept :: "tmpfs \<Rightarrow> tmpfs \<Rightarrow> bool" where
  "dirs_kept t t' \<longleftrightarrow> (\<forall>i d. t_objs t i = Some (Dir d) \<longrightarrow> (\<exists>d'. t_objs t' i = Some (Dir d')))"

definition typed_step :: "tmpfs \<Rightarrow> tmpfs \<Rightarrow> bool" where
  "typed_step t t' \<longleftrightarrow> tmpfs_typed t' \<and> dirs_kept t t'"

lemma typed_step_refl: "tmpfs_typed t \<Longrightarrow> typed_step t t"
  by (simp add: typed_step_def dirs_kept_def)

lemma mountable_kept: "mountable t n \<Longrightarrow> dirs_kept t t' \<Longrightarrow> mountable t' n"
proof -
  assume m: "mountable t n" and k: "dirs_kept t t'"
  have d: "dir_object t n \<Longrightarrow> dir_object t' n" using k by (auto simp: dir_object_def dirs_kept_def)
  have "\<not> file_object t n" using m by (auto simp: mountable_def file_object_def dir_object_def)
  then show ?thesis using m d unfolding mountable_def node_typed_def by blast
qed

lemma get_dir_obj: "get_dir i t = Some d \<longleftrightarrow> t_objs t i = Some (Dir d)"
  by (simp add: get_dir_def split: option.splits tmpfs_obj.splits)

lemma get_file_obj: "get_file i t = Some f \<longleftrightarrow> t_objs t i = Some (File f)"
  by (simp add: get_file_def split: option.splits tmpfs_obj.splits)

lemma device_id_obj: "device_id n = Some i \<longleftrightarrow> n_device n = Dev_tmpfs i"
  by (simp add: device_id_def split: device.splits)

text \<open>A new object without entries, entered into a directory.\<close>

lemma add_object_typed:
  assumes ty: "tmpfs_typed t" and d: "t_objs t di = Some (Dir d)" and x: "\<And>e. x = Dir e \<Longrightarrow> dr_files e = []"
  shows "typed_step t (put_obj di (Dir (add_entry (t_next t) d)) (fst (new_obj x t)))"
proof -
  let ?t = "put_obj di (Dir (add_entry (t_next t) d)) (fst (new_obj x t))" and ?n = "t_next t"
  have old: "t_objs t i = Some y \<Longrightarrow> i < ?n" for i y using ty by (auto simp: tmpfs_typed_def)
  then have fresh: "t_objs t ?n = None" by (cases "t_objs t ?n") auto
  have di: "di \<noteq> ?n" using d fresh by auto
  have objs: "t_objs ?t i = (if i = di then Some (Dir (add_entry ?n d)) else if i = ?n then Some x else t_objs t i)" for i
    using di by (simp add: put_obj_def new_obj_def)
  have files: "dr_files (add_entry ?n d) = dr_files d @ [?n]" by (simp add: add_entry_def)
  have entry: "t_objs t i = Some (Dir e) \<Longrightarrow> k \<in> set (dr_files e) \<Longrightarrow> k < ?n \<and> t_objs t k \<noteq> None" for i e k
    using ty old by (fastforce simp: tmpfs_typed_def)
  have dist: "t_objs t i = Some (Dir e) \<Longrightarrow> distinct (dr_files e)" for i e using ty by (auto simp: tmpfs_typed_def)
  have one: "t_objs t i = Some (Dir d1) \<Longrightarrow> t_objs t j = Some (Dir d2) \<Longrightarrow> k \<in> set (dr_files d1) \<Longrightarrow> k \<in> set (dr_files d2) \<Longrightarrow> i = j"
    for i j d1 d2 k using ty unfolding tmpfs_typed_def by blast
  have shape: "dr_files g = [] \<or> (\<exists>e. t_objs t i = Some (Dir e) \<and>
      (if i = di then dr_files g = dr_files e @ [?n] else dr_files g = dr_files e))" if g: "t_objs ?t i = Some (Dir g)" for i g
  proof (cases "i = di")
    case True
    then show ?thesis using g objs [of i] d files by auto
  next
    case di: False
    show ?thesis
    proof (cases "i = ?n")
      case True
      then show ?thesis using g objs [of i] di x by simp
    next
      case False
      then show ?thesis using g objs [of i] di by simp
    qed
  qed
  have bound: "t_objs ?t i = Some y \<Longrightarrow> i < Suc ?n" for i y
    using objs [of i] old [OF d] old [of i y] by (auto split: if_splits)
  have good: "distinct (dr_files g) \<and> (\<forall>j \<in> set (dr_files g). t_objs ?t j \<noteq> None)" if g: "t_objs ?t i = Some (Dir g)" for i g
  proof (cases "dr_files g = []")
    case False
    with shape [OF g] obtain e where e: "t_objs t i = Some (Dir e)"
      "if i = di then dr_files g = dr_files e @ [?n] else dr_files g = dr_files e" by blast
    have "?n \<notin> set (dr_files e)" using entry [OF e(1)] by auto
    then have "distinct (dr_files g)" "set (dr_files g) \<subseteq> insert ?n (set (dr_files e))"
      using e(2) dist [OF e(1)] by (auto split: if_splits)
    moreover have "t_objs ?t ?n \<noteq> None" using objs [of ?n] by simp
    moreover have "t_objs ?t k \<noteq> None" if "k \<in> set (dr_files e)" for k using objs [of k] entry [OF e(1) that] by auto
    ultimately show ?thesis by blast
  qed simp
  have single: "i = j" if g: "t_objs ?t i = Some (Dir d1)" "t_objs ?t j = Some (Dir d2)" and k: "k \<in> set (dr_files d1)" "k \<in> set (dr_files d2)"
    for i j d1 d2 k
  proof -
    have "dr_files d1 \<noteq> []" "dr_files d2 \<noteq> []" using k by auto
    with shape [OF g(1)] shape [OF g(2)] obtain e1 e2 where e: "t_objs t i = Some (Dir e1)" "t_objs t j = Some (Dir e2)"
      "if i = di then dr_files d1 = dr_files e1 @ [?n] else dr_files d1 = dr_files e1"
      "if j = di then dr_files d2 = dr_files e2 @ [?n] else dr_files d2 = dr_files e2" by blast
    show ?thesis
    proof (cases "k = ?n")
      case True
      have "?n \<notin> set (dr_files e1)" "?n \<notin> set (dr_files e2)" using entry [OF e(1)] entry [OF e(2)] by auto
      then show ?thesis using True k e(3,4) by (auto split: if_splits)
    next
      case False
      then have "k \<in> set (dr_files e1)" "k \<in> set (dr_files e2)" using k e(3,4) by (auto split: if_splits)
      then show ?thesis by (rule one [OF e(1,2)])
    qed
  qed
  have "tmpfs_typed ?t"
    unfolding tmpfs_typed_def
  proof (intro conjI allI impI, goal_cases)
    case (1 i y)
    then show ?case using bound by (simp add: put_obj_def new_obj_def)
  next
    case (4 i j d1 d2 k)
    then show ?case using single [of i d1 j d2 k] by blast
  qed (use good in blast)+
  moreover have "dirs_kept t ?t" using objs fresh by (auto simp: dirs_kept_def)
  ultimately show ?thesis by (simp add: typed_step_def)
qed

lemma create_tmpfs_typed:
  "tmpfs_typed t \<Longrightarrow> create_tmpfs c n name mode t = Some (t', r) \<Longrightarrow> typed_step t t'"
  by (auto simp: create_tmpfs_def new_obj_def get_dir_obj Let_def typed_step_refl split: bind_splits if_splits prod.splits
      intro: add_object_typed [of t _ _ "File _", unfolded new_obj_def fst_conv])

lemma symlink_tmpfs_typed:
  "tmpfs_typed t \<Longrightarrow> symlink_tmpfs c n target name t = Some (t', r) \<Longrightarrow> typed_step t t'"
  by (auto simp: symlink_tmpfs_def new_obj_def get_dir_obj Let_def typed_step_refl split: bind_splits if_splits prod.splits
      intro: add_object_typed [of t _ _ "File _", unfolded new_obj_def fst_conv])

lemma mkdir_tmpfs_typed:
  "tmpfs_typed t \<Longrightarrow> mkdir_tmpfs c n name mode t = Some (t', r) \<Longrightarrow> typed_step t t'"
  by (auto simp: mkdir_tmpfs_def new_obj_def get_dir_obj Let_def tmpfs_new_dir_def typed_step_refl split: bind_splits if_splits prod.splits
      intro!: add_object_typed [of t _ _ "Dir _", unfolded new_obj_def fst_conv])

lemma grow_blocks_objs: "grow_blocks n bs t = Some (t', bs') \<Longrightarrow> t_objs t' = t_objs t \<and> t_next t' = t_next t"
proof (induction n arbitrary: bs t)
  case (Suc n)
  then show ?case by (auto split: bind_splits prod.splits)
qed simp

lemma write_block_objs: "write_block b off bytes (t, f) = Some (t', f') \<Longrightarrow> t_objs t' = t_objs t \<and> t_next t' = t_next t"
  by (auto simp: write_block_def tmpfs_set_block_def Let_def dest: grow_blocks_objs split: bind_splits prod.splits)

lemma write_range_objs:
  assumes "write_range offset end buffer (t, f) = Some (t', f')"
  shows "t_objs t' = t_objs t \<and> t_next t' = t_next t"
proof -
  have loop: "for_each bs (\<lambda>b tf. if b = s then Option.bind (mem_read buffer 0 n0) (\<lambda>bytes. write_block b o0 bytes tf)
        else Option.bind (mem_read buffer (p b) 4096) (\<lambda>bytes. write_block b 0 bytes tf)) (t, f) = Some (t1, f1) \<Longrightarrow>
      t_objs t1 = t_objs t \<and> t_next t1 = t_next t" for bs s n0 o0 p t f t1 f1
  proof (induction bs arbitrary: t f)
    case (Cons b bs)
    from Cons.prems obtain t2 f2 where 1: "(if b = s then Option.bind (mem_read buffer 0 n0) (\<lambda>bytes. write_block b o0 bytes (t, f))
        else Option.bind (mem_read buffer (p b) 4096) (\<lambda>bytes. write_block b 0 bytes (t, f))) = Some (t2, f2)"
      and 2: "for_each bs (\<lambda>b tf. if b = s then Option.bind (mem_read buffer 0 n0) (\<lambda>bytes. write_block b o0 bytes tf)
        else Option.bind (mem_read buffer (p b) 4096) (\<lambda>bytes. write_block b 0 bytes tf)) (t2, f2) = Some (t1, f1)"
      by (auto elim!: bind_SomeE)
    have "t_objs t2 = t_objs t \<and> t_next t2 = t_next t"
      using 1 by (auto dest: write_block_objs split: if_splits elim!: bind_SomeE)
    then show ?case using Cons.IH [OF 2] by simp
  qed simp
  show ?thesis
    using assms unfolding write_range_def Let_def
    by (auto dest!: loop write_block_objs split: if_splits elim!: bind_SomeE)
qed

text \<open>A change that leaves the kind of every object and the entries of every directory.\<close>

definition same_entries :: "tmpfs_obj \<Rightarrow> tmpfs_obj \<Rightarrow> bool" where
  "same_entries x y \<longleftrightarrow> (case (x, y) of (File _, File _) \<Rightarrow> True | (Dir d, Dir e) \<Rightarrow> dr_files d = dr_files e | _ \<Rightarrow> False)"

lemma same_entries_typed:
  assumes "tmpfs_typed t" and "t_objs t i = Some x" and "same_entries x y" and "t_objs t1 = t_objs t" "t_next t1 = t_next t"
  shows "typed_step t (put_obj i y t1)"
proof -
  let ?t = "put_obj i y t1"
  have objs: "t_objs ?t j = (if j = i then Some y else t_objs t j)" for j by (simp add: put_obj_def assms(4))
  have old: "t_objs ?t j = Some (Dir e) \<Longrightarrow> \<exists>d. t_objs t j = Some (Dir d) \<and> dr_files d = dr_files e" for j e
    using objs [of j] assms(2,3) by (auto simp: same_entries_def split: if_splits tmpfs_obj.splits)
  have some: "t_objs t j \<noteq> None \<Longrightarrow> t_objs ?t j \<noteq> None" for j using objs [of j] by auto
  have "tmpfs_typed ?t"
    unfolding tmpfs_typed_def
  proof (intro conjI allI impI, goal_cases)
    case (1 j z)
    have "t_objs t j \<noteq> None" using 1 objs [of j] assms(2) by (auto split: if_splits)
    then have "j < t_next t" using assms(1) by (auto simp: tmpfs_typed_def)
    then show ?case by (simp add: put_obj_def assms(5))
  next
    case (2 j e)
    from old [OF 2] obtain d where "t_objs t j = Some (Dir d)" "dr_files d = dr_files e" by blast
    then show ?case using assms(1) unfolding tmpfs_typed_def by metis
  next
    case (3 j e)
    then show ?case using old [OF 3] assms(1) some unfolding tmpfs_typed_def by metis
  next
    case (4 j k d e l)
    then show ?case using old [of j d] old [of k e] assms(1) unfolding tmpfs_typed_def by metis
  qed
  moreover have "dirs_kept t ?t"
    using objs assms(2,3) by (auto simp: dirs_kept_def same_entries_def split: tmpfs_obj.splits)
  ultimately show ?thesis by (simp add: typed_step_def)
qed

lemma release_blocks_objs: "release_blocks bs t = Some t' \<Longrightarrow> t_objs t' = t_objs t \<and> t_next t' = t_next t"
  unfolding release_blocks_def by (induction bs arbitrary: t) (fastforce split: bind_splits)+

lemma write_tmpfs_typed: "tmpfs_typed t \<Longrightarrow> write_tmpfs n offset sz buffer t = Some (t', r) \<Longrightarrow> typed_step t t'"
  by (auto simp: write_tmpfs_def get_file_obj Let_def same_entries_def split: bind_splits
      dest!: write_range_objs intro!: same_entries_typed)

lemma truncate_tmpfs_typed: "tmpfs_typed t \<Longrightarrow> truncate_tmpfs n t = Some (t', r) \<Longrightarrow> typed_step t t'"
  by (auto simp: truncate_tmpfs_def get_file_obj same_entries_def split: bind_splits
      dest!: release_blocks_objs intro!: same_entries_typed)

lemma chmod_tmpfs_typed: "tmpfs_typed t \<Longrightarrow> chmod_tmpfs n mode t = Some (t', r) \<Longrightarrow> typed_step t t'"
  by (auto simp: chmod_tmpfs_def same_entries_def split: bind_splits tmpfs_obj.splits intro!: same_entries_typed)

lemma chown_tmpfs_typed: "tmpfs_typed t \<Longrightarrow> chown_tmpfs n uid gid t = Some (t', r) \<Longrightarrow> typed_step t t'"
  by (cases "uid = -1"; cases "gid = -1")
    (auto simp: chown_tmpfs_def same_entries_def Let_def split: bind_splits tmpfs_obj.splits intro!: same_entries_typed)

lemma unlink_tmpfs_typed:
  assumes ty: "tmpfs_typed t" and u: "unlink_tmpfs n name t = Some (t', r)"
  shows "typed_step t t'"
proof -
  obtain di d found where d: "device_id n = Some di" "t_objs t di = Some (Dir d)" "scan_dir name (dr_files d) t = Some found"
    using u by (auto simp: unlink_tmpfs_def get_dir_obj split: bind_splits)
  show ?thesis
  proof (cases "\<exists>i f. found = Some i \<and> t_objs t i = Some (File f)")
    case False
    then have "t' = t" using u d
      by (auto simp: unlink_tmpfs_def get_dir_obj split: bind_splits option.splits tmpfs_obj.splits)
    then show ?thesis using ty by (simp add: typed_step_refl)
  next
    case True
    then obtain i f where i: "found = Some i" "t_objs t i = Some (File f)" by blast
    obtain t1 where t1: "release_blocks (f_blocks f) t = Some t1"
      and t': "t' = (put_obj di (Dir (d\<lparr>dr_files := remove1 i (dr_files d)\<rparr>)) t1)
        \<lparr>t_objs := (t_objs (put_obj di (Dir (d\<lparr>dr_files := remove1 i (dr_files d)\<rparr>)) t1))(i := None)\<rparr>"
      using u d i by (auto simp: unlink_tmpfs_def get_dir_obj tmpfs_free_file_def Let_def split: bind_splits)
    note r1 = release_blocks_objs [OF t1]
    have ne: "di \<noteq> i" using d(2) i(2) by auto
    have objs: "t_objs t' j = (if j = i then None else if j = di then Some (Dir (d\<lparr>dr_files := remove1 i (dr_files d)\<rparr>)) else t_objs t j)"
      for j using r1 ne by (simp add: t' put_obj_def)
    have "scan_dir name is t = Some (Some i) \<Longrightarrow> i \<in> set is" for "is"
      by (induction "is") (auto split: bind_splits if_splits)
    then have ind: "i \<in> set (dr_files d)" using d(3) i(1) by blast
    have dist: "t_objs t j = Some (Dir e) \<Longrightarrow> distinct (dr_files e)"
      and some: "t_objs t j = Some (Dir e) \<Longrightarrow> k \<in> set (dr_files e) \<Longrightarrow> t_objs t k \<noteq> None"
      and one: "t_objs t j = Some (Dir e) \<Longrightarrow> t_objs t k = Some (Dir g) \<Longrightarrow> l \<in> set (dr_files e) \<Longrightarrow> l \<in> set (dr_files g) \<Longrightarrow> j = k"
      for j k l e g using ty unfolding tmpfs_typed_def by blast+
    have old: "\<exists>g. t_objs t j = Some (Dir g) \<and> set (dr_files e) = set (dr_files g) - {i} \<and> distinct (dr_files e)"
      if e: "t_objs t' j = Some (Dir e)" for j e
    proof (cases "j = di")
      case True
      then show ?thesis using e objs [of j] d(2) dist [OF d(2)] ne by auto
    next
      case False
      then have "t_objs t j = Some (Dir e)" using e objs [of j] by (auto split: if_splits)
      moreover from this have "i \<notin> set (dr_files e)" using one [OF _ d(2) _ ind] False by blast
      ultimately show ?thesis using dist by auto
    qed
    have "tmpfs_typed t'"
      unfolding tmpfs_typed_def
    proof (intro conjI allI impI, goal_cases)
      case (1 j x)
      have "t_objs t j \<noteq> None" using 1 objs [of j] d(2) by (auto split: if_splits)
      then have "j < t_next t" using ty by (auto simp: tmpfs_typed_def)
      then show ?case by (simp add: t' put_obj_def r1)
    next
      case (2 j e)
      then show ?case using old by blast
    next
      case (3 j e)
      from old [OF 3] obtain g where g: "t_objs t j = Some (Dir g)" "set (dr_files e) = set (dr_files g) - {i}" by blast
      show ?case
      proof
        fix k
        assume "k \<in> set (dr_files e)"
        then show "t_objs t' k \<noteq> None" using g some [OF g(1), of k] objs [of k] by auto
      qed
    next
      case (4 j k d1 d2 l)
      obtain g where g: "t_objs t j = Some (Dir g)" "l \<in> set (dr_files g)" using 4 old [of j d1] by blast
      obtain h where h: "t_objs t k = Some (Dir h)" "l \<in> set (dr_files h)" using 4 old [of k d2] by blast
      show ?case by (rule one [OF g(1) h(1) g(2) h(2)])
    qed
    moreover have "dirs_kept t t'" using objs i(2) by (auto simp: dirs_kept_def)
    ultimately show ?thesis by (simp add: typed_step_def)
  qed
qed

section \<open>Lookups give typed nodes\<close>

lemma scan_dir_typed:
  "(\<And>j. j \<in> set is \<Longrightarrow> t_objs t j \<noteq> None) \<Longrightarrow> \<exists>r. scan_dir name is t = Some r \<and> (\<forall>i. r = Some i \<longrightarrow> i \<in> set is)"
proof (induction "is")
  case (Cons a xs)
  obtain x where x: "t_objs t a = Some x" using Cons.prems [of a] by auto
  obtain r where "scan_dir name xs t = Some r" "\<forall>i. r = Some i \<longrightarrow> i \<in> set xs" using Cons by auto
  then show ?case using x by (cases "name = obj_name x") auto
qed simp

lemma object_nodes_typed:
  "t_objs t i = Some (File f) \<Longrightarrow> node_typed t (tmpfs_from_file i f) \<and> node_typed t (tmpfs_from_link i f)"
  "t_objs t i = Some (Dir d) \<Longrightarrow> node_typed t (tmpfs_from_dir i d)"
  by (auto simp: node_typed_def tmpfs_from_file_def tmpfs_from_link_def tmpfs_from_dir_def fs_node_zero_def file_object_def dir_object_def)

lemma finddir_tmpfs_typed:
  assumes "tmpfs_typed t" and "dir_object t n"
  shows "\<exists>r. finddir_tmpfs n name t = Some r \<and> (\<forall>m. r = Some m \<longrightarrow> node_typed t m)"
proof -
  obtain i d where d: "n_device n = Dev_tmpfs i" "t_objs t i = Some (Dir d)" using assms(2) by (auto simp: dir_object_def)
  have e: "j \<in> set (dr_files d) \<Longrightarrow> t_objs t j \<noteq> None" for j using assms(1) d(2) by (auto simp: tmpfs_typed_def)
  then obtain r where r: "scan_dir name (dr_files d) t = Some r" "\<forall>j. r = Some j \<longrightarrow> j \<in> set (dr_files d)"
    using scan_dir_typed [of "dr_files d" t name] by blast
  show ?thesis
  proof (cases r)
    case None
    then show ?thesis using d r by (simp add: finddir_tmpfs_def device_id_def get_dir_def)
  next
    case (Some j)
    then obtain x where "t_objs t j = Some x" using r(2) e by fastforce
    then show ?thesis using d r Some object_nodes_typed
      by (cases x) (auto simp: finddir_tmpfs_def device_id_def get_dir_def)
  qed
qed

text \<open>The slave side of a terminal, which \<open>/dev/pts\<close> hands out, keeps the device it was made with.\<close>

definition slaves_typed :: "ttys \<Rightarrow> bool" where
  "slaves_typed y \<longleftrightarrow> (\<forall>i p. y_ptys y i = Some p \<longrightarrow> (\<exists>c. pty_slave p = pty_slave_create c i))"

text \<open>Steps that keep the set of terminals and their slave nodes.\<close>

definition same_slaves :: "ttys \<Rightarrow> ttys \<Rightarrow> bool" where
  "same_slaves y y' \<longleftrightarrow> (\<forall>i. map_option pty_slave (y_ptys y' i) = map_option pty_slave (y_ptys y i))"

lemma same_slaves_refl [simp]: "same_slaves y y"
  by (simp add: same_slaves_def)

lemma same_slaves_trans: "same_slaves x y \<Longrightarrow> same_slaves y z \<Longrightarrow> same_slaves x z"
  by (simp add: same_slaves_def)

lemma same_slaves_put: "y_ptys y i = Some p \<Longrightarrow> pty_slave q = pty_slave p \<Longrightarrow> same_slaves y (put_pty i q y)"
  by (simp add: same_slaves_def put_pty_def)

lemma same_slaves_console [simp]: "same_slaves y (y\<lparr>y_console := cs\<rparr>)"
  by (simp add: same_slaves_def)

lemma pty_put_in_slaves: "pty_put_in i c y = Some y' \<Longrightarrow> same_slaves y y'"
  by (auto simp: pty_put_in_def elim!: bind_SomeE intro: same_slaves_put)

lemma pty_put_out_slaves:
  assumes "pty_put_out i c y = Some y'"
  shows "same_slaves y y'"
proof -
  consider p rb where "y_ptys y i = Some p" "y' = put_pty i (p\<lparr>pty_out := rb\<rparr>) y" | "y' = y\<lparr>y_console := y_console y @ [c]\<rparr>"
    using assms by (auto simp: pty_put_out_def elim!: bind_SomeE split: write_out_fn.splits)
  then show ?thesis using same_slaves_put by cases simp_all
qed

lemma output_process_slaves: "tty_output_process_slave i c y = Some y' \<Longrightarrow> same_slaves y y'"
  by (auto simp: tty_output_process_slave_def Let_def elim!: bind_SomeE split: if_splits)
    (blast dest: pty_put_out_slaves intro: same_slaves_trans)+

lemma input_process_slaves: "tty_input_process i c y = Some y' \<Longrightarrow> same_slaves y y'"
  by (auto simp: tty_input_process_def tty_output_process_def Let_def elim!: bind_SomeE split: if_splits)
    (blast dest: output_process_slaves pty_put_in_slaves intro: same_slaves_trans)+

lemma for_each_keeps: "(\<And>x s s'. f x s = Some s' \<Longrightarrow> P s \<Longrightarrow> P s') \<Longrightarrow> for_each xs f s = Some s' \<Longrightarrow> P s \<Longrightarrow> P s'"
  by (induction xs arbitrary: s) (auto elim!: bind_SomeE)

lemma for_each_slaves: "for_each xs f y = Some y' \<Longrightarrow> (\<And>x s s'. f x s = Some s' \<Longrightarrow> same_slaves s s') \<Longrightarrow> same_slaves y y'"
  by (rule for_each_keeps [of f "same_slaves y" xs y]) (blast intro: same_slaves_trans same_slaves_refl)+

definition slaves_kept :: "ttys \<Rightarrow> ttys \<Rightarrow> bool" where
  "slaves_kept y y' \<longleftrightarrow> (slaves_typed y \<longrightarrow> slaves_typed y') \<and> (\<forall>i. y_ptys y i \<noteq> None \<longrightarrow> y_ptys y' i \<noteq> None)"

lemma same_slaves_kept: "same_slaves y y' \<Longrightarrow> slaves_kept y y'"
proof -
  assume s: "same_slaves y y'"
  have "\<exists>p. y_ptys y i = Some p \<and> pty_slave p = pty_slave q" if "y_ptys y' i = Some q" for i q
    using s [unfolded same_slaves_def, rule_format, of i] that by (cases "y_ptys y i") auto
  moreover have "y_ptys y' i \<noteq> None" if "y_ptys y i \<noteq> None" for i
    using s [unfolded same_slaves_def, rule_format, of i] that by (cases "y_ptys y' i") auto
  ultimately show ?thesis unfolding slaves_kept_def slaves_typed_def by metis
qed

lemma slaves_kept_put: "y_ptys y i = Some p \<Longrightarrow> pty_slave q = pty_slave p \<Longrightarrow> slaves_kept y (put_pty i q y)"
  by (blast intro: same_slaves_put same_slaves_kept)

lemma tty_step_slaves: "tty_step y y' \<Longrightarrow> slaves_kept y y'"
proof (induction rule: tty_step.induct)
  case (new y c g1 g2 sz n)
  then show ?case by (auto simp: pty_new_def Let_def slaves_kept_def slaves_typed_def put_pty_def pty_add_def)
next
  case (write_master node sz buf y y' k)
  then show ?case
    by (intro same_slaves_kept)
      (auto simp: write_pty_master_def elim!: bind_SomeE intro: for_each_slaves input_process_slaves)
next
  case (write_slave node sz buf y y' k)
  then show ?case
    by (intro same_slaves_kept)
      (auto simp: write_pty_slave_def elim!: bind_SomeE intro: for_each_slaves output_process_slaves)
next
  case (close_slave node y y')
  then show ?case
    by (auto simp: close_pty_slave_def pty_remove_def slaves_kept_def slaves_typed_def elim!: bind_SomeE split: if_splits)
qed (auto simp: read_pty_master_def read_pty_slave_def elim!: bind_SomeE intro: slaves_kept_put)

text \<open>The terminal that the functions of a node cast its device to exists.\<close>

definition tty_object :: "ttys \<Rightarrow> fs_node \<Rightarrow> bool" where
  "tty_object y n \<longleftrightarrow>
     (n_read n = Some Read_pty_master \<or> n_read n = Some Read_pty_slave \<or> n_write n = Some Write_pty_master \<or>
        n_write n = Some Write_pty_slave \<or> n_close n = Some Close_pty_slave \<longrightarrow>
      (\<exists>i p. n_device n = Dev_pty i \<and> y_ptys y i = Some p))"

lemma tty_object_kept: "tty_object y n \<Longrightarrow> slaves_kept y y' \<Longrightarrow> tty_object y' n"
  unfolding tty_object_def slaves_kept_def by fast

lemma no_tty_functions:
  "n_read n \<noteq> Some Read_pty_master \<and> n_read n \<noteq> Some Read_pty_slave \<and> n_write n \<noteq> Some Write_pty_master \<and>
   n_write n \<noteq> Some Write_pty_slave \<and> n_close n \<noteq> Some Close_pty_slave \<Longrightarrow> tty_object y n"
  by (simp add: tty_object_def)

lemma tmpfs_nodes_tty [simp]: "tty_object y (tmpfs_from_file i f)" "tty_object y (tmpfs_from_link i f)" "tty_object y (tmpfs_from_dir i d)"
  by (simp_all add: no_tty_functions tmpfs_from_file_def tmpfs_from_link_def tmpfs_from_dir_def fs_node_zero_def)

lemma pty_slave_tty: "y_ptys y i = Some p \<Longrightarrow> tty_object y (pty_slave_create c i)"
  by (simp add: tty_object_def pty_slave_create_def fs_node_zero_def)

lemma rd_node_tty: "rd_node name e ty k = Some m \<Longrightarrow> tty_object y m"
  by (intro no_tty_functions) (auto simp: rd_node_def fs_node_zero_def Let_def split: if_splits)

lemma copy_node_tty: "tty_object y n \<Longrightarrow> tty_object y (copy_node n)"
  by (cases "n_device n") (auto simp: copy_node_def tty_object_def)

lemma pty_slave_typed: "node_typed t (pty_slave_create c i)"
  by (simp add: node_typed_def pty_slave_create_def fs_node_zero_def)

lemma rd_node_typed: "rd_node name e ty k = Some m \<Longrightarrow> node_typed t m"
  by (auto simp: rd_node_def node_typed_def fs_node_zero_def Let_def split: if_splits)

text \<open>The state of the file systems is typed: tmpfs, the terminals, the mounted nodes and the root.\<close>

definition vfs_typed :: "vfs \<Rightarrow> bool" where
  "vfs_typed v \<longleftrightarrow> tmpfs_typed (v_tmpfs v) \<and> slaves_typed (v_ttys v) \<and>
     (\<forall>p n. (p, n) \<in> set (v_mounts v) \<longrightarrow> mountable (v_tmpfs v) n \<and> tty_object (v_ttys v) n) \<and>
     (\<forall>n. v_root v = Some n \<longrightarrow> mountable (v_tmpfs v) n \<and> tty_object (v_ttys v) n)"

definition node_live :: "vfs \<Rightarrow> fs_node \<Rightarrow> bool" where
  "node_live v n \<longleftrightarrow> node_typed (v_tmpfs v) n \<and> tty_object (v_ttys v) n"

lemma copy_node_typed: "node_typed t n \<Longrightarrow> node_typed t (copy_node n)"
  by (cases "n_device n") (auto simp: copy_node_def node_typed_def file_object_def dir_object_def)

lemma finddir_tmpfs_tty: "finddir_tmpfs n name t = Some (Some m) \<Longrightarrow> tty_object y m"
  by (auto simp: finddir_tmpfs_def split: bind_splits option.splits tmpfs_obj.splits if_splits)

lemma finddir_fs_typed:
  assumes v: "vfs_typed v" and n: "node_live v n" and f: "finddir_fs n name v = Some (Some m)"
  shows "node_live v m"
proof (cases "n_finddir n")
  case (Some ff)
  have t: "tmpfs_typed (v_tmpfs v)" "slaves_typed (v_ttys v)" using v by (simp_all add: vfs_typed_def)
  show ?thesis
  proof (cases ff)
    case Finddir_tmpfs
    then have "dir_object (v_tmpfs v) n" using n Some by (simp add: node_live_def node_typed_def)
    then show ?thesis using finddir_tmpfs_typed [OF t(1), of n name] finddir_tmpfs_tty [of n name] f Some Finddir_tmpfs
      by (auto simp: finddir_fs_def node_live_def)
  next
    case Finddir_pty
    then obtain i p where "y_ptys (v_ttys v) i = Some p" "m = pty_slave p"
      using f Some by (auto simp: finddir_fs_def finddir_pty_def elim!: bind_SomeE split: if_splits option.splits)
    moreover from this obtain c where "pty_slave p = pty_slave_create c i" using t(2) unfolding slaves_typed_def by blast
    ultimately show ?thesis using pty_slave_typed pty_slave_tty by (simp add: node_live_def)
  next
    case Finddir_ramdiskfs
    then obtain name' e ty k where "rd_node name' e ty k = Some m"
      using f Some by (auto simp: finddir_fs_def ramdiskfs_finddir_def Let_def elim!: bind_SomeE split: if_splits)
    then show ?thesis using rd_node_typed rd_node_tty by (simp add: node_live_def)
  qed
qed (use f in \<open>simp add: finddir_fs_def\<close>)

lemma mountpoint_typed: "vfs_typed v \<Longrightarrow> vfs_get_mountpoint path v = Some m \<Longrightarrow> node_live v m"
  by (auto simp: vfs_get_mountpoint_def vfs_typed_def mountable_def node_live_def intro!: copy_node_typed copy_node_tty dest!: map_of_SomeD)

lemma kopen_step_typed:
  assumes v: "vfs_typed v" and wd: "node_live v wd" and k: "kopen_step path tok flags wd v = Some (v', Some m)"
  shows "v' = v \<and> node_live v m"
proof (cases "tok = [] \<or> vfs_get_mountpoint path v \<noteq> None")
  case True
  then have "v' = v \<and> (m = wd \<or> vfs_get_mountpoint path v = Some m)"
    using k by (auto simp: kopen_step_def Let_def elim!: bind_SomeE split: if_splits option.splits)
  then show ?thesis using wd mountpoint_typed [OF v] by blast
next
  case False
  then have "v' = v \<and> finddir_fs wd tok v = Some (Some m)"
    using k by (auto simp: kopen_step_def Let_def elim!: bind_SomeE split: if_splits option.splits)
  then show ?thesis using finddir_fs_typed [OF v wd] by blast
qed

lemma kopen_walk_typed:
  assumes v: "vfs_typed v"
  shows "node_live v wd \<Longrightarrow> kopen_walk before tok cs flags wd v = Some (v', Some m) \<Longrightarrow> node_live v m"
proof (induction cs arbitrary: before tok wd rule: length_induct)
  case (1 cs)
  show ?case
  proof (cases cs)
    case Nil
    then show ?thesis using 1(2,3) kopen_step_typed [OF v 1(2)] by (auto split: if_splits)
  next
    case (Cons c ds)
    show ?thesis
    proof (cases "c = slash")
      case True
      with 1(3) Cons obtain v1 wd1 e es where 2: "kopen_step (before @ tok) tok flags wd v = Some (v1, Some wd1)" "ds = e # es"
        "kopen_walk (before @ tok @ [c]) [e] es flags wd1 v1 = Some (v', Some m)"
        by (auto elim!: bind_SomeE split: option.splits list.splits)
      with kopen_step_typed [OF v 1(2) 2(1)] show ?thesis using 1(1) [rule_format, of es wd1] Cons by auto
    next
      case False
      then show ?thesis using 1(1) [rule_format, of ds wd] 1(2,3) Cons by auto
    qed
  qed
qed

lemma kopen_typed:
  assumes "vfs_typed v" and "kopen name flags v = Some (v', Some m)"
  shows "node_live v m"
proof -
  obtain root where root: "v_root v = Some root" using assms(2) by (cases "v_root v") (auto simp: kopen_def kopen_from_def Let_def)
  then have r: "node_live v (copy_node root)"
    using assms(1) by (simp add: vfs_typed_def mountable_def node_live_def copy_node_typed copy_node_tty)
  show ?thesis
    using assms(2) root r kopen_walk_typed [OF assms(1) r]
    by (auto simp: kopen_def kopen_from_def Let_def elim!: bind_SomeE split: if_splits)
qed

lemma readdir_tmpfs_typed:
  assumes "tmpfs_typed t" and "dir_object t n"
  shows "readdir_tmpfs n index t \<noteq> None"
proof -
  obtain i d where d: "n_device n = Dev_tmpfs i" "t_objs t i = Some (Dir d)" using assms(2) by (auto simp: dir_object_def)
  have b: "Option.bind (t_objs t (dr_files d ! k)) (\<lambda>x. Some (g x)) \<noteq> None" if "k < length (dr_files d)" for k and g :: "tmpfs_obj \<Rightarrow> dirent option"
    using assms(1) d(2) nth_mem [OF that] by (fastforce simp: tmpfs_typed_def)
  show ?thesis using d by (simp add: readdir_tmpfs_def device_id_def get_dir_def Let_def not_le b del: not_None_eq)
qed

section \<open>The file systems as a state machine\<close>

text \<open>
  What the kernel may do with its file systems: change the tree by path name, mount a typed node of a
  driver other than tmpfs, use any node at all, or run the terminals.
\<close>

inductive vfs_step :: "vfs \<Rightarrow> vfs \<Rightarrow> bool" where
  create: "create_file c name mode v = Some (v', r) \<Longrightarrow> vfs_step v v'"
| mkdir: "mkdir c name mode v = Some (v', r) \<Longrightarrow> vfs_step v v'"
| symlink: "symlink c target name v = Some (v', r) \<Longrightarrow> vfs_step v v'"
| unlink: "unlink c name v = Some (v', r) \<Longrightarrow> vfs_step v v'"
| mount: "device_id node = None \<Longrightarrow> node_live v node \<Longrightarrow> vfs_mount c path node v = Some (v', r) \<Longrightarrow> vfs_step v v'"
| write_node: "write_fs node offset sz buffer v = Some (v', k) \<Longrightarrow> vfs_step v v'"
| truncate_node: "truncate_fs node v = Some (v', r) \<Longrightarrow> vfs_step v v'"
| chmod_node: "chmod_fs node mode v = Some (v', r) \<Longrightarrow> vfs_step v v'"
| chown_node: "chown_fs node uid gid v = Some (v', r) \<Longrightarrow> vfs_step v v'"
| read_node: "read_fs node offset sz buffer v = Some (v', buffer', k) \<Longrightarrow> vfs_step v v'"
| close_node: "close_fs node v = Some v' \<Longrightarrow> vfs_step v v'"
| terminals: "tty_step (v_ttys v) y \<Longrightarrow> vfs_step v (v\<lparr>v_ttys := y\<rparr>)"
| devices: "make_devices c v = Some v' \<Longrightarrow> vfs_step v v'"

lemma vfs_typed_tmpfs: "vfs_typed v \<Longrightarrow> typed_step (v_tmpfs v) t \<Longrightarrow> vfs_typed (v\<lparr>v_tmpfs := t\<rparr>)"
  by (auto simp: vfs_typed_def typed_step_def intro: mountable_kept)

lemma vfs_typed_ttys: "vfs_typed v \<Longrightarrow> tty_step (v_ttys v) y \<Longrightarrow> vfs_typed (v\<lparr>v_ttys := y\<rparr>)"
  using tty_step_slaves [of "v_ttys v" y] tty_object_kept [of "v_ttys v" _ y] by (auto simp: vfs_typed_def slaves_kept_def)

lemma vfs_typed_on_tmpfs:
  "on_tmpfs r v = Some (v', x) \<Longrightarrow> vfs_typed v \<Longrightarrow> (\<And>t. r = Some (t, x) \<Longrightarrow> typed_step (v_tmpfs v) t) \<Longrightarrow> vfs_typed v'"
  by (auto simp: on_tmpfs_def intro: vfs_typed_tmpfs)

lemma vfs_typed_on_ttys:
  "on_ttys r v = Some (v', x) \<Longrightarrow> vfs_typed v \<Longrightarrow> (\<And>y. r = Some (y, x) \<Longrightarrow> tty_step (v_ttys v) y) \<Longrightarrow> vfs_typed v'"
  by (auto simp: on_ttys_def intro: vfs_typed_ttys)

lemma close_fs_typed: "close_fs node v = Some v' \<Longrightarrow> vfs_typed v \<Longrightarrow> vfs_typed v'"
  by (auto simp: close_fs_def split: option.splits close_fn.splits intro: vfs_typed_ttys tty_step.close_slave)

lemma typed_tmpfs: "vfs_typed v \<Longrightarrow> tmpfs_typed (v_tmpfs v)"
  by (simp add: vfs_typed_def)

lemma with_parent_cases:
  assumes "with_parent c name f v = Some (v', r)"
  shows "v' = v \<or> (\<exists>parent filename. f parent filename v = Some (v', r))"
proof (cases "name = []")
  case False
  with assms obtain v1 parent where k: "kopen name OPEN_FLAG_PARENT v = Some (v1, parent)"
    by (auto simp: with_parent_def elim!: bind_SomeE)
  then have "v1 = v" by (rule kopen_state)
  then show ?thesis
    using assms False k by (auto simp: with_parent_def elim!: bind_SomeE split: if_splits option.splits)
qed (use assms in \<open>simp add: with_parent_def\<close>)

lemma with_parent_typed:
  assumes "with_parent c name f v = Some (v', r)" and "vfs_typed v"
    and "\<And>parent filename. f parent filename v = Some (v', r) \<Longrightarrow> vfs_typed v'"
  shows "vfs_typed v'"
  using with_parent_cases [OF assms(1)] assms(2,3) by blast

lemmas tmpfs_ops_typed = create_tmpfs_typed mkdir_tmpfs_typed symlink_tmpfs_typed unlink_tmpfs_typed write_tmpfs_typed
  truncate_tmpfs_typed chmod_tmpfs_typed chown_tmpfs_typed

lemma tmpfs_then_close:
  assumes "on_tmpfs m v = Some (v1, x)" and "close_fs parent v1 = Some v'"
    and "vfs_typed v" and "\<And>t x. m = Some (t, x) \<Longrightarrow> typed_step (v_tmpfs v) t"
  shows "vfs_typed v'"
  by (rule close_fs_typed [OF assms(2) vfs_typed_on_tmpfs [OF assms(1,3)]]) (rule assms(4))

lemma path_ops_typed:
  assumes v: "vfs_typed v"
  shows "create_file c name mode v = Some (v', r) \<Longrightarrow> vfs_typed v'"
    and "mkdir c name mode v = Some (v', r) \<Longrightarrow> vfs_typed v'"
    and "symlink c target name v = Some (v', r) \<Longrightarrow> vfs_typed v'"
    and "unlink c name v = Some (v', r) \<Longrightarrow> vfs_typed v'"
proof -
  note ops = tmpfs_ops_typed [OF typed_tmpfs [OF v]]
  show "create_file c name mode v = Some (v', r) \<Longrightarrow> vfs_typed v'"
    "mkdir c name mode v = Some (v', r) \<Longrightarrow> vfs_typed v'"
    "symlink c target name v = Some (v', r) \<Longrightarrow> vfs_typed v'"
    "unlink c name v = Some (v', r) \<Longrightarrow> vfs_typed v'"
    unfolding create_file_def mkdir_def symlink_def unlink_def using v
    by (auto split: if_splits elim!: with_parent_typed bind_SomeE)
      (blast intro: tmpfs_then_close [OF _ _ v] ops close_fs_typed [OF _ v])+
qed

lemma node_ops_typed:
  assumes v: "vfs_typed v"
  shows "create_fs c n name mode v = Some (v', r) \<Longrightarrow> vfs_typed v'"
    and "mkdir_fs c n name mode v = Some (v', r) \<Longrightarrow> vfs_typed v'"
    and "truncate_fs n v = Some (v', r) \<Longrightarrow> vfs_typed v'"
    and "chmod_fs n mode v = Some (v', r) \<Longrightarrow> vfs_typed v'"
    and "chown_fs n uid gid v = Some (v', r) \<Longrightarrow> vfs_typed v'"
    and "write_fs n offset sz buffer v = Some (v', k) \<Longrightarrow> vfs_typed v'"
    and "read_fs n offset sz buffer v = Some (v', buffer', k) \<Longrightarrow> vfs_typed v'"
proof -
  note ops = tmpfs_ops_typed [OF typed_tmpfs [OF v]]
  show "create_fs c n name mode v = Some (v', r) \<Longrightarrow> vfs_typed v'"
    "mkdir_fs c n name mode v = Some (v', r) \<Longrightarrow> vfs_typed v'"
    "truncate_fs n v = Some (v', r) \<Longrightarrow> vfs_typed v'"
    "chmod_fs n mode v = Some (v', r) \<Longrightarrow> vfs_typed v'"
    "chown_fs n uid gid v = Some (v', r) \<Longrightarrow> vfs_typed v'"
    using v unfolding create_fs_def mkdir_fs_def truncate_fs_def chmod_fs_def chown_fs_def
    by (auto split: if_splits intro: vfs_typed_on_tmpfs [OF _ v] ops)
  show "write_fs n offset sz buffer v = Some (v', k) \<Longrightarrow> vfs_typed v'"
    unfolding write_fs_def using v
    by (auto split: option.splits write_fn.splits intro: vfs_typed_on_tmpfs [OF _ v] ops
        vfs_typed_on_ttys [OF _ v] tty_step.write_master tty_step.write_slave)
  show "read_fs n offset sz buffer v = Some (v', buffer', k) \<Longrightarrow> vfs_typed v'"
    unfolding read_fs_def using v
    by (auto split: option.splits read_fn.splits
        intro: vfs_typed_on_ttys [OF _ v] tty_step.read_master tty_step.read_slave)
qed

lemma slaves_kept_refl [simp]: "slaves_kept y y"
  by (simp add: slaves_kept_def)

lemma close_fs_ttys: "close_fs node v = Some v' \<Longrightarrow> slaves_kept (v_ttys v) (v_ttys v')"
  by (auto simp: close_fs_def split: option.splits close_fn.splits intro: tty_step_slaves [OF tty_step.close_slave])

lemma create_file_ttys:
  assumes "create_file c name mode v = Some (v', r)"
  shows "slaves_kept (v_ttys v) (v_ttys v')"
proof (cases "name = [slash]")
  case False
  with assms consider "v' = v" | parent filename where
    "do { this \<leftarrow> finddir_fs parent filename v;
          if this \<noteq> None then Some (v, - EEXIST)
          else if \<not> n_zeroed parent then None
          else do {
            (v, result) \<leftarrow> (if n_create_tmpfs parent then on_tmpfs (create_tmpfs c parent filename mode (v_tmpfs v)) v else Some (v, - EROFS));
            v \<leftarrow> close_fs parent v;
            Some (v, result) } } = Some (v', r)"
    unfolding create_file_def by (auto dest!: with_parent_cases)
  then show ?thesis by cases (auto simp: on_tmpfs_def elim!: bind_SomeE dest!: close_fs_ttys split: if_splits)
qed (use assms in \<open>simp add: create_file_def\<close>)

lemma vfs_mount_typed:
  assumes v: "vfs_typed v" and n: "device_id node = None" "node_live v node"
    and m: "vfs_mount c path node v = Some (v', r)"
  shows "vfs_typed v'"
proof -
  from m obtain v1 x where 1: "create_file c path 0 v = Some (v1, x)" by (auto simp: vfs_mount_def elim!: bind_SomeE)
  have t: "vfs_typed v1" by (rule path_ops_typed(1) [OF v 1])
  have d: "n_device node \<noteq> Dev_tmpfs i" for i using n(1) device_id_obj [of node i] by auto
  then have "\<not> file_object t1 node" "\<not> dir_object t1 node" for t1 by (simp_all add: file_object_def dir_object_def)
  then have "node_typed (v_tmpfs v1) node" using n(2) unfolding node_live_def node_typed_def by blast
  then have "mountable (v_tmpfs v1) node" using d by (simp add: mountable_def)
  moreover have "tty_object (v_ttys v1) node" using n(2) tty_object_kept [OF _ create_file_ttys [OF 1]] by (simp add: node_live_def)
  moreover have "v_tmpfs v' = v_tmpfs v1 \<and> v_ttys v' = v_ttys v1 \<and> v_root v' = v_root v1 \<and>
      set (v_mounts v') \<subseteq> insert (path, node) (set (v_mounts v1))"
    using m 1 by (auto simp: vfs_mount_def split: if_splits)
  ultimately show ?thesis using t by (auto simp: vfs_typed_def)
qed

lemma device_nodes_typed:
  "node_live v create_null_device" "node_live v create_zero_device" "node_live v create_pty_dir" "node_live v create_dev_tty"
  "device_id create_null_device = None" "device_id create_zero_device = None" "device_id create_pty_dir = None" "device_id create_dev_tty = None"
  by (simp_all add: node_live_def node_typed_def tty_object_def device_id_def create_null_device_def create_zero_device_def create_pty_dir_def create_dev_tty_def fs_node_zero_def)

lemma make_devices_typed:
  assumes m: "make_devices c v = Some v'" and v: "vfs_typed v"
  shows "vfs_typed v'"
proof -
  from m obtain v1 r1 v2 r2 v3 r3 v4 r4 v5 r5 r6 where s: "mkdir c ''/tmp'' 0x1FF v = Some (v1, r1)" "mkdir c ''/dev'' 0 v1 = Some (v2, r2)"
    "vfs_mount c ''/dev/null'' create_null_device v2 = Some (v3, r3)" "vfs_mount c ''/dev/zero'' create_zero_device v3 = Some (v4, r4)"
    "vfs_mount c ''/dev/pts'' create_pty_dir (v4\<lparr>v_ttys := (v_ttys v4)\<lparr>y_capacity := 32\<rparr>\<rparr>) = Some (v5, r5)"
    "vfs_mount c ''/dev/tty'' create_dev_tty v5 = Some (v', r6)"
    by (auto simp: make_devices_def zerofs_mount_def pty_init_def Let_def elim!: bind_SomeE)
  have "vfs_typed v2" using path_ops_typed(2) [OF path_ops_typed(2) [OF v s(1)] s(2)] .
  then have "vfs_typed v4"
    using vfs_mount_typed [OF vfs_mount_typed [OF _ _ _ s(3)] _ _ s(4)] device_nodes_typed by blast
  then have "vfs_typed (v4\<lparr>v_ttys := (v_ttys v4)\<lparr>y_capacity := 32\<rparr>\<rparr>)" by (simp add: vfs_typed_def slaves_typed_def tty_object_def)
  then show ?thesis
    using vfs_mount_typed [OF vfs_mount_typed [OF _ _ _ s(5)] _ _ s(6)] device_nodes_typed by blast
qed

lemma vfs_step_typed: "vfs_step v v' \<Longrightarrow> vfs_typed v \<Longrightarrow> vfs_typed v'"
  by (induction rule: vfs_step.induct)
    (blast intro: path_ops_typed node_ops_typed vfs_mount_typed close_fs_typed vfs_typed_ttys make_devices_typed)+

lemma vfs_steps_typed: "vfs_step\<^sup>*\<^sup>* v v' \<Longrightarrow> vfs_typed v \<Longrightarrow> vfs_typed v'"
  by (induction rule: rtranclp_induct) (blast intro: vfs_step_typed)+

section \<open>The boot of the file systems\<close>

lemma copying_typed:
  "write_all target offset to_copy to_write buf v = Some (v', k) \<Longrightarrow> vfs_typed v \<Longrightarrow> vfs_typed v'"
  "copy_data node target offset remaining buf v = Some (v', k) \<Longrightarrow> vfs_typed v \<Longrightarrow> vfs_typed v'"
  "copy_file junk c to node v = Some v' \<Longrightarrow> vfs_typed v \<Longrightarrow> vfs_typed v'"
proof -
  have wa: "write_all target offset to_copy to_write buf v = Some y \<Longrightarrow> vfs_typed v \<longrightarrow> vfs_typed (fst y)"
    for target offset to_copy to_write buf v y
  proof (erule write_all.raw_induct [rotated], goal_cases)
    case (1 write_all target offset to_copy to_write buf v y)
    from 1(2) consider "y = (v, True)"
      | v1 k where "write_fs target (sub64 (add64 offset to_copy) to_write) to_write buf v = Some (v1, k)"
        "y = (v1, False) \<or> write_all target offset to_copy (to_write - k) buf v1 = Some y"
      by (auto split: if_splits elim!: bind_SomeE)
    then show ?case
    proof cases
      case (2 v1 k)
      then show ?thesis using 1(1) [of target offset to_copy "to_write - k" buf v1 y] node_ops_typed(6) [OF _ 2(1)] by auto
    qed simp
  qed
  have cd: "copy_data node target offset remaining buf v = Some y \<Longrightarrow> vfs_typed v \<longrightarrow> vfs_typed (fst y)"
    for node target offset remaining buf v y
  proof (erule copy_data.raw_induct [rotated], goal_cases)
    case (1 copy_data node target offset remaining buf v y)
    from 1(2) consider "y = (v, True)"
      | v1 b k where "read_fs node offset (min remaining 1024) buf v = Some (v1, b, k)" "y = (v1, False)"
      | v1 b k v2 ok where "read_fs node offset (min remaining 1024) buf v = Some (v1, b, k)"
        "write_all target offset k k b v1 = Some (v2, ok)"
        "y = (v2, False) \<or> copy_data node target (add64 offset k) (remaining - k) b v2 = Some y"
      by (auto split: if_splits elim!: bind_SomeE)
    then show ?case
    proof cases
      case (2 v1 b k)
      then show ?thesis using node_ops_typed(7) [OF _ 2(1)] by simp
    next
      case (3 v1 b k v2 ok)
      then show ?thesis
        using 1(1) [of node target "add64 offset k" "remaining - k" b v2 y] node_ops_typed(7) [OF _ 3(1)] wa [OF 3(2)] by auto
    qed simp
  qed
  show "write_all target offset to_copy to_write buf v = Some (v', k) \<Longrightarrow> vfs_typed v \<Longrightarrow> vfs_typed v'"
    using wa by fastforce
  show "copy_data node target offset remaining buf v = Some (v', k) \<Longrightarrow> vfs_typed v \<Longrightarrow> vfs_typed v'"
    using cd by fastforce
  assume f: "copy_file junk c to node v = Some v'" and v: "vfs_typed v"
  from f consider v1 r where "create_fs c to (n_name node) 0x1FF v = Some (v1, r)" "v' = v1"
    | v1 r target v2 x where "create_fs c to (n_name node) 0x1FF v = Some (v1, r)"
      "copy_data node target 0 (unat (n_length node)) junk v1 = Some (v2, x)" "close_fs target v2 = Some v'"
    by (auto simp: copy_file_def split: if_splits option.splits elim!: bind_SomeE)
  then show "vfs_typed v'"
  proof cases
    case (2 v1 r target v2 x)
    show ?thesis using close_fs_typed [OF 2(3)] cd [OF 2(2)] node_ops_typed(1) [OF v 2(1)] by simp
  qed (use node_ops_typed(1) [OF v] in simp)
qed

lemma copy_entries_typed:
  "copy_entries junk c to src i v = Some v' \<Longrightarrow> vfs_typed v \<longrightarrow> vfs_typed v'"
proof (erule copy_entries.raw_induct [rotated], goal_cases)
  case (1 rec junk c to src i v v')
  have IH: "rec junk c to src i v = Some v' \<Longrightarrow> vfs_typed v \<Longrightarrow> vfs_typed v'" for junk c to src i v v'
    using 1(1) by blast
  obtain dirent where dirent: "readdir_fs src i v = Some dirent" using 1(2) by (auto elim!: bind_SomeE)
  show ?case
  proof (cases dirent)
    case None
    then show ?thesis using 1(2) dirent by simp
  next
    case (Some d)
    note body = 1(2) [unfolded dirent Some bind.simps option.simps]
    obtain found where found: "finddir_fs src (d_name d) v = Some found" using body by (auto elim!: bind_SomeE)
    show ?thesis
    proof (cases found)
      case None
      then show ?thesis using body found IH by simp
    next
      case (Some node)
      from body [unfolded found Some bind.simps option.simps Let_def open_fs_id] obtain v1 v2
        where 2: "(if n_flags node AND FS_FILE \<noteq> 0 then copy_file junk c to node v
          else if n_flags node AND FS_DIRECTORY \<noteq> 0 then do {
            (v, result) \<leftarrow> mkdir_fs c to (n_name node) 0x1FF v;
            if result \<noteq> 0 then Some v
            else do {
              target \<leftarrow> finddir_fs to (n_name node) v;
              (case target of None \<Rightarrow> Some v
               | Some target \<Rightarrow> do { v \<leftarrow> rec junk c target node 0 v; close_fs target v }) } }
          else Some v) = Some v1" "close_fs node v1 = Some v2" "rec junk c to src (add64 i 1) v2 = Some v'"
        by (elim bind_SomeE)
      show ?thesis
      proof
        assume v: "vfs_typed v"
        have "vfs_typed v1"
        proof (cases "n_flags node AND FS_FILE \<noteq> 0 \<or> n_flags node AND FS_DIRECTORY = 0")
          case True
          then show ?thesis using 2(1) v copying_typed(3) [OF _ v] by (auto split: if_splits)
        next
          case False
          then obtain v3 r where 3: "mkdir_fs c to (n_name node) 0x1FF v = Some (v3, r)" using 2(1) by (auto elim!: bind_SomeE)
          have v3: "vfs_typed v3" by (rule node_ops_typed(2) [OF v 3])
          from 2(1) False 3 consider "v1 = v3" | target v4 where "rec junk c target node 0 v3 = Some v4" "close_fs target v4 = Some v1"
            by (auto elim!: bind_SomeE split: if_splits option.splits)
          then show ?thesis using v3 IH close_fs_typed by cases blast+
        qed
        then show "vfs_typed v'" using close_fs_typed [OF 2(2)] IH [OF 2(3)] by simp
      qed
    qed
  qed
qed

lemma mount_root_typed:
  assumes m: "mount_root junk c v = Some v'" and v: "t_objs (v_tmpfs v) = (\<lambda>_. None)" "slaves_typed (v_ttys v)"
  shows "vfs_typed v'"
proof -
  obtain t root where t: "tmpfs_create ''/'' (v_tmpfs v) = (t, root)" by fastforce
  let ?v = "(vfs_init v)\<lparr>v_tmpfs := t, v_root := Some root\<rparr>"
  obtain i d where d: "t_objs t = [i \<mapsto> Dir d]" "t_next t = Suc i" "root = tmpfs_from_dir i d" "dr_files d = []"
    using t v(1) by (auto simp: tmpfs_create_def Let_def new_obj_def put_obj_def tmpfs_new_dir_def)
  then have "tmpfs_typed t" by (simp add: tmpfs_typed_def)
  moreover have "mountable t root"
    unfolding mountable_def d(3) using object_nodes_typed(2) [of t i d] d(1)
    by (auto simp: dir_object_def tmpfs_from_dir_def)
  moreover have "tty_object y root" for y by (simp add: d(3))
  ultimately have "vfs_typed ?v" using v(2) by (simp add: vfs_typed_def vfs_init_def)
  moreover from m t obtain src where "copy_directory junk c (Some root) src ?v = Some v'"
    by (auto simp: mount_root_def vfs_init_def elim!: bind_SomeE)
  ultimately show ?thesis using copy_entries_typed by (auto simp: copy_directory_def split: option.splits)
qed

text \<open>
  C9. Every function of a node obtained by its path name finds the object to which it casts the device of
  the node. When \<open>kmain\<close> has built the root file system, and after any sequence of creating, linking,
  removing, mounting, reading, writing, truncating, changing of modes and owners, closing and terminal
  activity, the file systems are typed, and every node that a path name leads to in that state is typed:
  functions of tmpfs on files have a file that exists, functions of tmpfs on directories a directory
  that exists, functions of a terminal a terminal that exists, and functions of the RAM disk a device of
  the RAM disk. Listing or searching a directory of tmpfs then never fails. A node that was opened earlier
  is not covered: the file behind it may have been unlinked since.
\<close>

theorem nodes_typed:
  assumes "mount_root junk c v0 = Some v1" and "t_objs (v_tmpfs v0) = (\<lambda>_. None)" and "slaves_typed (v_ttys v0)"
    and "vfs_step\<^sup>*\<^sup>* v1 v"
  shows "vfs_typed v \<and> (\<forall>name flags v' n. kopen name flags v = Some (v', Some n) \<longrightarrow>
    node_typed (v_tmpfs v) n \<and> tty_object (v_ttys v) n \<and>
    (n_finddir n = Some Finddir_tmpfs \<longrightarrow> (\<forall>s. finddir_tmpfs n s (v_tmpfs v) \<noteq> None)) \<and>
    (n_readdir n = Some Readdir_tmpfs \<longrightarrow> (\<forall>i. readdir_tmpfs n i (v_tmpfs v) \<noteq> None)))"
proof -
  have v: "vfs_typed v" by (rule vfs_steps_typed [OF assms(4) mount_root_typed [OF assms(1,2,3)]])
  have "node_typed (v_tmpfs v) n \<and> tty_object (v_ttys v) n \<and>
      (n_finddir n = Some Finddir_tmpfs \<longrightarrow> (\<forall>s. finddir_tmpfs n s (v_tmpfs v) \<noteq> None)) \<and>
      (n_readdir n = Some Readdir_tmpfs \<longrightarrow> (\<forall>i. readdir_tmpfs n i (v_tmpfs v) \<noteq> None))"
    if k: "kopen name flags v = Some (v', Some n)" for name flags v' n
  proof -
    have n: "node_typed (v_tmpfs v) n" "tty_object (v_ttys v) n" using kopen_typed [OF v k] by (simp_all add: node_live_def)
    then have "dir_object (v_tmpfs v) n" if "n_finddir n = Some Finddir_tmpfs \<or> n_readdir n = Some Readdir_tmpfs"
      using that by (auto simp: node_typed_def)
    then show ?thesis
      using n finddir_tmpfs_typed [OF typed_tmpfs [OF v], of n] readdir_tmpfs_typed [OF typed_tmpfs [OF v], of n] by fastforce
  qed
  with v show ?thesis by blast
qed

section \<open>Witness\<close>

text \<open>An empty machine without a RAM disk, on which one terminal is opened.\<close>

definition empty_vfs :: vfs where
  "empty_vfs = example_vfs\<lparr>v_tmpfs := example_tmpfs\<lparr>t_objs := (\<lambda>_. None), t_next := 0\<rparr>, v_ramdisk := \<lparr>rd_base = 0, rd_image = []\<rparr>\<rparr>"

lemma nodes_typed_witness:
  "\<exists>v n y. mount_root [] root_cred empty_vfs = Some v \<and> kopen ''/'' 0 (v\<lparr>v_ttys := y\<rparr>) = Some (v\<lparr>v_ttys := y\<rparr>, Some n) \<and>
     n_finddir n = Some Finddir_tmpfs \<and> finddir_tmpfs n ''a'' (v_tmpfs v) \<noteq> None"
proof -
  obtain v where v: "mount_root [] root_cred empty_vfs = Some v" "v_ttys v = tty_start"
    by (auto simp: mount_root_def ramdiskfs_open_def empty_vfs_def vfs_init_def copy_directory_def tmpfs_create_def Let_def new_obj_def
        example_vfs_def)
  let ?y = "fst (pty_new root_cred [] [] None 1 tty_start)"
  have "vfs_step\<^sup>*\<^sup>* v (v\<lparr>v_ttys := ?y\<rparr>)"
    using vfs_step.terminals [of v ?y] tty_step.new v(2) by auto
  moreover have "t_objs (v_tmpfs empty_vfs) = (\<lambda>_. None)" "slaves_typed (v_ttys empty_vfs)"
    by (simp_all add: empty_vfs_def example_vfs_def tty_start_def slaves_typed_def)
  ultimately have t: "\<forall>name flags v' n. kopen name flags (v\<lparr>v_ttys := ?y\<rparr>) = Some (v', Some n) \<longrightarrow>
      (n_finddir n = Some Finddir_tmpfs \<longrightarrow> (\<forall>s. finddir_tmpfs n s (v_tmpfs v) \<noteq> None))"
    using nodes_typed [OF v(1)] by fastforce
  obtain n where "kopen ''/'' 0 (v\<lparr>v_ttys := ?y\<rparr>) = Some (v\<lparr>v_ttys := ?y\<rparr>, Some n)" "n_finddir n = Some Finddir_tmpfs"
    using v(1) by (auto simp: mount_root_def ramdiskfs_open_def empty_vfs_def vfs_init_def copy_directory_def tmpfs_create_def
        Let_def new_obj_def kopen_def kopen_from_def slash_def copy_node_def tmpfs_from_dir_def fs_node_zero_def)
  with t v(1) show ?thesis by blast
qed

end
