(* ===== verification/Kmain.thy ===== *)
theory Kmain
  imports Nodetypes Kprintf
begin

unbundle bit_operations_syntax

text \<open>
  What \<open>kmain\<close> of \<open>kernel/kmain.c\<close> does with the file systems once they are built: the listing of the file
  hierarchy (\<open>dir_dump\<close>), whose output is the text on the terminal, the first terminal, and the memory
  behind the framebuffer.
\<close>

section \<open>The listing of the file hierarchy\<close>

text \<open>The indentation in front of an entry.\<close>

definition dump_line :: "int \<Rightarrow> string" where
  "dump_line level = (if level > 0 then [CHR 0x0A] else []) @ concat (replicate (nat (level - 1)) ''  '')
     @ (if level \<noteq> 0 then '' - '' else [])"

definition dump_lookup :: "vfs \<Rightarrow> fs_node \<Rightarrow> string \<Rightarrow> string \<Rightarrow> fs_node option option" where
  "dump_lookup v node file_path name = (case vfs_get_mountpoint file_path v of
       Some n \<Rightarrow> Some (Some n) | None \<Rightarrow> finddir_fs node name v)"

text \<open>
  The loop, from the entry \<open>d\<close> with the index \<open>i\<close> on. The path of an entry is built in a buffer of 512
  characters. A name with a dot in front is skipped by a jump over the initialisation of
  \<open>has_name\<close>, which the end of the loop reads on level 0.
\<close>

partial_function (option) dump_loop :: "vfs \<Rightarrow> fs_node \<Rightarrow> int \<Rightarrow> string \<Rightarrow> nat \<Rightarrow> dirent option \<Rightarrow> string option" where
  "dump_loop v node level path i d = (case d of None \<Rightarrow> Some []
     | Some d \<Rightarrow>
         if i = 2147483647 then None
         else do {
           (out, has_name) \<leftarrow> (if d_name d \<noteq> [] \<and> hd (d_name d) = CHR ''.'' then Some ([], False)
             else do {
               (name, _) \<leftarrow> kprintf ''%s '' [Va_text (d_name d)];
               if 512 \<le> length path + 1 + length (d_name d) then None
               else do {
                 let file_path = path @ [slash] @ d_name d;
                 found \<leftarrow> dump_lookup v node file_path (d_name d);
                 below \<leftarrow> (case found of None \<Rightarrow> Some ''(invalid) ''
                   | Some n \<Rightarrow>
                       if n_flags n AND FS_DIRECTORY \<noteq> 0 then do {
                         first \<leftarrow> readdir_fs n 0 v;
                         out \<leftarrow> dump_loop v n (level + 1) file_path 0 first;
                         Some (''(directory) '' @ out @ (if level + 1 = 0 then [CHR 0x0A] else [])) }
                       else Some []);
                 Some (dump_line level @ name @ below, True) } });
           following \<leftarrow> readdir_fs node (Suc i) v;
           sep \<leftarrow> (if level = 0 \<and> following \<noteq> None then (if has_name then Some [CHR 0x0A] else None) else Some []);
           rest \<leftarrow> dump_loop v node level path (Suc i) following;
           Some (out @ sep @ rest) })"

definition dir_dump :: "vfs \<Rightarrow> fs_node \<Rightarrow> int \<Rightarrow> string \<Rightarrow> string option" where
  "dir_dump v root_node level path = do {
     first \<leftarrow> readdir_fs root_node 0 v;
     out \<leftarrow> dump_loop v root_node level path 0 first;
     Some (out @ (if level = 0 then [CHR 0x0A] else [])) }"

section \<open>The first terminal\<close>

text \<open>Terminal 1 prints on the console, and leaves newlines as they are.\<close>

definition first_terminal :: "cred \<Rightarrow> u8 list \<Rightarrow> u8 list \<Rightarrow> ttys \<Rightarrow> (ttys \<times> nat) option" where
  "first_terminal c g1 g2 y = (let (y, i) = pty_new c g1 g2 None 1 y in do {
     p \<leftarrow> y_ptys y i;
     let y = put_pty i (p\<lparr>pty_write_out := Terminal_pty_putchar\<rparr>) y;
     p \<leftarrow> y_ptys y i;
     let ios = (pty_ios p)\<lparr>oflag := oflag (pty_ios p) AND NOT ONLCR\<rparr>;
     Some (put_pty i (p\<lparr>pty_ios := ios\<rparr>) y, i) })"

text \<open>The files and terminals of a booted kernel.\<close>

definition boot_files :: "u8 list \<Rightarrow> u8 list \<Rightarrow> u8 list \<Rightarrow> cred \<Rightarrow> vfs \<Rightarrow> (vfs \<times> nat) option" where
  "boot_files junk g1 g2 c v = do {
     v \<leftarrow> mount_root junk c v;
     v \<leftarrow> make_devices c v;
     (y, i) \<leftarrow> first_terminal c g1 g2 (v_ttys v);
     Some (v\<lparr>v_ttys := y\<rparr>, i) }"

section \<open>The memory behind the framebuffer\<close>

definition reserve_framebuffer :: "nat \<Rightarrow> nat \<Rightarrow> mmu \<Rightarrow> (mmu \<times> u64) option" where
  "reserve_framebuffer width height m = (let
     lfb_size = width * height * 4 mod 18446744073709551616;
     lfb_pages = add64 lfb_size 0x1000 div 0x1000
     in do {
       index \<leftarrow> mmu_request_frames (sint (of_nat lfb_pages :: u32)) m;
       let base = push_bit 12 index;
       m \<leftarrow> for_frames mmu_lock_frame base lfb_pages m;
       let buffer = mmu_from_physical base;
       Some (m\<lparr>kmem := kset (kmem m) buffer 0 lfb_size\<rparr>, buffer) })"

section \<open>The listing shows the tree\<close>

text \<open>A tree of names as the listing sees it, and the text it gives.\<close>

datatype ftree = Hidden string | Missing string | Leaf string | Branch string "ftree list"

fun tree_name :: "ftree \<Rightarrow> string" where
  "tree_name (Hidden s) = s"
| "tree_name (Missing s) = s"
| "tree_name (Leaf s) = s"
| "tree_name (Branch s ts) = s"

fun render :: "int \<Rightarrow> ftree \<Rightarrow> string" where
  "render level (Hidden s) = []"
| "render level (Missing s) = dump_line level @ s @ '' (invalid) ''"
| "render level (Leaf s) = dump_line level @ s @ '' ''"
| "render level (Branch s ts) = dump_line level @ s @ '' (directory) '' @ concat (map (render (level + 1)) ts)"

fun rows :: "int \<Rightarrow> ftree list \<Rightarrow> string" where
  "rows level [] = []"
| "rows level (t # ts) = render level t @ (if level = 0 \<and> ts \<noteq> [] then [CHR 0x0A] else []) @ rows level ts"

lemma rows_below: "level \<noteq> 0 \<Longrightarrow> rows level ts = concat (map (render level) ts)"
  by (induction ts) auto

definition names_listed :: "vfs \<Rightarrow> fs_node \<Rightarrow> string list \<Rightarrow> bool" where
  "names_listed v node ns \<longleftrightarrow> length ns < 2147483648 \<and> readdir_fs node (length ns) v = Some None \<and>
     (\<forall>i < length ns. \<exists>d. readdir_fs node i v = Some (Some d) \<and> d_name d = ns ! i)"

definition hidden_name :: "string \<Rightarrow> bool" where
  "hidden_name s \<longleftrightarrow> s \<noteq> [] \<and> hd s = CHR ''.''"

text \<open>What the entry of a directory is; a branch carries what its directory lists.\<close>

fun tree_at :: "vfs \<Rightarrow> string \<Rightarrow> fs_node \<Rightarrow> ftree \<Rightarrow> bool" where
  "tree_at v path node (Hidden s) \<longleftrightarrow> hidden_name s"
| "tree_at v path node (Missing s) \<longleftrightarrow> \<not> hidden_name s \<and> length path + 1 + length s < 512 \<and>
     dump_lookup v node (path @ slash # s) s = Some None"
| "tree_at v path node (Leaf s) \<longleftrightarrow> \<not> hidden_name s \<and> length path + 1 + length s < 512 \<and>
     (\<exists>n. dump_lookup v node (path @ slash # s) s = Some (Some n) \<and> n_flags n AND FS_DIRECTORY = 0)"
| "tree_at v path node (Branch s ts) \<longleftrightarrow> \<not> hidden_name s \<and> length path + 1 + length s < 512 \<and>
     (\<exists>n. dump_lookup v node (path @ slash # s) s = Some (Some n) \<and> n_flags n AND FS_DIRECTORY \<noteq> 0 \<and>
        names_listed v n (map tree_name ts) \<and> (\<forall>t \<in> set ts. tree_at v (path @ slash # s) n t))"

lemma kprintf_name: "\<exists>k. kprintf ''%s '' [Va_text s] = Some (s @ '' '', k)"
  by (simp add: kprintf_def kvprintf_def parse_spec_def parse_count_def parse_length_def spec_init_def isdigit_def less_eq_char_def
      convert_def print_string_def next_text_def put_text_def)

definition dumps_below :: "vfs \<Rightarrow> ftree list \<Rightarrow> bool" where
  "dumps_below v ts \<longleftrightarrow> (\<forall>path n level d. 0 < level \<longrightarrow> names_listed v n (map tree_name ts) \<longrightarrow> (\<forall>t \<in> set ts. tree_at v path n t) \<longrightarrow>
     readdir_fs n 0 v = Some d \<longrightarrow> dump_loop v n level path 0 d = Some (rows level ts))"

lemma names_listed_first: "names_listed v n ns \<Longrightarrow> i \<le> length ns \<Longrightarrow> \<exists>d. readdir_fs n i v = Some d \<and> (d = None \<longleftrightarrow> i = length ns)"
proof (cases "i = length ns")
  case False
  moreover assume l: "names_listed v n ns" and "i \<le> length ns"
  ultimately have "i < length ns" by simp
  then obtain d where "readdir_fs n i v = Some (Some d)" using l unfolding names_listed_def by blast
  then show ?thesis using False by simp
qed (simp add: names_listed_def)

lemma dump_loop_rows:
  assumes listed: "names_listed v node (map tree_name ts)" and at: "\<forall>t \<in> set ts. tree_at v path node t"
    and level: "0 \<le> level" "level = 0 \<Longrightarrow> \<forall>s. Hidden s \<notin> set (butlast ts)"
    and below: "\<And>s us. Branch s us \<in> set ts \<Longrightarrow> dumps_below v us"
    and i: "i \<le> length ts" and d: "readdir_fs node i v = Some d"
  shows "dump_loop v node level path i d = Some (rows level (drop i ts))"
  using i d
proof (induction "length ts - i" arbitrary: i d)
  case 0
  then have "d = None" "i = length ts" using names_listed_first [OF listed, of i] by auto
  then show ?case by (subst dump_loop.simps) simp
next
  case (Suc m)
  then have i: "i < length ts" by simp
  then obtain e where d: "d = Some e" "d_name e = tree_name (ts ! i)"
    using listed Suc.prems(2) unfolding names_listed_def by fastforce
  obtain d2 where d2: "readdir_fs node (Suc i) v = Some d2" "d2 = None \<longleftrightarrow> Suc i = length ts"
    using names_listed_first [OF listed, of "Suc i"] i by auto
  have rest: "dump_loop v node level path (Suc i) d2 = Some (rows level (drop (Suc i) ts))"
    using Suc.hyps(1) [of "Suc i" d2] Suc.hyps(2) i d2(1) by simp
  have dr: "drop i ts = ts ! i # drop (Suc i) ts" using i by (simp add: Cons_nth_drop_Suc)
  have more: "drop (Suc i) ts \<noteq> [] \<longleftrightarrow> d2 \<noteq> None" using i d2(2) by auto
  have small: "i \<noteq> 2147483647" using i listed by (simp add: names_listed_def)
  have t: "tree_at v path node (ts ! i)" "ts ! i \<in> set ts" using at i by auto
  show ?case
  proof (cases "ts ! i")
    case (Hidden s)
    have "level \<noteq> 0 \<or> d2 = None"
    proof (rule ccontr)
      assume "\<not> (level \<noteq> 0 \<or> d2 = None)"
      then have l: "level = 0" "Suc i < length ts" using d2(2) i by auto
      then have "ts ! i = butlast ts ! i" "i < length (butlast ts)" by (simp_all add: nth_butlast)
      then have "Hidden s \<in> set (butlast ts)" using Hidden nth_mem by metis
      then show False using level(2) l(1) by blast
    qed
    then show ?thesis using Hidden t(1) d rest d2(1) small dr more
      by (subst dump_loop.simps) (auto simp: hidden_name_def)
  next
    case (Missing s)
    obtain k where k: "kprintf ''%s '' [Va_text s] = Some (s @ '' '', k)" using kprintf_name by blast
    show ?thesis using Missing t(1) d rest d2(1) small dr k more
      by (subst dump_loop.simps) (auto simp: hidden_name_def)
  next
    case (Leaf s)
    obtain k where k: "kprintf ''%s '' [Va_text s] = Some (s @ '' '', k)" using kprintf_name by blast
    show ?thesis using Leaf t(1) d rest d2(1) small dr k more
      by (subst dump_loop.simps) (auto simp: hidden_name_def)
  next
    case (Branch s us)
    obtain k where k: "kprintf ''%s '' [Va_text s] = Some (s @ '' '', k)" using kprintf_name by blast
    from t(1) Branch obtain n where n: "dump_lookup v node (path @ slash # s) s = Some (Some n)" "n_flags n AND FS_DIRECTORY \<noteq> 0"
      "names_listed v n (map tree_name us)" "\<forall>t \<in> set us. tree_at v (path @ slash # s) n t" by auto
    obtain first where f: "readdir_fs n 0 v = Some first" using names_listed_first [OF n(3), of 0] by auto
    have "dump_loop v n (level + 1) (path @ slash # s) 0 first = Some (concat (map (render (level + 1)) us))"
      using below [of s us] t(2) Branch n(3,4) f level(1) unfolding dumps_below_def by (simp add: rows_below)
    then show ?thesis using Branch t(1) d rest d2(1) small dr k more n(1,2) f level(1)
      by (subst dump_loop.simps) (auto simp: hidden_name_def)
  qed
qed

lemma size_branch: "Branch s us \<in> set ts \<Longrightarrow> size_list size us < size_list size ts"
  using size_list_estimation [of "Branch s us" ts "size_list size us" size] by simp

lemma dumps_below_all: "dumps_below v ts"
proof (induction ts rule: measure_induct_rule [of "size_list size"])
  case (less ts)
  show ?case
    unfolding dumps_below_def
  proof (intro allI impI)
    fix path n level d
    assume "0 < (level :: int)" "names_listed v n (map tree_name ts)" "\<forall>t \<in> set ts. tree_at v path n t" "readdir_fs n 0 v = Some d"
    then show "dump_loop v n level path 0 d = Some (rows level ts)"
      using dump_loop_rows [of v n ts path level 0 d] less [OF size_branch] by simp
  qed
qed

text \<open>
  C37. The listing of the file hierarchy that the kernel prints when it has booted shows the tree below a
  directory, and ends: one line for each entry of the root, and below a directory one indented line for
  each of its entries, in the order of the directory, with mounted nodes in the place of what they
  cover. An entry that cannot be found again by its name is marked \<open>(invalid)\<close>; names with a dot in front are left
  out. Such a name may be in any directory below the root, but in the root only as its last entry: in front of another
  one the code reads a variable whose initialisation it jumped over (\<open>hidden_name_uninitialised\<close>). Paths are
  shorter than the 512 characters of their buffer.
\<close>

theorem dir_dump_shows_tree:
  assumes "names_listed v root (map tree_name ts)" and "\<forall>t \<in> set ts. tree_at v path root t" and "\<forall>s. Hidden s \<notin> set (butlast ts)"
  shows "dir_dump v root 0 path = Some (rows 0 ts @ [CHR 0x0A])"
proof -
  obtain d where d: "readdir_fs root 0 v = Some d" using names_listed_first [OF assms(1), of 0] by auto
  then have "dump_loop v root 0 path 0 d = Some (rows 0 ts)"
    using dump_loop_rows [OF assms(1,2) _ _ dumps_below_all, of 0 0 d] assms(3) by simp
  then show ?thesis using d by (simp add: dir_dump_def)
qed

text \<open>The file \<open>/a\<close> with the null device over it, and an empty directory \<open>/d\<close>.\<close>

lemma dir_dump_shows_tree_witness:
  "dir_dump example_vfs (tmpfs_from_dir 0 example_dir) 0 [] = Some (''a '' @ CHR 0x0A # ''d (directory) '' @ [CHR 0x0A])"
proof -
  let ?root = "tmpfs_from_dir 0 example_dir" and ?d = "tmpfs_new_dir ''d'' (Some 0)"
  let ?ts = "[Leaf ''a'', Branch ''d'' [Hidden ''.'', Hidden ''..'']]"
  have objs: "t_objs example_tmpfs 1 = Some (File example_file)" "t_objs example_tmpfs 2 = Some (Dir ?d)" "t_root example_tmpfs = 0"
    by (simp_all add: example_tmpfs_def)
  have names: "f_name example_file = ''a''" "dr_name ?d = ''d''" "dr_files ?d = []"
    by (simp_all add: example_file_def tmpfs_new_file_def tmpfs_new_dir_def)
  have root: "names_listed example_vfs ?root (map tree_name ?ts)"
    using objs names by (auto simp: names_listed_def readdir_fs_def readdir_tmpfs_def tmpfs_from_dir_def fs_node_zero_def device_id_def less_Suc_eq obj_name_def)
  have null: "dump_lookup example_vfs ?root ''/a'' ''a'' = Some (Some create_null_device)" "n_flags create_null_device AND FS_DIRECTORY = 0"
    by (simp_all add: dump_lookup_def vfs_get_mountpoint_def copy_node_def create_null_device_def fs_node_zero_def)
  have "scan_dir ''d'' [1, 2] example_tmpfs = Some (Some 2)" using objs names by (simp add: obj_name_def)
  then have dir: "dump_lookup example_vfs ?root ''/d'' ''d'' = Some (Some (tmpfs_from_dir 2 ?d))"
    using objs by (simp add: dump_lookup_def vfs_get_mountpoint_def finddir_fs_def tmpfs_from_dir_def fs_node_zero_def finddir_tmpfs_def device_id_def)
  have flag: "n_flags (tmpfs_from_dir 2 ?d) AND FS_DIRECTORY \<noteq> 0" by (simp add: tmpfs_from_dir_def fs_node_zero_def)
  have sub: "names_listed example_vfs (tmpfs_from_dir 2 ?d) [''.'', ''..'']"
    using objs names by (auto simp: names_listed_def readdir_fs_def readdir_tmpfs_def tmpfs_from_dir_def fs_node_zero_def device_id_def less_Suc_eq)
  have "\<forall>t \<in> set ?ts. tree_at example_vfs [] ?root t"
    using null dir flag sub by (simp add: hidden_name_def slash_def)
  then have "dir_dump example_vfs ?root 0 [] = Some (rows 0 ?ts @ [CHR 0x0A])"
    by (intro dir_dump_shows_tree root) simp_all
  then show ?thesis by (simp add: dump_line_def)
qed

text \<open>
  A hidden name in the root that another entry follows makes the listing read the variable whose
  initialisation it jumped over.
\<close>

lemma hidden_name_uninitialised:
  assumes "hidden_name (d_name d)" and "readdir_fs root (Suc i) v = Some (Some e)"
  shows "dump_loop v root 0 path i (Some d) = None"
  using assms by (subst dump_loop.simps) (simp add: hidden_name_def)

section \<open>The booted kernel\<close>

text \<open>Making the first terminal is a sequence of steps of the driver; it prints on the console, newlines as they are.\<close>

lemma first_terminal_steps:
  assumes "first_terminal c g1 g2 y = Some (y', i)"
  shows "tty_step\<^sup>*\<^sup>* y y'" and "\<exists>p. y_ptys y' i = Some p \<and> pty_write_out p = Terminal_pty_putchar \<and> oflag (pty_ios p) AND ONLCR = 0"
    and "i = y_next y"
proof -
  obtain y1 where y1: "pty_new c g1 g2 None 1 y = (y1, y_next y)" by (cases "pty_new c g1 g2 None 1 y") (simp add: pty_new_def Let_def)
  from assms y1 obtain p where p: "y_ptys y1 i = Some p" "i = y_next y"
    and y': "y' = put_pty i (p\<lparr>pty_write_out := Terminal_pty_putchar,
      pty_ios := (pty_ios p)\<lparr>oflag := oflag (pty_ios p) AND NOT ONLCR\<rparr>\<rparr>) (put_pty i (p\<lparr>pty_write_out := Terminal_pty_putchar\<rparr>) y1)"
    by (auto simp: first_terminal_def Let_def put_pty_def elim!: bind_SomeE)
  let ?p = "p\<lparr>pty_write_out := Terminal_pty_putchar\<rparr>" and ?y = "put_pty i (p\<lparr>pty_write_out := Terminal_pty_putchar\<rparr>) y1"
  have "pty_ios p = default_ios" using p y1 by (auto simp: pty_new_def pty_add_def put_pty_def Let_def)
  then have cc: "6 < length (c_cc (pty_ios p))" "c_cc (pty_ios p) ! 6 \<noteq> None" by (simp_all add: default_ios_def default_cc_def)
  have "tty_step y y1" using tty_step.new [of y c g1 g2 None 1] y1 by simp
  moreover have "tty_step y1 ?y" by (rule tty_step.to_console) (rule p(1))
  moreover have "tty_step ?y y'"
    using cc tty_step.settings [of ?y i ?p "(pty_ios p)\<lparr>oflag := oflag (pty_ios p) AND NOT ONLCR\<rparr>"] by (simp add: y' put_pty_def)
  ultimately show "tty_step\<^sup>*\<^sup>* y y'" by (meson rtranclp.rtrancl_into_rtrancl rtranclp.rtrancl_refl)
  have "(w AND NOT ONLCR) AND ONLCR = (0 :: u32)" for w :: u32 by (simp add: and.assoc)
  then show "\<exists>p. y_ptys y' i = Some p \<and> pty_write_out p = Terminal_pty_putchar \<and> oflag (pty_ios p) AND ONLCR = 0"
    by (simp add: y' put_pty_def)
  show "i = y_next y" by (rule p(2))
qed

text \<open>The files and terminals of a booted kernel are typed.\<close>

lemma boot_files_typed:
  assumes "boot_files junk g1 g2 c v = Some (v', i)" and "t_objs (v_tmpfs v) = (\<lambda>_. None)" and "slaves_typed (v_ttys v)"
  shows "vfs_typed v'"
proof -
  from assms(1) obtain v1 v2 y where s: "mount_root junk c v = Some v1" "make_devices c v1 = Some v2"
    "first_terminal c g1 g2 (v_ttys v2) = Some (y, i)" "v' = v2\<lparr>v_ttys := y\<rparr>"
    by (auto simp: boot_files_def elim!: bind_SomeE)
  have v2: "vfs_typed v2" using make_devices_typed [OF s(2) mount_root_typed [OF s(1) assms(2,3)]] .
  have "slaves_kept (v_ttys v2) y" using first_terminal_steps(1) [OF s(3)]
    by (induction rule: rtranclp_induct) (auto simp: slaves_kept_def dest!: tty_step_slaves)
  then show ?thesis using v2 unfolding s(4) vfs_typed_def
    by (auto dest: tty_object_kept) (simp add: slaves_kept_def)
qed

text \<open>The buffer behind the framebuffer lies in the first run of free frames that is large enough, which is taken.\<close>

lemma framebuffer_reserved:
  fixes width height :: nat
  defines "pages \<equiv> (width * height * 4 + 4096) div 4096"
  assumes ok: "fr_ok m" "low_ok m" and few: "pages < 2147483648" and run: "free_run m f pages"
  shows "\<exists>m' g. reserve_framebuffer width height m = Some (m', mmu_from_physical (push_bit 12 (of_nat g))) \<and>
    g \<le> f \<and> free_run m g pages \<and> used m' = used m \<union> {g..<g + pages}"
proof -
  have "x < 8796093022208" if "(x + 4096) div 4096 < 2147483648" for x :: nat using that by linarith
  then have small: "width * height * 4 < 8796093022208" using few unfolding pages_def by blast
  have pos: "0 < pages" by (simp add: pages_def)
  have p: "add64 (width * height * 4 mod 18446744073709551616) 0x1000 div 0x1000 = pages"
    using small by (simp add: pages_def add64_def)
  have s: "sint (of_nat pages :: u32) = int pages" using few by (simp add: signed_of_nat signed_take_bit_int_eq_self)
  from mmu_allocate_frames_run [OF ok, of "int pages"] pos few obtain idx where idx: "mmu_request_frames (int pages) m = Some idx"
    "idx = NO_FRAME \<longleftrightarrow> (\<forall>f. \<not> free_run m f pages)"
    "idx \<noteq> NO_FRAME \<longrightarrow> free_run m (unat idx) pages \<and> (\<forall>f < unat idx. \<not> free_run m f pages) \<and>
       (\<exists>m'. mmu_allocate_frames (int pages) m = Some (m', idx) \<and> used m' = used m \<union> {unat idx..<unat idx + pages})"
    by auto
  have ne: "idx \<noteq> NO_FRAME" using idx(2) run by blast
  then obtain m' where m': "mmu_allocate_frames (int pages) m = Some (m', idx)" "used m' = used m \<union> {unat idx..<unat idx + pages}"
    and g: "free_run m (unat idx) pages" "\<forall>f < unat idx. \<not> free_run m f pages" using idx(3) by blast
  have "for_frames mmu_lock_frame (push_bit 12 idx) pages m = Some m'"
    using m'(1) idx(1) by (auto simp: mmu_allocate_frames_def elim!: bind_SomeE)
  then have r: "reserve_framebuffer width height m =
      Some (m'\<lparr>kmem := kset (kmem m') (mmu_from_physical (push_bit 12 idx)) 0 (width * height * 4 mod 18446744073709551616)\<rparr>, mmu_from_physical (push_bit 12 idx))"
    using idx(1) by (simp add: reserve_framebuffer_def p s Let_def)
  have "unat idx \<le> f" using g(2) run by (meson not_le)
  moreover have "used (m'\<lparr>kmem := k\<rparr>) = used m'" for k by simp
  ultimately show ?thesis using r g(1) m'(2) by (intro exI [of _ "unat idx"] exI) auto
qed

end
