(* ===== verification/Mkvfs.thy ===== *)
theory Mkvfs
  imports Ramdiskfs
begin

text \<open>
  The host tool that makes the boot image, \<open>ramdiskfs_tool/main.c\<close>, and the library of the same directory
  that reads images, \<open>ramdiskfs_tool/ramdiskfs.c\<close>. The output stream is the bytes written so far with the
  file position; the host's directories are what \<open>opendir\<close> and \<open>readdir\<close> deliver, in the host's order and
  with the entries \<open>.\<close> and \<open>..\<close>. The structure \<open>child\<close> is not initialised: \<open>junk\<close> gives what it holds before,
  for every position. The theorems compose the tool with the driver of the kernel (theory \<open>Ramdiskfs\<close>).
\<close>

section \<open>The host's files and the image file\<close>

text \<open>What a directory entry of the host is; \<open>None\<close> is a file or directory that cannot be opened.\<close>

datatype host =
    Reg "u8 list option"
  | Dir "(string \<times> host) list option"
  | Lnk
  | Other

record image =
  im_data :: "u8 list"
  im_pos :: nat

definition fwrite_image :: "u8 list \<Rightarrow> image \<Rightarrow> image" where
  "fwrite_image bs f =
     (if bs = [] then f
      else f\<lparr>im_data := take (im_pos f) (im_data f @ replicate (im_pos f - length (im_data f)) 0) @ bs
               @ drop (im_pos f + length bs) (im_data f),
             im_pos := im_pos f + length bs\<rparr>)"

record rdfs_entry =
  e_zero :: u8
  e_name :: string
  e_offset :: u32
  e_type :: u8
  e_reserved :: u8
  e_next_entry :: u32
  e_target_entry :: u32
  e_size :: u32

record rdfs_header =
  h_signature :: u16
  h_version :: u8
  h_label :: string
  h_size :: u32
  h_root_entry :: u32

definition le16 :: "u16 \<Rightarrow> u8 list" where
  "le16 w = [ucast w, ucast (drop_bit 8 w)]"

definition le32 :: "u32 \<Rightarrow> u8 list" where
  "le32 w = [ucast w, ucast (drop_bit 8 w), ucast (drop_bit 16 w), ucast (drop_bit 24 w)]"

definition char_bytes :: "string \<Rightarrow> u8 list" where
  "char_bytes s = map (\<lambda>c. of_nat (of_char c)) s"

definition entry_bytes :: "rdfs_entry \<Rightarrow> u8 list" where
  "entry_bytes e = e_zero e # char_bytes (e_name e) @ le32 (e_offset e) @ [e_type e] @ [e_reserved e]
     @ le32 (e_next_entry e) @ le32 (e_target_entry e) @ le32 (e_size e)"

definition header_bytes :: "rdfs_header \<Rightarrow> u8 list" where
  "header_bytes h = le16 (h_signature h) @ [h_version h] @ char_bytes (h_label h) @ le32 (h_size h)
     @ le32 (h_root_entry h)"

section \<open>Writing a directory\<close>

text \<open>A file is copied in pieces of at most 1024 bytes; the second result is its size so far.\<close>

function copy_file_data :: "u8 list \<Rightarrow> image \<Rightarrow> u32 \<Rightarrow> image \<times> u32" where
  "copy_file_data d f n =
     (let got = take 1024 d in
      if got = [] then (f, n)
      else copy_file_data (drop 1024 d) (fwrite_image got f) (n + of_nat (length got)))"
  by pat_completeness auto
termination by (relation "measure (\<lambda>(d, f, n). length d)") auto

declare copy_file_data.simps [simp del]

definition begin_child :: "rdfs_entry \<Rightarrow> string \<Rightarrow> image \<Rightarrow> rdfs_entry option" where
  "begin_child j name f = do {
     cells \<leftarrow> strcpy (e_name j) 0 (name @ [NUL]);
     Some (j\<lparr>e_name := cells, e_offset := of_nat (im_pos f), e_next_entry := 0, e_target_entry := 0, e_size := 0\<rparr>) }"

definition finish_child :: "rdfs_entry \<Rightarrow> image \<Rightarrow> image" where
  "finish_child child f =
     (fwrite_image (entry_bytes child) (f\<lparr>im_pos := unat (e_offset child)\<rparr>))
       \<lparr>im_pos := unat (of_nat (im_pos f) :: u32)\<rparr>"

text \<open>
  \<open>create_directory\<close> from the first entry on that \<open>readdir\<close> has delivered; the empty list is the null
  pointer. A skipped entry leaves \<open>dirent\<close> where it is.
\<close>

partial_function (option) create_entries ::
  "(nat \<Rightarrow> rdfs_entry) \<Rightarrow> (string \<times> host) list \<Rightarrow> image \<Rightarrow> u32 \<Rightarrow> (image \<times> u32) option" where
  "create_entries junk ds f written =
     (case ds of
        [] \<Rightarrow> None
      | d # rest \<Rightarrow>
          if fst d = ''.'' \<or> fst d = ''..'' then
            if rest = [] then Some (f, written) else create_entries junk rest f written
          else do {
            child \<leftarrow> begin_child (junk (im_pos f)) (fst d) f;
            let f = f\<lparr>im_pos := im_pos f + 275\<rparr>;
            r \<leftarrow> (case snd d of
                Reg c \<Rightarrow> do {
                  d \<leftarrow> c;
                  let (f, n) = copy_file_data d f 0;
                  Some (Some (child\<lparr>e_type := 0, e_size := n\<rparr>, f)) }
              | Dir sub \<Rightarrow> do {
                  (f, n) \<leftarrow> (case sub of None \<Rightarrow> Some (f, 0) | Some ds \<Rightarrow> create_entries junk ds f 0);
                  Some (Some (child\<lparr>e_type := 1, e_size := n,
                    e_target_entry := (if n \<noteq> 0 then e_offset child + 275 else 0)\<rparr>, f)) }
              | Lnk \<Rightarrow> Some None
              | Other \<Rightarrow> Some None);
            (case r of
               None \<Rightarrow> create_entries junk ds (f\<lparr>im_pos := im_pos f - 275\<rparr>) written
             | Some (child, f) \<Rightarrow> do {
                 let child = (if rest \<noteq> [] then child\<lparr>e_next_entry := e_offset child + 275 + e_size child\<rparr> else child);
                 let written = written + 275 + e_size child;
                 let child = (if e_type child = 1 then child\<lparr>e_size := 0\<rparr> else child);
                 let f = finish_child child f;
                 if rest = [] then Some (f, written) else create_entries junk rest f written }) })"

definition create_directory :: "(nat \<Rightarrow> rdfs_entry) \<Rightarrow> (string \<times> host) list option \<Rightarrow> image \<Rightarrow> (image \<times> u32) option" where
  "create_directory junk listing f =
     (case listing of None \<Rightarrow> Some (f, 0) | Some ds \<Rightarrow> create_entries junk ds f 0)"

section \<open>The tool\<close>

text \<open>\<open>main\<close> after the arguments: the label, the source's listing, and what the two structures held.\<close>

definition mkvfs :: "rdfs_header \<Rightarrow> (nat \<Rightarrow> rdfs_entry) \<Rightarrow> string \<Rightarrow> (string \<times> host) list option \<Rightarrow> u8 list option" where
  "mkvfs hjunk junk label listing = do {
     n0 \<leftarrow> mem_store (e_name (junk 27)) 0 NUL;
     let root = (junk 27)\<lparr>e_name := n0, e_offset := 27, e_type := 1, e_next_entry := 0, e_target_entry := 27 + 275, e_size := 0\<rparr>;
     cells \<leftarrow> strcpy (h_label hjunk) 0 (label @ [NUL]);
     let header = hjunk\<lparr>h_signature := 0x1DF4, h_version := 1, h_label := cells, h_root_entry := e_offset root\<rparr>;
     let f = fwrite_image (entry_bytes root) \<lparr>im_data = [], im_pos = 27\<rparr>;
     (f, n) \<leftarrow> create_directory junk listing f;
     let header = header\<lparr>h_size := e_target_entry root + n\<rparr>;
     Some (im_data (fwrite_image (header_bytes header) (f\<lparr>im_pos := 0\<rparr>))) }"

text \<open>The arguments: the exit code of the two refusals, or the label, the source and the target.\<close>

definition mkvfs_args :: "string list \<Rightarrow> (int + string \<times> string \<times> string) option" where
  "mkvfs_args argv =
     (if length argv < 3 then Some (Inl (- 1))
      else if take 8 (argv ! 1) = ''--label='' then
        (let label = drop 8 (argv ! 1) in
         if length label > 16 then Some (Inl (- 1))
         else do { source \<leftarrow> mem_load argv 2; target \<leftarrow> mem_load argv 3; Some (Inr (label, source, target)) })
      else Some (Inr ('''', argv ! 1, argv ! 2)))"

section \<open>The layout of an image\<close>

abbreviation (input) dot :: "string \<Rightarrow> bool" where
  "dot name \<equiv> name = ''.'' \<or> name = ''..''"

text \<open>What the structure \<open>child\<close> is when it is written.\<close>

definition placed :: "rdfs_entry \<Rightarrow> nat \<Rightarrow> string \<Rightarrow> u8 \<Rightarrow> nat \<Rightarrow> nat \<Rightarrow> nat \<Rightarrow> rdfs_entry" where
  "placed j p name type next_entry target n =
     j\<lparr>e_name := name @ NUL # drop (Suc (length name)) (e_name j), e_offset := of_nat p, e_type := type,
       e_next_entry := of_nat next_entry, e_target_entry := of_nat target, e_size := of_nat n\<rparr>"

text \<open>The bytes that the entries of a directory take, and those that follow one entry.\<close>

function space :: "(string \<times> host) list \<Rightarrow> nat" where
  "space [] = 0"
| "space (d # rest) =
     (if dot (fst d) then 0
      else 275 + (case snd d of
          Reg c \<Rightarrow> (case c of None \<Rightarrow> 0 | Some bs \<Rightarrow> length bs)
        | Dir sub \<Rightarrow> (case sub of None \<Rightarrow> 0 | Some ds \<Rightarrow> space ds)
        | _ \<Rightarrow> 0)) + space rest"
  by pat_completeness auto
termination
proof (relation "measure (\<lambda>ds. size_list (size_prod (\<lambda>_. 0) size) ds)", goal_cases)
  case (2 d rest sub ds)
  then show ?case by (cases d) simp
qed simp_all

definition body_size :: "host \<Rightarrow> nat" where
  "body_size h = (case h of
     Reg c \<Rightarrow> (case c of None \<Rightarrow> 0 | Some bs \<Rightarrow> length bs)
   | Dir sub \<Rightarrow> (case sub of None \<Rightarrow> 0 | Some ds \<Rightarrow> space ds)
   | _ \<Rightarrow> 0)"

definition is_dir :: "host \<Rightarrow> bool" where
  "is_dir h = (case h of Dir _ \<Rightarrow> True | _ \<Rightarrow> False)"

text \<open>
  The bytes of a directory at position \<open>p\<close>, written without a file: every entry is followed by its
  contents and then by the next entry.
\<close>

definition child_of :: "(nat \<Rightarrow> rdfs_entry) \<Rightarrow> nat \<Rightarrow> string \<times> host \<Rightarrow> bool \<Rightarrow> rdfs_entry" where
  "child_of junk p d final = (let n = body_size (snd d) in
     placed (junk p) p (fst d) (if is_dir (snd d) then 1 else 0) (if final then 0 else p + 275 + n)
       (if is_dir (snd d) \<and> n \<noteq> 0 then p + 275 else 0) (if is_dir (snd d) then 0 else n))"

function layout :: "(nat \<Rightarrow> rdfs_entry) \<Rightarrow> nat \<Rightarrow> (string \<times> host) list \<Rightarrow> u8 list" where
  "layout junk p [] = []"
| "layout junk p (d # rest) =
     (if dot (fst d) then layout junk p rest
      else entry_bytes (child_of junk p d (rest = []))
        @ (case snd d of
              Reg c \<Rightarrow> (case c of None \<Rightarrow> [] | Some bs \<Rightarrow> bs)
            | Dir sub \<Rightarrow> (case sub of None \<Rightarrow> [] | Some ds \<Rightarrow> layout junk (p + 275) ds)
            | _ \<Rightarrow> [])
        @ layout junk (p + 275 + body_size (snd d)) rest)"
  by pat_completeness auto
termination
proof (relation "measure (\<lambda>(j, p, ds). size_list (size_prod (\<lambda>_. 0) size) ds)", goal_cases)
  case (3 junk p d rest sub ds)
  then show ?case by (cases d) simp
qed simp_all

definition contents :: "(nat \<Rightarrow> rdfs_entry) \<Rightarrow> nat \<Rightarrow> host \<Rightarrow> u8 list" where
  "contents junk p h = (case h of
     Reg c \<Rightarrow> (case c of None \<Rightarrow> [] | Some bs \<Rightarrow> bs)
   | Dir sub \<Rightarrow> (case sub of None \<Rightarrow> [] | Some ds \<Rightarrow> layout junk (p + 275) ds)
   | _ \<Rightarrow> [])"

declare layout.simps(2) [simp del] space.simps(2) [simp del]

lemma layout_dot: "dot (fst d) \<Longrightarrow> layout junk p (d # rest) = layout junk p rest"
  by (simp add: layout.simps(2))

lemma layout_entry: "\<not> dot (fst d) \<Longrightarrow> layout junk p (d # rest) =
    entry_bytes (child_of junk p d (rest = [])) @ contents junk p (snd d) @ layout junk (p + 275 + body_size (snd d)) rest"
  by (simp add: layout.simps(2) contents_def)

lemma space_dot: "dot (fst d) \<Longrightarrow> space (d # rest) = space rest"
  by (simp add: space.simps(2))

lemma space_entry: "\<not> dot (fst d) \<Longrightarrow> space (d # rest) = 275 + body_size (snd d) + space rest"
  by (simp add: space.simps(2) body_size_def)

text \<open>
  Sources that the tool can take: every entry but \<open>.\<close> and \<open>..\<close> is a readable file or a directory, with
  a name that fits the field, and a directory that can be read has an entry (it has \<open>.\<close> at least).
\<close>

function tame :: "(string \<times> host) list \<Rightarrow> bool" where
  "tame [] = True"
| "tame (d # rest) =
     ((dot (fst d) \<or> NUL \<notin> set (fst d) \<and> length (fst d) < 256 \<and>
        (case snd d of
           Reg c \<Rightarrow> c \<noteq> None
         | Dir sub \<Rightarrow> (case sub of None \<Rightarrow> True | Some ds \<Rightarrow> ds \<noteq> [] \<and> tame ds)
         | _ \<Rightarrow> False)) \<and> tame rest)"
  by pat_completeness auto
termination
proof (relation "measure (\<lambda>ds. size_list (size_prod (\<lambda>_. 0) size) ds)", goal_cases)
  case (2 d rest sub ds)
  then show ?case by (cases d) simp
qed simp_all

lemma length_le32 [simp]: "length (le32 w) = 4" by (simp add: le32_def)
lemma length_le16 [simp]: "length (le16 w) = 2" by (simp add: le16_def)
lemma length_char_bytes [simp]: "length (char_bytes s) = length s" by (simp add: char_bytes_def)

lemma length_entry_bytes: "length (e_name e) = 256 \<Longrightarrow> length (entry_bytes e) = 275"
  by (simp add: entry_bytes_def)

lemma placed_length: "length (e_name j) = 256 \<Longrightarrow> length name < 256 \<Longrightarrow> length (e_name (placed j p name ty nx t n)) = 256"
  by (simp add: placed_def)

lemma fwrite_end:
  "length (im_data f) \<le> im_pos f \<Longrightarrow> fwrite_image bs f =
     (if bs = [] then f else f\<lparr>im_data := im_data f @ replicate (im_pos f - length (im_data f)) 0 @ bs, im_pos := im_pos f + length bs\<rparr>)"
  by (simp add: fwrite_image_def)

lemma fwrite_start: "im_pos f = 0 \<Longrightarrow> bs \<noteq> [] \<Longrightarrow> im_data (fwrite_image bs f) = bs @ drop (length bs) (im_data f)"
  by (simp add: fwrite_image_def)

lemma fwrite_append:
  "length (im_data f) \<le> im_pos f \<Longrightarrow> fwrite_image ys (fwrite_image xs f) = fwrite_image (xs @ ys) f"
  by (simp add: fwrite_end)

lemma copy_file_data_fwrite:
  "length (im_data f) \<le> im_pos f \<Longrightarrow> copy_file_data d f n = (fwrite_image d f, n + of_nat (length d))"
proof (induction d f n rule: copy_file_data.induct)
  case (1 d f n)
  show ?case
  proof (cases "take 1024 d = []")
    case True
    then show ?thesis by (simp add: copy_file_data.simps [of "[]"] fwrite_image_def)
  next
    case False
    let ?f = "fwrite_image (take 1024 d) f"
    have "length (im_data ?f) \<le> im_pos ?f" using 1(2) False by (simp add: fwrite_end)
    from 1(1) [OF refl False this] have "copy_file_data d f n =
        (fwrite_image (drop 1024 d) ?f, n + of_nat (length (take 1024 d)) + of_nat (length (drop 1024 d)))"
      using False by (simp add: copy_file_data.simps [of d f] Let_def)
    moreover have "of_nat (length (take 1024 d)) + of_nat (length (drop 1024 d)) = (of_nat (length d) :: u32)"
      by (metis append_take_drop_id length_append of_nat_add)
    ultimately show ?thesis using fwrite_append [OF 1(2), of "drop 1024 d" "take 1024 d"] by (simp add: add.assoc)
  qed
qed

lemma finish_child_fwrite:
  assumes "length (im_data f) \<le> im_pos f" and "length (e_name child) = 256" and "e_offset child = of_nat (im_pos f)"
    and "im_pos f + 275 + length body < 4294967296"
  shows "finish_child child (fwrite_image body (f\<lparr>im_pos := im_pos f + 275\<rparr>)) = fwrite_image (entry_bytes child @ body) f"
proof -
  have p: "unat (of_nat (im_pos f) :: u32) = im_pos f"
    "unat (of_nat (im_pos f + 275 + length body) :: u32) = im_pos f + 275 + length body"
    using assms(4) by (simp_all add: unat_of_nat del: of_nat_add)
  have e: "length (entry_bytes child) = 275" "entry_bytes child \<noteq> []" using length_entry_bytes [OF assms(2)] by auto
  show ?thesis
  proof (cases "body = []")
    case True
    then show ?thesis using assms p e by (simp add: finish_child_def fwrite_image_def)
  next
    case False
    let ?b = "fwrite_image body (f\<lparr>im_pos := im_pos f + 275\<rparr>)"
    have "im_data ?b = im_data f @ replicate (im_pos f - length (im_data f)) 0 @ replicate 275 0 @ body"
      "im_pos ?b = im_pos f + 275 + length body"
      using assms(1) False by (simp_all add: fwrite_end replicate_add [symmetric])
    then show ?thesis
      using assms(1,3) p e False by (simp add: finish_child_def fwrite_image_def)
  qed
qed

lemma child_of_length:
  "length (e_name (junk p)) = 256 \<Longrightarrow> length (fst d) < 256 \<Longrightarrow> length (e_name (child_of junk p d final)) = 256"
  by (simp add: child_of_def Let_def placed_length)

lemma tame_entry:
  assumes "tame (d # rest)" and "\<not> dot (fst d)"
  shows "length (fst d) < 256" "NUL \<notin> set (fst d)" "tame rest"
  using assms by auto

lemma layout_length:
  "(\<And>q. length (e_name (junk q)) = 256) \<Longrightarrow> tame ds \<Longrightarrow> length (layout junk p ds) = space ds"
proof (induction junk p ds rule: layout.induct)
  case (2 junk p d rest)
  show ?case
  proof (cases "dot (fst d)")
    case True
    then show ?thesis using 2(1) [OF True 2(4)] 2(5) by (simp add: layout_dot space_dot)
  next
    case False
    note t = tame_entry [OF 2(5) False]
    have "length (contents junk p (snd d)) = body_size (snd d)"
      using 2(2) [OF False] 2(4,5) False
      by (auto simp: contents_def body_size_def split: host.splits option.splits)
    then show ?thesis
      using 2(3) [OF False 2(4) t(3)] length_entry_bytes [OF child_of_length [OF 2(4) t(1)]] False
      by (simp add: layout_entry space_entry)
  qed
qed simp

lemma contents_length:
  "(\<And>q. length (e_name (junk q)) = 256) \<Longrightarrow> tame (d # rest) \<Longrightarrow> \<not> dot (fst d) \<Longrightarrow> length (contents junk p (snd d)) = body_size (snd d)"
  using layout_length [of junk] by (auto simp: contents_def body_size_def split: host.splits option.splits)

lemma begin_child_tame:
  assumes "length (e_name j) = 256" and "NUL \<notin> set name" and "length name < 256"
  shows "begin_child j name f = Some (j\<lparr>e_name := name @ NUL # drop (Suc (length name)) (e_name j),
    e_offset := of_nat (im_pos f), e_next_entry := 0, e_target_entry := 0, e_size := 0\<rparr>)"
proof -
  have "strcpy (e_name j) 0 (name @ [NUL]) = mem_write (e_name j) 0 (name @ [NUL])"
    by (rule strcpy_cstr) (use assms in \<open>simp_all add: cstr_def\<close>)
  also have "\<dots> = Some (name @ NUL # drop (Suc (length name)) (e_name j))"
    using assms by (simp add: mem_write_def)
  finally show ?thesis by (simp add: begin_child_def)
qed

text \<open>One turn of the loop for an entry whose contents are written.\<close>

lemma create_entries_entry:
  fixes f junk d rest
  defines "p \<equiv> im_pos f"
  defines "f1 \<equiv> fwrite_image (entry_bytes (child_of junk p d (rest = [])) @ contents junk p (snd d)) f"
  assumes j: "\<And>q. length (e_name (junk q)) = 256" and t: "tame (d # rest)" and nd: "\<not> dot (fst d)"
    and len: "length (im_data f) \<le> p" and lim: "p + 275 + body_size (snd d) < 4294967296"
    and sub: "\<And>ds. snd d = Dir (Some ds) \<Longrightarrow> create_entries junk ds (f\<lparr>im_pos := p + 275\<rparr>) 0 =
      Some (fwrite_image (layout junk (p + 275) ds) (f\<lparr>im_pos := p + 275\<rparr>), of_nat (space ds))"
  shows "create_entries junk (d # rest) f w =
    (let w1 = w + 275 + of_nat (body_size (snd d)) in
     if rest = [] then Some (f1, w1) else create_entries junk rest f1 w1)"
proof -
  note tt = tame_entry [OF t nd]
  note bc = begin_child_tame [OF j tt(2,1), of "p" f, folded p_def]
  have n0: "(of_nat (body_size (snd d)) :: u32) \<noteq> 0 \<longleftrightarrow> body_size (snd d) \<noteq> 0"
  proof -
    have "unat (of_nat (body_size (snd d)) :: u32) = body_size (snd d)" using lim by (simp add: unat_of_nat)
    then show ?thesis using unat_eq_zero [of "of_nat (body_size (snd d)) :: u32"] by linarith
  qed
  note fin = finish_child_fwrite [OF len [unfolded p_def] child_of_length [of junk p d "rest = []", OF j tt(1)], of "contents junk p (snd d)"]
  have off: "e_offset (child_of junk p d (rest = [])) = of_nat (im_pos f)"
    by (simp add: child_of_def placed_def Let_def p_def)
  have fin: "finish_child (child_of junk p d (rest = [])) (fwrite_image (contents junk p (snd d)) (f\<lparr>im_pos := p + 275\<rparr>)) = f1"
    unfolding f1_def p_def
  proof (rule fin [unfolded p_def])
    show "e_offset (child_of junk (im_pos f) d (rest = [])) = word_of_nat (im_pos f)" using off by (simp add: p_def)
    show "im_pos f + 275 + length (contents junk (im_pos f) (snd d)) < 4294967296"
      unfolding contents_length [OF j t nd] using lim by (simp add: p_def)
  qed
  obtain z nm ofs ty rs nx tg sz where jp: "junk p = \<lparr>e_zero = z, e_name = nm, e_offset = ofs, e_type = ty,
      e_reserved = rs, e_next_entry = nx, e_target_entry = tg, e_size = sz\<rparr>"
    by (cases "junk p")
  note child = child_of_def placed_def Let_def body_size_def is_dir_def contents_def jp p_def [symmetric]
  show ?thesis
  proof (cases "snd d")
    case (Reg c)
    then obtain bs where c: "c = Some bs" using t nd by auto
    have cp: "copy_file_data bs (f\<lparr>im_pos := p + 275\<rparr>) 0 = (fwrite_image bs (f\<lparr>im_pos := p + 275\<rparr>), of_nat (length bs))"
      using len by (simp add: copy_file_data_fwrite)
    show ?thesis
      using fin Reg c bc cp nd
      by (subst create_entries.simps, cases "rest = []") (simp_all add: child)
  next
    case (Dir sub')
    show ?thesis
    proof (cases sub')
      case None
      show ?thesis
        using fin Dir None bc nd
        by (subst create_entries.simps, cases "rest = []") (simp_all add: child fwrite_image_def)
    next
      case (Some ds)
      show ?thesis
        using fin Dir Some bc nd n0 sub [of ds]
        by (subst create_entries.simps, cases "rest = []"; cases "space ds = 0") (simp_all add: child)
    qed
  qed (use t nd in auto)
qed

text \<open>The tool writes the layout.\<close>

lemma create_entries_layout:
  "(\<And>q. length (e_name (junk q)) = 256) \<Longrightarrow> tame ds \<Longrightarrow> ds \<noteq> [] \<Longrightarrow> length (im_data f) \<le> im_pos f \<Longrightarrow>
   im_pos f = p \<Longrightarrow> p + space ds < 4294967296 \<Longrightarrow>
   create_entries junk ds f w = Some (fwrite_image (layout junk p ds) f, w + of_nat (space ds))"
proof (induction junk p ds arbitrary: f w rule: layout.induct)
  case (2 junk p d rest)
  note j = 2(4) and len = 2(7) and pos = 2(8)
  show ?case
  proof (cases "dot (fst d)")
    case True
    show ?thesis
    proof (cases "rest = []")
      case empty: True
      then show ?thesis
        using True by (subst create_entries.simps) (auto simp: layout_dot space_dot fwrite_image_def)
    next
      case False
      have "create_entries junk (d # rest) f w = create_entries junk rest f w"
        using True False by (subst create_entries.simps) auto
      moreover have "create_entries junk rest f w = Some (fwrite_image (layout junk p rest) f, w + of_nat (space rest))"
        by (rule 2(1) [OF True j _ False len pos]) (use 2(5,9) True in \<open>simp_all add: space_dot\<close>)
      ultimately show ?thesis using True by (simp add: layout_dot space_dot)
    qed
  next
    case False
    note t = tame_entry [OF 2(5) False]
    let ?b = "body_size (snd d)" and ?es = "entry_bytes (child_of junk p d (rest = [])) @ contents junk p (snd d)"
    let ?f1 = "fwrite_image ?es f"
    have lim: "p + 275 + ?b + space rest < 4294967296" using 2(9) False by (simp add: space_entry)
    have step: "create_entries junk (d # rest) f w = (let w1 = w + 275 + of_nat ?b in
        if rest = [] then Some (?f1, w1) else create_entries junk rest ?f1 w1)"
      unfolding pos [symmetric]
    proof (rule create_entries_entry [OF j 2(5) False len])
      show "im_pos f + 275 + ?b < 4294967296" using lim pos by simp
      fix ds
      assume sd: "snd d = Dir (Some ds)"
      have "create_entries junk ds (f\<lparr>im_pos := im_pos f + 275\<rparr>) 0 =
          Some (fwrite_image (layout junk (p + 275) ds) (f\<lparr>im_pos := im_pos f + 275\<rparr>), 0 + of_nat (space ds))"
        by (rule 2(2) [OF False sd refl j]) (use 2(5) False sd len pos lim in \<open>auto simp: body_size_def\<close>)
      then show "create_entries junk ds (f\<lparr>im_pos := im_pos f + 275\<rparr>) 0 =
          Some (fwrite_image (layout junk (im_pos f + 275) ds) (f\<lparr>im_pos := im_pos f + 275\<rparr>), of_nat (space ds))"
        using pos by simp
    qed
    have es: "length ?es = 275 + ?b"
      using length_entry_bytes [OF child_of_length [of junk p d "rest = []", OF j t(1)]] contents_length [OF j 2(5) False] by simp
    then have ne: "?es \<noteq> []" by auto
    show ?thesis
    proof (cases "rest = []")
      case True
      then show ?thesis using step False by (simp add: layout_entry space_entry Let_def algebra_simps)
    next
      case rest: False
      have f1: "im_pos ?f1 = p + 275 + ?b" "length (im_data ?f1) \<le> im_pos ?f1"
        unfolding fwrite_end [OF len] using ne es len pos by simp_all
      have "create_entries junk rest ?f1 (w + 275 + of_nat ?b) =
          Some (fwrite_image (layout junk (p + 275 + ?b) rest) ?f1, w + 275 + of_nat ?b + of_nat (space rest))"
        by (rule 2(3) [OF False j t(3) rest f1(2,1) lim])
      then show ?thesis
        unfolding step Let_def
        using rest False by (simp add: fwrite_append [OF len] layout_entry space_entry algebra_simps)
    qed
  qed
qed simp

section \<open>Reading the layout back\<close>

lemma le_nat_le32 [simp]: "le_nat (le32 w) = unat w"
proof -
  have w: "unat w < 4294967296" using unsigned_less [of w, where 'a = nat] by simp
  have "le_nat (le32 w) = unat w mod 256 + 256 * (unat w div 256 mod 256 + 256 * (unat w div 65536 mod 256 + 256 * (unat w div 16777216 mod 256)))"
    by (simp add: le_nat_def le32_def unsigned_ucast_eq take_bit_eq_mod drop_bit_eq_div unat_div)
  also have "\<dots> = unat w mod 256 + 256 * (unat w div 256 mod 256 + 256 * (unat w div 256 div 256 mod 256 + 256 * (unat w div 256 div 256 div 256)))"
    using w by (simp add: div_mult2_eq [symmetric] less_mult_imp_div_less)
  also have "\<dots> = unat w" by (simp only: mod_mult_div_eq)
  finally show ?thesis .
qed

lemma le_nat_le16 [simp]: "le_nat (le16 w) = unat w"
proof -
  have w: "unat w < 65536" using unsigned_less [of w, where 'a = nat] by simp
  have "le_nat (le16 w) = unat w mod 256 + 256 * (unat w div 256 mod 256)"
    by (simp add: le_nat_def le16_def unsigned_ucast_eq take_bit_eq_mod drop_bit_eq_div unat_div)
  also have "\<dots> = unat w mod 256 + 256 * (unat w div 256)" using w by (simp add: less_mult_imp_div_less)
  also have "\<dots> = unat w" by (simp only: mod_mult_div_eq)
  finally show ?thesis .
qed

lemma mem_read_append: "length xs = a \<Longrightarrow> length ys = n \<Longrightarrow> mem_read (xs @ ys @ zs) a n = Some ys"
  by (simp add: mem_read_def)

lemma rd_u32_append: "length xs = a \<Longrightarrow> rd_u32 (xs @ le32 w @ zs) a = Some (unat w)"
  by (simp add: rd_u32_def mem_read_append)

lemma rd_u16_append: "length xs = a \<Longrightarrow> rd_u16 (xs @ le16 w @ zs) a = Some (unat w)"
  by (simp add: rd_u16_def mem_read_append)

lemma rd_u8_append: "length xs = a \<Longrightarrow> rd_u8 (xs @ [w] @ zs) a = Some (unat w)"
  unfolding rd_u8_def by (subst mem_read_append) (simp_all add: le_nat_def)

lemma char_bytes_read: "map (\<lambda>b. char_of (unat b)) (char_bytes s) = s"
proof -
  have "char_of (unat (of_nat (of_char c) :: u8)) = c" for c :: char
  proof -
    have "of_char c < (256 :: nat)" by simp
    then have "unat (of_nat (of_char c) :: u8) = of_char c" by (simp add: unat_of_nat)
    then show ?thesis by simp
  qed
  then show ?thesis by (simp add: char_bytes_def o_def)
qed

lemma entry_read:
  assumes img: "img = pre @ entry_bytes e @ post" and p: "length pre = p" and n: "length (e_name e) = 256"
  shows "ent_offset img p = Some (unat (e_offset e))" "ent_type img p = Some (unat (e_type e))"
    "ent_next img p = Some (unat (e_next_entry e))" "ent_target img p = Some (unat (e_target_entry e))"
    "ent_size img p = Some (unat (e_size e))" "\<exists>r. ent_name img p = e_name e @ r"
proof -
  let ?a = "pre @ [e_zero e] @ char_bytes (e_name e)"
  have "img = ?a @ le32 (e_offset e) @ [e_type e] @ [e_reserved e] @ le32 (e_next_entry e) @ le32 (e_target_entry e) @ le32 (e_size e) @ post"
    by (simp add: img entry_bytes_def)
  then show "ent_offset img p = Some (unat (e_offset e))"
    using rd_u32_append [of ?a "p + 257"] p n by (simp add: ent_offset_def)
  have "img = (?a @ le32 (e_offset e)) @ [e_type e] @ [e_reserved e] @ le32 (e_next_entry e) @ le32 (e_target_entry e) @ le32 (e_size e) @ post"
    by (simp add: img entry_bytes_def)
  then show "ent_type img p = Some (unat (e_type e))"
    using rd_u8_append [of "?a @ le32 (e_offset e)" "p + 261"] p n by (simp add: ent_type_def)
  have "img = (?a @ le32 (e_offset e) @ [e_type e, e_reserved e]) @ le32 (e_next_entry e) @ le32 (e_target_entry e) @ le32 (e_size e) @ post"
    by (simp add: img entry_bytes_def)
  then show "ent_next img p = Some (unat (e_next_entry e))"
    using rd_u32_append [of "?a @ le32 (e_offset e) @ [e_type e, e_reserved e]" "p + 263"] p n by (simp add: ent_next_def)
  have "img = (?a @ le32 (e_offset e) @ [e_type e, e_reserved e] @ le32 (e_next_entry e)) @ le32 (e_target_entry e) @ le32 (e_size e) @ post"
    by (simp add: img entry_bytes_def)
  then show "ent_target img p = Some (unat (e_target_entry e))"
    using rd_u32_append [of "?a @ le32 (e_offset e) @ [e_type e, e_reserved e] @ le32 (e_next_entry e)" "p + 267"] p n by (simp add: ent_target_def)
  have "img = (?a @ le32 (e_offset e) @ [e_type e, e_reserved e] @ le32 (e_next_entry e) @ le32 (e_target_entry e)) @ le32 (e_size e) @ post"
    by (simp add: img entry_bytes_def)
  then show "ent_size img p = Some (unat (e_size e))"
    using rd_u32_append [of "?a @ le32 (e_offset e) @ [e_type e, e_reserved e] @ le32 (e_next_entry e) @ le32 (e_target_entry e)" "p + 271"] p n
    by (simp add: ent_size_def)
  show "\<exists>r. ent_name img p = e_name e @ r"
    using p by (simp add: ent_name_def img entry_bytes_def char_bytes_read)
qed

text \<open>
  A listing is tidy when, below every directory too, no listing ends with \<open>.\<close> or \<open>..\<close> behind a real
  entry: the tool looks only whether another entry follows, not whether it is one it writes.
\<close>

function tidy :: "(string \<times> host) list \<Rightarrow> bool" where
  "tidy [] = True"
| "tidy (d # rest) =
     ((dot (fst d) \<or> rest = [] \<or> (\<exists>x \<in> set rest. \<not> dot (fst x))) \<and>
      (case snd d of Dir sub \<Rightarrow> (case sub of None \<Rightarrow> True | Some ds \<Rightarrow> tidy ds) | _ \<Rightarrow> True) \<and> tidy rest)"
  by pat_completeness auto
termination
proof (relation "measure (\<lambda>ds. size_list (size_prod (\<lambda>_. 0) size) ds)", goal_cases)
  case (2 d rest sub ds)
  then show ?case by (cases d) simp
qed simp_all

text \<open>Where the entries of a directory at \<open>p\<close> lie, and where its chain starts.\<close>

fun places :: "nat \<Rightarrow> (string \<times> host) list \<Rightarrow> (nat \<times> string \<times> host) list" where
  "places p [] = []"
| "places p (d # rest) = (if dot (fst d) then places p rest else (p, d) # places (p + 275 + body_size (snd d)) rest)"

definition start :: "nat \<Rightarrow> (string \<times> host) list \<Rightarrow> nat" where
  "start p ds = (if \<exists>x \<in> set ds. \<not> dot (fst x) then p else 0)"

definition stands :: "(nat \<Rightarrow> rdfs_entry) \<Rightarrow> u8 list \<Rightarrow> nat \<Rightarrow> string \<times> host \<Rightarrow> bool" where
  "stands junk img q d \<longleftrightarrow> (\<exists>pre post final. img = pre @ entry_bytes (child_of junk q d final) @ contents junk q (snd d) @ post \<and> length pre = q)"

lemma space_zero: "space ds = 0 \<longleftrightarrow> (\<forall>x \<in> set ds. dot (fst x))"
proof (induction ds)
  case (Cons d ds)
  then show ?case by (cases "dot (fst d)") (simp_all add: space_dot space_entry)
qed simp

lemma places_names: "map (fst \<circ> snd) (places p ds) = filter (\<lambda>n. \<not> dot n) (map fst ds)"
  by (induction p ds rule: places.induct) auto

lemma places_stand:
  assumes j: "\<And>q. length (e_name (junk q)) = 256"
  shows "tame ds \<Longrightarrow> img = pre @ layout junk p ds @ post \<Longrightarrow> length pre = p \<Longrightarrow> (q, d) \<in> set (places p ds) \<Longrightarrow>
    stands junk img q d \<and> p \<le> q \<and> q + 275 + body_size (snd d) \<le> p + space ds \<and> d \<in> set ds \<and> \<not> dot (fst d)"
proof (induction p ds arbitrary: pre rule: places.induct)
  case (2 p x rest)
  show ?case
  proof (cases "dot (fst x)")
    case True
    then show ?thesis using 2(1) [OF True _ _ 2(5)] 2(3-6) by (auto simp: layout_dot space_dot)
  next
    case False
    let ?es = "entry_bytes (child_of junk p x (rest = [])) @ contents junk p (snd x)"
    have img: "img = (pre @ ?es) @ layout junk (p + 275 + body_size (snd x)) rest @ post"
      using 2(4) False by (simp add: layout_entry)
    have len: "length (pre @ ?es) = p + 275 + body_size (snd x)"
      using 2(5) length_entry_bytes [OF child_of_length [of junk p x "rest = []", OF j tame_entry(1) [OF 2(3) False]]]
        contents_length [OF j 2(3) False] by simp
    show ?thesis
    proof (cases "(q, d) = (p, x)")
      case True
      moreover have "stands junk img p x" unfolding stands_def using img 2(5) by (intro exI conjI) simp_all
      ultimately show ?thesis using False by (simp add: space_entry)
    next
      case other: False
      then have "(q, d) \<in> set (places (p + 275 + body_size (snd x)) rest)" using 2(6) False by auto
      from 2(2) [OF False tame_entry(3) [OF 2(3) False] img len this] show ?thesis using False by (simp add: space_entry)
    qed
  qed
qed simp

lemma child_read:
  assumes j: "\<And>q. length (e_name (junk q)) = 256" and t: "tame (d # rest)" "\<not> dot (fst d)"
    and img: "img = pre @ entry_bytes (child_of junk q d final) @ post" and q: "length pre = q" "q + 275 + body_size (snd d) < 4294967296"
  shows "ent_offset img q = Some q" "ent_type img q = Some (if is_dir (snd d) then 1 else 0)"
    "ent_next img q = Some (if final then 0 else q + 275 + body_size (snd d))"
    "ent_target img q = Some (if is_dir (snd d) \<and> body_size (snd d) \<noteq> 0 then q + 275 else 0)"
    "ent_size img q = Some (if is_dir (snd d) then 0 else body_size (snd d))" "cstr (ent_name img q) (fst d)"
proof -
  note r = entry_read [OF img q(1) child_of_length [of junk q d final, OF j tame_entry(1) [OF t]]]
  have u: "unat (of_nat x :: u32) = x" if "x \<le> q + 275 + body_size (snd d)" for x
    using that q(2) by (simp add: unat_of_nat)
  show "ent_offset img q = Some q" using r(1) u [of q] by (simp add: child_of_def placed_def Let_def)
  show "ent_type img q = Some (if is_dir (snd d) then 1 else 0)" using r(2) by (simp add: child_of_def placed_def Let_def)
  show "ent_next img q = Some (if final then 0 else q + 275 + body_size (snd d))"
    using r(3) u [of "q + 275 + body_size (snd d)"] by (simp add: child_of_def placed_def Let_def)
  show "ent_target img q = Some (if is_dir (snd d) \<and> body_size (snd d) \<noteq> 0 then q + 275 else 0)"
    using r(4) u [of "q + 275"] by (simp add: child_of_def placed_def Let_def)
  show "ent_size img q = Some (if is_dir (snd d) then 0 else body_size (snd d))"
    using r(5) u [of "body_size (snd d)"] by (simp add: child_of_def placed_def Let_def)
  obtain x where "ent_name img q = e_name (child_of junk q d final) @ x" using r(6) by blast
  then show "cstr (ent_name img q) (fst d)"
    using tame_entry(2) [OF t] by (simp add: child_of_def placed_def Let_def cstr_def)
qed

text \<open>A directory of the layout is a chain that the driver can follow.\<close>

lemma layout_chain:
  assumes j: "\<And>q. length (e_name (junk q)) = 256"
  shows "tame ds \<Longrightarrow> tidy ds \<Longrightarrow> img = pre @ layout junk p ds @ post \<Longrightarrow> length pre = p \<Longrightarrow> 0 < p \<Longrightarrow> p + space ds < 4294967296 \<Longrightarrow>
    rd_chain img (start p ds) (map (\<lambda>(q, d). (q, fst d)) (places p ds))"
proof (induction p ds arbitrary: pre rule: places.induct)
  case (2 p d rest)
  show ?case
  proof (cases "dot (fst d)")
    case True
    have "start p (d # rest) = start p rest" using True by (auto simp: start_def)
    then show ?thesis using 2(1) [OF True _ _ _ 2(6,7)] 2(3-5,8) True by (simp add: layout_dot space_dot)
  next
    case False
    let ?q = "p + 275 + body_size (snd d)"
    let ?es = "entry_bytes (child_of junk p d (rest = [])) @ contents junk p (snd d)"
    have img: "img = (pre @ ?es) @ layout junk ?q rest @ post" using 2(5) False by (simp add: layout_entry)
    have len: "length (pre @ ?es) = ?q"
      using 2(6) length_entry_bytes [OF child_of_length [of junk p d "rest = []", OF j tame_entry(1) [OF 2(3) False]]]
        contents_length [OF j 2(3) False] by simp
    have lim: "?q + space rest < 4294967296" using 2(8) False by (simp add: space_entry)
    have "rd_chain img (start ?q rest) (map (\<lambda>(q, d). (q, fst d)) (places ?q rest))"
      by (rule 2(2) [OF False tame_entry(3) [OF 2(3) False] _ img len _ lim]) (use 2(4) in auto)
    moreover have "start ?q rest = (if rest = [] then 0 else ?q)"
      using 2(4) False by (auto simp: start_def)
    moreover have "img = pre @ entry_bytes (child_of junk p d (rest = [])) @ contents junk p (snd d) @ layout junk ?q rest @ post"
      using img by simp
    note r = child_read [OF j 2(3) False this 2(6)]
    have "?q < 4294967296" using lim by simp
    note r = r [OF this]
    moreover have "start p (d # rest) = p" using False by (simp add: start_def)
    ultimately show ?thesis
      using False 2(7) tame_entry(1) [OF 2(3) False] by simp
  qed
qed (simp add: start_def)

lemma header_read:
  assumes "length (h_label h) = 16"
  shows "hdr_signature (header_bytes h @ post) = Some (unat (h_signature h))" "hdr_version (header_bytes h @ post) = Some (unat (h_version h))"
    "hdr_size (header_bytes h @ post) = Some (unat (h_size h))" "hdr_root_entry (header_bytes h @ post) = Some (unat (h_root_entry h))"
proof -
  let ?img = "header_bytes h @ post" and ?a = "le16 (h_signature h) @ [h_version h] @ char_bytes (h_label h)"
  show "hdr_signature ?img = Some (unat (h_signature h))"
    using rd_u16_append [of "[]" 0 "h_signature h"] by (simp add: hdr_signature_def header_bytes_def)
  show "hdr_version ?img = Some (unat (h_version h))"
    using rd_u8_append [of "le16 (h_signature h)" 2 "h_version h"] by (simp add: hdr_version_def header_bytes_def)
  show "hdr_size ?img = Some (unat (h_size h))"
    using rd_u32_append [of ?a 19 "h_size h"] assms by (simp add: hdr_size_def header_bytes_def)
  show "hdr_root_entry ?img = Some (unat (h_root_entry h))"
    using rd_u32_append [of "?a @ le32 (h_size h)" 23 "h_root_entry h"] assms by (simp add: hdr_root_entry_def header_bytes_def)
qed

section \<open>The image as the kernel sees it\<close>

definition listing :: "host \<Rightarrow> (string \<times> host) list" where
  "listing h = (case h of Dir sub \<Rightarrow> (case sub of None \<Rightarrow> [] | Some ds \<Rightarrow> ds) | _ \<Rightarrow> [])"

text \<open>The host's file of a path name, and the kernel's.\<close>

fun host_find :: "host \<Rightarrow> string list \<Rightarrow> host option" where
  "host_find h [] = Some h"
| "host_find h (n # ns) =
     (case find (\<lambda>d. fst d = n \<and> \<not> dot n) (listing h) of None \<Rightarrow> None | Some d \<Rightarrow> host_find (snd d) ns)"

fun rd_walk :: "ramdisk \<Rightarrow> fs_node \<Rightarrow> string list \<Rightarrow> fs_node option option" where
  "rd_walk rd node [] = Some (Some node)"
| "rd_walk rd node (n # ns) = do {
     r \<leftarrow> ramdiskfs_finddir node n rd;
     (case r of None \<Rightarrow> Some None | Some c \<Rightarrow> rd_walk rd c ns) }"

text \<open>
  A node shows a file of the host: reading delivers its bytes from any offset, listing a directory its
  entries in order.
\<close>

definition shows_host :: "ramdisk \<Rightarrow> host \<Rightarrow> fs_node \<Rightarrow> bool" where
  "shows_host rd h node \<longleftrightarrow> (case h of
     Reg c \<Rightarrow> n_flags node = FS_FILE \<and> n_read node = Some Read_ramdiskfs \<and>
       (\<exists>bs. c = Some bs \<and> n_length node = of_nat (length bs) \<and>
         (\<forall>off sz buffer. off \<le> length bs \<and> off + sz < 18446744073709551616 \<and> length (take sz (drop off bs)) \<le> length buffer \<longrightarrow>
            ramdiskfs_read node off sz buffer rd =
              Some (take sz (drop off bs) @ drop (length (take sz (drop off bs))) buffer, length (take sz (drop off bs)))))
   | Dir _ \<Rightarrow> n_flags node = FS_DIRECTORY \<and>
       (let names = filter (\<lambda>n. \<not> dot n) (map fst (listing h)) in
        \<forall>k. map_option (map_option d_name) (ramdiskfs_readdir node k rd) = Some (if k < length names then Some (names ! k) else None))
   | _ \<Rightarrow> False)"

text \<open>A node at whose entry a chain with the layout of a listing starts.\<close>

definition dir_node :: "(nat \<Rightarrow> rdfs_entry) \<Rightarrow> ramdisk \<Rightarrow> fs_node \<Rightarrow> (string \<times> host) list \<Rightarrow> bool" where
  "dir_node junk rd node ds \<longleftrightarrow> tame ds \<and> tidy ds \<and> hdr_signature (rd_image rd) = Some RDFS_SIGNATURE \<and>
     (\<exists>pre post p e. rd_image rd = pre @ layout junk p ds @ post \<and> length pre = p \<and> 0 < p \<and> p + space ds < 4294967296 \<and>
        rd_current_entry node (rd_image rd) = Some e \<and> e \<noteq> 0 \<and> ent_target (rd_image rd) e = Some (start p ds))"

lemma dir_nodeI:
  "tame ds \<Longrightarrow> tidy ds \<Longrightarrow> hdr_signature (rd_image rd) = Some RDFS_SIGNATURE \<Longrightarrow>
   rd_image rd = pre @ layout junk p ds @ post \<Longrightarrow> length pre = p \<Longrightarrow> 0 < p \<Longrightarrow> p + space ds < 4294967296 \<Longrightarrow>
   rd_current_entry node (rd_image rd) = Some e \<Longrightarrow> e \<noteq> 0 \<Longrightarrow> ent_target (rd_image rd) e = Some (start p ds) \<Longrightarrow>
   dir_node junk rd node ds"
  unfolding dir_node_def by blast

lemma find_places:
  "find (\<lambda>x. fst (snd x) = n) (places p ds) = None \<and> find (\<lambda>d. fst d = n \<and> \<not> dot n) ds = None \<or>
   (\<exists>q d. find (\<lambda>x. fst (snd x) = n) (places p ds) = Some (q, d) \<and> find (\<lambda>d. fst d = n \<and> \<not> dot n) ds = Some d)"
  by (induction p ds rule: places.induct) auto

lemma find_map_pair:
  "find (\<lambda>x. snd x = n) (map (\<lambda>(q, d). (q, fst d)) xs) = map_option (\<lambda>(q, d). (q, fst d)) (find (\<lambda>x. fst (snd x) = n) xs)"
  by (induction xs) auto

lemma places_count: "length (places p ds) \<le> space ds"
  by (induction p ds rule: places.induct) (auto simp: space.simps(2))

lemma dir_node_readdir:
  assumes j: "\<And>q. length (e_name (junk q)) = 256" and "dir_node junk rd node ds"
  shows "map_option (map_option d_name) (ramdiskfs_readdir node k rd) =
    (let names = filter (\<lambda>n. \<not> dot n) (map fst ds) in Some (if k < length names then Some (names ! k) else None))"
proof -
  from assms(2) obtain pre post p e where d: "tame ds" "tidy ds" "hdr_signature (rd_image rd) = Some RDFS_SIGNATURE"
    "rd_image rd = pre @ layout junk p ds @ post" "length pre = p" "0 < p" "p + space ds < 4294967296"
    "rd_current_entry node (rd_image rd) = Some e" "e \<noteq> 0" "ent_target (rd_image rd) e = Some (start p ds)"
    unfolding dir_node_def by (elim exE conjE) (rule that)
  let ?es = "map (\<lambda>(q, d). (q, fst d)) (places p ds)"
  note chain = layout_chain [OF j d(1,2,4-7)]
  have names: "map snd ?es = filter (\<lambda>n. \<not> dot n) (map fst ds)"
    unfolding places_names [of p ds, symmetric] by (simp add: case_prod_unfold)
  have "length ?es < 4294967296" using places_count [of p ds] d(7) by simp
  then have "map_option (map_option d_name) (ramdiskfs_readdir node k rd) = Some (if k < length ?es then Some (snd (?es ! k)) else None)"
    by (rule readdir_chain [OF d(3,8-10) chain])
  also have "\<dots> = Some (if k < length (map snd ?es) then Some (map snd ?es ! k) else None)" by simp
  finally show ?thesis unfolding names Let_def .
qed

lemma tame_member: "tame ds \<Longrightarrow> d \<in> set ds \<Longrightarrow> tame [d]"
  by (induction ds) auto

lemma tidy_member: "tidy ds \<Longrightarrow> d \<in> set ds \<Longrightarrow> tidy (listing (snd d))"
  by (induction ds) (auto simp: listing_def split: host.splits option.splits)

lemma tame_listing: "tame [d] \<Longrightarrow> \<not> dot (fst d) \<Longrightarrow> tame (listing (snd d))"
  by (auto simp: listing_def split: host.splits option.splits)

lemma read_file:
  assumes "hdr_signature (rd_image rd) = Some RDFS_SIGNATURE" and "rd_current_entry c (rd_image rd) = Some q"
    and "ent_size (rd_image rd) q = Some (length bs)" and "ent_offset (rd_image rd) q = Some q"
    and img: "rd_image rd = pre @ bs @ post" "length pre = q + 275"
    and off: "off \<le> length bs" "off + sz < 18446744073709551616" "length (take sz (drop off bs)) \<le> length buffer"
  shows "ramdiskfs_read c off sz buffer rd =
    Some (take sz (drop off bs) @ drop (length (take sz (drop off bs))) buffer, length (take sz (drop off bs)))"
proof -
  let ?c = "take sz (drop off bs)"
  have n: "(if add64 off sz > length bs then length bs - off else sz) = length ?c"
    using off by (auto simp: add64_def min_def)
  have "rd_image rd = (pre @ take off bs) @ ?c @ (drop sz (drop off bs) @ post)"
    using img(1) by (metis append.assoc append_take_drop_id)
  moreover have "length (pre @ take off bs) = off + q + 275" using img(2) off(1) by simp
  ultimately have r: "mem_read (rd_image rd) (off + q + 275) (length ?c) = Some ?c"
    using mem_read_append by metis
  have "mem_write buffer 0 ?c = Some (?c @ drop (length ?c) buffer)"
    using off(3) by (simp add: mem_write_def)
  then show ?thesis
    using assms(1-4) off(1) r unfolding ramdiskfs_read_def Let_def by (simp add: n del: length_take length_drop)
qed

lemma rd_current_entry_node:
  "q < 4294967296 \<Longrightarrow> n_device c = Dev_ramdisk False \<Longrightarrow> n_context c = of_nat q \<Longrightarrow> rd_current_entry c img = Some q"
  by (simp add: rd_current_entry_def unsigned_ucast_eq unat_of_nat take_bit_eq_mod)

lemma child_node:
  assumes j: "\<And>q. length (e_name (junk q)) = 256" and st: "stands junk (rd_image rd) q d" and d: "tame [d]" "tidy (listing (snd d))" "\<not> dot (fst d)"
    and q: "0 < q" "q + 275 + body_size (snd d) < 4294967296" and sig: "hdr_signature (rd_image rd) = Some RDFS_SIGNATURE"
    and tk: "ent_type (rd_image rd) q = Some ty" "ent_size (rd_image rd) q = Some k"
  shows "\<exists>c. rd_node n q ty k = Some c \<and> dir_node junk rd c (listing (snd d)) \<and> shows_host rd (snd d) c"
proof -
  let ?img = "rd_image rd"
  obtain pre post final where img: "?img = pre @ entry_bytes (child_of junk q d final) @ contents junk q (snd d) @ post" and pre: "length pre = q"
    using st unfolding stands_def by (elim exE conjE) (rule that)
  note r = child_read [OF j d(1,3) img pre q(2)]
  let ?pre = "pre @ entry_bytes (child_of junk q d final)"
  have len: "length ?pre = q + 275"
    using pre length_entry_bytes [OF child_of_length [of junk q d final, OF j tame_entry(1) [OF d(1,3)]]] by simp
  obtain c where c: "rd_node n q ty k = Some c" "n_device c = Dev_ramdisk False" "n_context c = of_nat q"
    "is_dir (snd d) \<Longrightarrow> n_flags c = FS_DIRECTORY"
    "\<not> is_dir (snd d) \<Longrightarrow> n_flags c = FS_FILE \<and> n_read c = Some Read_ramdiskfs \<and> n_length c = of_nat (body_size (snd d))"
    using r(2,5) tk by (cases "is_dir (snd d)") (auto simp: rd_node_def)
  have q32: "q < 4294967296" using q(2) by linarith
  then have cur: "rd_current_entry c ?img = Some q" by (rule rd_current_entry_node) (use c in simp_all)
  note tl = tame_listing [OF d(1,3)]
  have dn: "dir_node junk rd c (listing (snd d))"
  proof (cases "listing (snd d) = []")
    case True
    have "ent_target ?img q = Some 0"
      using r(4) True by (auto simp: listing_def is_dir_def body_size_def split: host.splits option.splits)
    moreover have "?img = pre @ layout junk q [] @ (entry_bytes (child_of junk q d final) @ contents junk q (snd d) @ post)"
      using img by simp
    ultimately show ?thesis
      unfolding True using sig pre q(1) q32 cur by (intro dir_nodeI) (simp_all add: start_def)
  next
    case False
    then obtain ds where ds: "snd d = Dir (Some ds)" "listing (snd d) = ds"
      by (auto simp: listing_def split: host.splits option.splits)
    have "?img = ?pre @ layout junk (q + 275) ds @ post" using img ds(1) by (simp add: contents_def)
    moreover have "ent_target ?img q = Some (start (q + 275) ds)"
      using r(4) ds(1) space_zero [of ds] by (auto simp: is_dir_def body_size_def start_def)
    moreover have "q + 275 + space ds < 4294967296" using q(2) ds(1) by (simp add: body_size_def)
    ultimately show ?thesis
      using tl d(2) q(1) unfolding ds(2) by (intro dir_nodeI [OF _ _ sig _ len _ _ cur]) simp_all
  qed
  have "shows_host rd (snd d) c"
  proof (cases "snd d")
    case (Reg b)
    then obtain bs where bs: "b = Some bs" using d(1,3) by auto
    have im: "?img = ?pre @ bs @ post" using img Reg bs by (simp add: contents_def)
    have "ent_size ?img q = Some (length bs)" using r(5) Reg bs by (simp add: is_dir_def body_size_def)
    note rf = read_file [OF sig cur this r(1) im len]
    have "n_flags c = FS_FILE \<and> n_read c = Some Read_ramdiskfs \<and> n_length c = of_nat (length bs)"
      using c(5) Reg bs by (simp add: is_dir_def body_size_def)
    then show ?thesis unfolding shows_host_def Reg bs using rf by simp
  next
    case (Dir b)
    then show ?thesis
      unfolding shows_host_def using dir_node_readdir [OF j dn] c(4) by (simp add: is_dir_def Let_def)
  qed (use d(1,3) in auto)
  then show ?thesis using c(1) dn by blast
qed

lemma dir_node_finddir:
  assumes j: "\<And>q. length (e_name (junk q)) = 256" and node: "dir_node junk rd node ds" and n: "NUL \<notin> set n"
  shows "case find (\<lambda>d. fst d = n \<and> \<not> dot n) ds of
      None \<Rightarrow> ramdiskfs_finddir node n rd = Some None
    | Some d \<Rightarrow> \<exists>c. ramdiskfs_finddir node n rd = Some (Some c) \<and> dir_node junk rd c (listing (snd d)) \<and> shows_host rd (snd d) c"
proof -
  let ?img = "rd_image rd"
  from node obtain pre post p e where d: "tame ds" "tidy ds" "hdr_signature ?img = Some RDFS_SIGNATURE"
    "?img = pre @ layout junk p ds @ post" "length pre = p" "0 < p" "p + space ds < 4294967296"
    "rd_current_entry node ?img = Some e" "e \<noteq> 0" "ent_target ?img e = Some (start p ds)"
    unfolding dir_node_def by (elim exE conjE) (rule that)
  note fd = finddir_chain [OF d(3,8-10) layout_chain [OF j d(1,2,4-7)] n, unfolded find_map_pair]
  from find_places [of n p ds] show ?thesis
  proof (elim disjE exE conjE)
    fix q x
    assume f: "find (\<lambda>x. fst (snd x) = n) (places p ds) = Some (q, x)" "find (\<lambda>d. fst d = n \<and> \<not> dot n) ds = Some x"
    then have m: "(q, x) \<in> set (places p ds)" "fst x = n" by (auto simp: find_Some_iff)
    from places_stand [OF j d(1,4,5) m(1)] have s: "stands junk ?img q x" "p \<le> q" "q + 275 + body_size (snd x) \<le> p + space ds" "x \<in> set ds" "\<not> dot (fst x)"
      by blast+
    from fd f(1) obtain ty k where r: "ramdiskfs_finddir node n rd = Some (rd_node n q ty k)" "ent_type ?img q = Some ty" "ent_size ?img q = Some k"
      by auto
    from child_node [OF j s(1) tame_member [OF d(1) s(4)] tidy_member [OF d(2) s(4)] s(5) _ _ d(3) r(2,3)] s(2,3) d(6,7)
    show ?thesis using f(2) r(1) by simp
  qed (use fd in simp)
qed

lemma dir_node_walk:
  assumes j: "\<And>q. length (e_name (junk q)) = 256"
  shows "dir_node junk rd node (listing h) \<Longrightarrow> shows_host rd h node \<Longrightarrow> \<forall>n \<in> set path. NUL \<notin> set n \<Longrightarrow>
    (case host_find h path of None \<Rightarrow> rd_walk rd node path = Some None
     | Some h' \<Rightarrow> \<exists>c. rd_walk rd node path = Some (Some c) \<and> shows_host rd h' c)"
proof (induction path arbitrary: node h)
  case (Cons n ns)
  then have n: "NUL \<notin> set n" by simp
  show ?case
  proof (cases "find (\<lambda>d. fst d = n \<and> \<not> dot n) (listing h)")
    case None
    then show ?thesis using dir_node_finddir [OF j Cons.prems(1) n] by simp
  next
    case (Some d)
    then obtain c where c: "ramdiskfs_finddir node n rd = Some (Some c)" "dir_node junk rd c (listing (snd d))" "shows_host rd (snd d) c"
      using dir_node_finddir [OF j Cons.prems(1) n] by auto
    then have eq: "rd_walk rd node (n # ns) = rd_walk rd c ns" "host_find h (n # ns) = host_find (snd d) ns" using Some by simp_all
    show ?thesis unfolding eq by (rule Cons.IH [OF c(2,3)]) (use Cons.prems(3) in simp)
  qed
qed simp

text \<open>What the tool writes: the header, the entry of the root, the layout of the source.\<close>

lemma mkvfs_image:
  assumes j: "\<And>q. length (e_name (junk q)) = 256" and lab: "length (h_label hjunk) = 16" "NUL \<notin> set label" "length label < 16"
    and ds: "tame ds" "ds \<noteq> []" and lim: "302 + space ds < 4294967296"
  shows "\<exists>h root. mkvfs hjunk junk label (Some ds) = Some (header_bytes h @ entry_bytes root @ layout junk 302 ds) \<and>
    length (e_name root) = 256 \<and> e_target_entry root = 302 \<and> e_type root = 1 \<and> length (h_label h) = 16 \<and>
    h_signature h = 0x1DF4 \<and> h_version h = 1 \<and> h_root_entry h = 27 \<and> h_size h = of_nat (302 + space ds)"
proof -
  let ?root = "(junk 27)\<lparr>e_name := (e_name (junk 27))[0 := NUL], e_offset := 27, e_type := 1, e_next_entry := 0, e_target_entry := 302, e_size := 0\<rparr>"
  let ?f0 = "fwrite_image (entry_bytes ?root) \<lparr>im_data = [], im_pos = 27\<rparr>"
  let ?cells = "label @ NUL # drop (Suc (length label)) (h_label hjunk)"
  let ?h = "hjunk\<lparr>h_signature := 0x1DF4, h_version := 1, h_label := ?cells, h_root_entry := 27, h_size := of_nat (302 + space ds)\<rparr>"
  have rl: "length (entry_bytes ?root) = 275" using j by (intro length_entry_bytes) simp
  then have rne: "entry_bytes ?root \<noteq> []" by auto
  have f0: "?f0 = \<lparr>im_data = replicate 27 0 @ entry_bytes ?root, im_pos = 302\<rparr>" using rl rne by (simp add: fwrite_image_def)
  have st: "mem_store (e_name (junk 27)) 0 NUL = Some ((e_name (junk 27))[0 := NUL])" using j by (simp add: memobj)
  have sc: "strcpy (h_label hjunk) 0 (label @ [NUL]) = Some ?cells"
  proof -
    have "strcpy (h_label hjunk) 0 (label @ [NUL]) = mem_write (h_label hjunk) 0 (label @ [NUL])"
      by (rule strcpy_cstr) (use lab in \<open>simp_all add: cstr_def\<close>)
    then show ?thesis using lab by (simp add: mem_write_def)
  qed
  have cd: "create_directory junk (Some ds) ?f0 = Some (fwrite_image (layout junk 302 ds) ?f0, 0 + of_nat (space ds))"
    unfolding create_directory_def option.case
    by (rule create_entries_layout [OF j ds]) (use f0 rl lim in simp_all)
  have f1: "im_data (fwrite_image (layout junk 302 ds) ?f0) = replicate 27 0 @ entry_bytes ?root @ layout junk 302 ds"
    unfolding f0 using rl by (simp add: fwrite_end)
  have hl: "length (header_bytes ?h) = 27" using lab by (simp add: header_bytes_def)
  then have hne: "header_bytes ?h \<noteq> []" by auto
  let ?f1 = "fwrite_image (layout junk 302 ds) ?f0"
  have "mkvfs hjunk junk label (Some ds) = Some (im_data (fwrite_image (header_bytes ?h) (?f1\<lparr>im_pos := 0\<rparr>)))"
    unfolding mkvfs_def using st sc cd by (simp add: Let_def)
  also have "im_data (fwrite_image (header_bytes ?h) (?f1\<lparr>im_pos := 0\<rparr>)) = header_bytes ?h @ drop 27 (im_data ?f1)"
    using fwrite_start [OF _ hne, of "?f1\<lparr>im_pos := 0\<rparr>"] unfolding hl by simp
  also have "drop 27 (im_data ?f1) = entry_bytes ?root @ layout junk 302 ds" unfolding f1 by simp
  finally have "mkvfs hjunk junk label (Some ds) = Some (header_bytes ?h @ entry_bytes ?root @ layout junk 302 ds)" .
  then show ?thesis using j lab by (intro exI [of _ ?h] exI [of _ ?root]) simp
qed

text \<open>
  C10. The kernel reads back what the tool has written: for every source directory whose entries are
  files and directories with names that fit, with no listing that ends in \<open>.\<close> or \<open>..\<close> and an image below
  4 GiB, the tool ends with an image that \<open>ramdiskfs_open\<close> accepts, and walking a path name through it
  with \<open>finddir\<close> finds nothing where the host has nothing and otherwise a node that shows the host's
  file: reading it delivers the bytes of the file from any offset, and listing it the names of the
  directory in order.
\<close>

theorem mkvfs_read_back:
  assumes "\<And>q. length (e_name (junk q)) = 256" and "length (h_label hjunk) = 16" "NUL \<notin> set label" "length label < 16"
    and "tame ds" and "tidy ds" and "\<exists>x \<in> set ds. \<not> dot (fst x)" and "302 + space ds < 4294967296"
    and "base \<noteq> 0" and "\<forall>n \<in> set path. NUL \<notin> set n"
  shows "\<exists>img root. mkvfs hjunk junk label (Some ds) = Some img \<and>
    ramdiskfs_open \<lparr>rd_base = base, rd_image = img\<rparr> = Some (Some root) \<and>
    (case host_find (Dir (Some ds)) path of
       None \<Rightarrow> rd_walk \<lparr>rd_base = base, rd_image = img\<rparr> root path = Some None
     | Some h \<Rightarrow> \<exists>node. rd_walk \<lparr>rd_base = base, rd_image = img\<rparr> root path = Some (Some node) \<and>
         shows_host \<lparr>rd_base = base, rd_image = img\<rparr> h node)"
proof -
  have "ds \<noteq> []" using assms(7) by auto
  from mkvfs_image [of junk hjunk label ds, OF assms(1-5) this assms(8)] obtain h r where
    mk: "mkvfs hjunk junk label (Some ds) = Some (header_bytes h @ entry_bytes r @ layout junk 302 ds)" and
    r: "length (e_name r) = 256" "e_target_entry r = 302" and
    h: "length (h_label h) = 16" "h_signature h = 0x1DF4" "h_version h = 1" "h_root_entry h = 27" "h_size h = of_nat (302 + space ds)"
    by blast
  define img where "img = header_bytes h @ entry_bytes r @ layout junk 302 ds"
  let ?rd = "\<lparr>rd_base = base, rd_image = img\<rparr>"
  have hdr: "hdr_signature img = Some RDFS_SIGNATURE" "hdr_version img = Some 1" "hdr_size img = Some (302 + space ds)" "hdr_root_entry img = Some 27"
    using header_read [OF h(1), of "entry_bytes r @ layout junk 302 ds", folded img_def] h(2-5) assms(8) by (simp_all add: unat_of_nat del: of_nat_add)
  have tgt: "ent_target img 27 = Some 302"
    using entry_read(4) [OF img_def, of 27] h(1) r by (simp add: header_bytes_def)
  obtain root where root: "ramdiskfs_open ?rd = Some (Some root)" "n_device root = Dev_ramdisk True" "n_flags root = FS_DIRECTORY"
    using hdr assms(9) by (simp add: ramdiskfs_open_def Let_def)
  have node: "dir_node junk ?rd root (listing (Dir (Some ds)))"
  proof (rule dir_nodeI)
    show "rd_image ?rd = (header_bytes h @ entry_bytes r) @ layout junk 302 (listing (Dir (Some ds))) @ []"
      by (simp add: img_def listing_def)
    show "length (header_bytes h @ entry_bytes r) = 302" using h(1) length_entry_bytes [OF r(1)] by (simp add: header_bytes_def)
    show "rd_current_entry root (rd_image ?rd) = Some 27" using root(2) hdr(4) by (simp add: rd_current_entry_def)
    show "ent_target (rd_image ?rd) 27 = Some (start 302 (listing (Dir (Some ds))))"
      using tgt assms(7) by (simp add: start_def listing_def)
  qed (use assms(5,6,8) hdr(1) in \<open>simp_all add: listing_def\<close>)
  have "shows_host ?rd (Dir (Some ds)) root"
    unfolding shows_host_def using dir_node_readdir [OF assms(1) node] root(3) by (simp add: Let_def)
  from dir_node_walk [OF assms(1) node this assms(10)] show ?thesis
    using mk root(1) unfolding img_def [symmetric] by blast
qed

text \<open>One file \<open>a\<close> of two bytes.\<close>

definition blank_entry :: rdfs_entry where
  "blank_entry = \<lparr>e_zero = 0, e_name = replicate 256 NUL, e_offset = 0, e_type = 0, e_reserved = 0, e_next_entry = 0,
     e_target_entry = 0, e_size = 0\<rparr>"

definition blank_header :: rdfs_header where
  "blank_header = \<lparr>h_signature = 0, h_version = 0, h_label = replicate 16 NUL, h_size = 0, h_root_entry = 0\<rparr>"

lemma mkvfs_read_back_witness:
  "\<exists>img root node. mkvfs blank_header (\<lambda>_. blank_entry) ''x'' (Some [(''.'', Other), (''a'', Reg (Some [7, 8]))]) = Some img \<and>
    ramdiskfs_open \<lparr>rd_base = 0x1000, rd_image = img\<rparr> = Some (Some root) \<and>
    rd_walk \<lparr>rd_base = 0x1000, rd_image = img\<rparr> root [''a''] = Some (Some node) \<and>
    shows_host \<lparr>rd_base = 0x1000, rd_image = img\<rparr> (Reg (Some [7, 8])) node"
proof -
  let ?ds = "[(''.'', Other), (''a'', Reg (Some [7, 8]))]"
  have "host_find (Dir (Some ?ds)) [''a''] = Some (Reg (Some [7, 8]))" by (simp add: listing_def)
  moreover have "space ?ds = 277" by (simp add: space.simps(2))
  ultimately show ?thesis
    using mkvfs_read_back [of "\<lambda>_. blank_entry" blank_header "''x''" ?ds "0x1000" "[''a'']"]
    by (auto simp: blank_entry_def blank_header_def)
qed

section \<open>The reading library\<close>

text \<open>
  \<open>ramdiskfs.c\<close>: the file system is a copy of the image's header and the image; an entry pointer is an
  offset, a null pointer \<open>None\<close>; reading a file system tells whether it returns the pointer. Links are followed as long as there are any.
\<close>

record rdfs =
  rf_header :: "u8 list"
  rf_data :: "u8 list"

definition rdfs_read_filesystem :: "rdfs option \<Rightarrow> u8 list \<Rightarrow> (rdfs option \<times> bool) option" where
  "rdfs_read_filesystem fs img = (case fs of None \<Rightarrow> Some (None, False) | Some fs \<Rightarrow> do {
     hdr \<leftarrow> mem_read img 0 27;
     let fs = fs\<lparr>rf_data := img, rf_header := hdr\<rparr>;
     sig \<leftarrow> hdr_signature hdr;
     version \<leftarrow> hdr_version hdr;
     n \<leftarrow> hdr_size hdr;
     Some (Some fs, \<not> (sig \<noteq> RDFS_SIGNATURE \<or> version \<noteq> 1 \<or> n < 27)) })"

definition rdfs_follow_link :: "rdfs \<Rightarrow> nat \<Rightarrow> nat option" where
  "rdfs_follow_link fs e = do {
     type \<leftarrow> ent_type (rf_data fs) e;
     if type = 2 then ent_target (rf_data fs) e else Some e }"

partial_function (option) rdfs_follow_links :: "rdfs \<Rightarrow> nat \<Rightarrow> nat option" where
  "rdfs_follow_links fs e = do {
     type \<leftarrow> ent_type (rf_data fs) e;
     if type = 2 then do { e \<leftarrow> ent_target (rf_data fs) e; rdfs_follow_links fs e } else Some e }"

partial_function (option) rdfs_search :: "rdfs \<Rightarrow> string \<Rightarrow> nat \<Rightarrow> nat option option" where
  "rdfs_search fs name current =
     (if current = 0 then Some None
      else do {
        r \<leftarrow> strcmp (name @ [NUL]) (ent_name (rf_data fs) current);
        if r = 0 then Some (Some current)
        else do { current \<leftarrow> ent_next (rf_data fs) current; rdfs_search fs name current } })"

definition rdfs_find_entry_in :: "rdfs \<Rightarrow> nat \<Rightarrow> string \<Rightarrow> nat option option" where
  "rdfs_find_entry_in fs e name = do {
     e \<leftarrow> rdfs_follow_links fs e;
     if name = ''.'' then Some (Some e)
     else do {
       type \<leftarrow> ent_type (rf_data fs) e;
       target \<leftarrow> ent_target (rf_data fs) e;
       if type \<noteq> 1 \<or> target = 0 then Some None else rdfs_search fs name target } }"

definition rdfs_find_entry :: "rdfs option \<Rightarrow> string option \<Rightarrow> nat option option" where
  "rdfs_find_entry fs name = (case (fs, name) of
     (Some fs, Some name) \<Rightarrow> do { e \<leftarrow> hdr_root_entry (rf_header fs); rdfs_find_entry_in fs e name }
   | _ \<Rightarrow> Some None)"

definition rdfs_file_content :: "rdfs \<Rightarrow> nat \<Rightarrow> bool \<Rightarrow> nat option" where
  "rdfs_file_content fs e follow = do {
     e \<leftarrow> (if follow then rdfs_follow_links fs e else Some e);
     p \<leftarrow> ent_offset (rf_data fs) e;
     Some (p + 275) }"

text \<open>
  The library and the driver of the kernel agree on a directory: both find the first entry of a name,
  or none.
\<close>

lemma rdfs_search_chain:
  "rd_chain (rf_data fs) e es \<Longrightarrow> NUL \<notin> set name \<Longrightarrow>
   rdfs_search fs name e = map_option (\<lambda>x. if x = 0 then None else Some x) (rd_search (rf_data fs) name e)"
proof (induction es arbitrary: e)
  case Nil
  then show ?case by (subst rdfs_search.simps, subst rd_search.simps) simp
next
  case (Cons x es)
  obtain e2 where e: "e \<noteq> 0" "cstr (ent_name (rf_data fs) e) (snd x)" "ent_next (rf_data fs) e = Some e2" "rd_chain (rf_data fs) e2 es"
    using Cons.prems(1) by (cases x) auto
  have n: "cstr (name @ [NUL]) name" using Cons.prems(2) by simp
  obtain r where r: "strcmp (ent_name (rf_data fs) e) (name @ [NUL]) = Some r" "r = 0 \<longleftrightarrow> snd x = name"
    using strcmp_cstr [OF e(2) n] by blast
  obtain r' where r': "strcmp (name @ [NUL]) (ent_name (rf_data fs) e) = Some r'" "r' = 0 \<longleftrightarrow> name = snd x"
    using strcmp_cstr [OF n e(2)] by blast
  show ?case
    using Cons.IH [OF e(4) Cons.prems(2)] e(1,3) r r' by (subst rdfs_search.simps, subst rd_search.simps) auto
qed

lemma rdfs_find_entry_in_chain:
  assumes "ent_type (rf_data fs) e = Some 1" and "ent_target (rf_data fs) e = Some t" and "rd_chain (rf_data fs) t es"
    and "NUL \<notin> set name" and "name \<noteq> ''.''"
  shows "rdfs_find_entry_in fs e name = Some (map_option fst (find (\<lambda>x. snd x = name) es))"
proof -
  have "rdfs_follow_links fs e = Some e" using assms(1) by (subst rdfs_follow_links.simps) simp
  moreover have "t = 0 \<Longrightarrow> es = []" using assms(3) by (cases es) auto
  moreover have "fst x \<noteq> 0" if "find (\<lambda>x. snd x = name) es = Some x" for x
    using that rd_chain_member [OF assms(3), of x] by (auto simp: find_Some_iff)
  ultimately show ?thesis
    using assms(1,2,5) rdfs_search_chain [OF assms(3,4)] rd_search_chain [OF assms(3,4)]
    by (auto simp: rdfs_find_entry_in_def split: option.splits)
qed

section \<open>Where the tool fails\<close>

text \<open>A symbolic link (or a device) is skipped without reading the next entry: the tool does not end.\<close>

lemma link_hangs:
  assumes skip: "snd d = Lnk \<or> snd d = Other" and nd: "\<not> dot (fst d)"
  shows "create_entries junk (d # rest) f w = None"
proof (rule ccontr)
  let ?P = "\<lambda>junk ds (f :: image) (w :: u32) (y :: image \<times> u32). ds \<noteq> d # rest"
  assume "create_entries junk (d # rest) f w \<noteq> None"
  then obtain y where "create_entries junk (d # rest) f w = Some y" by blast
  then have "?P junk (d # rest) f w y"
  proof (rule create_entries.raw_induct [where P = ?P, rotated], goal_cases)
    case (1 ce junk ds f w y)
    show ?case
    proof
      assume "ds = d # rest"
      from 1(2) [unfolded this] obtain g where "ce junk (d # rest) g w = Some y"
        using skip nd by (auto simp: Let_def bind_eq_Some_conv)
      from 1(1) [OF this] show False by simp
    qed
  qed
  then show False by simp
qed

text \<open>\<open>main\<close> lets a label of 16 characters through, whose terminator does not fit the field.\<close>

lemma label_overflow:
  assumes "length (h_label hjunk) = 16" and "length label = 16" and "NUL \<notin> set label" and "length (e_name (junk 27)) = 256"
  shows "mkvfs hjunk junk label ds = None"
proof -
  have "strcpy dst i (t @ [NUL]) = None" if "NUL \<notin> set t" "length dst \<le> i + length t" for dst i t
    using that by (induction t arbitrary: dst i) (auto simp: memobj mem_store_def)
  from this [of label "h_label hjunk" 0] show ?thesis using assms by (simp add: mkvfs_def memobj)
qed

text \<open>
  When a listing ends in \<open>.\<close> or \<open>..\<close>, the entry before it claims a successor: at the end of the image for the
  root, at the entry behind the directory for a subdirectory. An empty source leaves the root pointing
  behind the image too. Either way the kernel reads beyond the image.
\<close>

lemma readdir_beyond:
  assumes "hdr_signature img = Some RDFS_SIGNATURE" and "hdr_root_entry img = Some 27" and "ent_target img 27 = Some e" "e \<noteq> 0"
    and "rd_skip img 0 k e = Some (length img)" and "0 < length img"
  shows "ramdiskfs_readdir (fs_node_zero\<lparr>n_device := Dev_ramdisk True\<rparr>) k \<lparr>rd_base = base, rd_image = img\<rparr> = None"
  using assms by (simp add: ramdiskfs_readdir_def rd_current_entry_def entry_text_def ent_name_def)

lemma mkvfs_header:
  assumes j: "\<And>q. length (e_name (junk q)) = 256" and lab: "length (h_label hjunk) = 16" "NUL \<notin> set label" "length label < 16"
    and ds: "tame ds" "ds \<noteq> []" and lim: "302 + space ds < 4294967296"
  shows "\<exists>img pre. mkvfs hjunk junk label (Some ds) = Some img \<and> img = pre @ layout junk 302 ds \<and> length pre = 302 \<and>
    hdr_signature img = Some RDFS_SIGNATURE \<and> hdr_root_entry img = Some 27 \<and> ent_target img 27 = Some 302"
proof -
  from mkvfs_image [of junk hjunk label ds, OF assms] obtain h r where
    mk: "mkvfs hjunk junk label (Some ds) = Some (header_bytes h @ entry_bytes r @ layout junk 302 ds)" and
    r: "length (e_name r) = 256" "e_target_entry r = 302" and
    h: "length (h_label h) = 16" "h_signature h = 0x1DF4" "h_version h = 1" "h_root_entry h = 27"
    by blast
  have hl: "length (header_bytes h) = 27" using h(1) by (simp add: header_bytes_def)
  let ?img = "header_bytes h @ entry_bytes r @ layout junk 302 ds"
  have "ent_target ?img 27 = Some 302" using entry_read(4) [OF refl hl r(1)] r(2) by simp
  moreover have "length (header_bytes h @ entry_bytes r) = 302" using hl length_entry_bytes [OF r(1)] by simp
  ultimately show ?thesis
    using mk header_read [OF h(1), of "entry_bytes r @ layout junk 302 ds"] h(2-4)
    by (intro exI [of _ ?img] exI [of _ "header_bytes h @ entry_bytes r"]) simp
qed

lemma empty_source_unreadable:
  assumes "\<And>q. length (e_name (junk q)) = 256" and "length (h_label hjunk) = 16" "NUL \<notin> set label" "length label < 16"
    and "tame ds" "ds \<noteq> []" "space ds = 0"
  shows "\<exists>img. mkvfs hjunk junk label (Some ds) = Some img \<and>
    ramdiskfs_readdir (fs_node_zero\<lparr>n_device := Dev_ramdisk True\<rparr>) 0 \<lparr>rd_base = base, rd_image = img\<rparr> = None"
proof -
  from mkvfs_header [of junk hjunk label ds, OF assms(1-6)] assms(7) obtain img pre where
    i: "mkvfs hjunk junk label (Some ds) = Some img" "img = pre @ layout junk 302 ds" "length pre = 302"
      "hdr_signature img = Some RDFS_SIGNATURE" "hdr_root_entry img = Some 27" "ent_target img 27 = Some 302" by auto
  have "length img = 302" using i(2,3) layout_length [of junk ds 302, OF assms(1,5)] assms(7) by simp
  moreover have "rd_skip img 0 0 302 = Some 302" by (subst rd_skip.simps) simp
  ultimately have "ramdiskfs_readdir (fs_node_zero\<lparr>n_device := Dev_ramdisk True\<rparr>) 0 \<lparr>rd_base = base, rd_image = img\<rparr> = None"
    by (intro readdir_beyond [OF i(4-6)]) simp_all
  then show ?thesis using i(1) by blast
qed

lemma trailing_dot_unreadable:
  assumes j: "\<And>q. length (e_name (junk q)) = 256" and "length (h_label hjunk) = 16" "NUL \<notin> set label" "length label < 16"
    and t: "tame [d, (''.'', h)]" and nd: "\<not> dot (fst d)" and lim: "577 + body_size (snd d) < 4294967296"
  shows "\<exists>img. mkvfs hjunk junk label (Some [d, (''.'', h)]) = Some img \<and>
    ramdiskfs_readdir (fs_node_zero\<lparr>n_device := Dev_ramdisk True\<rparr>) 1 \<lparr>rd_base = base, rd_image = img\<rparr> = None"
proof -
  let ?ds = "[d, (''.'', h)]"
  have sp: "space ?ds = 275 + body_size (snd d)" using nd by (simp add: space_entry space_dot)
  then have "302 + space ?ds < 4294967296" using lim by simp
  from mkvfs_header [of junk hjunk label ?ds, OF assms(1-5) _ this] obtain img pre where
    i: "mkvfs hjunk junk label (Some ?ds) = Some img" "img = pre @ layout junk 302 ?ds" "length pre = 302"
      "hdr_signature img = Some RDFS_SIGNATURE" "hdr_root_entry img = Some 27" "ent_target img 27 = Some 302" by auto
  have len: "length img = 577 + body_size (snd d)" using i(2,3) layout_length [of junk ?ds 302, OF j t] sp by simp
  have "layout junk 302 ?ds = entry_bytes (child_of junk 302 d False) @ contents junk 302 (snd d)"
    using nd by (simp add: layout_entry layout_dot)
  then have img: "img = pre @ entry_bytes (child_of junk 302 d False) @ contents junk 302 (snd d)" using i(2) by simp
  have "ent_next img 302 = Some (length img)"
    using child_read(3) [OF j t nd img i(3)] lim len by simp
  then have "rd_skip img 0 1 302 = Some (length img)"
    by (subst rd_skip.simps, simp, subst rd_skip.simps, simp)
  then have "ramdiskfs_readdir (fs_node_zero\<lparr>n_device := Dev_ramdisk True\<rparr>) 1 \<lparr>rd_base = base, rd_image = img\<rparr> = None"
    using len by (intro readdir_beyond [OF i(4-6)]) simp_all
  then show ?thesis using i(1) by blast
qed

text \<open>With a label the target is the fourth argument, which the check of \<open>argc\<close> does not ask for.\<close>

lemma label_without_target:
  "mkvfs_args [prog, ''--label='' @ l, source] = (if length l > 16 then Some (Inl (- 1)) else None)"
  by (simp add: mkvfs_args_def mem_load_def)

end
