(* ===== verification/Progstart.thy ===== *)
theory Progstart
  imports Elf Stdio
begin

unbundle bit_operations_syntax

text \<open>
  How a program finds its arguments: what \<open>elf_exec\<close> has pushed on the user stack, read back through
  the page tables, and the start code of \<open>libc/_main.c\<close>, which looks for the environment behind the
  arguments. The stores go through the page tables too, so the first part shows that user memory
  that is mapped to writable frames of its own behaves like memory.
\<close>

section \<open>User memory as memory\<close>

text \<open>The entries that the walk to an address reads, and the byte it arrives at.\<close>

definition walk_entries :: "u64 \<Rightarrow> u64 \<Rightarrow> mmu \<Rightarrow> u64 list" where
  "walk_entries pml va m = (
     let p4 = entry pml (pml4_index va);
         p3 = entry (table_of (load_entry p4 m)) (pdp_index va);
         p2 = entry (table_of (load_entry p3 m)) (pd_index va)
     in [p4, p3, p2, entry (table_of (load_entry p2 m)) (pt_index va)])"

definition leaf :: "mmu \<Rightarrow> u64 \<Rightarrow> pagemap_entry" where
  "leaf m va = load_entry (mmu_lookup_frame_from (current_pml m) va m) m"

definition phys :: "mmu \<Rightarrow> u64 \<Rightarrow> u64" where
  "phys m va = page_byte (leaf m va) va"

definition user_mapped :: "mmu \<Rightarrow> u64 set \<Rightarrow> bool" where
  "user_mapped m A \<longleftrightarrow>
     (\<forall>va \<in> A. canonical va \<and> \<not> HIGH_MAP_REGION \<le> va \<and> mmu_lookup_frame_from (current_pml m) va m \<noteq> 0 \<and>
        e_present (leaf m va) \<and> e_writable (leaf m va)) \<and>
     inj_on (phys m) A \<and>
     (\<forall>va \<in> A. \<forall>wa \<in> A. \<forall>p \<in> set (walk_entries (current_pml m) wa m). \<not> in_range (phys m va) p 8)"

lemma walk_cong:
  assumes "\<And>p. p \<in> set (walk_entries pml va m) \<Longrightarrow> load_entry p m' = load_entry p m"
  shows "walk_entries pml va m' = walk_entries pml va m"
    and "mmu_lookup_frame_from pml va m' = mmu_lookup_frame_from pml va m"
proof -
  define p4 where "p4 = entry pml (pml4_index va)"
  define p3 where "p3 = entry (table_of (load_entry p4 m)) (pdp_index va)"
  define p2 where "p2 = entry (table_of (load_entry p3 m)) (pd_index va)"
  have "walk_entries pml va m = [p4, p3, p2, entry (table_of (load_entry p2 m)) (pt_index va)]"
    by (simp add: walk_entries_def Let_def p4_def p3_def p2_def)
  then have "load_entry p4 m' = load_entry p4 m" "load_entry p3 m' = load_entry p3 m" "load_entry p2 m' = load_entry p2 m"
    using assms by simp_all
  then show "walk_entries pml va m' = walk_entries pml va m"
    "mmu_lookup_frame_from pml va m' = mmu_lookup_frame_from pml va m"
    unfolding p2_def p3_def p4_def walk_entries_def mmu_lookup_frame_from_def Let_def by (simp_all only:)
qed

lemma lookup_in_walk:
  "mmu_lookup_frame_from pml va m \<noteq> 0 \<Longrightarrow> mmu_lookup_frame_from pml va m \<in> set (walk_entries pml va m)"
  by (auto simp: walk_entries_def mmu_lookup_frame_from_def Let_def split: if_splits)

lemma user_mappedD:
  assumes "user_mapped m A" and "va \<in> A"
  shows "user_load va m = Some (kmem m (phys m va))" and "user_store va b m = Some (put_byte (phys m va) b m)"
  using assms by (auto simp: user_mapped_def user_load_def user_store_def phys_def leaf_def Let_def)

lemma user_mapped_subset: "user_mapped m A \<Longrightarrow> B \<subseteq> A \<Longrightarrow> user_mapped m B"
  unfolding user_mapped_def by (blast intro: inj_on_subset)

lemma put_byte_mapped:
  assumes mp: "user_mapped m A" and va: "va \<in> A" and m': "m' = put_byte (phys m va) b m"
  shows "user_mapped m' A" and "\<And>x. x \<in> A \<Longrightarrow> user_load x m' = (if x = va then Some b else user_load x m)"
proof -
  have pml: "current_pml m' = current_pml m" by (simp add: m' put_byte_def)
  have same: "load_entry p m' = load_entry p m" if "p \<in> set (walk_entries (current_pml m) wa m)" "wa \<in> A" for p wa
  proof (rule load_entry_cong)
    fix x
    assume "in_range x p 8"
    then have "x \<noteq> phys m va" using mp va that by (auto simp: user_mapped_def)
    then show "kmem m' x = kmem m x" by (simp add: m' put_byte_def)
  qed
  have walk: "walk_entries (current_pml m) wa m' = walk_entries (current_pml m) wa m"
    "mmu_lookup_frame_from (current_pml m) wa m' = mmu_lookup_frame_from (current_pml m) wa m" if "wa \<in> A" for wa
    using walk_cong [of "current_pml m" wa m m'] same that by blast+
  have leaf: "leaf m' wa = leaf m wa" if "wa \<in> A" for wa
    unfolding leaf_def pml walk(2) [OF that]
    by (rule same [OF lookup_in_walk that]) (use mp that in \<open>auto simp: user_mapped_def\<close>)
  then have ph: "phys m' wa = phys m wa" if "wa \<in> A" for wa using that by (simp add: phys_def)
  show mp': "user_mapped m' A"
    using mp by (auto simp: user_mapped_def pml walk leaf ph inj_on_def)
  show "user_load x m' = (if x = va then Some b else user_load x m)" if x: "x \<in> A" for x
  proof -
    have "phys m x = phys m va \<longleftrightarrow> x = va" using mp x va by (auto simp: user_mapped_def inj_on_def)
    moreover have "kmem m' (phys m x) = (if phys m x = phys m va then b else kmem m (phys m x))"
      by (simp add: m' put_byte_def)
    ultimately show ?thesis
      using user_mappedD(1) [OF mp' x] user_mappedD(1) [OF mp x] ph [OF x] by auto
  qed
qed

text \<open>Writing several bytes refines the writing of a byte string.\<close>

lemma user_write_mapped:
  assumes "user_mapped m A" and "\<And>i. i < length bs \<Longrightarrow> va + of_nat i \<in> A" and "length bs < SIZE_MOD"
  obtains m' where "user_write va bs m = Some m'" and "user_mapped m' A"
    and "\<And>x. x \<in> A \<Longrightarrow> user_load x m' = (if in_range x va (length bs) then Some (bs ! unat (x - va)) else user_load x m)"
proof -
  have "\<exists>m'. user_write va bs m = Some m' \<and> user_mapped m' A \<and>
      (\<forall>x \<in> A. user_load x m' = (if in_range x va (length bs) then Some (bs ! unat (x - va)) else user_load x m))"
    using assms
  proof (induction bs arbitrary: va m)
    case Nil
    then show ?case by (simp add: in_range_def)
  next
    case (Cons b bs)
    have va: "va \<in> A" using Cons.prems(2) [of 0] by simp
    let ?m = "put_byte (phys m va) b m"
    note st = user_mappedD(2) [OF Cons.prems(1) va, of b]
    note mp = put_byte_mapped [OF Cons.prems(1) va refl [of "put_byte (phys m va) b m"]]
    have "va + 1 + of_nat i \<in> A" if "i < length bs" for i
      using Cons.prems(2) [of "Suc i"] that by (simp add: add.assoc)
    from Cons.IH [OF mp(1) this] Cons.prems(3) obtain m' where
      m': "user_write (va + 1) bs ?m = Some m'" "user_mapped m' A"
        "\<forall>x \<in> A. user_load x m' = (if in_range x (va + 1) (length bs) then Some (bs ! unat (x - (va + 1))) else user_load x ?m)"
      by auto
    have "user_load x m' = (if in_range x va (Suc (length bs)) then Some ((b # bs) ! unat (x - va)) else user_load x m)"
      if x: "x \<in> A" for x
    proof (cases "x = va")
      case True
      have "unat (- 1 :: u64) = 18446744073709551615" by (simp add: unsigned_minus_1_eq_mask mask_eq_exp_minus_1)
      then have "\<not> in_range x (va + 1) (length bs)" using True Cons.prems(3) by (simp add: in_range_def)
      then show ?thesis using m'(3) mp(2) [OF x] x True by (simp add: in_range_def)
    next
      case False
      then have n0: "unat (x - va) \<noteq> 0" by (simp add: unat_eq_zero)
      have "unat (x - (va + 1)) = unat (x - va) - 1"
      proof -
        have "x - (va + 1) = (x - va) - 1" by simp
        also have "unat \<dots> = unat (x - va) - 1" using False by (intro unat_minus_one) simp
        finally show ?thesis .
      qed
      with n0 show ?thesis
        using m'(3) mp(2) [OF x] x False by (cases "unat (x - va)") (auto simp: in_range_def)
    qed
    then show ?case using st m' by auto
  qed
  then show ?thesis using that by auto
qed

section \<open>The user stack\<close>

text \<open>Addresses of the stack, from its lowest byte to its end.\<close>

abbreviation (input) STACK_TOP :: nat where "STACK_TOP \<equiv> 140737488355328"

definition stack_area :: "nat \<Rightarrow> u64 set" where
  "stack_area lo = {x. lo \<le> unat x \<and> unat x < STACK_TOP}"

text \<open>Between two states of a stack: it has grown downwards and everything on it is as it was.\<close>

definition grown :: "nat \<Rightarrow> u64 \<times> mmu \<Rightarrow> u64 \<times> mmu \<Rightarrow> bool" where
  "grown lo st st' \<longleftrightarrow> user_mapped (snd st') (stack_area lo) \<and> lo \<le> unat (fst st') \<and> unat (fst st') \<le> unat (fst st) \<and>
     (\<forall>x. unat (fst st) \<le> unat x \<and> unat x < STACK_TOP \<longrightarrow> user_load x (snd st') = user_load x (snd st))"

lemma stack_grown_refl: "user_mapped m (stack_area lo) \<Longrightarrow> lo \<le> unat sp \<Longrightarrow> grown lo (sp, m) (sp, m)"
  by (simp add: grown_def)

lemma stack_grown_trans: "grown lo a b \<Longrightarrow> grown lo b c \<Longrightarrow> grown lo a c"
  by (auto simp: grown_def)

lemma those_map: "(\<And>x. x \<in> set xs \<Longrightarrow> f x = Some (g x)) \<Longrightarrow> those (map f xs) = Some (map g xs)"
  by (induction xs) auto

lemma unat_offset: "unat (p :: u64) + n < 18446744073709551616 \<Longrightarrow> unat (p + of_nat n) = unat p + n"
  by (simp add: unat_word_ariths unat_of_nat)

lemma unat_aligned:
  assumes "n = 1 \<or> n = 8" and "n \<le> unat (sp :: u64)"
  shows "unat ((sp - of_nat n) AND NOT (of_nat n - 1)) = (unat sp - n) div n * n"
proof -
  have d: "unat (sp - of_nat n) = unat sp - n"
    using assms by (auto simp: unat_sub word_le_nat_alt)
  have "a AND NOT 7 = push_bit 3 (drop_bit 3 a)" for a :: u64
  proof -
    have "a AND NOT (mask 3) = push_bit 3 (drop_bit 3 a)" by (rule bit_word_eqI) (auto simp: bit_simps)
    moreover have "(7 :: u64) = mask 3" by (simp add: mask_eq_exp_minus_1)
    ultimately show ?thesis by (simp only:)
  qed
  moreover have "unat (push_bit 3 (drop_bit 3 a)) = unat a div 8 * 8" for a :: u64
  proof -
    have "unat a < 18446744073709551616" using unsigned_less [of a, where 'a = nat] by simp
    then have "unat a div 8 * 8 < 18446744073709551616" by linarith
    then show ?thesis by (simp add: push_bit_eq_mult unat_word_ariths unat_drop_bit mult.commute)
  qed
  ultimately show ?thesis using assms(1) d by auto
qed

lemma push_value_grown:
  assumes n: "n = 1 \<or> n = 8" and mp: "user_mapped m (stack_area lo)" and room: "lo + 2 * n \<le> unat sp + 1" "unat sp \<le> STACK_TOP"
  obtains sp' m' where "push_value n v (sp, m) = Some (sp', m')" and "grown lo (sp, m) (sp', m')"
    and "unat sp' = (unat sp - n) div n * n" and "user_read sp' n m' = Some (le_bytes n v)"
proof -
  define sp' where "sp' = (sp - of_nat n) AND NOT (of_nat n - 1)"
  have nsp: "n \<le> unat sp" "0 < n" using n room by auto
  have u: "unat sp' = (unat sp - n) div n * n" unfolding sp'_def by (rule unat_aligned [OF n nsp(1)])
  have le: "unat sp' + n \<le> unat sp" "lo \<le> unat sp'"
  proof -
    have "(unat sp - n) div n * n \<le> unat sp - n" by simp
    then show "unat sp' + n \<le> unat sp" using nsp u by linarith
    have "unat sp - n < (unat sp - n) div n * n + n" 
      using dividend_less_div_times [OF nsp(2), of "unat sp - n"] by (simp add: add.commute)
    then show "lo \<le> unat sp'" using room(1) u nsp(1) by linarith
  qed
  have small: "unat sp' + i < 18446744073709551616" if "i \<le> n" for i using le that room(2) n by auto
  have area: "sp' + of_nat i \<in> stack_area lo" if "i < length (le_bytes n v)" for i
    using le room(2) that unat_offset [OF small, of i] by (simp add: stack_area_def le_bytes_def)
  have len: "length (le_bytes n v) = n" by (simp add: le_bytes_def)
  obtain m' where m': "user_write sp' (le_bytes n v) m = Some m'" "user_mapped m' (stack_area lo)"
    "\<And>x. x \<in> stack_area lo \<Longrightarrow> user_load x m' = (if in_range x sp' n then Some (le_bytes n v ! unat (x - sp')) else user_load x m)"
    by (rule user_write_mapped [OF mp, of "le_bytes n v" sp']) (use n area len in auto)
  have "user_load x m' = user_load x m" if x: "unat sp \<le> unat x" "unat x < STACK_TOP" for x
  proof -
    have "unat (x - sp') = unat x - unat sp'" using x le by (intro unat_sub) (simp add: word_le_nat_alt)
    then have "\<not> in_range x sp' n" using x le by (simp add: in_range_def)
    moreover have "x \<in> stack_area lo" using x le by (simp add: stack_area_def)
    ultimately show ?thesis using m'(3) by simp
  qed
  then have g: "grown lo (sp, m) (sp', m')" using m'(2) le by (simp add: grown_def)
  have "user_read sp' n m' = Some (map ((!) (le_bytes n v)) [0..<n])"
    unfolding user_read_def
  proof (rule those_map)
    fix i
    assume "i \<in> set [0..<n]"
    then have i: "i < n" by simp
    have "unat (of_nat i :: u64) = i" using i n by (auto simp: unat_of_nat)
    then show "user_load (sp' + of_nat i) m' = Some (le_bytes n v ! i)"
      using m'(3) [OF area, of i] i by (simp add: in_range_def le_bytes_def)
  qed
  also have "map ((!) (le_bytes n v)) [0..<n] = le_bytes n v" by (rule nth_equalityI) (simp_all add: le_bytes_def)
  finally have "user_read sp' n m' = Some (le_bytes n v)" .
  moreover have "push_value n v (sp, m) = Some (sp', m')" using m'(1) by (simp add: push_value_def sp'_def Let_def)
  ultimately show ?thesis using that g u by blast
qed

section \<open>Texts and vectors on the stack\<close>

definition text_at :: "u64 \<Rightarrow> string \<Rightarrow> mmu \<Rightarrow> bool" where
  "text_at p s m \<longleftrightarrow> unat p + length s < STACK_TOP \<and>
     (\<forall>i < length s. user_load (p + of_nat i) m = Some (of_nat (of_char (s ! i)))) \<and> user_load (p + of_nat (length s)) m = Some 0"

definition vector_at :: "u64 \<Rightarrow> u64 list \<Rightarrow> mmu \<Rightarrow> bool" where
  "vector_at p vs m \<longleftrightarrow> unat p + 8 * length vs \<le> STACK_TOP \<and>
     (\<forall>i < length vs. user_read (p + of_nat (8 * i)) 8 m = Some (le_bytes 8 (vs ! i)))"

lemma text_at_grown:
  assumes t: "text_at p s m" and g: "grown lo (sp, m) (sp', m')" and p: "unat sp \<le> unat p"
  shows "text_at p s m'"
proof -
  have same: "user_load (p + of_nat i) m' = user_load (p + of_nat i) m" if "i \<le> length s" for i
  proof -
    have "unat p + i < STACK_TOP" using t that by (simp add: text_at_def)
    then have "unat (p + of_nat i) = unat p + i" by (intro unat_offset) simp
    then show ?thesis using g p \<open>unat p + i < STACK_TOP\<close> by (simp add: grown_def)
  qed
  then show ?thesis using t by (simp add: text_at_def)
qed

lemma vector_at_grown:
  assumes v: "vector_at p vs m" and g: "grown lo (sp, m) (sp', m')" and p: "unat sp \<le> unat p"
  shows "vector_at p vs m'"
proof -
  have same: "user_read (p + of_nat (8 * i)) 8 m' = user_read (p + of_nat (8 * i)) 8 m" if "i < length vs" for i
  proof -
    have e: "unat p + (8 * i + j) < STACK_TOP" if "j < 8" for j
      using v that \<open>i < length vs\<close> by (simp add: vector_at_def)
    have "user_load (p + of_nat (8 * i) + of_nat j) m' = user_load (p + of_nat (8 * i) + of_nat j) m" if "j < 8" for j
    proof -
      have "unat (p + of_nat (8 * i + j)) = unat p + (8 * i + j)" using e [OF that] by (intro unat_offset) linarith
      moreover have "\<forall>x. unat sp \<le> unat x \<and> unat x < STACK_TOP \<longrightarrow> user_load x m' = user_load x m"
        using g by (simp add: grown_def)
      ultimately have "user_load (p + of_nat (8 * i + j)) m' = user_load (p + of_nat (8 * i + j)) m"
        using p e [OF that] by (metis trans_le_add1)
      then show ?thesis by (simp only: of_nat_add add.assoc)
    qed
    then have "map (\<lambda>j. user_load (p + of_nat (8 * i) + of_nat j) m') [0..<8] = map (\<lambda>j. user_load (p + of_nat (8 * i) + of_nat j) m) [0..<8]"
      by (intro map_cong) simp_all
    then show ?thesis unfolding user_read_def by (simp only:)
  qed
  then show ?thesis using v by (simp add: vector_at_def)
qed

lemma text_at_string:
  "text_at p s m \<Longrightarrow> CHR 0x00 \<notin> set s \<Longrightarrow> user_string p m = Some s"
proof (induction s arbitrary: p)
  case Nil
  then show ?case by (subst user_string.simps) (simp add: text_at_def)
next
  case (Cons c s)
  have small: "unat p + Suc (length s) < STACK_TOP" using Cons.prems(1) by (simp add: text_at_def)
  have "unat (p + of_nat 1) = unat p + 1" by (rule unat_offset) (use small in simp)
  moreover have "user_load (p + 1 + of_nat i) m = user_load (p + of_nat (Suc i)) m" for i by (simp add: add.assoc)
  ultimately have "text_at (p + 1) s m"
    using Cons.prems(1) small by (auto simp: text_at_def)
  with Cons have ih: "user_string (p + 1) m = Some s" by simp
  have "user_load p m = Some (of_nat (of_char c))" using Cons.prems(1) [unfolded text_at_def] by (auto dest: spec [of _ 0])
  moreover have "of_char c < (256 :: nat)" by (rule nat_of_char_less_256)
  moreover have "of_char c \<noteq> (0 :: nat)"
  proof
    assume "of_char c = (0 :: nat)"
    then have "(of_char c :: nat) = of_char (CHR 0x00)" by simp
    then have "c = CHR 0x00" by (simp only: of_char_nat_eq)
    with Cons.prems(2) show False by simp
  qed
  ultimately have "unat (of_nat (of_char c) :: u8) = of_char c" "(of_nat (of_char c) :: u8) \<noteq> 0"
    by (simp_all add: unat_of_nat word_unat_eq_iff del: of_nat_of_char)
  then show ?case using ih \<open>user_load p m = _\<close> by (subst user_string.simps) (simp del: of_nat_of_char)
qed

section \<open>Pushing them\<close>

lemma push_string_grown:
  assumes "user_mapped m (stack_area lo)" and "lo + length s + 1 \<le> unat sp" and "unat sp \<le> STACK_TOP"
  obtains sp' m' where "push_string s (sp, m) = Some (sp', m')" and "grown lo (sp, m) (sp', m')"
    and "unat sp' + length s + 1 = unat sp" and "text_at sp' s m'"
proof -
  have bytes: "\<exists>sp' m'. for_each (rev cs) (\<lambda>c. push_value 1 (of_nat (of_char c))) (sp, m) = Some (sp', m') \<and>
      grown lo (sp, m) (sp', m') \<and> unat sp' + length cs = unat sp \<and>
      (\<forall>i < length cs. user_load (sp' + of_nat i) m' = Some (of_nat (of_char (cs ! i))))"
    if "lo + length cs \<le> unat sp" for cs :: string
    using that
  proof (induction cs)
    case Nil
    then show ?case using assms(1) by (auto intro: stack_grown_refl)
  next
    case (Cons c cs)
    then obtain sp1 m1 where i: "for_each (rev cs) (\<lambda>c. push_value 1 (of_nat (of_char c))) (sp, m) = Some (sp1, m1)"
      "grown lo (sp, m) (sp1, m1)" "unat sp1 + length cs = unat sp"
      "\<forall>i < length cs. user_load (sp1 + of_nat i) m1 = Some (of_nat (of_char (cs ! i)))" by auto
    have mp: "user_mapped m1 (stack_area lo)" using i(2) by (simp add: grown_def)
    obtain sp' m' where p: "push_value 1 (of_nat (of_char c)) (sp1, m1) = Some (sp', m')" "grown lo (sp1, m1) (sp', m')"
      "unat sp' = (unat sp1 - 1) div 1 * 1" "user_read sp' 1 m' = Some (le_bytes 1 (of_nat (of_char c)))"
      by (rule push_value_grown [OF _ mp, of 1 sp1 "of_nat (of_char c)"]) (use Cons.prems i(3) assms(3) in auto)
    have sp': "unat sp' + 1 = unat sp1" using p(3) Cons.prems i(3) by simp
    then have next1: "sp' + 1 = sp1" using assms(3) i(3) by (simp add: word_unat_eq_iff unat_word_ariths)
    have b0: "user_load sp' m' = Some (of_nat (of_char c))"
    proof -
      have "of_char c mod 256 = (of_char c :: nat)" "of_char c mod 18446744073709551616 = (of_char c :: nat)"
        using nat_of_char_less_256 [of c] by (intro mod_less; linarith)+
      then have "(ucast (of_nat (of_char c) :: u64) :: u8) = of_nat (of_char c)"
        by (simp add: word_unat_eq_iff unsigned_ucast_eq unat_of_nat take_bit_eq_mod del: of_nat_of_char)
      then show ?thesis using p(4) by (auto simp: user_read_def le_bytes_def split: option.splits)
    qed
    have "user_load (sp' + of_nat j) m' = Some (of_nat (of_char ((c # cs) ! j)))" if j: "j < length (c # cs)" for j
    proof (cases j)
      case 0
      then show ?thesis using b0 by simp
    next
      case (Suc k)
      have e: "sp' + of_nat j = sp1 + of_nat k" using Suc by (simp flip: next1 add: add.assoc)
      have u: "unat (sp1 + of_nat k) = unat sp1 + k" by (rule unat_offset) (use Suc j i(3) assms(3) in simp)
      have "user_load (sp1 + of_nat k) m' = user_load (sp1 + of_nat k) m1"
        using p(2) u Suc j i(3) assms(3) by (simp add: grown_def)
      then show ?thesis unfolding e using i(4) Suc j by simp
    qed
    then show ?case
      using i(1,3) p(1) stack_grown_trans [OF i(2) p(2)] sp'
      by (auto simp: for_each_append simp del: of_nat_of_char)
  qed
  have nth: "i < Suc (length s) \<Longrightarrow> (s @ [CHR 0x00]) ! i = (if i < length s then s ! i else CHR 0x00)" for i
    by (auto simp: nth_append)
  from bytes [of "s @ [CHR 0x00]"] assms(2) obtain sp' m' where
    r: "push_string s (sp, m) = Some (sp', m')" "grown lo (sp, m) (sp', m')" "unat sp' + length s + 1 = unat sp"
      "\<forall>i < Suc (length s). user_load (sp' + of_nat i) m' = Some (of_nat (of_char ((s @ [CHR 0x00]) ! i)))"
    by (auto simp: push_string_def)
  have "text_at sp' s m'"
    using r(3) assms(3) r(4) nth by (auto simp: text_at_def)
  then show ?thesis using that r by blast
qed

definition strings_room :: "string list \<Rightarrow> nat" where
  "strings_room strs = sum_list (map (\<lambda>s. length s + 1) strs)"

definition texts_at :: "u64 list \<Rightarrow> string list \<Rightarrow> u64 \<Rightarrow> mmu \<Rightarrow> bool" where
  "texts_at ptrs strs sp m \<longleftrightarrow> list_all2 (\<lambda>p s. unat sp \<le> unat p \<and> text_at p s m) ptrs strs"

lemma texts_at_grown: "texts_at ptrs strs sp m \<Longrightarrow> grown lo (sp, m) (sp', m') \<Longrightarrow> texts_at ptrs strs sp' m'"
  unfolding texts_at_def
  by (erule list_all2_mono) (auto intro: text_at_grown simp: grown_def)

lemma push_strings_grown:
  assumes "user_mapped m (stack_area lo)" and "lo + strings_room strs \<le> unat sp" and "unat sp \<le> STACK_TOP"
  shows "\<exists>ptrs sp' m'. push_strings strs (sp, m) = Some (ptrs, sp', m') \<and> grown lo (sp, m) (sp', m') \<and>
    unat sp' + strings_room strs = unat sp \<and> texts_at ptrs strs sp' m'"
  using assms
proof (induction strs arbitrary: sp m)
  case Nil
  then show ?case by (auto intro: stack_grown_refl simp: strings_room_def texts_at_def)
next
  case (Cons s strs)
  obtain sp1 m1 where 1: "push_string s (sp, m) = Some (sp1, m1)" "grown lo (sp, m) (sp1, m1)"
    "unat sp1 + length s + 1 = unat sp" "text_at sp1 s m1"
    by (rule push_string_grown [OF Cons.prems(1), of s sp]) (use Cons.prems in \<open>auto simp: strings_room_def\<close>)
  obtain ptrs sp' m' where 2: "push_strings strs (sp1, m1) = Some (ptrs, sp', m')" "grown lo (sp1, m1) (sp', m')"
    "unat sp' + strings_room strs = unat sp1" "texts_at ptrs strs sp' m'"
    using Cons.IH [of m1 sp1] 1 Cons.prems(2,3) by (auto simp: strings_room_def grown_def)
  have "text_at sp1 s m'" by (rule text_at_grown [OF 1(4) 2(2)]) simp
  then show ?case using 1 2 stack_grown_trans [OF 1(2) 2(2)]
    by (auto simp: texts_at_def strings_room_def)
qed

lemma push_values_grown:
  assumes "user_mapped m (stack_area lo)" and "lo + 8 * length vs + 16 \<le> unat sp" and "unat sp \<le> STACK_TOP"
  obtains sp' m' where "push_values (rev vs) (sp, m) = Some (sp', m')" and "grown lo (sp, m) (sp', m')"
    and "vs \<noteq> [] \<Longrightarrow> unat sp' = 8 * (unat sp div 8) - 8 * length vs" and "vector_at sp' vs m'"
proof -
  have "\<exists>sp' m'. push_values (rev vs) (sp, m) = Some (sp', m') \<and> grown lo (sp, m) (sp', m') \<and>
    (vs \<noteq> [] \<longrightarrow> unat sp' = 8 * (unat sp div 8) - 8 * length vs) \<and> vector_at sp' vs m'"
    using assms(2)
  proof (induction vs)
    case Nil
    then show ?case using assms(1,3) by (auto simp: push_values_def vector_at_def intro: stack_grown_refl)
  next
    case (Cons v vs)
    then obtain sp1 m1 where 1: "push_values (rev vs) (sp, m) = Some (sp1, m1)" "grown lo (sp, m) (sp1, m1)"
      "vs \<noteq> [] \<Longrightarrow> unat sp1 = 8 * (unat sp div 8) - 8 * length vs" "vector_at sp1 vs m1"
      by auto
    have mp: "user_mapped m1 (stack_area lo)" using 1(2) by (simp add: grown_def)
    have sp1: "unat sp1 = (if vs = [] then unat sp else 8 * (unat sp div 8) - 8 * length vs)"
      using 1 by (auto simp: push_values_def)
    define q where "q = unat sp div 8"
    have q: "8 * q \<le> unat sp" "unat sp < 8 * q + 8" unfolding q_def by linarith+
    have room1: "lo + 2 * 8 \<le> unat sp1 + 1" "unat sp1 \<le> STACK_TOP"
      using sp1 Cons.prems q assms(3) by (auto simp flip: q_def split: if_splits)
    obtain sp' m' where p: "push_value 8 v (sp1, m1) = Some (sp', m')" "grown lo (sp1, m1) (sp', m')"
      "unat sp' = (unat sp1 - 8) div 8 * 8" "user_read sp' 8 m' = Some (le_bytes 8 v)"
      by (rule push_value_grown [OF _ mp room1, of v]) simp_all
    have sp': "unat sp' = 8 * q - 8 * length (v # vs)"
    proof (cases "vs = []")
      case True
      have "unat sp div 8 = Suc ((unat sp - 8) div 8)" using Cons.prems by (intro le_div_geq) simp_all
      then show ?thesis using True p(3) sp1 by (simp add: q_def)
    next
      case False
      have "(8 * q - 8 * length vs - 8) div 8 * 8 = 8 * q - 8 * length vs - 8"
        by (simp flip: diff_mult_distrib2 add: mult.commute)
      then show ?thesis using False p(3) sp1 by (simp flip: q_def)
    qed
    have step: "vs \<noteq> [] \<Longrightarrow> sp' + 8 = sp1"
    proof -
      assume "vs \<noteq> []"
      then have "unat sp' + 8 = unat sp1" using sp' sp1 Cons.prems q by (simp flip: q_def)
      then show ?thesis using room1(2) by (simp add: word_unat_eq_iff unat_word_ariths)
    qed
    have old: "vector_at sp1 vs m'" by (rule vector_at_grown [OF 1(4) p(2)]) simp
    have "vector_at sp' (v # vs) m'"
      unfolding vector_at_def
    proof (intro conjI allI impI)
      show "unat sp' + 8 * length (v # vs) \<le> STACK_TOP" using sp' q Cons.prems assms(3) by simp
      fix i
      assume i: "i < length (v # vs)"
      show "user_read (sp' + of_nat (8 * i)) 8 m' = Some (le_bytes 8 ((v # vs) ! i))"
      proof (cases i)
        case 0
        then show ?thesis using p(4) by simp
      next
        case (Suc k)
        then have "sp' + 8 = sp1" using i by (intro step) auto
        then have e: "sp' + of_nat (8 * i) = sp1 + of_nat (8 * k)" using Suc by auto
        show ?thesis unfolding e using old Suc i by (simp add: vector_at_def)
      qed
    qed
    moreover have "push_values (rev (v # vs)) (sp, m) = Some (sp', m')"
      using 1(1) p(1) by (simp add: push_values_def for_each_append)
    ultimately show ?case using stack_grown_trans [OF 1(2) p(2)] sp' by (auto simp flip: q_def)
  qed
  then show ?thesis using that by blast
qed

section \<open>The arguments of a program\<close>

lemma of_le_bytes_le_bytes: "of_le_bytes (le_bytes n v) = take_bit (8 * n) v"
proof (induction n arbitrary: v)
  case 0
  then show ?case by (simp add: of_le_bytes_def le_bytes_def)
next
  case (Suc n)
  have "le_bytes (Suc n) v = ucast v # le_bytes n (drop_bit 8 v)"
    unfolding le_bytes_def upt_conv_Cons [OF zero_less_Suc] map_Suc_upt [symmetric] by (simp add: add.commute)
  then have "of_le_bytes (le_bytes (Suc n) v) = ucast (ucast v :: u8) + push_bit 8 (take_bit (8 * n) (drop_bit 8 v))"
    using Suc [of "drop_bit 8 v"] by (simp add: of_le_bytes_def)
  also have "\<dots> = ucast (ucast v :: u8) OR push_bit 8 (take_bit (8 * n) (drop_bit 8 v))"
    by (intro disjunctive_add_eq_or bit_word_eqI) (auto simp: bit_simps)
  also have "\<dots> = take_bit (8 * Suc n) v"
    by (rule bit_word_eqI) (auto simp: bit_simps)
  finally show ?case .
qed

lemma user_load64_of: "user_read p 8 m = Some (le_bytes 8 v) \<Longrightarrow> user_load64 p m = Some v"
  by (simp add: user_load64_def of_le_bytes_le_bytes take_bit_word_eq_self)

text \<open>A vector of pointers to texts, closed by a null pointer.\<close>

definition strings_at :: "u64 \<Rightarrow> string list \<Rightarrow> mmu \<Rightarrow> bool" where
  "strings_at p strs m \<longleftrightarrow>
     (\<forall>i < length strs. \<exists>q. user_load64 (p + of_nat (8 * i)) m = Some q \<and> q \<noteq> 0 \<and> user_string q m = Some (strs ! i)) \<and>
     user_load64 (p + of_nat (8 * length strs)) m = Some 0"

lemma vector_strings:
  assumes v: "vector_at p (ptrs @ [0]) m" and t: "texts_at ptrs strs sp m" and sp: "0 < unat sp"
    and nul: "\<And>s. s \<in> set strs \<Longrightarrow> CHR 0x00 \<notin> set s"
  shows "strings_at p strs m"
proof -
  have len: "length ptrs = length strs" using t by (simp add: texts_at_def list_all2_lengthD)
  have load: "user_load64 (p + of_nat (8 * i)) m = Some ((ptrs @ [0]) ! i)" if "i < Suc (length strs)" for i
    using v that len by (intro user_load64_of) (simp add: vector_at_def)
  show ?thesis
    unfolding strings_at_def
  proof (intro conjI allI impI)
    fix i
    assume i: "i < length strs"
    have q: "unat sp \<le> unat (ptrs ! i)" "text_at (ptrs ! i) (strs ! i) m"
      using t i len by (auto simp: texts_at_def list_all2_conv_all_nth)
    have "user_string (ptrs ! i) m = Some (strs ! i)" by (rule text_at_string [OF q(2) nul]) (use i in simp)
    moreover have "ptrs ! i \<noteq> 0" using q(1) sp by auto
    moreover have "user_load64 (p + of_nat (8 * i)) m = Some (ptrs ! i)" using load [of i] i len by (simp add: nth_append)
    ultimately show "\<exists>q. user_load64 (p + of_nat (8 * i)) m = Some q \<and> q \<noteq> 0 \<and> user_string q m = Some (strs ! i)" by blast
  qed (use load [of "length strs"] len in \<open>simp add: nth_append\<close>)
qed

text \<open>What \<open>elf_exec\<close> takes from the stack at most.\<close>

definition arguments_room :: "string list \<Rightarrow> string list \<Rightarrow> nat" where
  "arguments_room argv envp = strings_room argv + strings_room envp + 8 * (length argv + length envp + 9) + 24"

lemma arguments_pushed:
  assumes mp: "user_mapped m (stack_area lo)" and lo: "0 < lo" and room: "lo + arguments_room argv envp \<le> STACK_TOP"
    and nul: "\<And>s. s \<in> set argv \<union> set envp \<Longrightarrow> CHR 0x00 \<notin> set s"
  obtains ua ue sp m' where "push_arguments uid argv envp (0x800000000000, m) = Some (ua, ue, sp, m')"
    and "strings_at ua argv m'" and "strings_at ue envp m'" and "ue = ua + of_nat (8 * (length argv + 1))"
    and "user_load64 sp m' = Some (of_nat (length argv))" and "sp + 8 = ua" and "ue \<noteq> 0"
proof -
  let ?top = "0x800000000000 :: u64"
  have top: "unat ?top = STACK_TOP" by simp
  obtain ap sp1 m1 where 1: "push_strings argv (?top, m) = Some (ap, sp1, m1)" "grown lo (?top, m) (sp1, m1)"
    "unat sp1 + strings_room argv = STACK_TOP" "texts_at ap argv sp1 m1"
    using push_strings_grown [OF mp, of argv ?top] room unfolding top arguments_room_def by auto
  have mp1: "user_mapped m1 (stack_area lo)" using 1(2) by (simp add: grown_def)
  obtain ep sp2 m2 where 2: "push_strings envp (sp1, m1) = Some (ep, sp2, m2)" "grown lo (sp1, m1) (sp2, m2)"
    "unat sp2 + strings_room envp = unat sp1" "texts_at ep envp sp2 m2"
    using push_strings_grown [OF mp1, of envp sp1] room 1(3) unfolding arguments_room_def by auto
  have mp2: "user_mapped m2 (stack_area lo)" using 2(2) by (simp add: grown_def)
  have len: "length ap = length argv" "length ep = length envp" using 1(4) 2(4) by (simp_all add: texts_at_def list_all2_lengthD)
  define q where "q = unat sp2 div 8"
  have q: "8 * q \<le> unat sp2" "unat sp2 < 8 * q + 8" unfolding q_def by linarith+
  have r2: "lo + 8 * (length argv + length envp + 9) + 24 \<le> unat sp2" "unat sp2 \<le> STACK_TOP"
    using room 1(3) 2(3) unfolding arguments_room_def by linarith+
  obtain sp3 m3 where 3: "push_values (rev [0, 12, uid, 11, uid, 0]) (sp2, m2) = Some (sp3, m3)" "grown lo (sp2, m2) (sp3, m3)"
    "unat sp3 = 8 * q - 48"
    by (rule push_values_grown [OF mp2, of "[0, 12, uid, 11, uid, 0]" sp2]) (use r2 in \<open>auto simp: q_def\<close>)
  have mp3: "user_mapped m3 (stack_area lo)" using 3(2) by (simp add: grown_def)
  obtain ue m4 where 4: "push_values (rev (ep @ [0])) (sp3, m3) = Some (ue, m4)" "grown lo (sp3, m3) (ue, m4)"
    "unat ue = 8 * (unat sp3 div 8) - 8 * (length envp + 1)" "vector_at ue (ep @ [0]) m4"
    by (rule push_values_grown [OF mp3, of "ep @ [0]" sp3]) (use r2 q 3(3) len in auto)
  have mp4: "user_mapped m4 (stack_area lo)" using 4(2) by (simp add: grown_def)
  have ue: "unat ue = 8 * (q - 6 - (length envp + 1))"
  proof -
    have "unat sp3 = 8 * (q - 6)" using 3(3) by simp
    then show ?thesis using 4(3) by (simp add: diff_mult_distrib2)
  qed
  obtain ua m5 where 5: "push_values (rev (ap @ [0])) (ue, m4) = Some (ua, m5)" "grown lo (ue, m4) (ua, m5)"
    "unat ua = 8 * (unat ue div 8) - 8 * (length argv + 1)" "vector_at ua (ap @ [0]) m5"
    by (rule push_values_grown [OF mp4, of "ap @ [0]" ue]) (use r2 q ue len in auto)
  have mp5: "user_mapped m5 (stack_area lo)" using 5(2) by (simp add: grown_def)
  have ua: "unat ua = 8 * (q - 6 - (length envp + 1) - (length argv + 1))" using 5(3) ue by (simp add: diff_mult_distrib2)
  obtain sp m6 where 6: "push_value 8 (of_nat (length argv)) (ua, m5) = Some (sp, m6)" "grown lo (ua, m5) (sp, m6)"
    "unat sp = (unat ua - 8) div 8 * 8" "user_read sp 8 m6 = Some (le_bytes 8 (of_nat (length argv)))"
    by (rule push_value_grown [OF _ mp5, of 8 ua "of_nat (length argv)"]) (use r2 q ua in auto)
  have big: "length argv + length envp + 9 \<le> q" using r2(1) q(2) by auto
  have sp: "unat sp + 8 = unat ua" using 6(3) ua big by (simp flip: diff_mult_distrib2)
  have "push_arguments uid argv envp (?top, m) = Some (ua, ue, sp, m6)"
    using 1(1) 2(1) 3(1) 4(1) 5(1) 6(1) by (simp add: push_arguments_def Let_def)
  moreover have "strings_at ua argv m6"
  proof (rule vector_strings)
    show "vector_at ua (ap @ [0]) m6" by (rule vector_at_grown [OF 5(4) 6(2)]) simp
    show "texts_at ap argv sp m6"
      using texts_at_grown [OF texts_at_grown [OF texts_at_grown [OF texts_at_grown [OF texts_at_grown [OF 1(4) 2(2)] 3(2)] 4(2)] 5(2)] 6(2)] .
  qed (use nul 6(2) lo in \<open>auto simp: grown_def\<close>)
  moreover have "strings_at ue envp m6"
  proof (rule vector_strings)
    show "vector_at ue (ep @ [0]) m6"
      by (rule vector_at_grown [OF 4(4) stack_grown_trans [OF 5(2) 6(2)]]) simp
    show "texts_at ep envp sp m6"
      using texts_at_grown [OF texts_at_grown [OF texts_at_grown [OF texts_at_grown [OF 2(4) 3(2)] 4(2)] 5(2)] 6(2)] .
  qed (use nul 6(2) lo in \<open>auto simp: grown_def\<close>)
  moreover have "ue = ua + of_nat (8 * (length argv + 1))"
  proof -
    have "unat ua + 8 * (length argv + 1) = unat ue" unfolding ua ue using big by (simp flip: distrib_left)
    moreover have "unat ue < 18446744073709551616" using unsigned_less [of ue, where 'a = nat] by simp
    ultimately show ?thesis using unat_offset [of ua "8 * (length argv + 1)"] by (simp only: word_unat_eq_iff)
  qed
  moreover have "sp + 8 = ua" using sp unat_offset [of sp 8] unsigned_less [of ua, where 'a = nat] by (simp add: word_unat_eq_iff)
  moreover have "ue \<noteq> 0" using 4(2) lo by (auto simp: grown_def)
  moreover note user_load64_of [OF 6(4)]
  ultimately show ?thesis using that by blast
qed

section \<open>The start code of a program\<close>

text \<open>
  The loop of \<open>_libc_init\<close>: the environment begins behind the first null pointer, unless a second
  one follows, and then the result is 0. The index has 32 bits.
\<close>

partial_function (option) find_environ :: "mmu \<Rightarrow> u64 \<Rightarrow> u32 \<Rightarrow> u32 \<Rightarrow> u64 option" where
  "find_environ m argv x zeros = do {
     p \<leftarrow> user_load64 (argv + 8 * ucast x) m;
     if p = 0 then (if zeros + 1 = 2 then Some 0 else find_environ m argv (x + 1) (zeros + 1))
     else if zeros = 1 then Some (argv + 8 * ucast x) else find_environ m argv (x + 1) zeros }"

partial_function (option) count_environ :: "mmu \<Rightarrow> u64 \<Rightarrow> int \<Rightarrow> int option" where
  "count_environ m envp n = do {
     p \<leftarrow> user_load64 envp m;
     if p = 0 then Some n else if n = 2147483647 then None else if n + 1 = 0 then Some 0
     else count_environ m (envp + 8) (n + 1) }"

record 'w started =
  st_argv :: u64
  st_environ :: u64
  st_argv0 :: u64
  st_libc :: "'w libc"

text \<open>\<open>env_empty\<close> is the address of the static empty environment.\<close>

definition libc_init :: "'w os \<Rightarrow> u64 \<Rightarrow> mmu \<Rightarrow> u64 \<Rightarrow> 'w \<Rightarrow> 'w started option" where
  "libc_init os env_empty m argv w = do {
     environ \<leftarrow> find_environ m argv 0 0;
     environ \<leftarrow> (if environ \<noteq> 0 then do { _ \<leftarrow> count_environ m environ 0; Some environ } else Some env_empty);
     argv0 \<leftarrow> user_load64 argv m;
     Some \<lparr>st_argv = argv, st_environ = environ, st_argv0 = argv0, st_libc = stdio_init os w\<rparr> }"

text \<open>
  \<open>_exit\<close> up to its system call, and \<open>_main\<close>, where \<open>_libc_init\<close> is the constructor that runs and
  \<open>main\<close> is the program; its result is the argument of the call.
\<close>

definition libc_exit :: "'w os \<Rightarrow> int \<Rightarrow> 'w started \<Rightarrow> ('w started \<times> int) option" where
  "libc_exit os rval st = do { lc \<leftarrow> stdio_free os (st_libc st); Some (st\<lparr>st_libc := lc\<rparr>, rval) }"

definition libc_main :: "'w os \<Rightarrow> u64 \<Rightarrow> (int \<Rightarrow> u64 \<Rightarrow> 'w started \<Rightarrow> ('w started \<times> int) option) \<Rightarrow>
    mmu \<Rightarrow> int \<Rightarrow> u64 \<Rightarrow> 'w \<Rightarrow> ('w started \<times> int) option" where
  "libc_main os env_empty main m argc argv w = do {
     st \<leftarrow> libc_init os env_empty m argv w;
     (st, rval) \<leftarrow> main argc argv st;
     libc_exit os rval st }"

lemma find_environ_skips:
  assumes "strings_at argv strs m" and "n \<le> length strs" and "length strs < 2147483648"
  shows "find_environ m argv (of_nat n) 0 = find_environ m argv (of_nat (length strs + 1)) 1"
  using assms(2)
proof (induction n rule: inc_induct)
  case base
  have "8 * (ucast (of_nat (length strs) :: u32) :: u64) = of_nat (8 * length strs)"
    using assms(3) by (simp add: word_unat_eq_iff unat_word_ariths unsigned_ucast_eq unat_of_nat take_bit_eq_mod)
  then show ?case
    using assms(1) by (subst find_environ.simps) (simp add: strings_at_def add.commute)
next
  case (step n)
  have "8 * (ucast (of_nat n :: u32) :: u64) = of_nat (8 * n)"
    using step.hyps assms(3) by (simp add: word_unat_eq_iff unat_word_ariths unsigned_ucast_eq unat_of_nat take_bit_eq_mod)
  moreover obtain q where "user_load64 (argv + of_nat (8 * n)) m = Some q" "q \<noteq> 0"
    using assms(1) step.hyps by (auto simp: strings_at_def)
  ultimately show ?case
    using step.IH by (subst find_environ.simps) (simp add: add.commute)
qed

lemma count_environ_strings:
  assumes "strings_at p strs m" and "length strs < 2147483648" and "k \<le> length strs"
  shows "count_environ m (p + of_nat (8 * k)) (int k) = Some (int (length strs))"
  using assms(3)
proof (induction k rule: inc_induct)
  case base
  then show ?case using assms(1) by (subst count_environ.simps) (simp add: strings_at_def)
next
  case (step k)
  obtain q where "user_load64 (p + of_nat (8 * k)) m = Some q" "q \<noteq> 0"
    using assms(1) step.hyps by (auto simp: strings_at_def)
  moreover have "int k \<noteq> 2147483647" "int k + 1 \<noteq> 0" using step.hyps assms(2) by simp_all
  ultimately have "count_environ m (p + of_nat (8 * k)) (int k) = count_environ m (p + of_nat (8 * k) + 8) (int k + 1)"
    by (subst count_environ.simps) simp
  moreover have "p + of_nat (8 * k) + 8 = p + of_nat (8 * Suc k)" "int k + 1 = int (Suc k)" by simp_all
  ultimately show ?case using step.IH by (simp only:)
qed

text \<open>
  C12. A program finds the arguments and the environment that \<open>execve\<close> was given. When the user stack
  is mapped to frames of its own and large enough, the pushes succeed, the vector at \<open>argv\<close> and the one
  at \<open>envp\<close> have exactly the given texts in order, and the start code of the library, which looks for
  the environment behind the arguments, finds that vector, or takes its empty one if there is none.
\<close>

theorem program_start:
  assumes mapped: "user_mapped m (stack_area lo)" and lo: "0 < lo" and room: "lo + arguments_room argv envp \<le> STACK_TOP"
    and nul: "\<And>s. s \<in> set argv \<union> set envp \<Longrightarrow> CHR 0x00 \<notin> set s"
    and few: "length argv < 2147483648" "length envp < 2147483648"
  shows "\<exists>ua ue sp m' st. push_arguments uid argv envp (0x800000000000, m) = Some (ua, ue, sp, m') \<and>
    user_load64 sp m' = Some (of_nat (length argv)) \<and> strings_at ua argv m' \<and> strings_at ue envp m' \<and>
    libc_init os env_empty m' ua w = Some st \<and> st_argv st = ua \<and> st_environ st = (if envp = [] then env_empty else ue) \<and>
    user_load64 ua m' = Some (st_argv0 st)"
proof -
  obtain ua ue sp m' where p: "push_arguments uid argv envp (0x800000000000, m) = Some (ua, ue, sp, m')"
    "strings_at ua argv m'" "strings_at ue envp m'" "ue = ua + of_nat (8 * (length argv + 1))"
    "user_load64 sp m' = Some (of_nat (length argv))" "ue \<noteq> 0"
    using arguments_pushed [OF mapped lo room nul, of uid] by metis
  define x :: u32 where "x = of_nat (length argv + 1)"
  have "8 * (ucast x :: u64) = of_nat (8 * (length argv + 1))"
    using few(1) by (simp add: x_def word_unat_eq_iff unat_word_ariths unsigned_ucast_eq unat_of_nat take_bit_eq_mod)
  then have a: "ua + 8 * ucast x = ue" using p(4) by simp
  obtain v where v: "user_load64 ue m' = Some v" "v = 0 \<longleftrightarrow> envp = []"
    using p(3) by (cases envp) (auto simp: strings_at_def dest!: spec [of _ 0])
  have "find_environ m' ua 0 0 = find_environ m' ua x 1"
    using find_environ_skips [OF p(2) _ few(1), of 0] by (simp add: x_def)
  also have "\<dots> = Some (if envp = [] then 0 else ue)"
    by (subst find_environ.simps) (use v a in simp)
  finally have f: "find_environ m' ua 0 0 = Some (if envp = [] then 0 else ue)" .
  obtain v0 where v0: "user_load64 ua m' = Some v0"
    using p(2) by (cases argv) (auto simp: strings_at_def dest!: spec [of _ 0])
  have "count_environ m' ue 0 = Some (int (length envp))"
    using count_environ_strings [OF p(3) few(2), of 0] by simp
  then have "libc_init os env_empty m' ua w =
      Some \<lparr>st_argv = ua, st_environ = (if envp = [] then env_empty else ue), st_argv0 = v0, st_libc = stdio_init os w\<rparr>"
    using f v0 v p(6) by (auto simp: libc_init_def)
  then show ?thesis using p v0 by auto
qed

section \<open>An example\<close>

text \<open>The last page below the end of the stack, on frame 4.\<close>

definition stack_mmu :: mmu where
  "stack_mmu = (store_entry (entry_at 0 255) 0x1007 (store_entry (entry_at 1 511) 0x2007
     (store_entry (entry_at 2 511) 0x3007 (store_entry (entry_at 3 511) 0x4007 example_mmu))))\<lparr>current_pml := frame_ptr 0\<rparr>"

lemma stack_mmu_loads:
  "load_entry (entry_at 0 255) stack_mmu = 0x1007" "load_entry (entry_at 1 511) stack_mmu = 0x2007"
  "load_entry (entry_at 2 511) stack_mmu = 0x3007" "load_entry (entry_at 3 511) stack_mmu = 0x4007"
proof -
  have "load_entry p (m\<lparr>current_pml := c\<rparr>) = load_entry p m" for p c m by (simp add: load_entry_def)
  then show "load_entry (entry_at 0 255) stack_mmu = 0x1007" "load_entry (entry_at 1 511) stack_mmu = 0x2007"
    "load_entry (entry_at 2 511) stack_mmu = 0x3007" "load_entry (entry_at 3 511) stack_mmu = 0x4007"
    by (simp_all add: stack_mmu_def load_store_apart entries_apart)
qed

lemma stack_indices:
  assumes "va \<in> stack_area 140737488351232"
  shows "pml4_index va = 255" "pdp_index va = 511" "pd_index va = 511" "pt_index va = 511" "unat va mod 4096 = unat va - 140737488351232"
proof -
  define d where "d = unat va - 140737488351232"
  have d: "unat va = 140737488351232 + d" "d < 4096" using assms by (auto simp: stack_area_def d_def)
  have "(140737488351232 + d) div 549755813888 = 255" "(140737488351232 + d) div 1073741824 = 131071"
    "(140737488351232 + d) div 2097152 = 67108863" "(140737488351232 + d) div 4096 = 34359738367" using d(2) by linarith+
  then show "pml4_index va = 255" "pdp_index va = 511" "pd_index va = 511" "pt_index va = 511"
    unfolding index_div d(1) by simp_all
  have "(140737488351232 + d) mod 4096 = d mod 4096" using mod_mult_self4 [of 4096 34359738367 d] by simp
  then show "unat va mod 4096 = unat va - 140737488351232" using d by simp
qed

lemma stack_tables:
  "table_of 0x1007 = frame_ptr 1" "table_of 0x2007 = frame_ptr 2" "table_of 0x3007 = frame_ptr 3"
proof -
  have "e_page 0x1007 = 1" "e_page 0x2007 = 2" "e_page 0x3007 = 3"
    by (simp_all add: e_page_def drop_bit_eq_div take_bit_eq_mod)
  then show "table_of 0x1007 = frame_ptr 1" "table_of 0x2007 = frame_ptr 2" "table_of 0x3007 = frame_ptr 3"
    by (simp_all add: table_of_frame)
qed

lemma stack_mmu_walk:
  assumes "va \<in> stack_area 140737488351232"
  shows "walk_entries (current_pml stack_mmu) va stack_mmu = [entry_at 0 255, entry_at 1 511, entry_at 2 511, entry_at 3 511]"
    and "mmu_lookup_frame_from (current_pml stack_mmu) va stack_mmu = entry_at 3 511"
proof -
  have pml: "current_pml stack_mmu = frame_ptr 0" by (simp add: stack_mmu_def)
  have "e_present 0x1007" "e_present 0x2007" "e_present 0x3007" "\<not> e_size 0x2007" "\<not> e_size 0x3007"
    by (simp_all add: e_present_def e_size_def)
  then show "walk_entries (current_pml stack_mmu) va stack_mmu = [entry_at 0 255, entry_at 1 511, entry_at 2 511, entry_at 3 511]"
    "mmu_lookup_frame_from (current_pml stack_mmu) va stack_mmu = entry_at 3 511"
    using stack_indices [OF assms] stack_mmu_loads
    by (simp_all add: pml walk_entries_def mmu_lookup_frame_from_def entry_at_def [symmetric] Let_def stack_tables)
qed

lemma unat_page_byte:
  assumes "unat (e_page e) < 134217728"
  shows "unat (page_byte e va) = unat (frame_ptr (unat (e_page e))) + unat va mod 4096"
proof -
  have a: "va AND 0xFFF = take_bit 12 va" by (simp add: take_bit_eq_mask mask_eq_exp_minus_1)
  have "push_bit 12 (e_page e) AND take_bit 12 va = 0" by (rule bit_word_eqI) (auto simp: bit_simps)
  then have s: "push_bit 12 (e_page e) OR (va AND 0xFFF) = push_bit 12 (e_page e) + take_bit 12 va"
    unfolding a by (simp add: disjunctive_add_eq_or)
  have p: "unat (push_bit 12 (e_page e)) = 4096 * unat (e_page e)" using unat_frame_addr [OF assms] by simp
  have t: "unat (take_bit 12 va) = unat va mod 4096" using unat_take_bit [of 12 va] by simp
  have lt: "unat va mod 4096 < 4096" by simp
  have u: "unat (push_bit 12 (e_page e) OR (va AND 0xFFF)) = 4096 * unat (e_page e) + unat va mod 4096"
    unfolding s using p t lt assms by (simp add: unat_word_ariths)
  then have b: "unat (push_bit 12 (e_page e) OR (va AND 0xFFF)) < 549755813888" using lt assms by linarith
  show ?thesis
    unfolding page_byte_def unat_frame_ptr [OF assms] mmu_from_physical_add [OF b]
    using u assms lt by (simp add: unat_word_ariths)
qed

lemma stack_mmu_mapped: "user_mapped stack_mmu (stack_area 140737488351232)"
proof -
  have f: "e_page 0x4007 = 4" "e_present 0x4007" "e_writable 0x4007"
    by (simp_all add: e_page_def e_present_def e_writable_def drop_bit_eq_div take_bit_eq_mod)
  have leaf: "leaf stack_mmu va = 0x4007" if "va \<in> stack_area 140737488351232" for va
    using stack_mmu_walk(2) [OF that] stack_mmu_loads by (simp add: leaf_def)
  have ph: "unat (phys stack_mmu va) = unat (frame_ptr 4) + (unat va - 140737488351232)"
    if "va \<in> stack_area 140737488351232" for va
    using unat_page_byte [of "0x4007" va] stack_indices(5) [OF that] by (simp add: phys_def leaf [OF that] f)
  have "entry_at 3 511 \<noteq> 0"
  proof
    assume "entry_at 3 511 = 0"
    then have "unat (entry_at 3 511) = 0" by simp
    then show False using unat_frame_ptr [of 3] by (simp add: entry_at_def entry_def unat_word_ariths)
  qed
  moreover have "inj_on (phys stack_mmu) (stack_area 140737488351232)"
  proof (rule inj_onI)
    fix x y
    assume xy: "x \<in> stack_area 140737488351232" "y \<in> stack_area 140737488351232" "phys stack_mmu x = phys stack_mmu y"
    then have "unat x - 140737488351232 = unat y - 140737488351232" using ph [OF xy(1)] ph [OF xy(2)] by simp
    then have "unat x = unat y" using xy by (auto simp: stack_area_def)
    then show "x = y" by (simp add: word_unat_eq_iff)
  qed
  moreover have "\<not> in_range (phys stack_mmu va) (entry_at g i) 8"
    if "va \<in> stack_area 140737488351232" "g < 4" "i < 512" for va g i
  proof -
    have "unat va - 140737488351232 < 4096" using that(1) by (auto simp: stack_area_def)
    moreover have "unat (phys stack_mmu va - frame_ptr 4) = unat va - 140737488351232"
      using ph [OF that(1)] by (subst unat_sub) (simp_all add: word_le_nat_alt)
    ultimately have "in_range (phys stack_mmu va) (frame_ptr 4) 4096" by (simp add: in_range_def)
    then show ?thesis using entry_apart_page [of g 4 i] that by (auto simp: apart_def)
  qed
  moreover have "canonical va \<and> \<not> HIGH_MAP_REGION \<le> va" if "va \<in> stack_area 140737488351232" for va
    using that by (auto simp: canonical_def stack_area_def word_less_nat_alt word_le_nat_alt)
  ultimately show ?thesis
    unfolding user_mapped_def by (auto simp: leaf stack_mmu_walk f)
qed

lemma program_start_witness:
  "\<exists>ua ue sp m' st. push_arguments 0 [''sh'', ''-c''] [''HOME=/''] (0x800000000000, stack_mmu) = Some (ua, ue, sp, m') \<and>
    strings_at ua [''sh'', ''-c''] m' \<and> libc_init example_os 1 m' ua \<lparr>ew_pos = 0, ew_rest = [], ew_sink = []\<rparr> = Some st \<and>
    strings_at (st_environ st) [''HOME=/''] m'"
proof -
  have "140737488351232 + arguments_room [''sh'', ''-c''] [''HOME=/''] \<le> STACK_TOP"
    by (simp add: arguments_room_def strings_room_def)
  moreover have "CHR 0x00 \<notin> set s" if "s \<in> set [''sh'', ''-c''] \<union> set [''HOME=/'']" for s :: string
    using that by auto
  ultimately show ?thesis
    using program_start [OF stack_mmu_mapped, of "[''sh'', ''-c'']" "[''HOME=/'']" 0 example_os 1
        "\<lparr>ew_pos = 0, ew_rest = [], ew_sink = []\<rparr>"] by simp metis
qed

end
