(* ===== verification/Libmalloc.thy ===== *)
theory Libmalloc
  imports Syscall
begin

unbundle bit_operations_syntax

text \<open>
  The allocator of the C library (\<open>libc/malloc.c\<close>) and \<open>strdup\<close>. It takes whole pages from
  \<open>sbrk\<close> and never gives any back. The memory of the program is a map from addresses to bytes (that user
  memory behaves like one is shown in \<open>Progstart\<close>); the system call is a parameter, and the last section says
  what the kernel's \<open>sys_sbrk\<close> does. Every request refines the corresponding one on a list of
  byte strings that share nothing.
\<close>

section \<open>The allocator\<close>

record 'w heap_state =
  h_mem :: bytes_at
  h_world :: 'w

type_synonym 'w sbrk = "u64 \<Rightarrow> 'w \<Rightarrow> ('w \<times> u64) option"

definition malloc_size :: "u64 \<Rightarrow> u64" where
  "malloc_size sz = (let sz = sz + 8 in if sz mod 0x1000 \<noteq> 0 then sz - sz mod 0x1000 + 0x1000 else sz)"

definition lib_malloc :: "'w sbrk \<Rightarrow> u64 \<Rightarrow> 'w heap_state \<Rightarrow> ('w heap_state \<times> u64) option" where
  "lib_malloc sbrk sz st = do {
     (w, ptr) \<leftarrow> sbrk (malloc_size sz) (h_world st);
     Some (\<lparr>h_mem = store64 (h_mem st) ptr sz, h_world = w\<rparr>, ptr + 8) }"

definition lib_calloc :: "'w sbrk \<Rightarrow> u64 \<Rightarrow> u64 \<Rightarrow> 'w heap_state \<Rightarrow> ('w heap_state \<times> u64) option" where
  "lib_calloc sbrk sz nmemb st = do {
     (st, ptr) \<leftarrow> lib_malloc sbrk (sz * nmemb) st;
     Some (if ptr = 0 then (st, 0) else (st\<lparr>h_mem := kset (h_mem st) ptr 0 (unat (sz * nmemb))\<rparr>, ptr)) }"

definition lib_free :: "u64 \<Rightarrow> 'w heap_state \<Rightarrow> 'w heap_state" where
  "lib_free ptr st = st"

definition lib_realloc :: "'w sbrk \<Rightarrow> u64 \<Rightarrow> u64 \<Rightarrow> 'w heap_state \<Rightarrow> ('w heap_state \<times> u64) option" where
  "lib_realloc sbrk ptr sz st =
     (if ptr = 0 then Some (st, 0)
      else if sz = 0 then Some (lib_free ptr st, 0)
      else do {
        let oldsize = load64 (h_mem st) (ptr - 8);
        (st, newptr) \<leftarrow> lib_malloc sbrk sz st;
        let st = st\<lparr>h_mem := kcopy (h_mem st) newptr ptr (unat (if oldsize < sz then oldsize else sz))\<rparr>;
        Some (lib_free ptr st, newptr) })"

partial_function (option) mem_strlen :: "bytes_at \<Rightarrow> u64 \<Rightarrow> u64 \<Rightarrow> u64 option" where
  "mem_strlen mem str len = (if mem (str + len) \<noteq> 0 then mem_strlen mem str (len + 1) else Some len)"

definition lib_strdup :: "'w sbrk \<Rightarrow> u64 \<Rightarrow> 'w heap_state \<Rightarrow> ('w heap_state \<times> u64) option" where
  "lib_strdup sbrk str st = (if str = 0 then Some (st, 0)
     else do {
       len \<leftarrow> mem_strlen (h_mem st) str 0;
       (st, newstr) \<leftarrow> lib_malloc sbrk (len + 1) st;
       Some (st\<lparr>h_mem := kcopy (h_mem st) newstr str (unat (len + 1))\<rparr>, newstr) })"

section \<open>The heap as a list of byte strings\<close>

text \<open>
  The blocks in the order in which they were requested, with their contents: each has its size in
  front of it, lies below the break \<open>b\<close>, and begins behind the one before.
\<close>

definition heap_blocks :: "nat \<Rightarrow> (u64 \<times> u8 list) list \<Rightarrow> bytes_at \<Rightarrow> nat \<Rightarrow> bool" where
  "heap_blocks lo bs mem b \<longleftrightarrow> b \<le> 140737488355328 \<and>
     (\<forall>(p, c) \<in> set bs. lo + 8 \<le> unat p \<and> unat p + length c \<le> b \<and>
        load64 mem (p - 8) = of_nat (length c) \<and> kread mem p (length c) = c) \<and>
     sorted_wrt (\<lambda>(p, c) (q, d). unat p + length c + 8 \<le> unat q) bs"

lemma in_range_low: "unat a + n \<le> 140737488355328 \<Longrightarrow> in_range x a n \<longleftrightarrow> unat a \<le> unat x \<and> unat x < unat a + n"
  by (intro in_range_iff) simp

lemma unat_minus_8: "8 \<le> unat (p :: u64) \<Longrightarrow> unat (p - 8) = unat p - 8"
  by (subst unat_sub) (simp_all add: word_le_nat_alt)

lemma unat_header: "8 \<le> unat (p :: u64) \<Longrightarrow> k \<le> 8 \<Longrightarrow> unat (p - 8 + of_nat k) = unat p - 8 + k"
  using unsigned_less [of p, where 'a = nat] by (simp add: unat_minus_8 unat_word_ariths unat_of_nat)

lemma block_same:
  assumes "8 \<le> unat p" and "unat p + n \<le> 140737488355328"
    and same: "\<And>x. unat p \<le> unat x + 8 \<Longrightarrow> unat x < unat p + n \<Longrightarrow> mem' x = mem x"
  shows "load64 mem' (p - 8) = load64 mem (p - 8)" and "kread mem' p n = kread mem p n"
proof -
  show "load64 mem' (p - 8) = load64 mem (p - 8)"
  proof (rule kload_cong)
    fix i :: nat
    assume i: "i < 8"
    have "unat (p - 8 + of_nat i) = unat p - 8 + i" using i assms(1) by (intro unat_header) auto
    then show "mem' (p - 8 + of_nat i) = mem (p - 8 + of_nat i)" using i assms(1) by (intro same) auto
  qed
  show "kread mem' p n = kread mem p n"
  proof (rule kread_cong)
    fix x
    assume "in_range x p n"
    then show "mem' x = mem x" using assms(2) by (intro same) (auto simp: in_range_low)
  qed (use assms(2) in simp)
qed

lemma heap_blocks_grow:
  assumes "heap_blocks lo bs mem b" and "b \<le> b'" and "b' \<le> 140737488355328" and "\<And>x. unat x < b \<Longrightarrow> mem' x = mem x"
  shows "heap_blocks lo bs mem' b'"
proof -
  have "load64 mem' (p - 8) = load64 mem (p - 8) \<and> kread mem' p (length c) = kread mem p (length c)"
    if "(p, c) \<in> set bs" for p c
  proof -
    have "lo + 8 \<le> unat p" "unat p + length c \<le> b" "b \<le> 140737488355328" using assms(1) that by (auto simp: heap_blocks_def)
    then show ?thesis using block_same [of p "length c" mem' mem] assms(4) by auto
  qed
  then show ?thesis using assms(1-3) unfolding heap_blocks_def by fastforce
qed

lemma heap_blocks_add:
  assumes "heap_blocks lo bs mem b" and "lo \<le> b" and "unat p = b + 8" and "b + 8 + n \<le> b'" and "b' \<le> 140737488355328"
    and "\<And>x. unat x < b \<Longrightarrow> mem' x = mem x" and "load64 mem' (p - 8) = of_nat n"
  shows "heap_blocks lo (bs @ [(p, kread mem' p n)]) mem' b'"
proof -
  have "heap_blocks lo bs mem' b'" by (rule heap_blocks_grow [OF assms(1) _ assms(5,6)]) (use assms(4) in simp)
  moreover have "unat q + length c \<le> b" if "(q, c) \<in> set bs" for q c using assms(1) that by (auto simp: heap_blocks_def)
  ultimately show ?thesis
    using assms(2-5,7) by (fastforce simp: heap_blocks_def sorted_wrt_append)
qed

text \<open>A change inside one block changes the contents of that block only.\<close>

lemma heap_blocks_update:
  assumes "heap_blocks lo bs mem b" and "i < length bs" and "bs ! i = (p, c)"
    and "\<And>x. \<not> in_range x p (length c) \<Longrightarrow> mem' x = mem x"
  shows "heap_blocks lo (bs[i := (p, kread mem' p (length c))]) mem' b"
proof -
  let ?bs = "bs[i := (p, kread mem' p (length c))]"
  have blk: "lo + 8 \<le> unat q \<and> unat q + length d \<le> b \<and> load64 mem (q - 8) = of_nat (length d) \<and> kread mem q (length d) = d"
    if "(q, d) \<in> set bs" for q d using assms(1) that by (auto simp: heap_blocks_def)
  have b: "b \<le> 140737488355328" using assms(1) by (simp add: heap_blocks_def)
  have pc: "(p, c) \<in> set bs" using assms(2,3) nth_mem by metis
  have sorted: "unat (fst (bs ! j)) + length (snd (bs ! j)) + 8 \<le> unat (fst (bs ! k))" if "j < k" "k < length bs" for j k
    using assms(1) sorted_wrt_nth_less [of _ bs j k] that by (fastforce simp: heap_blocks_def split: prod.splits)
  have at: "lo + 8 \<le> unat q \<and> unat q + length d \<le> b \<and> load64 mem' (q - 8) = of_nat (length d) \<and> kread mem' q (length d) = d"
    if j: "j < length bs" "?bs ! j = (q, d)" for j q d
  proof (cases "j = i")
    case True
    then have qd: "q = p" "length d = length c" "d = kread mem' p (length c)" using j by auto
    have "load64 mem' (p - 8) = load64 mem (p - 8)"
    proof (rule kload_cong)
      fix k :: nat
      assume k: "k < 8"
      have "unat (p - 8 + of_nat k) = unat p - 8 + k" using k blk [OF pc] by (intro unat_header) auto
      then show "mem' (p - 8 + of_nat k) = mem (p - 8 + of_nat k)"
        using k blk [OF pc] b by (intro assms(4)) (auto simp: in_range_low)
    qed
    then show ?thesis using blk [OF pc] qd by simp
  next
    case False
    then have qd: "bs ! j = (q, d)" using j by simp
    then have qin: "(q, d) \<in> set bs" using j(1) nth_mem by metis
    have apart: "unat p + length c + 8 \<le> unat q \<or> unat q + length d + 8 \<le> unat p"
      using sorted [of i j] sorted [of j i] False j(1) assms(2,3) qd by (cases "i < j") auto
    have "mem' x = mem x" if "unat q \<le> unat x + 8" "unat x < unat q + length d" for x
      using that apart blk [OF pc] b by (intro assms(4)) (auto simp: in_range_low)
    then show ?thesis using block_same [of q "length d" mem' mem] blk [OF qin] b by auto
  qed
  have "\<forall>(q, d) \<in> set ?bs. lo + 8 \<le> unat q \<and> unat q + length d \<le> b \<and> load64 mem' (q - 8) = of_nat (length d) \<and> kread mem' q (length d) = d"
    using at by (auto simp: in_set_conv_nth simp del: nth_list_update)
  moreover have "sorted_wrt (\<lambda>(p, c) (q, d). unat p + length c + 8 \<le> unat q) ?bs"
    unfolding sorted_wrt_iff_nth_less
  proof (intro allI impI)
    fix j k
    assume jk: "j < k" "k < length ?bs"
    then show "(\<lambda>(p, c) (q, d). unat p + length c + 8 \<le> unat q) (?bs ! j) (?bs ! k)"
      using sorted [of j k] assms(2,3) by (cases "j = i"; cases "k = i") (auto split: prod.splits)
  qed
  ultimately show ?thesis using b by (simp add: heap_blocks_def)
qed

section \<open>What a request does\<close>

text \<open>
  What is used of \<open>sbrk\<close>: a call for whole pages below the end of user memory, when it returns, has moved the
  break and answers where it was (the kernel's call does, \<open>kernel_sbrk_moves\<close> below). That calls return
  is a matter of the free memory: \<open>sbrk_lasts\<close> says that \<open>n\<close> more pages can be had, in any portions.
\<close>

definition sbrk_moves :: "'w sbrk \<Rightarrow> ('w \<Rightarrow> nat) \<Rightarrow> bool" where
  "sbrk_moves sbrk brk \<longleftrightarrow> (\<forall>sz w w' r. 4096 dvd unat sz \<and> brk w + unat sz \<le> 140737488355328 \<and> sbrk sz w = Some (w', r) \<longrightarrow>
     r = of_nat (brk w) \<and> brk w' = brk w + unat sz)"

inductive sbrk_lasts :: "'w sbrk \<Rightarrow> nat \<Rightarrow> 'w \<Rightarrow> bool" for sbrk where
  lasts: "(\<And>k. 0 < k \<Longrightarrow> k \<le> n \<Longrightarrow> \<exists>w' r. sbrk (of_nat (4096 * k)) w = Some (w', r) \<and> sbrk_lasts sbrk (n - k) w') \<Longrightarrow> sbrk_lasts sbrk n w"

lemma sbrk_lastsD:
  assumes "sbrk_lasts sbrk n w" and "0 < k" and "k \<le> n"
  shows "\<exists>w' r. sbrk (of_nat (4096 * k)) w = Some (w', r) \<and> sbrk_lasts sbrk (n - k) w'"
  using assms by (cases rule: sbrk_lasts.cases) blast

lemma unat_malloc_size:
  assumes "unat sz \<le> 140737488355328"
  shows "unat (malloc_size sz) = 4096 * ((unat sz + 4103) div 4096)"
proof -
  define q where "q = (unat sz + 8) div 4096"
  define r where "r = (unat sz + 8) mod 4096"
  have qr: "unat sz + 8 = 4096 * q + r" "r < 4096" by (simp_all add: q_def r_def)
  have s: "unat (sz + 8) = 4096 * q + r" using assms qr(1) by (simp add: unat_word_ariths)
  have m: "unat ((sz + 8) mod 0x1000) = r" using s qr(2) by (simp add: unat_mod)
  show ?thesis
  proof (cases "r = 0")
    case True
    then have "(sz + 8) mod 0x1000 = 0" using m by (simp add: word_unat_eq_iff)
    moreover have "(unat sz + 4103) div 4096 = q" using qr True by linarith
    ultimately show ?thesis using s True by (simp add: malloc_size_def Let_def)
  next
    case False
    then have "(sz + 8) mod 0x1000 \<noteq> 0" using m by (metis unsigned_0)
    moreover define d where "d = sz + 8 - (sz + 8) mod 0x1000"
    ultimately have e: "malloc_size sz = d + 0x1000" by (simp only: malloc_size_def Let_def if_True not_False_eq_True)
    have "unat d = 4096 * q" using s m by (simp add: d_def unat_sub word_le_nat_alt)
    moreover have "(unat sz + 4103) div 4096 = q + 1" using qr False by linarith
    moreover have "4096 * q \<le> 140737488355336" using assms qr(1) by linarith
    ultimately show ?thesis unfolding e by (simp add: unat_word_ariths)
  qed
qed

text \<open>The pages a block takes.\<close>

definition block_pages :: "nat \<Rightarrow> nat" where
  "block_pages n = (n + 4103) div 4096"

lemma block_pages_bounds: "n + 8 \<le> 4096 * block_pages n" "0 < block_pages n"
  unfolding block_pages_def by linarith+

lemma lib_malloc_ok:
  assumes sb: "sbrk_moves sbrk brk" and h: "heap_blocks lo bs (h_mem st) (brk (h_world st))" and lo: "lo \<le> brk (h_world st)"
    and lasts: "sbrk_lasts sbrk (block_pages (unat sz) + n) (h_world st)"
    and room: "brk (h_world st) + 4096 * block_pages (unat sz) \<le> 140737488355328"
  obtains st' p where "lib_malloc sbrk sz st = Some (st', p)" and "unat p = brk (h_world st) + 8"
    and "heap_blocks lo (bs @ [(p, kread (h_mem st') p (unat sz))]) (h_mem st') (brk (h_world st'))"
    and "brk (h_world st') = brk (h_world st) + 4096 * block_pages (unat sz)" and "sbrk_lasts sbrk n (h_world st')"
    and "\<And>x. unat x < brk (h_world st) \<Longrightarrow> h_mem st' x = h_mem st x"
proof -
  let ?b = "brk (h_world st)" and ?k = "block_pages (unat sz)"
  note bounds = block_pages_bounds [of "unat sz"]
  have ms: "unat (malloc_size sz) = 4096 * ?k" unfolding block_pages_def by (rule unat_malloc_size) (use room bounds in linarith)
  have "malloc_size sz = of_nat (unat (malloc_size sz))" by simp
  then have msw: "malloc_size sz = of_nat (4096 * ?k)" by (simp only: ms)
  obtain w' r where w: "sbrk (malloc_size sz) (h_world st) = Some (w', r)" "sbrk_lasts sbrk n w'"
    using sbrk_lastsD [OF lasts bounds(2)] unfolding msw by auto
  then have w': "r = of_nat ?b" "brk w' = ?b + 4096 * ?k"
    using sb [unfolded sbrk_moves_def, rule_format, of "malloc_size sz" "h_world st" w' r] ms room by simp_all
  define st' where "st' = \<lparr>h_mem = store64 (h_mem st) (of_nat ?b) sz, h_world = w'\<rparr>"
  define p :: u64 where "p = of_nat ?b + 8"
  have b8: "?b + 8 + unat sz \<le> brk w'" using bounds(1) w'(2) by simp
  have ub: "unat (of_nat ?b :: u64) = ?b" using room by (simp add: unat_of_nat)
  have up: "unat p = ?b + 8" using room b8 w'(2) ub by (simp add: p_def unat_word_ariths)
  have same: "h_mem st' x = h_mem st x" if "unat x < ?b" for x
    unfolding st'_def using that ub room b8 w'(2) by (simp add: kstore_outside in_range_low)
  have "load64 (h_mem st') (p - 8) = of_nat (unat sz)" by (simp add: st'_def p_def kload_kstore_same)
  from heap_blocks_add [OF h lo up b8 _ same this] have
    "heap_blocks lo (bs @ [(p, kread (h_mem st') p (unat sz))]) (h_mem st') (brk w')"
    using w'(2) room by simp
  moreover have "lib_malloc sbrk sz st = Some (st', p)" using w(1) w'(1) by (simp add: lib_malloc_def st'_def p_def)
  ultimately show ?thesis using that up same w(2) w'(2) by (simp add: st'_def)
qed

datatype request = Malloc u64 | Calloc u64 u64 | Realloc nat u64 | Realloc_null u64 | Free nat | Store nat nat u8

text \<open>
  A request of the program; a block is named by its number, \<open>Realloc_null\<close> is \<open>realloc\<close> of the null pointer, and
  \<open>Store\<close> is the program's own access. A null answer of \<open>realloc\<close> is no block.
\<close>

fun run_request :: "'w sbrk \<Rightarrow> request \<Rightarrow> u64 list \<times> 'w heap_state \<Rightarrow> (u64 list \<times> 'w heap_state) option" where
  "run_request sbrk (Malloc sz) (ptrs, st) = map_option (\<lambda>(st, p). (ptrs @ [p], st)) (lib_malloc sbrk sz st)"
| "run_request sbrk (Calloc sz n) (ptrs, st) = map_option (\<lambda>(st, p). (ptrs @ [p], st)) (lib_calloc sbrk sz n st)"
| "run_request sbrk (Realloc i sz) (ptrs, st) = map_option (\<lambda>(st, p). (if p = 0 then ptrs else ptrs @ [p], st)) (lib_realloc sbrk (ptrs ! i) sz st)"
| "run_request sbrk (Realloc_null sz) (ptrs, st) = map_option (\<lambda>(st, p). (if p = 0 then ptrs else ptrs @ [p], st)) (lib_realloc sbrk 0 sz st)"
| "run_request sbrk (Free i) (ptrs, st) = Some (ptrs, lib_free (ptrs ! i) st)"
| "run_request sbrk (Store i j v) (ptrs, st) = Some (ptrs, st\<lparr>h_mem := (h_mem st)(ptrs ! i + of_nat j := v)\<rparr>)"

text \<open>What it means for the byte strings.\<close>

inductive request_spec :: "request \<Rightarrow> u8 list list \<Rightarrow> u8 list list \<Rightarrow> bool" where
  spec_malloc: "length c = unat sz \<Longrightarrow> request_spec (Malloc sz) vs (vs @ [c])"
| spec_calloc: "request_spec (Calloc sz n) vs (vs @ [replicate (unat sz * unat n) 0])"
| spec_realloc: "i < length vs \<Longrightarrow> sz \<noteq> 0 \<Longrightarrow> length c = unat sz \<Longrightarrow> k = min (length (vs ! i)) (unat sz) \<Longrightarrow> take k c = take k (vs ! i) \<Longrightarrow>
    request_spec (Realloc i sz) vs (vs @ [c])"
| spec_realloc_none: "i < length vs \<Longrightarrow> request_spec (Realloc i 0) vs vs"
| spec_realloc_null: "request_spec (Realloc_null sz) vs vs"
| spec_free: "i < length vs \<Longrightarrow> request_spec (Free i) vs vs"
| spec_store: "i < length vs \<Longrightarrow> j < length (vs ! i) \<Longrightarrow> request_spec (Store i j v) vs (vs[i := (vs ! i)[j := v]])"

text \<open>Sizes of the blocks after a request that names blocks that exist, and the pages it takes.\<close>

fun request_sizes :: "request \<Rightarrow> nat list \<Rightarrow> nat list option" where
  "request_sizes (Malloc sz) ns = Some (ns @ [unat sz])"
| "request_sizes (Calloc sz n) ns = Some (ns @ [unat sz * unat n])"
| "request_sizes (Realloc i sz) ns = (if i < length ns then Some (if sz = 0 then ns else ns @ [unat sz]) else None)"
| "request_sizes (Realloc_null sz) ns = Some ns"
| "request_sizes (Free i) ns = (if i < length ns then Some ns else None)"
| "request_sizes (Store i j v) ns = (if i < length ns \<and> j < ns ! i then Some ns else None)"

fun request_pages :: "request \<Rightarrow> nat" where
  "request_pages (Malloc sz) = block_pages (unat sz)"
| "request_pages (Calloc sz n) = block_pages (unat sz * unat n)"
| "request_pages (Realloc i sz) = (if sz = 0 then 0 else block_pages (unat sz))"
| "request_pages (Realloc_null sz) = 0"
| "request_pages (Free i) = 0"
| "request_pages (Store i j v) = 0"

lemma heap_blocks_last:
  assumes h: "heap_blocks lo (bs @ [(p, c)]) mem b" and len: "length c = n"
    and same: "\<And>x. \<not> in_range x p n \<Longrightarrow> mem' x = mem x"
  shows "heap_blocks lo (bs @ [(p, kread mem' p n)]) mem' b"
  using heap_blocks_update [OF h, of "length bs" p c mem'] same len by (simp add: list_update_append)

lemma run_request_ok:
  assumes sb: "sbrk_moves sbrk brk" and h: "heap_blocks lo (zip ptrs vs) (h_mem st) (brk (h_world st))" and len: "length ptrs = length vs"
    and lo: "lo \<le> brk (h_world st)" and ns: "request_sizes r (map length vs) = Some ns"
    and lasts: "sbrk_lasts sbrk (request_pages r + n) (h_world st)"
    and room: "brk (h_world st) + 4096 * request_pages r \<le> 140737488355328"
  shows "\<exists>ptrs' st' vs'. run_request sbrk r (ptrs, st) = Some (ptrs', st') \<and> request_spec r vs vs' \<and> length ptrs' = length vs' \<and>
    map length vs' = ns \<and> heap_blocks lo (zip ptrs' vs') (h_mem st') (brk (h_world st')) \<and>
    sbrk_lasts sbrk n (h_world st') \<and> brk (h_world st') = brk (h_world st) + 4096 * request_pages r"
proof (cases r)
  case (Malloc sz)
  obtain st' p where m: "lib_malloc sbrk sz st = Some (st', p)"
    "heap_blocks lo (zip ptrs vs @ [(p, kread (h_mem st') p (unat sz))]) (h_mem st') (brk (h_world st'))"
    "brk (h_world st') = brk (h_world st) + 4096 * block_pages (unat sz)" "sbrk_lasts sbrk n (h_world st')"
    by (rule lib_malloc_ok [OF sb h lo, of sz n]) (use lasts room Malloc in auto)
  show ?thesis
    by (rule exI [of _ "ptrs @ [p]"], rule exI [of _ st'], rule exI [of _ "vs @ [kread (h_mem st') p (unat sz)]"])
      (use m len ns Malloc in \<open>auto intro: spec_malloc\<close>)
next
  case (Calloc sz m)
  let ?t = "sz * m"
  have "unat sz * unat m < 18446744073709551616"
    using room Calloc block_pages_bounds(1) [of "unat sz * unat m"] by simp
  then have t: "unat ?t = unat sz * unat m" by (simp add: unat_word_ariths)
  obtain st' p where m: "lib_malloc sbrk ?t st = Some (st', p)" "unat p = brk (h_world st) + 8"
    "heap_blocks lo (zip ptrs vs @ [(p, kread (h_mem st') p (unat ?t))]) (h_mem st') (brk (h_world st'))"
    "brk (h_world st') = brk (h_world st) + 4096 * block_pages (unat ?t)" "sbrk_lasts sbrk n (h_world st')"
    by (rule lib_malloc_ok [OF sb h lo, of ?t n]) (use lasts room Calloc t in auto)
  let ?mem = "kset (h_mem st') p 0 (unat ?t)"
  have p0: "p \<noteq> 0" using m(2) by auto
  have z: "kread ?mem p (unat ?t) = replicate (unat ?t) 0"
    by (rule kread_kset) (use unsigned_less [of ?t, where 'a = nat] in simp)
  have "heap_blocks lo (zip ptrs vs @ [(p, kread ?mem p (unat ?t))]) ?mem (brk (h_world st'))"
    by (rule heap_blocks_last [OF m(3)]) (simp_all add: kset_outside)
  then have "heap_blocks lo (zip (ptrs @ [p]) (vs @ [replicate (unat sz * unat m) 0])) ?mem (brk (h_world st'))"
    using len by (simp add: z [unfolded t] t)
  moreover have "run_request sbrk r (ptrs, st) = Some (ptrs @ [p], st'\<lparr>h_mem := ?mem\<rparr>)"
    using Calloc m(1) p0 by (simp add: lib_calloc_def)
  ultimately show ?thesis
    using m(4,5) len ns Calloc t spec_calloc [of sz m vs]
    by (intro exI [of _ "ptrs @ [p]"] exI [of _ "st'\<lparr>h_mem := ?mem\<rparr>"] exI [of _ "vs @ [replicate (unat sz * unat m) 0]"]) auto
next
  case (Realloc i sz)
  have i: "i < length vs" using ns Realloc by (auto split: if_splits)
  let ?q = "ptrs ! i" and ?c = "vs ! i"
  have "(?q, ?c) \<in> set (zip ptrs vs)" using i len by (auto simp: set_zip)
  then have q: "lo + 8 \<le> unat ?q" "unat ?q + length ?c \<le> brk (h_world st)" "load64 (h_mem st) (?q - 8) = of_nat (length ?c)"
    "kread (h_mem st) ?q (length ?c) = ?c" and b: "brk (h_world st) \<le> 140737488355328"
    using h by (auto simp: heap_blocks_def)
  have q0: "?q \<noteq> 0" using q(1) by auto
  show ?thesis
  proof (cases "sz = 0")
    case True
    then have "run_request sbrk r (ptrs, st) = Some (ptrs, st)" using Realloc q0 by (simp add: lib_realloc_def lib_free_def)
    moreover have "request_spec r vs vs" using Realloc True i by (auto intro: spec_realloc_none)
    moreover have "map length vs = ns" using ns Realloc True i by simp
    ultimately show ?thesis using h len lasts Realloc True by (intro exI [of _ ptrs] exI [of _ st] exI [of _ vs]) simp
  next
    case False
    have ns1: "ns = map length vs @ [unat sz]" using ns Realloc False by (auto split: if_splits)
    obtain st' p where m: "lib_malloc sbrk sz st = Some (st', p)" "unat p = brk (h_world st) + 8"
      "heap_blocks lo (zip ptrs vs @ [(p, kread (h_mem st') p (unat sz))]) (h_mem st') (brk (h_world st'))"
      "brk (h_world st') = brk (h_world st) + 4096 * block_pages (unat sz)" "sbrk_lasts sbrk n (h_world st')"
      "\<And>x. unat x < brk (h_world st) \<Longrightarrow> h_mem st' x = h_mem st x"
      by (rule lib_malloc_ok [OF sb h lo, of sz n]) (use lasts room Realloc False in auto)
    have ol: "unat (of_nat (length ?c) :: u64) = length ?c" using q(2) b by (simp add: unat_of_nat)
    let ?k = "min (length ?c) (unat sz)"
    have k: "unat (if of_nat (length ?c) < sz then of_nat (length ?c) else sz) = ?k"
      using ol by (auto simp: word_less_nat_alt)
    let ?mem = "kcopy (h_mem st') p ?q ?k"
    have "heap_blocks lo (zip ptrs vs @ [(p, kread ?mem p (unat sz))]) ?mem (brk (h_world st'))"
      by (rule heap_blocks_last [OF m(3)]) (auto simp: kcopy_def in_range_def)
    then have hb: "heap_blocks lo (zip (ptrs @ [p]) (vs @ [kread ?mem p (unat sz)])) ?mem (brk (h_world st'))"
      using len by simp
    have old: "kread (h_mem st') ?q (length ?c) = ?c"
      using q m(6) b by (subst q(4) [symmetric], intro kread_cong) (auto simp: in_range_low)
    have "take ?k (kread ?mem p (unat sz)) = kread ?mem p ?k" by (simp add: kread_def take_map)
    also have "\<dots> = kread (h_mem st') ?q ?k" by (rule kread_kcopy) (use q(2) b in linarith)
    also have "\<dots> = take ?k (kread (h_mem st') ?q (length ?c))" by (simp add: kread_def take_map)
    finally have tk: "take ?k (kread ?mem p (unat sz)) = take ?k ?c" by (simp only: old)
    have p0: "p \<noteq> 0" using m(2) by auto
    then have "run_request sbrk r (ptrs, st) = Some (ptrs @ [p], st'\<lparr>h_mem := ?mem\<rparr>)"
      using Realloc m(1) False q0 q(3) k by (simp add: lib_realloc_def lib_free_def Let_def)
    then show ?thesis
      using hb m(4,5) len ns1 False Realloc spec_realloc [OF i False _ refl tk]
      by (intro exI [of _ "ptrs @ [p]"] exI [of _ "st'\<lparr>h_mem := ?mem\<rparr>"] exI [of _ "vs @ [kread ?mem p (unat sz)]"]) auto
  qed
next
  case (Realloc_null sz)
  then show ?thesis using assms by (auto simp: lib_realloc_def intro: spec_realloc_null)
next
  case (Free i)
  then show ?thesis using assms by (auto simp: lib_free_def intro: spec_free split: if_splits)
next
  case (Store i j v)
  have ij: "i < length vs" "j < length (vs ! i)" "ns = map length vs" using ns Store by (auto split: if_splits)
  let ?q = "ptrs ! i" and ?c = "vs ! i"
  have zi: "zip ptrs vs ! i = (?q, ?c)" using ij(1) len by simp
  have "(?q, ?c) \<in> set (zip ptrs vs)" using ij(1) len by (auto simp: set_zip)
  then have q: "unat ?q + length ?c \<le> brk (h_world st)" "kread (h_mem st) ?q (length ?c) = ?c"
    and b: "brk (h_world st) \<le> 140737488355328" using h by (auto simp: heap_blocks_def)
  let ?mem = "(h_mem st)(?q + of_nat j := v)"
  have u: "unat (of_nat n :: u64) = n" if "n < length ?c" for n using that q(1) b by (simp add: unat_of_nat)
  have "heap_blocks lo ((zip ptrs vs)[i := (?q, kread ?mem ?q (length ?c))]) ?mem (brk (h_world st))"
    by (rule heap_blocks_update [OF h _ zi]) (use ij len u in \<open>auto simp: in_range_def\<close>)
  moreover have "kread ?mem ?q (length ?c) = ?c[j := v]"
  proof (rule nth_equalityI)
    fix n
    assume n: "n < length (kread ?mem ?q (length ?c))"
    have "(of_nat n :: u64) = of_nat j \<longleftrightarrow> n = j" using u n ij(2) by (metis length_kread)
    then have "kread ?mem ?q (length ?c) ! n = (if n = j then v else kread (h_mem st) ?q (length ?c) ! n)"
      using n by (simp add: kread_def)
    then show "kread ?mem ?q (length ?c) ! n = ?c[j := v] ! n" using q(2) n by (simp add: nth_list_update)
  qed simp
  moreover have "(zip ptrs vs)[i := (?q, ?c[j := v])] = zip ptrs (vs[i := ?c[j := v]])"
    using len by (simp add: update_zip)
  moreover have "map length (vs[i := ?c[j := v]]) = map length vs" 
    using ij(1) by (simp add: map_update) (metis length_map list_update_id nth_map)
  ultimately show ?thesis
    using Store len ij lasts spec_store [OF ij(1,2), of v] by auto
qed

section \<open>Any sequence of requests\<close>

inductive requests_spec :: "request list \<Rightarrow> u8 list list \<Rightarrow> u8 list list \<Rightarrow> bool" where
  spec_none: "requests_spec [] vs vs"
| spec_more: "request_spec r vs vs' \<Longrightarrow> requests_spec rs vs' ws \<Longrightarrow> requests_spec (r # rs) vs ws"

inductive_cases requests_spec_elims: "requests_spec [] vs ws" "requests_spec (r # rs) vs ws"
inductive_cases request_spec_elims: "request_spec (Malloc sz) vs ws" "request_spec (Calloc sz n) vs ws" "request_spec (Realloc i sz) vs ws"
  "request_spec (Realloc_null sz) vs ws" "request_spec (Free i) vs ws" "request_spec (Store i j v) vs ws"

lemma run_requests_ok:
  assumes sb: "sbrk_moves sbrk brk"
  shows "heap_blocks lo (zip ptrs vs) (h_mem st) (brk (h_world st)) \<Longrightarrow> length ptrs = length vs \<Longrightarrow> lo \<le> brk (h_world st) \<Longrightarrow>
    for_each rs request_sizes (map length vs) = Some ns \<Longrightarrow>
    sbrk_lasts sbrk (sum_list (map request_pages rs)) (h_world st) \<Longrightarrow>
    brk (h_world st) + 4096 * sum_list (map request_pages rs) \<le> 140737488355328 \<Longrightarrow>
    \<exists>ptrs' st' ws. for_each rs (run_request sbrk) (ptrs, st) = Some (ptrs', st') \<and> requests_spec rs vs ws \<and>
      length ptrs' = length ws \<and> map length ws = ns \<and> heap_blocks lo (zip ptrs' ws) (h_mem st') (brk (h_world st'))"
proof (induction rs arbitrary: ptrs vs st)
  case Nil
  then show ?case by (auto intro: spec_none)
next
  case (Cons r rs)
  from Cons.prems(4) obtain ns1 where n1: "request_sizes r (map length vs) = Some ns1" "for_each rs request_sizes ns1 = Some ns"
    by (auto split: bind_splits)
  have room: "brk (h_world st) + 4096 * request_pages r \<le> 140737488355328" using Cons.prems(6) by simp
  have lasts: "sbrk_lasts sbrk (request_pages r + sum_list (map request_pages rs)) (h_world st)" using Cons.prems(5) by simp
  obtain ptrs1 st1 vs1 where s: "run_request sbrk r (ptrs, st) = Some (ptrs1, st1)" "request_spec r vs vs1"
    "length ptrs1 = length vs1" "map length vs1 = ns1" "heap_blocks lo (zip ptrs1 vs1) (h_mem st1) (brk (h_world st1))"
    "sbrk_lasts sbrk (sum_list (map request_pages rs)) (h_world st1)" "brk (h_world st1) = brk (h_world st) + 4096 * request_pages r"
    using run_request_ok [OF sb Cons.prems(1-3) n1(1) lasts room] by (elim exE conjE)
  obtain ptrs' st' ws where f: "for_each rs (run_request sbrk) (ptrs1, st1) = Some (ptrs', st')" "requests_spec rs vs1 ws"
    "length ptrs' = length ws" "map length ws = ns" "heap_blocks lo (zip ptrs' ws) (h_mem st') (brk (h_world st'))"
    using Cons.IH [OF s(5,3)] s(4,6,7) n1(2) Cons.prems(3,6) by auto
  then show ?case using s(1,2) by (auto intro: spec_more)
qed

text \<open>
  C13. The heap of the C library. For every sequence of \<open>malloc\<close>, \<open>calloc\<close>, \<open>realloc\<close> and \<open>free\<close> of
  existing blocks and of stores of the program into its blocks: if every \<open>sbrk\<close> that returns moves the break
  by the pages asked for (the kernel's does, \<open>kernel_sbrk_moves\<close>), and the pages of all the blocks can still be had and end below the end of user
  memory, every request returns and the blocks hold what the requests mean on byte strings
  that share nothing. Each has its size, zeros where \<open>calloc\<close> made it, the old bytes where \<open>realloc\<close> did, and
  no store or later request changes another block. A \<open>realloc\<close> to no bytes and a \<open>realloc\<close> of the null
  pointer, which C would answer with a block, give null and change nothing.
\<close>

theorem libc_heap:
  assumes "sbrk_moves sbrk brk" and "for_each rs request_sizes [] = Some ns"
    and "sbrk_lasts sbrk (sum_list (map request_pages rs)) (h_world st)"
    and "brk (h_world st) + 4096 * sum_list (map request_pages rs) \<le> 140737488355328"
  shows "\<exists>ptrs st' vs. for_each rs (run_request sbrk) ([], st) = Some (ptrs, st') \<and> requests_spec rs [] vs \<and>
    length ptrs = length vs \<and> map length vs = ns \<and>
    heap_blocks (brk (h_world st)) (zip ptrs vs) (h_mem st') (brk (h_world st'))"
  using run_requests_ok [OF assms(1), of "brk (h_world st)" "[]" "[]" st rs ns] assms(2-4) by (simp add: heap_blocks_def)

text \<open>A break that is a number.\<close>

definition plain_sbrk :: "nat sbrk" where
  "plain_sbrk sz b = Some (b + unat sz, of_nat b)"

lemma plain_sbrk_moves: "sbrk_moves plain_sbrk id" "sbrk_lasts plain_sbrk n b"
proof -
  show "sbrk_moves plain_sbrk id" by (auto simp: sbrk_moves_def plain_sbrk_def)
  show "sbrk_lasts plain_sbrk n b"
    by (induction n arbitrary: b rule: less_induct) (rule lasts, simp add: plain_sbrk_def)
qed

lemma libc_heap_witness:
  "\<exists>ptrs st' c0 c1 c2. for_each [Malloc 10, Store 0 3 65, Realloc 0 5000, Calloc 2 3, Store 2 1 7, Realloc 1 0, Realloc_null 9, Free 0] (run_request plain_sbrk)
      ([], \<lparr>h_mem = (\<lambda>_. 0), h_world = 0x400000\<rparr>) = Some (ptrs, st') \<and>
    heap_blocks 0x400000 (zip ptrs [c0, c1, c2]) (h_mem st') (h_world st') \<and>
    c0 ! 3 = 65 \<and> c1 ! 3 = 65 \<and> c2 = [0, 7, 0, 0, 0, 0]"
proof -
  let ?rs = "[Malloc 10, Store 0 3 65, Realloc 0 5000, Calloc 2 3, Store 2 1 7, Realloc 1 0, Realloc_null 9, Free 0]"
  let ?st = "\<lparr>h_mem = (\<lambda>_. 0), h_world = 0x400000\<rparr> :: nat heap_state"
  from libc_heap [OF plain_sbrk_moves(1), of ?rs "[10, 5000, 6]" ?st] obtain ptrs st' vs where
    r: "for_each ?rs (run_request plain_sbrk) ([], ?st) = Some (ptrs, st')" "requests_spec ?rs [] vs"
      "heap_blocks 0x400000 (zip ptrs vs) (h_mem st') (h_world st')" by (auto simp: plain_sbrk_moves(2) block_pages_def)
  from r(2) obtain vs1 vs2 vs3 vs4 vs5 vs6 vs7 where q: "request_spec (Malloc 10) [] vs1" "request_spec (Store 0 3 65) vs1 vs2"
    "request_spec (Realloc 0 5000) vs2 vs3" "request_spec (Calloc 2 3) vs3 vs4" "request_spec (Store 2 1 7) vs4 vs5"
    and z: "request_spec (Realloc 1 0) vs5 vs6" "request_spec (Realloc_null 9) vs6 vs7" "request_spec (Free 0) vs7 vs"
    by (elim requests_spec_elims) simp
  from z(1) have "vs6 = vs5" by (elim request_spec_elims) simp_all
  moreover from z(2) have "vs7 = vs6" by (elim request_spec_elims) simp
  moreover from z(3) have "vs = vs7" by (elim request_spec_elims) simp
  ultimately have q6: "vs = vs5" by simp
  from q(1) obtain c0 where c0: "vs1 = [c0]" "length c0 = 10" by (elim request_spec_elims) simp
  from q(2) c0 have 2: "vs2 = [c0[3 := 65]]" by (elim request_spec_elims) simp
  from q(3) obtain c1 where c1: "vs3 = vs2 @ [c1]" "take 10 c1 = take 10 (c0[3 := 65])" "length c1 = 5000"
    by (elim request_spec_elims) (simp_all add: 2 c0(2))
  from q(4) have 4: "vs4 = vs3 @ [replicate 6 0]" by (elim request_spec_elims) simp
  from q(5) have "vs5 = vs4[2 := (vs4 ! 2)[1 := 7]]" by (elim request_spec_elims)
  then have c: "vs = [c0[3 := 65], c1, [0, 7, 0, 0, 0, 0]]" "length c0 = 10" "length c1 = 5000" "take 10 c1 = take 10 (c0[3 := 65])"
    using q6 c1 c0(2) by (simp_all add: 4 2 numeral_eq_Suc)
  have "c1 ! 3 = take 10 c1 ! 3" by simp
  then have "c1 ! 3 = 65" using c by simp
  then show ?thesis using r(1,3) c(1,2) by (intro exI conjI) (assumption | simp)+
qed

section \<open>Sizes that wrap around, and the null pointer\<close>

text \<open>A request of nearly all memory wraps around to one page, or to none at all.\<close>

lemma malloc_size_wraps: "malloc_size 0xFFFFFFFFFFFFFFFF = 0x1000" "malloc_size 0xFFFFFFFFFFFFFFF8 = 0"
  by (simp_all add: malloc_size_def)

lemma calloc_wraps: "lib_calloc sbrk 0x100000000 0x100000000 st = lib_calloc sbrk 0 0 st"
proof -
  have "(0x100000000 :: u64) * 0x100000000 = 0 * 0"
    by (rule word_unat_eq_iff [THEN iffD2]) (simp add: unat_word_ariths)
  then show ?thesis unfolding lib_calloc_def by (simp only:)
qed

lemma realloc_null: "lib_realloc sbrk 0 sz st = Some (st, 0)"
  by (simp add: lib_realloc_def)

section \<open>The system call\<close>

lemma sys_sbrk_moves:
  assumes "current k = Some (i, p)" and "sys_sbrk sz k = Some (k', r)" and "sz AND 0xFFF = 0"
  shows "word_of_int r = img_heap (p_image p)" and "\<exists>p'. current k' = Some (i, p') \<and> img_heap (p_image p') = img_heap (p_image p) + sz"
proof -
  have "k_current k = Some i" using assms(1) by (auto simp: current_def split: bind_splits)
  then show "word_of_int r = img_heap (p_image p)" and "\<exists>p'. current k' = Some (i, p') \<and> img_heap (p_image p') = img_heap (p_image p) + sz"
    using assms by (auto simp: sys_sbrk_def Let_def split: bind_splits)
qed

text \<open>The kernel's call as the program sees it, and its break.\<close>

definition kernel_sbrk :: "kernel sbrk" where
  "kernel_sbrk sz k = map_option (\<lambda>(k', r). (k', word_of_int r)) (sys_sbrk sz k)"

definition kernel_break :: "kernel \<Rightarrow> nat" where
  "kernel_break k = (case current k of Some (i, p) \<Rightarrow> unat (img_heap (p_image p)) | None \<Rightarrow> 0)"

lemma whole_pages: "4096 dvd unat (sz :: u64) \<Longrightarrow> sz AND 0xFFF = 0"
proof -
  assume "4096 dvd unat sz"
  then have "unat (take_bit 12 sz) = 0" by (simp add: unat_take_bit dvd_eq_mod_eq_0)
  then show ?thesis by (simp add: take_bit_eq_mask mask_eq_exp_minus_1 unat_eq_0)
qed

lemma kernel_sbrk_moves: "sbrk_moves kernel_sbrk kernel_break"
  unfolding sbrk_moves_def
proof (intro allI impI, elim conjE)
  fix sz k k' and r :: u64
  assume sz: "4096 dvd unat sz" "kernel_break k + unat sz \<le> 140737488355328" and call: "kernel_sbrk sz k = Some (k', r)"
  note al = whole_pages [OF sz(1)]
  obtain ans where a: "sys_sbrk sz k = Some (k', ans)" "r = word_of_int ans" using call by (auto simp: kernel_sbrk_def)
  obtain i p where c: "current k = Some (i, p)" using a(1) al by (auto simp: sys_sbrk_def split: bind_splits)
  from sys_sbrk_moves [OF c a(1) al] obtain p' where m: "r = img_heap (p_image p)" "current k' = Some (i, p')"
    "img_heap (p_image p') = img_heap (p_image p) + sz" using a(2) by auto
  have b: "kernel_break k = unat (img_heap (p_image p))" using c by (simp add: kernel_break_def)
  have "kernel_break k' = kernel_break k + unat sz"
    using m(2,3) sz(2) b by (simp add: kernel_break_def unat_word_ariths)
  then show "r = of_nat (kernel_break k) \<and> kernel_break k' = kernel_break k + unat sz" using m(1) b by simp
qed

end
