(* ===== verification/Programs.thy ===== *)
theory Programs
  imports Userland
begin

unbundle bit_operations_syntax

text \<open>
  The functions of \<open>libc/stdlib.c\<close>, the error numbers of \<open>kernel/sys/errno.h\<close> and \<open>libc/include/errno.h\<close>, and the programs \<open>uname\<close> and \<open>hello\<close> of \<open>userspace/\<close>. A program may end
  in the middle, by \<open>exit\<close>, so its result says whether \<open>main\<close> returned.
\<close>

section \<open>Utilities of the library\<close>

definition c_abs :: "int \<Rightarrow> int option" where
  "c_abs x = (if x < 0 then (if x = -2147483648 then None else Some (- x)) else Some x)"

definition c_atexit :: "'f \<Rightarrow> int" where
  "c_atexit func = - EINVAL"

definition c_getenv :: "string \<Rightarrow> string option" where
  "c_getenv s = None"

text \<open>\<open>_atoi\<close> is the kernel's \<open>atoi\<close>, statement by statement; \<open>atoi\<close> cuts its result to an \<open>int\<close>.\<close>

definition c_atoi64 :: "string \<Rightarrow> nat \<Rightarrow> int option" where
  "c_atoi64 buf radix =
     (if radix < 2 \<or> radix > 36 then Some (-4)
      else do { (res, sign) \<leftarrow> atoi_loop buf radix 0 False; Some (if sign then sint (- res) else sint res) })"

definition c_atoi :: "string \<Rightarrow> int option" where
  "c_atoi s = map_option c_int (c_atoi64 s 10)"

text \<open>Ending a program: \<open>_Exit\<close>, which \<open>exit\<close> is another name of, writes the streams out, \<open>abort\<close> does not.\<close>

definition c_exit :: "'w os \<Rightarrow> int \<Rightarrow> 'w libc \<Rightarrow> ('w libc \<times> int) option" where
  "c_exit os code st = do { st \<leftarrow> stdio_free os st; Some (st, code) }"

definition c_abort :: "'w libc \<Rightarrow> 'w libc \<times> int" where
  "c_abort st = (st, 1)"

text \<open>The decimal text of every \<open>int\<close> is read back.\<close>

lemma c_atoi_text:
  assumes "-2147483648 \<le> x" and "x < 2147483648" and "cstr s (int_text 10 x)"
  shows "c_atoi s = Some x"
proof -
  have "atoi s 10 = Some x" by (rule atoi_int_text) (use assms in simp_all)
  then have "c_atoi64 s 10 = Some x" by (simp add: c_atoi64_def atoi_def)
  then show ?thesis using assms(1,2) by (simp add: c_atoi_def c_int_def signed_of_int signed_take_bit_int_eq_self)
qed

section \<open>Front ends of the streams\<close>

text \<open>The functions of \<open>libc/stdio.c\<close> that only hand their arguments on, or that are still empty there.\<close>

definition fprintf :: "'w os \<Rightarrow> nat \<Rightarrow> string \<Rightarrow> varg list \<Rightarrow> 'w libc \<Rightarrow> ('w libc \<times> int) option" where
  "fprintf os stream fmt args st = vfprintf os stream fmt args st"

definition vprintf :: "'w os \<Rightarrow> string \<Rightarrow> varg list \<Rightarrow> 'w libc \<Rightarrow> ('w libc \<times> int) option" where
  "vprintf os fmt args st = vfprintf os 1 fmt args st"

definition printf :: "'w os \<Rightarrow> string \<Rightarrow> varg list \<Rightarrow> 'w libc \<Rightarrow> ('w libc \<times> int) option" where
  "printf os fmt args st = vprintf os fmt args st"

definition snprintf :: "string \<Rightarrow> nat \<Rightarrow> string \<Rightarrow> varg list \<Rightarrow> (string \<times> int) option" where
  "snprintf str sz fmt args = vsnprintf str sz fmt args"

definition sprintf :: "string \<Rightarrow> string \<Rightarrow> varg list \<Rightarrow> (string \<times> int) option" where
  "sprintf str fmt args = vsprintf str fmt args"

definition getchar :: "'w os \<Rightarrow> 'w libc \<Rightarrow> ('w libc \<times> int) option" where
  "getchar os st = fgetc os 0 st"

definition remove_path :: "'w os \<Rightarrow> string \<Rightarrow> 'w libc \<Rightarrow> ('w libc \<times> int) option" where
  "remove_path os path st = unlink os path st"

definition rename_path :: "string \<Rightarrow> string \<Rightarrow> 'w libc \<Rightarrow> 'w libc \<times> int" where
  "rename_path oldp newp st = (st, -1)"

definition ferror :: "nat \<Rightarrow> int" where
  "ferror stream = 0"

definition setbuf :: "nat \<Rightarrow> string option \<Rightarrow> 'w libc \<Rightarrow> 'w libc" where
  "setbuf stream buf st = st"

section \<open>\<open>uname\<close>\<close>

record utsname =
  u_sysname :: string
  u_nodename :: string
  u_release :: string
  u_version :: string
  u_machine :: string

datatype main_end = Returned int | Exited int

definition uname :: "('w \<Rightarrow> ('w \<times> int \<times> utsname) option) \<Rightarrow> 'w libc \<Rightarrow> ('w libc \<times> int \<times> utsname) option" where
  "uname sys st = map_option (\<lambda>(st, r, u). (st, c_int r, u)) (call sys st)"

abbreviation (input) SWITCH_KERN_NAME :: u32 where "SWITCH_KERN_NAME \<equiv> 0x01"
abbreviation (input) SWITCH_NODENAME :: u32 where "SWITCH_NODENAME \<equiv> 0x02"
abbreviation (input) SWITCH_KERN_RELEASE :: u32 where "SWITCH_KERN_RELEASE \<equiv> 0x04"
abbreviation (input) SWITCH_KERN_VER :: u32 where "SWITCH_KERN_VER \<equiv> 0x08"
abbreviation (input) SWITCH_MACHINE :: u32 where "SWITCH_MACHINE \<equiv> 0x10"

text \<open>The letters of one argument; they are over, the letter \<open>a\<close> ends the whole scan, or one is unknown.\<close>

datatype letters = Letters_on u32 | Letters_all | Letters_usage

fun decode_letters :: "string \<Rightarrow> u32 \<Rightarrow> letters" where
  "decode_letters [] result = Letters_on result"
| "decode_letters (p # ps) result =
     (if p = CHR ''a'' then Letters_all
      else if p = CHR ''o'' \<or> p = CHR ''s'' then decode_letters ps (result OR SWITCH_KERN_NAME)
      else if p = CHR ''n'' then decode_letters ps (result OR SWITCH_NODENAME)
      else if p = CHR ''r'' then decode_letters ps (result OR SWITCH_KERN_RELEASE)
      else if p = CHR ''v'' then decode_letters ps (result OR SWITCH_KERN_VER)
      else if p = CHR ''m'' then decode_letters ps (result OR SWITCH_MACHINE)
      else Letters_usage)"

text \<open>The loop over the arguments; no result means that \<open>usage\<close> is called, which does not return.\<close>

fun decode_switches :: "string list \<Rightarrow> u32 \<Rightarrow> u32 option" where
  "decode_switches [] result = Some (if result = 0 then result OR SWITCH_KERN_NAME else result)"
| "decode_switches (arg # args) result =
     (if arg = [] \<or> hd arg \<noteq> CHR ''-'' then None
      else (case decode_letters (tl arg) result of
          Letters_on result \<Rightarrow> decode_switches args result
        | Letters_all \<Rightarrow> Some (SWITCH_KERN_NAME OR SWITCH_NODENAME OR SWITCH_KERN_RELEASE OR SWITCH_KERN_VER OR SWITCH_MACHINE)
        | Letters_usage \<Rightarrow> None))"

definition uname_usage :: "'w os \<Rightarrow> 'w libc \<Rightarrow> ('w libc \<times> main_end) option" where
  "uname_usage os st = do {
     (st, _) \<leftarrow> puts os ''usage: uname [-asnrvmo]'' st;
     (st, code) \<leftarrow> c_exit os 0 st;
     Some (st, Exited code) }"

definition uname_field :: "'w os \<Rightarrow> bool \<Rightarrow> string \<Rightarrow> 'w libc \<Rightarrow> 'w libc option" where
  "uname_field os b s st = (if b then map_option fst (printf os ''%s '' [Arg_text (Some s)] st) else Some st)"

definition uname_main :: "'w os \<Rightarrow> ('w \<Rightarrow> ('w \<times> int \<times> utsname) option) \<Rightarrow> string list \<Rightarrow> 'w libc \<Rightarrow> ('w libc \<times> main_end) option" where
  "uname_main os sys argv st = (case decode_switches (tl argv) 0 of
       None \<Rightarrow> uname_usage os st
     | Some switches \<Rightarrow> do {
         (st, _, u) \<leftarrow> uname sys st;
         st \<leftarrow> uname_field os (switches AND SWITCH_KERN_NAME \<noteq> 0) (u_sysname u) st;
         st \<leftarrow> uname_field os (switches AND SWITCH_NODENAME \<noteq> 0) (u_nodename u) st;
         st \<leftarrow> uname_field os (switches AND SWITCH_KERN_VER \<noteq> 0) (u_version u) st;
         st \<leftarrow> uname_field os (switches AND SWITCH_KERN_RELEASE \<noteq> 0) (u_release u) st;
         st \<leftarrow> uname_field os (switches AND SWITCH_MACHINE \<noteq> 0) (u_machine u) st;
         (st, _) \<leftarrow> printf os [CHR 0x0A] [] st;
         Some (st, Returned 0) })"

definition hello_main :: "'w os \<Rightarrow> 'w libc \<Rightarrow> ('w libc \<times> main_end) option" where
  "hello_main os st = do { (st, _) \<leftarrow> puts os ''Hello, world!'' st; Some (st, Returned 0) }"

section \<open>What \<open>uname\<close> prints\<close>

text \<open>The fields that a set of letters asks for, in the order in which they are printed.\<close>

definition chosen :: "char set \<Rightarrow> utsname \<Rightarrow> string list" where
  "chosen L u = (let ask = (\<lambda>cs. CHR ''a'' \<in> L \<or> L \<inter> cs \<noteq> {}) in
     (if L = {} \<or> ask {CHR ''s'', CHR ''o''} then [u_sysname u] else []) @ (if ask {CHR ''n''} then [u_nodename u] else []) @
     (if ask {CHR ''v''} then [u_version u] else []) @ (if ask {CHR ''r''} then [u_release u] else []) @
     (if ask {CHR ''m''} then [u_machine u] else []))"

definition letters_of :: "string list \<Rightarrow> char set" where
  "letters_of args = (\<Union>arg \<in> set args. set (tl arg))"

definition switch_bit :: "char \<Rightarrow> nat" where
  "switch_bit c = (if c = CHR ''n'' then 1 else if c = CHR ''r'' then 2 else if c = CHR ''v'' then 3 else if c = CHR ''m'' then 4 else 0)"

lemma or_switch:
  assumes "j < 5"
  shows "(r :: u32) OR 2 ^ j \<noteq> 0" and "k < 5 \<Longrightarrow> bit (r OR 2 ^ j) k \<longleftrightarrow> bit r k \<or> k = j"
proof -
  have "bit (r OR 2 ^ j) j" using assms by (simp add: bit_or_iff bit_exp_iff)
  then show "r OR 2 ^ j \<noteq> 0" by auto
  show "k < 5 \<Longrightarrow> bit (r OR 2 ^ j) k \<longleftrightarrow> bit r k \<or> k = j" using assms by (auto simp: bit_or_iff bit_exp_iff)
qed

lemma decode_letters_bits:
  assumes "set ps \<subseteq> set ''snrvmo''"
  shows "\<exists>r'. decode_letters ps r = Letters_on r' \<and> (r' = 0 \<longleftrightarrow> r = 0 \<and> ps = []) \<and>
    (\<forall>k < 5. bit r' k \<longleftrightarrow> bit r k \<or> k \<in> switch_bit ` set ps)"
  using assms
proof (induction ps arbitrary: r)
  case (Cons p ps)
  have j: "switch_bit p < 5" by (simp add: switch_bit_def)
  have "p \<in> set ''snrvmo''" using Cons.prems by simp
  then have step: "decode_letters (p # ps) r = decode_letters ps (r OR 2 ^ switch_bit p)"
    by (auto simp: switch_bit_def)
  obtain r' where "decode_letters ps (r OR 2 ^ switch_bit p) = Letters_on r'" "r' \<noteq> 0"
    "\<forall>k < 5. bit r' k \<longleftrightarrow> bit (r OR 2 ^ switch_bit p) k \<or> k \<in> switch_bit ` set ps"
    using Cons.IH [of "r OR 2 ^ switch_bit p"] Cons.prems or_switch(1) [OF j] by auto
  then show ?case unfolding step using or_switch(2) [OF j] by auto
qed simp

lemma decode_letters_all: "set ps \<subseteq> set ''asnrvmo'' \<Longrightarrow> CHR ''a'' \<in> set ps \<Longrightarrow> decode_letters ps r = Letters_all"
  by (induction ps arbitrary: r) auto

definition switch_args :: "string list \<Rightarrow> bool" where
  "switch_args args \<longleftrightarrow> list_all (\<lambda>arg. arg \<noteq> [] \<and> hd arg = CHR ''-'' \<and> set (tl arg) \<subseteq> set ''asnrvmo'') args"

lemma decode_switches_bits:
  assumes "switch_args args"
  shows "\<exists>sw. decode_switches args r = Some sw \<and> (\<forall>k < 5. bit sw k \<longleftrightarrow> CHR ''a'' \<in> letters_of args \<or> bit r k \<or>
    k \<in> switch_bit ` letters_of args \<or> (k = 0 \<and> r = 0 \<and> letters_of args = {}))"
  using assms
proof (induction args arbitrary: r)
  case Nil
  have "bit (1 :: u32) k \<longleftrightarrow> k = 0" for k by (simp add: bit_1_iff)
  then show ?case by (auto simp: letters_of_def)
next
  case (Cons arg args)
  have arg: "arg \<noteq> []" "hd arg = CHR ''-''" "set (tl arg) \<subseteq> set ''asnrvmo''" and args: "switch_args args"
    using Cons.prems by (simp_all add: switch_args_def)
  have L: "letters_of (arg # args) = set (tl arg) \<union> letters_of args" by (auto simp: letters_of_def)
  show ?case
  proof (cases "CHR ''a'' \<in> set (tl arg)")
    case True
    have m: "(0x1F :: u32) = mask 5" by (simp add: mask_eq_exp_minus_1)
    have "\<forall>k < 5. bit (0x1F :: u32) k" unfolding m by (simp add: bit_mask_iff)
    then show ?thesis using decode_letters_all [OF arg(3) True, of r] arg(1,2) True by (auto simp: L)
  next
    case False
    then have "set (tl arg) \<subseteq> set ''snrvmo''" using arg(3) by auto
    from decode_letters_bits [OF this, of r] obtain r' where r': "decode_letters (tl arg) r = Letters_on r'"
      "r' = 0 \<longleftrightarrow> r = 0 \<and> tl arg = []" "\<forall>k < 5. bit r' k \<longleftrightarrow> bit r k \<or> k \<in> switch_bit ` set (tl arg)" by blast
    from Cons.IH [OF args, of r'] obtain sw where sw: "decode_switches args r' = Some sw"
      "\<forall>k < 5. bit sw k \<longleftrightarrow> CHR ''a'' \<in> letters_of args \<or> bit r' k \<or> k \<in> switch_bit ` letters_of args \<or> (k = 0 \<and> r' = 0 \<and> letters_of args = {})"
      by blast
    have "decode_switches (arg # args) r = Some sw" using arg(1,2) r'(1) sw(1) by simp
    moreover have "bit sw k \<longleftrightarrow> CHR ''a'' \<in> letters_of (arg # args) \<or> bit r k \<or> k \<in> switch_bit ` letters_of (arg # args) \<or>
        (k = 0 \<and> r = 0 \<and> letters_of (arg # args) = {})" if "k < 5" for k
      using sw(2) r'(2,3) that False by (auto simp: L image_Un)
    ultimately show ?thesis by blast
  qed
qed

lemma uname_field_ok:
  assumes "writing os fd sink 1 st"
  shows "\<exists>st'. uname_field os b s st = Some st' \<and> writing os fd sink 1 st' \<and>
    sent sink 1 st' = sent sink 1 st @ concat (map (\<lambda>t. t @ '' '') (if b then [s] else []))"
proof (cases b)
  case True
  have "\<exists>k. printf_text ''%s '' [Arg_text (Some s)] = Some (s @ '' '', k)" by (simp add: printf_eval string_text_def)
  then obtain k where "printf_text ''%s '' [Arg_text (Some s)] = Some (s @ '' '', k)" by blast
  from vfprintf_ok [OF assms this] True show ?thesis by (auto simp: uname_field_def printf_def vprintf_def)
qed (use assms in \<open>simp add: uname_field_def\<close>)

lemma puts_ok:
  assumes "writing os fd sink 1 st"
  shows "\<exists>st'. puts os s st = Some (st', 0) \<and> writing os fd sink 1 st' \<and> sent sink 1 st' = sent sink 1 st @ s @ [CHR 0x0A]"
proof -
  have loop: "\<exists>st'. fwrite_loop os cs 1 (length cs) 1 st = Some (st', length cs) \<and> writing os fd sink 1 st' \<and> sent sink 1 st' = sent sink 1 st @ cs"
    if "writing os fd sink 1 st" for cs st
    using that
  proof (induction cs arbitrary: st)
    case (Cons c cs)
    from write_bytes_ok [OF Cons.prems, of "[c]"] obtain st1 where
      1: "write_bytes os 1 [c] st = Some (st1, 1)" "writing os fd sink 1 st1" "sent sink 1 st1 = sent sink 1 st @ [c]" by auto
    from Cons.IH [OF 1(2)] 1 show ?case by (auto simp: mem_read_def)
  qed simp
  from loop [OF assms, of s] obtain st1 where 1: "fwrite_loop os s 1 (length s) 1 st = Some (st1, length s)"
    "writing os fd sink 1 st1" "sent sink 1 st1 = sent sink 1 st @ s" by blast
  from loop [OF 1(2), of "[CHR 0x0A]"] obtain st2 where 2: "fwrite_loop os [CHR 0x0A] 1 1 1 st1 = Some (st2, 1)"
    "writing os fd sink 1 st2" "sent sink 1 st2 = sent sink 1 st1 @ [CHR 0x0A]" by auto
  have "puts os s st = Some (st2, 0)" unfolding puts_def fwrite_def using 1(1) 2(1) by (simp del: One_nat_def fwrite_loop.simps)
  then show ?thesis using 1(3) 2(2,3) by simp
qed

lemma switch_test: "(sw :: u32) AND 1 \<noteq> 0 \<longleftrightarrow> bit sw 0" "sw AND 2 \<noteq> 0 \<longleftrightarrow> bit sw 1" "sw AND 4 \<noteq> 0 \<longleftrightarrow> bit sw 2"
  "sw AND 8 \<noteq> 0 \<longleftrightarrow> bit sw 3" "sw AND 16 \<noteq> 0 \<longleftrightarrow> bit sw 4"
  using and_exp_eq_0_iff_not_bit [of sw 0] and_exp_eq_0_iff_not_bit [of sw 1] and_exp_eq_0_iff_not_bit [of sw 2]
    and_exp_eq_0_iff_not_bit [of sw 3] and_exp_eq_0_iff_not_bit [of sw 4] by simp_all

text \<open>
  \<open>uname\<close> prints what its switches ask for. When every argument is a group of known letters, the
  system call's texts are printed, each followed by a blank, in the order name, node, version, release,
  machine, whatever the order of the letters: the name also when no letter was given, everything with
  the letter \<open>a\<close>; then a newline, and the program ends with 0.
\<close>

lemma uname_prints:
  assumes w: "writing os fd sink 1 st" and sys: "sys (lc_world st) = Some (w, r, u)" "sink w = sink (lc_world st)"
    and args: "switch_args (tl argv)"
  shows "\<exists>st'. uname_main os sys argv st = Some (st', Returned 0) \<and> writing os fd sink 1 st' \<and>
    sent sink 1 st' = sent sink 1 st @ concat (map (\<lambda>t. t @ '' '') (chosen (letters_of (tl argv)) u)) @ [CHR 0x0A]"
proof -
  let ?L = "letters_of (tl argv)"
  from decode_switches_bits [OF args, of 0] obtain sw where sw: "decode_switches (tl argv) 0 = Some sw"
    "\<And>k. k < 5 \<Longrightarrow> bit sw k \<longleftrightarrow> CHR ''a'' \<in> ?L \<or> k \<in> switch_bit ` ?L \<or> (k = 0 \<and> ?L = {})" by auto
  have known: "?L \<subseteq> set ''asnrvmo''" using args by (auto simp: letters_of_def switch_args_def list_all_iff)
  from call_writing [OF w, of sys w "(r, u)", OF sys] obtain st0 where st0: "uname sys st = Some (st0, c_int r, u)" "writing os fd sink 1 st0"
    "sent sink 1 st0 = sent sink 1 st" by (auto simp: uname_def)
  from uname_field_ok [OF st0(2), of "sw AND SWITCH_KERN_NAME \<noteq> 0" "u_sysname u"] obtain st1 where
    st1: "uname_field os (sw AND SWITCH_KERN_NAME \<noteq> 0) (u_sysname u) st0 = Some st1" "writing os fd sink 1 st1"
      "sent sink 1 st1 = sent sink 1 st0 @ concat (map (\<lambda>t. t @ '' '') (if bit sw 0 then [u_sysname u] else []))"
    unfolding switch_test by blast
  from uname_field_ok [OF st1(2), of "sw AND SWITCH_NODENAME \<noteq> 0" "u_nodename u"] obtain st2 where
    st2: "uname_field os (sw AND SWITCH_NODENAME \<noteq> 0) (u_nodename u) st1 = Some st2" "writing os fd sink 1 st2"
      "sent sink 1 st2 = sent sink 1 st1 @ concat (map (\<lambda>t. t @ '' '') (if bit sw 1 then [u_nodename u] else []))"
    unfolding switch_test by blast
  from uname_field_ok [OF st2(2), of "sw AND SWITCH_KERN_VER \<noteq> 0" "u_version u"] obtain st3 where
    st3: "uname_field os (sw AND SWITCH_KERN_VER \<noteq> 0) (u_version u) st2 = Some st3" "writing os fd sink 1 st3"
      "sent sink 1 st3 = sent sink 1 st2 @ concat (map (\<lambda>t. t @ '' '') (if bit sw 3 then [u_version u] else []))"
    unfolding switch_test by blast
  from uname_field_ok [OF st3(2), of "sw AND SWITCH_KERN_RELEASE \<noteq> 0" "u_release u"] obtain st4 where
    st4: "uname_field os (sw AND SWITCH_KERN_RELEASE \<noteq> 0) (u_release u) st3 = Some st4" "writing os fd sink 1 st4"
      "sent sink 1 st4 = sent sink 1 st3 @ concat (map (\<lambda>t. t @ '' '') (if bit sw 2 then [u_release u] else []))"
    unfolding switch_test by blast
  from uname_field_ok [OF st4(2), of "sw AND SWITCH_MACHINE \<noteq> 0" "u_machine u"] obtain st5 where
    st5: "uname_field os (sw AND SWITCH_MACHINE \<noteq> 0) (u_machine u) st4 = Some st5" "writing os fd sink 1 st5"
      "sent sink 1 st5 = sent sink 1 st4 @ concat (map (\<lambda>t. t @ '' '') (if bit sw 4 then [u_machine u] else []))"
    unfolding switch_test by blast
  have "printf_text [CHR 0x0A] [] = Some ([CHR 0x0A], 1)" by (simp add: printf_eval)
  from vfprintf_ok [OF st5(2) this] obtain st6 n where st6: "vfprintf os 1 [CHR 0x0A] [] st5 = Some (st6, n)" "writing os fd sink 1 st6"
    "sent sink 1 st6 = sent sink 1 st5 @ [CHR 0x0A]" by auto
  have "chosen ?L u = (if bit sw 0 then [u_sysname u] else []) @ (if bit sw 1 then [u_nodename u] else []) @
      (if bit sw 3 then [u_version u] else []) @ (if bit sw 2 then [u_release u] else []) @ (if bit sw 4 then [u_machine u] else [])"
    using known sw(2) by (auto simp: chosen_def switch_bit_def image_iff Let_def)
  then show ?thesis using sw(1) st0 st1 st2 st3 st4 st5 st6 by (auto simp: uname_main_def printf_def vprintf_def)
qed

text \<open>The texts that the kernel's \<open>sys_uname\<close> stores.\<close>

definition voxel_uts :: utsname where
  "voxel_uts = \<lparr>u_sysname = ''voxel'', u_nodename = ''localhost'', u_release = [CHR 0x22] @ ''Unsought Origin'' @ [CHR 0x22],
     u_version = ''Voxel 1.0.0-dev'', u_machine = ''x86_64''\<rparr>"

lemma uname_prints_witness:
  "\<exists>st'. uname_main example_os (\<lambda>w. Some (w, 0, voxel_uts)) [''uname'', ''-ms'', ''-v''] (example_libc []) = Some (st', Returned 0) \<and>
    sent ew_sink 1 st' = ''voxel Voxel 1.0.0-dev x86_64 '' @ [CHR 0x0A]"
proof -
  have "switch_args [''-ms'', ''-v'']" "letters_of [''-ms'', ''-v''] = {CHR ''m'', CHR ''s'', CHR ''v''}"
    by (auto simp: switch_args_def letters_of_def)
  moreover have "sent ew_sink 1 (example_libc []) = []"
    by (simp add: sent_def example_libc_def stdio_init_def std_stream_def)
  ultimately show ?thesis
    using uname_prints [OF example_writing [of "[]"], of "\<lambda>w. Some (w, 0, voxel_uts)" _ 0 voxel_uts "[''uname'', ''-ms'', ''-v'']"]
    by (auto simp: chosen_def voxel_uts_def)
qed

lemma hello_prints:
  assumes "writing os fd sink 1 st"
  shows "\<exists>st'. hello_main os st = Some (st', Returned 0) \<and> sent sink 1 st' = sent sink 1 st @ ''Hello, world!'' @ [CHR 0x0A]"
  using puts_ok [OF assms, of "''Hello, world!''"] by (auto simp: hello_main_def)

text \<open>
  An argument that is not a switch ends \<open>uname\<close> after its usage line, with the status of success.
\<close>

lemma uname_usage_succeeds:
  "decode_switches (tl argv) 0 = None \<Longrightarrow> uname_main os sys argv st = Some (st', e) \<Longrightarrow> e = Exited 0"
  by (auto simp: uname_main_def uname_usage_def c_exit_def elim!: bind_SomeE)

section \<open>Error numbers\<close>

definition kernel_errno :: "(string \<times> int) list" where
  "kernel_errno = [
     (''EPERM'', 1), (''ENOENT'', 2), (''ESRCH'', 3), (''EINTR'', 4), (''EIO'', 5), (''ENXIO'', 6),
     (''E2BIG'', 7), (''ENOEXEC'', 8), (''EBADF'', 9), (''ECHILD'', 10), (''EAGAIN'', 11), (''ENOMEM'', 12),
     (''EACCES'', 13), (''EFAULT'', 14), (''ENOTBLK'', 15), (''EBUSY'', 16), (''EEXIST'', 17), (''EXDEV'', 18),
     (''ENODEV'', 19), (''ENOTDIR'', 20), (''EISDIR'', 21), (''EINVAL'', 22), (''ENFILE'', 23), (''EMFILE'', 24),
     (''ENOTTY'', 25), (''ETXTBSY'', 26), (''EFBIG'', 27), (''ENOSPC'', 28), (''ESPIPE'', 29), (''EROFS'', 30),
     (''EMLINK'', 31), (''EPIPE'', 32), (''EDOM'', 33), (''ERANGE'', 34), (''EDEADLK'', 35), (''ENAMETOOLONG'', 36),
     (''ENOLCK'', 37), (''ENOSYS'', 38), (''ENOTEMPTY'', 39), (''ELOOP'', 40), (''EWOULDBLOCK'', 11), (''ENOMSG'', 42),
     (''EIDRM'', 43), (''ECHRNG'', 44), (''EL2NSYNC'', 45), (''EL3HLT'', 46), (''EL3RST'', 47), (''ELNRNG'', 48),
     (''EUNATCH'', 49), (''ENOCSI'', 50), (''EL2HLT'', 51), (''EBADE'', 52), (''EBADR'', 53), (''EXFULL'', 54),
     (''ENOANO'', 55), (''EBADRQC'', 56), (''EBADSLT'', 57), (''EDEADLOCK'', 35), (''EBFONT'', 59), (''ENOSTR'', 60),
     (''ENODATA'', 61), (''ETIME'', 62), (''ENOSR'', 63), (''ENONET'', 64), (''ENOPKG'', 65), (''EREMOTE'', 66),
     (''ENOLINK'', 67), (''EADV'', 68), (''ESRMNT'', 69), (''ECOMM'', 70), (''EPROTO'', 71), (''EMULTIHOP'', 72),
     (''EDOTDOT'', 73), (''EBADMSG'', 74), (''EOVERFLOW'', 75), (''ENOTUNIQ'', 76), (''EBADFD'', 77), (''EREMCHG'', 78),
     (''ELIBACC'', 79), (''ELIBBAD'', 80), (''ELIBSCN'', 81), (''ELIBMAX'', 82), (''ELIBEXEC'', 83), (''EILSEQ'', 84),
     (''ERESTART'', 85), (''ESTRPIPE'', 86), (''EUSERS'', 87), (''ENOTSOCK'', 88), (''EDESTADDRREQ'', 89), (''EMSGSIZE'', 90),
     (''EPROTOTYPE'', 91), (''ENOPROTOOPT'', 92), (''EPROTONOSUPPORT'', 93), (''ESOCKTNOSUPPORT'', 94), (''EOPNOTSUPP'', 95), (''EPFNOSUPPORT'', 96),
     (''EAFNOSUPPORT'', 97), (''EADDRINUSE'', 98), (''EADDRNOTAVAIL'', 99), (''ENETDOWN'', 100), (''ENETUNREACH'', 101), (''ENETRESET'', 102),
     (''ECONNABORTED'', 103), (''ECONNRESET'', 104), (''ENOBUFS'', 105), (''EISCONN'', 106), (''ENOTCONN'', 107), (''ESHUTDOWN'', 108),
     (''ETOOMANYREFS'', 109), (''ETIMEDOUT'', 110), (''ECONNREFUSED'', 111), (''EHOSTDOWN'', 112), (''EHOSTUNREACH'', 113), (''EALREADY'', 114),
     (''EINPROGRESS'', 115), (''ESTALE'', 116), (''EUCLEAN'', 117), (''ENOTNAM'', 118), (''ENAVAIL'', 119), (''EISNAM'', 120),
     (''EREMOTEIO'', 121), (''EDQUOT'', 122), (''ENOMEDIUM'', 123), (''EMEDIUMTYPE'', 124), (''ECANCELED'', 125), (''ENOKEY'', 126),
     (''EKEYEXPIRED'', 127), (''EKEYREVOKED'', 128), (''EKEYREJECTED'', 129), (''EOWNERDEAD'', 130), (''ENOTRECOVERABLE'', 131)]"

definition libc_errno :: "(string \<times> int) list" where
  "libc_errno = [
     (''EPERM'', 1), (''ENOENT'', 2), (''ESRCH'', 3), (''EINTR'', 4), (''EIO'', 5), (''ENXIO'', 6),
     (''E2BIG'', 7), (''ENOEXEC'', 8), (''EBADF'', 9), (''ECHILD'', 10), (''EAGAIN'', 11), (''ENOMEM'', 12),
     (''EACCES'', 13), (''EFAULT'', 14), (''ENOTBLK'', 15), (''EBUSY'', 16), (''EEXIST'', 17), (''EXDEV'', 18),
     (''ENODEV'', 19), (''ENOTDIR'', 20), (''EISDIR'', 21), (''EINVAL'', 22), (''ENFILE'', 23), (''EMFILE'', 24),
     (''ENOTTY'', 25), (''ETXTBSY'', 26), (''EFBIG'', 27), (''ENOSPC'', 28), (''ESPIPE'', 29), (''EROFS'', 30),
     (''EMLINK'', 31), (''EPIPE'', 32), (''EDOM'', 33), (''ERANGE'', 34), (''EDEADLK'', 35), (''ENAMETOOLONG'', 36),
     (''ENOLCK'', 37), (''ENOSYS'', 38), (''ENOTEMPTY'', 39), (''ELOOP'', 40), (''EWOULDBLOCK'', 11), (''ENOMSG'', 42),
     (''EIDRM'', 43), (''ECHRNG'', 44), (''EL2NSYNC'', 45), (''EL3HLT'', 46), (''EL3RST'', 47), (''ELNRNG'', 48),
     (''EUNATCH'', 49), (''ENOCSI'', 50), (''EL2HLT'', 51), (''EBADE'', 52), (''EBADR'', 53), (''EXFULL'', 54),
     (''ENOANO'', 55), (''EBADRQC'', 56), (''EBADSLT'', 57), (''EDEADLOCK'', 35), (''EBFONT'', 59), (''ENOSTR'', 60),
     (''ENODATA'', 61), (''ETIME'', 62), (''ENOSR'', 63), (''ENONET'', 64), (''ENOPKG'', 65), (''EREMOTE'', 66),
     (''ENOLINK'', 67), (''EADV'', 68), (''ESRMNT'', 69), (''ECOMM'', 70), (''EPROTO'', 71), (''EMULTIHOP'', 72),
     (''EDOTDOT'', 73), (''EBADMSG'', 74), (''EOVERFLOW'', 75), (''ENOTUNIQ'', 76), (''EBADFD'', 77), (''EREMCHG'', 78),
     (''ELIBACC'', 79), (''ELIBBAD'', 80), (''ELIBSCN'', 81), (''ELIBMAX'', 82), (''ELIBEXEC'', 83), (''EILSEQ'', 84),
     (''ERESTART'', 85), (''ESTRPIPE'', 86), (''EUSERS'', 87), (''ENOTSOCK'', 88), (''EDESTADDRREQ'', 89), (''EMSGSIZE'', 90),
     (''EPROTOTYPE'', 91), (''ENOPROTOOPT'', 92), (''EPROTONOSUPPORT'', 93), (''ESOCKTNOSUPPORT'', 94), (''EOPNOTSUPP'', 95), (''EPFNOSUPPORT'', 96),
     (''EAFNOSUPPORT'', 97), (''EADDRINUSE'', 98), (''EADDRNOTAVAIL'', 99), (''ENETDOWN'', 100), (''ENETUNREACH'', 101), (''ENETRESET'', 102),
     (''ECONNABORTED'', 103), (''ECONNRESET'', 104), (''ENOBUFS'', 105), (''EISCONN'', 106), (''ENOTCONN'', 107), (''ESHUTDOWN'', 108),
     (''ETOOMANYREFS'', 109), (''ETIMEDOUT'', 110), (''ECONNREFUSED'', 111), (''EHOSTDOWN'', 112), (''EHOSTUNREACH'', 113), (''EALREADY'', 114),
     (''EINPROGRESS'', 115), (''ESTALE'', 116), (''EUCLEAN'', 117), (''ENOTNAM'', 118), (''ENAVAIL'', 119), (''EISNAM'', 120),
     (''EREMOTEIO'', 121), (''EDQUOT'', 122), (''ENOMEDIUM'', 123), (''EMEDIUMTYPE'', 124), (''ECANCELED'', 125), (''ENOKEY'', 126),
     (''EKEYEXPIRED'', 127), (''EKEYREVOKED'', 128), (''EKEYREJECTED'', 129), (''EOWNERDEAD'', 130), (''ENOTRECOVERABLE'', 131), (''ENOTSUP'', 132)]"

text \<open>
  The kernel and the library give every error the same number, and the library has a text for all of
  them.
\<close>

lemma errno_agree: "libc_errno = kernel_errno @ [(''ENOTSUP'', 132)]"
  by (simp add: kernel_errno_def libc_errno_def)

lemma errno_numbers: "map snd libc_errno = 1 # [2..40] @ 11 # [42..57] @ 35 # [59..132]"
  by (simp add: libc_errno_def)

lemma errlist_numbers: "map fst errlist = 1 # [2..40] @ [42..57] @ [59..132]"
  by (simp add: errlist_def)

lemma errno_texts: "(s, e) \<in> set libc_errno \<Longrightarrow> map_of errlist e \<noteq> None"
proof -
  assume "(s, e) \<in> set libc_errno"
  then have "e \<in> set (map snd libc_errno)" by force
  then have "e \<in> set (map fst errlist)" unfolding errno_numbers errlist_numbers by auto
  then show ?thesis by (simp add: map_of_eq_None_iff)
qed

lemma kernel_errors_have_texts:
  assumes "(s, e) \<in> set kernel_errno"
  shows "\<exists>t. strerror e = Some t \<and> map_of errlist e = Some t"
proof -
  have "(s, e) \<in> set libc_errno" using assms by (simp add: errno_agree)
  then obtain t where "map_of errlist e = Some t" using errno_texts by blast
  then show ?thesis by (simp add: strerror_def)
qed

end
