(* ===== verification/Spec2Isabelle.thy ===== *)
theory Spec2Isabelle
  imports Prelude Kmem Ringbuffer Cstring Frames Alloc Paging Fs_Node Tmpfs Tty Ramdiskfs Vfs Tree Process Usermem Elf Syscall Kprintf Terminal Interrupts Libprintf Stdio Libstring Userland Bootmem Bootmap Bootfs Nodetypes Kmain Mkvfs Progstart Libmalloc Programs
begin

text \<open>
  A verification development for \<open>voxel\<close>, a small monolithic x86-64 kernel written in C, with the
  buffered streams of its C library.

  \<^bold>\<open>The program and its parts.\<close> The boot loader gives the kernel a memory map, from which the frame
  table is built. The heap, the page tables and the files of the memory file system take their
  memory from that table, one 4 KiB frame at a time. A file system switch finds the driver of a node
  (memory files, the RAM disk, terminals, null and zero); processes keep open nodes in descriptor
  tables and give up the processor when the clock ticks. System calls tie all of this together and
  follow the pointers of the caller through its page tables. The C library sits on top of the calls.

  \<^bold>\<open>Theories and code\<close> (paths under \<open>src/\<close>; each definition has the name of the C function where
  Isabelle allows it).
  \<^item> \<open>Prelude\<close>, \<open>Kmem\<close>: \<open>size_t\<close> arithmetic with its wrap-around, checked memory objects, error
    numbers, loops over a range; byte-addressed memory with little-endian loads, stores and copies.
  \<^item> \<open>Ringbuffer\<close> (\<open>kernel/lib/ringbuffer.c\<close>), \<open>Cstring\<close> (\<open>kernel/lib/string.c\<close>, \<open>stdlib.c\<close>,
    \<open>ctype.c\<close>), \<open>Tree\<close> (\<open>kernel/lib/tree.c\<close>), \<open>Kprintf\<close> (\<open>kernel/lib/kprintf.c\<close>).
  \<^item> \<open>Frames\<close> (the frame allocator of \<open>kernel/cpu/mmu.c\<close>), \<open>Alloc\<close> (\<open>kernel/lib/alloc.c\<close>), \<open>Paging\<close>
    (page tables, reference counts, copy-on-write and pointer checks of \<open>mmu.c\<close>), \<open>Usermem\<close> (what
    the processor and \<open>page_fault_handler\<close> make of the kernel's accesses to user memory).
  \<^item> \<open>Fs_Node\<close> (\<open>fs_node_t\<close> and \<open>check_permission\<close>), \<open>Tmpfs\<close> (\<open>kernel/sys/fs/tmpfs.c\<close>), \<open>Tty\<close>
    (\<open>dev/tty.c\<close>), \<open>Ramdiskfs\<close> (\<open>ramdiskfs.c\<close>, \<open>dev/zero.c\<close>), \<open>Vfs\<close> (\<open>vfs.c\<close>).
  \<^item> \<open>Process\<close> (\<open>kernel/sys/process.c\<close>), \<open>Elf\<close> (\<open>kernel/lib/elf.c\<close>, \<open>cpu/userspace.c\<close>), \<open>Syscall\<close>
    (\<open>kernel/sys/syscall.c\<close>, all 26 calls and the dispatch).
  \<^item> \<open>Terminal\<close> (\<open>kernel/lib/terminal.c\<close>, \<open>kernel/video/\<close>), \<open>Interrupts\<close> (descriptor tables,
    interrupt controller, keyboard and clock of \<open>kernel/cpu/\<close>).
  \<^item> \<open>Bootmem\<close> (the multiboot map in \<open>kernel/kmain.c\<close>, the frame table of \<open>mmu_init\<close>), \<open>Bootmap\<close> (the static
    page tables that \<open>mmu_init\<close> fills), \<open>Bootfs\<close> (\<open>copy_directory\<close> and the first mounts of \<open>kmain\<close>) and \<open>Kmain\<close>
    (its first terminal, its framebuffer's memory and the listing \<open>dir_dump\<close>).
  \<^item> \<open>Nodetypes\<close> translates no code of its own: it is a type system for the nodes and objects of the drivers, over
    the state machine that the operations of \<open>Vfs\<close>, \<open>Tmpfs\<close>, \<open>Tty\<close> and \<open>Bootfs\<close> make.
  \<^item> \<open>Libprintf\<close> and \<open>Stdio\<close> (\<open>libc/stdio.c\<close>), \<open>Libstring\<close> (the string scanning of \<open>libc/string.c\<close> and the
    word loop of \<open>userspace/sh.c\<close>), \<open>Userland\<close> (the system call wrappers of \<open>libc/\<close>, and \<open>ls\<close>, \<open>sh\<close> and \<open>init\<close> of
    \<open>userspace/\<close>).
  \<^item> \<open>Progstart\<close> (\<open>libc/_main.c\<close>, run on the argument block that \<open>Elf\<close> pushes) and \<open>Libmalloc\<close>
    (\<open>libc/malloc.c\<close>); \<open>Programs\<close> (\<open>libc/stdlib.c\<close>, the error numbers, \<open>uname\<close> and \<open>hello\<close>).
  \<^item> \<open>Mkvfs\<close> (\<open>ramdiskfs_tool/\<close>, the host tool that makes the boot image, and its reading library).

  \<^bold>\<open>State.\<close> Each component has its record (\<open>mmu\<close>, \<open>tmpfs\<close>, \<open>ttys\<close>, \<open>vfs\<close>, \<open>kernel\<close>, \<open>libc\<close>, ...) that
  its operations take and return; the kernel's record contains those of the components below it.
  Objects that C code shares through pointers (tmpfs entries, terminals, processes, tree nodes,
  streams) live in maps from addresses, \<open>fs_node_t\<close> objects, which every call copies, are values, and
  page tables, heap blocks and file blocks are bytes of one memory.

  \<^bold>\<open>Conventions.\<close> A result \<open>None\<close> means that the C code has no defined behaviour there: an access outside an
  object or through a null or freed pointer, a read of uninitialised memory, signed overflow, or a
  loop that does not end. Errors that the code reports are negative numbers, \<open>- EINVAL\<close> and so on. Integers
  are words, or numbers below \<open>2 ^ 64\<close> added with \<open>add64\<close> and \<open>sub64\<close>. The identity and the
  descriptors of the current process are passed to the drivers as \<open>cred\<close>. Names fit the
  256 bytes their C arrays have. What fresh memory contains, and the addresses of driver objects, are
  arguments (\<open>junk\<close>, \<open>environment\<close>, \<open>os_junk\<close>). A call that blocks, \<open>waitpid\<close>, is resumed at its
  test. The C library reaches the kernel through the record \<open>os\<close> of system calls.

  \<^bold>\<open>What is shown.\<close>
  \<^item> Memory: after booting exactly the frames wholly in available memory above the kernel, the modules and the frame
    table are free, for a map of page-aligned regions (\<open>Bootmem\<close>); frames are
    handed out once and given back once, runs are contiguous (\<open>Frames\<close>); blocks of the heap do not
    overlap used memory, \<open>free\<close> undoes \<open>malloc\<close>, \<open>realloc\<close> keeps the contents (\<open>Alloc\<close>); lookups
    build missing tables and leave other mappings alone, after a fork neither side sees the other's writes, a
    shared page is released with its last owner, and the check of user pointers lets only mapped user
    pages through (\<open>Paging\<close>); after \<open>mmu_init\<close> every address translates as the kernel's layout says and the
    page at 0 faults (\<open>Bootmap\<close>). The allocator's interface is the locale \<open>frame_set\<close>.
  \<^item> Files: reads and writes of a memory file refine reads and writes of a byte string; creating and
    unlinking refine a finite map, through the locale \<open>directory\<close>; listing enumerates it; unlinking gives the
    blocks of the file back (\<open>Tmpfs\<close>). Opening a path name resolves it component by component, mounts first, and every
    change needs the permission bit (\<open>Vfs\<close>, which keeps the scan of the code: the character behind a slash is never
    tested, so a doubled slash ends up in a name). Copying the RAM disk keeps contents (\<open>Bootfs\<close>);
    every node that a name leads to carries the object its functions cast it to, in every reachable state; nodes that
    were opened earlier are not covered (\<open>Nodetypes\<close>); the listing at boot shows the tree (\<open>Kmain\<close>); directories of an
    image are listed and searched in order, and both loops end (\<open>Ramdiskfs\<close>); what the host
    tool writes the kernel reads back, path by path (\<open>Mkvfs\<close>).
  \<^item> Terminals: ring buffers refine a bounded queue (locale \<open>byte_fifo\<close>), the line discipline delivers what
    was typed, the table of terminals stays sane over every step (\<open>Tty\<close>), drawing never leaves the
    screen (\<open>Terminal\<close>).
  \<^item> Processes and calls: the ready queue is served in turn, a fork gives a child with the parent's
    descriptors and 0 as its result (\<open>Process\<close>), \<open>open\<close> gives a descriptor only with the access that the node
    permits, a descriptor for reading never writes, whatever happens in between, closed descriptors are refused (\<open>Syscall\<close>).
  \<^item> Text: \<open>atoi\<close> inverts \<open>itoa\<close>, \<open>strstr\<close> finds the first occurrence, \<open>memmove\<close> copies overlapping
    ranges, \<open>kprintf\<close> prints decimals, \<open>vsnprintf\<close> stays in its buffer, \<open>fread\<close> delivers
    the kernel's bytes in order, \<open>fprintf\<close> delivers its text to the kernel (\<open>Cstring\<close>, \<open>Kprintf\<close>,
    \<open>Libprintf\<close>, \<open>Stdio\<close>).
  \<^item> Programs: the shell reads a line, cuts it into its words and runs it, \<open>ls\<close> prints the names of a
    directory in order, \<open>uname\<close> the fields its switches ask for, and every error number of the kernel has a text in
    the library (\<open>Libstring\<close>, \<open>Userland\<close>, \<open>Programs\<close>).
  \<^item> Programs and the kernel: a program finds the arguments and the environment that \<open>execve\<close> was given, where the
    start code looks for them (\<open>Progstart\<close>, which also shows that user memory behaves like memory); the
    library's heap refines a list of byte strings that share nothing, over what the kernel's \<open>sbrk\<close> is
    shown to do (\<open>Libmalloc\<close>).
  \<^item> Lemmas outside these groups show where the code does not do what it means to, for instance
    \<open>process_delete_uses_freed\<close>, \<open>sys_close_wide\<close> or \<open>fdopen_overruns\<close>.

  \<^bold>\<open>Loops.\<close> No definition takes fuel. Loops over a counter are \<open>for_each\<close> or recursion on the
  counter; scans of a text or a format are functions with a measure; loops that follow memory
  contents, a request of a driver or a queue are partial functions, and the properties about them
  prove that they return.

  \<^bold>\<open>Not modelled.\<close> Assembly (\<open>kernel/boot.s\<close>, \<open>isr.s\<close>, \<open>gdt.s\<close>, \<open>process.s\<close>): it moves registers;
  its effect appears as the assignment of the current process and the registers handed to
  handlers. The order of hardware initialisation in \<open>kmain\<close>: writes to fixed places. The kernel's
  messages: output only. The digits that \<open>_printf\<close> prints for finite doubles: floating point
  arithmetic. The string functions of the C library that the kernel has too.
  The frames that the kernel's heap takes for the objects, names and block arrays of memory files: in \<open>Tmpfs\<close> and
  \<open>Bootfs\<close> the frames are those of file blocks, and allocating an object always succeeds.
  Reads from ports are arguments, writes a trace. Interrupts do not arrive inside an operation: the code
  runs its handlers and calls with interrupts off.
\<close>

end
